(* ===== verification/Prelude.thy ===== *)
theory Prelude
  imports Main
begin

text \<open>
  Shared vocabulary of the development: results with errors as values, tables as lists of
  rows with the queries the Prisma client offers (\<open>findFirst\<close>, \<open>findMany\<close>, \<open>count\<close>,
  \<open>updateMany\<close>), partial unique indexes, and the generic lemmas and lemma collections the
  component theories use.
\<close>

section \<open>Basic types\<close>

type_synonym id = nat
type_synonym ms = int  \<comment> \<open>a JavaScript \<open>Date\<close>: milliseconds since the epoch\<close>
type_synonym paise = int

named_theorems success_simps \<open>when a guarded computation ends in \<open>Inr\<close>\<close>
named_theorems table_simps \<open>rows, counts and lookups after an update of a table\<close>

section \<open>Results: a thrown AppException is the left summand\<close>

definition guardE :: "bool \<Rightarrow> 'e \<Rightarrow> 'e + 'a \<Rightarrow> 'e + 'a" where
  "guardE ok e k = (if ok then k else Inl e)"

definition theE :: "'b option \<Rightarrow> 'e \<Rightarrow> ('b \<Rightarrow> 'e + 'a) \<Rightarrow> 'e + 'a" where
  "theE x e k = (case x of None \<Rightarrow> Inl e | Some y \<Rightarrow> k y)"

definition bindE :: "'e + 'b \<Rightarrow> ('b \<Rightarrow> 'e + 'a) \<Rightarrow> 'e + 'a" where
  "bindE m k = (case m of Inl e \<Rightarrow> Inl e | Inr y \<Rightarrow> k y)"

lemma guardE_Inr [success_simps]: "guardE ok e k = Inr y \<longleftrightarrow> ok \<and> k = Inr y"
  by (simp add: guardE_def)

lemma theE_Inr [success_simps]: "theE x e k = Inr y \<longleftrightarrow> (\<exists>z. x = Some z \<and> k z = Inr y)"
  by (simp add: theE_def split: option.splits)

lemma bindE_Inr [success_simps]: "bindE m k = Inr y \<longleftrightarrow> (\<exists>z. m = Inr z \<and> k z = Inr y)"
  by (simp add: bindE_def split: sum.splits)

lemma guardE_Inl: "guardE ok e k = Inl d \<longleftrightarrow> (\<not> ok \<and> e = d) \<or> (ok \<and> k = Inl d)"
  by (auto simp: guardE_def)

lemma guardE_True [simp]: "guardE True e k = k"
  and guardE_False [simp]: "guardE False e k = Inl e"
  by (simp_all add: guardE_def)

lemma theE_Some [simp]: "theE (Some y) e k = k y"
  and theE_None [simp]: "theE None e k = Inl e"
  by (simp_all add: theE_def)

lemma bindE_simps [simp]: "bindE (Inr y) k = k y" "bindE (Inl e) k = Inl e"
  by (simp_all add: bindE_def)

definition is_ok :: "'e + 'a \<Rightarrow> bool" where
  "is_ok m = (case m of Inl _ \<Rightarrow> False | Inr _ \<Rightarrow> True)"

lemma is_ok_simps [simp]: "is_ok (Inr x)" "\<not> is_ok (Inl e)"
  by (simp_all add: is_ok_def)

lemma is_ok_iff: "is_ok m \<longleftrightarrow> (\<exists>x. m = Inr x)"
  by (cases m) auto

definition orElse :: "'a option \<Rightarrow> 'a option \<Rightarrow> 'a option" where
  \<comment> \<open>the \<open>??\<close> operator on nullable values\<close>
  "orElse x y = (case x of None \<Rightarrow> y | Some v \<Rightarrow> Some v)"

definition nvl :: "'a option \<Rightarrow> 'a \<Rightarrow> 'a" where
  "nvl x d = (case x of None \<Rightarrow> d | Some v \<Rightarrow> v)"

lemma nvl_simps [simp]: "nvl (Some v) d = v" "nvl None d = d"
  by (simp_all add: nvl_def)

lemma orElse_simps [simp]: "orElse None y = y" "orElse (Some v) y = Some v"
  by (simp_all add: orElse_def)

section \<open>Tables\<close>

text \<open>
  A table is the list of its rows in insertion order. \<open>upd_where p f\<close> is
  \<open>updateMany(where p, data f)\<close>; its affected-row count is \<open>count_where p\<close> of the table
  before the update.
\<close>

definition count_where :: "('r \<Rightarrow> bool) \<Rightarrow> 'r list \<Rightarrow> nat" where
  "count_where p rs = length (filter p rs)"

definition upd_where :: "('r \<Rightarrow> bool) \<Rightarrow> ('r \<Rightarrow> 'r) \<Rightarrow> 'r list \<Rightarrow> 'r list" where
  "upd_where p f rs = map (\<lambda>r. if p r then f r else r) rs"

definition exists_where :: "('r \<Rightarrow> bool) \<Rightarrow> 'r list \<Rightarrow> bool" where
  "exists_where p rs = (find p rs \<noteq> None)"

lemma upd_where_simps [simp]:
  "upd_where p f [] = []"
  "upd_where p f (r # rs) = (if p r then f r else r) # upd_where p f rs"
  by (simp_all add: upd_where_def)

lemma length_upd_where [simp]: "length (upd_where p f rs) = length rs"
  by (simp add: upd_where_def)

lemma upd_where_append [simp]: "upd_where p f (rs @ qs) = upd_where p f rs @ upd_where p f qs"
  by (simp add: upd_where_def)

lemma set_upd_where: "set (upd_where p f rs) = (\<lambda>r. if p r then f r else r) ` set rs"
  by (simp add: upd_where_def)

lemma in_upd_where:
  "x \<in> set (upd_where p f rs) \<longleftrightarrow> (\<exists>r\<in>set rs. x = (if p r then f r else r))"
  by (auto simp: set_upd_where)

lemma upd_where_memI: "r \<in> set rs \<Longrightarrow> (if p r then f r else r) \<in> set (upd_where p f rs)"
  by (auto simp: set_upd_where)

lemma exists_where_iff [table_simps]: "exists_where p rs \<longleftrightarrow> (\<exists>r\<in>set rs. p r)"
  by (auto simp: exists_where_def find_None_iff)

lemma find_SomeD: "find p rs = Some r \<Longrightarrow> r \<in> set rs \<and> p r"
  by (auto simp: find_Some_iff)

lemma count_where_0 [table_simps]: "count_where p rs = 0 \<longleftrightarrow> (\<forall>r\<in>set rs. \<not> p r)"
  by (auto simp: count_where_def filter_empty_conv)

lemma count_where_pos: "count_where p rs \<noteq> 0 \<longleftrightarrow> (\<exists>r\<in>set rs. p r)"
  by (auto simp: count_where_def filter_empty_conv)

lemma count_where_gt: "0 < count_where p rs \<longleftrightarrow> (\<exists>r\<in>set rs. p r)"
  using count_where_pos [of p rs] by simp

lemma count_where_Nil [simp]: "count_where p [] = 0"
  and count_where_Cons [simp]: "count_where p (r # rs) = (if p r then 1 else 0) + count_where p rs"
  by (simp_all add: count_where_def)

lemma count_where_append [simp]: "count_where p (rs @ qs) = count_where p rs + count_where p qs"
  by (simp add: count_where_def)

lemma count_where_mono: "(\<And>r. r \<in> set rs \<Longrightarrow> p r \<Longrightarrow> q r) \<Longrightarrow> count_where p rs \<le> count_where q rs"
  by (induction rs) (auto simp: le_SucI)

lemma count_where_upd_le:
  assumes "\<And>r. r \<in> set rs \<Longrightarrow> q r \<Longrightarrow> p (f r) \<Longrightarrow> p r"
  shows "count_where p (upd_where q f rs) \<le> count_where p rs"
  using assms by (induction rs) (auto simp: le_SucI)

lemma map_upd_where:
  assumes "\<And>r. r \<in> set rs \<Longrightarrow> q r \<Longrightarrow> g (f r) = g r"
  shows "map g (upd_where q f rs) = map g rs"
  using assms by (induction rs) auto

subsection \<open>Partial unique indexes\<close>

text \<open>
  \<open>uniq_on k p rs\<close>: among the rows that satisfy the index predicate \<open>p\<close> the key \<open>k\<close> is
  unique (\<open>CREATE UNIQUE INDEX ... (k) WHERE p\<close>).
\<close>

definition uniq_on :: "('r \<Rightarrow> 'k) \<Rightarrow> ('r \<Rightarrow> bool) \<Rightarrow> 'r list \<Rightarrow> bool" where
  "uniq_on k p rs = distinct (map k (filter p rs))"

lemma uniq_on_Nil [simp]: "uniq_on k p []"
  by (simp add: uniq_on_def)

lemma uniq_on_Cons [table_simps]:
  "uniq_on k p (r # rs) \<longleftrightarrow> uniq_on k p rs \<and> (p r \<longrightarrow> (\<forall>q\<in>set rs. p q \<longrightarrow> k q \<noteq> k r))"
  by (auto simp: uniq_on_def image_iff)

lemma uniq_on_snoc [table_simps]:
  "uniq_on k p (rs @ [r]) \<longleftrightarrow> uniq_on k p rs \<and> (p r \<longrightarrow> (\<forall>q\<in>set rs. p q \<longrightarrow> k q \<noteq> k r))"
  by (auto simp: uniq_on_def image_iff)

lemma uniq_onD:
  assumes "uniq_on k p rs" "q \<in> set rs" "r \<in> set rs" "p q" "p r" "k q = k r"
  shows "q = r"
  using assms by (simp add: uniq_on_def distinct_map) (metis (mono_tags, lifting) inj_onD mem_Collect_eq)

text \<open>An update that enters no row into the index and keeps the keys of those in it.\<close>

lemma uniq_on_upd_shrink:
  assumes "uniq_on k p rs"
    and "\<And>r. r \<in> set rs \<Longrightarrow> q r \<Longrightarrow> p (f r) \<Longrightarrow> p r \<and> k (f r) = k r"
  shows "uniq_on k p (upd_where q f rs)"
  using assms
proof (induction rs)
  case (Cons r rs)
  let ?g = "\<lambda>s. if q s then f s else s"
  have rest: "uniq_on k p (upd_where q f rs)"
    using Cons by (simp add: uniq_on_Cons)
  have g: "p s \<and> k (?g s) = k s" if "s \<in> set (r # rs)" "p (?g s)" for s
    using Cons.prems(2) [of s] that by (cases "q s") auto
  have "k (?g s) \<noteq> k (?g r)" if "s \<in> set rs" "p (?g s)" "p (?g r)" for s
    using Cons.prems(1) g [of s] g [of r] that by (auto simp: uniq_on_Cons)
  then have "\<forall>s'\<in>set (upd_where q f rs). p (?g r) \<longrightarrow> p s' \<longrightarrow> k s' \<noteq> k (?g r)"
    by (auto simp: in_upd_where)
  with rest show ?case
    by (simp add: uniq_on_Cons)
qed simp

text \<open>
  An update that hits one row (its identifier \<open>i\<close>) and gives it a key no other indexed row has.
\<close>

lemma uniq_on_upd_one:
  assumes "uniq_on k p rs" and "distinct (map i rs)"
    and one: "\<And>r. r \<in> set rs \<Longrightarrow> q r \<Longrightarrow> i r = n"
    and new: "\<And>r s. r \<in> set rs \<Longrightarrow> q r \<Longrightarrow> p (f r) \<Longrightarrow> s \<in> set rs \<Longrightarrow> i s \<noteq> n \<Longrightarrow> p s \<Longrightarrow> k s \<noteq> k (f r)"
  shows "uniq_on k p (upd_where q f rs)"
  using assms
proof (induction rs)
  case (Cons r rs)
  have rest: "uniq_on k p (upd_where q f rs)"
    by (rule Cons.IH) (use Cons.prems in \<open>auto simp: uniq_on_Cons\<close>)
  have other: "i s \<noteq> i r" if "s \<in> set rs" for s
    using Cons.prems(2) that by (auto simp: image_iff)
  show ?case
  proof (cases "q r")
    case True
    then have n: "i r = n" using Cons.prems(3) by simp
    have "\<not> q s" if "s \<in> set rs" for s
      using Cons.prems(3) [of s] other [OF that] that n by auto
    then have same: "set (upd_where q f rs) = set rs"
      by (simp add: set_upd_where)
    have "k s \<noteq> k (f r)" if "s \<in> set rs" "p s" "p (f r)" for s
      using Cons.prems(4) [of r s] that True other n by auto
    then show ?thesis
      using rest True by (auto simp: uniq_on_Cons same)
  next
    case False
    have "k s' \<noteq> k r" if "s' \<in> set (upd_where q f rs)" "p s'" "p r" for s'
    proof -
      from that(1) obtain s where s: "s \<in> set rs" "s' = (if q s then f s else s)"
        by (auto simp: in_upd_where)
      show ?thesis
      proof (cases "q s")
        case True
        then have "i s = n" using Cons.prems(3) s by simp
        then have "i r \<noteq> n" using other [OF s(1)] by simp
        then show ?thesis
          using Cons.prems(4) [of s r] s True that by auto
      next
        case False
        then show ?thesis
          using Cons.prems(1) s that by (auto simp: uniq_on_Cons)
      qed
    qed
    then show ?thesis
      using rest False by (auto simp: uniq_on_Cons)
  qed
qed simp

lemma distinct_key_eq:
  assumes "distinct (map i rs)" "r \<in> set rs" "s \<in> set rs" "i r = i s"
  shows "r = s"
  using assms by (metis distinct_map inj_onD)

lemma find_id_eq:
  assumes "distinct (map i rs)" "r \<in> set rs"
  shows "find (\<lambda>s. i s = i r) rs = Some r"
  using assms
proof (induction rs)
  case (Cons a rs)
  then show ?case by (cases "r = a") (auto simp: image_iff)
qed simp

section \<open>Sums over lists\<close>

lemma sum_list_nonneg_int:
  "(\<And>x. x \<in> set xs \<Longrightarrow> 0 \<le> x) \<Longrightarrow> 0 \<le> sum_list (xs :: int list)"
  by (induction xs) auto

lemma sum_list_upd_where:
  assumes "\<And>r. r \<in> set rs \<Longrightarrow> q r \<Longrightarrow> g (f r) = g r"
  shows "sum_list (map g (upd_where q f rs)) = sum_list (map g rs)"
  using assms by (simp add: map_upd_where)

section \<open>Runs of a step relation\<close>

text \<open>
  The contract every invariant proof of the development follows: an invariant that each step
  keeps holds after any run. Each component with a step relation interprets it.
\<close>

locale invariant =
  fixes step :: "'s \<Rightarrow> 's \<Rightarrow> bool"
    and inv :: "'s \<Rightarrow> bool"
  assumes step_inv: "step s t \<Longrightarrow> inv s \<Longrightarrow> inv t"
begin

lemma run_inv: "step\<^sup>*\<^sup>* s t \<Longrightarrow> inv s \<Longrightarrow> inv t"
  by (induction rule: rtranclp_induct) (auto intro: step_inv)

end

text \<open>
  The contract of a conditional claim (\<open>updateMany\<close> whose \<open>where\<close> re-checks the state): a
  claimed row no longer satisfies the claim's own condition, so of several competing claims on
  one row only one succeeds.
\<close>

locale single_claim =
  fixes claimable :: "'r \<Rightarrow> bool"
    and claim :: "'r \<Rightarrow> 'r"
  assumes claim_spent: "claimable r \<Longrightarrow> \<not> claimable (claim r)"
begin

lemma second_claim_fails: "count_where claimable (upd_where claimable claim rs) = 0"
  by (auto simp: count_where_0 set_upd_where dest: claim_spent)

lemma claim_idempotent: "upd_where claimable claim (upd_where claimable claim rs) = upd_where claimable claim rs"
  by (induction rs) (auto simp: claim_spent)

end

end
