(* ===== verification/Money.thy ===== *)
theory Money
  imports Complex_Main Prelude
begin

text \<open>
  Exact money (\<^verbatim>\<open>packages/shared/src/money/index.ts\<close>): amounts are integer paise, and the
  only ways in and out are decimal strings and JavaScript numbers with at most two fractional
  digits. Characters of a JavaScript string are modelled by Isabelle's 8-bit \<open>char\<close>; a
  JavaScript number that stands for an amount is an exact rational, so the statements are about
  amounts whose value a double represents (below \<open>2 ^ 53\<close> paise, far above the
  \<open>Decimal(10,2)\<close> columns).
\<close>

section \<open>Digits and decimal strings\<close>

definition is_digit :: "char \<Rightarrow> bool" where
  "is_digit c \<longleftrightarrow> 48 \<le> (of_char c :: nat) \<and> (of_char c :: nat) \<le> 57"

definition digit_val :: "char \<Rightarrow> int" where
  "digit_val c = int (of_char c) - 48"

definition digit_char :: "nat \<Rightarrow> char" where
  "digit_char n = char_of (48 + n)"

definition is_space :: "char \<Rightarrow> bool" where
  "is_space c \<longleftrightarrow> (of_char c :: nat) \<in> {9, 10, 11, 12, 13, 32, 160}"

definition js_trim :: "string \<Rightarrow> string" where
  "js_trim s = rev (dropWhile is_space (rev (dropWhile is_space s)))"

definition parse_int :: "string \<Rightarrow> int" where
  "parse_int s = foldl (\<lambda>n c. 10 * n + digit_val c) 0 s"

fun show_nat :: "nat \<Rightarrow> string" where
  "show_nat n = (if n < 10 then [digit_char n] else show_nat (n div 10) @ [digit_char (n mod 10)])"

declare show_nat.simps [simp del]

definition pad_end :: "nat \<Rightarrow> char \<Rightarrow> string \<Rightarrow> string" where
  "pad_end n c s = s @ replicate (n - length s) c"

definition pad_start :: "nat \<Rightarrow> char \<Rightarrow> string \<Rightarrow> string" where
  "pad_start n c s = replicate (n - length s) c @ s"

lemma digit_char_props:
  assumes "n < 10"
  shows "is_digit (digit_char n)" "digit_val (digit_char n) = int n" "digit_char n \<noteq> CHR ''.''"
    "digit_char n \<noteq> CHR ''-''" "\<not> is_space (digit_char n)"
proof -
  have n: "of_char (digit_char n) = 48 + n"
    using assms by (simp add: digit_char_def)
  then show "is_digit (digit_char n)" "digit_val (digit_char n) = int n"
    "\<not> is_space (digit_char n)"
    using assms by (auto simp: is_digit_def digit_val_def is_space_def)
  show "digit_char n \<noteq> CHR ''.''" "digit_char n \<noteq> CHR ''-''"
    using n by (auto dest: arg_cong [where f = "of_char :: char \<Rightarrow> nat"])
qed

lemma parse_int_append: "parse_int (s @ [c]) = 10 * parse_int s + digit_val c"
  by (simp add: parse_int_def)

lemma parse_int_show_nat: "parse_int (show_nat n) = int n"
proof (induction n rule: show_nat.induct)
  case (1 n)
  show ?case
  proof (cases "n < 10")
    case True
    then show ?thesis
      by (simp add: show_nat.simps [of n] digit_char_props) (simp add: parse_int_def digit_char_props)
  next
    case False
    then have "parse_int (show_nat n) = 10 * int (n div 10) + int (n mod 10)"
      using 1 by (simp add: show_nat.simps [of n] parse_int_append digit_char_props)
    moreover have "int n = int (10 * (n div 10) + n mod 10)" by simp
    ultimately show ?thesis by (simp only: of_nat_add of_nat_mult of_nat_numeral)
  qed
qed

lemma show_nat_props:
  "show_nat n \<noteq> [] \<and> (\<forall>c\<in>set (show_nat n). is_digit c \<and> c \<noteq> CHR ''.'' \<and> c \<noteq> CHR ''-'' \<and> \<not> is_space c)"
proof (induction n rule: show_nat.induct)
  case (1 n)
  then show ?case
    by (cases "n < 10") (auto simp: show_nat.simps [of n] digit_char_props)
qed

lemma length_show_nat_small: "n < 10 \<Longrightarrow> length (show_nat n) = 1"
  and length_show_nat_two: "10 \<le> n \<Longrightarrow> n < 100 \<Longrightarrow> length (show_nat n) = 2"
  by (auto simp: show_nat.simps [of n] show_nat.simps [of "n div 10"])

section \<open>Conversions\<close>

datatype money_error = InvalidMoneyValue

text \<open>\<open>DECIMAL_STRING_PATTERN = /^-?\<setminus>d+(\<setminus>.\<setminus>d{1,2})?$/\<close>\<close>

definition decimal_pattern :: "string \<Rightarrow> bool" where
  "decimal_pattern s =
     (let u = (if s \<noteq> [] \<and> hd s = CHR ''-'' then tl s else s);
          w = takeWhile is_digit u; r = dropWhile is_digit u
      in w \<noteq> [] \<and> (r = [] \<or> (hd r = CHR ''.'' \<and> list_all is_digit (tl r)
                          \<and> (length (tl r) = 1 \<or> length (tl r) = 2))))"

definition decimalStringToPaise :: "string \<Rightarrow> money_error + paise" where
  "decimalStringToPaise value =
     (let trimmed = js_trim value in
      if \<not> decimal_pattern trimmed then Inl InvalidMoneyValue
      else
        let negative = (hd trimmed = CHR ''-'');
            unsigned = (if negative then tl trimmed else trimmed);
            wholePart = takeWhile (\<lambda>c. c \<noteq> CHR ''.'') unsigned;
            fractionPartRaw = drop 1 (dropWhile (\<lambda>c. c \<noteq> CHR ''.'') unsigned);
            fractionPart = pad_end 2 (CHR ''0'') fractionPartRaw;
            paise = parse_int wholePart * 100 + parse_int fractionPart
        in Inr (if negative then - paise else paise))"

definition numberToPaise :: "rat \<Rightarrow> money_error + paise" where
  "numberToPaise value =
     (if \<bar>value\<bar> \<ge> 10 ^ 21 \<or> of_int \<lfloor>value * 100\<rfloor> \<noteq> value * 100 then Inl InvalidMoneyValue
      else Inr \<lfloor>value * 100\<rfloor>)"

definition paiseToDecimalString :: "paise \<Rightarrow> string" where
  "paiseToDecimalString paise =
     (let negative = (paise < 0); a = nat \<bar>paise\<bar>;
          rupees = a div 100; remainder = a mod 100
      in (if negative then ''-'' else []) @ show_nat rupees @ ''.''
         @ pad_start 2 (CHR ''0'') (show_nat remainder))"

definition paiseToRupees :: "paise \<Rightarrow> rat" where
  "paiseToRupees paise = of_int paise / 100"

definition CREDIT_SLAB_AMOUNT_INR :: int where "CREDIT_SLAB_AMOUNT_INR = 50"
definition CREDIT_PER_SLAB_INR :: int where "CREDIT_PER_SLAB_INR = 10"

definition computeMaxRedeemableCreditsPaise :: "paise \<Rightarrow> money_error + paise" where
  "computeMaxRedeemableCreditsPaise subtotal =
     (if subtotal < 0 then Inl InvalidMoneyValue
      else let slabPaise = CREDIT_SLAB_AMOUNT_INR * 100;
               creditPerSlabPaise = CREDIT_PER_SLAB_INR * 100;
               slabs = subtotal div slabPaise
           in Inr (slabs * creditPerSlabPaise))"

definition computePercentageDiscountPaise :: "paise \<Rightarrow> int \<Rightarrow> money_error + paise" where
  "computePercentageDiscountPaise subtotal percent =
     (if subtotal < 0 then Inl InvalidMoneyValue
      else if percent < 0 \<or> 100 < percent then Inl InvalidMoneyValue
      else Inr ((subtotal * percent + 50) div 100))"

section \<open>Round trip\<close>

lemma js_trim_id:
  assumes "s \<noteq> []" "\<forall>c\<in>set s. \<not> is_space c"
  shows "js_trim s = s"
proof -
  have "dropWhile is_space s = s"
    using assms by (cases s) auto
  moreover have "dropWhile is_space (rev s) = rev s"
    using assms by (cases "rev s") (auto simp: rev_eq_Cons_iff)
  ultimately show ?thesis by (simp add: js_trim_def)
qed

lemma dot_props: "\<not> is_digit (CHR ''.'')" "\<not> is_space (CHR ''.'')" "\<not> is_space (CHR ''-'')"
  "is_digit (CHR ''0'')" "digit_val (CHR ''0'') = 0" "\<not> is_space (CHR ''0'')" "\<not> is_digit (CHR ''-'')"
  by (simp_all add: is_digit_def is_space_def digit_val_def)

lemma fraction_string:
  assumes "r < 100"
  defines "f \<equiv> pad_start 2 (CHR ''0'') (show_nat r)"
  shows "length f = 2" "list_all is_digit f" "\<forall>c\<in>set f. \<not> is_space c" "parse_int f = int r"
proof -
  have p: "show_nat r \<noteq> []" "list_all is_digit (show_nat r)" "\<forall>c\<in>set (show_nat r). \<not> is_space c"
    using show_nat_props [of r] by (auto simp: list_all_iff)
  show "length f = 2"
    using assms length_show_nat_small [of r] length_show_nat_two [of r]
    by (cases "r < 10") (auto simp: f_def pad_start_def)
  show "list_all is_digit f" "\<forall>c\<in>set f. \<not> is_space c"
    using p by (auto simp: f_def pad_start_def dot_props list_all_iff)
  have "parse_int (replicate k (CHR ''0'') @ s) = parse_int s" for k s
    by (induction k) (auto simp: parse_int_def dot_props)
  then show "parse_int f = int r"
    by (simp add: f_def pad_start_def parse_int_show_nat)
qed

lemma takeWhile_digits:
  assumes "\<forall>c\<in>set w. P c" "\<not> P d"
  shows "takeWhile P (w @ d # r) = w" "dropWhile P (w @ d # r) = d # r"
  using assms by (induction w) auto

lemma decimal_patternI:
  assumes "takeWhile is_digit u = w" "dropWhile is_digit u = CHR ''.'' # f" "w \<noteq> []" "u \<noteq> []"
    "hd u \<noteq> CHR ''-''" "length f = 2" "list_all is_digit f"
  shows "decimal_pattern u" "decimal_pattern (CHR ''-'' # u)"
  using assms by (simp_all add: decimal_pattern_def)

lemma decimalStringToPaise_eq:
  assumes "takeWhile (\<lambda>c. c \<noteq> CHR ''.'') u = w" "dropWhile (\<lambda>c. c \<noteq> CHR ''.'') u = CHR ''.'' # f"
    "hd u \<noteq> CHR ''-''" "length f = 2"
  shows "js_trim u = u \<Longrightarrow> decimal_pattern u \<Longrightarrow>
      decimalStringToPaise u = Inr (parse_int w * 100 + parse_int f)"
    and "js_trim (CHR ''-'' # u) = CHR ''-'' # u \<Longrightarrow> decimal_pattern (CHR ''-'' # u) \<Longrightarrow>
      decimalStringToPaise (CHR ''-'' # u) = Inr (- (parse_int w * 100 + parse_int f))"
  using assms by (simp_all add: decimalStringToPaise_def pad_end_def)

lemma decimal_parts:
  assumes "w \<noteq> []" "\<forall>c\<in>set w. is_digit c \<and> c \<noteq> CHR ''.'' \<and> c \<noteq> CHR ''-'' \<and> \<not> is_space c"
    and "length f = 2" "list_all is_digit f" "\<forall>c\<in>set f. \<not> is_space c"
  shows "decimalStringToPaise (w @ ''.'' @ f) = Inr (parse_int w * 100 + parse_int f)"
    and "decimalStringToPaise (CHR ''-'' # w @ ''.'' @ f) = Inr (- (parse_int w * 100 + parse_int f))"
proof -
  define u where "u = w @ CHR ''.'' # f"
  have ne: "u \<noteq> []" "hd u \<noteq> CHR ''-''"
    using assms(1,2) by (auto simp: u_def hd_append dest: hd_in_set)
  have trim: "js_trim u = u" "js_trim (CHR ''-'' # u) = CHR ''-'' # u"
  proof -
    have "\<not> is_space c" if "c \<in> set u" for c
      using that assms(2,5) dot_props(2) unfolding u_def by auto
    then have "\<forall>c\<in>set u. \<not> is_space c" "\<forall>c\<in>set (CHR ''-'' # u). \<not> is_space c"
      using dot_props(3) by auto
    then show "js_trim u = u" "js_trim (CHR ''-'' # u) = CHR ''-'' # u"
      using js_trim_id ne(1) by blast+
  qed
  have sp: "takeWhile is_digit u = w" "dropWhile is_digit u = CHR ''.'' # f"
    "takeWhile (\<lambda>c. c \<noteq> CHR ''.'') u = w" "dropWhile (\<lambda>c. c \<noteq> CHR ''.'') u = CHR ''.'' # f"
    unfolding u_def using assms(2) dot_props(1) by (simp_all add: takeWhile_digits)
  note pat = decimal_patternI [OF sp(1,2) assms(1) ne assms(3,4)]
  show "decimalStringToPaise (w @ ''.'' @ f) = Inr (parse_int w * 100 + parse_int f)"
    "decimalStringToPaise (CHR ''-'' # w @ ''.'' @ f) = Inr (- (parse_int w * 100 + parse_int f))"
    using decimalStringToPaise_eq(1) [OF sp(3,4) ne(2) assms(3) trim(1) pat(1)]
      decimalStringToPaise_eq(2) [OF sp(3,4) ne(2) assms(3) trim(2) pat(2)]
    unfolding u_def append_Cons append_Nil by blast+
qed

lemma decimal_of_paise: "decimalStringToPaise (paiseToDecimalString p) = Inr p"
proof -
  define a where "a = nat \<bar>p\<bar>"
  define w where "w = show_nat (a div 100)"
  define f where "f = pad_start 2 (CHR ''0'') (show_nat (a mod 100))"
  have f: "length f = 2" "list_all is_digit f" "\<forall>c\<in>set f. \<not> is_space c" "parse_int f = int (a mod 100)"
    unfolding f_def by (rule fraction_string; simp)+
  have w: "w \<noteq> []" "\<forall>c\<in>set w. is_digit c \<and> c \<noteq> CHR ''.'' \<and> c \<noteq> CHR ''-'' \<and> \<not> is_space c"
    using show_nat_props by (auto simp: w_def)
  have "int a = int (a div 100 * 100 + a mod 100)" by simp
  also have "\<dots> = parse_int w * 100 + parse_int f"
    by (simp only: of_nat_add of_nat_mult of_nat_numeral f(4) w_def parse_int_show_nat)
  finally have v: "parse_int w * 100 + parse_int f = \<bar>p\<bar>"
    by (simp add: a_def)
  have "paiseToDecimalString p = (if p < 0 then ''-'' else []) @ w @ ''.'' @ f"
    by (simp add: paiseToDecimalString_def Let_def a_def w_def f_def)
  then show ?thesis
    using decimal_parts [OF w f(1-3)] v by (cases "p < 0") simp_all
qed

text \<open>Printing an amount for a database write and parsing it back is the identity on every
  integer number of paise, negative ones included.\<close>

theorem paise_decimal_roundtrip: "decimalStringToPaise (paiseToDecimalString p) = Inr p"
  by (rule decimal_of_paise)

section \<open>Discounts and caps\<close>

lemma numberToPaise_paiseToRupees:
  assumes "\<bar>p\<bar> < 10 ^ 23"
  shows "numberToPaise (paiseToRupees p) = Inr p"
proof -
  have "(of_int \<bar>p\<bar> :: rat) < of_int (10 ^ 23)"
    using assms by (simp only: of_int_less_iff)
  then have "\<bar>paiseToRupees p\<bar> < 10 ^ 21"
    by (simp add: paiseToRupees_def)
  moreover have "paiseToRupees p * 100 = of_int p"
    by (simp add: paiseToRupees_def)
  ultimately show ?thesis
    by (simp add: numberToPaise_def)
qed

lemma discount_Inr:
  "computePercentageDiscountPaise s k = Inr d \<longleftrightarrow>
     0 \<le> s \<and> 0 \<le> k \<and> k \<le> 100 \<and> d = (s * k + 50) div 100"
  by (auto simp: computePercentageDiscountPaise_def split: if_splits)

lemma discount_bound:
  assumes "computePercentageDiscountPaise s k = Inr d"
  shows "0 \<le> d" "d \<le> s"
proof -
  have s: "0 \<le> s * k" "s * k \<le> s * 100" "d = (s * k + 50) div 100"
    using assms by (auto simp: discount_Inr mult_left_mono)
  then show "0 \<le> d" "d \<le> s" by simp_all
qed

text \<open>A percentage discount is the half-up rounding of the exact discount: it is within half
  a paisa of it, never negative and never more than the subtotal, and exactly the subtotal at
  100 percent and nothing at 0 percent.\<close>

theorem percentage_discount_rounding:
  assumes "computePercentageDiscountPaise s k = Inr d"
  shows "0 \<le> d \<and> d \<le> s \<and> 2 * (s * k) - 100 < 200 * d \<and> 200 * d \<le> 2 * (s * k) + 100
    \<and> (k = 100 \<longrightarrow> d = s) \<and> (k = 0 \<longrightarrow> d = 0)"
proof -
  from assms have s: "0 \<le> s" "0 \<le> k" "k \<le> 100" and d: "d = (s * k + 50) div 100"
    by (auto simp: discount_Inr)
  have x: "0 \<le> s * k" "s * k \<le> s * 100"
    using s by (simp_all add: mult_left_mono)
  have q: "100 * d + (s * k + 50) mod 100 = s * k + 50" "0 \<le> (s * k + 50) mod 100"
    "(s * k + 50) mod 100 < 100"
    using d by simp_all
  have "0 \<le> d" "d \<le> s" "2 * (s * k) - 100 < 200 * d" "200 * d \<le> 2 * (s * k) + 100"
    using x q by linarith+
  moreover have "k = 100 \<longrightarrow> d = s" "k = 0 \<longrightarrow> d = 0"
    using d by auto
  ultimately show ?thesis by blast
qed

theorem percentage_discount_rounding_witness:
  "computePercentageDiscountPaise 333 15 = Inr 50 \<and> (50::int) \<le> 333"
  using percentage_discount_rounding [of 333 15 50] by (simp add: discount_Inr)

lemma cap_Inr:
  "computeMaxRedeemableCreditsPaise s = Inr c \<longleftrightarrow> 0 \<le> s \<and> c = s div 5000 * 1000"
  by (auto simp: computeMaxRedeemableCreditsPaise_def CREDIT_SLAB_AMOUNT_INR_def CREDIT_PER_SLAB_INR_def)

lemma cap_bound: "computeMaxRedeemableCreditsPaise s = Inr c \<Longrightarrow> 0 \<le> c \<and> 5 * c \<le> s"
  by (auto simp: cap_Inr)

end
