(* ===== verification/Calc.thy ===== *)
theory Calc
  imports Money
begin

text \<open>
  The pure rules of \<^verbatim>\<open>packages/shared/src/calc/index.ts\<close>, shared by the server and its
  clients: charges, the free cancellation window, the credit redemption cap, capacities and
  queue estimates. JavaScript numbers are exact rationals here; \<open>Math.round\<close> rounds halves up.
\<close>

definition js_round :: "rat \<Rightarrow> int" where
  "js_round x = \<lfloor>x + 1 / 2\<rfloor>"

section \<open>Charges\<close>

datatype charge_type = FLAT | PERCENTAGE

record charge_rule =
  cr_type :: charge_type
  cr_value :: rat

definition computeChargeAmount :: "charge_rule \<Rightarrow> rat \<Rightarrow> rat" where
  "computeChargeAmount rule servicePrice =
     (let raw = (if cr_type rule = FLAT then cr_value rule else (cr_value rule / 100) * servicePrice)
      in min (max raw 0) servicePrice)"

record cancellation_policy =
  cp_freeCancellationWindowMinutes :: int
  cp_lateCancellationChargeType :: charge_type
  cp_lateCancellationChargeValue :: rat
  cp_noShowChargeType :: charge_type
  cp_noShowChargeValue :: rat

definition PLATFORM_MINIMUM_FREE_CANCELLATION_WINDOW_MINUTES :: int where
  "PLATFORM_MINIMUM_FREE_CANCELLATION_WINDOW_MINUTES = 60"

definition effectiveFreeCancellationWindowMinutes :: "int \<Rightarrow> int" where
  "effectiveFreeCancellationWindowMinutes configuredMinutes =
     max PLATFORM_MINIMUM_FREE_CANCELLATION_WINDOW_MINUTES configuredMinutes"

definition computeCancellationCharge :: "cancellation_policy \<Rightarrow> rat \<Rightarrow> rat \<Rightarrow> bool \<Rightarrow> rat" where
  "computeCancellationCharge policy servicePrice minutesUntilSlot isNoShow =
     (if isNoShow then
        computeChargeAmount \<lparr>cr_type = cp_noShowChargeType policy, cr_value = cp_noShowChargeValue policy\<rparr>
          servicePrice
      else if minutesUntilSlot \<ge> of_int (effectiveFreeCancellationWindowMinutes
                (cp_freeCancellationWindowMinutes policy)) then 0
      else computeChargeAmount \<lparr>cr_type = cp_lateCancellationChargeType policy,
             cr_value = cp_lateCancellationChargeValue policy\<rparr> servicePrice)"

definition computeMaxRedeemableCredits :: "rat \<Rightarrow> int" where
  "computeMaxRedeemableCredits servicePrice =
     (let slabs = \<lfloor>servicePrice / of_int CREDIT_SLAB_AMOUNT_INR\<rfloor> in slabs * CREDIT_PER_SLAB_INR)"

section \<open>Capacity and waiting time\<close>

definition computeSlotCapacity :: "nat \<Rightarrow> nat \<Rightarrow> nat" where
  "computeSlotCapacity qualifiedStaffCount activeChairCount = min qualifiedStaffCount activeChairCount"

definition isSlotBookable :: "nat \<Rightarrow> nat \<Rightarrow> bool" where
  "isSlotBookable slotCapacity consumedCapacity = (consumedCapacity < slotCapacity)"

definition estimateWaitMinutes :: "nat \<Rightarrow> nat \<Rightarrow> rat \<Rightarrow> rat \<Rightarrow> int option" where
  "estimateWaitMinutes serverCount peopleAhead avgServiceDurationMinutes activeSessionsRemainingMinutes =
     (if serverCount = 0 then None
      else let batchesAhead = peopleAhead div serverCount
           in Some (js_round (of_nat batchesAhead * avgServiceDurationMinutes
                              + activeSessionsRemainingMinutes)))"

definition OVERRUN_TAIL_MINUTES :: rat where "OVERRUN_TAIL_MINUTES = 5"

definition remainingSessionMinutes :: "rat \<Rightarrow> rat \<Rightarrow> rat" where
  "remainingSessionMinutes durationMinutes elapsedMinutes =
     (let remaining = durationMinutes - elapsedMinutes
      in if remaining > 0 then remaining else OVERRUN_TAIL_MINUTES)"

definition WAIT_RANGE_MIN_BAND_MINUTES :: int where "WAIT_RANGE_MIN_BAND_MINUTES = 5"

definition estimateWaitRangeMinutes :: "int option \<Rightarrow> (int \<times> int) option" where
  "estimateWaitRangeMinutes estimated =
     (case estimated of None \<Rightarrow> None
      | Some w \<Rightarrow> let band = max WAIT_RANGE_MIN_BAND_MINUTES (js_round (of_int w * (1 / 4)))
                  in Some (max 0 (w - band), w + band))"

definition TURN_APPROACHING_THRESHOLD_MINUTES :: int where "TURN_APPROACHING_THRESHOLD_MINUTES = 10"
definition MEANINGFUL_WAIT_CHANGE_MINUTES :: int where "MEANINGFUL_WAIT_CHANGE_MINUTES = 10"

definition isWaitAlertWorthy :: "int option \<Rightarrow> int option \<Rightarrow> bool" where
  "isWaitAlertWorthy previous next =
     (case next of None \<Rightarrow> False
      | Some n \<Rightarrow>
         let justApproaching = n \<le> TURN_APPROACHING_THRESHOLD_MINUTES \<and>
               (case previous of None \<Rightarrow> True | Some p \<Rightarrow> p > TURN_APPROACHING_THRESHOLD_MINUTES);
             meaningfulSwing = (case previous of None \<Rightarrow> False
                                | Some p \<Rightarrow> \<bar>n - p\<bar> \<ge> MEANINGFUL_WAIT_CHANGE_MINUTES)
         in justApproaching \<or> meaningfulSwing)"

definition summarizeServiceNames :: "string list \<Rightarrow> string" where
  "summarizeServiceNames names =
     (case names of [] \<Rightarrow> [] | [a] \<Rightarrow> a | [a, b] \<Rightarrow> a @ '' + '' @ b
      | _ \<Rightarrow> show_nat (length names) @ '' services'')"

section \<open>Lemmas\<close>

lemma charge_bounds: "0 \<le> price \<Longrightarrow> 0 \<le> computeChargeAmount r price \<and> computeChargeAmount r price \<le> price"
  by (simp add: computeChargeAmount_def Let_def)

lemma effective_window_ge:
  "60 \<le> effectiveFreeCancellationWindowMinutes m" "m \<le> effectiveFreeCancellationWindowMinutes m"
  by (simp_all add: effectiveFreeCancellationWindowMinutes_def
      PLATFORM_MINIMUM_FREE_CANCELLATION_WINDOW_MINUTES_def)

text \<open>The charge for a cancellation or a no-show is never negative and never more than the
  price of the service; a customer who cancels at least the effective window ahead (at least 60
  minutes and at least what the salon configured) pays nothing; giving more notice never costs
  more.\<close>

theorem cancellation_charge_bounds:
  assumes "0 \<le> price"
  shows "0 \<le> computeCancellationCharge pol price m ns \<and> computeCancellationCharge pol price m ns \<le> price
    \<and> (m \<ge> of_int (max 60 (cp_freeCancellationWindowMinutes pol)) \<longrightarrow>
         computeCancellationCharge pol price m False = 0)
    \<and> (m \<le> m' \<longrightarrow> computeCancellationCharge pol price m' False \<le> computeCancellationCharge pol price m False)"
  using charge_bounds [OF assms] assms
  by (auto simp: computeCancellationCharge_def effectiveFreeCancellationWindowMinutes_def
      PLATFORM_MINIMUM_FREE_CANCELLATION_WINDOW_MINUTES_def)

definition sample_policy :: cancellation_policy where
  "sample_policy = \<lparr>cp_freeCancellationWindowMinutes = 30, cp_lateCancellationChargeType = PERCENTAGE,
     cp_lateCancellationChargeValue = 50, cp_noShowChargeType = FLAT, cp_noShowChargeValue = 1000\<rparr>"

theorem cancellation_charge_bounds_witness:
  "computeCancellationCharge sample_policy 300 59 False = 150 \<and>
   computeCancellationCharge sample_policy 300 60 False = 0 \<and>
   computeCancellationCharge sample_policy 300 0 True = 300 \<and>
   computeCancellationCharge sample_policy 300 60 False \<le> computeCancellationCharge sample_policy 300 59 False"
  using cancellation_charge_bounds [of 300 sample_policy 59 False 60]
  by (simp add: computeCancellationCharge_def sample_policy_def effectiveFreeCancellationWindowMinutes_def
      PLATFORM_MINIMUM_FREE_CANCELLATION_WINDOW_MINUTES_def computeChargeAmount_def)

text \<open>The cap a client previews from the rupee price is, at every whole number of paise, the
  cap the server computes in paise and enforces; both are at most a fifth of the price.\<close>

theorem preview_cap_is_server_cap:
  assumes "computeMaxRedeemableCreditsPaise subtotal = Inr cap"
  shows "of_int (computeMaxRedeemableCredits (paiseToRupees subtotal)) * 100 = (of_int cap :: rat)
    \<and> 0 \<le> cap \<and> 5 * cap \<le> subtotal"
proof -
  have "\<lfloor>(of_int subtotal :: rat) / of_int 5000\<rfloor> = subtotal div 5000"
    by (rule floor_divide_of_int_eq)
  then have "\<lfloor>paiseToRupees subtotal / 50\<rfloor> = subtotal div 5000"
    by (simp add: paiseToRupees_def)
  then show ?thesis
    using assms cap_bound [OF assms]
    by (simp add: computeMaxRedeemableCredits_def CREDIT_SLAB_AMOUNT_INR_def CREDIT_PER_SLAB_INR_def cap_Inr)
qed

theorem preview_cap_is_server_cap_witness:
  "computeMaxRedeemableCreditsPaise 17550 = Inr 3000 \<and> (5::int) * 3000 \<le> 17550"
  using preview_cap_is_server_cap [of 17550 3000] by (simp add: cap_Inr)

lemma estimate_mono:
  assumes "estimateWaitMinutes n k d r = Some w" "estimateWaitMinutes n k' d r = Some w'" "k \<le> k'" "0 \<le> d"
  shows "w \<le> w'"
proof -
  have "(of_nat (k div n) :: rat) * d \<le> of_nat (k' div n) * d"
    using assms(3,4) by (intro mult_right_mono) (simp_all add: div_le_mono)
  then have "js_round (of_nat (k div n) * d + r) \<le> js_round (of_nat (k' div n) * d + r)"
    unfolding js_round_def by (intro floor_mono) simp
  then show ?thesis
    using assms(1,2) by (simp add: estimateWaitMinutes_def Let_def split: if_splits)
qed

lemma remaining_pos: "0 < remainingSessionMinutes d e"
  by (simp add: remainingSessionMinutes_def OVERRUN_TAIL_MINUTES_def Let_def)

end
