(* ===== verification/Schema.thy ===== *)
theory Schema
  imports Calc
begin

text \<open>
  The rows of \<^verbatim>\<open>apps/backend/prisma/schema.prisma\<close> the modelled services read and write, the
  enumerations of \<^verbatim>\<open>packages/shared/src/enums/index.ts\<close>, and the database as one record of
  tables. Identifiers are natural numbers handed out by \<open>db_next\<close> (the source uses random
  uuids; only their freshness is used). A \<open>Decimal(10,2)\<close> column is its exact number of paise.
  Enumerators that occur in several source enums carry a prefix: \<open>Q_\<close> for queue entries, \<open>B_\<close>
  for bookings, \<open>S_\<close> for service sessions.
\<close>

section \<open>Enumerations\<close>

datatype salon_status = SALON_PENDING | SALON_ACTIVE | SALON_SUSPENDED
datatype member_status = STAFF_ACTIVE | STAFF_INACTIVE
datatype chair_status = CHAIR_ACTIVE | CHAIR_INACTIVE | CHAIR_MAINTENANCE
datatype role = CUSTOMER | SALON_STAFF | SALON_OWNER | FIELD_EXECUTIVE | ROLE_PLATFORM_ADMIN
  | ROLE_CO_FOUNDER | HR_ADMIN | SALES_ADMIN | PLATFORM_VIEWER
datatype booking_status = B_PENDING_PAYMENT | B_CONFIRMED | B_CANCELLED | B_COMPLETED | B_NO_SHOW | B_EXPIRED
datatype booking_source = SRC_APP | SRC_WEB | SRC_WALK_IN | SRC_IN_SHOP
datatype entry_status = Q_WAITING | Q_CALLED | Q_IN_SERVICE | Q_COMPLETED | Q_NO_SHOW | Q_CANCELLED | Q_EXPIRED
datatype entry_source = WALK_IN | APPOINTMENT
datatype session_status = S_ACTIVE | S_COMPLETED | S_CANCELLED
datatype ledger_reason = CANCELLATION_CHARGE | NO_SHOW_CHARGE
datatype ledger_status = L_OUTSTANDING | L_SETTLED | L_WAIVED
datatype subsidy_status = SUB_OUTSTANDING | SUB_SETTLED | SUB_VOIDED
datatype credit_type = PROMO_GRANT | REDEEMED | RESTORED | MANUAL_ADJUSTMENT
datatype funding_source = FASTQUE_FUNDED | SHOP_FUNDED
datatype prepayment_requirement = PREPAY_NONE | PREPAY_OPTIONAL | PREPAY_PARTIAL | PREPAY_FULL
datatype cancellation_actor = ACTOR_CUSTOMER | ACTOR_OWNER | ACTOR_STAFF | ACTOR_ADMIN | ACTOR_SYSTEM

datatype app_error =
    SALON_NOT_FOUND | SERVICE_NOT_FOUND | STAFF_NOT_FOUND | STAFF_NOT_QUALIFIED
  | SALON_TIMEZONE_REQUIRED | BOOKING_NOT_FOUND | SLOT_IN_PAST | OUTSIDE_OPERATING_HOURS
  | SLOT_FULL | STAFF_SLOT_UNAVAILABLE | OUTSTANDING_BALANCE | BOOKING_NOT_CANCELLABLE
  | BOOKING_NOT_RESCHEDULABLE | CANCELLATION_POLICY_MISSING | DUPLICATE_SERVICE_SELECTION
  | CHAIR_NOT_FOUND | CHAIR_INACTIVE_ERROR | CHAIR_ALREADY_OCCUPIED | STAFF_ALREADY_OCCUPIED
  | SALON_ACCESS_DENIED | QUEUE_ENTRY_NOT_FOUND | SERVICE_SESSION_NOT_FOUND
  | INVALID_QUEUE_TRANSITION | ALREADY_CHECKED_IN | ALREADY_IN_QUEUE | CHECK_IN_TOO_EARLY
  | SERVICE_REQUIRED | CONTACT_PHONE_REQUIRED | STAFF_RESERVED_FOR_APPOINTMENT
  | APPOINTMENT_STAFF_LOCKED | NOT_ASSIGNED | NOT_YOUR_ASSIGNMENT | ASSIGNMENT_NOT_STARTABLE
  | NOT_YOUR_SERVICE_SESSION | QUEUE_ENTRY_ALREADY_ACTIVE | IN_SHOP_DUPLICATE_BOOKING
  | BOOKING_NOT_CANCELLABLE_BY_SHOP | CUSTOMER_NOT_FOUND | GRANT_IDEMPOTENCY_KEY_REUSED
  | NO_SHOW_NOT_ELIGIBLE | BOOKING_NOT_NO_SHOW | NOT_YOUR_STAFF_PROFILE | NO_FREE_CHAIR | NO_ELIGIBLE_BARBER
  | OFFER_NOT_FOUND | OFFER_INVALID | OFFER_NOT_ELIGIBLE | OFFER_EXPIRED_ERROR | OFFER_SERVICE_MISMATCH
  | OFFER_REDEMPTION_LIMIT | OFFER_CHANGED_RETRY | OFFER_MUST_PAUSE_TO_EDIT | OFFER_NOT_PUBLISHABLE
  | INVALID_MONEY | BAD_REQUEST | UNIQUE_VIOLATION | RECORD_NOT_FOUND

datatype offer_kind = OFFER | PROMOTION | DAILY_DEAL
datatype offer_status = O_DRAFT | O_ACTIVE | O_PAUSED | O_EXPIRED
datatype offer_discount_type = OD_PERCENT | OD_FLAT
datatype offer_audience = AUD_ALL | AUD_NEW | AUD_REPEAT | AUD_INACTIVE

section \<open>Rows\<close>

record user =
  us_id :: id
  us_phone :: "string option"
  us_active :: bool

record user_role =
  ur_user :: id
  ur_role :: role
  ur_salon :: "id option"

record salon =
  sa_id :: id
  sa_owner :: id
  sa_status :: salon_status
  sa_isClosedForToday :: bool
  sa_timezone :: "string option"
  sa_currency :: "string option"
  sa_countryCode :: "string option"
  sa_onlineBookingDiscountPercent :: int
  sa_queueAutoAssignEnabled :: bool

record service =
  sv_id :: id
  sv_salon :: id
  sv_name :: string
  sv_duration :: int
  sv_price :: paise
  sv_isActive :: bool

record staff =
  st_id :: id
  st_salon :: id
  st_user :: id
  st_displayName :: string
  st_status :: member_status
  st_accessRevokedAt :: "ms option"

record chair =
  ch_id :: id
  ch_salon :: id
  ch_label :: string
  ch_status :: chair_status

record hours =
  h_owner :: id  \<comment> \<open>the salon (OperatingHours) or the staff member (StaffWorkingHours)\<close>
  h_day :: int
  h_open :: string
  h_close :: string
  h_isClosed :: bool

record booking_item =
  bi_service :: id
  bi_name :: string
  bi_duration :: int
  bi_price :: paise

record booking =
  bk_id :: id
  bk_salon :: id
  bk_customer :: "id option"
  bk_service :: id
  bk_services :: "booking_item list"
  bk_slotStart :: ms
  bk_slotEnd :: ms
  bk_status :: booking_status
  bk_source :: booking_source
  bk_idempotencyKey :: string
  bk_preferredStaff :: "id option"
  bk_prepaymentRequired :: "paise option"
  bk_discountPercent :: int
  bk_discountAmount :: paise
  bk_offer :: "id option"
  bk_creditsRedeemed :: "paise option"
  bk_cancelledAt :: "ms option"
  bk_cancelledBy :: "id option"
  bk_cancelledByActor :: "cancellation_actor option"
  bk_cancellationReason :: "string option"
  bk_cancellationCharge :: "rat option"
  bk_guestName :: "string option"
  bk_guestPhone :: "string option"
  bk_createdBy :: "id option"
  bk_createdAt :: ms
  bk_arrivalGraceMinutes :: "int option"

record entry =
  qe_id :: id
  qe_salon :: id
  qe_booking :: "id option"
  qe_customer :: "id option"
  qe_service :: "id option"
  qe_source :: entry_source
  qe_token :: int
  qe_status :: entry_status
  qe_staff :: "id option"
  qe_chair :: "id option"
  qe_contactName :: "string option"
  qe_contactPhone :: "string option"
  qe_guestHash :: "string option"
  qe_guestExpires :: "ms option"
  qe_guestPush :: "string option"
  qe_promptSentAt :: "ms option"
  qe_response :: "bool option"
  qe_responseAt :: "ms option"
  qe_createdBy :: "id option"
  qe_preferredStaff :: "id option"
  qe_arrivedAt :: "ms option"
  qe_joinedAt :: ms
  qe_calledAt :: "ms option"
  qe_assignedAt :: "ms option"
  qe_startedAt :: "ms option"
  qe_completedAt :: "ms option"
  qe_estimate :: "int option"

record session =
  ss_id :: id
  ss_entry :: id
  ss_staff :: id
  ss_chair :: id
  ss_service :: id
  ss_status :: session_status
  ss_startedAt :: ms
  ss_endedAt :: "ms option"

record manual_occupancy =
  mo_id :: id
  mo_salon :: id
  mo_chair :: id
  mo_startedBy :: id
  mo_endedBy :: "id option"
  mo_startedAt :: ms
  mo_endedAt :: "ms option"

record ledger_entry =
  le_id :: id
  le_customer :: id
  le_salon :: id
  le_booking :: id
  le_amount :: rat
  le_reason :: ledger_reason
  le_status :: ledger_status

record credit_tx =
  ct_id :: id
  ct_account :: id
  ct_type :: credit_type
  ct_amount :: paise
  ct_remaining :: "paise option"
  ct_booking :: "id option"
  ct_funding :: "funding_source option"
  ct_campaign :: "string option"
  ct_expiresAt :: "ms option"
  ct_idempotencyKey :: "string option"
  ct_reason :: "string option"
  ct_createdAt :: ms

record credit_account =
  ca_id :: id
  ca_user :: id

record subsidy =
  sb_salon :: id
  sb_booking :: id
  sb_amount :: paise
  sb_status :: subsidy_status
  sb_voidedAt :: "ms option"

record payment_policy =
  pp_salon :: id
  pp_requirement :: prepayment_requirement
  pp_percentage :: "int option"
  pp_hasQr :: bool

record salon_policy =
  sp_salon :: "id option"
  sp_policy :: cancellation_policy
  sp_arrivalGraceMinutes :: int
  sp_queueCallGraceMinutes :: int

record offer =
  of_id :: id
  of_salon :: id
  of_kind :: offer_kind
  of_status :: offer_status
  of_title :: string
  of_description :: "string option"
  of_discountType :: offer_discount_type
  of_discountValue :: paise
  of_currency :: string
  of_audience :: offer_audience
  of_inactiveDays :: "int option"
  of_validFrom :: ms
  of_validTo :: ms
  of_maxRedemptions :: "nat option"
  of_perCustomerLimit :: nat
  of_createdBy :: id
  of_updatedAt :: ms
  of_services :: "id list"  \<comment> \<open>the rows of \<open>offer_services\<close>\<close>

record redemption =
  rd_salon :: id
  rd_offer :: id
  rd_booking :: id
  rd_customer :: id
  rd_discount :: paise
  rd_currency :: string

text \<open>What a handler does besides changing rows: the realtime events, the notifications, the
  audit rows and the requests to run the allocator, in the order they happen.\<close>

datatype event =
    QueueUpdated id
  | EntryCalled id id "id option"
  | EntryReassigned id id
  | WaitAlert id id id
  | BookingEvent string id id
  | Notify id string
  | AutoAssignTrigger id
  | ServiceCompletedHook id id id
  | Audit "id option" string id

record db =
  db_next :: id
  db_users :: "user list"
  db_roles :: "user_role list"
  db_salons :: "salon list"
  db_services :: "service list"
  db_staff :: "staff list"
  db_staffServices :: "(id \<times> id) list"
  db_chairs :: "chair list"
  db_hours :: "hours list"
  db_staffHours :: "hours list"
  db_bookings :: "booking list"
  db_entries :: "entry list"
  db_sessions :: "session list"
  db_manual :: "manual_occupancy list"
  db_ledger :: "ledger_entry list"
  db_accounts :: "credit_account list"
  db_credits :: "credit_tx list"
  db_subsidies :: "subsidy list"
  db_paymentPolicies :: "payment_policy list"
  db_policies :: "salon_policy list"
  db_offers :: "offer list"
  db_redemptions :: "redemption list"
  db_events :: "event list"

definition emit :: "event list \<Rightarrow> db \<Rightarrow> db" where
  "emit es s = s\<lparr>db_events := db_events s @ es\<rparr>"

definition empty_db :: db where
  "empty_db = \<lparr>db_next = 1, db_users = [], db_roles = [], db_salons = [], db_services = [], db_staff = [],
     db_staffServices = [], db_chairs = [], db_hours = [], db_staffHours = [], db_bookings = [],
     db_entries = [], db_sessions = [], db_manual = [], db_ledger = [], db_accounts = [],
     db_credits = [], db_subsidies = [], db_paymentPolicies = [], db_policies = [], db_offers = [], db_redemptions = [], db_events = []\<rparr>"

section \<open>Lookups\<close>

definition find_user :: "db \<Rightarrow> id \<Rightarrow> user option" where
  "find_user s i = find (\<lambda>u. us_id u = i) (db_users s)"
definition find_salon :: "db \<Rightarrow> id \<Rightarrow> salon option" where
  "find_salon s i = find (\<lambda>r. sa_id r = i) (db_salons s)"
definition find_service :: "db \<Rightarrow> id \<Rightarrow> service option" where
  "find_service s i = find (\<lambda>r. sv_id r = i) (db_services s)"
definition find_staff :: "db \<Rightarrow> id \<Rightarrow> staff option" where
  "find_staff s i = find (\<lambda>r. st_id r = i) (db_staff s)"
definition find_chair :: "db \<Rightarrow> id \<Rightarrow> chair option" where
  "find_chair s i = find (\<lambda>r. ch_id r = i) (db_chairs s)"
definition find_booking :: "db \<Rightarrow> id \<Rightarrow> booking option" where
  "find_booking s i = find (\<lambda>r. bk_id r = i) (db_bookings s)"
definition find_entry :: "db \<Rightarrow> id \<Rightarrow> entry option" where
  "find_entry s i = find (\<lambda>r. qe_id r = i) (db_entries s)"
definition find_session :: "db \<Rightarrow> id \<Rightarrow> session option" where
  "find_session s i = find (\<lambda>r. ss_id r = i) (db_sessions s)"

lemma find_rowD:
  "find_user s i = Some u \<Longrightarrow> u \<in> set (db_users s) \<and> us_id u = i"
  "find_salon s i = Some sa \<Longrightarrow> sa \<in> set (db_salons s) \<and> sa_id sa = i"
  "find_service s i = Some sv \<Longrightarrow> sv \<in> set (db_services s) \<and> sv_id sv = i"
  "find_staff s i = Some st \<Longrightarrow> st \<in> set (db_staff s) \<and> st_id st = i"
  "find_chair s i = Some ch \<Longrightarrow> ch \<in> set (db_chairs s) \<and> ch_id ch = i"
  "find_booking s i = Some b \<Longrightarrow> b \<in> set (db_bookings s) \<and> bk_id b = i"
  "find_entry s i = Some e \<Longrightarrow> e \<in> set (db_entries s) \<and> qe_id e = i"
  "find_session s i = Some x \<Longrightarrow> x \<in> set (db_sessions s) \<and> ss_id x = i"
  by (auto simp: find_user_def find_salon_def find_service_def find_staff_def find_chair_def
      find_booking_def find_entry_def find_session_def dest: find_SomeD)

definition entry_in :: "entry_status list \<Rightarrow> entry \<Rightarrow> bool" where
  "entry_in sts e = (qe_status e \<in> set sts)"

definition ACTIVE_ENTRY_STATUSES :: "entry_status list" where
  "ACTIVE_ENTRY_STATUSES = [Q_WAITING, Q_CALLED, Q_IN_SERVICE]"

text \<open>The columns no operation of the services ever writes after a row was created.\<close>

lemma emit_simps [simp]:
  "db_next (emit es s) = db_next s" "db_users (emit es s) = db_users s"
  "db_roles (emit es s) = db_roles s" "db_salons (emit es s) = db_salons s"
  "db_services (emit es s) = db_services s" "db_staff (emit es s) = db_staff s"
  "db_staffServices (emit es s) = db_staffServices s" "db_chairs (emit es s) = db_chairs s"
  "db_hours (emit es s) = db_hours s" "db_staffHours (emit es s) = db_staffHours s"
  "db_bookings (emit es s) = db_bookings s" "db_entries (emit es s) = db_entries s"
  "db_sessions (emit es s) = db_sessions s" "db_manual (emit es s) = db_manual s"
  "db_ledger (emit es s) = db_ledger s" "db_accounts (emit es s) = db_accounts s"
  "db_credits (emit es s) = db_credits s" "db_subsidies (emit es s) = db_subsidies s"
  "db_paymentPolicies (emit es s) = db_paymentPolicies s" "db_policies (emit es s) = db_policies s"
  "db_offers (emit es s) = db_offers s" "db_redemptions (emit es s) = db_redemptions s"
  "db_events (emit es s) = db_events s @ es"
  by (simp_all add: emit_def)

end
