(* ===== verification/Demo.thy ===== *)
theory Demo
  imports Schema
begin

text \<open>
  A small concrete salon: one service of half an hour, two barbers with a chair each, one customer.
  The components instantiate their properties on it. Row templates take the columns that vary.
\<close>

definition demo_user :: "id \<Rightarrow> user" where
  "demo_user i = \<lparr>us_id = i, us_phone = Some ''9000000000'', us_active = True\<rparr>"

definition demo_salon :: salon where
  "demo_salon = \<lparr>sa_id = 1, sa_owner = 8, sa_status = SALON_ACTIVE, sa_isClosedForToday = False,
     sa_timezone = Some ''Asia/Kolkata'', sa_currency = Some ''INR'', sa_countryCode = Some ''IN'', sa_onlineBookingDiscountPercent = 10,
     sa_queueAutoAssignEnabled = True\<rparr>"

definition demo_service :: service where
  "demo_service = \<lparr>sv_id = 2, sv_salon = 1, sv_name = ''Haircut'', sv_duration = 30, sv_price = 20000, sv_isActive = True\<rparr>"

definition demo_staff :: "id \<Rightarrow> staff" where
  "demo_staff i = \<lparr>st_id = i, st_salon = 1, st_user = i + 100, st_displayName = ''Barber'', st_status = STAFF_ACTIVE, st_accessRevokedAt = None\<rparr>"

definition demo_chair :: "id \<Rightarrow> chair" where
  "demo_chair i = \<lparr>ch_id = i, ch_salon = 1, ch_label = ''A'', ch_status = CHAIR_ACTIVE\<rparr>"

definition demo_booking :: "id \<Rightarrow> id option \<Rightarrow> ms \<Rightarrow> ms \<Rightarrow> booking_status \<Rightarrow> booking" where
  "demo_booking i st a b status =
     \<lparr>bk_id = i, bk_salon = 1, bk_customer = Some 7, bk_service = 2,
      bk_services = [\<lparr>bi_service = 2, bi_name = ''Haircut'', bi_duration = 30, bi_price = 20000\<rparr>],
      bk_slotStart = a, bk_slotEnd = b, bk_status = status, bk_source = SRC_APP, bk_idempotencyKey = ''k'',
      bk_preferredStaff = st, bk_prepaymentRequired = None, bk_discountPercent = 0, bk_discountAmount = 0,
      bk_offer = None, bk_creditsRedeemed = None, bk_cancelledAt = None, bk_cancelledBy = None,
      bk_cancelledByActor = None, bk_cancellationReason = None, bk_cancellationCharge = None,
      bk_guestName = None, bk_guestPhone = None, bk_createdBy = None, bk_createdAt = 0,
      bk_arrivalGraceMinutes = Some 10\<rparr>"

definition demo_entry :: "id \<Rightarrow> entry_status \<Rightarrow> id option \<Rightarrow> id option \<Rightarrow> int \<Rightarrow> entry" where
  "demo_entry i status st ch token =
     \<lparr>qe_id = i, qe_salon = 1, qe_booking = None, qe_customer = Some 7, qe_service = Some 2, qe_source = WALK_IN,
      qe_token = token, qe_status = status, qe_staff = st, qe_chair = ch, qe_contactName = None,
      qe_contactPhone = None, qe_guestHash = None, qe_guestExpires = None, qe_guestPush = None,
      qe_promptSentAt = None, qe_response = None, qe_responseAt = None, qe_createdBy = None,
      qe_preferredStaff = None, qe_arrivedAt = Some 0, qe_joinedAt = 0, qe_calledAt = None,
      qe_assignedAt = None, qe_startedAt = None, qe_completedAt = None, qe_estimate = None\<rparr>"

definition demo_db :: db where
  "demo_db = empty_db\<lparr>db_next := 100, db_users := [demo_user 7, demo_user 8],
     db_salons := [demo_salon], db_services := [demo_service],
     db_staff := [demo_staff 3, demo_staff 4], db_staffServices := [(3, 2), (4, 2)],
     db_chairs := [demo_chair 5, demo_chair 6]\<rparr>"

lemmas demo_defs = demo_user_def demo_salon_def demo_service_def demo_staff_def demo_chair_def
  demo_booking_def demo_entry_def demo_db_def empty_db_def

end
