(* ===== verification/Credits.thy ===== *)
theory Credits
  imports Demo
begin

text \<open>
  The credit wallet (\<^verbatim>\<open>apps/backend/src/credits/customer-credits.service.ts\<close>): lots with a
  remaining amount, no cached balance. Amounts are paise. The per-customer advisory lock makes
  each of the three writers atomic.
\<close>

definition find_account :: "db \<Rightarrow> id \<Rightarrow> credit_account option" where
  "find_account s userId = find (\<lambda>a. ca_user a = userId) (db_accounts s)"

section \<open>Lots and balance\<close>

definition valid_lot :: "id \<Rightarrow> ms \<Rightarrow> credit_tx \<Rightarrow> bool" where
  "valid_lot accountId now t \<longleftrightarrow> ct_account t = accountId
     \<and> (case ct_remaining t of Some r \<Rightarrow> r > 0 | None \<Rightarrow> False)
     \<and> (case ct_expiresAt t of None \<Rightarrow> True | Some e \<Rightarrow> e > now)"

text \<open>\<open>orderBy: [expiresAt asc nulls last, createdAt asc]\<close>\<close>

definition lot_key :: "credit_tx \<Rightarrow> (nat \<times> ms) \<times> ms" where
  "lot_key t = ((case ct_expiresAt t of None \<Rightarrow> (1, 0) | Some e \<Rightarrow> (0, e)), ct_createdAt t)"

definition lot_before :: "credit_tx \<Rightarrow> credit_tx \<Rightarrow> bool" where
  "lot_before a b = (case (lot_key a, lot_key b) of (((p, e), c), ((p', e'), c')) \<Rightarrow>
     p < p' \<or> (p = p' \<and> (e < e' \<or> (e = e' \<and> c \<le> c'))))"

fun insert_lot :: "credit_tx \<Rightarrow> credit_tx list \<Rightarrow> credit_tx list" where
  "insert_lot x [] = [x]"
| "insert_lot x (y # ys) = (if lot_before x y then x # y # ys else y # insert_lot x ys)"

fun sort_lots :: "credit_tx list \<Rightarrow> credit_tx list" where
  "sort_lots [] = []"
| "sort_lots (x # xs) = insert_lot x (sort_lots xs)"

definition validLots :: "db \<Rightarrow> id \<Rightarrow> ms \<Rightarrow> credit_tx list" where
  "validLots s accountId now = sort_lots (filter (valid_lot accountId now) (db_credits s))"

definition remaining :: "credit_tx \<Rightarrow> paise" where
  "remaining t = nvl (ct_remaining t) 0"

definition sumValidLots :: "db \<Rightarrow> id \<Rightarrow> ms \<Rightarrow> paise" where
  "sumValidLots s accountId now = sum_list (map remaining (filter (valid_lot accountId now) (db_credits s)))"

definition getBalance :: "db \<Rightarrow> ms \<Rightarrow> id \<Rightarrow> rat" where
  "getBalance s now userId = (case find_account s userId of None \<Rightarrow> 0
     | Some a \<Rightarrow> paiseToRupees (sumValidLots s (ca_id a) now))"

definition computeMaxRedeemable :: "string \<Rightarrow> app_error + rat" where
  "computeMaxRedeemable servicePrice =
     (case decimalStringToPaise servicePrice of Inl _ \<Rightarrow> Inl INVALID_MONEY
      | Inr p \<Rightarrow> (case computeMaxRedeemableCreditsPaise p of Inl _ \<Rightarrow> Inl INVALID_MONEY
                 | Inr c \<Rightarrow> Inr (paiseToRupees c)))"

section \<open>Redemption\<close>

definition decrement_lot :: "id \<Rightarrow> paise \<Rightarrow> db \<Rightarrow> db" where
  "decrement_lot lotId takePaise s =
     s\<lparr>db_credits := upd_where (\<lambda>t. ct_id t = lotId)
        (\<lambda>t. t\<lparr>ct_remaining := map_option (\<lambda>r. r - takePaise) (ct_remaining t)\<rparr>) (db_credits s)\<rparr>"

fun consume_lots :: "credit_tx list \<Rightarrow> paise \<Rightarrow> paise \<Rightarrow> db \<Rightarrow> paise \<times> paise \<times> db" where
  "consume_lots [] remainingPaise funded s = (remainingPaise, funded, s)"
| "consume_lots (lot # lots) remainingPaise funded s =
     (if remainingPaise \<le> 0 then (remainingPaise, funded, s)
      else let takePaise = min (remaining lot) remainingPaise in
        if takePaise \<le> 0 then consume_lots lots remainingPaise funded s
        else consume_lots lots (remainingPaise - takePaise)
               (if ct_funding lot = Some FASTQUE_FUNDED then funded + takePaise else funded)
               (decrement_lot (ct_id lot) takePaise s))"

lemma consume_skip:
  "\<not> a \<le> 0 \<Longrightarrow> min (remaining lot) a \<le> 0 \<Longrightarrow> consume_lots (lot # lots) a fd s = consume_lots lots a fd s"
  by (simp only: consume_lots.simps Let_def if_False if_True)

lemma consume_take:
  "\<not> a \<le> 0 \<Longrightarrow> \<not> min (remaining lot) a \<le> 0 \<Longrightarrow> consume_lots (lot # lots) a fd s =
     consume_lots lots (a - min (remaining lot) a)
       (if ct_funding lot = Some FASTQUE_FUNDED then fd + min (remaining lot) a else fd)
       (decrement_lot (ct_id lot) (min (remaining lot) a) s)"
  by (simp only: consume_lots.simps Let_def if_False)

definition redeemed_row :: "id \<Rightarrow> id \<Rightarrow> paise \<Rightarrow> id \<Rightarrow> ms \<Rightarrow> credit_tx" where
  "redeemed_row i accountId amount bookingId now =
     \<lparr>ct_id = i, ct_account = accountId, ct_type = REDEEMED, ct_amount = amount, ct_remaining = None,
      ct_booking = Some bookingId, ct_funding = None, ct_campaign = None, ct_expiresAt = None,
      ct_idempotencyKey = None, ct_reason = None, ct_createdAt = now\<rparr>"

record redeem_result =
  rr_actualUsedPaise :: paise
  rr_fastQueFundedConsumedPaise :: paise

definition no_redemption :: redeem_result where
  "no_redemption = \<lparr>rr_actualUsedPaise = 0, rr_fastQueFundedConsumedPaise = 0\<rparr>"

definition insert_credit :: "credit_tx \<Rightarrow> db \<Rightarrow> db" where
  "insert_credit t s = s\<lparr>db_credits := db_credits s @ [t], db_next := db_next s + 1\<rparr>"

definition redeemUpTo :: "ms \<Rightarrow> id \<Rightarrow> id \<Rightarrow> rat \<Rightarrow> rat \<Rightarrow> db \<Rightarrow> app_error + (redeem_result \<times> db)" where
  "redeemUpTo now customerId bookingId requestedAmount maxCreditsAllowed s =
     (if requestedAmount \<le> 0 \<or> maxCreditsAllowed \<le> 0 then Inr (no_redemption, s)
      else case find_account s customerId of
        None \<Rightarrow> Inr (no_redemption, s)
      | Some account \<Rightarrow>
          let lots = validLots s (ca_id account) now in
          case (numberToPaise requestedAmount, numberToPaise maxCreditsAllowed) of
            (Inr requestedPaise, Inr maxCreditsAllowedPaise) \<Rightarrow>
              let availablePaise = sum_list (map remaining lots);
                  targetPaise = min (min requestedPaise availablePaise) maxCreditsAllowedPaise
              in if targetPaise \<le> 0 then Inr (no_redemption, s)
                 else let (remainingPaise, funded, s1) = consume_lots lots targetPaise 0 s;
                          actualUsedPaise = targetPaise - remainingPaise
                      in Inr (\<lparr>rr_actualUsedPaise = actualUsedPaise, rr_fastQueFundedConsumedPaise = funded\<rparr>,
                              insert_credit (redeemed_row (db_next s1) (ca_id account) actualUsedPaise bookingId now) s1)
          | _ \<Rightarrow> Inl INVALID_MONEY)"

section \<open>Restoration and grants\<close>

definition upsert_account :: "id \<Rightarrow> db \<Rightarrow> credit_account \<times> db" where
  "upsert_account userId s = (case find_account s userId of
       Some a \<Rightarrow> (a, s)
     | None \<Rightarrow> let a = \<lparr>ca_id = db_next s, ca_user = userId\<rparr>
               in (a, s\<lparr>db_accounts := db_accounts s @ [a], db_next := db_next s + 1\<rparr>))"

definition restoreForCancelledBooking :: "ms \<Rightarrow> id \<Rightarrow> id \<Rightarrow> paise \<Rightarrow> db \<Rightarrow> db" where
  "restoreForCancelledBooking now customerId bookingId amountPaise s =
     (if amountPaise \<le> 0 then s
      else let (account, s1) = upsert_account customerId s
           in insert_credit \<lparr>ct_id = db_next s1, ct_account = ca_id account, ct_type = RESTORED,
                ct_amount = amountPaise, ct_remaining = Some amountPaise, ct_booking = Some bookingId,
                ct_funding = None, ct_campaign = None, ct_expiresAt = None, ct_idempotencyKey = None,
                ct_reason = None, ct_createdAt = now\<rparr> s1)"

record grant_input =
  gi_customer :: id
  gi_amount :: rat
  gi_reason :: string
  gi_campaign :: "string option"
  gi_funding :: funding_source
  gi_expiresAt :: "ms option"

definition grantPromotionalCredits ::
    "ms \<Rightarrow> id \<Rightarrow> string \<Rightarrow> grant_input \<Rightarrow> db \<Rightarrow> app_error + (credit_tx \<times> db)" where
  "grantPromotionalCredits now grantedBy idempotencyKey input s =
     theE (find_user s (gi_customer input)) CUSTOMER_NOT_FOUND (\<lambda>_.
       case numberToPaise (gi_amount input) of
         Inl _ \<Rightarrow> Inl INVALID_MONEY
       | Inr amountPaise \<Rightarrow>
           (case find (\<lambda>t. ct_idempotencyKey t = Some idempotencyKey) (db_credits s) of
              None \<Rightarrow>
                let (account, s1) = upsert_account (gi_customer input) s;
                    created = \<lparr>ct_id = db_next s1, ct_account = ca_id account, ct_type = PROMO_GRANT,
                       ct_amount = amountPaise, ct_remaining = Some amountPaise, ct_booking = None,
                       ct_funding = Some (gi_funding input), ct_campaign = gi_campaign input,
                       ct_expiresAt = gi_expiresAt input, ct_idempotencyKey = Some idempotencyKey,
                       ct_reason = Some (gi_reason input), ct_createdAt = now\<rparr>
                in Inr (created, emit [Audit (Some grantedBy) ''CREDIT_GRANTED'' (ct_id created)] (insert_credit created s1))
            | Some existing \<Rightarrow>
                guardE (ct_type existing = PROMO_GRANT \<and> ct_amount existing = amountPaise
                        \<and> ct_reason existing = Some (gi_reason input)
                        \<and> ct_campaign existing = gi_campaign input
                        \<and> ct_funding existing = Some (gi_funding input)
                        \<and> ct_expiresAt existing = gi_expiresAt input
                        \<and> (case find (\<lambda>a. ca_id a = ct_account existing) (db_accounts s) of
                             Some a \<Rightarrow> ca_user a = gi_customer input | None \<Rightarrow> False))
                  GRANT_IDEMPOTENCY_KEY_REUSED (Inr (existing, s))))"

section \<open>The sort is a stable permutation in expiry order\<close>

lemma lot_before_total: "lot_before a b \<or> lot_before b a"
  by (cases "lot_key a"; cases "lot_key b") (auto simp: lot_before_def split: prod.splits)

lemma lot_before_trans: "lot_before a b \<Longrightarrow> lot_before b c \<Longrightarrow> lot_before a c"
  by (auto simp: lot_before_def split: prod.splits)

lemma insert_lot_set [simp]: "set (insert_lot x xs) = insert x (set xs)"
  by (induction xs) auto

lemma sort_lots_set [simp]: "set (sort_lots xs) = set xs"
  by (induction xs) auto

lemma insert_lot_sum: "sum_list (map f (insert_lot x xs)) = f x + sum_list (map (f :: _ \<Rightarrow> int) xs)"
  by (induction xs) auto

lemma sort_lots_sum: "sum_list (map f (sort_lots xs)) = sum_list (map (f :: _ \<Rightarrow> int) xs)"
  by (induction xs) (simp_all add: insert_lot_sum)

lemma insert_lot_distinct: "distinct (map ct_id (insert_lot x xs)) \<longleftrightarrow> ct_id x \<notin> ct_id ` set xs \<and> distinct (map ct_id xs)"
  by (induction xs) auto

lemma sort_lots_distinct: "distinct (map ct_id (sort_lots xs)) = distinct (map ct_id xs)"
  by (induction xs) (auto simp: insert_lot_distinct)

lemma insert_lot_sorted:
  "sorted_wrt lot_before xs \<Longrightarrow> sorted_wrt lot_before (insert_lot x xs)"
proof (induction xs)
  case (Cons y ys)
  then show ?case
    using lot_before_total [of x y] lot_before_trans by auto
qed simp

lemma sort_lots_sorted: "sorted_wrt lot_before (sort_lots xs)"
  by (induction xs) (simp_all add: insert_lot_sorted)

section \<open>The wallet invariant\<close>

definition lot_ok :: "credit_tx \<Rightarrow> bool" where
  "lot_ok t \<longleftrightarrow> (case ct_remaining t of None \<Rightarrow> True | Some r \<Rightarrow> 0 \<le> r \<and> r \<le> ct_amount t)"

definition wallet_inv :: "db \<Rightarrow> bool" where
  "wallet_inv s \<longleftrightarrow> distinct (map ct_id (db_credits s)) \<and> (\<forall>t\<in>set (db_credits s). ct_id t < db_next s \<and> lot_ok t)
     \<and> distinct (map ca_user (db_accounts s)) \<and> distinct (map ca_id (db_accounts s))
     \<and> (\<forall>a\<in>set (db_accounts s). ca_id a < db_next s)
     \<and> ct_account ` set (db_credits s) \<subseteq> ca_id ` set (db_accounts s)
     \<and> uniq_on ct_idempotencyKey (\<lambda>t. ct_idempotencyKey t \<noteq> None) (db_credits s)"

text \<open>The balance also counts exhausted lots, which contribute nothing.\<close>

definition unexpired :: "id \<Rightarrow> ms \<Rightarrow> credit_tx \<Rightarrow> bool" where
  "unexpired accountId now t \<longleftrightarrow> ct_account t = accountId \<and> (case ct_expiresAt t of None \<Rightarrow> True | Some e \<Rightarrow> e > now)"

lemma sumValidLots_eq:
  assumes "\<forall>t\<in>set (db_credits s). lot_ok t"
  shows "sumValidLots s a now = sum_list (map remaining (filter (unexpired a now) (db_credits s)))"
proof -
  have "sum_list (map remaining (filter (valid_lot a now) ts)) = sum_list (map remaining (filter (unexpired a now) ts))"
    if "\<forall>t\<in>set ts. lot_ok t" for ts
    using that
  proof (induction ts)
    case (Cons t ts)
    have "valid_lot a now t \<longleftrightarrow> unexpired a now t \<and> remaining t > 0"
      by (auto simp: valid_lot_def unexpired_def remaining_def split: option.split)
    moreover have "0 \<le> remaining t"
      using Cons.prems by (simp add: lot_ok_def remaining_def split: option.splits)
    ultimately show ?case
      using Cons by auto
  qed simp
  then show ?thesis using assms by (simp add: sumValidLots_def)
qed

section \<open>Consuming lots\<close>

text \<open>The abstract rule: spend an amount from a list of remainders, from the front.\<close>

fun spend :: "paise list \<Rightarrow> paise \<Rightarrow> paise list" where
  "spend [] a = []"
| "spend (r # rs) a = (r - min r a) # spend rs (a - min r a)"

lemma spend_0: "\<forall>r\<in>set rs. 0 \<le> r \<Longrightarrow> spend rs 0 = rs"
  by (induction rs) auto

lemma spend_nonneg: "\<forall>r\<in>set rs. 0 \<le> r \<Longrightarrow> 0 \<le> a \<Longrightarrow> \<forall>r\<in>set (spend rs a). 0 \<le> r"
proof (induction rs arbitrary: a)
  case (Cons r rs)
  have "\<forall>q\<in>set (spend rs (a - min r a)). 0 \<le> q"
    by (rule Cons.IH) (use Cons.prems in auto)
  then show ?case by simp
qed simp

lemma spend_sum:
  "\<forall>r\<in>set rs. 0 \<le> r \<Longrightarrow> 0 \<le> a \<Longrightarrow> sum_list (spend rs a) = sum_list rs - min a (sum_list rs)"
proof (induction rs arbitrary: a)
  case (Cons r rs)
  have "0 \<le> sum_list rs" using Cons.prems by (intro sum_list_nonneg_int) simp
  then show ?case using Cons by (auto simp: min_def)
qed simp

text \<open>A lot is touched only when every lot before it is used up.\<close>

lemma spend_in_order:
  assumes "i < j" "j < length rs" "\<forall>r\<in>set rs. 0 \<le> r" "0 \<le> a" "spend rs a ! j \<noteq> rs ! j"
  shows "spend rs a ! i = 0"
  using assms
proof (induction rs arbitrary: a i j)
  case (Cons r rs)
  then obtain j' where j: "j = Suc j'" by (cases j) auto
  show ?case
  proof (cases i)
    case 0
    have "\<not> a \<le> r"
    proof
      assume "a \<le> r"
      then have "spend rs (a - min r a) = rs"
        using Cons.prems(3) by (simp add: spend_0)
      then show False using Cons.prems(5) j by simp
    qed
    then show ?thesis using 0 by simp
  next
    case (Suc i')
    then show ?thesis
      using Cons.IH [of i' j' "a - min r a"] Cons.prems j by (simp add: min_def split: if_splits)
  qed
qed simp

definition row_rem :: "db \<Rightarrow> id \<Rightarrow> paise" where
  "row_rem s i = (case find (\<lambda>t. ct_id t = i) (db_credits s) of Some t \<Rightarrow> remaining t | None \<Rightarrow> 0)"

definition ckey :: "credit_tx \<Rightarrow> credit_tx" where
  "ckey t = t\<lparr>ct_remaining := None\<rparr>"

lemma find_upd_where:
  assumes "\<And>t. ct_id (f t) = ct_id t"
  shows "find (\<lambda>t. ct_id t = i) (upd_where (\<lambda>t. ct_id t = j) f ts)
       = map_option (\<lambda>t. if ct_id t = j then f t else t) (find (\<lambda>t. ct_id t = i) ts)"
  using assms by (induction ts) auto

lemma row_rem_decrement:
  assumes "find (\<lambda>t. ct_id t = j) (db_credits s) = Some t0" "ct_remaining t0 \<noteq> None"
  shows "row_rem (decrement_lot j v s) i = (if i = j then row_rem s i - v else row_rem s i)"
proof -
  have 1: "find (\<lambda>t. ct_id t = i) (db_credits (decrement_lot j v s)) =
      map_option (\<lambda>t. if ct_id t = j then t\<lparr>ct_remaining := map_option (\<lambda>r. r - v) (ct_remaining t)\<rparr> else t)
        (find (\<lambda>t. ct_id t = i) (db_credits s))"
    unfolding decrement_lot_def by (simp add: find_upd_where)
  show ?thesis
  proof (cases "find (\<lambda>t. ct_id t = i) (db_credits s)")
    case None
    then show ?thesis using 1 assms(1) by (auto simp: row_rem_def)
  next
    case (Some t)
    then have "ct_id t = i" by (auto dest: find_SomeD)
    then show ?thesis using 1 Some assms by (auto simp: row_rem_def remaining_def split: option.splits)
  qed
qed

lemma decrement_frame:
  "map ckey (db_credits (decrement_lot j v s)) = map ckey (db_credits s)"
  "db_next (decrement_lot j v s) = db_next s" "db_accounts (decrement_lot j v s) = db_accounts s"
  by (simp_all add: decrement_lot_def ckey_def map_upd_where)

text \<open>\<open>lots_in lots s\<close>: the lots the loop still has to look at are current rows.\<close>

definition lots_in :: "credit_tx list \<Rightarrow> db \<Rightarrow> bool" where
  "lots_in lots s \<longleftrightarrow> distinct (map ct_id lots) \<and>
     (\<forall>l\<in>set lots. find (\<lambda>t. ct_id t = ct_id l) (db_credits s) = Some l \<and> ct_remaining l \<noteq> None \<and> 0 \<le> remaining l)"

lemma lots_in_decrement:
  assumes "lots_in (l # lots) s"
  shows "lots_in lots (decrement_lot (ct_id l) v s)"
  unfolding lots_in_def
proof (intro conjI ballI)
  fix m assume m: "m \<in> set lots"
  then have "ct_id m \<noteq> ct_id l" "find (\<lambda>t. ct_id t = ct_id m) (db_credits s) = Some m"
    using assms by (auto simp: lots_in_def image_iff)
  then show "find (\<lambda>t. ct_id t = ct_id m) (db_credits (decrement_lot (ct_id l) v s)) = Some m"
    by (simp add: decrement_lot_def find_upd_where)
qed (use assms in \<open>auto simp: lots_in_def\<close>)

lemma lots_in_Cons: "lots_in (l # lots) s \<Longrightarrow> lots_in lots s"
  by (simp add: lots_in_def)

lemma lots_row_rem: "lots_in lots s \<Longrightarrow> map (\<lambda>l. row_rem s (ct_id l)) lots = map remaining lots"
  by (simp add: lots_in_def row_rem_def)

text \<open>The loop refines \<open>spend\<close>: rows of the lots get the remainders \<open>spend\<close> computes, nothing else
  changes, and what it reports as funded by the platform lies within what it took.\<close>

lemma consume_lots_refines:
  assumes "consume_lots lots a fd s = (a', fd', t)" "lots_in lots s" "0 \<le> a"
  shows "map (\<lambda>l. row_rem t (ct_id l)) lots = spend (map remaining lots) a
    \<and> (\<forall>i. i \<notin> ct_id ` set lots \<longrightarrow> row_rem t i = row_rem s i)
    \<and> a' = a - min a (sum_list (map remaining lots)) \<and> fd \<le> fd' \<and> fd' \<le> fd + (a - a')
    \<and> map ckey (db_credits t) = map ckey (db_credits s) \<and> db_next t = db_next s \<and> db_accounts t = db_accounts s"
  using assms
proof (induction lots a fd s arbitrary: a' fd' t rule: consume_lots.induct)
  case (2 lot lots a fd s)
  have nn: "\<forall>r\<in>set (map remaining (lot # lots)). 0 \<le> r"
    using "2.prems"(2) by (auto simp: lots_in_def)
  then have sum: "0 \<le> sum_list (map remaining lots)" "0 \<le> remaining lot"
    by (auto intro!: sum_list_nonneg_int)
  show ?case
  proof (cases "a \<le> 0")
    case True
    then have "a = 0" using "2.prems"(3) by simp
    then show ?thesis
      using "2.prems"(1) True lots_row_rem [OF "2.prems"(2)] spend_0 [OF nn] sum by simp
  next
    case False
    show ?thesis
    proof (cases "min (remaining lot) a \<le> 0")
      case True
      then have r0: "remaining lot = 0" using False sum by (simp add: min_def split: if_splits)
      have "consume_lots lots a fd s = (a', fd', t)" using "2.prems"(1) by (simp only: consume_skip [OF False True])
      from "2.IH"(1) [OF False refl True this lots_in_Cons [OF "2.prems"(2)] "2.prems"(3)]
      have IH: "map (\<lambda>l. row_rem t (ct_id l)) lots = spend (map remaining lots) a"
        "\<forall>i. i \<notin> ct_id ` set lots \<longrightarrow> row_rem t i = row_rem s i"
        "a' = a - min a (sum_list (map remaining lots))" "fd \<le> fd'" "fd' \<le> fd + (a - a')"
        "map ckey (db_credits t) = map ckey (db_credits s)" "db_next t = db_next s" "db_accounts t = db_accounts s"
        by simp_all
      have "row_rem t (ct_id lot) = 0"
        using IH(2) "2.prems"(2) r0 lots_row_rem [OF "2.prems"(2)] by (simp add: lots_in_def)
      then show ?thesis using IH r0 False by simp
    next
      case take: False
      define v where "v = min (remaining lot) a"
      define s1 where "s1 = decrement_lot (ct_id lot) v s"
      define fd1 where "fd1 = (if ct_funding lot = Some FASTQUE_FUNDED then fd + v else fd)"
      have v: "0 < v" "v \<le> a" "v \<le> remaining lot" using take by (auto simp: v_def)
      have run: "consume_lots lots (a - v) fd1 s1 = (a', fd', t)"
        using "2.prems"(1) unfolding v_def fd1_def s1_def by (simp only: consume_take [OF False take])
      have lin: "lots_in lots s1"
        unfolding s1_def using "2.prems"(2) by (rule lots_in_decrement)
      have "0 \<le> a - v" using v by simp
      from "2.IH"(2) [OF False refl take, folded v_def, folded fd1_def s1_def, OF run lin this]
      have IH: "map (\<lambda>l. row_rem t (ct_id l)) lots = spend (map remaining lots) (a - v)"
        "\<forall>i. i \<notin> ct_id ` set lots \<longrightarrow> row_rem t i = row_rem s1 i"
        "a' = a - v - min (a - v) (sum_list (map remaining lots))" "fd1 \<le> fd'" "fd' \<le> fd1 + (a - v - a')"
        "map ckey (db_credits t) = map ckey (db_credits s1)" "db_next t = db_next s1" "db_accounts t = db_accounts s1"
        by simp_all
      have lot: "find (\<lambda>t. ct_id t = ct_id lot) (db_credits s) = Some lot" "ct_remaining lot \<noteq> None"
        "ct_id lot \<notin> ct_id ` set lots"
        using "2.prems"(2) by (auto simp: lots_in_def)
      have rr: "row_rem s1 i = (if i = ct_id lot then row_rem s i - v else row_rem s i)" for i
        unfolding s1_def by (rule row_rem_decrement [OF lot(1,2)])
      have "row_rem t (ct_id lot) = remaining lot - v"
        using IH(2) lot rr by (simp add: row_rem_def)
      moreover have "fd \<le> fd1" "fd1 \<le> fd + v" using v by (simp_all add: fd1_def)
      moreover have "a' = a - min a (remaining lot + sum_list (map remaining lots))"
        using IH(3) v sum by (auto simp: v_def min_def split: if_splits)
      ultimately show ?thesis
        using IH rr by (auto simp: v_def [symmetric] s1_def decrement_frame)
    qed
  qed
qed (simp add: spend_0)

section \<open>Every writer keeps the wallet\<close>

lemma ckey_sel:
  "ct_id (ckey t) = ct_id t" "ct_account (ckey t) = ct_account t" "ct_expiresAt (ckey t) = ct_expiresAt t"
  "ct_amount (ckey t) = ct_amount t" "ct_idempotencyKey (ckey t) = ct_idempotencyKey t"
  by (simp_all add: ckey_def)

lemma ckey_eqD:
  assumes "ckey t = ckey u"
  shows "ct_id t = ct_id u" "ct_account t = ct_account u" "ct_expiresAt t = ct_expiresAt u"
    "ct_amount t = ct_amount u" "ct_idempotencyKey t = ct_idempotencyKey u"
  using arg_cong [OF assms, of ct_id] arg_cong [OF assms, of ct_account] arg_cong [OF assms, of ct_expiresAt]
    arg_cong [OF assms, of ct_amount] arg_cong [OF assms, of ct_idempotencyKey]
  by (simp_all only: ckey_sel)

lemma ckey_rows:
  assumes "map ckey ts = map ckey us" and "\<And>t u. ckey t = ckey u \<Longrightarrow> k t = k u"
  shows "map k ts = map k us"
  using assms(1)
proof (induction ts arbitrary: us)
  case (Cons t ts)
  then obtain u us' where us: "us = u # us'" "ckey t = ckey u" "map ckey ts = map ckey us'" by (cases us) simp_all
  show ?case unfolding us(1) using Cons.IH [OF us(3)] assms(2) [OF us(2)] by simp
qed simp

text \<open>The sum of a set of rows selected by their keys changes by the change of each row.\<close>

lemma wallet_rows:
  assumes "distinct (map ct_id ts)" "t \<in> set ts"
  shows "find (\<lambda>u. ct_id u = ct_id t) ts = Some t"
  using assms by (rule find_id_eq)

lemma map_remaining_row_rem:
  assumes "distinct (map ct_id (db_credits s))"
  shows "map remaining (db_credits s) = map (\<lambda>t. row_rem s (ct_id t)) (db_credits s)"
  using assms by (simp add: row_rem_def wallet_rows)

lemma lot_ok_row: "distinct (map ct_id (db_credits s)) \<Longrightarrow> t \<in> set (db_credits s) \<Longrightarrow> row_rem s (ct_id t) = remaining t"
  by (simp add: row_rem_def wallet_rows)

lemma validLots_in:
  assumes "wallet_inv s"
  shows "lots_in (validLots s a now) s" "map ct_id (validLots s a now) = map ct_id (sort_lots (filter (valid_lot a now) (db_credits s)))"
proof -
  have "distinct (map ct_id (db_credits s))" using assms by (simp add: wallet_inv_def)
  then show "lots_in (validLots s a now) s"
    by (auto simp: lots_in_def validLots_def sort_lots_distinct distinct_map_filter wallet_rows valid_lot_def
        remaining_def split: option.splits)
qed (simp add: validLots_def)

lemma sum_row_diff:
  assumes d: "distinct (map ct_id ts)" and L: "distinct (map ct_id ls)" "set (map ct_id ls) \<subseteq> set (map ct_id ts)"
    and same: "\<And>i. i \<notin> set (map ct_id ls) \<Longrightarrow> g i = (f i :: int)"
  shows "sum_list (map (\<lambda>t. g (ct_id t)) ts) - sum_list (map (\<lambda>t. f (ct_id t)) ts)
       = sum_list (map (\<lambda>l. g (ct_id l)) ls) - sum_list (map (\<lambda>l. f (ct_id l)) ls)"
proof -
  have sums: "sum_list (map (\<lambda>t. h (ct_id t)) us) = sum h (set (map ct_id us))"
    if "distinct (map ct_id us)" for us and h :: "nat \<Rightarrow> int"
    using sum_list_distinct_conv_sum_set [OF that, of h] by (simp add: comp_def)
  let ?T = "set (map ct_id ts)" let ?L = "set (map ct_id ls)"
  have "sum g ?T - sum f ?T = (\<Sum>i\<in>?T. g i - f i)" by (simp add: sum_subtractf)
  also have "\<dots> = (\<Sum>i\<in>?L. g i - f i)"
    by (rule sum.mono_neutral_right) (use L same in auto)
  also have "\<dots> = sum g ?L - sum f ?L" by (simp add: sum_subtractf)
  finally show ?thesis by (simp only: sums [OF d] sums [OF L(1)])
qed

lemma redeemUpToD:
  assumes "redeemUpTo now c b req cap s = Inr (r, t)"
  shows "(r = no_redemption \<and> t = s) \<or>
    (\<exists>acc rp cp tgt rest fd s1. find_account s c = Some acc \<and> numberToPaise req = Inr rp \<and> numberToPaise cap = Inr cp \<and>
       tgt = min (min rp (sum_list (map remaining (validLots s (ca_id acc) now)))) cp \<and> 0 < tgt \<and>
       consume_lots (validLots s (ca_id acc) now) tgt 0 s = (rest, fd, s1) \<and>
       r = \<lparr>rr_actualUsedPaise = tgt - rest, rr_fastQueFundedConsumedPaise = fd\<rparr> \<and>
       t = insert_credit (redeemed_row (db_next s1) (ca_id acc) (tgt - rest) b now) s1)"
proof (cases "req \<le> 0 \<or> cap \<le> 0 \<or> find_account s c = None")
  case True
  then have "Inr (no_redemption, s) = (Inr (r, t) :: app_error + _)"
    using assms unfolding redeemUpTo_def by (cases "req \<le> 0 \<or> cap \<le> 0") simp_all
  then show ?thesis by simp
next
  case False
  then obtain acc where acc: "find_account s c = Some acc" and pos: "\<not> (req \<le> 0 \<or> cap \<le> 0)" by auto
  obtain rp cp where p: "numberToPaise req = Inr rp" "numberToPaise cap = Inr cp"
    using assms pos acc by (cases "numberToPaise req"; cases "numberToPaise cap") (simp_all add: redeemUpTo_def Let_def)
  define lots where "lots = validLots s (ca_id acc) now"
  define tgt where "tgt = min (min rp (sum_list (map remaining lots))) cp"
  obtain rest fd s1 where run: "consume_lots lots tgt 0 s = (rest, fd, s1)"
    by (cases "consume_lots lots tgt 0 s")
  show ?thesis
  proof (cases "tgt \<le> 0")
    case True
    then have "Inr (no_redemption, s) = (Inr (r, t) :: app_error + _)"
      using assms pos acc p unfolding tgt_def lots_def redeemUpTo_def Let_def by simp
    then show ?thesis by simp
  next
    case False
    then have "r = \<lparr>rr_actualUsedPaise = tgt - rest, rr_fastQueFundedConsumedPaise = fd\<rparr> \<and>
       t = insert_credit (redeemed_row (db_next s1) (ca_id acc) (tgt - rest) b now) s1"
      using assms pos acc p run unfolding tgt_def lots_def redeemUpTo_def Let_def by simp
    moreover have "consume_lots (validLots s (ca_id acc) now) tgt 0 s = (rest, fd, s1)"
      using run by (simp only: lots_def)
    moreover have "tgt = min (min rp (sum_list (map remaining (validLots s (ca_id acc) now)))) cp" "0 < tgt"
      using False by (simp_all only: tgt_def lots_def not_le)
    ultimately show ?thesis using acc p by blast
  qed
qed

lemma wallet_inv_insert:
  assumes "wallet_inv s" "ct_id row = db_next s" "lot_ok row" "ct_account row \<in> ca_id ` set (db_accounts s)"
    and "ct_idempotencyKey row = None \<or> (\<forall>t\<in>set (db_credits s). ct_idempotencyKey t \<noteq> ct_idempotencyKey row)"
  shows "wallet_inv (insert_credit row s)"
proof -
  have lt: "ct_id t < db_next s" if "t \<in> set (db_credits s)" for t
    using assms(1) that by (simp add: wallet_inv_def)
  then have "db_next s \<notin> ct_id ` set (db_credits s)" by force
  moreover have "uniq_on ct_idempotencyKey (\<lambda>t. ct_idempotencyKey t \<noteq> None) (db_credits s @ [row])"
    using assms(1,5) by (auto simp: wallet_inv_def uniq_on_snoc)
  ultimately show ?thesis
    using assms by (auto simp: wallet_inv_def insert_credit_def intro: less_SucI)
qed

lemma wallet_inv_account:
  assumes "wallet_inv s" "upsert_account u s = (a, t)"
  shows "wallet_inv t" "a \<in> set (db_accounts t)" "ca_user a = u" "db_credits t = db_credits s"
    "find_account s u = Some a \<or> (find_account s u = None \<and> ca_id a = db_next s)"
proof -
  have t: "(find_account s u = Some a \<and> t = s) \<or> (find_account s u = None \<and> a = \<lparr>ca_id = db_next s, ca_user = u\<rparr> \<and>
      t = s\<lparr>db_accounts := db_accounts s @ [a], db_next := db_next s + 1\<rparr>)"
    using assms(2) by (auto simp: upsert_account_def Let_def split: option.splits)
  moreover have "wallet_inv t" if "find_account s u = None" "a = \<lparr>ca_id = db_next s, ca_user = u\<rparr>"
    "t = s\<lparr>db_accounts := db_accounts s @ [a], db_next := db_next s + 1\<rparr>"
  proof -
    have "u \<notin> ca_user ` set (db_accounts s)"
      using that(1) by (auto simp: find_account_def find_None_iff)
    moreover have "db_next s \<notin> ca_id ` set (db_accounts s)"
      using assms(1) by (force simp: wallet_inv_def)
    ultimately show ?thesis
      using assms(1) that by (auto simp: wallet_inv_def intro: less_SucI)
  qed
  ultimately show "wallet_inv t" using assms(1) by blast
  show "a \<in> set (db_accounts t)" "ca_user a = u" "db_credits t = db_credits s"
    "find_account s u = Some a \<or> (find_account s u = None \<and> ca_id a = db_next s)"
    using t by (auto simp: find_account_def dest: find_SomeD)
qed

lemma wallet_inv_decrement:
  assumes inv: "wallet_inv s" and row: "find (\<lambda>t. ct_id t = j) (db_credits s) = Some l"
    and v: "0 \<le> v" "v \<le> remaining l"
  shows "wallet_inv (decrement_lot j v s)"
proof -
  have d: "distinct (map ct_id (db_credits s))" using inv by (simp add: wallet_inv_def)
  have "map ct_id (db_credits (decrement_lot j v s)) = map ct_id (db_credits s)"
    by (rule ckey_rows [OF decrement_frame(1)]) (rule ckey_eqD(1))
  moreover have "uniq_on ct_idempotencyKey (\<lambda>t. ct_idempotencyKey t \<noteq> None) (db_credits (decrement_lot j v s))"
    unfolding decrement_lot_def
    using inv by (auto simp: wallet_inv_def intro!: uniq_on_upd_shrink)
  moreover have "ct_id t < db_next s \<and> lot_ok t" if "t \<in> set (db_credits (decrement_lot j v s))" for t
  proof -
    obtain u where u: "u \<in> set (db_credits s)"
      "t = (if ct_id u = j then u\<lparr>ct_remaining := map_option (\<lambda>r. r - v) (ct_remaining u)\<rparr> else u)"
      using \<open>t \<in> set _\<close> by (auto simp: decrement_lot_def in_upd_where)
    have ok: "ct_id u < db_next s" "lot_ok u" using inv u(1) by (simp_all add: wallet_inv_def)
    show ?thesis
    proof (cases "ct_id u = j")
      case True
      then have "u = l" using find_SomeD [OF row] distinct_key_eq [OF d u(1), of l] by simp
      then show ?thesis
        using ok u(2) True v by (auto simp: lot_ok_def remaining_def split: option.splits)
    qed (use ok u(2) in simp)
  qed
  moreover have "ct_account ` set (db_credits (decrement_lot j v s)) = ct_account ` set (db_credits s)"
    using arg_cong [OF ckey_rows [OF decrement_frame(1), of ct_account, OF ckey_eqD(2)], of set] by simp
  ultimately show ?thesis
    using inv by (simp add: wallet_inv_def decrement_frame)
qed

lemma wallet_inv_consume:
  assumes "consume_lots lots a fd s = (a', fd', t)" "lots_in lots s" "wallet_inv s"
  shows "wallet_inv t"
  using assms
proof (induction lots a fd s arbitrary: a' fd' t rule: consume_lots.induct)
  case (2 lot lots a fd s)
  have lin: "lots_in lots s" and row: "find (\<lambda>t. ct_id t = ct_id lot) (db_credits s) = Some lot"
    using "2.prems"(2) by (simp_all add: lots_in_def)
  show ?case
  proof (cases "a \<le> 0")
    case True
    then show ?thesis using "2.prems" by simp
  next
    case False
    show ?thesis
    proof (cases "min (remaining lot) a \<le> 0")
      case True
      then have "consume_lots lots a fd s = (a', fd', t)" using "2.prems"(1) by (simp only: consume_skip [OF False True])
      from "2.IH"(1) [OF False refl True this lin "2.prems"(3)] show ?thesis .
    next
      case take: False
      define v where "v = min (remaining lot) a"
      have v: "0 \<le> v" "v \<le> remaining lot" using take by (auto simp: v_def)
      have run: "consume_lots lots (a - v) (if ct_funding lot = Some FASTQUE_FUNDED then fd + v else fd)
          (decrement_lot (ct_id lot) v s) = (a', fd', t)"
        using "2.prems"(1) unfolding v_def by (simp only: consume_take [OF False take])
      show ?thesis
        by (rule "2.IH"(2) [OF False refl take, folded v_def, OF run lots_in_decrement [OF "2.prems"(2)]
            wallet_inv_decrement [OF "2.prems"(3) row v]])
    qed
  qed
qed simp

lemma account_user:
  assumes "find_account s u = Some a" shows "ca_user a = u" "a \<in> set (db_accounts s)"
  using assms by (auto simp: find_account_def dest: find_SomeD)

lemma wallet_inv_redeem:
  assumes inv: "wallet_inv s" and red: "redeemUpTo now c b req cap s = Inr (r, t)"
  shows "wallet_inv t"
  using redeemUpToD [OF red]
proof (elim disjE exE conjE)
  fix acc rp cp tgt rest fd s1
  assume acc: "find_account s c = Some acc" and tgt: "0 < tgt" and run: "consume_lots (validLots s (ca_id acc) now) tgt 0 s = (rest, fd, s1)"
    and t: "t = insert_credit (redeemed_row (db_next s1) (ca_id acc) (tgt - rest) b now) s1"
  have "db_accounts s1 = db_accounts s"
    using consume_lots_refines [OF run validLots_in(1) [OF inv] less_imp_le [OF tgt]] by blast
  then show ?thesis unfolding t
    using account_user(2) [OF acc]
    by (intro wallet_inv_insert [OF wallet_inv_consume [OF run validLots_in(1) [OF inv] inv]])
      (simp_all add: redeemed_row_def lot_ok_def)
qed (use inv in simp)

section \<open>What a redemption does\<close>

definition walletBalance :: "db \<Rightarrow> ms \<Rightarrow> id \<Rightarrow> paise" where
  "walletBalance s now userId =
     (case find_account s userId of None \<Rightarrow> 0 | Some a \<Rightarrow> sumValidLots s (ca_id a) now)"

lemma getBalance_paise: "getBalance s now u = paiseToRupees (walletBalance s now u)"
  by (simp add: getBalance_def walletBalance_def paiseToRupees_def split: option.split)

lemma validLots_sum: "sum_list (map remaining (validLots s a now)) = sumValidLots s a now"
  by (simp add: validLots_def sumValidLots_def sort_lots_sum)

text \<open>The rows \<open>consume_lots\<close> leaves: the lots get their \<open>spend\<close> remainders, so the balance of their
  account drops by what was taken.\<close>

lemma balance_rows:
  assumes "wallet_inv s"
  shows "sumValidLots s a now = sum_list (map (\<lambda>t. row_rem s (ct_id t)) (filter (unexpired a now) (db_credits s)))"
proof -
  have d: "distinct (map ct_id (db_credits s))" and ok: "\<forall>t\<in>set (db_credits s). lot_ok t"
    using assms by (simp_all add: wallet_inv_def)
  have "map remaining (filter (unexpired a now) (db_credits s))
      = map (\<lambda>t. row_rem s (ct_id t)) (filter (unexpired a now) (db_credits s))"
    by (rule map_cong) (simp_all add: lot_ok_row [OF d])
  then show ?thesis by (simp only: sumValidLots_eq [OF ok])
qed

lemma filter_ids:
  assumes "map ckey ts = map ckey us"
  shows "map ct_id (filter (unexpired a now) ts) = map ct_id (filter (unexpired a now) us)"
  using assms
proof (induction ts arbitrary: us)
  case (Cons t ts)
  then obtain u us' where us: "us = u # us'" "ckey t = ckey u" "map ckey ts = map ckey us'" by (cases us) simp_all
  have "unexpired a now t = unexpired a now u"
    by (simp add: unexpired_def ckey_eqD [OF us(2)])
  then show ?case using Cons.IH [OF us(3)] ckey_eqD(1) [OF us(2)] by (simp add: us(1))
qed simp

lemma consume_balance:
  assumes inv: "wallet_inv s" and run: "consume_lots (validLots s a now) amount 0 s = (rest, fd, t)" "0 \<le> amount"
  shows "sumValidLots t a now = sumValidLots s a now - min amount (sumValidLots s a now)"
    and "rest = amount - min amount (sumValidLots s a now)"
proof -
  let ?ls = "validLots s a now" and ?F = "filter (unexpired a now)"
  note R = consume_lots_refines [OF run(1) validLots_in(1) [OF inv] run(2)]
  have keys: "map ckey (db_credits t) = map ckey (db_credits s)" using R by blast
  have invt: "wallet_inv t" by (rule wallet_inv_consume [OF run(1) validLots_in(1) [OF inv] inv])
  have d: "distinct (map ct_id (db_credits s))" using inv by (simp add: wallet_inv_def)
  have ids: "map ct_id (?F (db_credits t)) = map ct_id (?F (db_credits s))" by (rule filter_ids [OF keys])
  have "map (\<lambda>u. row_rem t (ct_id u)) (?F (db_credits t)) = map (\<lambda>u. row_rem t (ct_id u)) (?F (db_credits s))"
    using arg_cong [OF ids, of "map (row_rem t)"] by (simp add: comp_def)
  then have bt: "sumValidLots t a now = sum_list (map (\<lambda>u. row_rem t (ct_id u)) (?F (db_credits s)))"
    by (simp only: balance_rows [OF invt])
  have "set ?ls \<subseteq> set (?F (db_credits s))"
    by (auto simp: validLots_def unexpired_def valid_lot_def)
  then have sub: "set (map ct_id ?ls) \<subseteq> set (map ct_id (?F (db_credits s)))" by auto
  have same: "row_rem t i = row_rem s i" if "i \<notin> set (map ct_id ?ls)" for i
    using R that by simp
  have dl: "distinct (map ct_id ?ls)" using validLots_in(1) [OF inv] by (simp add: lots_in_def)
  have "sumValidLots t a now - sumValidLots s a now
      = sum_list (map (\<lambda>l. row_rem t (ct_id l)) ?ls) - sum_list (map (\<lambda>l. row_rem s (ct_id l)) ?ls)"
    unfolding bt balance_rows [OF inv]
    by (rule sum_row_diff [OF distinct_map_filter [OF d] dl sub same])
  also have "\<dots> = sum_list (spend (map remaining ?ls) amount) - sum_list (map remaining ?ls)"
    using R by (simp only: lots_row_rem [OF validLots_in(1) [OF inv]])
  also have "\<dots> = - min amount (sum_list (map remaining ?ls))"
    using spend_sum [of "map remaining ?ls" amount] validLots_in(1) [OF inv] run(2) by (simp add: lots_in_def)
  finally show "sumValidLots t a now = sumValidLots s a now - min amount (sumValidLots s a now)"
    by (simp add: validLots_sum)
  show "rest = amount - min amount (sumValidLots s a now)"
    using R by (simp add: validLots_sum)
qed

text \<open>The rows of the other accounts are untouched, at every clock reading.\<close>

lemma consume_others:
  assumes inv: "wallet_inv s" and run: "consume_lots (validLots s a now) amount 0 s = (rest, fd, t)" "0 \<le> amount"
    and other: "a' \<noteq> a"
  shows "sumValidLots t a' now' = sumValidLots s a' now'"
proof -
  let ?F = "filter (unexpired a' now')"
  note R = consume_lots_refines [OF run(1) validLots_in(1) [OF inv] run(2)]
  have keys: "map ckey (db_credits t) = map ckey (db_credits s)" using R by blast
  have invt: "wallet_inv t" by (rule wallet_inv_consume [OF run(1) validLots_in(1) [OF inv] inv])
  have d: "distinct (map ct_id (db_credits s))" using inv by (simp add: wallet_inv_def)
  have "row_rem t (ct_id u) = row_rem s (ct_id u)" if u: "u \<in> set (?F (db_credits s))" for u
  proof -
    have "ct_id u \<notin> ct_id ` set (validLots s a now)"
    proof
      assume "ct_id u \<in> ct_id ` set (validLots s a now)"
      then obtain l where l: "l \<in> set (db_credits s)" "valid_lot a now l" "ct_id u = ct_id l"
        by (auto simp: validLots_def)
      have "u = l" using d l(3) u l(1) by (intro distinct_key_eq [OF d]) simp_all
      then show False using l(2) u other by (simp add: valid_lot_def unexpired_def)
    qed
    then show ?thesis using R by simp
  qed
  then have "map (\<lambda>u. row_rem t (ct_id u)) (?F (db_credits s)) = map (\<lambda>u. row_rem s (ct_id u)) (?F (db_credits s))"
    by (intro map_cong refl) simp
  moreover have "map (\<lambda>u. row_rem t (ct_id u)) (?F (db_credits t)) = map (\<lambda>u. row_rem t (ct_id u)) (?F (db_credits s))"
    using arg_cong [OF filter_ids [OF keys, of a' now'], of "map (row_rem t)"] by (simp add: comp_def)
  ultimately show ?thesis by (simp only: balance_rows [OF invt] balance_rows [OF inv])
qed

lemma sumValidLots_insert:
  "sumValidLots (insert_credit row s) a now = sumValidLots s a now + (if valid_lot a now row then remaining row else 0)"
  by (simp add: sumValidLots_def insert_credit_def)

lemma walletBalance_insert:
  "walletBalance (insert_credit row s) now u = walletBalance s now u
     + (case find_account s u of Some a \<Rightarrow> (if valid_lot (ca_id a) now row then remaining row else 0) | None \<Rightarrow> 0)"
proof -
  have "find_account (insert_credit row s) u = find_account s u" by (simp add: find_account_def insert_credit_def)
  then show ?thesis by (simp add: walletBalance_def sumValidLots_insert split: option.split)
qed

lemma find_account_same: "db_accounts t = db_accounts s \<Longrightarrow> find_account t u = find_account s u"
  by (simp add: find_account_def)

lemma lot_ok_remaining: "lot_ok t \<Longrightarrow> 0 \<le> remaining t"
  by (simp add: lot_ok_def remaining_def split: option.splits)

lemma sumValidLots_nonneg:
  assumes "wallet_inv s" shows "0 \<le> sumValidLots s a now"
  unfolding sumValidLots_def
proof (rule sum_list_nonneg_int)
  fix x assume "x \<in> set (map remaining (filter (valid_lot a now) (db_credits s)))"
  then show "0 \<le> x" using assms lot_ok_remaining by (auto simp: wallet_inv_def)
qed

lemma account_ids:
  assumes "wallet_inv s" "find_account s u = Some a" "find_account s u' = Some a'" "u \<noteq> u'"
  shows "ca_id a \<noteq> ca_id a'"
proof
  assume "ca_id a = ca_id a'"
  then have "a = a'" using assms(1) account_user(2) [OF assms(2)] account_user(2) [OF assms(3)]
    by (intro distinct_key_eq [of ca_id]) (simp_all add: wallet_inv_def)
  then show False using account_user(1) [OF assms(2)] account_user(1) [OF assms(3)] assms(4) by simp
qed

text \<open>The two outcomes of a redemption, on paise.\<close>

lemma redeemUpTo_effect:
  assumes inv: "wallet_inv s" and amounts: "numberToPaise requested = Inr rp" "numberToPaise cap = Inr cp"
  shows "\<exists>r t. redeemUpTo now c b requested cap s = Inr (r, t)
     \<and> rr_actualUsedPaise r = max 0 (min (min rp (walletBalance s now c)) cp)
     \<and> 0 \<le> rr_fastQueFundedConsumedPaise r \<and> rr_fastQueFundedConsumedPaise r \<le> rr_actualUsedPaise r
     \<and> walletBalance t now c = walletBalance s now c - rr_actualUsedPaise r
     \<and> (\<forall>u now'. u = c \<or> walletBalance t now' u = walletBalance s now' u)
     \<and> wallet_inv t"
proof (cases "requested \<le> 0 \<or> cap \<le> 0 \<or> find_account s c = None")
  case True
  have "requested \<le> 0 \<Longrightarrow> rp \<le> 0" "cap \<le> 0 \<Longrightarrow> cp \<le> 0"
    using amounts by (auto simp: numberToPaise_def split: if_splits)
  moreover have "find_account s c = None \<Longrightarrow> walletBalance s now c = 0" by (simp add: walletBalance_def)
  ultimately have zero: "max 0 (min (min rp (walletBalance s now c)) cp) = 0"
    using True by (auto simp: max_def min_def)
  have "redeemUpTo now c b requested cap s = Inr (no_redemption, s)"
    unfolding redeemUpTo_def using True by (cases "requested \<le> 0 \<or> cap \<le> 0") simp_all
  then show ?thesis using inv unfolding zero by (simp add: no_redemption_def)
next
  case False
  then obtain acc where acc: "find_account s c = Some acc" and pos: "\<not> (requested \<le> 0 \<or> cap \<le> 0)" by auto
  let ?lots = "validLots s (ca_id acc) now"
  define tgt where "tgt = min (min rp (sumValidLots s (ca_id acc) now)) cp"
  have bal: "walletBalance s now c = sumValidLots s (ca_id acc) now" by (simp add: walletBalance_def acc)
  obtain rest fd s1 where run: "consume_lots ?lots tgt 0 s = (rest, fd, s1)"
    by (cases "consume_lots ?lots tgt 0 s")
  have eq: "redeemUpTo now c b requested cap s = (if tgt \<le> 0 then Inr (no_redemption, s)
      else Inr (\<lparr>rr_actualUsedPaise = tgt - rest, rr_fastQueFundedConsumedPaise = fd\<rparr>,
             insert_credit (redeemed_row (db_next s1) (ca_id acc) (tgt - rest) b now) s1))"
    using pos acc amounts run unfolding tgt_def validLots_sum [symmetric] redeemUpTo_def Let_def by simp
  show ?thesis
  proof (cases "tgt \<le> 0")
    case True
    then have zero: "max 0 (min (min rp (walletBalance s now c)) cp) = 0" by (simp add: bal tgt_def)
    show ?thesis using inv eq True unfolding zero by (simp add: no_redemption_def)
  next
    case tpos: False
    then have t0: "0 \<le> tgt" by simp
    define t where "t = insert_credit (redeemed_row (db_next s1) (ca_id acc) (tgt - rest) b now) s1"
    have res: "redeemUpTo now c b requested cap s =
        Inr (\<lparr>rr_actualUsedPaise = tgt - rest, rr_fastQueFundedConsumedPaise = fd\<rparr>, t)"
      using eq tpos by (simp add: t_def)
    note R = consume_lots_refines [OF run validLots_in(1) [OF inv] t0]
    have rest: "rest = 0" using consume_balance(2) [OF inv run t0] by (simp add: tgt_def)
    have not_lot: "\<not> valid_lot a n (redeemed_row (db_next s1) (ca_id acc) (tgt - rest) b now)" for a n
      by (simp add: valid_lot_def redeemed_row_def)
    have wt: "walletBalance t n u = walletBalance s1 n u" for n u
      unfolding t_def walletBalance_insert by (simp add: not_lot split: option.split)
    have accs: "find_account s1 u = find_account s u" for u
      by (rule find_account_same) (use R in blast)
    have "walletBalance t now c = walletBalance s now c - tgt"
      using consume_balance(1) [OF inv run t0] tgt_def by (simp add: wt bal) (simp add: walletBalance_def accs acc)
    moreover have others: "walletBalance t n u = walletBalance s n u" if "u \<noteq> c" for u n
    proof (cases "find_account s u")
      case (Some a)
      then show ?thesis
        using consume_others [OF inv run t0 account_ids [OF inv Some acc that], of n]
        by (simp add: wt) (simp add: walletBalance_def accs)
    qed (simp add: wt, simp add: walletBalance_def accs)
    moreover have "\<forall>u n. u = c \<or> walletBalance t n u = walletBalance s n u" using others by blast
    moreover have "tgt = max 0 (min (min rp (walletBalance s now c)) cp)" using tpos by (simp add: bal tgt_def)
    moreover have "0 \<le> fd \<and> fd \<le> tgt" using R rest by simp
    ultimately show ?thesis
      using wallet_inv_redeem [OF inv res] rest
      by (intro exI [of _ "\<lparr>rr_actualUsedPaise = tgt - rest, rr_fastQueFundedConsumedPaise = fd\<rparr>"] exI [of _ t] conjI res)
        simp_all
  qed
qed

section \<open>The wallet as its clients see it\<close>

text \<open>
  What the booking service relies on: a redemption takes a bounded amount off one customer's
  balance, a restoration puts an amount back, and nobody else's balance moves. The laws are stated
  on an arbitrary state type; the model's wallet is interpreted below.
\<close>

locale wallet =
  fixes ok :: "'s \<Rightarrow> bool"
    and bal :: "'s \<Rightarrow> id \<Rightarrow> paise"
    and redeem :: "id \<Rightarrow> paise \<Rightarrow> 's \<Rightarrow> paise \<times> 's"
    and restore :: "id \<Rightarrow> paise \<Rightarrow> 's \<Rightarrow> 's"
  assumes bal_nonneg: "ok s \<Longrightarrow> 0 \<le> bal s u"
    and redeem_ok: "ok s \<Longrightarrow> ok (snd (redeem u a s))"
    and redeem_bounds: "ok s \<Longrightarrow> 0 \<le> fst (redeem u a s) \<and> fst (redeem u a s) \<le> max 0 a"
    and redeem_bal: "ok s \<Longrightarrow> bal (snd (redeem u a s)) v = bal s v - (if v = u then fst (redeem u a s) else 0)"
    and restore_ok: "ok s \<Longrightarrow> ok (restore u a s)"
    and restore_bal: "ok s \<Longrightarrow> bal (restore u a s) v = bal s v + (if v = u then max 0 a else 0)"
begin

lemma redeem_restore: "ok s \<Longrightarrow> bal (restore u (fst (redeem u a s)) (snd (redeem u a s))) v = bal s v"
  using redeem_bounds [of s u a] by (simp add: redeem_ok redeem_bal restore_bal max_def)

lemma redeem_within_balance: "ok s \<Longrightarrow> fst (redeem u a s) \<le> bal s u"
  using redeem_bal [of s u a u] bal_nonneg [OF redeem_ok, of s u a u] by simp

text \<open>Any number of redemptions never takes more than the balance there was.\<close>

primrec redeem_all :: "id \<Rightarrow> paise list \<Rightarrow> 's \<Rightarrow> paise \<times> 's" where
  "redeem_all u [] s = (0, s)"
| "redeem_all u (a # as) s = (let (x, s1) = redeem u a s; (y, s2) = redeem_all u as s1 in (x + y, s2))"

lemma redeem_all_bal:
  assumes "ok s"
  shows "ok (snd (redeem_all u as s)) \<and> fst (redeem_all u as s) + bal (snd (redeem_all u as s)) u = bal s u
       \<and> 0 \<le> fst (redeem_all u as s)"
  using assms
proof (induction as arbitrary: s)
  case (Cons a as)
  show ?case
    using Cons.IH [OF redeem_ok [OF Cons.prems, of u a]] redeem_bal [OF Cons.prems, of u a u]
      redeem_bounds [OF Cons.prems, of u a]
    by (cases "redeem u a s"; cases "redeem_all u as (snd (redeem u a s))") (simp add: Let_def)
qed simp

lemma no_overdraw: "ok s \<Longrightarrow> fst (redeem_all u as s) \<le> bal s u"
  using redeem_all_bal [of s u as] bal_nonneg [of "snd (redeem_all u as s)" u] by simp

end

section \<open>The wallet interface holds of the model\<close>

lemma find_account_Some_iff:
  assumes "wallet_inv s" "a \<in> set (db_accounts s)" "ca_user a = u"
  shows "find_account s u = Some a"
  using find_id_eq [of ca_user "db_accounts s" a] assms by (simp add: wallet_inv_def find_account_def)

lemma find_snoc: "find p (xs @ [x]) = (case find p xs of None \<Rightarrow> (if p x then Some x else None) | Some y \<Rightarrow> Some y)"
  by (induction xs) auto

lemma fresh_account_empty:
  assumes "wallet_inv s" shows "sumValidLots s (db_next s) now = 0"
proof -
  have "ct_account t \<noteq> db_next s" if "t \<in> set (db_credits s)" for t
  proof -
    have "ct_account t \<in> ca_id ` set (db_accounts s)" using assms that by (auto simp: wallet_inv_def)
    then show ?thesis using assms by (auto simp: wallet_inv_def)
  qed
  then have "filter (valid_lot (db_next s) now) (db_credits s) = []"
    by (auto simp: filter_empty_conv valid_lot_def)
  then show ?thesis by (simp add: sumValidLots_def)
qed

lemma upsert_balance:
  assumes inv: "wallet_inv s" and up: "upsert_account u s = (a, t)"
  shows "walletBalance t now v = walletBalance s now v" "find_account t u = Some a"
proof -
  note A = wallet_inv_account [OF inv up]
  show acc: "find_account t u = Some a" by (rule find_account_Some_iff [OF A(1-3)])
  have t: "t = s \<or> (find_account s u = None \<and> db_accounts t = db_accounts s @ [a] \<and> ca_id a = db_next s)"
    using up by (auto simp: upsert_account_def Let_def split: option.splits)
  have lots: "sumValidLots t i now = sumValidLots s i now" for i by (simp add: sumValidLots_def A(4))
  show "walletBalance t now v = walletBalance s now v"
  proof (cases "t = s")
    case False
    then have none: "find_account s u = None" and snoc: "db_accounts t = db_accounts s @ [a]" and i: "ca_id a = db_next s"
      using t by blast+
    show ?thesis
    proof (cases "v = u")
      case True
      then show ?thesis using acc none i fresh_account_empty [OF inv] by (simp add: walletBalance_def lots)
    next
      case False
      then have "find_account t v = find_account s v"
        using A(3) by (simp add: find_account_def snoc find_snoc split: option.split)
      then show ?thesis by (simp add: walletBalance_def lots split: option.split)
    qed
  qed simp
qed

lemma restore_effect:
  assumes inv: "wallet_inv s"
  shows "wallet_inv (restoreForCancelledBooking now c b amount s)"
    and "walletBalance (restoreForCancelledBooking now c b amount s) now' v
       = walletBalance s now' v + (if v = c then max 0 amount else 0)"
proof -
  obtain a s1 where up: "upsert_account c s = (a, s1)" by (cases "upsert_account c s")
  note A = wallet_inv_account [OF inv up] and B = upsert_balance [OF inv up]
  define row where "row = \<lparr>ct_id = db_next s1, ct_account = ca_id a, ct_type = RESTORED,
                ct_amount = amount, ct_remaining = Some amount, ct_booking = Some b,
                ct_funding = None, ct_campaign = None, ct_expiresAt = None, ct_idempotencyKey = None,
                ct_reason = None, ct_createdAt = now\<rparr>"
  have eq: "restoreForCancelledBooking now c b amount s = (if amount \<le> 0 then s else insert_credit row s1)"
    by (simp add: restoreForCancelledBooking_def up row_def)
  have inv': "wallet_inv (insert_credit row s1)" if "0 < amount"
    using A(2) that by (intro wallet_inv_insert [OF A(1)]) (simp_all add: row_def lot_ok_def)
  then show "wallet_inv (restoreForCancelledBooking now c b amount s)" using inv eq by simp
  show "walletBalance (restoreForCancelledBooking now c b amount s) now' v
       = walletBalance s now' v + (if v = c then max 0 amount else 0)"
  proof (cases "amount \<le> 0")
    case False
    have vl: "valid_lot i now' row \<longleftrightarrow> i = ca_id a" for i
      using False by (auto simp: valid_lot_def row_def)
    have "(case find_account s1 v of Some x \<Rightarrow> (if valid_lot (ca_id x) now' row then remaining row else 0) | None \<Rightarrow> 0)
        = (if v = c then amount else 0)"
    proof (cases "v = c")
      case True
      then show ?thesis using B(2) vl by (simp add: row_def remaining_def)
    next
      case False
      then have "ca_id x \<noteq> ca_id a" if "find_account s1 v = Some x" for x
        using account_ids [OF A(1) that B(2)] by simp
      then show ?thesis using False vl by (simp split: option.split)
    qed
    then show ?thesis using False eq B(1) by (simp add: walletBalance_insert max_def)
  qed (simp add: eq)
qed

definition redeemPaise :: "ms \<Rightarrow> id \<Rightarrow> rat \<Rightarrow> id \<Rightarrow> paise \<Rightarrow> db \<Rightarrow> paise \<times> db" where
  "redeemPaise now bookingId cap u amount s =
     (case redeemUpTo now u bookingId (paiseToRupees amount) cap s of
        Inr (r, t) \<Rightarrow> (rr_actualUsedPaise r, t) | Inl _ \<Rightarrow> (0, s))"

lemma redeemPaise_cases:
  assumes "wallet_inv s"
  shows "redeemPaise now b cap u a s = (0, s)
    \<or> (\<exists>cp (r::redeem_result) t. numberToPaise (paiseToRupees a) = Inr a \<and> numberToPaise cap = Inr cp
         \<and> redeemPaise now b cap u a s = (rr_actualUsedPaise r, t)
         \<and> rr_actualUsedPaise r = max 0 (min (min a (walletBalance s now u)) cp)
         \<and> walletBalance t now u = walletBalance s now u - rr_actualUsedPaise r
         \<and> (\<forall>v now'. v = u \<or> walletBalance t now' v = walletBalance s now' v) \<and> wallet_inv t)"
proof (cases "redeemUpTo now u b (paiseToRupees a) cap s")
  case (Inr x)
  obtain r t where x: "x = (r, t)" by (cases x)
  from redeemUpToD [OF Inr [unfolded x]] show ?thesis
  proof
    assume "r = no_redemption \<and> t = s"
    then show ?thesis using Inr x by (simp add: redeemPaise_def no_redemption_def)
  next
    assume "\<exists>acc rp cp tgt rest fd s1. find_account s u = Some acc \<and> numberToPaise (paiseToRupees a) = Inr rp \<and>
       numberToPaise cap = Inr cp \<and>
       tgt = min (min rp (sum_list (map remaining (validLots s (ca_id acc) now)))) cp \<and> 0 < tgt \<and>
       consume_lots (validLots s (ca_id acc) now) tgt 0 s = (rest, fd, s1) \<and>
       r = \<lparr>rr_actualUsedPaise = tgt - rest, rr_fastQueFundedConsumedPaise = fd\<rparr> \<and>
       t = insert_credit (redeemed_row (db_next s1) (ca_id acc) (tgt - rest) b now) s1"
    then obtain rp cp where p: "numberToPaise (paiseToRupees a) = Inr rp" "numberToPaise cap = Inr cp" by blast
    have "rp = a"
      using p(1) by (simp add: numberToPaise_def paiseToRupees_def split: if_splits)
    from redeemUpTo_effect [OF assms p, of now u b] obtain r' t' where
      E: "redeemUpTo now u b (paiseToRupees a) cap s = Inr (r', t')"
      "rr_actualUsedPaise r' = max 0 (min (min rp (walletBalance s now u)) cp)"
      "walletBalance t' now u = walletBalance s now u - rr_actualUsedPaise r'"
      "\<forall>v now'. v = u \<or> walletBalance t' now' v = walletBalance s now' v" "wallet_inv t'" by blast
    have "redeemPaise now b cap u a s = (rr_actualUsedPaise r', t')" by (simp add: redeemPaise_def E(1))
    then show ?thesis using p E unfolding \<open>rp = a\<close> by blast
  qed
qed (simp add: redeemPaise_def)

interpretation wal: wallet wallet_inv "\<lambda>s. walletBalance s now" "redeemPaise now b cap"
    "\<lambda>u. restoreForCancelledBooking now u b"
  for now b cap
proof
  fix s u a v assume inv: "wallet_inv s"
  show "0 \<le> walletBalance s now u"
    using sumValidLots_nonneg [OF inv] by (simp add: walletBalance_def split: option.split)
  show "wallet_inv (snd (redeemPaise now b cap u a s))"
    using redeemPaise_cases [OF inv, of now b cap u a] inv by (elim disjE exE conjE) simp_all
  show "0 \<le> fst (redeemPaise now b cap u a s) \<and> fst (redeemPaise now b cap u a s) \<le> max 0 a"
    using redeemPaise_cases [OF inv, of now b cap u a] by (auto simp: max_def min_def)
  show "walletBalance (snd (redeemPaise now b cap u a s)) now v
      = walletBalance s now v - (if v = u then fst (redeemPaise now b cap u a s) else 0)"
    using redeemPaise_cases [OF inv, of now b cap u a]
  proof (elim disjE exE conjE)
    fix cp r t
    assume E: "redeemPaise now b cap u a s = (rr_actualUsedPaise r, t)"
      "walletBalance t now u = walletBalance s now u - rr_actualUsedPaise r"
      "\<forall>v now'. v = u \<or> walletBalance t now' v = walletBalance s now' v"
    show ?thesis
    proof (cases "v = u")
      case False
      then have "walletBalance t now v = walletBalance s now v" using E(3) by blast
      then show ?thesis using False by (simp add: E(1))
    qed (simp add: E(1,2))
  qed simp
  show "wallet_inv (restoreForCancelledBooking now u b a s)" by (rule restore_effect(1) [OF inv])
  show "walletBalance (restoreForCancelledBooking now u b a s) now v
      = walletBalance s now v + (if v = u then max 0 a else 0)" by (rule restore_effect(2) [OF inv])
qed

section \<open>Properties\<close>

text \<open>C10: a redemption takes exactly the smallest of the amount asked for, the balance and the cap
  (nothing when that is not positive), the balance drops by exactly that amount, the part reported as
  funded by the platform lies within it, no other customer's balance moves at any clock reading, and
  the wallet stays consistent: lots are never overdrawn.\<close>
theorem redemption_is_exact:
  assumes "wallet_inv s" "numberToPaise requested = Inr rp" "numberToPaise cap = Inr cp"
  shows "\<exists>r t. redeemUpTo now c b requested cap s = Inr (r, t)
     \<and> rr_actualUsedPaise r = max 0 (min (min rp (walletBalance s now c)) cp)
     \<and> 0 \<le> rr_fastQueFundedConsumedPaise r \<and> rr_fastQueFundedConsumedPaise r \<le> rr_actualUsedPaise r
     \<and> walletBalance t now c = walletBalance s now c - rr_actualUsedPaise r
     \<and> (\<forall>u now'. u = c \<or> walletBalance t now' u = walletBalance s now' u)
     \<and> wallet_inv t"
  by (rule redeemUpTo_effect [OF assms])

definition demo_lot :: "id \<Rightarrow> paise \<Rightarrow> ms option \<Rightarrow> funding_source \<Rightarrow> credit_tx" where
  "demo_lot i a e f = \<lparr>ct_id = i, ct_account = 1, ct_type = PROMO_GRANT, ct_amount = a, ct_remaining = Some a,
     ct_booking = None, ct_funding = Some f, ct_campaign = None, ct_expiresAt = e, ct_idempotencyKey = None,
     ct_reason = None, ct_createdAt = 0\<rparr>"

definition demo_wallet :: db where
  "demo_wallet = empty_db\<lparr>db_next := 10, db_accounts := [\<lparr>ca_id = 1, ca_user = 7\<rparr>],
     db_credits := [demo_lot 2 5000 None SHOP_FUNDED, demo_lot 3 3000 (Some 900) FASTQUE_FUNDED,
                    demo_lot 4 2000 (Some 50) FASTQUE_FUNDED]\<rparr>"

lemma demo_wallet_inv: "wallet_inv demo_wallet"
  by (simp add: wallet_inv_def demo_wallet_def demo_lot_def empty_db_def lot_ok_def uniq_on_def)

text \<open>The customer has a lot of 3000 that expires, one of 5000 that does not and one that has expired;
  4000 of the 8000 are asked for.\<close>
lemma redemption_is_exact_witness:
  "\<exists>r t. redeemUpTo 100 7 20 40 1000 demo_wallet = Inr (r, t) \<and> rr_actualUsedPaise r = 4000
     \<and> walletBalance t 100 7 = 4000"
proof -
  have bal: "walletBalance demo_wallet 100 7 = 8000"
    by (simp add: walletBalance_def find_account_def sumValidLots_def valid_lot_def remaining_def
        demo_wallet_def demo_lot_def empty_db_def)
  have "numberToPaise 40 = Inr 4000" "numberToPaise 1000 = Inr 100000"
    by (simp_all add: numberToPaise_def)
  from redemption_is_exact [OF demo_wallet_inv this, of 100 7 20] show ?thesis
    unfolding bal by auto
qed

text \<open>Lots are spent in order of expiry. When a redemption touched a lot, every lot that comes
  strictly before it (it expires sooner, or as soon and was granted earlier) is used up.\<close>
theorem redemption_spends_soonest_expiry_first:
  assumes inv: "wallet_inv s" and red: "redeemUpTo now c b requested cap s = Inr (r, t)"
    and acc: "find_account s c = Some acc"
    and lots: "l1 \<in> set (db_credits s)" "l2 \<in> set (db_credits s)"
      "valid_lot (ca_id acc) now l1" "valid_lot (ca_id acc) now l2"
    and before: "\<not> lot_before l2 l1"
    and touched: "row_rem t (ct_id l2) \<noteq> remaining l2"
  shows "row_rem t (ct_id l1) = 0"
proof -
  let ?ls = "validLots s (ca_id acc) now"
  have d: "distinct (map ct_id (db_credits s))" using inv by (simp add: wallet_inv_def)
  have "r \<noteq> no_redemption \<or> t \<noteq> s" using touched lot_ok_row [OF d lots(2)] by auto
  then obtain tgt rest fd s1 where run: "consume_lots ?ls tgt 0 s = (rest, fd, s1)" and pos: "0 < tgt"
    and t: "t = insert_credit (redeemed_row (db_next s1) (ca_id acc) (tgt - rest) b now) s1"
    using redeemUpToD [OF red] acc by auto
  have pos': "0 \<le> tgt" using pos by simp
  note R = consume_lots_refines [OF run validLots_in(1) [OF inv] pos']
  have nx: "db_next s1 = db_next s" using R by blast
  have row: "row_rem t (ct_id l) = row_rem s1 (ct_id l)" if "l \<in> set (db_credits s)" for l
  proof -
    have "ct_id l < db_next s" using inv that by (simp add: wallet_inv_def)
    then show ?thesis
      by (simp add: t row_rem_def insert_credit_def find_snoc redeemed_row_def nx remaining_def split: option.split)
  qed
  have mem: "l1 \<in> set ?ls" "l2 \<in> set ?ls" using lots by (simp_all add: validLots_def)
  then obtain i j where i: "i < length ?ls" "?ls ! i = l1" and j: "j < length ?ls" "?ls ! j = l2"
    by (auto simp: in_set_conv_nth)
  have "sorted_wrt lot_before ?ls" by (simp add: validLots_def sort_lots_sorted)
  then have "\<not> j < i" using before i j by (auto simp: sorted_wrt_iff_nth_less)
  moreover have "lot_before l2 l2" using lot_before_total [of l2 l2] by simp
  then have "i \<noteq> j" using before i j by auto
  ultimately have ij: "i < j" by simp
  have spent: "row_rem s1 (ct_id (?ls ! k)) = spend (map remaining ?ls) tgt ! k" if "k < length ?ls" for k
  proof -
    have "map (\<lambda>l. row_rem s1 (ct_id l)) ?ls ! k = spend (map remaining ?ls) tgt ! k" using R by simp
    then show ?thesis using that by simp
  qed
  have nn: "\<forall>x\<in>set (map remaining ?ls). 0 \<le> x"
    using validLots_in(1) [OF inv] by (auto simp: lots_in_def)
  have "spend (map remaining ?ls) tgt ! i = 0"
    by (rule spend_in_order [OF ij _ nn pos']) (use spent [OF j(1)] row [OF lots(2)] touched j in simp_all)
  then show ?thesis using spent [OF i(1)] row [OF lots(1)] i by simp
qed

text \<open>In the demo the expiring lot of 3000 goes first, and the rest comes out of the other.\<close>
lemma redemption_spends_soonest_expiry_first_witness:
  "\<exists>r t. redeemUpTo 100 7 20 40 1000 demo_wallet = Inr (r, t) \<and> row_rem t 2 = 4000 \<and> row_rem t 3 = 0"
proof -
  obtain r t where run: "redeemUpTo 100 7 20 40 1000 demo_wallet = Inr (r, t)" "row_rem t 2 = 4000"
    by (simp add: redeemUpTo_def find_account_def validLots_def valid_lot_def remaining_def numberToPaise_def
        demo_wallet_def demo_lot_def empty_db_def lot_before_def lot_key_def decrement_lot_def
        insert_credit_def row_rem_def redeemed_row_def)
  have "row_rem t (ct_id (demo_lot 3 3000 (Some 900) FASTQUE_FUNDED)) = 0"
    by (rule redemption_spends_soonest_expiry_first [OF demo_wallet_inv run(1), of "\<lparr>ca_id = 1, ca_user = 7\<rparr>" _
          "demo_lot 2 5000 None SHOP_FUNDED"])
      (use run(2) in \<open>simp_all add: find_account_def demo_wallet_def demo_lot_def empty_db_def valid_lot_def
        lot_before_def lot_key_def remaining_def\<close>)
  then show ?thesis using run by (auto simp: demo_lot_def)
qed

text \<open>C11: cancelling puts back exactly what was used: a redemption followed by the restoration of the
  amount it reported leaves every customer's balance as it was, however the amounts and the cap were chosen.\<close>
theorem restore_undoes_redemption:
  assumes inv: "wallet_inv s"
  shows "case redeemPaise now b cap c a s of (used, t) \<Rightarrow>
     0 \<le> used \<and> used \<le> max 0 a \<and> used \<le> walletBalance s now c
     \<and> walletBalance (restoreForCancelledBooking now c b used t) now v = walletBalance s now v"
  using wal.redeem_restore [OF inv, of now c b cap a v] wal.redeem_bounds [OF inv, of now b cap c a]
    wal.redeem_within_balance [OF inv, of now b cap c a]
  by (cases "redeemPaise now b cap c a s") simp

lemma restore_undoes_redemption_witness:
  "case redeemPaise 100 20 1000 7 4000 demo_wallet of (used, t) \<Rightarrow>
     used = 4000 \<and> walletBalance t 100 7 = 4000
     \<and> walletBalance (restoreForCancelledBooking 100 7 20 used t) 100 7 = 8000"
proof -
  obtain t where red: "redeemPaise 100 20 1000 7 4000 demo_wallet = (4000, t)" "walletBalance t 100 7 = 4000"
    by (simp add: redeemPaise_def redeemUpTo_def find_account_def validLots_def valid_lot_def remaining_def
        numberToPaise_def paiseToRupees_def walletBalance_def sumValidLots_def
        demo_wallet_def demo_lot_def empty_db_def lot_before_def lot_key_def decrement_lot_def
        insert_credit_def redeemed_row_def)
  have "walletBalance demo_wallet 100 7 = 8000"
    by (simp add: walletBalance_def find_account_def sumValidLots_def valid_lot_def remaining_def
        demo_wallet_def demo_lot_def empty_db_def)
  then show ?thesis
    using restore_undoes_redemption [where now = 100 and b = 20 and cap = 1000 and c = 7 and a = 4000 and v = 7,
        OF demo_wallet_inv] red by simp
qed

text \<open>A promotional grant is idempotent under its key. Once a grant has returned a lot, every later
  request with the same key returns that very lot and changes nothing when it asks for the same amount,
  customer, reason, campaign, funding and expiry, and is refused otherwise; the first one added exactly
  its amount to the balance.\<close>
theorem grant_is_idempotent:
  assumes inv: "wallet_inv s" and granted: "grantPromotionalCredits now admin key input s = Inr (lot, t)"
    and again: "find_user t (gi_customer input') = Some u" "numberToPaise (gi_amount input') = Inr p'"
  shows "grantPromotionalCredits now' admin' key input' t =
    (if ct_amount lot = p' \<and> ct_reason lot = Some (gi_reason input') \<and> ct_campaign lot = gi_campaign input'
        \<and> ct_funding lot = Some (gi_funding input') \<and> ct_expiresAt lot = gi_expiresAt input'
        \<and> gi_customer input = gi_customer input'
     then Inr (lot, t) else Inl GRANT_IDEMPOTENCY_KEY_REUSED)"
proof -
  obtain p where p: "numberToPaise (gi_amount input) = Inr p"
    using granted by (auto simp: grantPromotionalCredits_def success_simps split: sum.splits)
  have lot: "find (\<lambda>x. ct_idempotencyKey x = Some key) (db_credits t) = Some lot \<and> ct_type lot = PROMO_GRANT
      \<and> (case find (\<lambda>a. ca_id a = ct_account lot) (db_accounts t) of Some a \<Rightarrow> ca_user a = gi_customer input | None \<Rightarrow> False)"
  proof (cases "find (\<lambda>x. ct_idempotencyKey x = Some key) (db_credits s)")
    case None
    obtain a s1 where up: "upsert_account (gi_customer input) s = (a, s1)"
      by (cases "upsert_account (gi_customer input) s")
    note A = wallet_inv_account [OF inv up]
    have t: "db_credits t = db_credits s1 @ [lot]" "db_accounts t = db_accounts s1" and lot: "ct_account lot = ca_id a"
      "ct_type lot = PROMO_GRANT" "ct_idempotencyKey lot = Some key"
      using granted None p up
      by (auto simp: grantPromotionalCredits_def success_simps Let_def insert_credit_def)
    have "find (\<lambda>x. ca_id x = ca_id a) (db_accounts s1) = Some a"
      using A(1) by (intro find_id_eq [OF _ A(2)]) (simp add: wallet_inv_def)
    then show ?thesis using None A(3,4) t lot by (simp add: find_snoc)
  next
    case (Some x)
    then have "lot = x" "t = s" "ct_type x = PROMO_GRANT"
      "case find (\<lambda>a. ca_id a = ct_account x) (db_accounts s) of Some a \<Rightarrow> ca_user a = gi_customer input | None \<Rightarrow> False"
      using granted p by (auto simp: grantPromotionalCredits_def success_simps)
    then show ?thesis using Some by simp
  qed
  then obtain a where a: "find (\<lambda>a. ca_id a = ct_account lot) (db_accounts t) = Some a" "ca_user a = gi_customer input"
    by (auto split: option.splits)
  show ?thesis
    using again lot a by (simp add: grantPromotionalCredits_def guardE_def)
qed

lemma grant_is_idempotent_witness:
  "\<exists>lot t. grantPromotionalCredits 0 1 ''k'' \<lparr>gi_customer = 7, gi_amount = 50, gi_reason = ''r'', gi_campaign = None,
        gi_funding = FASTQUE_FUNDED, gi_expiresAt = None\<rparr> demo_db = Inr (lot, t) \<and>
     grantPromotionalCredits 5 2 ''k'' \<lparr>gi_customer = 7, gi_amount = 50, gi_reason = ''r'', gi_campaign = None,
        gi_funding = FASTQUE_FUNDED, gi_expiresAt = None\<rparr> t = Inr (lot, t) \<and>
     grantPromotionalCredits 5 2 ''k'' \<lparr>gi_customer = 7, gi_amount = 60, gi_reason = ''r'', gi_campaign = None,
        gi_funding = FASTQUE_FUNDED, gi_expiresAt = None\<rparr> t = Inl GRANT_IDEMPOTENCY_KEY_REUSED"
proof -
  let ?in = "\<lambda>a. \<lparr>gi_customer = 7, gi_amount = a, gi_reason = ''r'', gi_campaign = None,
        gi_funding = FASTQUE_FUNDED, gi_expiresAt = None\<rparr>"
  have inv: "wallet_inv demo_db" by (simp add: wallet_inv_def demo_defs)
  have money: "numberToPaise 50 = Inr 5000" "numberToPaise 60 = Inr 6000" by (simp_all add: numberToPaise_def)
  obtain lot t where run: "grantPromotionalCredits 0 1 ''k'' (?in 50) demo_db = Inr (lot, t)"
    and lot: "ct_amount lot = 5000" "ct_reason lot = Some ''r''" "ct_campaign lot = None"
      "ct_funding lot = Some FASTQUE_FUNDED" "ct_expiresAt lot = None" and t: "find_user t 7 = Some (demo_user 7)"
    by (simp add: grantPromotionalCredits_def money find_user_def upsert_account_def find_account_def Let_def
        insert_credit_def emit_def demo_defs)
  have u: "find_user t (gi_customer (?in a)) = Some (demo_user 7)" for a using t by simp
  have "grantPromotionalCredits 5 2 ''k'' (?in 50) t = Inr (lot, t)"
    using grant_is_idempotent [OF inv run u, of 50 5000 5 2] lot money by simp
  moreover have "grantPromotionalCredits 5 2 ''k'' (?in 60) t = Inl GRANT_IDEMPOTENCY_KEY_REUSED"
    using grant_is_idempotent [OF inv run u, of 60 6000 5 2] lot money by simp
  ultimately show ?thesis using run by blast
qed

end
