(* ===== verification/Access.thy ===== *)
theory Access
  imports Demo
begin

text \<open>
  Who may operate a salon
  (\<^verbatim>\<open>apps/backend/src/common/salon-access/salon-access.service.ts\<close>): checks against the
  UserRole table, never against the roster.
\<close>

datatype salon_actor = STAFF_OR_OWNER | PLATFORM_ADMIN | CO_FOUNDER
datatype owner_actor = AS_OWNER | AS_PLATFORM_ADMIN | AS_CO_FOUNDER
datatype actor_kind = KIND_OWNER | KIND_STAFF | KIND_PLATFORM_ADMIN | KIND_CO_FOUNDER

definition has_role :: "db \<Rightarrow> id \<Rightarrow> id option \<Rightarrow> role list \<Rightarrow> bool" where
  "has_role s userId salonId roles =
     exists_where (\<lambda>r. ur_user r = userId \<and> ur_salon r = salonId \<and> ur_role r \<in> set roles) (db_roles s)"

definition assertRoles :: "db \<Rightarrow> id \<Rightarrow> id \<Rightarrow> role list \<Rightarrow> app_error + unit" where
  "assertRoles s userId salonId roles =
     guardE (has_role s userId (Some salonId) roles) SALON_ACCESS_DENIED (Inr ())"

definition assertAccess :: "db \<Rightarrow> id \<Rightarrow> id \<Rightarrow> app_error + unit" where
  "assertAccess s userId salonId = assertRoles s userId salonId [SALON_STAFF, SALON_OWNER]"

definition assertOwnerAccess :: "db \<Rightarrow> id \<Rightarrow> id \<Rightarrow> app_error + unit" where
  "assertOwnerAccess s userId salonId = assertRoles s userId salonId [SALON_OWNER]"

definition assertGlobalAdminAccess :: "db \<Rightarrow> id \<Rightarrow> id \<Rightarrow> app_error + unit" where
  "assertGlobalAdminAccess s userId salonId =
     guardE (has_role s userId None [ROLE_PLATFORM_ADMIN]) SALON_ACCESS_DENIED
       (theE (find_salon s salonId) SALON_NOT_FOUND (\<lambda>_. Inr ()))"

definition assertGlobalAdminOperationalAccess :: "db \<Rightarrow> id \<Rightarrow> id \<Rightarrow> app_error + unit" where
  "assertGlobalAdminOperationalAccess s userId salonId =
     guardE (has_role s userId None [ROLE_PLATFORM_ADMIN]) SALON_ACCESS_DENIED
       (theE (find_salon s salonId) SALON_NOT_FOUND (\<lambda>salon.
         guardE (sa_status salon = SALON_ACTIVE) SALON_ACCESS_DENIED (Inr ())))"

definition assertGlobalCoFounderAccess :: "db \<Rightarrow> id \<Rightarrow> id \<Rightarrow> bool \<Rightarrow> app_error + unit" where
  "assertGlobalCoFounderAccess s userId salonId operational =
     guardE (has_role s userId None [ROLE_CO_FOUNDER]) SALON_ACCESS_DENIED
       (guardE (case find_user s userId of Some u \<Rightarrow> us_active u | None \<Rightarrow> False) SALON_ACCESS_DENIED
         (theE (find_salon s salonId) SALON_NOT_FOUND (\<lambda>salon.
           guardE (\<not> (operational \<and> sa_status salon \<noteq> SALON_ACTIVE)) SALON_ACCESS_DENIED (Inr ()))))"

text \<open>Both delegated checks fall back to the co-founder check only when the admin check failed
  with \<open>SALON_ACCESS_DENIED\<close>; any other failure is rethrown.\<close>

definition assertOwnerOrAdminAccess :: "db \<Rightarrow> id \<Rightarrow> id \<Rightarrow> app_error + owner_actor" where
  "assertOwnerOrAdminAccess s userId salonId =
     (if has_role s userId (Some salonId) [SALON_OWNER] then Inr AS_OWNER
      else case assertGlobalAdminAccess s userId salonId of
        Inr _ \<Rightarrow> Inr AS_PLATFORM_ADMIN
      | Inl err \<Rightarrow> if err \<noteq> SALON_ACCESS_DENIED then Inl err
                  else bindE (assertGlobalCoFounderAccess s userId salonId False) (\<lambda>_. Inr AS_CO_FOUNDER))"

definition assertAccessOrAdminAccess :: "db \<Rightarrow> id \<Rightarrow> id \<Rightarrow> app_error + salon_actor" where
  "assertAccessOrAdminAccess s userId salonId =
     (if has_role s userId (Some salonId) [SALON_STAFF, SALON_OWNER] then Inr STAFF_OR_OWNER
      else case assertGlobalAdminOperationalAccess s userId salonId of
        Inr _ \<Rightarrow> Inr PLATFORM_ADMIN
      | Inl err \<Rightarrow> if err \<noteq> SALON_ACCESS_DENIED then Inl err
                  else bindE (assertGlobalCoFounderAccess s userId salonId True) (\<lambda>_. Inr CO_FOUNDER))"

definition getActorKind :: "db \<Rightarrow> id \<Rightarrow> id \<Rightarrow> actor_kind option" where
  "getActorKind s userId salonId =
     (if has_role s userId (Some salonId) [SALON_OWNER] then Some KIND_OWNER
      else if has_role s userId (Some salonId) [SALON_STAFF] then Some KIND_STAFF
      else if has_role s userId None [ROLE_PLATFORM_ADMIN] then Some KIND_PLATFORM_ADMIN
      else if has_role s userId None [ROLE_CO_FOUNDER] then Some KIND_CO_FOUNDER
      else None)"

section \<open>What an access decision proves\<close>

text \<open>The abstract policy: a member of this salon, or a global administrator of an existing salon
  that is operating, or an active global co-founder of one.\<close>

definition may_operate :: "db \<Rightarrow> id \<Rightarrow> id \<Rightarrow> salon_actor \<Rightarrow> bool" where
  "may_operate s userId salonId a =
     (let member = (\<exists>r\<in>set (db_roles s). ur_user r = userId \<and> ur_salon r = Some salonId \<and>
                       (ur_role r = SALON_STAFF \<or> ur_role r = SALON_OWNER));
          global = (\<lambda>ro. \<exists>r\<in>set (db_roles s). ur_user r = userId \<and> ur_salon r = None \<and> ur_role r = ro);
          operating = (\<exists>salon. find_salon s salonId = Some salon \<and> sa_status salon = SALON_ACTIVE);
          live = (\<exists>u. find_user s userId = Some u \<and> us_active u)
      in case a of
           STAFF_OR_OWNER \<Rightarrow> member
         | PLATFORM_ADMIN \<Rightarrow> \<not> member \<and> global ROLE_PLATFORM_ADMIN \<and> operating
         | CO_FOUNDER \<Rightarrow> \<not> member \<and> \<not> (global ROLE_PLATFORM_ADMIN \<and> operating) \<and> global ROLE_CO_FOUNDER
                          \<and> live \<and> operating)"

lemma has_role_iff: "has_role s u so ros \<longleftrightarrow>
    (\<exists>r\<in>set (db_roles s). ur_user r = u \<and> ur_salon r = so \<and> ur_role r \<in> set ros)"
  by (simp add: has_role_def exists_where_iff)

definition salon_role :: "db \<Rightarrow> id \<Rightarrow> id \<Rightarrow> role \<Rightarrow> bool" where
  "salon_role s userId salonId ro = (\<exists>r\<in>set (db_roles s). ur_user r = userId \<and> ur_salon r = Some salonId \<and> ur_role r = ro)"

definition global_role :: "db \<Rightarrow> id \<Rightarrow> role \<Rightarrow> bool" where
  "global_role s userId ro = (\<exists>r\<in>set (db_roles s). ur_user r = userId \<and> ur_salon r = None \<and> ur_role r = ro)"

definition salon_exists :: "db \<Rightarrow> id \<Rightarrow> bool" where
  "salon_exists s salonId = (\<exists>salon. find_salon s salonId = Some salon)"

text \<open>Who manages the settings of a salon: its owner, or a global administrator or an active global co-founder of a
  salon that exists, whatever its status.\<close>

definition may_own :: "db \<Rightarrow> id \<Rightarrow> id \<Rightarrow> owner_actor \<Rightarrow> bool" where
  "may_own s userId salonId a = (case a of
       AS_OWNER \<Rightarrow> salon_role s userId salonId SALON_OWNER
     | AS_PLATFORM_ADMIN \<Rightarrow> \<not> salon_role s userId salonId SALON_OWNER \<and> global_role s userId ROLE_PLATFORM_ADMIN
                            \<and> salon_exists s salonId
     | AS_CO_FOUNDER \<Rightarrow> \<not> salon_role s userId salonId SALON_OWNER \<and> \<not> global_role s userId ROLE_PLATFORM_ADMIN
                        \<and> global_role s userId ROLE_CO_FOUNDER \<and> (\<exists>u. find_user s userId = Some u \<and> us_active u)
                        \<and> salon_exists s salonId)"

lemmas access_defs = assertAccessOrAdminAccess_def assertGlobalAdminOperationalAccess_def
  assertGlobalCoFounderAccess_def guardE_def theE_def bindE_def

lemma has_role_salon: "has_role s u (Some sa) [ro] \<longleftrightarrow> salon_role s u sa ro"
  "has_role s u (Some sa) [ro, ro'] \<longleftrightarrow> salon_role s u sa ro \<or> salon_role s u sa ro'"
  and has_role_global: "has_role s u None [ro] \<longleftrightarrow> global_role s u ro"
  by (auto simp: has_role_iff salon_role_def global_role_def)

lemma may_operate_roles: "may_operate s u sa a \<longleftrightarrow> (case a of
      STAFF_OR_OWNER \<Rightarrow> salon_role s u sa SALON_STAFF \<or> salon_role s u sa SALON_OWNER
    | PLATFORM_ADMIN \<Rightarrow> \<not> (salon_role s u sa SALON_STAFF \<or> salon_role s u sa SALON_OWNER) \<and> global_role s u ROLE_PLATFORM_ADMIN
        \<and> (\<exists>salon. find_salon s sa = Some salon \<and> sa_status salon = SALON_ACTIVE)
    | CO_FOUNDER \<Rightarrow> \<not> (salon_role s u sa SALON_STAFF \<or> salon_role s u sa SALON_OWNER)
        \<and> \<not> (global_role s u ROLE_PLATFORM_ADMIN \<and> (\<exists>salon. find_salon s sa = Some salon \<and> sa_status salon = SALON_ACTIVE))
        \<and> global_role s u ROLE_CO_FOUNDER \<and> (\<exists>u'. find_user s u = Some u' \<and> us_active u')
        \<and> (\<exists>salon. find_salon s sa = Some salon \<and> sa_status salon = SALON_ACTIVE))"
  by (cases a) (auto simp: may_operate_def Let_def salon_role_def global_role_def)

lemma operate_iff: "assertAccessOrAdminAccess s u sa = Inr a \<longleftrightarrow> may_operate s u sa a"
  by (cases a; cases "find_salon s sa"; cases "find_user s u")
    (auto simp: access_defs may_operate_roles has_role_salon has_role_global)

lemma own_iff: "assertOwnerOrAdminAccess s u sa = Inr b \<longleftrightarrow> may_own s u sa b"
  by (cases b; cases "find_salon s sa"; cases "find_user s u")
    (auto simp: assertOwnerOrAdminAccess_def assertGlobalAdminAccess_def access_defs may_own_def salon_exists_def
      has_role_salon has_role_global)

text \<open>How the two delegated checks refuse: only a delegate of the platform learns that a salon does not exist.\<close>

definition refusal :: "db \<Rightarrow> id \<Rightarrow> id \<Rightarrow> app_error" where
  "refusal s u sa = (if \<not> salon_exists s sa \<and> (global_role s u ROLE_PLATFORM_ADMIN
       \<or> global_role s u ROLE_CO_FOUNDER \<and> (\<exists>u'. find_user s u = Some u' \<and> us_active u')) then SALON_NOT_FOUND else SALON_ACCESS_DENIED)"

lemma operate_refused: "assertAccessOrAdminAccess s u sa = Inl e \<Longrightarrow> e = refusal s u sa"
  by (cases "find_salon s sa"; cases "find_user s u")
    (auto simp: access_defs refusal_def salon_exists_def has_role_salon has_role_global split: if_splits)

lemma own_refused: "assertOwnerOrAdminAccess s u sa = Inl e \<Longrightarrow> e = refusal s u sa"
  by (cases "find_salon s sa"; cases "find_user s u")
    (auto simp: assertOwnerOrAdminAccess_def assertGlobalAdminAccess_def access_defs refusal_def salon_exists_def
      has_role_salon has_role_global split: if_splits)

text \<open>C13: every access assertion decides exactly its policy over the role table. The role check lets through the holders
  of one of the roles in that very salon, the two member checks its staff and owners and its owners; the administrator
  checks a global administrator of an existing, respectively operating, salon; the co-founder check an active global
  co-founder. The two layered checks let a user through, and attribute the operation to an actor, exactly when the
  abstract policy allows it: members first, then a global administrator, then an active co-founder, and those two only for
  an existing salon and, to operate it, an operating one. Refused, they report a missing salon to delegates only. The
  kind of an actor is that of the strongest role held.\<close>

theorem access_decision_iff_policy:
  "assertRoles s u sa ros = (if \<exists>r\<in>set (db_roles s). ur_user r = u \<and> ur_salon r = Some sa \<and> ur_role r \<in> set ros
       then Inr () else Inl SALON_ACCESS_DENIED)
   \<and> assertAccess s u sa = (if salon_role s u sa SALON_STAFF \<or> salon_role s u sa SALON_OWNER then Inr () else Inl SALON_ACCESS_DENIED)
   \<and> assertOwnerAccess s u sa = (if salon_role s u sa SALON_OWNER then Inr () else Inl SALON_ACCESS_DENIED)
   \<and> (assertGlobalAdminAccess s u sa = Inr () \<longleftrightarrow> global_role s u ROLE_PLATFORM_ADMIN \<and> salon_exists s sa)
   \<and> (assertGlobalAdminOperationalAccess s u sa = Inr () \<longleftrightarrow> global_role s u ROLE_PLATFORM_ADMIN
        \<and> (\<exists>salon. find_salon s sa = Some salon \<and> sa_status salon = SALON_ACTIVE))
   \<and> (assertGlobalCoFounderAccess s u sa operational = Inr () \<longleftrightarrow> global_role s u ROLE_CO_FOUNDER
        \<and> (\<exists>u'. find_user s u = Some u' \<and> us_active u')
        \<and> (\<exists>salon. find_salon s sa = Some salon \<and> (\<not> operational \<or> sa_status salon = SALON_ACTIVE)))
   \<and> (assertOwnerOrAdminAccess s u sa = Inr b \<longleftrightarrow> may_own s u sa b)
   \<and> (assertAccessOrAdminAccess s u sa = Inr a \<longleftrightarrow> may_operate s u sa a)
   \<and> (assertOwnerOrAdminAccess s u sa = Inl e \<longleftrightarrow> (\<nexists>b'. may_own s u sa b') \<and> e = refusal s u sa)
   \<and> (assertAccessOrAdminAccess s u sa = Inl e \<longleftrightarrow> (\<nexists>a'. may_operate s u sa a') \<and> e = refusal s u sa)
   \<and> getActorKind s u sa = (if salon_role s u sa SALON_OWNER then Some KIND_OWNER
        else if salon_role s u sa SALON_STAFF then Some KIND_STAFF
        else if global_role s u ROLE_PLATFORM_ADMIN then Some KIND_PLATFORM_ADMIN
        else if global_role s u ROLE_CO_FOUNDER then Some KIND_CO_FOUNDER else None)"
proof (intro conjI)
  show "assertOwnerOrAdminAccess s u sa = Inl e \<longleftrightarrow> (\<nexists>b'. may_own s u sa b') \<and> e = refusal s u sa"
    by (cases "assertOwnerOrAdminAccess s u sa") (auto simp: own_iff [symmetric] dest: own_refused)
  show "assertAccessOrAdminAccess s u sa = Inl e \<longleftrightarrow> (\<nexists>a'. may_operate s u sa a') \<and> e = refusal s u sa"
    by (cases "assertAccessOrAdminAccess s u sa") (auto simp: operate_iff [symmetric] dest: operate_refused)
  show "assertRoles s u sa ros = (if \<exists>r\<in>set (db_roles s). ur_user r = u \<and> ur_salon r = Some sa \<and> ur_role r \<in> set ros
       then Inr () else Inl SALON_ACCESS_DENIED)"
    by (simp add: assertRoles_def guardE_def has_role_iff)
  show "assertGlobalAdminAccess s u sa = Inr () \<longleftrightarrow> global_role s u ROLE_PLATFORM_ADMIN \<and> salon_exists s sa"
    by (cases "find_salon s sa") (simp_all add: assertGlobalAdminAccess_def access_defs has_role_global salon_exists_def)
  show "assertGlobalAdminOperationalAccess s u sa = Inr () \<longleftrightarrow> global_role s u ROLE_PLATFORM_ADMIN
        \<and> (\<exists>salon. find_salon s sa = Some salon \<and> sa_status salon = SALON_ACTIVE)"
    by (cases "find_salon s sa") (simp_all add: access_defs has_role_global)
  show "assertGlobalCoFounderAccess s u sa operational = Inr () \<longleftrightarrow> global_role s u ROLE_CO_FOUNDER
        \<and> (\<exists>u'. find_user s u = Some u' \<and> us_active u')
        \<and> (\<exists>salon. find_salon s sa = Some salon \<and> (\<not> operational \<or> sa_status salon = SALON_ACTIVE))"
    by (cases "find_salon s sa"; cases "find_user s u") (simp_all add: access_defs has_role_global)
qed (simp_all add: own_iff operate_iff assertAccess_def assertOwnerAccess_def assertRoles_def guardE_def getActorKind_def
    has_role_salon has_role_global)

lemma access_decision_iff_policy_witness:
  "assertAccessOrAdminAccess (demo_db\<lparr>db_roles := [\<lparr>ur_user = 7, ur_role = ROLE_CO_FOUNDER, ur_salon = None\<rparr>]\<rparr>) 7 1 = Inr CO_FOUNDER
   \<and> assertOwnerOrAdminAccess (demo_db\<lparr>db_roles := [\<lparr>ur_user = 7, ur_role = ROLE_CO_FOUNDER, ur_salon = None\<rparr>]\<rparr>) 7 9 = Inl SALON_NOT_FOUND
   \<and> assertAccess (demo_db\<lparr>db_roles := [\<lparr>ur_user = 7, ur_role = ROLE_CO_FOUNDER, ur_salon = None\<rparr>]\<rparr>) 7 1 = Inl SALON_ACCESS_DENIED"
proof -
  let ?s = "demo_db\<lparr>db_roles := [\<lparr>ur_user = 7, ur_role = ROLE_CO_FOUNDER, ur_salon = None\<rparr>]\<rparr>"
  have role: "global_role ?s 7 ro \<longleftrightarrow> ro = ROLE_CO_FOUNDER" "\<not> salon_role ?s 7 i ro" for ro i
    by (auto simp: global_role_def salon_role_def)
  have user: "find_user ?s 7 = Some (demo_user 7)" "us_active (demo_user 7)"
    and salon: "find_salon ?s (Suc 0) = Some demo_salon" "sa_status demo_salon = SALON_ACTIVE" "find_salon ?s 9 = None"
    by (simp_all add: find_user_def find_salon_def demo_db_def demo_user_def demo_salon_def)
  have "may_operate ?s 7 1 CO_FOUNDER" "refusal ?s 7 9 = SALON_NOT_FOUND" "\<not> may_own ?s 7 9 b" for b
    by (auto simp: may_operate_roles may_own_def salon_exists_def refusal_def role user salon split: owner_actor.splits)
  then show ?thesis
    using access_decision_iff_policy [of ?s 7 1 "[]" False AS_OWNER CO_FOUNDER SALON_NOT_FOUND]
      access_decision_iff_policy [of ?s 7 9 "[]" False AS_OWNER CO_FOUNDER SALON_NOT_FOUND] role(2) [of 1]
    by auto
qed

lemma access_member_or_global:
  "assertAccessOrAdminAccess s u sa = Inr a \<Longrightarrow>
     has_role s u (Some sa) [SALON_STAFF, SALON_OWNER] \<or> has_role s u None [ROLE_PLATFORM_ADMIN, ROLE_CO_FOUNDER]"
  by (auto simp: access_defs has_role_iff split: if_splits option.splits sum.splits)

end
