(* ===== verification/Timezone.thy ===== *)
theory Timezone
  imports Schema
begin

text \<open>
  Wall-clock time in a salon's zone (\<^verbatim>\<open>apps/backend/src/common/timezone/timezone.ts\<close>). The
  zone database behind \<open>Intl.DateTimeFormat\<close> is a parameter \<open>tz\<close>: \<open>tz zone t\<close> is the offset in
  milliseconds of the zone at instant \<open>t\<close>, \<open>None\<close> for a name the formatter rejects. The calendar
  behind \<open>Date.UTC\<close> and \<open>formatToParts\<close> is defined here (days since the epoch from a civil
  date and back). Dates are number triples, faithful for years 1000 to 9999, where the four-digit
  text and the number determine each other.
\<close>

section \<open>Civil calendar\<close>

definition days_from_civil :: "int \<Rightarrow> int \<Rightarrow> int \<Rightarrow> int" where
  "days_from_civil y m d =
     (let y' = (if m \<le> 2 then y - 1 else y);
          era = y' div 400; yoe = y' mod 400;
          mp = (m + 9) mod 12;
          doy = (153 * mp + 2) div 5 + d - 1;
          doe = yoe * 365 + yoe div 4 - yoe div 100 + doy
      in era * 146097 + doe - 719468)"

definition civil_from_days :: "int \<Rightarrow> int \<times> int \<times> int" where
  "civil_from_days n =
     (let z = n + 719468; era = z div 146097; doe = z mod 146097;
          yoe = (doe - doe div 1460 + doe div 36524 - doe div 146096) div 365;
          doy = doe - (365 * yoe + yoe div 4 - yoe div 100);
          mp = (5 * doy + 2) div 153;
          d = doy - (153 * mp + 2) div 5 + 1;
          m = (if mp < 10 then mp + 3 else mp - 9);
          y = yoe + era * 400
      in (if m \<le> 2 then y + 1 else y, m, d))"

text \<open>\<open>Date.UTC(year, monthIndex, day, ...)\<close> normalises a month index outside 0..11 and any day.\<close>

definition date_utc :: "int \<Rightarrow> int \<Rightarrow> int \<Rightarrow> int \<Rightarrow> int \<Rightarrow> ms" where
  "date_utc y mIdx d h mi =
     (days_from_civil (y + mIdx div 12) (mIdx mod 12 + 1) 1 + (d - 1)) * 86400000
       + h * 3600000 + mi * 60000"

record zoned_parts =
  zp_year :: int
  zp_month :: int
  zp_day :: int
  zp_hour :: int
  zp_minute :: int

type_synonym zone_db = "string \<Rightarrow> ms \<Rightarrow> int option"

definition utc_parts :: "ms \<Rightarrow> zoned_parts" where
  "utc_parts t =
     (let (y, m, d) = civil_from_days (t div 86400000); r = t mod 86400000
      in \<lparr>zp_year = y, zp_month = m, zp_day = d, zp_hour = r div 3600000,
          zp_minute = r mod 3600000 div 60000\<rparr>)"

definition partsFor :: "zone_db \<Rightarrow> ms \<Rightarrow> string \<Rightarrow> zoned_parts option" where
  "partsFor tz t zone = map_option (\<lambda>off. utc_parts (t + off)) (tz zone t)"

section \<open>Zones and dates\<close>

definition isValidTimeZone :: "zone_db \<Rightarrow> string option \<Rightarrow> bool" where
  "isValidTimeZone tz v = (case v of None \<Rightarrow> False
     | Some z \<Rightarrow> js_trim z \<noteq> [] \<and> tz (js_trim z) 0 \<noteq> None)"

definition INDIA_TIME_ZONE :: string where "INDIA_TIME_ZONE = ''Asia/Kolkata''"

definition upper :: "string \<Rightarrow> string" where
  "upper s = map (\<lambda>c. let n = (of_char c :: nat) in if 97 \<le> n \<and> n \<le> 122 then char_of (n - 32) else c) s"

definition resolveSalonTimeZone :: "zone_db \<Rightarrow> string option \<Rightarrow> string option \<Rightarrow> string option" where
  "resolveSalonTimeZone tz timezone countryCode =
     (let explicit = map_option js_trim timezone in
      if isValidTimeZone tz explicit then explicit
      else if map_option upper countryCode = Some ''IN'' then Some INDIA_TIME_ZONE else None)"

type_synonym date_str = "int \<times> int \<times> int"  \<comment> \<open>the text \<open>yyyy-mm-dd\<close>, as its three numbers\<close>

definition zonedDateToDayOfWeek :: "date_str \<Rightarrow> int" where
  "zonedDateToDayOfWeek ds = (case ds of (y, m, d) \<Rightarrow> (date_utc y (m - 1) d 0 0 div 86400000 + 4) mod 7)"

definition utcToZonedDateStr :: "zone_db \<Rightarrow> ms \<Rightarrow> string \<Rightarrow> date_str option" where
  "utcToZonedDateStr tz t zone =
     map_option (\<lambda>p. (zp_year p, zp_month p, zp_day p)) (partsFor tz t zone)"

text \<open>\<open>/^(\<setminus>d{2}):(\<setminus>d{2})$/\<close>\<close>

definition parse_hhmm :: "string \<Rightarrow> (int \<times> int) option" where
  "parse_hhmm s = (case s of [a, b, c, d, e] \<Rightarrow>
       if is_digit a \<and> is_digit b \<and> c = CHR '':'' \<and> is_digit d \<and> is_digit e
       then Some (parse_int [a, b], parse_int [d, e]) else None
     | _ \<Rightarrow> None)"

definition as_utc :: "zoned_parts \<Rightarrow> ms" where
  "as_utc p = date_utc (zp_year p) (zp_month p - 1) (zp_day p) (zp_hour p) (zp_minute p)"

fun correct_wall :: "zone_db \<Rightarrow> string \<Rightarrow> ms \<Rightarrow> nat \<Rightarrow> ms \<Rightarrow> ms option" where
  "correct_wall tz zone desired 0 candidate = Some candidate"
| "correct_wall tz zone desired (Suc n) candidate =
     (case partsFor tz candidate zone of None \<Rightarrow> None
      | Some observed \<Rightarrow>
          let correction = desired - as_utc observed
          in if correction = 0 then Some candidate
             else correct_wall tz zone desired n (candidate + correction))"

definition zonedWallTimeToUtc :: "zone_db \<Rightarrow> date_str \<Rightarrow> string \<Rightarrow> string \<Rightarrow> ms option" where
  "zonedWallTimeToUtc tz ds timeStr zone =
     (if \<not> isValidTimeZone tz (Some zone) then None
      else case ds of (year, month, day) \<Rightarrow>
       (if \<not> (1000 \<le> year \<and> year \<le> 9999) then None
        else case parse_hhmm timeStr of None \<Rightarrow> None
        | Some (hour, minute) \<Rightarrow>
           if month < 1 \<or> 12 < month \<or> day < 1 \<or> 31 < day \<or> 23 < hour \<or> 59 < minute then None
           else case correct_wall tz zone (date_utc year (month - 1) day hour minute) 4
                       (date_utc year (month - 1) day hour minute) of
              None \<Rightarrow> None
            | Some candidate \<Rightarrow>
               (case partsFor tz candidate zone of None \<Rightarrow> None
                | Some actual \<Rightarrow>
                    if zp_year actual \<noteq> year \<or> zp_month actual \<noteq> month \<or> zp_day actual \<noteq> day
                       \<or> zp_hour actual \<noteq> hour \<or> zp_minute actual \<noteq> minute then None
                    else Some candidate)))"

definition addZonedCalendarDays :: "date_str \<Rightarrow> int \<Rightarrow> date_str" where
  "addZonedCalendarDays ds n = (case ds of (y, m, d) \<Rightarrow>
     civil_from_days (date_utc y (m - 1) (d + n) 0 0 div 86400000))"

definition zonedDayBounds :: "zone_db \<Rightarrow> ms \<Rightarrow> string \<Rightarrow> (date_str \<times> ms \<times> ms) option" where
  "zonedDayBounds tz reference zone =
     (case utcToZonedDateStr tz reference zone of None \<Rightarrow> None
      | Some ds \<Rightarrow>
          (case (zonedWallTimeToUtc tz ds ''00:00'' zone,
                 zonedWallTimeToUtc tz (addZonedCalendarDays ds 1) ''00:00'' zone) of
             (Some st, Some en) \<Rightarrow> Some (ds, st, en)
           | _ \<Rightarrow> None))"

section \<open>Lemmas\<close>

text \<open>A wall time that is found shows, in the zone, exactly the date and time that was asked for.\<close>

lemma zonedWallTimeToUtc_sound:
  assumes "zonedWallTimeToUtc tz (y, m, d) ts zone = Some t"
  shows "\<exists>p h mi. partsFor tz t zone = Some p \<and> parse_hhmm ts = Some (h, mi) \<and>
    zp_year p = y \<and> zp_month p = m \<and> zp_day p = d \<and> zp_hour p = h \<and> zp_minute p = mi"
  using assms by (auto simp: zonedWallTimeToUtc_def split: if_splits option.splits prod.splits)

lemma zonedDayBounds_start_date:
  assumes "zonedDayBounds tz r zone = Some (ds, st, en)"
  shows "utcToZonedDateStr tz r zone = Some ds \<and> utcToZonedDateStr tz st zone = Some ds"
  using assms
  by (auto simp: zonedDayBounds_def utcToZonedDateStr_def split: option.splits
      dest!: zonedWallTimeToUtc_sound)

definition ist :: zone_db where
  "ist zone t = (if zone = ''Asia/Kolkata'' then Some 19800000 else None)"

lemma ist_example: "zonedWallTimeToUtc ist (2026, 10, 19) ''09:30'' ''Asia/Kolkata'' = Some 1792382400000"
  by code_simp

end
