(* ===== verification/Reservation.thy ===== *)
theory Reservation
  imports Schema
begin

text \<open>
  Which bookings, running services and assigned customers consume a barber or a pool unit
  (\<^verbatim>\<open>apps/backend/src/bookings/reservation.service.ts\<close>). \<open>clk\<close> is the clock the service itself
  reads (\<open>new Date()\<close>), separate from the candidate interval its caller computed earlier.
\<close>

definition minutes :: "int \<Rightarrow> ms" where "minutes m = m * 60000"

definition RESERVING_BOOKING_STATUSES :: "booking_status list" where
  "RESERVING_BOOKING_STATUSES = [B_CONFIRMED, B_PENDING_PAYMENT, B_COMPLETED]"

definition ASSIGNED_HOLD_FALLBACK_MINUTES :: int where "ASSIGNED_HOLD_FALLBACK_MINUTES = 30"

definition reserving :: "booking \<Rightarrow> bool" where
  "reserving b = (bk_status b \<in> set RESERVING_BOOKING_STATUSES)"

definition intervalsOverlap :: "ms \<Rightarrow> ms \<Rightarrow> ms \<Rightarrow> ms \<Rightarrow> bool" where
  "intervalsOverlap aStart aEnd bStart bEnd = (aStart < bEnd \<and> aEnd > bStart)"

definition projectedActiveSessionEnd :: "ms \<Rightarrow> int \<Rightarrow> ms \<Rightarrow> ms" where
  "projectedActiveSessionEnd startedAt durationMinutes now =
     (let nominalEnd = startedAt + minutes durationMinutes in if nominalEnd > now then nominalEnd else now)"

text \<open>The joined service of a session exists (foreign key); of an entry it may be absent.\<close>

definition session_duration :: "db \<Rightarrow> session \<Rightarrow> int" where
  "session_duration s x = (case find_service s (ss_service x) of Some sv \<Rightarrow> sv_duration sv | None \<Rightarrow> 0)"

definition entry_service_duration :: "db \<Rightarrow> entry \<Rightarrow> int option" where
  "entry_service_duration s e =
     (case qe_service e of None \<Rightarrow> None | Some i \<Rightarrow> map_option sv_duration (find_service s i))"

definition hold_from :: "ms \<Rightarrow> entry \<Rightarrow> ms" where
  "hold_from now e = nvl (orElse (qe_assignedAt e) (qe_calledAt e)) now"

definition session_overlaps :: "db \<Rightarrow> ms \<Rightarrow> session \<Rightarrow> ms \<Rightarrow> ms \<Rightarrow> bool" where
  "session_overlaps s clk x start end' =
     intervalsOverlap (ss_startedAt x) (projectedActiveSessionEnd (ss_startedAt x) (session_duration s x) clk) start end'"

definition hold_end :: "db \<Rightarrow> ms \<Rightarrow> entry \<Rightarrow> ms" where
  "hold_end s clk e = projectedActiveSessionEnd (hold_from clk e)
     (nvl (entry_service_duration s e) ASSIGNED_HOLD_FALLBACK_MINUTES) clk"

definition hold_overlaps :: "db \<Rightarrow> ms \<Rightarrow> entry \<Rightarrow> ms \<Rightarrow> ms \<Rightarrow> bool" where
  "hold_overlaps s clk e start end' = intervalsOverlap (hold_from clk e) (hold_end s clk e) start end'"

definition session_in_salon :: "db \<Rightarrow> id \<Rightarrow> session \<Rightarrow> bool" where
  "session_in_salon s salonId x = (case find_chair s (ss_chair x) of Some c \<Rightarrow> ch_salon c = salonId | None \<Rightarrow> False)"

definition session_is_walk_in :: "db \<Rightarrow> session \<Rightarrow> bool" where
  "session_is_walk_in s x = (case find_entry s (ss_entry x) of Some e \<Rightarrow> qe_booking e = None | None \<Rightarrow> False)"

definition booking_conflicts :: "id \<Rightarrow> ms \<Rightarrow> ms \<Rightarrow> id option \<Rightarrow> booking \<Rightarrow> bool" where
  "booking_conflicts salonId start end' excludeBookingId b \<longleftrightarrow>
     bk_salon b = salonId \<and> (case excludeBookingId of None \<Rightarrow> True | Some x \<Rightarrow> bk_id b \<noteq> x)
     \<and> reserving b \<and> bk_slotStart b < end' \<and> bk_slotEnd b > start"

definition countPoolReservations :: "ms \<Rightarrow> db \<Rightarrow> id \<Rightarrow> ms \<Rightarrow> ms \<Rightarrow> id option \<Rightarrow> nat" where
  "countPoolReservations clk s salonId start end' excludeBookingId =
     (let bookingCount = count_where (booking_conflicts salonId start end' excludeBookingId) (db_bookings s);
          activeWalkInSessions = filter (\<lambda>x. ss_status x = S_ACTIVE \<and> session_in_salon s salonId x
                                             \<and> session_is_walk_in s x) (db_sessions s);
          assignedWalkIns = filter (\<lambda>e. qe_salon e = salonId \<and> qe_status e = Q_CALLED
                                        \<and> qe_staff e \<noteq> None \<and> qe_booking e = None) (db_entries s)
      in bookingCount
         + count_where (\<lambda>x. session_overlaps s clk x start end') activeWalkInSessions
         + count_where (\<lambda>e. hold_overlaps s clk e start end') assignedWalkIns)"

datatype check_reason = BOOKING_RESERVATION | ACTIVE_SESSION | ASSIGNED_CUSTOMER

record staff_check =
  sc_free :: bool
  sc_reason :: "check_reason option"
  sc_busyUntil :: "ms option"

definition earliest :: "ms list \<Rightarrow> ms option" where
  "earliest ts = (case ts of [] \<Rightarrow> None | t # us \<Rightarrow> Some (foldl min t us))"

definition isStaffFreeForInterval ::
    "ms \<Rightarrow> db \<Rightarrow> id \<Rightarrow> id \<Rightarrow> ms \<Rightarrow> ms \<Rightarrow> id option \<Rightarrow> id option \<Rightarrow> staff_check" where
  "isStaffFreeForInterval clk s salonId staffId start end' excludeBookingId excludeQueueEntryId =
     (let conflicting = filter (\<lambda>b. booking_conflicts salonId start end' excludeBookingId b
                                    \<and> bk_preferredStaff b = Some staffId) (db_bookings s);
          activeSession = find (\<lambda>x. ss_staff x = staffId \<and> ss_status x = S_ACTIVE
                            \<and> (case excludeQueueEntryId of None \<Rightarrow> True | Some q \<Rightarrow> ss_entry x \<noteq> q)) (db_sessions s);
          assignedHold = find (\<lambda>e. qe_salon e = salonId \<and> qe_status e = Q_CALLED \<and> qe_staff e = Some staffId
                            \<and> (case excludeQueueEntryId of None \<Rightarrow> True | Some q \<Rightarrow> qe_id e \<noteq> q)) (db_entries s)
      in if conflicting \<noteq> [] then
           \<lparr>sc_free = False, sc_reason = Some BOOKING_RESERVATION, sc_busyUntil = earliest (map bk_slotEnd conflicting)\<rparr>
         else case (case activeSession of
                      Some x \<Rightarrow> if session_overlaps s clk x start end'
                                then Some (projectedActiveSessionEnd (ss_startedAt x) (session_duration s x) clk)
                                else None
                    | None \<Rightarrow> None) of
           Some t \<Rightarrow> \<lparr>sc_free = False, sc_reason = Some ACTIVE_SESSION, sc_busyUntil = Some t\<rparr>
         | None \<Rightarrow>
             (case (case assignedHold of
                      Some e \<Rightarrow> if hold_overlaps s clk e start end' then Some (hold_end s clk e) else None
                    | None \<Rightarrow> None) of
                Some t \<Rightarrow> \<lparr>sc_free = False, sc_reason = Some ASSIGNED_CUSTOMER, sc_busyUntil = Some t\<rparr>
              | None \<Rightarrow> \<lparr>sc_free = True, sc_reason = None, sc_busyUntil = None\<rparr>))"

definition nextReservationForStaff :: "db \<Rightarrow> id \<Rightarrow> id \<Rightarrow> ms \<Rightarrow> (ms \<times> ms) option" where
  "nextReservationForStaff s salonId staffId after =
     (case sort_key bk_slotStart (filter (\<lambda>b. bk_salon b = salonId \<and> bk_preferredStaff b = Some staffId
              \<and> reserving b \<and> bk_slotEnd b > after) (db_bookings s)) of
        [] \<Rightarrow> None | b # _ \<Rightarrow> Some (bk_slotStart b, bk_slotEnd b))"

datatype availability_state = OFF_DUTY | AVAILABLE | IN_SERVICE_STATE | RESERVED

definition getStaffAvailabilityState ::
    "ms \<Rightarrow> ms \<Rightarrow> db \<Rightarrow> id \<Rightarrow> id \<Rightarrow> bool \<Rightarrow> availability_state \<times> ms option \<times> ms option" where
  "getStaffAvailabilityState now clk s salonId staffId isWorking =
     (if \<not> isWorking then (OFF_DUTY, None, None)
      else let check = isStaffFreeForInterval clk s salonId staffId now (now + 1) None None;
               next = nextReservationForStaff s salonId staffId
                        (if sc_free check then now else nvl (sc_busyUntil check) now)
           in if \<not> sc_free check
              then (if sc_reason check = Some ACTIVE_SESSION then IN_SERVICE_STATE else RESERVED,
                    sc_busyUntil check, map_option fst next)
              else (AVAILABLE, None, map_option fst next))"

section \<open>Lemmas\<close>

lemma overlap_sym: "intervalsOverlap a b c d = intervalsOverlap c d a b"
  by (auto simp: intervalsOverlap_def)

lemma overlap_iff_common_instant:
  assumes "a < b" "c < d"
  shows "intervalsOverlap a b c d \<longleftrightarrow> (\<exists>t. a \<le> t \<and> t < b \<and> c \<le> t \<and> t < (d::int))"
proof
  assume "intervalsOverlap a b c d"
  then show "\<exists>t. a \<le> t \<and> t < b \<and> c \<le> t \<and> t < d"
    using assms by (intro exI [of _ "max a c"]) (auto simp: intervalsOverlap_def)
qed (auto simp: intervalsOverlap_def)

lemma projected_end_ge: "now \<le> projectedActiveSessionEnd st d now" "st + minutes d \<le> projectedActiveSessionEnd st d now"
  by (auto simp: projectedActiveSessionEnd_def Let_def)

text \<open>What a successful check guarantees, as a fact about each booking, session and hold.\<close>

definition others_session :: "id \<Rightarrow> id option \<Rightarrow> session \<Rightarrow> bool" where
  "others_session st xq x \<longleftrightarrow> ss_staff x = st \<and> ss_status x = S_ACTIVE
     \<and> (case xq of None \<Rightarrow> True | Some q \<Rightarrow> ss_entry x \<noteq> q)"

definition others_hold :: "id \<Rightarrow> id \<Rightarrow> id option \<Rightarrow> entry \<Rightarrow> bool" where
  "others_hold sal st xq e \<longleftrightarrow> qe_salon e = sal \<and> qe_status e = Q_CALLED \<and> qe_staff e = Some st
     \<and> (case xq of None \<Rightarrow> True | Some q \<Rightarrow> qe_id e \<noteq> q)"

lemma sc_free_iff:
  "sc_free (isStaffFreeForInterval clk s sal st a b xb xq) \<longleftrightarrow>
     filter (\<lambda>b'. booking_conflicts sal a b xb b' \<and> bk_preferredStaff b' = Some st) (db_bookings s) = []
     \<and> (case find (others_session st xq) (db_sessions s) of None \<Rightarrow> True | Some x \<Rightarrow> \<not> session_overlaps s clk x a b)
     \<and> (case find (others_hold sal st xq) (db_entries s) of None \<Rightarrow> True | Some e \<Rightarrow> \<not> hold_overlaps s clk e a b)"
proof -
  have s: "(\<lambda>x. ss_staff x = st \<and> ss_status x = S_ACTIVE \<and> (case xq of None \<Rightarrow> True | Some q \<Rightarrow> ss_entry x \<noteq> q))
      = others_session st xq"
    by (simp add: others_session_def fun_eq_iff)
  have h: "(\<lambda>e. qe_salon e = sal \<and> qe_status e = Q_CALLED \<and> qe_staff e = Some st
      \<and> (case xq of None \<Rightarrow> True | Some q \<Rightarrow> qe_id e \<noteq> q)) = others_hold sal st xq"
    by (simp add: others_hold_def fun_eq_iff)
  let ?c = "filter (\<lambda>b'. booking_conflicts sal a b xb b' \<and> bk_preferredStaff b' = Some st) (db_bookings s)"
  show ?thesis
  proof (cases "?c = []")
    case True
    show ?thesis
      unfolding isStaffFreeForInterval_def Let_def s h True
      by (cases "find (others_session st xq) (db_sessions s)"; cases "find (others_hold sal st xq) (db_entries s)")
        (simp_all only: option.case if_False simp_thms staff_check.simps split: if_split, blast)
  next
    case False
    then show ?thesis
      unfolding isStaffFreeForInterval_def Let_def s h by simp
  qed
qed

lemma staff_free_no_booking:
  assumes free: "sc_free (isStaffFreeForInterval clk s sal st a b xb xq)"
    and bk: "bk \<in> set (db_bookings s)" "booking_conflicts sal a b xb bk"
  shows "bk_preferredStaff bk \<noteq> Some st"
proof
  assume "bk_preferredStaff bk = Some st"
  with bk have "bk \<in> set (filter (\<lambda>b'. booking_conflicts sal a b xb b' \<and> bk_preferredStaff b' = Some st) (db_bookings s))"
    by simp
  with free show False
    unfolding sc_free_iff by simp
qed

lemma staff_freeD:
  assumes "sc_free (isStaffFreeForInterval clk s sal st a b xb xq)"
  shows "find (others_session st xq) (db_sessions s) = Some x \<Longrightarrow> \<not> session_overlaps s clk x a b"
    and "find (others_hold sal st xq) (db_entries s) = Some e \<Longrightarrow> \<not> hold_overlaps s clk e a b"
  using assms unfolding sc_free_iff by simp_all

lemma find_unique:
  assumes "x \<in> set xs" "p x" "\<And>y. y \<in> set xs \<Longrightarrow> p y \<Longrightarrow> y = x"
  shows "find p xs = Some x"
proof (cases "find p xs")
  case None
  then have "\<not> (\<exists>y. y \<in> set xs \<and> p y)"
    unfolding find_None_iff .
  then show ?thesis using assms(1,2) by blast
next
  case (Some y)
  from find_SomeD [OF Some] have "y = x" using assms(3) by blast
  then show ?thesis using Some by simp
qed

text \<open>When the check succeeds at an instant, no service is running at the barber and no other
  customer of the salon is assigned to them, provided time passed between the two clock readings
  and service durations are positive.\<close>

lemma staff_free_no_session:
  assumes free: "sc_free (isStaffFreeForInterval clk s sal st now (now + d) xb (Some q))"
    and "uniq_on ss_staff (\<lambda>x. ss_status x = S_ACTIVE) (db_sessions s)"
    and x: "x \<in> set (db_sessions s)" "ss_status x = S_ACTIVE" "ss_staff x = st" "ss_entry x \<noteq> q"
    and "now < clk" "0 < d" "ss_startedAt x \<le> now"
  shows False
proof -
  have "find (others_session st (Some q)) (db_sessions s) = Some x"
    using x assms(2) by (intro find_unique) (auto simp: others_session_def dest: uniq_onD)
  from staff_freeD(1) [OF free this] show False
    using assms(7-) projected_end_ge(1) [of clk "ss_startedAt x" "session_duration s x"]
    by (simp add: session_overlaps_def intervalsOverlap_def)
qed

lemma staff_free_no_hold:
  assumes free: "sc_free (isStaffFreeForInterval clk s sal st now (now + d) xb (Some q))"
    and "uniq_on qe_staff (\<lambda>e. qe_status e = Q_CALLED \<and> qe_staff e \<noteq> None) (db_entries s)"
    and e: "e \<in> set (db_entries s)" "qe_status e = Q_CALLED" "qe_staff e = Some st" "qe_id e \<noteq> q" "qe_salon e = sal"
    and "now < clk" "0 < d" "hold_from clk e \<le> now"
  shows False
proof -
  have "find (others_hold sal st (Some q)) (db_entries s) = Some e"
  proof (rule find_unique)
    show "y = e" if "y \<in> set (db_entries s)" "others_hold sal st (Some q) y" for y
      by (rule uniq_onD [OF assms(2)]) (use e that in \<open>simp_all add: others_hold_def\<close>)
  qed (use e in \<open>simp_all add: others_hold_def\<close>)
  then have "\<not> hold_overlaps s clk e now (now + d)"
    by (rule staff_freeD(2) [OF free])
  moreover have "clk \<le> hold_end s clk e"
    unfolding hold_end_def by (rule projected_end_ge(1))
  ultimately show False
    using assms(8-) by (simp add: hold_overlaps_def intervalsOverlap_def)
qed

end
