(* ===== verification/Availability.thy ===== *)
theory Availability
  imports Demo Timezone Reservation
begin

text \<open>
  Salon, service and staff validation, opening hours, slot capacity and the slot grid
  (\<^verbatim>\<open>apps/backend/src/bookings/availability.service.ts\<close>).
\<close>

definition SLOT_GRANULARITY_MINUTES :: int where "SLOT_GRANULARITY_MINUTES = 15"
definition MAX_BOOKING_DAYS_AHEAD :: int where "MAX_BOOKING_DAYS_AHEAD = 30"
definition MAX_SERVICES_PER_BOOKING :: nat where "MAX_SERVICES_PER_BOOKING = 10"

section \<open>Salon and services\<close>

definition getSalonOrThrow :: "db \<Rightarrow> id \<Rightarrow> app_error + salon" where
  "getSalonOrThrow s salonId =
     theE (find_salon s salonId) SALON_NOT_FOUND (\<lambda>salon.
       guardE (sa_status salon = SALON_ACTIVE \<and> \<not> sa_isClosedForToday salon) SALON_NOT_FOUND (Inr salon))"

definition getSalonTimeZone :: "zone_db \<Rightarrow> db \<Rightarrow> id \<Rightarrow> string option" where
  "getSalonTimeZone tz s salonId = (case find_salon s salonId of None \<Rightarrow> None
     | Some salon \<Rightarrow> resolveSalonTimeZone tz (sa_timezone salon) (sa_countryCode salon))"

definition resolveTimeZoneOrThrow :: "zone_db \<Rightarrow> db \<Rightarrow> id \<Rightarrow> app_error + string" where
  "resolveTimeZoneOrThrow tz s salonId =
     theE (getSalonTimeZone tz s salonId) SALON_TIMEZONE_REQUIRED (\<lambda>zone. Inr zone)"

definition getServiceOrThrow :: "db \<Rightarrow> id \<Rightarrow> id \<Rightarrow> app_error + service" where
  "getServiceOrThrow s salonId serviceId =
     theE (find (\<lambda>sv. sv_id sv = serviceId \<and> sv_salon sv = salonId \<and> sv_isActive sv) (db_services s))
       SERVICE_NOT_FOUND (\<lambda>sv. Inr sv)"

definition getServicesOrThrow :: "db \<Rightarrow> id \<Rightarrow> id list \<Rightarrow> app_error + service list" where
  "getServicesOrThrow s salonId serviceIds =
     guardE (serviceIds \<noteq> [] \<and> length serviceIds \<le> MAX_SERVICES_PER_BOOKING) SERVICE_NOT_FOUND
      (guardE (distinct serviceIds) DUPLICATE_SERVICE_SELECTION
        (let services = filter (\<lambda>sv. sv_id sv \<in> set serviceIds \<and> sv_salon sv = salonId \<and> sv_isActive sv)
                          (db_services s)
         in guardE (length services = length serviceIds) SERVICE_NOT_FOUND
              (Inr (map (\<lambda>i. the (find (\<lambda>sv. sv_id sv = i) services)) serviceIds))))"

section \<open>Qualified staff and capacity\<close>

definition restrictedServiceIds :: "db \<Rightarrow> id list \<Rightarrow> id list" where
  "restrictedServiceIds s serviceIds =
     filter (\<lambda>i. count_where (\<lambda>(_, sv). sv = i) (db_staffServices s) > 0) serviceIds"

definition qualifiedStaffWhereForServices :: "db \<Rightarrow> id \<Rightarrow> id list \<Rightarrow> staff \<Rightarrow> bool" where
  "qualifiedStaffWhereForServices s salonId serviceIds st \<longleftrightarrow>
     st_salon st = salonId \<and> st_status st = STAFF_ACTIVE \<and>
     list_all (\<lambda>i. (st_id st, i) \<in> set (db_staffServices s)) (restrictedServiceIds s serviceIds)"

definition qualifiedStaffWhere :: "db \<Rightarrow> id \<Rightarrow> id \<Rightarrow> staff \<Rightarrow> bool" where
  "qualifiedStaffWhere s salonId serviceId = qualifiedStaffWhereForServices s salonId [serviceId]"

definition assertStaffQualifiedForServices :: "db \<Rightarrow> id \<Rightarrow> id list \<Rightarrow> id \<Rightarrow> app_error + unit" where
  "assertStaffQualifiedForServices s salonId serviceIds staffId =
     (if exists_where (\<lambda>st. qualifiedStaffWhereForServices s salonId serviceIds st \<and> st_id st = staffId) (db_staff s)
      then Inr ()
      else guardE (exists_where (\<lambda>st. st_id st = staffId \<and> st_salon st = salonId) (db_staff s)) STAFF_NOT_FOUND
             (Inl STAFF_NOT_QUALIFIED))"

definition assertStaffQualified :: "db \<Rightarrow> id \<Rightarrow> id \<Rightarrow> id \<Rightarrow> app_error + unit" where
  "assertStaffQualified s salonId serviceId staffId =
     assertStaffQualifiedForServices s salonId [serviceId] staffId"

definition listQualifiedStaffForServices :: "db \<Rightarrow> id \<Rightarrow> id list \<Rightarrow> app_error + id list" where
  "listQualifiedStaffForServices s salonId serviceIds =
     bindE (getServicesOrThrow s salonId serviceIds) (\<lambda>_.
       Inr (map st_id (filter (qualifiedStaffWhereForServices s salonId serviceIds) (db_staff s))))"

definition getSlotCapacityForServices :: "db \<Rightarrow> id \<Rightarrow> id list \<Rightarrow> nat" where
  "getSlotCapacityForServices s salonId serviceIds =
     computeSlotCapacity (count_where (qualifiedStaffWhereForServices s salonId serviceIds) (db_staff s))
       (count_where (\<lambda>c. ch_salon c = salonId \<and> ch_status c = CHAIR_ACTIVE) (db_chairs s))"

definition getSlotCapacity :: "db \<Rightarrow> id \<Rightarrow> id \<Rightarrow> nat" where
  "getSlotCapacity s salonId serviceId = getSlotCapacityForServices s salonId [serviceId]"

section \<open>Opening and working hours\<close>

definition find_hours :: "hours list \<Rightarrow> id \<Rightarrow> int \<Rightarrow> hours option" where
  "find_hours hs owner day = find (\<lambda>h. h_owner h = owner \<and> h_day h = day) hs"

definition within_window :: "ms option \<Rightarrow> ms option \<Rightarrow> ms \<Rightarrow> ms \<Rightarrow> bool" where
  "within_window openAt closeAt slotStart slotEnd =
     (case (openAt, closeAt) of (Some op, Some cl) \<Rightarrow> \<not> (slotStart < op \<or> slotEnd > cl) | _ \<Rightarrow> False)"

definition assertWithinOperatingHours :: "zone_db \<Rightarrow> db \<Rightarrow> id \<Rightarrow> ms \<Rightarrow> ms \<Rightarrow> app_error + unit" where
  "assertWithinOperatingHours tz s salonId slotStart slotEnd =
     bindE (resolveTimeZoneOrThrow tz s salonId) (\<lambda>zone.
       theE (utcToZonedDateStr tz slotStart zone) SALON_TIMEZONE_REQUIRED (\<lambda>dateStr.
         let hours = find_hours (db_hours s) salonId (zonedDateToDayOfWeek dateStr);
             openAt = (case hours of Some h \<Rightarrow> if \<not> h_isClosed h then zonedWallTimeToUtc tz dateStr (h_open h) zone
                                               else None | None \<Rightarrow> None);
             closeAt = (case hours of Some h \<Rightarrow> if \<not> h_isClosed h then zonedWallTimeToUtc tz dateStr (h_close h) zone
                                               else None | None \<Rightarrow> None)
         in guardE (within_window openAt closeAt slotStart slotEnd) OUTSIDE_OPERATING_HOURS (Inr ())))"

definition assertStaffWithinWorkingHours :: "zone_db \<Rightarrow> db \<Rightarrow> id \<Rightarrow> id \<Rightarrow> ms \<Rightarrow> ms \<Rightarrow> app_error + unit" where
  "assertStaffWithinWorkingHours tz s salonId staffId slotStart slotEnd =
     bindE (resolveTimeZoneOrThrow tz s salonId) (\<lambda>zone.
       theE (utcToZonedDateStr tz slotStart zone) SALON_TIMEZONE_REQUIRED (\<lambda>dateStr.
         case find_hours (db_staffHours s) staffId (zonedDateToDayOfWeek dateStr) of
           None \<Rightarrow> Inr ()
         | Some h \<Rightarrow>
             guardE (within_window
                 (if \<not> h_isClosed h then zonedWallTimeToUtc tz dateStr (h_open h) zone else None)
                 (if \<not> h_isClosed h then zonedWallTimeToUtc tz dateStr (h_close h) zone else None)
                 slotStart slotEnd) OUTSIDE_OPERATING_HOURS (Inr ())))"

section \<open>The slot grid\<close>

record slot =
  sl_start :: ms
  sl_end :: ms
  sl_available :: bool

record projected =
  pj_staff :: id
  pj_isWalkIn :: bool
  pj_start :: ms
  pj_end :: ms

function slot_starts :: "ms \<Rightarrow> ms \<Rightarrow> ms \<Rightarrow> ms list" where
  "slot_starts slotStart durationMs closeAt =
     (if slotStart + durationMs \<le> closeAt
      then slotStart # slot_starts (slotStart + minutes SLOT_GRANULARITY_MINUTES) durationMs closeAt
      else [])"
  by pat_completeness auto
termination
  by (relation "measure (\<lambda>(st, d, cl). nat (cl - d - st + 1))")
    (auto simp: minutes_def SLOT_GRANULARITY_MINUTES_def)

declare slot_starts.simps [simp del]

definition projectedSessions :: "ms \<Rightarrow> db \<Rightarrow> id \<Rightarrow> projected list" where
  "projectedSessions now s salonId =
     map (\<lambda>x. \<lparr>pj_staff = ss_staff x, pj_isWalkIn = session_is_walk_in s x, pj_start = ss_startedAt x,
               pj_end = projectedActiveSessionEnd (ss_startedAt x) (session_duration s x) now\<rparr>)
       (filter (\<lambda>x. ss_status x = S_ACTIVE \<and> session_in_salon s salonId x) (db_sessions s))
     @ map (\<lambda>e. \<lparr>pj_staff = the (qe_staff e), pj_isWalkIn = (qe_booking e = None), pj_start = hold_from now e,
               pj_end = projectedActiveSessionEnd (hold_from now e) (nvl (entry_service_duration s e) 30) now\<rparr>)
       (filter (\<lambda>e. qe_salon e = salonId \<and> qe_status e = Q_CALLED \<and> qe_staff e \<noteq> None) (db_entries s))"

definition mk_slot :: "booking list \<Rightarrow> projected list \<Rightarrow> nat \<Rightarrow> id option \<Rightarrow> ms \<Rightarrow> ms \<Rightarrow> slot" where
  "mk_slot overlapCandidates projected slotCapacity staffId slotStart slotEnd =
     (let overlappingBookings = filter (\<lambda>b. bk_slotStart b < slotEnd \<and> bk_slotEnd b > slotStart) overlapCandidates;
          overlappingWalkInSessions = filter (\<lambda>p. pj_isWalkIn p \<and> intervalsOverlap (pj_start p) (pj_end p) slotStart slotEnd)
                                        projected;
          staffTaken = (case staffId of None \<Rightarrow> False
            | Some st \<Rightarrow> list_ex (\<lambda>b. bk_preferredStaff b = Some st) overlappingBookings \<or>
                list_ex (\<lambda>p. pj_staff p = st \<and> intervalsOverlap (pj_start p) (pj_end p) slotStart slotEnd) projected);
          consumed = length overlappingBookings + length overlappingWalkInSessions
      in \<lparr>sl_start = slotStart, sl_end = slotEnd,
          sl_available = (isSlotBookable slotCapacity consumed \<and> \<not> staffTaken)\<rparr>)"

definition grid_window :: "zone_db \<Rightarrow> db \<Rightarrow> id \<Rightarrow> date_str \<Rightarrow> string \<Rightarrow> id option \<Rightarrow> (ms \<times> ms) option" where
  "grid_window tz s salonId date zone staffId =
     (let dayOfWeek = zonedDateToDayOfWeek date in
      case find_hours (db_hours s) salonId dayOfWeek of None \<Rightarrow> None
      | Some h \<Rightarrow>
        if h_isClosed h then None
        else case (zonedWallTimeToUtc tz date (h_open h) zone, zonedWallTimeToUtc tz date (h_close h) zone) of
          (Some openAt, Some closeAt) \<Rightarrow>
            (case (case staffId of None \<Rightarrow> None | Some st \<Rightarrow> find_hours (db_staffHours s) st dayOfWeek) of
               None \<Rightarrow> Some (openAt, closeAt)
             | Some sh \<Rightarrow>
                 if h_isClosed sh then None
                 else case (zonedWallTimeToUtc tz date (h_open sh) zone, zonedWallTimeToUtc tz date (h_close sh) zone) of
                   (Some so, Some sc) \<Rightarrow>
                     let openAt' = (if openAt > so then openAt else so);
                         closeAt' = (if closeAt < sc then closeAt else sc)
                     in if openAt' \<ge> closeAt' then None else Some (openAt', closeAt')
                 | _ \<Rightarrow> None)
        | _ \<Rightarrow> None)"

definition grid_slots :: "ms \<Rightarrow> db \<Rightarrow> id \<Rightarrow> id list \<Rightarrow> ms \<Rightarrow> id option \<Rightarrow> ms \<Rightarrow> ms \<Rightarrow> slot list" where
  "grid_slots now s salonId serviceIds durationMs staffId openAt closeAt =
     (let slotCapacity = getSlotCapacityForServices s salonId serviceIds;
          overlapCandidates = filter (\<lambda>b. bk_salon b = salonId \<and> reserving b \<and> bk_slotStart b < closeAt
                                      \<and> bk_slotEnd b > openAt) (db_bookings s);
          projected = projectedSessions now s salonId
      in map (\<lambda>st. mk_slot overlapCandidates projected slotCapacity staffId st (st + durationMs))
           (filter (\<lambda>st. \<not> st \<le> now) (slot_starts openAt durationMs closeAt)))"

definition total_duration :: "service list \<Rightarrow> int" where
  "total_duration services = sum_list (map sv_duration services)"

definition getAvailability ::
    "zone_db \<Rightarrow> ms \<Rightarrow> db \<Rightarrow> id \<Rightarrow> id list \<Rightarrow> date_str \<Rightarrow> id option \<Rightarrow> app_error + slot list" where
  "getAvailability tz now s salonId serviceIds date staffId =
     bindE (getSalonOrThrow s salonId) (\<lambda>_.
     bindE (getServicesOrThrow s salonId serviceIds) (\<lambda>services.
     bindE (case staffId of None \<Rightarrow> Inr () | Some st \<Rightarrow> assertStaffQualifiedForServices s salonId serviceIds st) (\<lambda>_.
     bindE (resolveTimeZoneOrThrow tz s salonId) (\<lambda>zone.
       let maxAdvance = now + MAX_BOOKING_DAYS_AHEAD * 24 * 60 * 60000 in
       case zonedWallTimeToUtc tz date ''00:00'' zone of None \<Rightarrow> Inr []
       | Some dayStart \<Rightarrow>
          if dayStart > maxAdvance then Inr []
          else case grid_window tz s salonId date zone staffId of
             None \<Rightarrow> Inr []
           | Some (openAt, closeAt) \<Rightarrow>
               Inr (grid_slots now s salonId serviceIds (minutes (total_duration services)) staffId openAt closeAt)))))"

section \<open>Lemmas: the grid and the write-time checks are one rule\<close>

lemma slot_starts_in:
  "t \<in> set (slot_starts op d cl) \<Longrightarrow> op \<le> t \<and> t + d \<le> cl \<and> (t - op) mod minutes 15 = 0"
proof (induction op d cl rule: slot_starts.induct)
  case (1 op d cl)
  show ?case
  proof (cases "op + d \<le> cl")
    case False
    then show ?thesis using "1.prems" by (simp add: slot_starts.simps [of op])
  next
    case True
    with "1.prems" have "t = op \<or> t \<in> set (slot_starts (op + minutes SLOT_GRANULARITY_MINUTES) d cl)"
      by (simp add: slot_starts.simps [of op d cl])
    then show ?thesis
    proof
      assume "t = op" then show ?thesis using True by simp
    next
      assume "t \<in> set (slot_starts (op + minutes SLOT_GRANULARITY_MINUTES) d cl)"
      from "1.IH" [OF True this] have
        le: "op + 900000 \<le> t" "t + d \<le> cl" and "(t - (op + 900000)) mod 900000 = 0"
        by (simp_all add: minutes_def SLOT_GRANULARITY_MINUTES_def)
      moreover have "t - op = (t - (op + 900000)) + 900000" by simp
      ultimately have "(t - op) mod 900000 = 0"
        by (simp only: mod_add_self2)
      then show ?thesis
        using le by (simp add: minutes_def)
    qed
  qed
qed

lemma servicesD:
  assumes "getServicesOrThrow s sal ids = Inr svs"
  shows "distinct ids" "ids \<noteq> []" "length ids \<le> 10" "length svs = length ids"
  using assms
  by (auto simp: getServicesOrThrow_def Let_def guardE_def MAX_SERVICES_PER_BOOKING_def split: if_splits)

text \<open>Every service a request resolves to is an active service of that salon, in the order asked
  for.\<close>

lemma services_resolved:
  assumes ok: "getServicesOrThrow s sal ids = Inr svs" and uniq: "distinct (map sv_id (db_services s))"
  shows "map sv_id svs = ids \<and> (\<forall>sv\<in>set svs. sv \<in> set (db_services s) \<and> sv_salon sv = sal \<and> sv_isActive sv)"
proof -
  define found where "found = filter (\<lambda>sv. sv_id sv \<in> set ids \<and> sv_salon sv = sal \<and> sv_isActive sv) (db_services s)"
  have d: "distinct ids" and len: "length found = length ids"
    and svs: "svs = map (\<lambda>i. the (find (\<lambda>sv. sv_id sv = i) found)) ids"
    using ok by (auto simp: getServicesOrThrow_def Let_def guardE_def found_def split: if_splits)
  have df: "distinct (map sv_id found)"
    unfolding found_def using uniq by (rule distinct_map_filter)
  have "set (map sv_id found) \<subseteq> set ids"
    by (auto simp: found_def)
  moreover have "card (set (map sv_id found)) = card (set ids)"
    by (simp only: distinct_card [OF df] distinct_card [OF d] length_map len)
  ultimately have all: "set (map sv_id found) = set ids"
    by (intro card_subset_eq) simp_all
  have one: "\<exists>sv. find (\<lambda>sv. sv_id sv = i) found = Some sv \<and> sv \<in> set found \<and> sv_id sv = i" if "i \<in> set ids" for i
  proof (cases "find (\<lambda>sv. sv_id sv = i) found")
    case None
    then have "i \<notin> set (map sv_id found)" by (auto simp: find_None_iff)
    then show ?thesis using all that by simp
  next
    case (Some sv)
    then show ?thesis using find_SomeD [OF Some] by simp
  qed
  have "map sv_id svs = ids"
    unfolding svs map_map
  proof (rule map_idI)
    fix i assume "i \<in> set ids"
    from one [OF this] show "(sv_id \<circ> (\<lambda>i. the (find (\<lambda>sv. sv_id sv = i) found))) i = i" by force
  qed
  moreover have "sv \<in> set found" if "sv \<in> set svs" for sv
    using that one unfolding svs by fastforce
  ultimately show ?thesis
    by (auto simp: found_def)
qed

section \<open>The grid shows what booking will accept\<close>

lemma filter_window_eq:
  assumes "op \<le> st" "en \<le> cl"
  shows "filter (\<lambda>b. bk_slotStart b < en \<and> bk_slotEnd b > st)
           (filter (\<lambda>b. bk_salon b = sal \<and> reserving b \<and> bk_slotStart b < cl \<and> bk_slotEnd b > op) bs)
         = filter (booking_conflicts sal st en None) bs"
  unfolding filter_filter
  by (rule filter_cong [OF refl]) (use assms in \<open>auto simp: booking_conflicts_def\<close>)

lemma projected_walk_ins:
  "length (filter (\<lambda>p. pj_isWalkIn p \<and> intervalsOverlap (pj_start p) (pj_end p) st en) (projectedSessions now s sal))
   = count_where (\<lambda>x. session_overlaps s now x st en)
       (filter (\<lambda>x. ss_status x = S_ACTIVE \<and> session_in_salon s sal x \<and> session_is_walk_in s x) (db_sessions s))
   + count_where (\<lambda>e. hold_overlaps s now e st en)
       (filter (\<lambda>e. qe_salon e = sal \<and> qe_status e = Q_CALLED \<and> qe_staff e \<noteq> None \<and> qe_booking e = None) (db_entries s))"
proof -
  have "length (filter (\<lambda>p. pj_isWalkIn p \<and> intervalsOverlap (pj_start p) (pj_end p) st en)
      (map (\<lambda>x. \<lparr>pj_staff = ss_staff x, pj_isWalkIn = session_is_walk_in s x, pj_start = ss_startedAt x,
               pj_end = projectedActiveSessionEnd (ss_startedAt x) (session_duration s x) now\<rparr>)
       (filter (\<lambda>x. ss_status x = S_ACTIVE \<and> session_in_salon s sal x) xs)))
    = count_where (\<lambda>x. session_overlaps s now x st en)
       (filter (\<lambda>x. ss_status x = S_ACTIVE \<and> session_in_salon s sal x \<and> session_is_walk_in s x) xs)" for xs
    by (induction xs) (simp_all add: session_overlaps_def)
  moreover have "length (filter (\<lambda>p. pj_isWalkIn p \<and> intervalsOverlap (pj_start p) (pj_end p) st en)
      (map (\<lambda>e. \<lparr>pj_staff = the (qe_staff e), pj_isWalkIn = (qe_booking e = None), pj_start = hold_from now e,
               pj_end = projectedActiveSessionEnd (hold_from now e) (nvl (entry_service_duration s e) 30) now\<rparr>)
       (filter (\<lambda>e. qe_salon e = sal \<and> qe_status e = Q_CALLED \<and> qe_staff e \<noteq> None) es)))
    = count_where (\<lambda>e. hold_overlaps s now e st en)
       (filter (\<lambda>e. qe_salon e = sal \<and> qe_status e = Q_CALLED \<and> qe_staff e \<noteq> None \<and> qe_booking e = None) es)" for es
    by (induction es) (simp_all add: hold_overlaps_def hold_end_def ASSIGNED_HOLD_FALLBACK_MINUTES_def)
  ultimately show ?thesis
    by (simp add: projectedSessions_def)
qed

text \<open>The invariants of the queue that the grid's per-barber test relies on: at most one running
  service and one held customer per barber, and a barber's sessions run in their own salon.\<close>

definition staff_exclusive :: "db \<Rightarrow> id \<Rightarrow> id \<Rightarrow> bool" where
  "staff_exclusive s sal st \<longleftrightarrow>
     uniq_on ss_staff (\<lambda>x. ss_status x = S_ACTIVE) (db_sessions s) \<and>
     uniq_on qe_staff (\<lambda>e. qe_status e = Q_CALLED \<and> qe_staff e \<noteq> None) (db_entries s) \<and>
     list_all (\<lambda>x. ss_staff x = st \<and> ss_status x = S_ACTIVE \<longrightarrow> session_in_salon s sal x) (db_sessions s)"

lemma find_overlap_iff:
  assumes "\<And>x y. x \<in> set xs \<Longrightarrow> y \<in> set xs \<Longrightarrow> p x \<Longrightarrow> p y \<Longrightarrow> x = y"
  shows "(case find p xs of None \<Rightarrow> True | Some x \<Rightarrow> \<not> q x) \<longleftrightarrow> (\<forall>x\<in>set xs. p x \<longrightarrow> \<not> q x)"
proof (cases "find p xs")
  case None
  then have "\<not> (\<exists>y. y \<in> set xs \<and> p y)" unfolding find_None_iff .
  with None show ?thesis by auto
next
  case (Some x)
  note x = find_SomeD [OF Some]
  have "y = x" if "y \<in> set xs" "p y" for y
    using assms x that by blast
  then have "(\<forall>y\<in>set xs. p y \<longrightarrow> \<not> q y) \<longleftrightarrow> \<not> q x" using x by blast
  with Some show ?thesis by (simp only: option.case)
qed

lemma list_ex_map_filter: "list_ex P (map f (filter Q xs)) \<longleftrightarrow> (\<exists>x\<in>set xs. Q x \<and> P (f x))"
  by (induction xs) auto

lemma staff_taken_iff:
  assumes "staff_exclusive s sal st"
  shows "(list_ex (\<lambda>b. bk_preferredStaff b = Some st) (filter (booking_conflicts sal a b None) (db_bookings s)) \<or>
      list_ex (\<lambda>p. pj_staff p = st \<and> intervalsOverlap (pj_start p) (pj_end p) a b) (projectedSessions now s sal))
    \<longleftrightarrow> \<not> sc_free (isStaffFreeForInterval now s sal st a b None None)"
proof -
  have 1: "(case find (others_session st None) (db_sessions s) of None \<Rightarrow> True | Some x \<Rightarrow> \<not> session_overlaps s now x a b)
      \<longleftrightarrow> (\<forall>x\<in>set (db_sessions s). others_session st None x \<longrightarrow> \<not> session_overlaps s now x a b)"
  proof (rule find_overlap_iff)
    fix x y assume "x \<in> set (db_sessions s)" "y \<in> set (db_sessions s)" "others_session st None x" "others_session st None y"
    moreover have "uniq_on ss_staff (\<lambda>x. ss_status x = S_ACTIVE) (db_sessions s)"
      using assms by (simp add: staff_exclusive_def)
    ultimately show "x = y"
      by (intro uniq_onD [of ss_staff "\<lambda>x. ss_status x = S_ACTIVE"]) (simp_all add: others_session_def)
  qed
  have 2: "(case find (others_hold sal st None) (db_entries s) of None \<Rightarrow> True | Some e \<Rightarrow> \<not> hold_overlaps s now e a b)
      \<longleftrightarrow> (\<forall>e\<in>set (db_entries s). others_hold sal st None e \<longrightarrow> \<not> hold_overlaps s now e a b)"
  proof (rule find_overlap_iff)
    fix x y assume "x \<in> set (db_entries s)" "y \<in> set (db_entries s)" "others_hold sal st None x" "others_hold sal st None y"
    moreover have "uniq_on qe_staff (\<lambda>e. qe_status e = Q_CALLED \<and> qe_staff e \<noteq> None) (db_entries s)"
      using assms by (simp add: staff_exclusive_def)
    ultimately show "x = y"
      by (intro uniq_onD [of qe_staff "\<lambda>e. qe_status e = Q_CALLED \<and> qe_staff e \<noteq> None"])
        (simp_all add: others_hold_def)
  qed
  have 3: "list_ex (\<lambda>p. pj_staff p = st \<and> intervalsOverlap (pj_start p) (pj_end p) a b) (projectedSessions now s sal)
      \<longleftrightarrow> (\<exists>x\<in>set (db_sessions s). others_session st None x \<and> session_overlaps s now x a b)
        \<or> (\<exists>e\<in>set (db_entries s). others_hold sal st None e \<and> hold_overlaps s now e a b)"
  proof -
    have "(ss_status x = S_ACTIVE \<and> session_in_salon s sal x) \<and> ss_staff x = st
        \<longleftrightarrow> others_session st None x" if "x \<in> set (db_sessions s)" for x
      using assms that by (auto simp: staff_exclusive_def list_all_iff others_session_def)
    then have "(\<exists>x\<in>set (db_sessions s). (ss_status x = S_ACTIVE \<and> session_in_salon s sal x) \<and> ss_staff x = st
          \<and> session_overlaps s now x a b)
        \<longleftrightarrow> (\<exists>x\<in>set (db_sessions s). others_session st None x \<and> session_overlaps s now x a b)"
      by meson
    moreover have "(qe_salon e = sal \<and> qe_status e = Q_CALLED \<and> qe_staff e \<noteq> None) \<and> the (qe_staff e) = st
        \<longleftrightarrow> others_hold sal st None e" for e
      by (auto simp: others_hold_def)
    then have "(\<exists>e\<in>set (db_entries s). (qe_salon e = sal \<and> qe_status e = Q_CALLED \<and> qe_staff e \<noteq> None)
          \<and> the (qe_staff e) = st \<and> hold_overlaps s now e a b)
        \<longleftrightarrow> (\<exists>e\<in>set (db_entries s). others_hold sal st None e \<and> hold_overlaps s now e a b)"
      by meson
    ultimately show ?thesis
      unfolding projectedSessions_def list_ex_append list_ex_map_filter
      by (simp add: session_overlaps_def hold_overlaps_def hold_end_def ASSIGNED_HOLD_FALLBACK_MINUTES_def)
  qed
  show ?thesis
    unfolding sc_free_iff 1 2 3 by (auto simp: list_ex_iff filter_empty_conv)
qed

text \<open>C9: a slot of the grid is shown as available exactly when the checks that booking creation
  runs inside its transaction would accept it at that moment: pool capacity not exhausted by
  bookings, walk-in services and assigned walk-ins, and the requested barber free.\<close>

theorem grid_agrees_with_booking:
  assumes slot: "sl \<in> set (grid_slots now s sal ids d staffId openAt closeAt)"
    and ex: "\<forall>st. staffId = Some st \<longrightarrow> staff_exclusive s sal st"
  shows "now < sl_start sl \<and> sl_end sl = sl_start sl + d \<and> openAt \<le> sl_start sl \<and> sl_end sl \<le> closeAt \<and>
    (sl_available sl \<longleftrightarrow>
       isSlotBookable (getSlotCapacityForServices s sal ids)
         (countPoolReservations now s sal (sl_start sl) (sl_end sl) None)
       \<and> (case staffId of None \<Rightarrow> True
          | Some st \<Rightarrow> sc_free (isStaffFreeForInterval now s sal st (sl_start sl) (sl_end sl) None None)))"
proof -
  from slot obtain a where a: "a \<in> set (slot_starts openAt d closeAt)" "\<not> a \<le> now"
    and sl: "sl = mk_slot (filter (\<lambda>b. bk_salon b = sal \<and> reserving b \<and> bk_slotStart b < closeAt
                 \<and> bk_slotEnd b > openAt) (db_bookings s)) (projectedSessions now s sal)
                 (getSlotCapacityForServices s sal ids) staffId a (a + d)"
    unfolding grid_slots_def Let_def by auto
  from slot_starts_in [OF a(1)] have w: "openAt \<le> a" "a + d \<le> closeAt" by auto
  have "sl_start sl = a" "sl_end sl = a + d"
    unfolding sl mk_slot_def Let_def by simp_all
  moreover have "sl_available sl \<longleftrightarrow>
       isSlotBookable (getSlotCapacityForServices s sal ids) (countPoolReservations now s sal a (a + d) None)
       \<and> (case staffId of None \<Rightarrow> True
          | Some st \<Rightarrow> sc_free (isStaffFreeForInterval now s sal st a (a + d) None None))"
  proof (cases staffId)
    case None
    then show ?thesis
      unfolding sl mk_slot_def Let_def filter_window_eq [OF w] projected_walk_ins countPoolReservations_def
      by (simp add: count_where_def add.assoc)
  next
    case (Some st)
    then have "staff_exclusive s sal st" using ex by simp
    from staff_taken_iff [OF this, of a "a + d" now] Some show ?thesis
      unfolding sl mk_slot_def Let_def filter_window_eq [OF w] projected_walk_ins countPoolReservations_def
      by (simp add: count_where_def add.assoc)
  qed
  ultimately show ?thesis using w a(2) by (simp split: option.split)
qed

text \<open>Three slots of half an hour between 09:00 and 10:00 (one starts every quarter of an hour); the barber
  has a booking until 09:30, so only the last one is free.\<close>

lemma grid_agrees_with_booking_witness:
  "\<exists>sl::slot. sl_start sl = minutes 30 \<and> sl_available sl \<and>
     sc_free (isStaffFreeForInterval (-1) (demo_db\<lparr>db_bookings := [demo_booking 9 (Some 3) 0 (minutes 30) B_CONFIRMED]\<rparr>)
       1 3 (sl_start sl) (sl_end sl) None None)"
proof -
  let ?s = "demo_db\<lparr>db_bookings := [demo_booking 9 (Some 3) 0 (minutes 30) B_CONFIRMED]\<rparr>"
  let ?sl = "\<lparr>sl_start = minutes 30, sl_end = minutes 60, sl_available = True\<rparr>"
  have "slot_starts 0 (minutes 30) (minutes 60) = [0, minutes 15, minutes 30]"
    by (simp add: slot_starts.simps [of _ 1800000 3600000] minutes_def SLOT_GRANULARITY_MINUTES_def)
  then have slot: "?sl \<in> set (grid_slots (-1) ?s 1 [2] (minutes 30) (Some 3) 0 (minutes 60))"
    by (simp add: grid_slots_def mk_slot_def projectedSessions_def minutes_def isSlotBookable_def
        getSlotCapacityForServices_def qualifiedStaffWhereForServices_def restrictedServiceIds_def computeSlotCapacity_def reserving_def RESERVING_BOOKING_STATUSES_def
        demo_defs)
  have ex: "\<forall>st. Some 3 = Some st \<longrightarrow> staff_exclusive ?s 1 st"
    by (simp add: staff_exclusive_def demo_defs uniq_on_def)
  from grid_agrees_with_booking [OF slot ex] show ?thesis
    by (intro exI [of _ ?sl]) (simp add: minutes_def)
qed

end
