(* ===== verification/Offers.thy ===== *)
theory Offers
  imports Access Availability "HOL-Library.Multiset"
begin

text \<open>
  Campaigns of a shop (\<^verbatim>\<open>apps/backend/src/offers/offers.service.ts\<close>, validation in
  \<^verbatim>\<open>packages/shared/src/offers.ts\<close>): drafting, publishing and pausing, the price lines, and
  the two validations of a booking with an offer (before and inside the booking's transaction).
  The order in which the database lists services (by name under its collation, then id) is the
  parameter \<open>ord\<close>; a booking's \<open>updatedAt\<close>, kept by the database client, is the parameter \<open>upd\<close>.
\<close>

section \<open>Validation of the owner's input\<close>

record offer_input =
  oi_kind :: offer_kind
  oi_title :: string
  oi_description :: "string option"
  oi_discountType :: offer_discount_type
  oi_discountValue :: rat
  oi_audience :: offer_audience
  oi_inactiveDays :: "int option"
  oi_validFrom :: ms
  oi_validTo :: ms
  oi_maxRedemptions :: "int option"
  oi_perCustomerLimit :: int
  oi_serviceIds :: "id list"

definition is_whole :: "rat \<Rightarrow> bool" where
  "is_whole x \<longleftrightarrow> of_int \<lfloor>x\<rfloor> = x"

definition validateOffer :: "offer_input \<Rightarrow> bool" where
  "validateOffer v \<longleftrightarrow> \<not> oi_validTo v \<le> oi_validFrom v
     \<and> \<not> (oi_discountType v = OD_PERCENT \<and> (oi_discountValue v > 100 \<or> \<not> is_whole (oi_discountValue v)))
     \<and> \<not> (oi_audience v = AUD_INACTIVE \<and> oi_inactiveDays v = None)
     \<and> \<not> (oi_audience v \<noteq> AUD_INACTIVE \<and> oi_inactiveDays v \<noteq> None)"

definition offerBaseSchema :: "offer_input \<Rightarrow> bool" where
  "offerBaseSchema v \<longleftrightarrow> 2 \<le> length (oi_title v) \<and> length (oi_title v) \<le> 120
     \<and> (case oi_description v of None \<Rightarrow> True | Some d \<Rightarrow> length d \<le> 500)
     \<and> 0 < oi_discountValue v \<and> oi_discountValue v \<le> 9999999999 / 100 \<and> is_whole (oi_discountValue v * 100)
     \<and> (case oi_inactiveDays v of None \<Rightarrow> True | Some d \<Rightarrow> 1 \<le> d \<and> d \<le> 365)
     \<and> (case oi_maxRedemptions v of None \<Rightarrow> True | Some m \<Rightarrow> 0 < m \<and> m \<le> 1000000)
     \<and> 0 < oi_perCustomerLimit v \<and> oi_perCustomerLimit v \<le> 100
     \<and> length (oi_serviceIds v) \<le> 100 \<and> distinct (oi_serviceIds v)"

definition createOfferSchema :: "offer_input \<Rightarrow> app_error + offer_input" where
  "createOfferSchema input =
     (let v = input\<lparr>oi_title := js_trim (oi_title input), oi_description := map_option js_trim (oi_description input)\<rparr>
      in guardE (offerBaseSchema v \<and> validateOffer v) OFFER_INVALID (Inr v))"

section \<open>Lookups and price lines\<close>

definition getOffer :: "db \<Rightarrow> id \<Rightarrow> id \<Rightarrow> offer option" where
  "getOffer s salonId offerId = find (\<lambda>off. of_id off = offerId \<and> of_salon off = salonId) (db_offers s)"

definition loadServices :: "(service list \<Rightarrow> service list) \<Rightarrow> db \<Rightarrow> id \<Rightarrow> id list \<Rightarrow> service list" where
  "loadServices ord s salonId ids =
     ord (filter (\<lambda>sv. sv_salon sv = salonId \<and> sv_isActive sv \<and> (ids = [] \<or> sv_id sv \<in> set ids)) (db_services s))"

definition assertFoundServiceIds :: "'a list \<Rightarrow> id list \<Rightarrow> app_error + unit" where
  "assertFoundServiceIds found ids = guardE (length found = length ids) OFFER_SERVICE_MISMATCH (Inr ())"

definition assertServices :: "db \<Rightarrow> id \<Rightarrow> id list \<Rightarrow> app_error + unit" where
  "assertServices s salonId ids =
     (if ids = [] then Inr ()
      else assertFoundServiceIds
        (filter (\<lambda>sv. sv_salon sv = salonId \<and> sv_isActive sv \<and> sv_id sv \<in> set ids) (db_services s)) ids)"

text \<open>\<open>Number(offer.discountValue)\<close> as the whole percentage \<open>computePercentageDiscountPaise\<close> accepts.\<close>

definition percentDiscount :: "offer \<Rightarrow> paise \<Rightarrow> app_error + paise" where
  "percentDiscount off basePaise =
     (if of_discountValue off mod 100 \<noteq> 0 then Inl INVALID_MONEY
      else case computePercentageDiscountPaise basePaise (of_discountValue off div 100) of
        Inl _ \<Rightarrow> Inl INVALID_MONEY | Inr d \<Rightarrow> Inr d)"

definition offer_covers :: "offer \<Rightarrow> id \<Rightarrow> bool" where
  "offer_covers off serviceId \<longleftrightarrow> of_services off = [] \<or> serviceId \<in> set (of_services off)"

record offer_line =
  ol_service :: id
  ol_base :: paise
  ol_discount :: paise

fun lines_loop :: "offer \<Rightarrow> paise \<Rightarrow> service list \<Rightarrow> app_error + offer_line list" where
  "lines_loop off flatRemaining [] = Inr []"
| "lines_loop off flatRemaining (sv # svs) =
     (let basePaise = sv_price sv; covered = offer_covers off (sv_id sv) in
      bindE (if \<not> covered then Inr 0
             else if of_discountType off = OD_PERCENT then percentDiscount off basePaise
             else Inr (min basePaise flatRemaining)) (\<lambda>discountPaise.
      bindE (lines_loop off (if covered \<and> of_discountType off = OD_FLAT then flatRemaining - discountPaise
                           else flatRemaining) svs) (\<lambda>rest.
        Inr (\<lparr>ol_service = sv_id sv, ol_base = basePaise, ol_discount = discountPaise\<rparr> # rest))))"

definition calculateLines :: "offer \<Rightarrow> service list \<Rightarrow> app_error + offer_line list" where
  "calculateLines off services =
     lines_loop off (if of_discountType off = OD_FLAT then of_discountValue off else 0) services"

definition totalDiscount :: "offer \<Rightarrow> service list \<Rightarrow> app_error + paise" where
  "totalDiscount off services = bindE (calculateLines off services) (\<lambda>lines. Inr (sum_list (map ol_discount lines)))"

section \<open>Eligibility and validation for a booking\<close>

definition visits :: "(booking \<Rightarrow> ms) \<Rightarrow> db \<Rightarrow> id \<Rightarrow> id \<Rightarrow> ms list" where
  "visits upd s salonId customerId =
     map upd (filter (\<lambda>b. bk_salon b = salonId \<and> bk_customer b = Some customerId \<and> bk_status b = B_COMPLETED)
                (db_bookings s))
     @ map (\<lambda>e. the (qe_completedAt e))
         (filter (\<lambda>e. qe_salon e = salonId \<and> qe_customer e = Some customerId \<and> qe_booking e = None
                    \<and> qe_status e = Q_COMPLETED \<and> qe_completedAt e \<noteq> None) (db_entries s))"

definition isAudienceEligible ::
    "(booking \<Rightarrow> ms) \<Rightarrow> db \<Rightarrow> id \<Rightarrow> id \<Rightarrow> offer_audience \<Rightarrow> int option \<Rightarrow> ms \<Rightarrow> bool" where
  "isAudienceEligible upd s salonId customerId audience inactiveDays now =
     (let count = length (visits upd s salonId customerId) in
      case audience of
        AUD_ALL \<Rightarrow> True
      | AUD_NEW \<Rightarrow> count = 0
      | AUD_REPEAT \<Rightarrow> count \<ge> 1
      | AUD_INACTIVE \<Rightarrow> count > 0 \<and>
          foldr max (visits upd s salonId customerId) (hd (visits upd s salonId customerId))
            \<le> now - nvl inactiveDays 30 * 24 * 60 * 60 * 1000)"

record offer_application =
  ap_offer :: id
  ap_title :: string
  ap_currency :: string
  ap_percent :: rat
  ap_discount :: paise
  ap_updatedAt :: ms

definition redemption_count :: "db \<Rightarrow> id \<Rightarrow> id \<Rightarrow> nat" where
  "redemption_count s salonId offerId =
     count_where (\<lambda>r. rd_salon r = salonId \<and> rd_offer r = offerId) (db_redemptions s)"

definition customer_redemption_count :: "db \<Rightarrow> id \<Rightarrow> id \<Rightarrow> id \<Rightarrow> nat" where
  "customer_redemption_count s salonId offerId customerId =
     count_where (\<lambda>r. rd_salon r = salonId \<and> rd_offer r = offerId \<and> rd_customer r = customerId) (db_redemptions s)"

definition validateOfferForBooking ::
    "(booking \<Rightarrow> ms) \<Rightarrow> db \<Rightarrow> id \<Rightarrow> id \<Rightarrow> id \<Rightarrow> service list \<Rightarrow> booking_source \<Rightarrow> ms \<Rightarrow> bool
      \<Rightarrow> app_error + offer_application" where
  "validateOfferForBooking upd s salonId customerId offerId services source now checkLimits =
     guardE (source = SRC_APP \<or> source = SRC_WEB) OFFER_NOT_ELIGIBLE
      (theE (getOffer s salonId offerId) OFFER_NOT_FOUND (\<lambda>off.
       guardE (of_status off = O_ACTIVE) OFFER_NOT_ELIGIBLE
      (guardE (\<not> (now < of_validFrom off \<or> now \<ge> of_validTo off)) OFFER_EXPIRED_ERROR
      (guardE (filter (\<lambda>sv. offer_covers off (sv_id sv)) services \<noteq> []) OFFER_SERVICE_MISMATCH
      (guardE (isAudienceEligible upd s salonId customerId (of_audience off) (of_inactiveDays off) now) OFFER_NOT_ELIGIBLE
      (guardE (\<not> checkLimits \<or> (case of_maxRedemptions off of None \<Rightarrow> True
                 | Some m \<Rightarrow> redemption_count s salonId offerId < m)) OFFER_REDEMPTION_LIMIT
      (guardE (\<not> checkLimits \<or> customer_redemption_count s salonId offerId customerId < of_perCustomerLimit off)
         OFFER_REDEMPTION_LIMIT
      (bindE (totalDiscount off services) (\<lambda>discountAmountPaise.
       guardE (discountAmountPaise > 0) OFFER_NOT_ELIGIBLE
        (Inr \<lparr>ap_offer = offerId, ap_title = of_title off, ap_currency = of_currency off,
              ap_percent = (if of_discountType off = OD_PERCENT then paiseToRupees (of_discountValue off) else 0),
              ap_discount = discountAmountPaise, ap_updatedAt = of_updatedAt off\<rparr>))))))))))"

definition previewForBooking ::
    "(booking \<Rightarrow> ms) \<Rightarrow> db \<Rightarrow> id \<Rightarrow> id \<Rightarrow> id \<Rightarrow> service list \<Rightarrow> booking_source \<Rightarrow> ms
      \<Rightarrow> app_error + offer_application" where
  "previewForBooking upd s salonId customerId offerId services source now =
     validateOfferForBooking upd s salonId customerId offerId services source now True"

definition lockAndValidateForBooking ::
    "(booking \<Rightarrow> ms) \<Rightarrow> (service list \<Rightarrow> service list) \<Rightarrow> db \<Rightarrow> id \<Rightarrow> id \<Rightarrow> id \<Rightarrow> service list
      \<Rightarrow> booking_source \<Rightarrow> ms \<Rightarrow> app_error + offer_application" where
  "lockAndValidateForBooking upd ord s salonId customerId offerId services source now =
     theE (getOffer s salonId offerId) OFFER_NOT_FOUND (\<lambda>_.
       let currentServices = loadServices ord s salonId (map sv_id services) in
       bindE (assertFoundServiceIds currentServices (map sv_id services)) (\<lambda>_.
       guardE (\<not> list_ex (\<lambda>sv. case find (\<lambda>c. sv_id c = sv_id sv) currentServices of
                    None \<Rightarrow> True | Some c \<Rightarrow> sv_price sv \<noteq> sv_price c) services) OFFER_CHANGED_RETRY
        (validateOfferForBooking upd s salonId customerId offerId currentServices source now True)))"

definition recordRedemption :: "offer_application \<Rightarrow> id \<Rightarrow> id \<Rightarrow> id \<Rightarrow> db \<Rightarrow> db" where
  "recordRedemption application salonId customerId bookingId s =
     emit [Audit (Some customerId) ''OFFER_REDEEMED'' bookingId]
       (s\<lparr>db_redemptions := db_redemptions s @
           [\<lparr>rd_salon = salonId, rd_offer = ap_offer application, rd_booking = bookingId,
             rd_customer = customerId, rd_discount = ap_discount application,
             rd_currency = ap_currency application\<rparr>]\<rparr>)"

section \<open>The owner's operations\<close>

definition upper_char :: "char \<Rightarrow> char" where  \<comment> \<open>\<open>toUpperCase\<close> on a currency code\<close>
  "upper_char c = (if 97 \<le> (of_char c :: nat) \<and> (of_char c :: nat) \<le> 122 then char_of (of_char c - 32 :: nat) else c)"

definition createOffer :: "ms \<Rightarrow> id \<Rightarrow> id \<Rightarrow> offer_input \<Rightarrow> db \<Rightarrow> app_error + (offer \<times> db)" where
  "createOffer now actorUserId salonId input s =
     bindE (assertOwnerAccess s actorUserId salonId) (\<lambda>_.
     bindE (createOfferSchema input) (\<lambda>data.
     theE (find_salon s salonId) OFFER_NOT_FOUND (\<lambda>salon.
     bindE (assertServices s salonId (oi_serviceIds data)) (\<lambda>_.
       let row = \<lparr>of_id = db_next s, of_salon = salonId, of_kind = oi_kind data, of_status = O_DRAFT,
                  of_title = oi_title data, of_description = oi_description data,
                  of_discountType = oi_discountType data, of_discountValue = js_round (oi_discountValue data * 100),
                  of_currency = map upper_char (nvl (sa_currency salon) ''INR''), of_audience = oi_audience data,
                  of_inactiveDays = oi_inactiveDays data, of_validFrom = oi_validFrom data,
                  of_validTo = oi_validTo data, of_maxRedemptions = map_option nat (oi_maxRedemptions data),
                  of_perCustomerLimit = nat (oi_perCustomerLimit data), of_createdBy = actorUserId,
                  of_updatedAt = now, of_services = oi_serviceIds data\<rparr>
       in Inr (row, emit [Audit (Some actorUserId) ''OFFER_DRAFT_CREATED'' (of_id row)]
                 (s\<lparr>db_offers := db_offers s @ [row], db_next := db_next s + 1\<rparr>))))))"

text \<open>The fields of a partial update; the outer option tells an absent key.\<close>

record offer_patch =
  op_kind :: "offer_kind option"
  op_title :: "string option"
  op_description :: "string option option"
  op_discountType :: "offer_discount_type option"
  op_discountValue :: "rat option"
  op_audience :: "offer_audience option"
  op_inactiveDays :: "int option"
  op_validFrom :: "ms option"
  op_validTo :: "ms option"
  op_maxRedemptions :: "int option option"
  op_perCustomerLimit :: "int option"
  op_serviceIds :: "id list option"

definition merge_patch :: "offer_patch \<Rightarrow> offer \<Rightarrow> offer_input" where
  "merge_patch input current =
     \<lparr>oi_kind = nvl (op_kind input) (of_kind current), oi_title = nvl (op_title input) (of_title current),
      oi_description = nvl (op_description input) (of_description current),
      oi_discountType = nvl (op_discountType input) (of_discountType current),
      oi_discountValue = nvl (op_discountValue input) (paiseToRupees (of_discountValue current)),
      oi_audience = nvl (op_audience input) (of_audience current),
      oi_inactiveDays = (case op_inactiveDays input of Some d \<Rightarrow> Some d
        | None \<Rightarrow> (if op_audience input \<noteq> None \<and> op_audience input \<noteq> Some AUD_INACTIVE then None
                  else of_inactiveDays current)),
      oi_validFrom = nvl (op_validFrom input) (of_validFrom current),
      oi_validTo = nvl (op_validTo input) (of_validTo current),
      oi_maxRedemptions = nvl (op_maxRedemptions input) (map_option int (of_maxRedemptions current)),
      oi_perCustomerLimit = nvl (op_perCustomerLimit input) (int (of_perCustomerLimit current)),
      oi_serviceIds = nvl (op_serviceIds input) (of_services current)\<rparr>"

definition upd_offer :: "id \<Rightarrow> (offer \<Rightarrow> offer) \<Rightarrow> db \<Rightarrow> db" where
  "upd_offer offerId f s = s\<lparr>db_offers := upd_where (\<lambda>off. of_id off = offerId) f (db_offers s)\<rparr>"

definition updateOffer :: "ms \<Rightarrow> id \<Rightarrow> id \<Rightarrow> id \<Rightarrow> offer_patch \<Rightarrow> db \<Rightarrow> app_error + db" where
  "updateOffer now actorUserId salonId offerId input s =
     bindE (assertOwnerAccess s actorUserId salonId) (\<lambda>_.
     theE (getOffer s salonId offerId) OFFER_NOT_FOUND (\<lambda>current.
     guardE (of_status current \<noteq> O_ACTIVE) OFFER_MUST_PAUSE_TO_EDIT
     (bindE (createOfferSchema (merge_patch input current)) (\<lambda>data.
     bindE (assertServices s salonId (oi_serviceIds data)) (\<lambda>_.
       Inr (emit [Audit (Some actorUserId) ''OFFER_DRAFT_UPDATED'' offerId]
         (upd_offer offerId (\<lambda>off. off\<lparr>of_kind := oi_kind data, of_title := oi_title data,
            of_description := oi_description data, of_discountType := oi_discountType data,
            of_discountValue := js_round (oi_discountValue data * 100), of_audience := oi_audience data,
            of_inactiveDays := oi_inactiveDays data, of_validFrom := oi_validFrom data,
            of_validTo := oi_validTo data, of_maxRedemptions := map_option nat (oi_maxRedemptions data),
            of_perCustomerLimit := nat (oi_perCustomerLimit data), of_updatedAt := now,
            of_services := (if op_serviceIds input \<noteq> None then oi_serviceIds data else of_services off)\<rparr>) s)))))))"

definition active_service :: "db \<Rightarrow> id \<Rightarrow> id \<Rightarrow> bool" where
  "active_service s salonId i = exists_where (\<lambda>sv. sv_id sv = i \<and> sv_salon sv = salonId \<and> sv_isActive sv) (db_services s)"

definition publishOffer :: "ms \<Rightarrow> id \<Rightarrow> id \<Rightarrow> id \<Rightarrow> db \<Rightarrow> app_error + db" where
  "publishOffer now actorUserId salonId offerId s =
     bindE (assertOwnerAccess s actorUserId salonId) (\<lambda>_.
     theE (getOffer s salonId offerId) OFFER_NOT_FOUND (\<lambda>current.
     guardE (\<not> (of_validTo current \<le> now \<or> of_validTo current \<le> of_validFrom current)) OFFER_NOT_PUBLISHABLE
     (let serviceLinks = length (of_services current);
          activeServiceCount = count_where (\<lambda>sv. sv_salon sv = salonId \<and> sv_isActive sv) (db_services s)
      in guardE (\<not> ((serviceLinks = 0 \<and> activeServiceCount = 0) \<or>
                    (serviceLinks > 0 \<and> serviceLinks \<noteq> count_where (active_service s salonId) (of_services current))))
           OFFER_NOT_PUBLISHABLE
           (if of_status current = O_ACTIVE then Inr s
            else Inr (emit [Audit (Some actorUserId) ''OFFER_PUBLISHED'' offerId]
                   (upd_offer offerId (\<lambda>off. off\<lparr>of_status := O_ACTIVE, of_updatedAt := now\<rparr>) s))))))"

definition pauseOffer :: "ms \<Rightarrow> id \<Rightarrow> id \<Rightarrow> id \<Rightarrow> db \<Rightarrow> app_error + db" where
  "pauseOffer now actorUserId salonId offerId s =
     bindE (assertOwnerAccess s actorUserId salonId) (\<lambda>_.
     theE (getOffer s salonId offerId) OFFER_NOT_FOUND (\<lambda>current.
       if of_status current \<noteq> O_PAUSED
       then Inr (emit [Audit (Some actorUserId) ''OFFER_PAUSED'' offerId]
              (upd_offer offerId (\<lambda>off. off\<lparr>of_status := O_PAUSED, of_updatedAt := now\<rparr>) s))
       else Inr s))"

section \<open>What visitors see\<close>

definition shown_status :: "ms \<Rightarrow> offer \<Rightarrow> offer_status" where
  "shown_status now off = (if of_status off = O_ACTIVE \<and> of_validTo off \<le> now then O_EXPIRED else of_status off)"

definition publicPrices :: "(service list \<Rightarrow> service list) \<Rightarrow> db \<Rightarrow> offer \<Rightarrow> app_error + offer_line list" where
  "publicPrices ord s off =
     (let eligible = (if of_services off \<noteq> []
                      then filter (\<lambda>sv. sv_id sv \<in> set (of_services off) \<and> sv_isActive sv) (db_services s)
                      else ord (filter (\<lambda>sv. sv_salon sv = of_salon off \<and> sv_isActive sv) (db_services s)))
      in foldr (\<lambda>sv acc. bindE (calculateLines off [sv]) (\<lambda>ls. bindE acc (\<lambda>rest. Inr (ls @ rest))))
           (take 50 eligible) (Inr []))"

definition publicGet ::
    "(service list \<Rightarrow> service list) \<Rightarrow> ms \<Rightarrow> db \<Rightarrow> id \<Rightarrow> app_error + (offer \<times> offer_status \<times> offer_line list)" where
  "publicGet ord now s offerId =
     theE (find (\<lambda>off. of_id off = offerId \<and> of_status off = O_ACTIVE \<and> of_validFrom off \<le> now \<and> of_validTo off > now
                 \<and> (case find_salon s (of_salon off) of Some sa \<Rightarrow> sa_status sa = SALON_ACTIVE | None \<Rightarrow> False))
            (db_offers s)) OFFER_NOT_FOUND (\<lambda>off.
       let activeServiceCount = (if of_services off \<noteq> [] then count_where (active_service s (of_salon off)) (of_services off)
             else count_where (\<lambda>sv. sv_salon sv = of_salon off \<and> sv_isActive sv) (db_services s))
       in guardE (activeServiceCount \<noteq> 0) OFFER_NOT_FOUND
         (bindE (publicPrices ord s off) (\<lambda>prices.
            guardE (prices \<noteq> []) OFFER_NOT_FOUND (Inr (off, shown_status now off, prices)))))"

section \<open>Price lines\<close>

text \<open>What validation guarantees of a stored campaign.\<close>

definition offer_ok :: "offer \<Rightarrow> bool" where
  "offer_ok off \<longleftrightarrow> 0 < of_discountValue off
     \<and> (of_discountType off = OD_PERCENT \<longrightarrow> of_discountValue off mod 100 = 0 \<and> of_discountValue off \<le> 10000)
     \<and> of_validFrom off < of_validTo off \<and> (of_audience off = AUD_INACTIVE \<longleftrightarrow> of_inactiveDays off \<noteq> None)
     \<and> 0 < of_perCustomerLimit off \<and> distinct (of_services off)"

definition lineDiscount :: "offer \<Rightarrow> paise \<Rightarrow> paise" where
  "lineDiscount off p = (p * (of_discountValue off div 100) + 50) div 100"

lemma percentDiscount_ok:
  assumes "offer_ok off" "of_discountType off = OD_PERCENT" "0 \<le> p"
  shows "percentDiscount off p = Inr (lineDiscount off p)" "0 \<le> lineDiscount off p" "lineDiscount off p \<le> p"
proof -
  let ?k = "of_discountValue off div 100"
  have k: "0 \<le> ?k" "?k \<le> 100" and m: "of_discountValue off mod 100 = 0"
    using assms by (auto simp: offer_ok_def)
  then show "percentDiscount off p = Inr (lineDiscount off p)"
    using assms(3) by (simp add: percentDiscount_def computePercentageDiscountPaise_def lineDiscount_def)
  have "0 \<le> p * ?k" using k assms(3) by simp
  then show "0 \<le> lineDiscount off p" by (simp add: lineDiscount_def)
  have "p * ?k \<le> p * 100" using k assms(3) by (intro mult_left_mono) simp_all
  then show "lineDiscount off p \<le> p" by (simp add: lineDiscount_def)
qed

definition covered_base :: "offer \<Rightarrow> service list \<Rightarrow> paise" where
  "covered_base off svs = sum_list (map sv_price (filter (\<lambda>sv. offer_covers off (sv_id sv)) svs))"

lemma covered_base_simps [simp]:
  "covered_base off [] = 0"
  "covered_base off (sv # svs) = (if offer_covers off (sv_id sv) then sv_price sv else 0) + covered_base off svs"
  by (simp_all add: covered_base_def)

lemma covered_base_nonneg: "\<forall>sv\<in>set svs. 0 \<le> sv_price sv \<Longrightarrow> 0 \<le> covered_base off svs"
  by (induction svs) auto

lemma lines_loop_percent:
  assumes "offer_ok off" "of_discountType off = OD_PERCENT" "\<forall>sv\<in>set svs. 0 \<le> sv_price sv"
  shows "lines_loop off flat svs = Inr (map (\<lambda>sv. \<lparr>ol_service = sv_id sv, ol_base = sv_price sv,
           ol_discount = (if offer_covers off (sv_id sv) then lineDiscount off (sv_price sv) else 0)\<rparr>) svs)"
  using assms(3)
proof (induction svs)
  case (Cons sv svs)
  then show ?case using percentDiscount_ok(1) [OF assms(1,2), of "sv_price sv"] assms(2) by (simp add: Let_def)
qed simp

lemma lines_loop_flat:
  assumes "of_discountType off = OD_FLAT" "0 \<le> flat" "\<forall>sv\<in>set svs. 0 \<le> sv_price sv"
  shows "\<exists>ls. lines_loop off flat svs = Inr ls \<and> sum_list (map ol_discount ls) = min flat (covered_base off svs)
     \<and> map ol_service ls = map sv_id svs \<and> map ol_base ls = map sv_price svs
     \<and> (\<forall>l\<in>set ls. 0 \<le> ol_discount l \<and> ol_discount l \<le> ol_base l)
     \<and> (\<forall>l\<in>set ls. \<not> offer_covers off (ol_service l) \<longrightarrow> ol_discount l = 0)"
  using assms(2,3)
proof (induction svs arbitrary: flat)
  case (Cons sv svs)
  let ?c = "offer_covers off (sv_id sv)"
  define d where "d = (if ?c then min (sv_price sv) flat else 0)"
  have d: "0 \<le> d" "d \<le> sv_price sv" "0 \<le> flat - d" "\<not> ?c \<longrightarrow> d = 0" using Cons.prems by (auto simp: d_def)
  obtain ls where ls: "lines_loop off (flat - d) svs = Inr ls"
    "sum_list (map ol_discount ls) = min (flat - d) (covered_base off svs)"
    "map ol_service ls = map sv_id svs" "map ol_base ls = map sv_price svs"
    "\<forall>l\<in>set ls. 0 \<le> ol_discount l \<and> ol_discount l \<le> ol_base l"
    "\<forall>l\<in>set ls. \<not> offer_covers off (ol_service l) \<longrightarrow> ol_discount l = 0"
    using Cons.IH [OF d(3)] Cons.prems(2) by auto
  have run: "lines_loop off flat (sv # svs) =
      Inr (\<lparr>ol_service = sv_id sv, ol_base = sv_price sv, ol_discount = d\<rparr> # ls)"
    using ls(1) assms(1) by (cases ?c) (simp_all add: d_def Let_def)
  have "d + min (flat - d) (covered_base off svs) = min flat ((if ?c then sv_price sv else 0) + covered_base off svs)"
    using covered_base_nonneg [of svs off] Cons.prems by (auto simp: d_def min_def)
  then have "d + sum_list (map ol_discount ls) = min flat (covered_base off (sv # svs))"
    by (simp only: ls(2) covered_base_simps)
  then show ?case
    unfolding run using ls(3-6) d(1,2,4)
    by (intro exI [of _ "\<lparr>ol_service = sv_id sv, ol_base = sv_price sv, ol_discount = d\<rparr> # ls"]) simp
qed simp

text \<open>The price lines of a valid campaign on priced services.\<close>

definition lines_ok :: "offer \<Rightarrow> service list \<Rightarrow> offer_line list \<Rightarrow> bool" where
  "lines_ok off svs ls \<longleftrightarrow> map ol_service ls = map sv_id svs \<and> map ol_base ls = map sv_price svs
     \<and> (\<forall>l\<in>set ls. 0 \<le> ol_discount l \<and> ol_discount l \<le> ol_base l)
     \<and> (\<forall>l\<in>set ls. \<not> offer_covers off (ol_service l) \<longrightarrow> ol_discount l = 0)
     \<and> sum_list (map ol_discount ls) =
         (if of_discountType off = OD_FLAT then min (of_discountValue off) (covered_base off svs)
          else sum_list (map (\<lambda>sv. lineDiscount off (sv_price sv)) (filter (\<lambda>sv. offer_covers off (sv_id sv)) svs)))"

lemma calculateLines_ok:
  assumes ok: "offer_ok off" and prices: "\<forall>sv\<in>set svs. 0 \<le> sv_price sv"
  shows "\<exists>ls. calculateLines off svs = Inr ls \<and> lines_ok off svs ls"
proof (cases "of_discountType off")
  case OD_PERCENT
  define f where "f = (\<lambda>sv::service. \<lparr>ol_service = sv_id sv, ol_base = sv_price sv,
           ol_discount = (if offer_covers off (sv_id sv) then lineDiscount off (sv_price sv) else 0)\<rparr>)"
  have "calculateLines off svs = Inr (map f svs)"
    using lines_loop_percent [OF ok OD_PERCENT prices] by (simp add: calculateLines_def OD_PERCENT f_def)
  moreover have "sum_list (map ol_discount (map f svs))
      = sum_list (map (\<lambda>sv. lineDiscount off (sv_price sv)) (filter (\<lambda>sv. offer_covers off (sv_id sv)) svs))"
    by (induction svs) (simp_all add: f_def)
  moreover have "0 \<le> ol_discount (f sv) \<and> ol_discount (f sv) \<le> ol_base (f sv)" if "sv \<in> set svs" for sv
    using percentDiscount_ok(2,3) [OF ok OD_PERCENT] prices that by (simp add: f_def)
  ultimately show ?thesis
    using OD_PERCENT by (intro exI [of _ "map f svs"]) (auto simp: lines_ok_def f_def)
next
  case OD_FLAT
  have "0 \<le> of_discountValue off" using ok by (simp add: offer_ok_def)
  from lines_loop_flat [OF OD_FLAT this prices] show ?thesis
    by (auto simp: calculateLines_def OD_FLAT lines_ok_def)
qed

lemma totalDiscount_ok:
  assumes "offer_ok off" "\<forall>sv\<in>set svs. 0 \<le> sv_price sv"
  shows "totalDiscount off svs = Inr (if of_discountType off = OD_FLAT then min (of_discountValue off) (covered_base off svs)
          else sum_list (map (\<lambda>sv. lineDiscount off (sv_price sv)) (filter (\<lambda>sv. offer_covers off (sv_id sv)) svs)))"
  using calculateLines_ok [OF assms] by (auto simp: totalDiscount_def lines_ok_def)

lemma totalDiscount_permuted:
  assumes "offer_ok off" "\<forall>sv\<in>set svs. 0 \<le> sv_price sv" "mset svs = mset svs'"
  shows "totalDiscount off svs = totalDiscount off svs'"
proof -
  have "set svs = set svs'" using assms(3) by (rule mset_eq_setD)
  then have prices: "\<forall>sv\<in>set svs'. 0 \<le> sv_price sv" using assms(2) by simp
  have sums: "sum_list (map f (filter P svs)) = sum_list (map f (filter P svs'))" for f :: "service \<Rightarrow> int" and P
    using assms(3) by (simp add: sum_mset_sum_list [symmetric] mset_filter)
  show ?thesis
    unfolding totalDiscount_ok [OF assms(1,2)] totalDiscount_ok [OF assms(1) prices]
    by (simp only: sums covered_base_def)
qed

section \<open>Stored campaigns stay valid\<close>

inductive offer_step :: "db \<Rightarrow> db \<Rightarrow> bool" where
  create: "createOffer now u sal input s = Inr (row, t) \<Longrightarrow> offer_step s t"
| update: "updateOffer now u sal i patch s = Inr t \<Longrightarrow> offer_step s t"
| publish: "publishOffer now u sal i s = Inr t \<Longrightarrow> offer_step s t"
| pause: "pauseOffer now u sal i s = Inr t \<Longrightarrow> offer_step s t"
| redeem: "offer_step s (recordRedemption application sal c b s)"

inductive_cases offer_stepE: "offer_step s t"

definition offers_ok :: "db \<Rightarrow> bool" where
  "offers_ok s \<longleftrightarrow> (\<forall>off\<in>set (db_offers s). offer_ok off \<and> of_id off < db_next s) \<and> distinct (map of_id (db_offers s))"

lemma js_round_whole:
  assumes "is_whole x" shows "of_int (js_round x) = x"
proof -
  obtain k where k: "x = of_int k" using assms unfolding is_whole_def by metis
  have "\<lfloor>of_int k + (1 / 2 :: rat)\<rfloor> = k" by (rule floor_unique) simp_all
  then show ?thesis by (simp add: js_round_def k)
qed

lemma parsed_offer:
  assumes "createOfferSchema input = Inr v"
  shows "offerBaseSchema v" "validateOffer v"
  using assms by (auto simp: createOfferSchema_def success_simps Let_def)

lemma parsed_value:
  assumes "createOfferSchema input = Inr v"
  shows "0 < js_round (oi_discountValue v * 100)"
    and "oi_discountType v = OD_PERCENT \<Longrightarrow> js_round (oi_discountValue v * 100) mod 100 = 0"
    and "oi_discountType v = OD_PERCENT \<Longrightarrow> js_round (oi_discountValue v * 100) \<le> 10000"
proof -
  note P = parsed_offer [OF assms]
  have w: "is_whole (oi_discountValue v * 100)" and pos: "0 < oi_discountValue v"
    using P(1) by (simp_all add: offerBaseSchema_def)
  have r: "of_int (js_round (oi_discountValue v * 100)) = oi_discountValue v * 100" by (rule js_round_whole [OF w])
  then have "(0::rat) < of_int (js_round (oi_discountValue v * 100))" using pos by simp
  then show "0 < js_round (oi_discountValue v * 100)" by (simp only: of_int_0_less_iff)
  assume "oi_discountType v = OD_PERCENT"
  then have p: "oi_discountValue v \<le> 100" "is_whole (oi_discountValue v)"
    using P(2) by (auto simp: validateOffer_def)
  obtain k where k: "oi_discountValue v = of_int k" using p(2) by (metis is_whole_def)
  have "(of_int (js_round (oi_discountValue v * 100)) :: rat) = of_int (k * 100)" using r by (simp add: k)
  then have eq: "js_round (oi_discountValue v * 100) = k * 100" by (simp only: of_int_eq_iff)
  show "js_round (oi_discountValue v * 100) mod 100 = 0" by (simp add: eq)
  have "(of_int k :: rat) \<le> of_int 100" using p(1) by (simp add: k)
  then show "js_round (oi_discountValue v * 100) \<le> 10000" by (simp only: of_int_le_iff eq)
qed

lemma offers_ok_upd:
  assumes "offers_ok s" "\<And>off. off \<in> set (db_offers s) \<Longrightarrow> of_id off = i \<Longrightarrow> offer_ok (f off) \<and> of_id (f off) = of_id off"
  shows "offers_ok (upd_offer i f s)"
proof -
  have "map of_id (db_offers (upd_offer i f s)) = map of_id (db_offers s)"
    unfolding upd_offer_def by (simp, rule map_upd_where) (use assms(2) in blast)
  moreover have "offer_ok off \<and> of_id off < db_next s" if "off \<in> set (db_offers (upd_offer i f s))" for off
  proof -
    obtain r where r: "r \<in> set (db_offers s)" "off = (if of_id r = i then f r else r)"
      using \<open>off \<in> _\<close> by (auto simp: upd_offer_def in_upd_where)
    then show ?thesis using assms(2) [OF r(1)] assms(1) by (auto simp: offers_ok_def)
  qed
  ultimately show ?thesis using assms(1) by (simp add: offers_ok_def upd_offer_def)
qed

lemma offers_ok_emit [simp]: "offers_ok (emit es s) = offers_ok s"
  by (simp add: offers_ok_def)

lemma offer_step_ok:
  assumes "offer_step s t" "offers_ok s"
  shows "offers_ok t"
  using assms(1)
proof (cases rule: offer_step.cases)
  case (create now u sal input row)
  then obtain v where v: "createOfferSchema input = Inr v"
    and row: "of_id row = db_next s" "of_discountValue row = js_round (oi_discountValue v * 100)"
      "of_discountType row = oi_discountType v" "of_validFrom row = oi_validFrom v" "of_validTo row = oi_validTo v"
      "of_audience row = oi_audience v" "of_inactiveDays row = oi_inactiveDays v"
      "of_perCustomerLimit row = nat (oi_perCustomerLimit v)" "of_services row = oi_serviceIds v"
    and t: "db_offers t = db_offers s @ [row]" "db_next t = db_next s + 1"
    by (auto simp: createOffer_def success_simps Let_def)
  note P = parsed_offer [OF v] parsed_value [OF v]
  have "offer_ok row"
    using P(1,2) P(3-5) by (auto simp: offer_ok_def row offerBaseSchema_def validateOffer_def)
  moreover have "db_next s \<notin> of_id ` set (db_offers s)" using assms(2) by (force simp: offers_ok_def)
  ultimately show ?thesis using assms(2) row(1) t by (auto simp: offers_ok_def intro: less_SucI)
next
  case (update now u sal i patch)
  then obtain v current where v: "createOfferSchema (merge_patch patch current) = Inr v"
    and t: "t = emit [Audit (Some u) ''OFFER_DRAFT_UPDATED'' i]
         (upd_offer i (\<lambda>off. off\<lparr>of_kind := oi_kind v, of_title := oi_title v,
            of_description := oi_description v, of_discountType := oi_discountType v,
            of_discountValue := js_round (oi_discountValue v * 100), of_audience := oi_audience v,
            of_inactiveDays := oi_inactiveDays v, of_validFrom := oi_validFrom v,
            of_validTo := oi_validTo v, of_maxRedemptions := map_option nat (oi_maxRedemptions v),
            of_perCustomerLimit := nat (oi_perCustomerLimit v), of_updatedAt := now,
            of_services := (if op_serviceIds patch \<noteq> None then oi_serviceIds v else of_services off)\<rparr>) s)"
    by (auto simp: updateOffer_def success_simps)
  note P = parsed_offer [OF v] parsed_value [OF v]
  show ?thesis unfolding t offers_ok_emit
    by (rule offers_ok_upd [OF assms(2)], use P(1,2) P(3-5) assms(2) in
        \<open>auto simp: offer_ok_def offers_ok_def offerBaseSchema_def validateOffer_def\<close>)
next
  case (publish now u sal i)
  then have "t = s \<or> t = emit [Audit (Some u) ''OFFER_PUBLISHED'' i]
                   (upd_offer i (\<lambda>off. off\<lparr>of_status := O_ACTIVE, of_updatedAt := now\<rparr>) s)"
    by (auto simp: publishOffer_def success_simps Let_def split: if_splits)
  moreover have "offers_ok (upd_offer i (\<lambda>off. off\<lparr>of_status := O_ACTIVE, of_updatedAt := now\<rparr>) s)"
    by (rule offers_ok_upd [OF assms(2)]) (use assms(2) in \<open>auto simp: offer_ok_def offers_ok_def\<close>)
  ultimately show ?thesis using assms(2) by auto
next
  case (pause now u sal i)
  then have "t = s \<or> t = emit [Audit (Some u) ''OFFER_PAUSED'' i]
              (upd_offer i (\<lambda>off. off\<lparr>of_status := O_PAUSED, of_updatedAt := now\<rparr>) s)"
    by (auto simp: pauseOffer_def success_simps split: if_splits)
  moreover have "offers_ok (upd_offer i (\<lambda>off. off\<lparr>of_status := O_PAUSED, of_updatedAt := now\<rparr>) s)"
    by (rule offers_ok_upd [OF assms(2)]) (use assms(2) in \<open>auto simp: offer_ok_def offers_ok_def\<close>)
  ultimately show ?thesis using assms(2) by auto
next
  case redeem
  then show ?thesis using assms(2) by (simp add: recordRedemption_def offers_ok_def)
qed

interpretation offer_inv: invariant offer_step offers_ok
  by unfold_locales (rule offer_step_ok)

text \<open>The row an operation of the owner targets.\<close>

lemma getOfferD: "getOffer s sal i = Some off \<Longrightarrow> off \<in> set (db_offers s) \<and> of_id off = i \<and> of_salon off = sal"
  by (auto simp: getOffer_def dest: find_SomeD)

definition same_terms :: "offer \<Rightarrow> offer \<Rightarrow> bool" where
  "same_terms a b \<longleftrightarrow> (\<exists>st u. b = a\<lparr>of_status := st, of_updatedAt := u\<rparr>)"

lemma same_terms_refl: "same_terms a a"
  unfolding same_terms_def by (intro exI [of _ "of_status a"] exI [of _ "of_updatedAt a"]) simp

lemma frozen_upd:
  assumes "off \<in> set (db_offers s)" "same_terms off (f off)"
  shows "\<exists>off'\<in>set (db_offers (upd_offer i f s)). same_terms off off'"
proof (cases "of_id off = i")
  case True
  then have "f off \<in> set (db_offers (upd_offer i f s))"
    using upd_where_memI [OF assms(1), of "\<lambda>off. of_id off = i" f] by (simp add: upd_offer_def)
  then show ?thesis using assms(2) by blast
next
  case False
  then have "off \<in> set (db_offers (upd_offer i f s))"
    using upd_where_memI [OF assms(1), of "\<lambda>off. of_id off = i" f] by (simp add: upd_offer_def)
  then show ?thesis using same_terms_refl by blast
qed

lemma active_frozen:
  assumes step: "offer_step s t" and ok: "offers_ok s"
    and off: "off \<in> set (db_offers s)" "of_status off = O_ACTIVE"
  shows "\<exists>off'\<in>set (db_offers t). same_terms off off'"
  using step
proof (cases rule: offer_step.cases)
  case (create now u sal input row)
  then have "db_offers t = db_offers s @ [row]" by (auto simp: createOffer_def success_simps Let_def)
  then show ?thesis using off same_terms_refl by auto
next
  case (update now u sal i patch)
  then obtain current f where cur: "getOffer s sal i = Some current" "of_status current \<noteq> O_ACTIVE"
    and t: "t = emit [Audit (Some u) ''OFFER_DRAFT_UPDATED'' i] (upd_offer i f s)"
    by (clarsimp simp: updateOffer_def success_simps)
  have "of_id off \<noteq> i"
    using getOfferD [OF cur(1)] cur(2) off distinct_key_eq [of of_id "db_offers s" off current] ok
    by (auto simp: offers_ok_def)
  then have "off \<in> set (db_offers t)"
    using upd_where_memI [OF off(1), of "\<lambda>off. of_id off = i" f] by (simp add: t upd_offer_def)
  then show ?thesis using same_terms_refl by blast
next
  case (publish now u sal i)
  then have "t = s \<or> t = emit [Audit (Some u) ''OFFER_PUBLISHED'' i]
                   (upd_offer i (\<lambda>off. off\<lparr>of_status := O_ACTIVE, of_updatedAt := now\<rparr>) s)"
    by (auto simp: publishOffer_def success_simps Let_def split: if_splits)
  then show ?thesis
  proof
    assume "t = s" then show ?thesis using off(1) same_terms_refl by blast
  next
    assume t: "t = emit [Audit (Some u) ''OFFER_PUBLISHED'' i]
                   (upd_offer i (\<lambda>off. off\<lparr>of_status := O_ACTIVE, of_updatedAt := now\<rparr>) s)"
    show ?thesis unfolding t emit_simps by (rule frozen_upd [OF off(1)]) (auto simp: same_terms_def)
  qed
next
  case (pause now u sal i)
  then have "t = s \<or> t = emit [Audit (Some u) ''OFFER_PAUSED'' i]
              (upd_offer i (\<lambda>off. off\<lparr>of_status := O_PAUSED, of_updatedAt := now\<rparr>) s)"
    by (auto simp: pauseOffer_def success_simps split: if_splits)
  then show ?thesis
  proof
    assume "t = s" then show ?thesis using off(1) same_terms_refl by blast
  next
    assume t: "t = emit [Audit (Some u) ''OFFER_PAUSED'' i]
              (upd_offer i (\<lambda>off. off\<lparr>of_status := O_PAUSED, of_updatedAt := now\<rparr>) s)"
    show ?thesis unfolding t emit_simps by (rule frozen_upd [OF off(1)]) (auto simp: same_terms_def)
  qed
next
  case redeem
  then show ?thesis using off(1) same_terms_refl by (auto simp: recordRedemption_def)
qed

section \<open>Properties\<close>

text \<open>C12: whatever owners do, every stored campaign stays valid (a positive discount, a whole percentage
  up to 100, a non-empty window, inactivity days exactly for the inactive audience, a positive
  per-customer limit), and the terms of a published campaign cannot be edited: a step can change only
  its status and its update time.\<close>
theorem offers_stay_valid_and_published_terms_are_frozen:
  assumes "offer_step\<^sup>*\<^sup>* s t" "offers_ok s" "offer_step t t'"
  shows "offers_ok t' \<and> (\<forall>off\<in>set (db_offers t). of_status off = O_ACTIVE \<longrightarrow>
      (\<exists>off'\<in>set (db_offers t'). same_terms off off'))"
proof -
  have ok: "offers_ok t" using assms(1,2) by (rule offer_inv.run_inv)
  show ?thesis using offer_step_ok [OF assms(3) ok] active_frozen [OF assms(3) ok] by blast
qed

definition demo_offer_db :: db where
  "demo_offer_db = demo_db\<lparr>db_roles := [\<lparr>ur_user = 8, ur_role = SALON_OWNER, ur_salon = Some 1\<rparr>],
     db_offers := [\<lparr>of_id = 9, of_salon = 1, of_kind = PROMOTION, of_status = O_ACTIVE, of_title = ''Flat 50'',
       of_description = None, of_discountType = OD_FLAT, of_discountValue = 5000, of_currency = ''INR'',
       of_audience = AUD_ALL, of_inactiveDays = None, of_validFrom = 0, of_validTo = 1000,
       of_maxRedemptions = Some 2, of_perCustomerLimit = 1, of_createdBy = 8, of_updatedAt = 0, of_services = []\<rparr>]\<rparr>"

lemma demo_offers_ok: "offers_ok demo_offer_db"
  by (simp add: offers_ok_def offer_ok_def demo_offer_db_def demo_defs)

lemma offers_stay_valid_and_published_terms_are_frozen_witness:
  "\<exists>t off'. pauseOffer 500 8 1 9 demo_offer_db = Inr t \<and> offers_ok t
     \<and> off' \<in> set (db_offers t) \<and> same_terms (hd (db_offers demo_offer_db)) off'"
proof -
  obtain t where t: "pauseOffer 500 8 1 9 demo_offer_db = Inr t"
    by (simp add: pauseOffer_def assertOwnerAccess_def assertRoles_def has_role_def exists_where_def getOffer_def
        demo_offer_db_def demo_defs)
  have "hd (db_offers demo_offer_db) \<in> set (db_offers demo_offer_db)"
    "of_status (hd (db_offers demo_offer_db)) = O_ACTIVE" by (simp_all add: demo_offer_db_def)
  then show ?thesis
    using offers_stay_valid_and_published_terms_are_frozen
      [OF rtranclp.rtrancl_refl demo_offers_ok offer_step.pause [OF t]] t by blast
qed

text \<open>The price lines of a stored campaign can always be computed: one line per selected service, in
  order, never discounting below zero or by more than its price and never touching a service outside
  the campaign; a flat amount is spread so that the lines add up to the smaller of the amount and the
  covered prices, a percentage is rounded half up per line.\<close>
theorem price_lines_are_sound:
  assumes "offers_ok s" "off \<in> set (db_offers s)" "\<forall>sv\<in>set svs. 0 \<le> sv_price sv"
  shows "\<exists>ls. calculateLines off svs = Inr ls \<and> map ol_service ls = map sv_id svs \<and> map ol_base ls = map sv_price svs
     \<and> (\<forall>l\<in>set ls. 0 \<le> ol_discount l \<and> ol_discount l \<le> ol_base l)
     \<and> (\<forall>l\<in>set ls. \<not> offer_covers off (ol_service l) \<longrightarrow> ol_discount l = 0)
     \<and> sum_list (map ol_discount ls) =
         (if of_discountType off = OD_FLAT
          then min (of_discountValue off) (sum_list (map sv_price (filter (\<lambda>sv. offer_covers off (sv_id sv)) svs)))
          else sum_list (map (\<lambda>sv. (sv_price sv * (of_discountValue off div 100) + 50) div 100)
                 (filter (\<lambda>sv. offer_covers off (sv_id sv)) svs)))"
  using calculateLines_ok [of off svs] assms
  by (auto simp: offers_ok_def lines_ok_def covered_base_def lineDiscount_def)

lemma price_lines_are_sound_witness:
  "\<exists>ls. calculateLines (hd (db_offers demo_offer_db)) [demo_service] = Inr ls \<and> sum_list (map ol_discount ls) = 5000"
proof -
  have "hd (db_offers demo_offer_db) \<in> set (db_offers demo_offer_db)"
    "\<forall>sv\<in>set [demo_service]. 0 \<le> sv_price sv" by (simp_all add: demo_offer_db_def demo_service_def)
  from price_lines_are_sound [OF demo_offers_ok this] show ?thesis
    by (simp add: demo_offer_db_def demo_service_def offer_covers_def) blast
qed

lemma services_permuted:
  assumes svs: "getServicesOrThrow s sal ids = Inr svs" and d: "distinct (map sv_id (db_services s))"
  shows "mset svs = mset (filter (\<lambda>sv. sv_salon sv = sal \<and> sv_isActive sv \<and> (ids = [] \<or> sv_id sv \<in> set ids)) (db_services s))"
    and "map sv_id svs = ids" and "set svs \<subseteq> set (db_services s)"
proof -
  define F where "F = filter (\<lambda>sv. sv_id sv \<in> set ids \<and> sv_salon sv = sal \<and> sv_isActive sv) (db_services s)"
  have g: "ids \<noteq> []" "distinct ids" "length F = length ids" and eq: "svs = map (\<lambda>i. the (find (\<lambda>sv. sv_id sv = i) F)) ids"
    using svs by (auto simp: getServicesOrThrow_def success_simps Let_def F_def)
  have dF: "distinct (map sv_id F)" using d by (simp add: F_def distinct_map_filter)
  have "set (map sv_id F) \<subseteq> set ids" by (auto simp: F_def)
  moreover have "card (set (map sv_id F)) = card (set ids)"
    using g dF by (simp only: distinct_card length_map)
  ultimately have ids: "set (map sv_id F) = set ids" by (intro card_subset_eq) simp_all
  have found: "the (find (\<lambda>sv. sv_id sv = i) F) \<in> set F \<and> sv_id (the (find (\<lambda>sv. sv_id sv = i) F)) = i" if i: "i \<in> set ids" for i
  proof -
    have "i \<in> sv_id ` set F" using i ids by simp
    then obtain x where x: "x \<in> set F" "sv_id x = i" by blast
    then have "find (\<lambda>sv. sv_id sv = i) F = Some x" using find_id_eq [OF dF x(1)] by simp
    then show ?thesis using x by simp
  qed
  show mp: "map sv_id svs = ids" unfolding eq using found by (simp add: map_idI)
  have "set svs \<subseteq> set F" unfolding eq using found by auto
  moreover have "set F \<subseteq> set svs"
  proof
    fix x assume x: "x \<in> set F"
    then have "sv_id x \<in> set ids" using ids by auto
    moreover have "find (\<lambda>sv. sv_id sv = sv_id x) F = Some x" by (rule find_id_eq [OF dF x])
    ultimately show "x \<in> set svs" unfolding eq by force
  qed
  ultimately have "set svs = set F" by blast
  moreover have "distinct svs" using iffD1 [OF distinct_map, of sv_id svs] by (simp only: mp g(2))
  moreover have "distinct F" using dF by (simp add: distinct_map)
  ultimately have "mset svs = mset F" by (simp add: set_eq_iff_mset_eq_distinct)
  moreover have "F = filter (\<lambda>sv. sv_salon sv = sal \<and> sv_isActive sv \<and> (ids = [] \<or> sv_id sv \<in> set ids)) (db_services s)"
    unfolding F_def using g(1) by (intro filter_cong) auto
  ultimately show "mset svs = mset (filter (\<lambda>sv. sv_salon sv = sal \<and> sv_isActive sv \<and> (ids = [] \<or> sv_id sv \<in> set ids)) (db_services s))"
    by simp
  show "set svs \<subseteq> set (db_services s)" using \<open>set svs = set F\<close> by (auto simp: F_def)
qed

text \<open>The check inside the booking's transaction reads the services again, in the database's order
  instead of the customer's. When nothing changed in between, it answers exactly what the preview
  answered, errors included: a booking is never sent back because of the order of its services.\<close>
theorem locked_check_agrees_with_preview:
  assumes ord: "\<forall>xs. mset (ord xs) = mset xs" and ok: "offers_ok s"
    and d: "distinct (map sv_id (db_services s))" and prices: "\<forall>sv\<in>set (db_services s). 0 \<le> sv_price sv"
    and svs: "getServicesOrThrow s sal ids = Inr svs" and src: "source = SRC_APP \<or> source = SRC_WEB"
  shows "lockAndValidateForBooking upd ord s sal c i svs source now = previewForBooking upd s sal c i svs source now"
proof -
  note P = services_permuted [OF svs d]
  define cur where "cur = loadServices ord s sal (map sv_id svs)"
  have m: "mset cur = mset svs"
    unfolding cur_def loadServices_def P(2) using ord P(1) by simp
  then have sets: "set cur = set svs" by (rule mset_eq_setD)
  have len: "length cur = length svs" using m by (rule mset_eq_length)
  have pr: "\<forall>sv\<in>set cur. 0 \<le> sv_price sv" using sets P(3) prices by auto
  have dc: "distinct (map sv_id cur)"
  proof -
    have "distinct (map sv_id svs)" using svs P(2) by (auto simp: getServicesOrThrow_def success_simps)
    moreover have "mset (map sv_id cur) = mset (map sv_id svs)" using m by simp
    ultimately show ?thesis using mset_eq_imp_distinct_iff by blast
  qed
  have same: "\<not> list_ex (\<lambda>sv. case find (\<lambda>c. sv_id c = sv_id sv) cur of None \<Rightarrow> True | Some c \<Rightarrow> sv_price sv \<noteq> sv_price c) svs"
    using find_id_eq [OF dc] sets by (auto simp: list_ex_iff)
  have total: "totalDiscount off cur = totalDiscount off svs" if "getOffer s sal i = Some off" for off
    using getOfferD [OF that] ok m pr by (intro totalDiscount_permuted) (auto simp: offers_ok_def)
  have covers: "filter (\<lambda>sv. offer_covers off (sv_id sv)) cur = [] \<longleftrightarrow> filter (\<lambda>sv. offer_covers off (sv_id sv)) svs = []" for off
    using sets by (simp add: filter_empty_conv)
  have eq: "validateOfferForBooking upd s sal c i cur source now True = validateOfferForBooking upd s sal c i svs source now True"
  proof (cases "getOffer s sal i")
    case (Some off)
    then show ?thesis by (simp add: validateOfferForBooking_def total covers)
  qed (simp add: validateOfferForBooking_def)
  show ?thesis
  proof (cases "getOffer s sal i")
    case None
    then show ?thesis
      using src by (simp add: lockAndValidateForBooking_def previewForBooking_def validateOfferForBooking_def guardE_def)
  next
    case (Some off)
    then show ?thesis
      unfolding lockAndValidateForBooking_def previewForBooking_def Let_def cur_def [symmetric]
      using same len by (simp add: assertFoundServiceIds_def eq)
  qed
qed

lemma locked_check_agrees_with_preview_witness:
  "lockAndValidateForBooking (\<lambda>_. 0) rev demo_offer_db 1 7 9 [demo_service] SRC_APP 10
     = Inr \<lparr>ap_offer = 9, ap_title = ''Flat 50'', ap_currency = ''INR'', ap_percent = 0, ap_discount = 5000, ap_updatedAt = 0\<rparr>"
proof -
  have "\<forall>xs::service list. mset (rev xs) = mset xs" by simp
  moreover have "distinct (map sv_id (db_services demo_offer_db))" "\<forall>sv\<in>set (db_services demo_offer_db). 0 \<le> sv_price sv"
    "getServicesOrThrow demo_offer_db 1 [2] = Inr [demo_service]"
    by (simp_all add: demo_offer_db_def demo_defs getServicesOrThrow_def MAX_SERVICES_PER_BOOKING_def)
  ultimately have "lockAndValidateForBooking (\<lambda>_. 0) rev demo_offer_db 1 7 9 [demo_service] SRC_APP 10
      = previewForBooking (\<lambda>_. 0) demo_offer_db 1 7 9 [demo_service] SRC_APP 10"
    using locked_check_agrees_with_preview demo_offers_ok by blast
  then show ?thesis
    by (simp add: previewForBooking_def validateOfferForBooking_def getOffer_def isAudienceEligible_def
        redemption_count_def customer_redemption_count_def totalDiscount_def calculateLines_def offer_covers_def
        demo_offer_db_def demo_defs)
qed

text \<open>A redemption recorded in the transaction that validated it never exceeds the campaign's total
  or per-customer limit, and its discount is positive and at most the price of the selected services.\<close>
theorem redemption_stays_within_limits:
  assumes ok: "offers_ok s" and prices: "\<forall>sv\<in>set (db_services s). 0 \<le> sv_price sv"
    and ord: "\<forall>xs. mset (ord xs) = mset xs"
    and val: "lockAndValidateForBooking upd ord s sal c i svs source now = Inr ap"
    and off: "getOffer s sal i = Some off"
  shows "(case of_maxRedemptions off of None \<Rightarrow> True
       | Some m \<Rightarrow> redemption_count (recordRedemption ap sal c b s) sal i \<le> m)
     \<and> customer_redemption_count (recordRedemption ap sal c b s) sal i c \<le> of_perCustomerLimit off
     \<and> 0 < ap_discount ap \<and> ap_discount ap \<le> sum_list (map sv_price (loadServices ord s sal (map sv_id svs)))
     \<and> of_status off = O_ACTIVE \<and> of_validFrom off \<le> now \<and> now < of_validTo off"
proof -
  define cur where "cur = loadServices ord s sal (map sv_id svs)"
  have v: "validateOfferForBooking upd s sal c i cur source now True = Inr ap"
    using val unfolding lockAndValidateForBooking_def Let_def cur_def by (auto simp: success_simps)
  then obtain d where d: "totalDiscount off cur = Inr d" "0 < d" "ap_discount ap = d" "ap_offer ap = i"
    and st: "of_status off = O_ACTIVE" "\<not> (now < of_validFrom off \<or> now \<ge> of_validTo off)"
    and lim: "case of_maxRedemptions off of None \<Rightarrow> True | Some m \<Rightarrow> redemption_count s sal i < m"
      "customer_redemption_count s sal i c < of_perCustomerLimit off"
    unfolding validateOfferForBooking_def using off by (auto simp: success_simps)
  have "set (ord xs) = set xs" for xs using ord mset_eq_setD by blast
  then have "set cur \<subseteq> set (db_services s)"
    unfolding cur_def loadServices_def by auto
  then have pr: "\<forall>sv\<in>set cur. 0 \<le> sv_price sv" using prices by blast
  obtain ls where ls: "calculateLines off cur = Inr ls" "lines_ok off cur ls"
    using calculateLines_ok [of off cur] pr ok getOfferD [OF off] by (auto simp: offers_ok_def)
  have "d = sum_list (map ol_discount ls)" using d(1) ls(1) by (simp add: totalDiscount_def)
  also have "\<dots> \<le> sum_list (map ol_base ls)"
    by (rule sum_list_mono) (use ls(2) in \<open>simp add: lines_ok_def\<close>)
  also have "\<dots> = sum_list (map sv_price cur)" using ls(2) by (simp add: lines_ok_def)
  finally have "ap_discount ap \<le> sum_list (map sv_price cur)" by (simp add: d(3))
  moreover have "redemption_count (recordRedemption ap sal c b s) sal i = Suc (redemption_count s sal i)"
    "customer_redemption_count (recordRedemption ap sal c b s) sal i c = Suc (customer_redemption_count s sal i c)"
    by (simp_all add: recordRedemption_def redemption_count_def customer_redemption_count_def d(4))
  ultimately show ?thesis using lim st d by (auto simp: cur_def split: option.splits)
qed

lemma redemption_stays_within_limits_witness:
  "\<exists>ap. lockAndValidateForBooking (\<lambda>_. 0) rev demo_offer_db 1 7 9 [demo_service] SRC_APP 10 = Inr ap
     \<and> redemption_count (recordRedemption ap 1 7 50 demo_offer_db) 1 9 \<le> 2
     \<and> customer_redemption_count (recordRedemption ap 1 7 50 demo_offer_db) 1 9 7 \<le> 1"
proof -
  obtain ap where ap: "lockAndValidateForBooking (\<lambda>_. 0) rev demo_offer_db 1 7 9 [demo_service] SRC_APP 10 = Inr ap"
    by (simp add: lockAndValidateForBooking_def loadServices_def assertFoundServiceIds_def
        validateOfferForBooking_def getOffer_def isAudienceEligible_def
        redemption_count_def customer_redemption_count_def totalDiscount_def calculateLines_def offer_covers_def
        demo_offer_db_def demo_defs)
  have "\<forall>xs::service list. mset (rev xs) = mset xs" "\<forall>sv\<in>set (db_services demo_offer_db). 0 \<le> sv_price sv"
    "getOffer demo_offer_db 1 9 = Some (hd (db_offers demo_offer_db))"
    by (simp_all add: demo_offer_db_def demo_defs getOffer_def)
  from redemption_stays_within_limits [OF demo_offers_ok this(2,1) ap this(3), of 50] show ?thesis
    using ap by (simp add: demo_offer_db_def)
qed

end
