(* ===== verification/Queue_Base.thy ===== *)
theory Queue_Base
  imports Access Availability
begin

text \<open>
  The shared internals of the Live Queue
  (\<^verbatim>\<open>apps/backend/src/queue/queue.service.ts\<close>): token numbers, wait estimates, claims on queue
  entries, and the queue joins. Every handler takes the database as its pre-transaction reads saw
  it (\<open>pre\<close>) and the database its transaction runs on (\<open>s\<close>); in a quiet system they are equal,
  under concurrency other transactions lie between them. \<open>now\<close> is the handler's clock.
\<close>

definition EARLY_CHECKIN_WINDOW_MINUTES :: int where "EARLY_CHECKIN_WINDOW_MINUTES = 15"
definition DEFAULT_SERVICE_DURATION_MINUTES :: int where "DEFAULT_SERVICE_DURATION_MINUTES = 30"

definition truthy :: "string option \<Rightarrow> bool" where
  "truthy x = (case x of None \<Rightarrow> False | Some v \<Rightarrow> v \<noteq> [])"

definition upd_entries :: "(entry \<Rightarrow> bool) \<Rightarrow> (entry \<Rightarrow> entry) \<Rightarrow> db \<Rightarrow> db" where
  "upd_entries p f s = s\<lparr>db_entries := upd_where p f (db_entries s)\<rparr>"

section \<open>The services of an appointment\<close>

definition resolveEffectiveBookingServices :: "db \<Rightarrow> booking \<Rightarrow> booking_item list" where
  "resolveEffectiveBookingServices s b =
     (if length (bk_services b) > 0 then bk_services b
      else case find_service s (bk_service b) of
        Some sv \<Rightarrow> [\<lparr>bi_service = bk_service b, bi_name = sv_name sv, bi_duration = sv_duration sv,
                    bi_price = sv_price sv\<rparr>]
      | None \<Rightarrow> [])"

section \<open>Wait estimates\<close>

definition averageRemainingMinutes :: "ms \<Rightarrow> (ms \<times> int) list \<Rightarrow> rat" where
  "averageRemainingMinutes now sessions =
     (if sessions = [] then 0
      else sum_list (map (\<lambda>(startedAt, dur). remainingSessionMinutes (of_int dur)
                            (of_int (now - startedAt) / 60000)) sessions) / of_nat (length sessions))"

definition countReservationBusyQualifiedStaff :: "db \<Rightarrow> id \<Rightarrow> id list \<Rightarrow> id list \<Rightarrow> nat" where
  "countReservationBusyQualifiedStaff s salonId serviceIds busy =
     (if busy = [] then 0
      else count_where (\<lambda>st. qualifiedStaffWhereForServices s salonId serviceIds st \<and> st_id st \<in> set busy)
             (db_staff s))"

definition liveSessions :: "db \<Rightarrow> id \<Rightarrow> session list" where
  "liveSessions s salonId = filter (\<lambda>x. ss_status x = S_ACTIVE \<and> session_in_salon s salonId x) (db_sessions s)"

definition assignedHolds :: "db \<Rightarrow> id \<Rightarrow> entry list" where
  "assignedHolds s salonId =
     filter (\<lambda>e. qe_salon e = salonId \<and> qe_status e = Q_CALLED \<and> qe_staff e \<noteq> None) (db_entries s)"

definition reservedStaffNow :: "ms \<Rightarrow> db \<Rightarrow> id \<Rightarrow> id list" where
  "reservedStaffNow now s salonId =
     map (\<lambda>b. the (bk_preferredStaff b)) (filter (\<lambda>b. bk_salon b = salonId \<and> bk_preferredStaff b \<noteq> None
        \<and> reserving b \<and> bk_slotStart b < now + 1 \<and> bk_slotEnd b > now) (db_bookings s))"

definition entry_booking :: "db \<Rightarrow> entry \<Rightarrow> booking option" where
  "entry_booking s e = (case qe_booking e of None \<Rightarrow> None | Some i \<Rightarrow> find_booking s i)"

definition availableOperationalChairs :: "db \<Rightarrow> id \<Rightarrow> nat" where
  "availableOperationalChairs s salonId =
     count_where (\<lambda>c. ch_salon c = salonId \<and> ch_status c = CHAIR_ACTIVE) (db_chairs s)
     - count_where (\<lambda>m. mo_salon m = salonId \<and> mo_endedAt m = None) (db_manual s)"

text \<open>Servers and mean duration used for one waiting entry: the selected services of its
  appointment, its own service, or the salon-wide default.\<close>

definition entry_servers :: "db \<Rightarrow> id \<Rightarrow> id list \<Rightarrow> entry \<Rightarrow> nat \<times> rat" where
  "entry_servers s salonId busy e =
     (let chairs = availableOperationalChairs s salonId in
      case entry_booking s e of
        Some b \<Rightarrow>
          let effectiveServices = resolveEffectiveBookingServices s b; serviceIds = map bi_service effectiveServices
          in (min (getSlotCapacityForServices s salonId serviceIds
                   - countReservationBusyQualifiedStaff s salonId serviceIds busy) chairs,
              of_int (sum_list (map bi_duration effectiveServices)))
      | None \<Rightarrow>
          (case qe_service e of
             Some sv \<Rightarrow>
               (min (getSlotCapacity s salonId sv - countReservationBusyQualifiedStaff s salonId [sv] busy) chairs,
                of_int (nvl (entry_service_duration s e) DEFAULT_SERVICE_DURATION_MINUTES))
           | None \<Rightarrow>
               (computeSlotCapacity
                  (count_where (\<lambda>st. st_salon st = salonId \<and> st_status st = STAFF_ACTIVE) (db_staff s) - length busy)
                  chairs,
                of_int DEFAULT_SERVICE_DURATION_MINUTES)))"

definition eta_step :: "id \<Rightarrow> id list \<Rightarrow> rat \<Rightarrow> nat \<Rightarrow> entry \<Rightarrow> db \<Rightarrow> db" where
  "eta_step salonId busy activeRemaining peopleAhead e s =
     (let (serverCount, avgServiceDurationMinutes) = entry_servers s salonId busy e;
          eta = estimateWaitMinutes serverCount peopleAhead avgServiceDurationMinutes activeRemaining;
          s1 = upd_entries (\<lambda>r. qe_id r = qe_id e) (\<lambda>r. r\<lparr>qe_estimate := eta\<rparr>) s
      in case qe_customer e of
           Some c \<Rightarrow> if isWaitAlertWorthy (qe_estimate e) eta
                     then emit [WaitAlert salonId c (qe_id e), Notify c ''queue.turn_approaching''] s1 else s1
         | None \<Rightarrow> s1)"

fun eta_loop :: "id \<Rightarrow> id list \<Rightarrow> rat \<Rightarrow> nat \<Rightarrow> entry list \<Rightarrow> db \<Rightarrow> db" where
  "eta_loop salonId busy activeRemaining i [] s = s"
| "eta_loop salonId busy activeRemaining i (e # es) s =
     eta_loop salonId busy activeRemaining (i + 1) es (eta_step salonId busy activeRemaining i e s)"

definition waiting_line :: "db \<Rightarrow> id \<Rightarrow> entry list" where
  "waiting_line s salonId =
     sort_key qe_joinedAt (filter (\<lambda>e. qe_salon e = salonId \<and> qe_status e = Q_WAITING) (db_entries s))"

definition recomputeEtas :: "ms \<Rightarrow> id \<Rightarrow> db \<Rightarrow> db" where
  "recomputeEtas now salonId s =
     (let waiting = waiting_line s salonId in
      if waiting = [] then s
      else let sessions = map (\<lambda>x. (ss_staff x, ss_startedAt x, session_duration s x)) (liveSessions s salonId)
                 @ map (\<lambda>h. (the (qe_staff h), hold_from now h,
                              nvl (entry_service_duration s h) DEFAULT_SERVICE_DURATION_MINUTES))
                     (assignedHolds s salonId);
               activeRemaining = averageRemainingMinutes now (map snd sessions);
               busy = remdups (filter (\<lambda>st. st \<notin> set (map fst sessions)) (reservedStaffNow now s salonId))
           in eta_loop salonId busy activeRemaining 0 waiting s)"

definition computePosition :: "db \<Rightarrow> entry \<Rightarrow> nat" where
  "computePosition s entry =
     count_where (\<lambda>e. qe_salon e = qe_salon entry \<and> qe_status e = Q_WAITING
                      \<and> qe_joinedAt e < qe_joinedAt entry) (db_entries s) + 1"

section \<open>Lookups and claims\<close>

definition getEntryOrThrow :: "db \<Rightarrow> id \<Rightarrow> app_error + entry" where
  "getEntryOrThrow s entryId = theE (find_entry s entryId) QUEUE_ENTRY_NOT_FOUND (\<lambda>e. Inr e)"

definition assertNotAlreadyInQueue :: "db \<Rightarrow> id \<Rightarrow> app_error + unit" where
  "assertNotAlreadyInQueue s customerId =
     guardE (\<not> exists_where (\<lambda>e. qe_customer e = Some customerId \<and> entry_in ACTIVE_ENTRY_STATUSES e) (db_entries s))
       ALREADY_IN_QUEUE (Inr ())"

text \<open>\<open>updateMany\<close> on queue entries followed by the test of its count.\<close>

definition claim_entries :: "(entry \<Rightarrow> bool) \<Rightarrow> (entry \<Rightarrow> entry) \<Rightarrow> app_error \<Rightarrow> db \<Rightarrow> app_error + db" where
  "claim_entries p f err s = guardE (count_where p (db_entries s) \<noteq> 0) err (Inr (upd_entries p f s))"

definition nextTokenNumber :: "zone_db \<Rightarrow> ms \<Rightarrow> db \<Rightarrow> id \<Rightarrow> app_error + int" where
  "nextTokenNumber tz now s salonId =
     bindE (resolveTimeZoneOrThrow tz s salonId) (\<lambda>timeZone.
       theE (zonedDayBounds tz now timeZone) SALON_TIMEZONE_REQUIRED (\<lambda>(_, start, end').
         let today = map qe_token (filter (\<lambda>e. qe_salon e = salonId \<and> start \<le> qe_joinedAt e \<and> qe_joinedAt e < end')
                                     (db_entries s))
         in Inr ((case today of [] \<Rightarrow> 0 | t # ts \<Rightarrow> foldl max t ts) + 1)))"

definition logAdminQueueAction :: "salon_actor \<Rightarrow> id \<Rightarrow> string \<Rightarrow> id \<Rightarrow> event list" where
  "logAdminQueueAction actor userId action entityId =
     (if actor = STAFF_OR_OWNER then [] else [Audit (Some userId) action entityId])"

section \<open>Joining\<close>

text \<open>A row of \<open>queueEntry.create\<close> before the optional columns are filled in.\<close>

definition new_entry :: "id \<Rightarrow> id \<Rightarrow> int \<Rightarrow> ms \<Rightarrow> entry" where
  "new_entry i salonId tok now = \<lparr>qe_id = i, qe_salon = salonId, qe_booking = None, qe_customer = None,
     qe_service = None, qe_source = WALK_IN, qe_token = tok, qe_status = Q_WAITING, qe_staff = None,
     qe_chair = None, qe_contactName = None, qe_contactPhone = None, qe_guestHash = None,
     qe_guestExpires = None, qe_guestPush = None, qe_promptSentAt = None, qe_response = None,
     qe_responseAt = None, qe_createdBy = None, qe_preferredStaff = None, qe_arrivedAt = None,
     qe_joinedAt = now, qe_calledAt = None, qe_assignedAt = None, qe_startedAt = None,
     qe_completedAt = None, qe_estimate = None\<rparr>"

text \<open>The two unique columns of a new row: \<open>bookingId\<close> and \<open>guestAccessHash\<close>.\<close>

definition insert_entry :: "entry \<Rightarrow> app_error \<Rightarrow> db \<Rightarrow> app_error + (db \<times> id)" where
  "insert_entry e dup s =
     guardE (\<not> exists_where (\<lambda>r. (qe_booking e \<noteq> None \<and> qe_booking r = qe_booking e) \<or>
                                (qe_guestHash e \<noteq> None \<and> qe_guestHash r = qe_guestHash e)) (db_entries s)) dup
       (Inr (s\<lparr>db_entries := db_entries s @ [e], db_next := db_next s + 1\<rparr>, qe_id e))"

definition after_queue_change :: "ms \<Rightarrow> id \<Rightarrow> db \<Rightarrow> db" where
  "after_queue_change now salonId s =
     emit [QueueUpdated salonId, AutoAssignTrigger salonId] (recomputeEtas now salonId s)"

definition createArrivalQueueEntry ::
    "zone_db \<Rightarrow> ms \<Rightarrow> db \<Rightarrow> db \<Rightarrow> booking \<Rightarrow> id option \<Rightarrow> app_error + (db \<times> id)" where
  "createArrivalQueueEntry tz now pre s booking customerId =
     guardE (bk_status booking = B_CONFIRMED) INVALID_QUEUE_TRANSITION
    (guardE (\<not> exists_where (\<lambda>e. qe_booking e = Some (bk_id booking)) (db_entries pre)) ALREADY_CHECKED_IN
    (bindE (case customerId of None \<Rightarrow> Inr () | Some c \<Rightarrow> assertNotAlreadyInQueue pre c) (\<lambda>_.
     guardE (\<not> now < bk_slotStart booking - minutes EARLY_CHECKIN_WINDOW_MINUTES) CHECK_IN_TOO_EARLY
    (bindE (nextTokenNumber tz now s (bk_salon booking)) (\<lambda>tokenNumber.
       let e0 = (new_entry (db_next s) (bk_salon booking) tokenNumber now)
                  \<lparr>qe_booking := Some (bk_id booking), qe_customer := customerId,
                   qe_service := Some (bk_service booking), qe_source := APPOINTMENT,
                   qe_arrivedAt := Some now\<rparr>;
           e = (if customerId = None
                then e0\<lparr>qe_contactName := bk_guestName booking, qe_contactPhone := bk_guestPhone booking,
                         qe_preferredStaff := bk_preferredStaff booking\<rparr>
                else e0)
       in bindE (insert_entry e ALREADY_CHECKED_IN s) (\<lambda>(s1, i).
            Inr (after_queue_change now (bk_salon booking) s1, i)))))))"

definition checkIn :: "zone_db \<Rightarrow> ms \<Rightarrow> db \<Rightarrow> db \<Rightarrow> id \<Rightarrow> id \<Rightarrow> app_error + (db \<times> id)" where
  "checkIn tz now pre s customerId bookingId =
     theE (find (\<lambda>b. bk_id b = bookingId \<and> bk_customer b = Some customerId) (db_bookings pre)) BOOKING_NOT_FOUND
       (\<lambda>booking. createArrivalQueueEntry tz now pre s booking (Some customerId))"

definition arriveAsOperator :: "zone_db \<Rightarrow> ms \<Rightarrow> db \<Rightarrow> db \<Rightarrow> id \<Rightarrow> id \<Rightarrow> app_error + (db \<times> id)" where
  "arriveAsOperator tz now pre s userId bookingId =
     theE (find_booking pre bookingId) BOOKING_NOT_FOUND (\<lambda>booking.
       bindE (assertAccessOrAdminAccess pre userId (bk_salon booking)) (\<lambda>_.
         createArrivalQueueEntry tz now pre s booking (bk_customer booking)))"

definition joinWalkIn :: "zone_db \<Rightarrow> ms \<Rightarrow> db \<Rightarrow> db \<Rightarrow> id \<Rightarrow> id \<Rightarrow> id option \<Rightarrow> string option \<Rightarrow> string option
    \<Rightarrow> app_error + (db \<times> id)" where
  "joinWalkIn tz now pre s customerId salonId serviceId contactName phone =
     bindE (getSalonOrThrow pre salonId) (\<lambda>salon.
     bindE (case serviceId of None \<Rightarrow> Inr () | Some i \<Rightarrow> bindE (getServiceOrThrow pre salonId i) (\<lambda>_. Inr ())) (\<lambda>_.
     bindE (assertNotAlreadyInQueue pre customerId) (\<lambda>_.
       let contactPhone = (if truthy phone then phone
                           else case find_user pre customerId of Some u \<Rightarrow> us_phone u | None \<Rightarrow> None)
       in guardE (truthy contactPhone) CONTACT_PHONE_REQUIRED
         (bindE (nextTokenNumber tz now s salonId) (\<lambda>tokenNumber.
            let e = (new_entry (db_next s) salonId tokenNumber now)
                  \<lparr>qe_customer := Some customerId, qe_service := serviceId,
                   qe_contactName := contactName, qe_contactPhone := contactPhone\<rparr>
            in bindE (insert_entry e UNIQUE_VIOLATION s) (\<lambda>(s1, i).
                 Inr (emit [Notify (sa_owner salon) ''owner.walk_in.joined''] (after_queue_change now salonId s1), i)))))))"

definition GUEST_QUEUE_CAPACITY :: nat where "GUEST_QUEUE_CAPACITY = 80"

definition joinGuestWalkIn :: "zone_db \<Rightarrow> ms \<Rightarrow> db \<Rightarrow> db \<Rightarrow> string \<Rightarrow> id \<Rightarrow> id \<Rightarrow> string \<Rightarrow> string
    \<Rightarrow> app_error + (db \<times> id)" where
  "joinGuestWalkIn tz now pre s guestAccessHash salonId serviceId contactName contactPhone =
     bindE (getSalonOrThrow pre salonId) (\<lambda>salon.
     bindE (getServiceOrThrow pre salonId serviceId) (\<lambda>_.
     guardE (\<not> exists_where (\<lambda>e. qe_salon e = salonId \<and> qe_contactPhone e = Some contactPhone
                                 \<and> entry_in ACTIVE_ENTRY_STATUSES e) (db_entries s)) ALREADY_IN_QUEUE
    (guardE (count_where (\<lambda>e. qe_salon e = salonId \<and> entry_in ACTIVE_ENTRY_STATUSES e) (db_entries s)
               < GUEST_QUEUE_CAPACITY) BAD_REQUEST
    (bindE (nextTokenNumber tz now s salonId) (\<lambda>tokenNumber.
       let e = (new_entry (db_next s) salonId tokenNumber now)
                 \<lparr>qe_service := Some serviceId, qe_contactName := Some contactName,
                  qe_contactPhone := Some contactPhone, qe_guestHash := Some guestAccessHash,
                  qe_guestExpires := Some (now + 24 * 60 * 60000)\<rparr>
       in bindE (insert_entry e UNIQUE_VIOLATION s) (\<lambda>(s1, i).
            Inr (emit [Notify (sa_owner salon) ''owner.walk_in.joined''] (after_queue_change now salonId s1), i)))))))"

definition createOperatorEntry :: "zone_db \<Rightarrow> ms \<Rightarrow> db \<Rightarrow> db \<Rightarrow> id \<Rightarrow> id \<Rightarrow> string \<Rightarrow> string option \<Rightarrow> bool
    \<Rightarrow> id option \<Rightarrow> id option \<Rightarrow> app_error + (db \<times> id)" where
  "createOperatorEntry tz now pre s userId salonId name phone contactConsent serviceId preferredStaffId =
     bindE (assertAccessOrAdminAccess pre userId salonId) (\<lambda>actor.
     bindE (getSalonOrThrow pre salonId) (\<lambda>_.
     bindE (case serviceId of None \<Rightarrow> Inr () | Some i \<Rightarrow> bindE (getServiceOrThrow pre salonId i) (\<lambda>_. Inr ())) (\<lambda>_.
     bindE (case preferredStaffId of None \<Rightarrow> Inr ()
            | Some st \<Rightarrow>
                guardE (exists_where (\<lambda>r. st_id r = st \<and> st_salon r = salonId) (db_staff pre)) STAFF_NOT_FOUND
                  (case serviceId of None \<Rightarrow> Inr () | Some i \<Rightarrow> assertStaffQualified pre salonId i st)) (\<lambda>_.
       let contactPhone = (if contactConsent \<and> truthy phone then phone else None) in
       bindE (nextTokenNumber tz now s salonId) (\<lambda>tokenNumber.
       guardE (\<not> exists_where (\<lambda>e. qe_salon e = salonId \<and> qe_customer e = None \<and> qe_source e = WALK_IN
                 \<and> entry_in [Q_WAITING, Q_CALLED] e \<and> map_option upper (qe_contactName e) = Some (upper name)
                 \<and> qe_joinedAt e \<ge> now - 2 * 60000) (db_entries s)) QUEUE_ENTRY_ALREADY_ACTIVE
         (let e = (new_entry (db_next s) salonId tokenNumber now)
               \<lparr>qe_service := serviceId, qe_contactName := Some name, qe_contactPhone := contactPhone,
                qe_arrivedAt := Some now, qe_createdBy := Some userId, qe_preferredStaff := preferredStaffId\<rparr>
          in bindE (insert_entry e UNIQUE_VIOLATION s) (\<lambda>(s1, i).
               Inr (after_queue_change now salonId
                      (emit [Audit (Some userId) ''QUEUE_ENTRY_CREATED_BY_OPERATOR'' i] s1), i))))))))"

end
