(* ===== verification/Queue.thy ===== *)
theory Queue
  imports Queue_Base
begin

text \<open>
  The transitions of a queue entry and its service session: call, arrival, assignment, start,
  reassignment, completion, no-show and the cancellations
  (\<^verbatim>\<open>apps/backend/src/queue/queue.service.ts\<close>), the release of an assignment
  (\<^verbatim>\<open>queue-assignment-release.service.ts\<close>) and chairs occupied by local customers
  (\<^verbatim>\<open>manual-chair-occupancy.service.ts\<close>). As in \<open>Queue_Base\<close>, \<open>pre\<close> is what the handler read
  before its transaction and \<open>s\<close> the database its transaction runs on; \<open>clk\<close> is the later clock
  reading inside the reservation check.
\<close>

section \<open>Phases\<close>

datatype queue_phase = PH_WAITING | PH_CALLED | PH_ASSIGNED | PH_IN_SERVICE | PH_COMPLETED | PH_NO_SHOW
  | PH_CANCELLED | PH_EXPIRED

fun queuePhaseOf :: "entry_status \<Rightarrow> id option \<Rightarrow> queue_phase" where
  "queuePhaseOf Q_WAITING _ = PH_WAITING"
| "queuePhaseOf Q_CALLED assignedStaffId = (if assignedStaffId \<noteq> None then PH_ASSIGNED else PH_CALLED)"
| "queuePhaseOf Q_IN_SERVICE _ = PH_IN_SERVICE"
| "queuePhaseOf Q_COMPLETED _ = PH_COMPLETED"
| "queuePhaseOf Q_NO_SHOW _ = PH_NO_SHOW"
| "queuePhaseOf Q_CANCELLED _ = PH_CANCELLED"
| "queuePhaseOf Q_EXPIRED _ = PH_EXPIRED"

section \<open>Call and arrival\<close>

definition call :: "ms \<Rightarrow> db \<Rightarrow> db \<Rightarrow> id \<Rightarrow> id \<Rightarrow> app_error + db" where
  "call now pre s userId entryId =
     bindE (getEntryOrThrow pre entryId) (\<lambda>entry.
     bindE (assertAccessOrAdminAccess pre userId (qe_salon entry)) (\<lambda>actor.
     bindE (claim_entries (\<lambda>e. qe_id e = entryId \<and> entry_in [Q_WAITING] e)
              (\<lambda>e. e\<lparr>qe_status := Q_CALLED, qe_calledAt := Some now\<rparr>) INVALID_QUEUE_TRANSITION s) (\<lambda>s1.
       Inr (emit [EntryCalled (qe_salon entry) entryId (qe_customer entry), QueueUpdated (qe_salon entry)]
             (recomputeEtas now (qe_salon entry)
               (emit (logAdminQueueAction actor userId ''ADMIN_QUEUE_ENTRY_CALLED'' entryId) s1))))))"

definition markArrived :: "ms \<Rightarrow> db \<Rightarrow> db \<Rightarrow> id \<Rightarrow> id \<Rightarrow> app_error + db" where
  "markArrived now pre s userId entryId =
     bindE (getEntryOrThrow pre entryId) (\<lambda>entry.
     bindE (assertAccessOrAdminAccess pre userId (qe_salon entry)) (\<lambda>actor.
     guardE (entry_in [Q_WAITING, Q_CALLED] entry) INVALID_QUEUE_TRANSITION
       (if qe_arrivedAt entry \<noteq> None then Inr s
        else let claimable = (\<lambda>e. qe_id e = entryId \<and> qe_arrivedAt e = None \<and> entry_in [Q_WAITING, Q_CALLED] e)
             in if count_where claimable (db_entries s) > 0
                then Inr (emit (logAdminQueueAction actor userId ''ADMIN_QUEUE_ENTRY_ARRIVED'' entryId
                            @ [QueueUpdated (qe_salon entry), AutoAssignTrigger (qe_salon entry)])
                          (upd_entries claimable (\<lambda>e. e\<lparr>qe_arrivedAt := Some now\<rparr>) s))
                else guardE (case find_entry s entryId of Some c \<Rightarrow> qe_arrivedAt c \<noteq> None | None \<Rightarrow> False)
                       INVALID_QUEUE_TRANSITION (Inr s))))"

section \<open>Assignment\<close>

definition chair_locally_occupied :: "db \<Rightarrow> id \<Rightarrow> bool" where
  "chair_locally_occupied s chairId = exists_where (\<lambda>m. mo_chair m = chairId \<and> mo_endedAt m = None) (db_manual s)"

text \<open>The partial unique indexes \<open>queue_entries_assigned_staff_hold_key\<close> and
  \<open>queue_entries_assigned_chair_hold_key\<close>; \<open>map_hold_conflict\<close> is the error reported when a write
  would break one of them.\<close>

definition holds_staff :: "entry \<Rightarrow> bool" where
  "holds_staff e = (qe_status e = Q_CALLED \<and> qe_staff e \<noteq> None)"
definition holds_chair :: "entry \<Rightarrow> bool" where
  "holds_chair e = (qe_status e = Q_CALLED \<and> qe_chair e \<noteq> None)"

definition mapHoldConflict :: "db \<Rightarrow> app_error + db" where
  "mapHoldConflict s =
     guardE (uniq_on qe_staff holds_staff (db_entries s)) STAFF_ALREADY_OCCUPIED
       (guardE (uniq_on qe_chair holds_chair (db_entries s)) CHAIR_ALREADY_OCCUPIED (Inr s))"

text \<open>\<open>createActiveSession\<close>: the indexes \<open>service_session_staff_active_uq\<close> and
  \<open>service_session_chair_active_uq\<close> refuse a second active session.\<close>

definition createActiveSession :: "ms \<Rightarrow> id \<Rightarrow> id \<Rightarrow> id \<Rightarrow> id \<Rightarrow> db \<Rightarrow> app_error + db" where
  "createActiveSession now entryId staffId chairId serviceId s =
     guardE (\<not> exists_where (\<lambda>x. ss_status x = S_ACTIVE \<and> ss_staff x = staffId) (db_sessions s)) STAFF_ALREADY_OCCUPIED
    (guardE (\<not> exists_where (\<lambda>x. ss_status x = S_ACTIVE \<and> ss_chair x = chairId) (db_sessions s)) CHAIR_ALREADY_OCCUPIED
      (Inr (s\<lparr>db_sessions := db_sessions s @ [\<lparr>ss_id = db_next s, ss_entry = entryId, ss_staff = staffId,
                ss_chair = chairId, ss_service = serviceId, ss_status = S_ACTIVE, ss_startedAt = now,
                ss_endedAt = None\<rparr>], db_next := db_next s + 1\<rparr>)))"

text \<open>The validation \<open>assignLoaded\<close> does before its transaction: the service, its duration, the
  barber's qualification, the appointment lock and the chair.\<close>

definition assign_checks :: "db \<Rightarrow> entry \<Rightarrow> id option \<Rightarrow> id \<Rightarrow> id \<Rightarrow> app_error + (id \<times> int)" where
  "assign_checks pre entry inputServiceId staffId chairId =
     theE (orElse inputServiceId (qe_service entry)) SERVICE_REQUIRED (\<lambda>serviceId.
     bindE (assertStaffQualified pre (qe_salon entry) serviceId staffId) (\<lambda>_.
     theE (find (\<lambda>sv. sv_id sv = serviceId \<and> sv_salon sv = qe_salon entry) (db_services pre)) SERVICE_NOT_FOUND (\<lambda>service.
       let preferredStaffId = (if qe_source entry = APPOINTMENT
                               then case entry_booking pre entry of Some b \<Rightarrow> bk_preferredStaff b | None \<Rightarrow> None
                               else None)
       in guardE (case preferredStaffId of None \<Rightarrow> True | Some p \<Rightarrow> p = staffId) APPOINTMENT_STAFF_LOCKED
         (theE (find (\<lambda>c. ch_id c = chairId \<and> ch_salon c = qe_salon entry) (db_chairs pre)) CHAIR_NOT_FOUND (\<lambda>chair.
            guardE (ch_status chair = CHAIR_ACTIVE) CHAIR_INACTIVE_ERROR
              (Inr (serviceId, sv_duration service)))))))"

definition assign_claim :: "ms \<Rightarrow> entry \<Rightarrow> id \<Rightarrow> id \<Rightarrow> id \<Rightarrow> bool \<Rightarrow> entry \<Rightarrow> entry" where
  "assign_claim now entry staffId chairId serviceId startService e =
     (if startService
      then e\<lparr>qe_status := Q_IN_SERVICE, qe_startedAt := Some now, qe_staff := Some staffId,
             qe_chair := Some chairId, qe_assignedAt := Some now, qe_service := Some serviceId,
             qe_arrivedAt := (if qe_arrivedAt entry \<noteq> None then qe_arrivedAt e else Some now)\<rparr>
      else e\<lparr>qe_status := Q_CALLED, qe_calledAt := orElse (qe_calledAt entry) (Some now),
             qe_staff := Some staffId, qe_chair := Some chairId, qe_assignedAt := Some now,
             qe_service := Some serviceId\<rparr>)"

definition assign_tx :: "ms \<Rightarrow> ms \<Rightarrow> entry \<Rightarrow> id \<Rightarrow> id \<Rightarrow> id \<Rightarrow> int \<Rightarrow> bool \<Rightarrow> db \<Rightarrow> app_error + db" where
  "assign_tx now clk entry staffId chairId serviceId duration startService s =
     guardE (\<not> chair_locally_occupied s chairId) CHAIR_ALREADY_OCCUPIED
       (let staffCheck = isStaffFreeForInterval clk s (qe_salon entry) staffId now (now + minutes duration)
                           (qe_booking entry) (Some (qe_id entry))
        in guardE (sc_free staffCheck)
             (if sc_reason staffCheck = Some ASSIGNED_CUSTOMER then STAFF_ALREADY_OCCUPIED
              else STAFF_RESERVED_FOR_APPOINTMENT)
          (guardE (\<not> exists_where (\<lambda>e. qe_chair e = Some chairId \<and> qe_status e = Q_CALLED \<and> qe_id e \<noteq> qe_id entry)
                     (db_entries s)) CHAIR_ALREADY_OCCUPIED
          (bindE (mapHoldConflict
                   (upd_entries (\<lambda>e. qe_id e = qe_id entry \<and> entry_in [Q_WAITING, Q_CALLED] e)
                      (assign_claim now entry staffId chairId serviceId startService) s)) (\<lambda>s1.
           guardE (count_where (\<lambda>e. qe_id e = qe_id entry \<and> entry_in [Q_WAITING, Q_CALLED] e) (db_entries s) \<noteq> 0)
             INVALID_QUEUE_TRANSITION
             (if startService then createActiveSession now (qe_id entry) staffId chairId serviceId s1
              else Inr s1)))))"

definition assignLoaded :: "ms \<Rightarrow> ms \<Rightarrow> db \<Rightarrow> db \<Rightarrow> entry \<Rightarrow> id option \<Rightarrow> id \<Rightarrow> id \<Rightarrow> (id \<times> salon_actor) option
    \<Rightarrow> bool \<Rightarrow> app_error + db" where
  "assignLoaded now clk pre s entry inputServiceId staffId chairId by_whom startService =
     bindE (assign_checks pre entry inputServiceId staffId chairId) (\<lambda>(serviceId, duration).
     bindE (assign_tx now clk entry staffId chairId serviceId duration startService s) (\<lambda>s1.
       let s2 = emit (case by_whom of
                   Some (userId, actor) \<Rightarrow> logAdminQueueAction actor userId ''ADMIN_QUEUE_ENTRY_ASSIGNED'' (qe_id entry)
                 | None \<Rightarrow> [Audit None ''QUEUE_ENTRY_AUTO_ASSIGNED'' (qe_id entry)]) s1;
           s3 = emit [QueueUpdated (qe_salon entry)] (recomputeEtas now (qe_salon entry) s2);
           s4 = (if \<not> startService \<and> qe_status entry = Q_WAITING
                 then emit [EntryCalled (qe_salon entry) (qe_id entry) (qe_customer entry)] s3 else s3)
       in Inr (case find_staff s4 staffId of Some st \<Rightarrow> emit [Notify (st_user st) ''staff.assigned''] s4
               | None \<Rightarrow> s4)))"

definition assign :: "ms \<Rightarrow> ms \<Rightarrow> db \<Rightarrow> db \<Rightarrow> id \<Rightarrow> id \<Rightarrow> id option \<Rightarrow> id \<Rightarrow> id \<Rightarrow> bool option \<Rightarrow> app_error + db" where
  "assign now clk pre s userId entryId inputServiceId staffId chairId startService =
     bindE (getEntryOrThrow pre entryId) (\<lambda>entry.
     bindE (assertAccessOrAdminAccess pre userId (qe_salon entry)) (\<lambda>actor.
       assignLoaded now clk pre s entry inputServiceId staffId chairId (Some (userId, actor))
         (startService \<noteq> Some False)))"

definition assignAsSystem :: "ms \<Rightarrow> ms \<Rightarrow> db \<Rightarrow> db \<Rightarrow> id \<Rightarrow> id option \<Rightarrow> id \<Rightarrow> id \<Rightarrow> app_error + db" where
  "assignAsSystem now clk pre s entryId inputServiceId staffId chairId =
     bindE (getEntryOrThrow pre entryId) (\<lambda>entry.
       assignLoaded now clk pre s entry inputServiceId staffId chairId None True)"

section \<open>Start service\<close>

definition start_tx :: "ms \<Rightarrow> ms \<Rightarrow> entry \<Rightarrow> id \<Rightarrow> id \<Rightarrow> id \<Rightarrow> int \<Rightarrow> id \<Rightarrow> db \<Rightarrow> app_error + db" where
  "start_tx now clk entry staffId chairId serviceId duration userId s =
     guardE (\<not> chair_locally_occupied s chairId) CHAIR_ALREADY_OCCUPIED
       (let staffCheck = isStaffFreeForInterval clk s (qe_salon entry) staffId now (now + minutes duration)
                           (qe_booking entry) (Some (qe_id entry))
        in guardE (sc_free staffCheck)
             (if sc_reason staffCheck = Some BOOKING_RESERVATION then STAFF_RESERVED_FOR_APPOINTMENT
              else STAFF_ALREADY_OCCUPIED)
          (bindE (claim_entries (\<lambda>e. qe_id e = qe_id entry \<and> qe_status e = Q_CALLED \<and> qe_staff e = Some staffId
                                     \<and> qe_chair e = Some chairId)
                   (\<lambda>e. e\<lparr>qe_status := Q_IN_SERVICE, qe_startedAt := Some now,
                           qe_arrivedAt := (if qe_arrivedAt entry \<noteq> None then qe_arrivedAt e else Some now)\<rparr>)
                   INVALID_QUEUE_TRANSITION s) (\<lambda>s1.
           bindE (createActiveSession now (qe_id entry) staffId chairId serviceId s1) (\<lambda>s2.
             Inr (emit [Audit (Some userId) ''QUEUE_ENTRY_SERVICE_STARTED'' (qe_id entry)] s2)))))"

definition startService :: "ms \<Rightarrow> ms \<Rightarrow> db \<Rightarrow> db \<Rightarrow> id \<Rightarrow> id \<Rightarrow> app_error + db" where
  "startService now clk pre s userId entryId =
     bindE (getEntryOrThrow pre entryId) (\<lambda>entry.
     bindE (assertAccessOrAdminAccess pre userId (qe_salon entry)) (\<lambda>actor.
       if qe_status entry = Q_IN_SERVICE then Inr s
       else guardE (qe_status entry = Q_CALLED) NOT_ASSIGNED
         (theE (qe_staff entry) NOT_ASSIGNED (\<lambda>assignedStaffId.
          theE (qe_chair entry) NOT_ASSIGNED (\<lambda>assignedChairId.
            let staff = find (\<lambda>r. st_id r = assignedStaffId \<and> st_salon r = qe_salon entry) (db_staff pre)
            in guardE (\<not> (actor = STAFF_OR_OWNER \<and> getActorKind pre userId (qe_salon entry) = Some KIND_STAFF
                          \<and> map_option st_user staff \<noteq> Some userId)) NOT_YOUR_ASSIGNMENT
              (guardE (case staff of None \<Rightarrow> False
                       | Some r \<Rightarrow> st_status r = STAFF_ACTIVE \<and> st_accessRevokedAt r = None) ASSIGNMENT_NOT_STARTABLE
              (theE (qe_service entry) SERVICE_REQUIRED (\<lambda>serviceId.
               bindE (assertStaffQualified pre (qe_salon entry) serviceId assignedStaffId) (\<lambda>_.
               theE (find (\<lambda>sv. sv_id sv = serviceId \<and> sv_salon sv = qe_salon entry) (db_services pre)) SERVICE_NOT_FOUND
                 (\<lambda>service.
               guardE (case find (\<lambda>c. ch_id c = assignedChairId \<and> ch_salon c = qe_salon entry) (db_chairs pre) of
                         Some c \<Rightarrow> ch_status c = CHAIR_ACTIVE | None \<Rightarrow> False) ASSIGNMENT_NOT_STARTABLE
                 (bindE (start_tx now clk entry assignedStaffId assignedChairId serviceId (sv_duration service) userId s)
                   (\<lambda>s1. Inr (emit [QueueUpdated (qe_salon entry)] (recomputeEtas now (qe_salon entry) s1))))))))))))))"

section \<open>Reassignment\<close>

definition reassign_tx :: "ms \<Rightarrow> ms \<Rightarrow> entry \<Rightarrow> session \<Rightarrow> id \<Rightarrow> id \<Rightarrow> int \<Rightarrow> db \<Rightarrow> app_error + db" where
  "reassign_tx now clk entry session staffId chairId duration s =
     guardE (staffId = ss_staff session \<or>
             sc_free (isStaffFreeForInterval clk s (qe_salon entry) staffId now (now + minutes duration)
                        (qe_booking entry) (Some (qe_id entry)))) STAFF_RESERVED_FOR_APPOINTMENT
    (guardE (\<not> chair_locally_occupied s chairId) CHAIR_ALREADY_OCCUPIED
      (let claimable = (\<lambda>x. ss_id x = ss_id session \<and> ss_status x = S_ACTIVE \<and> ss_staff x = ss_staff session
                            \<and> ss_chair x = ss_chair session);
           sessions' = upd_where claimable (\<lambda>x. x\<lparr>ss_staff := staffId, ss_chair := chairId\<rparr>) (db_sessions s)
       in guardE (uniq_on ss_staff (\<lambda>x. ss_status x = S_ACTIVE) sessions') STAFF_ALREADY_OCCUPIED
         (guardE (uniq_on ss_chair (\<lambda>x. ss_status x = S_ACTIVE) sessions') CHAIR_ALREADY_OCCUPIED
         (guardE (count_where claimable (db_sessions s) \<noteq> 0) INVALID_QUEUE_TRANSITION
           (claim_entries (\<lambda>e. qe_id e = qe_id entry \<and> qe_status e = Q_IN_SERVICE \<and> qe_staff e = qe_staff entry
                               \<and> qe_chair e = qe_chair entry)
              (\<lambda>e. e\<lparr>qe_staff := Some staffId, qe_chair := Some chairId\<rparr>) INVALID_QUEUE_TRANSITION
              (s\<lparr>db_sessions := sessions'\<rparr>))))))"

definition reassign :: "ms \<Rightarrow> ms \<Rightarrow> db \<Rightarrow> db \<Rightarrow> id \<Rightarrow> id \<Rightarrow> id option \<Rightarrow> id option \<Rightarrow> app_error + db" where
  "reassign now clk pre s userId entryId inputStaffId inputChairId =
     bindE (getEntryOrThrow pre entryId) (\<lambda>entry.
     bindE (assertAccessOrAdminAccess pre userId (qe_salon entry)) (\<lambda>actor.
     guardE (qe_status entry = Q_IN_SERVICE) INVALID_QUEUE_TRANSITION
    (theE (find (\<lambda>x. ss_entry x = entryId \<and> ss_status x = S_ACTIVE) (db_sessions pre)) SERVICE_SESSION_NOT_FOUND (\<lambda>session.
       let staffId = nvl inputStaffId (ss_staff session); chairId = nvl inputChairId (ss_chair session)
       in bindE (assertStaffQualified pre (qe_salon entry) (ss_service session) staffId) (\<lambda>_.
          theE (find (\<lambda>sv. sv_id sv = ss_service session \<and> sv_salon sv = qe_salon entry) (db_services pre)) SERVICE_NOT_FOUND
            (\<lambda>service.
          theE (find (\<lambda>c. ch_id c = chairId \<and> ch_salon c = qe_salon entry) (db_chairs pre)) CHAIR_NOT_FOUND (\<lambda>chair.
          guardE (ch_status chair = CHAIR_ACTIVE) CHAIR_INACTIVE_ERROR
            (if staffId = ss_staff session \<and> chairId = ss_chair session then Inr s
             else bindE (reassign_tx now clk entry session staffId chairId (sv_duration service) s) (\<lambda>s1.
               Inr (emit (logAdminQueueAction actor userId ''ADMIN_QUEUE_ENTRY_REASSIGNED'' entryId
                          @ [EntryReassigned (qe_salon entry) entryId, QueueUpdated (qe_salon entry)]) s1))))))))))"

section \<open>Completion, no-show and cancellation\<close>

definition complete_tx :: "ms \<Rightarrow> session \<Rightarrow> entry \<Rightarrow> db \<Rightarrow> app_error + db" where
  "complete_tx now session queueEntry s =
     (let claimable = (\<lambda>x. ss_id x = ss_id session \<and> ss_status x = S_ACTIVE) in
      guardE (count_where claimable (db_sessions s) \<noteq> 0) INVALID_QUEUE_TRANSITION
        (let s1 = s\<lparr>db_sessions := upd_where claimable (\<lambda>x. x\<lparr>ss_status := S_COMPLETED, ss_endedAt := Some now\<rparr>)
                                     (db_sessions s)\<rparr>;
             s2 = upd_entries (\<lambda>e. qe_id e = ss_entry session)
                    (\<lambda>e. e\<lparr>qe_status := Q_COMPLETED, qe_completedAt := Some now\<rparr>) s1
         in Inr (case qe_booking queueEntry of
                   None \<Rightarrow> s2
                 | Some b \<Rightarrow> s2\<lparr>db_bookings := upd_where (\<lambda>r. bk_id r = b) (\<lambda>r. r\<lparr>bk_status := B_COMPLETED\<rparr>)
                                                (db_bookings s2)\<rparr>)))"

definition completeSession :: "ms \<Rightarrow> db \<Rightarrow> db \<Rightarrow> id \<Rightarrow> id \<Rightarrow> app_error + db" where
  "completeSession now pre s userId sessionId =
     theE (find_session pre sessionId) SERVICE_SESSION_NOT_FOUND (\<lambda>session.
     theE (find_entry pre (ss_entry session)) SERVICE_SESSION_NOT_FOUND (\<lambda>queueEntry.
     bindE (assertAccessOrAdminAccess pre userId (qe_salon queueEntry)) (\<lambda>actor.
     guardE (\<not> (actor = STAFF_OR_OWNER \<and> getActorKind pre userId (qe_salon queueEntry) = Some KIND_STAFF
                \<and> map_option st_user (find_staff pre (ss_staff session)) \<noteq> Some userId)) NOT_YOUR_SERVICE_SESSION
    (bindE (complete_tx now session queueEntry s) (\<lambda>s1.
       Inr (emit [QueueUpdated (qe_salon queueEntry), AutoAssignTrigger (qe_salon queueEntry)]
             (recomputeEtas now (qe_salon queueEntry)
               (emit (logAdminQueueAction actor userId ''ADMIN_QUEUE_SESSION_COMPLETED'' (ss_entry session)
                      @ [ServiceCompletedHook (qe_salon queueEntry) (ss_entry session) sessionId]) s1))))))))"

definition noShow :: "ms \<Rightarrow> db \<Rightarrow> db \<Rightarrow> id \<Rightarrow> id \<Rightarrow> app_error + db" where
  "noShow now pre s userId entryId =
     bindE (getEntryOrThrow pre entryId) (\<lambda>entry.
     bindE (assertAccessOrAdminAccess pre userId (qe_salon entry)) (\<lambda>actor.
     bindE (claim_entries (\<lambda>e. qe_id e = entryId \<and> entry_in [Q_WAITING, Q_CALLED] e
                               \<and> (qe_status entry = Q_WAITING \<longrightarrow> qe_arrivedAt e = None))
              (\<lambda>e. e\<lparr>qe_status := Q_NO_SHOW\<rparr>) INVALID_QUEUE_TRANSITION s) (\<lambda>s1.
       Inr (after_queue_change now (qe_salon entry)
             (emit (logAdminQueueAction actor userId ''ADMIN_QUEUE_ENTRY_NO_SHOW'' entryId) s1)))))"

definition cancel_staff_tx :: "ms \<Rightarrow> id \<Rightarrow> db \<Rightarrow> app_error + db" where
  "cancel_staff_tx now entryId s =
     bindE (claim_entries (\<lambda>e. qe_id e = entryId \<and> entry_in [Q_WAITING, Q_CALLED, Q_IN_SERVICE] e)
              (\<lambda>e. e\<lparr>qe_status := Q_CANCELLED\<rparr>) INVALID_QUEUE_TRANSITION s) (\<lambda>s1.
       Inr (s1\<lparr>db_sessions := upd_where (\<lambda>x. ss_entry x = entryId \<and> ss_status x = S_ACTIVE)
                 (\<lambda>x. x\<lparr>ss_status := S_CANCELLED, ss_endedAt := Some now\<rparr>) (db_sessions s1)\<rparr>))"

definition cancelByStaff :: "ms \<Rightarrow> db \<Rightarrow> db \<Rightarrow> id \<Rightarrow> id \<Rightarrow> app_error + db" where
  "cancelByStaff now pre s userId entryId =
     bindE (getEntryOrThrow pre entryId) (\<lambda>entry.
     bindE (assertAccessOrAdminAccess pre userId (qe_salon entry)) (\<lambda>actor.
     bindE (cancel_staff_tx now entryId s) (\<lambda>s1.
       Inr (after_queue_change now (qe_salon entry)
             (emit (logAdminQueueAction actor userId ''ADMIN_QUEUE_ENTRY_CANCELLED'' entryId) s1)))))"

definition cancelByCustomer :: "ms \<Rightarrow> db \<Rightarrow> db \<Rightarrow> id \<Rightarrow> id \<Rightarrow> app_error + db" where
  "cancelByCustomer now pre s customerId entryId =
     (let own = (\<lambda>e. qe_id e = entryId \<and> qe_customer e = Some customerId \<and> qe_booking e = None) in
      theE (find own (db_entries pre)) QUEUE_ENTRY_NOT_FOUND (\<lambda>entry.
        if qe_status entry = Q_CANCELLED then Inr s
        else guardE (entry_in [Q_WAITING, Q_CALLED] entry) INVALID_QUEUE_TRANSITION
          (let claimable = (\<lambda>e. own e \<and> entry_in [Q_WAITING, Q_CALLED] e) in
           if count_where claimable (db_entries s) \<noteq> 1
           then guardE (case find own (db_entries s) of Some c \<Rightarrow> qe_status c = Q_CANCELLED | None \<Rightarrow> False)
                  INVALID_QUEUE_TRANSITION (Inr s)
           else Inr (after_queue_change now (qe_salon entry)
                      (upd_entries claimable (\<lambda>e. e\<lparr>qe_status := Q_CANCELLED\<rparr>) s)))))"

section \<open>Guest tickets\<close>

definition is_alnum :: "char \<Rightarrow> bool" where
  "is_alnum c = (let n = (of_char c :: nat) in is_digit c \<or> (65 \<le> n \<and> n \<le> 90) \<or> (97 \<le> n \<and> n \<le> 122))"

definition base64url_char :: "char \<Rightarrow> bool" where
  "base64url_char c = (is_alnum c \<or> c = CHR ''_'' \<or> c = CHR ''-'')"

text \<open>\<open>sha256\<close> (hex digest of \<^verbatim>\<open>node:crypto\<close>) is a parameter.\<close>

definition guestHash :: "(string \<Rightarrow> string) \<Rightarrow> string \<Rightarrow> app_error + string" where
  "guestHash sha256 tok =
     guardE (length tok = 43 \<and> list_all base64url_char tok) QUEUE_ENTRY_NOT_FOUND (Inr (sha256 tok))"

definition guest_owns :: "string \<Rightarrow> ms \<Rightarrow> id \<Rightarrow> entry \<Rightarrow> bool" where
  "guest_owns hash now entryId e \<longleftrightarrow> qe_id e = entryId \<and> qe_guestHash e = Some hash
     \<and> (case qe_guestExpires e of Some t \<Rightarrow> t > now | None \<Rightarrow> False)"

definition getGuestEntry :: "(string \<Rightarrow> string) \<Rightarrow> ms \<Rightarrow> db \<Rightarrow> id \<Rightarrow> string \<Rightarrow> app_error + entry" where
  "getGuestEntry sha256 now s entryId tok =
     bindE (guestHash sha256 tok) (\<lambda>hash.
       theE (find (guest_owns hash now entryId) (db_entries s)) QUEUE_ENTRY_NOT_FOUND (\<lambda>e. Inr e))"

definition expo_push_token :: "string \<Rightarrow> bool" where
  "expo_push_token t =
     list_ex (\<lambda>p. take (length p) t = p \<and>
        (let r = drop (length p) t; body = butlast r
         in r \<noteq> [] \<and> last r = CHR '']'' \<and> 10 \<le> length body \<and> length body \<le> 240 \<and> list_all base64url_char body))
       [''ExpoPushToken['', ''ExponentPushToken['']"

definition registerGuestPush :: "(string \<Rightarrow> string) \<Rightarrow> ms \<Rightarrow> db \<Rightarrow> db \<Rightarrow> id \<Rightarrow> string \<Rightarrow> string \<Rightarrow> app_error + (db \<times> bool)" where
  "registerGuestPush sha256 now pre s entryId tok push =
     guardE (expo_push_token push) BAD_REQUEST
    (bindE (getGuestEntry sha256 now pre entryId tok) (\<lambda>_.
     bindE (guestHash sha256 tok) (\<lambda>hash.
       let claimable = (\<lambda>e. guest_owns hash now entryId e \<and> entry_in [Q_WAITING, Q_CALLED] e)
       in Inr (upd_entries claimable (\<lambda>e. e\<lparr>qe_guestPush := Some push\<rparr>) s,
               count_where claimable (db_entries s) = 1))))"

definition cancelGuestEntry :: "(string \<Rightarrow> string) \<Rightarrow> ms \<Rightarrow> db \<Rightarrow> db \<Rightarrow> id \<Rightarrow> string \<Rightarrow> app_error + db" where
  "cancelGuestEntry sha256 now pre s entryId tok =
     bindE (getGuestEntry sha256 now pre entryId tok) (\<lambda>row.
     bindE (guestHash sha256 tok) (\<lambda>hash.
       let claimable = (\<lambda>e. guest_owns hash now entryId e \<and> qe_booking e = None \<and> entry_in [Q_WAITING, Q_CALLED] e)
       in guardE (count_where claimable (db_entries s) = 1) INVALID_QUEUE_TRANSITION
            (Inr (after_queue_change now (qe_salon row)
                   (upd_entries claimable (\<lambda>e. e\<lparr>qe_status := Q_CANCELLED\<rparr>) s)))))"

definition respondArrival :: "(string \<Rightarrow> string) \<Rightarrow> ms \<Rightarrow> db \<Rightarrow> id \<Rightarrow> bool \<Rightarrow> id option \<Rightarrow> string option \<Rightarrow> app_error + db" where
  "respondArrival sha256 now s entryId choice customerId guestToken =
     bindE (case customerId of
              Some c \<Rightarrow> Inr (\<lambda>e. qe_id e = entryId \<and> qe_customer e = Some c)
            | None \<Rightarrow> bindE (guestHash sha256 (nvl guestToken [])) (\<lambda>hash. Inr (guest_owns hash now entryId))) (\<lambda>own.
       let claimable = (\<lambda>e. own e \<and> entry_in [Q_WAITING, Q_CALLED] e \<and> qe_arrivedAt e = None
                            \<and> qe_promptSentAt e \<noteq> None \<and> qe_responseAt e = None)
       in bindE (if count_where claimable (db_entries s) = 0
                 then theE (find own (db_entries s)) QUEUE_ENTRY_NOT_FOUND (\<lambda>current.
                        guardE (qe_responseAt current \<noteq> None) INVALID_QUEUE_TRANSITION (Inr s))
                 else Inr (upd_entries claimable (\<lambda>e. e\<lparr>qe_response := Some choice, qe_responseAt := Some now\<rparr>) s)) (\<lambda>s1.
            theE (find_entry s1 entryId) QUEUE_ENTRY_NOT_FOUND (\<lambda>row. Inr (emit [QueueUpdated (qe_salon row)] s1))))"

section \<open>Reads\<close>

definition getActiveForCustomer :: "ms \<Rightarrow> db \<Rightarrow> id \<Rightarrow> db \<times> (entry \<times> nat option) option" where
  "getActiveForCustomer now s customerId =
     (case rev (sort_key qe_joinedAt (filter (\<lambda>e. qe_customer e = Some customerId \<and> entry_in ACTIVE_ENTRY_STATUSES e)
                                       (db_entries s))) of
        [] \<Rightarrow> (s, None)
      | existing # _ \<Rightarrow>
          let s1 = (if qe_status existing = Q_WAITING then recomputeEtas now (qe_salon existing) s else s)
          in (s1, map_option (\<lambda>e. (e, if qe_status e = Q_WAITING then Some (computePosition s1 e) else None))
                    (find_entry s1 (qe_id existing))))"

definition getQueueStatus :: "ms \<Rightarrow> db \<Rightarrow> id \<Rightarrow> app_error + (nat \<times> int option \<times> (int \<times> int) option)" where
  "getQueueStatus now s salonId =
     bindE (getSalonOrThrow s salonId) (\<lambda>_.
       let waitingCount = count_where (\<lambda>e. qe_salon e = salonId \<and> qe_status e = Q_WAITING) (db_entries s);
           serverCount = computeSlotCapacity
             (count_where (\<lambda>st. st_salon st = salonId \<and> st_status st = STAFF_ACTIVE) (db_staff s))
             (availableOperationalChairs s salonId);
           durations = map sv_duration (filter (\<lambda>sv. sv_salon sv = salonId \<and> sv_isActive sv) (db_services s));
           avg = (if durations = [] then of_int DEFAULT_SERVICE_DURATION_MINUTES
                  else of_int (sum_list durations) / of_nat (length durations));
           activeRemaining = averageRemainingMinutes now
             (map (\<lambda>x. (ss_startedAt x, session_duration s x)) (liveSessions s salonId));
           eta = estimateWaitMinutes serverCount waitingCount avg activeRemaining
       in Inr (waitingCount, eta, estimateWaitRangeMinutes eta))"

section \<open>Release of assignments\<close>

text \<open>Every row is claimed by a statement of its own; \<open>release\<close> is the whole loop when nothing intervenes.\<close>

definition release_row :: "id \<Rightarrow> id option \<Rightarrow> id option \<Rightarrow> db \<Rightarrow> db \<times> bool" where
  "release_row entryId assignedStaffId actorUserId s =
     (let claimable = (\<lambda>e. qe_id e = entryId \<and> qe_status e = Q_CALLED \<and> qe_staff e = assignedStaffId) in
      if count_where claimable (db_entries s) = 0 then (s, False)
      else (emit [Audit actorUserId ''QUEUE_ASSIGNMENT_RELEASED'' entryId]
              (upd_entries claimable (\<lambda>e. e\<lparr>qe_status := Q_WAITING, qe_staff := None, qe_chair := None,
                                            qe_assignedAt := None, qe_calledAt := None\<rparr>) s), True))"

fun release_loop :: "entry list \<Rightarrow> id option \<Rightarrow> db \<Rightarrow> db \<times> nat" where
  "release_loop [] actorUserId s = (s, 0)"
| "release_loop (r # rows) actorUserId s =
     (let (s1, done) = release_row (qe_id r) (qe_staff r) actorUserId s;
          (s2, n) = release_loop rows actorUserId s1
      in (s2, (if done then 1 else 0) + n))"

definition release :: "id \<Rightarrow> (entry \<Rightarrow> bool) \<Rightarrow> id option \<Rightarrow> db \<Rightarrow> db \<times> nat" where
  "release salonId holder actorUserId s =
     (let held = filter (\<lambda>e. qe_salon e = salonId \<and> qe_status e = Q_CALLED \<and> qe_staff e \<noteq> None \<and> holder e) (db_entries s);
          (s1, released) = release_loop held actorUserId s
      in (if released > 0 then emit [QueueUpdated salonId, AutoAssignTrigger salonId] s1 else s1, released))"

definition releaseForStaff :: "id \<Rightarrow> id \<Rightarrow> id option \<Rightarrow> db \<Rightarrow> db \<times> nat" where
  "releaseForStaff salonId staffId = release salonId (\<lambda>e. qe_staff e = Some staffId)"

definition releaseForChair :: "id \<Rightarrow> id \<Rightarrow> id option \<Rightarrow> db \<Rightarrow> db \<times> nat" where
  "releaseForChair salonId chairId = release salonId (\<lambda>e. qe_chair e = Some chairId)"

section \<open>Chairs taken by local customers\<close>

definition onChairOccupancyChanged :: "ms \<Rightarrow> id \<Rightarrow> db \<Rightarrow> db" where
  "onChairOccupancyChanged now salonId s = after_queue_change now salonId s"

definition occupyLocal :: "ms \<Rightarrow> db \<Rightarrow> db \<Rightarrow> id \<Rightarrow> id \<Rightarrow> id \<Rightarrow> app_error + (db \<times> id)" where
  "occupyLocal now pre s userId salonId chairId =
     bindE (assertAccessOrAdminAccess pre userId salonId) (\<lambda>_.
     theE (find (\<lambda>c. ch_id c = chairId \<and> ch_salon c = salonId) (db_chairs s)) CHAIR_NOT_FOUND (\<lambda>chair.
     guardE (ch_status chair = CHAIR_ACTIVE) CHAIR_INACTIVE_ERROR
    (guardE (\<not> (exists_where (\<lambda>x. ss_chair x = chairId \<and> ss_status x = S_ACTIVE) (db_sessions s)
               \<or> chair_locally_occupied s chairId
               \<or> exists_where (\<lambda>e. qe_chair e = Some chairId \<and> qe_status e = Q_CALLED) (db_entries s)))
       CHAIR_ALREADY_OCCUPIED
       (let created = \<lparr>mo_id = db_next s, mo_salon = salonId, mo_chair = chairId, mo_startedBy = userId,
                       mo_endedBy = None, mo_startedAt = now, mo_endedAt = None\<rparr>
        in Inr (onChairOccupancyChanged now salonId
                  (emit [Audit (Some userId) ''LOCAL_CHAIR_OCCUPIED'' (db_next s)]
                    (s\<lparr>db_manual := db_manual s @ [created], db_next := db_next s + 1\<rparr>)), db_next s)))))"

definition freeLocal :: "ms \<Rightarrow> db \<Rightarrow> db \<Rightarrow> id \<Rightarrow> id \<Rightarrow> id \<Rightarrow> app_error + (db \<times> id option)" where
  "freeLocal now pre s userId salonId chairId =
     bindE (assertAccessOrAdminAccess pre userId salonId) (\<lambda>_.
     theE (find (\<lambda>c. ch_id c = chairId \<and> ch_salon c = salonId) (db_chairs s)) CHAIR_NOT_FOUND (\<lambda>_.
       case find (\<lambda>m. mo_chair m = chairId \<and> mo_salon m = salonId \<and> mo_endedAt m = None) (db_manual s) of
         None \<Rightarrow> Inr (s, None)
       | Some m \<Rightarrow>
           Inr (onChairOccupancyChanged now salonId
                 (emit [Audit (Some userId) ''LOCAL_CHAIR_FREED'' (mo_id m)]
                   (s\<lparr>db_manual := upd_where (\<lambda>r. mo_id r = mo_id m)
                        (\<lambda>r. r\<lparr>mo_endedAt := Some now, mo_endedBy := Some userId\<rparr>) (db_manual s)\<rparr>)), Some (mo_id m))))"

definition freeAllLocal :: "ms \<Rightarrow> db \<Rightarrow> db \<Rightarrow> id \<Rightarrow> id \<Rightarrow> app_error + (db \<times> nat)" where
  "freeAllLocal now pre s userId salonId =
     bindE (assertAccessOrAdminAccess pre userId salonId) (\<lambda>_.
       let active = filter (\<lambda>m. mo_salon m = salonId \<and> mo_endedAt m = None) (db_manual s)
       in if active = [] then Inr (s, 0)
          else Inr (onChairOccupancyChanged now salonId
                 (emit [Audit (Some userId) ''LOCAL_CHAIRS_FREED_BULK'' salonId]
                   (s\<lparr>db_manual := upd_where (\<lambda>r. mo_id r \<in> set (map mo_id active) \<and> mo_endedAt r = None)
                        (\<lambda>r. r\<lparr>mo_endedAt := Some now, mo_endedBy := Some userId\<rparr>) (db_manual s)\<rparr>)),
                 length active))"

end
