(* ===== verification/Seat_Invariant.thy ===== *)
theory Seat_Invariant
  imports Queue
begin

text \<open>
  The invariant of the Live Queue on its two tables: one running service per barber, per chair
  and per entry, one held customer per barber and per chair, and an entry in service exactly when
  an active session of it runs at the barber and chair the entry names. One lemma for each shape
  of write the operations make.
\<close>

definition active :: "session \<Rightarrow> bool" where "active x = (ss_status x = S_ACTIVE)"

definition entry_wf :: "entry \<Rightarrow> bool" where
  "entry_wf e \<longleftrightarrow> (qe_status e = Q_WAITING \<longrightarrow> qe_staff e = None \<and> qe_chair e = None) \<and>
     (qe_status e = Q_CALLED \<longrightarrow> (qe_staff e = None \<longleftrightarrow> qe_chair e = None))"

definition seated_at :: "entry \<Rightarrow> session \<Rightarrow> bool" where
  "seated_at e x \<longleftrightarrow> qe_id e = ss_entry x \<and> qe_status e = Q_IN_SERVICE \<and>
     qe_staff e = Some (ss_staff x) \<and> qe_chair e = Some (ss_chair x)"

definition linked :: "entry list \<Rightarrow> session list \<Rightarrow> bool" where
  "linked es xs \<longleftrightarrow> (\<forall>x\<in>set xs. active x \<longrightarrow> (\<exists>e\<in>set es. seated_at e x)) \<and>
     (\<forall>e\<in>set es. qe_status e = Q_IN_SERVICE \<longrightarrow> (\<exists>x\<in>set xs. active x \<and> ss_entry x = qe_id e))"

definition rows_ok :: "entry list \<Rightarrow> session list \<Rightarrow> nat \<Rightarrow> bool" where
  "rows_ok es xs n \<longleftrightarrow> distinct (map qe_id es) \<and> distinct (map ss_id xs) \<and>
     (\<forall>e\<in>set es. qe_id e < n) \<and> (\<forall>x\<in>set xs. ss_id x < n \<and> ss_entry x < n) \<and>
     (\<forall>e\<in>set es. entry_wf e) \<and>
     uniq_on qe_booking (\<lambda>e. qe_booking e \<noteq> None) es \<and> uniq_on qe_guestHash (\<lambda>e. qe_guestHash e \<noteq> None) es"

definition sessions_ok :: "session list \<Rightarrow> bool" where
  "sessions_ok xs \<longleftrightarrow> uniq_on ss_staff active xs \<and> uniq_on ss_chair active xs \<and> uniq_on ss_entry active xs"

definition holds_ok :: "entry list \<Rightarrow> bool" where
  "holds_ok es \<longleftrightarrow> uniq_on qe_staff holds_staff es \<and> uniq_on qe_chair holds_chair es"

definition seat_ok :: "entry list \<Rightarrow> session list \<Rightarrow> nat \<Rightarrow> bool" where
  "seat_ok es xs n \<longleftrightarrow> rows_ok es xs n \<and> sessions_ok xs \<and> holds_ok es \<and> linked es xs"

definition seat_inv :: "db \<Rightarrow> bool" where
  "seat_inv s = seat_ok (db_entries s) (db_sessions s) (db_next s)"

lemma seat_inv_cong:
  assumes "seat_inv s" "db_entries t = db_entries s" "db_sessions t = db_sessions s" "db_next s \<le> db_next t"
  shows "seat_inv t"
  using assms unfolding seat_inv_def seat_ok_def rows_ok_def by (metis order_less_le_trans)

lemma seat_inv_emit [simp]: "seat_inv (emit es s) = seat_inv s"
  by (simp add: seat_inv_def)

section \<open>Chairs that the shop has occupied by hand\<close>

text \<open>An entry occupies the chair it is called to or served on. A chair that the shop marked as occupied by a local
  customer is nobody else's, and marked once.\<close>

definition occupies :: "entry \<Rightarrow> id \<Rightarrow> bool" where
  "occupies e c \<longleftrightarrow> (qe_status e = Q_CALLED \<or> qe_status e = Q_IN_SERVICE) \<and> qe_chair e = Some c"

definition chairs_inv :: "db \<Rightarrow> bool" where
  "chairs_inv s \<longleftrightarrow> (\<forall>c. chair_locally_occupied s c \<longrightarrow> \<not> exists_where (\<lambda>e. occupies e c) (db_entries s))
     \<and> uniq_on mo_chair (\<lambda>m. mo_endedAt m = None) (db_manual s)"

lemma chairs_inv_cong:
  "chairs_inv s \<Longrightarrow> db_entries t = db_entries s \<Longrightarrow> db_manual t = db_manual s \<Longrightarrow> chairs_inv t"
  by (simp add: chairs_inv_def chair_locally_occupied_def)

lemma chairs_inv_emit [simp]: "chairs_inv (emit es s) = chairs_inv s"
  by (simp add: chairs_inv_def chair_locally_occupied_def)

lemma chairs_inv_upd:
  assumes "chairs_inv s" "db_manual t = db_manual s" "db_entries t = upd_where q f (db_entries s)"
    and "\<And>e c. e \<in> set (db_entries s) \<Longrightarrow> q e \<Longrightarrow> occupies (f e) c \<Longrightarrow> occupies e c \<or> \<not> chair_locally_occupied s c"
  shows "chairs_inv t"
proof -
  have "\<not> exists_where (\<lambda>e. occupies e c) (db_entries t)" if c: "chair_locally_occupied s c" for c
  proof
    assume "exists_where (\<lambda>e. occupies e c) (db_entries t)"
    then obtain e where e: "e \<in> set (db_entries s)" "occupies (if q e then f e else e) c"
      by (auto simp: exists_where_iff assms(3) in_upd_where)
    then have "occupies e c" using assms(4) [of e c] c by (cases "q e") auto
    then show False using assms(1) c e(1) by (auto simp: chairs_inv_def exists_where_iff)
  qed
  then show ?thesis using assms(1,2) by (simp add: chairs_inv_def chair_locally_occupied_def)
qed

lemma chairs_inv_new:
  "chairs_inv s \<Longrightarrow> qe_status e = Q_WAITING \<Longrightarrow> db_entries t = db_entries s @ [e] \<Longrightarrow> db_manual t = db_manual s \<Longrightarrow> chairs_inv t"
  by (simp add: chairs_inv_def chair_locally_occupied_def exists_where_iff occupies_def)

lemma chairs_inv_freed:
  assumes "chairs_inv s" "db_entries t = db_entries s"
    and "db_manual t = upd_where q (\<lambda>m. m\<lparr>mo_endedAt := Some now, mo_endedBy := u\<rparr>) (db_manual s)"
  shows "chairs_inv t"
proof -
  have "chair_locally_occupied s c" if "chair_locally_occupied t c" for c
    using that by (auto simp: chair_locally_occupied_def exists_where_iff assms(3) in_upd_where split: if_splits)
  moreover have "uniq_on mo_chair (\<lambda>m. mo_endedAt m = None) (db_manual t)"
    unfolding assms(3) by (rule uniq_on_upd_shrink) (use assms(1) in \<open>simp_all add: chairs_inv_def\<close>)
  ultimately show ?thesis using assms(1,2) by (simp add: chairs_inv_def)
qed

section \<open>Updates that keep everybody's seat\<close>

text \<open>\<open>keeps_seat e e'\<close>: the row stays itself, and it is in service after exactly when it was
  before, at the same barber and chair.\<close>

definition keeps_seat :: "entry \<Rightarrow> entry \<Rightarrow> bool" where
  "keeps_seat e e' \<longleftrightarrow> qe_id e' = qe_id e \<and> qe_booking e' = qe_booking e \<and> qe_guestHash e' = qe_guestHash e \<and>
     entry_wf e' \<and>
     (qe_status e' = Q_IN_SERVICE \<longleftrightarrow> qe_status e = Q_IN_SERVICE) \<and>
     (qe_status e = Q_IN_SERVICE \<longrightarrow> qe_staff e' = qe_staff e \<and> qe_chair e' = qe_chair e)"

definition keeps_hold :: "entry \<Rightarrow> entry \<Rightarrow> bool" where
  "keeps_hold e e' \<longleftrightarrow> (holds_staff e' \<longrightarrow> holds_staff e \<and> qe_staff e' = qe_staff e) \<and>
     (holds_chair e' \<longrightarrow> holds_chair e \<and> qe_chair e' = qe_chair e)"

lemma rows_ok_upd:
  assumes ok: "rows_ok es xs n"
    and f: "\<And>e. e \<in> set es \<Longrightarrow> q e \<Longrightarrow> qe_id (f e) = qe_id e \<and> qe_booking (f e) = qe_booking e
              \<and> qe_guestHash (f e) = qe_guestHash e \<and> entry_wf (f e)"
  shows "rows_ok (upd_where q f es) xs n"
proof -
  have "map qe_id (upd_where q f es) = map qe_id es"
    by (rule map_upd_where) (simp add: f)
  moreover have "uniq_on qe_booking (\<lambda>e. qe_booking e \<noteq> None) (upd_where q f es)"
    by (rule uniq_on_upd_shrink) (use ok f in \<open>simp_all add: rows_ok_def\<close>)
  moreover have "uniq_on qe_guestHash (\<lambda>e. qe_guestHash e \<noteq> None) (upd_where q f es)"
    by (rule uniq_on_upd_shrink) (use ok f in \<open>simp_all add: rows_ok_def\<close>)
  moreover have "qe_id e < n \<and> entry_wf e" if "e \<in> set (upd_where q f es)" for e
  proof -
    from that obtain r where r: "r \<in> set es" "e = (if q r then f r else r)"
      unfolding in_upd_where by blast
    then show ?thesis
      using ok f [of r] by (cases "q r") (simp_all add: rows_ok_def)
  qed
  ultimately show ?thesis
    using ok by (simp add: rows_ok_def)
qed

lemma linked_upd_keeps:
  assumes ok: "linked es xs" and f: "\<And>e. e \<in> set es \<Longrightarrow> q e \<Longrightarrow> keeps_seat e (f e)"
  shows "linked (upd_where q f es) xs"
  unfolding linked_def
proof (intro conjI ballI impI)
  fix x assume x: "x \<in> set xs" "active x"
  then obtain e where e: "e \<in> set es" "seated_at e x"
    using ok unfolding linked_def by blast
  then have "seated_at (if q e then f e else e) x"
    using f [of e] by (simp add: seated_at_def keeps_seat_def)
  then show "\<exists>e\<in>set (upd_where q f es). seated_at e x"
    using upd_where_memI [OF e(1)] by (rule bexI)
next
  fix e' assume e': "e' \<in> set (upd_where q f es)" "qe_status e' = Q_IN_SERVICE"
  then obtain e where e: "e \<in> set es" "e' = (if q e then f e else e)"
    unfolding in_upd_where by blast
  then have "qe_status e = Q_IN_SERVICE" "qe_id e' = qe_id e"
    using e' f [of e] by (simp_all add: keeps_seat_def split: if_splits)
  then show "\<exists>x\<in>set xs. active x \<and> ss_entry x = qe_id e'"
    using ok e(1) unfolding linked_def by auto
qed

lemma holds_ok_upd_keeps:
  assumes ok: "holds_ok es" and f: "\<And>e. e \<in> set es \<Longrightarrow> q e \<Longrightarrow> keeps_hold e (f e)"
  shows "holds_ok (upd_where q f es)"
proof -
  have "uniq_on qe_staff holds_staff (upd_where q f es)"
    by (rule uniq_on_upd_shrink) (use ok f in \<open>simp_all add: holds_ok_def keeps_hold_def\<close>)
  moreover have "uniq_on qe_chair holds_chair (upd_where q f es)"
    by (rule uniq_on_upd_shrink) (use ok f in \<open>simp_all add: holds_ok_def keeps_hold_def\<close>)
  ultimately show ?thesis by (simp add: holds_ok_def)
qed

lemma seat_ok_wf: "seat_ok es xs n \<Longrightarrow> e \<in> set es \<Longrightarrow> entry_wf e"
  by (simp add: seat_ok_def rows_ok_def)

lemma seat_ok_upd_seat:
  assumes "seat_ok es xs n" and f: "\<And>e. e \<in> set es \<Longrightarrow> q e \<Longrightarrow> entry_wf e \<Longrightarrow> keeps_seat e (f e)"
    and "holds_ok (upd_where q f es)"
  shows "seat_ok (upd_where q f es) xs n"
proof -
  have k: "keeps_seat e (f e)" if "e \<in> set es" "q e" for e
    using f that seat_ok_wf [OF assms(1)] by blast
  have "rows_ok (upd_where q f es) xs n"
    by (rule rows_ok_upd) (use assms(1) k in \<open>simp_all add: seat_ok_def keeps_seat_def\<close>)
  moreover have "linked (upd_where q f es) xs"
    by (rule linked_upd_keeps) (use assms(1) k in \<open>simp_all add: seat_ok_def\<close>)
  ultimately show ?thesis
    using assms(1,3) by (simp add: seat_ok_def)
qed

lemma seat_inv_upd_calm:
  assumes "seat_inv s"
    and f: "\<And>e. q e \<Longrightarrow> entry_wf e \<Longrightarrow> keeps_seat e (f e) \<and> keeps_hold e (f e)"
  shows "seat_inv (upd_entries q f s)"
proof -
  have ok: "seat_ok (db_entries s) (db_sessions s) (db_next s)"
    using assms(1) by (simp add: seat_inv_def)
  have "holds_ok (upd_where q f (db_entries s))"
    by (rule holds_ok_upd_keeps) (use ok f seat_ok_wf [OF ok] in \<open>simp_all add: seat_ok_def\<close>)
  then have "seat_ok (upd_where q f (db_entries s)) (db_sessions s) (db_next s)"
    using ok f by (intro seat_ok_upd_seat) blast+
  then show ?thesis
    by (simp add: seat_inv_def upd_entries_def)
qed

lemma keeps_occupies: "keeps_seat e e' \<Longrightarrow> keeps_hold e e' \<Longrightarrow> occupies e' c \<Longrightarrow> occupies e c"
  by (auto simp: keeps_seat_def keeps_hold_def holds_chair_def occupies_def)

lemma chairs_inv_upd_calm:
  assumes "seat_inv s" "chairs_inv s"
    and "\<And>e. q e \<Longrightarrow> entry_wf e \<Longrightarrow> keeps_seat e (f e) \<and> keeps_hold e (f e)"
  shows "chairs_inv (upd_entries q f s)"
proof (rule chairs_inv_upd [OF assms(2)])
  fix e c assume "e \<in> set (db_entries s)" "q e" "occupies (f e) c"
  then show "occupies e c \<or> \<not> chair_locally_occupied s c"
    using assms(1,3) seat_ok_wf keeps_occupies by (metis seat_inv_def)
qed (simp_all add: upd_entries_def)

section \<open>Wait estimates\<close>

lemma eta_step_inv: "seat_inv s \<Longrightarrow> seat_inv (eta_step sal busy rem i e s)"
proof -
  assume "seat_inv s"
  then have "seat_inv (upd_entries (\<lambda>r. qe_id r = qe_id e) (\<lambda>r. r\<lparr>qe_estimate := v\<rparr>) s)" for v
    by (rule seat_inv_upd_calm)
      (auto simp: keeps_seat_def keeps_hold_def entry_wf_def holds_staff_def holds_chair_def)
  then show ?thesis
    by (simp add: eta_step_def Let_def split: prod.split option.split)
qed

lemma eta_loop_inv: "seat_inv s \<Longrightarrow> seat_inv (eta_loop sal busy rem i es s)"
  by (induction sal busy rem i es s rule: eta_loop.induct) (simp_all add: eta_step_inv)

lemma recomputeEtas_inv: "seat_inv s \<Longrightarrow> seat_inv (recomputeEtas now sal s)"
  by (simp add: recomputeEtas_def Let_def eta_loop_inv)

lemma after_queue_change_inv: "seat_inv s \<Longrightarrow> seat_inv (after_queue_change now sal s)"
  by (simp add: after_queue_change_def recomputeEtas_inv)

lemma eta_loop_chairs: "chairs_inv s \<Longrightarrow> chairs_inv (eta_loop sal busy rem i es s)"
proof (induction sal busy rem i es s rule: eta_loop.induct)
  case (2 sal busy rem i e es s)
  have "chairs_inv (upd_entries (\<lambda>r. qe_id r = qe_id e) (\<lambda>r. r\<lparr>qe_estimate := v\<rparr>) s)" for v
    by (rule chairs_inv_upd [OF "2.prems", where q = "\<lambda>r. qe_id r = qe_id e" and f = "\<lambda>r. r\<lparr>qe_estimate := v\<rparr>"])
      (simp_all add: upd_entries_def occupies_def)
  then have "chairs_inv (eta_step sal busy rem i e s)"
    using "2.prems" by (simp add: eta_step_def Let_def split: prod.split option.split)
  from "2.IH" [OF this] show ?case by simp
qed simp

lemma recomputeEtas_chairs: "chairs_inv s \<Longrightarrow> chairs_inv (recomputeEtas now sal s)"
  by (simp add: recomputeEtas_def Let_def eta_loop_chairs)

lemma after_queue_change_chairs: "chairs_inv s \<Longrightarrow> chairs_inv (after_queue_change now sal s)"
  by (simp add: after_queue_change_def recomputeEtas_chairs)

section \<open>New entries\<close>

lemma seat_inv_insert:
  assumes inv: "seat_inv s" and ins: "insert_entry e dup s = Inr (t, i)"
    and e: "qe_id e = db_next s" "qe_status e = Q_WAITING" "qe_staff e = None" "qe_chair e = None"
  shows "seat_inv t \<and> i = db_next s \<and> db_entries t = db_entries s @ [e]"
proof -
  have t: "t = s\<lparr>db_entries := db_entries s @ [e], db_next := db_next s + 1\<rparr>" and i: "i = qe_id e"
    and new: "\<not> exists_where (\<lambda>r. (qe_booking e \<noteq> None \<and> qe_booking r = qe_booking e) \<or>
        (qe_guestHash e \<noteq> None \<and> qe_guestHash r = qe_guestHash e)) (db_entries s)"
    using ins by (simp_all add: insert_entry_def guardE_def split: if_splits)
  let ?es = "db_entries s" let ?xs = "db_sessions s" let ?n = "db_next s"
  have ok: "seat_ok ?es ?xs ?n" using inv by (simp add: seat_inv_def)
  have lt: "qe_id r < ?n" if "r \<in> set ?es" for r
    using ok that by (simp add: seat_ok_def rows_ok_def)
  have fresh: "qe_id e \<notin> set (map qe_id ?es)"
    using lt e(1) by force
  have new': "(qe_booking e \<noteq> None \<longrightarrow> qe_booking r \<noteq> qe_booking e)
      \<and> (qe_guestHash e \<noteq> None \<longrightarrow> qe_guestHash r \<noteq> qe_guestHash e)" if "r \<in> set ?es" for r
    using new that unfolding exists_where_iff by blast
  have "uniq_on qe_booking (\<lambda>e. qe_booking e \<noteq> None) (?es @ [e])"
    "uniq_on qe_guestHash (\<lambda>e. qe_guestHash e \<noteq> None) (?es @ [e])"
    using ok new' by (simp_all add: uniq_on_snoc seat_ok_def rows_ok_def)
  then have "rows_ok (?es @ [e]) ?xs (?n + 1)"
    using ok fresh e by (auto simp: seat_ok_def rows_ok_def entry_wf_def intro: less_SucI)
  moreover have "holds_ok (?es @ [e])"
    using ok e by (simp add: seat_ok_def holds_ok_def uniq_on_snoc holds_staff_def holds_chair_def)
  moreover have "linked (?es @ [e]) ?xs"
    using ok e by (auto simp: seat_ok_def linked_def)
  ultimately show ?thesis
    using ok by (simp add: t i e(1) seat_inv_def seat_ok_def)
qed

section \<open>Seating: an entry goes into service with a new session\<close>

lemma seat_ok_next_mono: "seat_ok es xs n \<Longrightarrow> n \<le> m \<Longrightarrow> seat_ok es xs m"
  unfolding seat_ok_def rows_ok_def by (meson order_less_le_trans)

lemma linked_same_entry:
  assumes "seat_ok es xs n" "x \<in> set xs" "active x" "e \<in> set es" "qe_id e = ss_entry x"
  shows "seated_at e x"
proof -
  from assms obtain e' where e': "e' \<in> set es" "seated_at e' x"
    unfolding seat_ok_def linked_def by blast
  then have "qe_id e' = qe_id e"
    using assms(5) by (simp add: seated_at_def)
  moreover have "distinct (map qe_id es)"
    using assms(1) by (simp add: seat_ok_def rows_ok_def)
  ultimately show ?thesis
    using distinct_key_eq e' assms(4) by metis
qed

lemma seat_inv_start:
  assumes inv: "seat_inv s"
    and e0: "e0 \<in> set (db_entries s)" "p e0" "qe_status e0 \<noteq> Q_IN_SERVICE"
    and p: "\<And>e. p e \<Longrightarrow> qe_id e = i"
    and f: "\<And>e. p e \<Longrightarrow> qe_id (f e) = qe_id e \<and> qe_booking (f e) = qe_booking e \<and> qe_guestHash (f e) = qe_guestHash e
              \<and> qe_status (f e) = Q_IN_SERVICE \<and> qe_staff (f e) = Some st \<and> qe_chair (f e) = Some ch"
    and cr: "createActiveSession now i st ch sv (upd_entries p f s) = Inr u"
  shows "seat_inv u"
proof -
  let ?es = "db_entries s" let ?xs = "db_sessions s" let ?n = "db_next s"
  let ?es' = "upd_where p f ?es"
  define x0 where "x0 = \<lparr>ss_id = ?n, ss_entry = i, ss_staff = st, ss_chair = ch, ss_service = sv,
      ss_status = S_ACTIVE, ss_startedAt = now, ss_endedAt = None\<rparr>"
  have free: "\<not> exists_where (\<lambda>x. ss_status x = S_ACTIVE \<and> ss_staff x = st) ?xs"
    "\<not> exists_where (\<lambda>x. ss_status x = S_ACTIVE \<and> ss_chair x = ch) ?xs"
    and u: "u = (upd_entries p f s)\<lparr>db_sessions := ?xs @ [x0], db_next := ?n + 1\<rparr>"
    using cr by (simp_all add: createActiveSession_def guardE_def upd_entries_def x0_def split: if_splits)
  have ok: "seat_ok ?es ?xs ?n" using inv by (simp add: seat_inv_def)
  have i: "i < ?n" using ok e0 p [OF e0(2)] by (auto simp: seat_ok_def rows_ok_def)
  have rows: "rows_ok ?es' ?xs ?n"
    by (rule rows_ok_upd) (use ok f in \<open>simp_all add: seat_ok_def entry_wf_def\<close>)
  have no_i: "ss_entry x \<noteq> i" if "x \<in> set ?xs" "active x" for x
  proof
    assume "ss_entry x = i"
    then have "seated_at e0 x"
      using linked_same_entry [OF ok that e0(1)] p [OF e0(2)] by simp
    then show False using e0(3) by (simp add: seated_at_def)
  qed
  have a0: "active x0" "ss_entry x0 = i" "ss_id x0 = ?n" "ss_staff x0 = st" "ss_chair x0 = ch"
    by (simp_all add: x0_def active_def)
  have "ss_id x < ?n" if "x \<in> set ?xs" for x
    using ok that by (simp add: seat_ok_def rows_ok_def)
  then have "?n \<notin> set (map ss_id ?xs)" by force
  then have rows': "rows_ok ?es' (?xs @ [x0]) (?n + 1)"
    using rows i a0 by (auto simp: rows_ok_def intro: less_SucI)
  have fr: "ss_staff x \<noteq> st \<and> ss_chair x \<noteq> ch" if "x \<in> set ?xs" "active x" for x
    using free that unfolding exists_where_iff active_def by blast
  have sess: "sessions_ok (?xs @ [x0])"
    using ok fr no_i a0 by (simp add: seat_ok_def sessions_ok_def uniq_on_snoc)
  have holds: "holds_ok ?es'"
    by (rule holds_ok_upd_keeps)
      (use ok f in \<open>simp_all add: seat_ok_def keeps_hold_def holds_staff_def holds_chair_def\<close>)
  have "linked ?es' (?xs @ [x0])"
    unfolding linked_def
  proof (intro conjI ballI impI)
    fix x assume x: "x \<in> set (?xs @ [x0])" "active x"
    show "\<exists>e\<in>set ?es'. seated_at e x"
    proof (cases "x = x0")
      case True
      have "seated_at (f e0) x" using f [OF e0(2)] p [OF e0(2)] True a0 by (simp add: seated_at_def)
      then show ?thesis using upd_where_memI [OF e0(1), of p f] e0(2) by auto
    next
      case False
      then have xs: "x \<in> set ?xs" using x(1) by simp
      then obtain e where e: "e \<in> set ?es" "seated_at e x"
        using ok x(2) unfolding seat_ok_def linked_def by blast
      then have "\<not> p e" using no_i [OF xs x(2)] p [of e] by (auto simp: seated_at_def)
      then show ?thesis using upd_where_memI [OF e(1), of p f] e(2) by auto
    qed
  next
    fix e' assume e': "e' \<in> set ?es'" "qe_status e' = Q_IN_SERVICE"
    then obtain e where e: "e \<in> set ?es" "e' = (if p e then f e else e)"
      unfolding in_upd_where by blast
    show "\<exists>x\<in>set (?xs @ [x0]). active x \<and> ss_entry x = qe_id e'"
    proof (cases "p e")
      case True
      then have "qe_id e' = i" using e f p by simp
      then show ?thesis using a0 by auto
    next
      case False
      then show ?thesis using ok e e'(2) unfolding seat_ok_def linked_def by auto
    qed
  qed
  then show ?thesis
    using rows' sess holds by (simp add: u seat_inv_def seat_ok_def upd_entries_def)
qed

section \<open>Leaving: an entry and its session end together\<close>

definition gone :: "entry \<Rightarrow> bool" where
  "gone e \<longleftrightarrow> qe_status e \<noteq> Q_WAITING \<and> qe_status e \<noteq> Q_CALLED \<and> qe_status e \<noteq> Q_IN_SERVICE"

lemma seat_inv_finish:
  assumes inv: "seat_inv s"
    and p: "\<And>e. p e \<Longrightarrow> qe_id e = i" "\<And>e. e \<in> set (db_entries s) \<Longrightarrow> qe_id e = i \<Longrightarrow> qe_status e = Q_IN_SERVICE \<Longrightarrow> p e"
    and f: "\<And>e. p e \<Longrightarrow> qe_id (f e) = qe_id e \<and> qe_booking (f e) = qe_booking e \<and> qe_guestHash (f e) = qe_guestHash e
              \<and> gone (f e)"
    and q: "\<And>x. x \<in> set (db_sessions s) \<Longrightarrow> q x \<Longrightarrow> ss_entry x = i"
      "\<And>x. x \<in> set (db_sessions s) \<Longrightarrow> active x \<Longrightarrow> ss_entry x = i \<Longrightarrow> q x"
    and g: "\<And>x. ss_id (g x) = ss_id x \<and> ss_entry (g x) = ss_entry x \<and> \<not> active (g x)"
    and es: "db_entries u = upd_where p f (db_entries s)"
    and xs: "db_sessions u = upd_where q g (db_sessions s)"
    and nx: "db_next u = db_next s"
  shows "seat_inv u"
proof -
  let ?es = "db_entries s" let ?xs = "db_sessions s" let ?n = "db_next s"
  have ok: "seat_ok ?es ?xs ?n" using inv by (simp add: seat_inv_def)
  have "rows_ok (upd_where p f ?es) ?xs ?n"
    by (rule rows_ok_upd) (use ok f in \<open>simp_all add: seat_ok_def entry_wf_def gone_def\<close>)
  moreover have "map ss_id (upd_where q g ?xs) = map ss_id ?xs"
    by (rule map_upd_where) (simp add: g)
  moreover have "ss_id x < ?n \<and> ss_entry x < ?n" if "x \<in> set (upd_where q g ?xs)" for x
  proof -
    from that obtain y where y: "y \<in> set ?xs" "x = (if q y then g y else y)"
      unfolding in_upd_where by blast
    then show ?thesis using ok g [of y] by (cases "q y") (simp_all add: seat_ok_def rows_ok_def)
  qed
  ultimately have rows: "rows_ok (upd_where p f ?es) (upd_where q g ?xs) ?n"
    by (simp add: rows_ok_def)
  have so: "uniq_on k active (upd_where q g ?xs)" if "uniq_on k active ?xs" for k :: "session \<Rightarrow> id"
    by (rule uniq_on_upd_shrink) (use that g in simp_all)
  have sess: "sessions_ok (upd_where q g ?xs)"
    using ok by (simp add: seat_ok_def sessions_ok_def so)
  have holds: "holds_ok (upd_where p f ?es)"
    by (rule holds_ok_upd_keeps)
      (use ok f in \<open>simp_all add: seat_ok_def keeps_hold_def holds_staff_def holds_chair_def gone_def\<close>)
  have "linked (upd_where p f ?es) (upd_where q g ?xs)"
    unfolding linked_def
  proof (intro conjI ballI impI)
    fix x assume "x \<in> set (upd_where q g ?xs)" "active x"
    then obtain y where y: "y \<in> set ?xs" "x = y" "active y" "\<not> q y"
      using g unfolding in_upd_where by (metis (full_types))
    then obtain e where e: "e \<in> set ?es" "seated_at e y"
      using ok unfolding seat_ok_def linked_def by blast
    have "\<not> p e"
      using q(2) [OF y(1,3)] y(4) p(1) [of e] e(2) by (auto simp: seated_at_def)
    then show "\<exists>e\<in>set (upd_where p f ?es). seated_at e x"
      using upd_where_memI [OF e(1), of p f] e(2) y(2) by auto
  next
    fix e' assume e': "e' \<in> set (upd_where p f ?es)" "qe_status e' = Q_IN_SERVICE"
    then obtain e where e: "e \<in> set ?es" "e' = (if p e then f e else e)"
      unfolding in_upd_where by blast
    have np: "\<not> p e" using e'(2) e(2) f [of e] by (auto simp: gone_def)
    then have st: "qe_status e = Q_IN_SERVICE" "e' = e" using e e' by simp_all
    then obtain x where x: "x \<in> set ?xs" "active x" "ss_entry x = qe_id e"
      using ok e(1) unfolding seat_ok_def linked_def by blast
    have "\<not> q x" using q(1) [OF x(1)] x(3) p(2) [OF e(1)] st np by auto
    then show "\<exists>x\<in>set (upd_where q g ?xs). active x \<and> ss_entry x = qe_id e'"
      using upd_where_memI [OF x(1), of q g] x st by auto
  qed
  with rows sess holds show ?thesis
    by (simp add: seat_inv_def es xs nx seat_ok_def)
qed

section \<open>Moving: the entry and its session change seat together\<close>

lemma seat_inv_move:
  assumes inv: "seat_inv s"
    and p: "\<And>e. p e \<Longrightarrow> qe_id e = i \<and> qe_status e = Q_IN_SERVICE" and e0: "e0 \<in> set (db_entries s)" "p e0"
    and f: "\<And>e. p e \<Longrightarrow> qe_id (f e) = qe_id e \<and> qe_booking (f e) = qe_booking e \<and> qe_guestHash (f e) = qe_guestHash e
              \<and> qe_status (f e) = Q_IN_SERVICE \<and> qe_staff (f e) = Some st \<and> qe_chair (f e) = Some ch"
    and q: "\<And>x. x \<in> set (db_sessions s) \<Longrightarrow> q x \<Longrightarrow> ss_entry x = i \<and> active x"
    and x0: "x0 \<in> set (db_sessions s)" "q x0"
    and g: "\<And>x. q x \<Longrightarrow> ss_id (g x) = ss_id x \<and> ss_entry (g x) = ss_entry x \<and> ss_status (g x) = ss_status x
              \<and> ss_staff (g x) = st \<and> ss_chair (g x) = ch"
    and uq: "uniq_on ss_staff active (upd_where q g (db_sessions s))"
      "uniq_on ss_chair active (upd_where q g (db_sessions s))"
    and es: "db_entries u = upd_where p f (db_entries s)"
    and xs: "db_sessions u = upd_where q g (db_sessions s)"
    and nx: "db_next u = db_next s"
  shows "seat_inv u"
proof -
  let ?es = "db_entries s" let ?xs = "db_sessions s" let ?n = "db_next s"
  have ok: "seat_ok ?es ?xs ?n" using inv by (simp add: seat_inv_def)
  have d: "distinct (map qe_id ?es)" and us: "uniq_on ss_entry active ?xs"
    using ok by (simp_all add: seat_ok_def rows_ok_def sessions_ok_def)
  have "rows_ok (upd_where p f ?es) ?xs ?n"
    by (rule rows_ok_upd) (use ok f in \<open>simp_all add: seat_ok_def entry_wf_def\<close>)
  moreover have "map ss_id (upd_where q g ?xs) = map ss_id ?xs"
    by (rule map_upd_where) (simp add: g)
  moreover have "ss_id x < ?n \<and> ss_entry x < ?n" if "x \<in> set (upd_where q g ?xs)" for x
  proof -
    from that obtain y where y: "y \<in> set ?xs" "x = (if q y then g y else y)"
      unfolding in_upd_where by blast
    then show ?thesis using ok g [of y] by (cases "q y") (simp_all add: seat_ok_def rows_ok_def)
  qed
  ultimately have rows: "rows_ok (upd_where p f ?es) (upd_where q g ?xs) ?n"
    by (simp add: rows_ok_def)
  have "uniq_on ss_entry active (upd_where q g ?xs)"
    by (rule uniq_on_upd_shrink) (use us g in \<open>simp_all add: active_def\<close>)
  then have sess: "sessions_ok (upd_where q g ?xs)"
    using uq by (simp add: sessions_ok_def)
  have holds: "holds_ok (upd_where p f ?es)"
    by (rule holds_ok_upd_keeps)
      (use ok f in \<open>simp_all add: seat_ok_def keeps_hold_def holds_staff_def holds_chair_def\<close>)
  have only_e0: "e = e0" if "e \<in> set ?es" "qe_id e = i" for e
    using distinct_key_eq [OF d] that e0 p [OF e0(2)] by metis
  have only_x0: "x = x0" if "x \<in> set ?xs" "active x" "ss_entry x = i" for x
    using uniq_onD [OF us that(1) x0(1) that(2)] q [OF x0] that by simp
  have "linked (upd_where p f ?es) (upd_where q g ?xs)"
    unfolding linked_def
  proof (intro conjI ballI impI)
    fix x' assume x': "x' \<in> set (upd_where q g ?xs)" "active x'"
    then obtain x where x: "x \<in> set ?xs" "x' = (if q x then g x else x)"
      unfolding in_upd_where by blast
    show "\<exists>e\<in>set (upd_where p f ?es). seated_at e x'"
    proof (cases "q x")
      case True
      then have "seated_at (f e0) x'"
        using x q [OF x(1) True] g [OF True] f [OF e0(2)] p [OF e0(2)] by (simp add: seated_at_def)
      then show ?thesis using upd_where_memI [OF e0(1), of p f] e0(2) by auto
    next
      case False
      then have a: "active x" "x' = x" using x x' by simp_all
      then obtain e where e: "e \<in> set ?es" "seated_at e x"
        using ok x(1) unfolding seat_ok_def linked_def by blast
      have "ss_entry x \<noteq> i" using only_x0 [OF x(1) a(1)] False x0(2) by auto
      then have "\<not> p e" using p [of e] e(2) by (auto simp: seated_at_def)
      then show ?thesis using upd_where_memI [OF e(1), of p f] e(2) a(2) by auto
    qed
  next
    fix e' assume e': "e' \<in> set (upd_where p f ?es)" "qe_status e' = Q_IN_SERVICE"
    then obtain e where e: "e \<in> set ?es" "e' = (if p e then f e else e)"
      unfolding in_upd_where by blast
    then have st: "qe_status e = Q_IN_SERVICE" "qe_id e' = qe_id e"
      using e' p [of e] f [of e] by (simp_all split: if_splits)
    then obtain x where x: "x \<in> set ?xs" "active x" "ss_entry x = qe_id e"
      using ok e(1) unfolding seat_ok_def linked_def by blast
    have "active (if q x then g x else x)" "ss_entry (if q x then g x else x) = qe_id e'"
      using x g [of x] st(2) by (simp_all add: active_def)
    then show "\<exists>x\<in>set (upd_where q g ?xs). active x \<and> ss_entry x = qe_id e'"
      using upd_where_memI [OF x(1), of q g] by blast
  qed
  with rows sess holds show ?thesis
    by (simp add: seat_inv_def es xs nx seat_ok_def)
qed

end
