(* ===== verification/Queue_Steps.thy ===== *)
theory Queue_Steps
  imports Seat_Invariant
begin

text \<open>
  What a successful queue handler did: one lemma per handler that opens its guards, and the proof
  that each keeps the seat invariant. Snapshots (\<open>pre\<close>) are arbitrary earlier databases; all that
  is used of them is that rows are never deleted and never change their identity (\<open>history\<close>).
\<close>

section \<open>Rows keep their identity\<close>

definition ekey :: "entry \<Rightarrow> id \<times> id \<times> id option \<times> id option" where
  "ekey e = (qe_id e, qe_salon e, qe_booking e, qe_customer e)"

definition skey :: "session \<Rightarrow> id \<times> id" where
  "skey x = (ss_id x, ss_entry x)"

definition history :: "db \<Rightarrow> db \<Rightarrow> bool" where
  "history pre s \<longleftrightarrow> ekey ` set (db_entries pre) \<subseteq> ekey ` set (db_entries s) \<and>
     skey ` set (db_sessions pre) \<subseteq> skey ` set (db_sessions s)"

lemma history_refl [simp]: "history s s"
  by (simp add: history_def)

lemma history_trans: "history a b \<Longrightarrow> history b c \<Longrightarrow> history a c"
  unfolding history_def using subset_trans by meson

lemma history_emit [simp]: "history a (emit es s) = history a s"
  by (simp add: history_def)

lemma image_upd_where:
  assumes "\<And>r. r \<in> set rs \<Longrightarrow> p r \<Longrightarrow> k (f r) = k r"
  shows "k ` set (upd_where p f rs) = k ` set rs"
  using map_upd_where [of rs p k f] assms by (metis list.set_map)

lemma history_upd_entries:
  assumes "history a s" "\<And>e. p e \<Longrightarrow> ekey (f e) = ekey e"
  shows "history a (upd_entries p f s)"
  using assms by (simp add: history_def upd_entries_def image_upd_where)

lemma history_upd_sessions:
  assumes "history a s" "\<And>x. p x \<Longrightarrow> skey (f x) = skey x"
  shows "history a (s\<lparr>db_sessions := upd_where p f (db_sessions s)\<rparr>)"
  using assms by (simp add: history_def image_upd_where)

lemma history_more:
  assumes "history a s" "set (db_entries s) \<subseteq> set (db_entries t)" "set (db_sessions s) \<subseteq> set (db_sessions t)"
  shows "history a t"
  using assms unfolding history_def by (meson image_mono order_trans)

lemma history_eta_loop: "history a s \<Longrightarrow> history a (eta_loop sal busy rem i es s)"
proof (induction sal busy rem i es s rule: eta_loop.induct)
  case (2 sal busy rem i e es s)
  have "history a (eta_step sal busy rem i e s)"
    using "2.prems" by (simp add: eta_step_def Let_def history_upd_entries ekey_def split: prod.split option.split)
  from "2.IH" [OF this] show ?case by simp
qed simp

lemma history_recompute: "history a s \<Longrightarrow> history a (recomputeEtas now sal s)"
  by (simp add: recomputeEtas_def Let_def history_eta_loop)

lemma history_after: "history a s \<Longrightarrow> history a (after_queue_change now sal s)"
  by (simp add: after_queue_change_def history_recompute)

lemma history_session:
  assumes "history pre s" "seat_inv s" "x \<in> set (db_sessions pre)" "y \<in> set (db_sessions s)" "ss_id y = ss_id x"
  shows "ss_entry y = ss_entry x"
proof -
  from assms(1,3) obtain z where z: "z \<in> set (db_sessions s)" "skey x = skey z"
    unfolding history_def by blast
  have "distinct (map ss_id (db_sessions s))"
    using assms(2) by (simp add: seat_inv_def seat_ok_def rows_ok_def)
  then have "y = z"
    by (rule distinct_key_eq) (use assms(4,5) z in \<open>simp_all add: skey_def\<close>)
  then show ?thesis using z(2) by (simp add: skey_def)
qed

text \<open>\<open>safe_step s t\<close>: the operation kept the invariant, the identity of every row and, on a sound floor, the chairs
  that were occupied by hand.\<close>

definition safe_step :: "db \<Rightarrow> db \<Rightarrow> bool" where
  "safe_step s t \<longleftrightarrow> (seat_inv s \<longrightarrow> seat_inv t) \<and> (seat_inv s \<longrightarrow> chairs_inv s \<longrightarrow> chairs_inv t) \<and> history s t"

lemma safe_refl [simp]: "safe_step s s"
  by (simp add: safe_step_def)

lemma safe_trans: "safe_step a b \<Longrightarrow> safe_step b c \<Longrightarrow> safe_step a c"
  unfolding safe_step_def using history_trans by blast

lemma safe_emit [simp]: "safe_step a (emit es s) = safe_step a s"
  by (simp add: safe_step_def)

lemma safe_recompute: "safe_step a s \<Longrightarrow> safe_step a (recomputeEtas now sal s)"
  by (simp add: safe_step_def recomputeEtas_inv recomputeEtas_chairs history_recompute)

lemma safe_after: "safe_step a s \<Longrightarrow> safe_step a (after_queue_change now sal s)"
  by (simp add: safe_step_def after_queue_change_inv after_queue_change_chairs history_after)

lemmas safe_wrap = safe_recompute safe_after

lemma safe_upd_calm:
  assumes "safe_step a s"
    and "\<And>e. q e \<Longrightarrow> entry_wf e \<Longrightarrow> keeps_seat e (f e) \<and> keeps_hold e (f e)"
    and "\<And>e. q e \<Longrightarrow> ekey (f e) = ekey e"
  shows "safe_step a (upd_entries q f s)"
  using assms seat_inv_upd_calm [of s q f] chairs_inv_upd_calm [of s q f] history_upd_entries [of a s q f]
  unfolding safe_step_def by blast

lemmas seat_simps = keeps_seat_def keeps_hold_def entry_wf_def holds_staff_def holds_chair_def entry_in_def ekey_def

lemma claim_entries_Inr [success_simps]:
  "claim_entries p f err s = Inr t \<longleftrightarrow> (\<exists>e\<in>set (db_entries s). p e) \<and> t = upd_entries p f s"
  unfolding claim_entries_def guardE_Inr count_where_pos by auto

section \<open>Joins\<close>

lemma insert_safe:
  assumes "insert_entry e dup s = Inr (t, i)"
    and "qe_id e = db_next s" "qe_status e = Q_WAITING" "qe_staff e = None" "qe_chair e = None"
  shows "safe_step s t"
proof -
  have "t = s\<lparr>db_entries := db_entries s @ [e], db_next := db_next s + 1\<rparr>"
    using assms(1) by (simp add: insert_entry_def guardE_def split: if_splits)
  then have "history s t" "chairs_inv s \<Longrightarrow> chairs_inv t"
    using chairs_inv_new [of s e t] assms(3) by (auto simp: history_def)
  then show ?thesis
    using seat_inv_insert [OF _ assms] by (simp add: safe_step_def)
qed

lemma createArrivalQueueEntryD:
  assumes "createArrivalQueueEntry tz now pre s b c = Inr (t, i)"
  shows "\<exists>tok e s1. nextTokenNumber tz now s (bk_salon b) = Inr tok \<and> insert_entry e ALREADY_CHECKED_IN s = Inr (s1, i) \<and>
    t = after_queue_change now (bk_salon b) s1 \<and> bk_status b = B_CONFIRMED \<and>
    bk_slotStart b - minutes EARLY_CHECKIN_WINDOW_MINUTES \<le> now \<and>
    qe_id e = db_next s \<and> qe_salon e = bk_salon b \<and> qe_booking e = Some (bk_id b) \<and> qe_customer e = c \<and>
    qe_status e = Q_WAITING \<and> qe_staff e = None \<and> qe_chair e = None \<and> qe_arrivedAt e = Some now \<and> qe_token e = tok
    \<and> qe_joinedAt e = now"
proof -
  define e where "e tok = (let e0 = (new_entry (db_next s) (bk_salon b) tok now)
                  \<lparr>qe_booking := Some (bk_id b), qe_customer := c, qe_service := Some (bk_service b),
                   qe_source := APPOINTMENT, qe_arrivedAt := Some now\<rparr>
     in if c = None then e0\<lparr>qe_contactName := bk_guestName b, qe_contactPhone := bk_guestPhone b,
                         qe_preferredStaff := bk_preferredStaff b\<rparr> else e0)" for tok
  from assms obtain tok s1 where "nextTokenNumber tz now s (bk_salon b) = Inr tok"
    "insert_entry (e tok) ALREADY_CHECKED_IN s = Inr (s1, i)" "t = after_queue_change now (bk_salon b) s1"
    "bk_status b = B_CONFIRMED" "\<not> now < bk_slotStart b - minutes EARLY_CHECKIN_WINDOW_MINUTES"
    by (auto simp: createArrivalQueueEntry_def success_simps Let_def e_def)
  moreover have "qe_id (e tok) = db_next s" "qe_salon (e tok) = bk_salon b" "qe_booking (e tok) = Some (bk_id b)"
    "qe_customer (e tok) = c" "qe_status (e tok) = Q_WAITING" "qe_staff (e tok) = None" "qe_chair (e tok) = None"
    "qe_arrivedAt (e tok) = Some now" "qe_token (e tok) = tok" "qe_joinedAt (e tok) = now"
    by (simp_all add: e_def Let_def new_entry_def)
  ultimately show ?thesis by (metis not_less)
qed

lemma createArrival_safe: "createArrivalQueueEntry tz now pre s b c = Inr (t, i) \<Longrightarrow> safe_step s t"
  by (drule createArrivalQueueEntryD) (auto intro!: safe_wrap intro: insert_safe)

lemma checkIn_safe: "checkIn tz now pre s c b = Inr (t, i) \<Longrightarrow> safe_step s t"
  by (auto simp: checkIn_def success_simps intro: createArrival_safe)

lemma arriveAsOperator_safe: "arriveAsOperator tz now pre s u b = Inr (t, i) \<Longrightarrow> safe_step s t"
  by (auto simp: arriveAsOperator_def success_simps intro: createArrival_safe)

lemma joinWalkIn_safe: "joinWalkIn tz now pre s c sal sv nm ph = Inr (t, i) \<Longrightarrow> safe_step s t"
  by (auto simp: joinWalkIn_def success_simps Let_def new_entry_def intro!: safe_wrap elim!: insert_safe)

lemma joinGuestWalkIn_safe: "joinGuestWalkIn tz now pre s h sal sv nm ph = Inr (t, i) \<Longrightarrow> safe_step s t"
  by (auto simp: joinGuestWalkIn_def success_simps Let_def new_entry_def intro!: safe_wrap elim!: insert_safe)

lemma createOperatorEntry_safe: "createOperatorEntry tz now pre s u sal nm ph cons sv st = Inr (t, i) \<Longrightarrow> safe_step s t"
  by (auto simp: createOperatorEntry_def success_simps Let_def new_entry_def intro!: safe_wrap elim!: insert_safe)

section \<open>Updates of waiting and called entries\<close>

lemma call_safe: "call now pre s u i = Inr t \<Longrightarrow> safe_step s t"
  by (auto simp: call_def success_simps seat_simps intro!: safe_wrap safe_upd_calm)

lemma markArrived_safe: "markArrived now pre s u i = Inr t \<Longrightarrow> safe_step s t"
  by (auto simp: markArrived_def success_simps seat_simps Let_def split: if_splits intro!: safe_wrap safe_upd_calm)

lemma noShow_safe: "noShow now pre s u i = Inr t \<Longrightarrow> safe_step s t"
  by (auto simp: noShow_def success_simps seat_simps intro!: safe_wrap safe_upd_calm)

lemma cancelByCustomer_safe: "cancelByCustomer now pre s c i = Inr t \<Longrightarrow> safe_step s t"
  by (auto simp: cancelByCustomer_def success_simps seat_simps Let_def split: if_splits intro!: safe_wrap safe_upd_calm)

lemma cancelGuestEntry_safe: "cancelGuestEntry sha now pre s i tok = Inr t \<Longrightarrow> safe_step s t"
  by (auto simp: cancelGuestEntry_def success_simps seat_simps Let_def intro!: safe_wrap safe_upd_calm)

lemma registerGuestPush_safe: "registerGuestPush sha now pre s i tok push = Inr (t, b) \<Longrightarrow> safe_step s t"
  by (auto simp: registerGuestPush_def success_simps seat_simps Let_def intro!: safe_upd_calm)

lemma respondArrival_safe: "respondArrival sha now s i choice c tok = Inr t \<Longrightarrow> safe_step s t"
  by (auto simp: respondArrival_def success_simps seat_simps Let_def split: if_splits intro!: safe_upd_calm)

lemma release_row_safe: "safe_step s (fst (release_row i st act s))"
  by (auto simp: release_row_def seat_simps Let_def intro!: safe_upd_calm)

lemma release_loop_safe: "safe_step s (fst (release_loop rows act s))"
proof (induction rows arbitrary: s)
  case (Cons r rows)
  show ?case
    using safe_trans [OF release_row_safe Cons] by (simp add: split_beta)
qed simp

lemma release_safe: "safe_step s (fst (release sal holder act s))"
  using release_loop_safe by (simp add: release_def Let_def split_beta)

text \<open>A chair that no service, no call and no mark occupies may be marked.\<close>

lemma chairs_inv_occupied:
  assumes "seat_inv s" "chairs_inv s" "db_entries t = db_entries s" "db_manual t = db_manual s @ [m]"
    and "\<not> exists_where (\<lambda>x. ss_chair x = mo_chair m \<and> ss_status x = S_ACTIVE) (db_sessions s)"
    and "\<not> chair_locally_occupied s (mo_chair m)"
    and "\<not> exists_where (\<lambda>e. qe_chair e = Some (mo_chair m) \<and> qe_status e = Q_CALLED) (db_entries s)"
  shows "chairs_inv t"
proof -
  have "\<not> occupies e (mo_chair m)" if e: "e \<in> set (db_entries s)" for e
  proof
    assume o: "occupies e (mo_chair m)"
    then have "qe_status e = Q_IN_SERVICE" "qe_chair e = Some (mo_chair m)"
      using assms(7) e by (auto simp: occupies_def exists_where_iff)
    then obtain x where x: "x \<in> set (db_sessions s)" "active x" "ss_entry x = qe_id e"
      using assms(1) e by (auto simp: seat_inv_def seat_ok_def linked_def)
    have "seated_at e x" by (rule linked_same_entry [OF assms(1) [unfolded seat_inv_def] x(1,2) e]) (simp add: x(3))
    then show False using assms(5) x(1,2) \<open>qe_chair e = Some (mo_chair m)\<close> by (auto simp: exists_where_iff seated_at_def active_def)
  qed
  moreover have "chair_locally_occupied t c \<longleftrightarrow> chair_locally_occupied s c \<or> c = mo_chair m \<and> mo_endedAt m = None" for c
    by (auto simp: chair_locally_occupied_def exists_where_iff assms(4))
  ultimately show ?thesis
    using assms(2,3,6) by (auto simp: chairs_inv_def uniq_on_snoc assms(4) chair_locally_occupied_def exists_where_iff)
qed

lemma manual_safe:
  assumes "db_entries t = db_entries s" "db_sessions t = db_sessions s" "db_next s \<le> db_next t"
    and "seat_inv s \<Longrightarrow> chairs_inv s \<Longrightarrow> chairs_inv t"
  shows "safe_step s t"
  using assms seat_inv_cong [of s t] by (simp add: safe_step_def history_def)

lemma occupancy_safe:
  "occupyLocal now pre s u sal ch = Inr (t, i) \<Longrightarrow> safe_step s t"
  "freeLocal now pre s u sal ch = Inr (t, j) \<Longrightarrow> safe_step s t"
  "freeAllLocal now pre s u sal = Inr (t, n) \<Longrightarrow> safe_step s t"
proof -
  have freed: "safe_step s (s\<lparr>db_manual := upd_where q (\<lambda>m. m\<lparr>mo_endedAt := Some now, mo_endedBy := v\<rparr>) (db_manual s)\<rparr>)" for q v
    by (rule manual_safe) (auto elim: chairs_inv_freed)
  show "occupyLocal now pre s u sal ch = Inr (t, i) \<Longrightarrow> safe_step s t"
    by (auto simp: occupyLocal_def onChairOccupancyChanged_def success_simps Let_def
        intro!: safe_wrap manual_safe elim!: chairs_inv_occupied)
  show "freeLocal now pre s u sal ch = Inr (t, j) \<Longrightarrow> safe_step s t"
    using freed by (auto simp: freeLocal_def onChairOccupancyChanged_def success_simps intro!: safe_wrap split: option.splits)
  show "freeAllLocal now pre s u sal = Inr (t, n) \<Longrightarrow> safe_step s t"
    using freed by (auto simp: freeAllLocal_def onChairOccupancyChanged_def success_simps Let_def intro!: safe_wrap split: if_splits)
qed

lemma getActiveForCustomer_safe: "safe_step s (fst (getActiveForCustomer now s c))"
  by (simp add: getActiveForCustomer_def Let_def safe_wrap split: list.split)

section \<open>Assignment and start\<close>

lemma createActiveSession_history: "createActiveSession now i st ch sv s = Inr t \<Longrightarrow> history s t"
  by (auto simp: createActiveSession_def guardE_Inr history_def)

lemma createActiveSession_chairs:
  "createActiveSession now i st ch sv s = Inr t \<Longrightarrow> db_entries t = db_entries s \<and> db_manual t = db_manual s"
  by (auto simp: createActiveSession_def guardE_Inr)

lemma assign_claim_simps [simp]:
  "qe_id (assign_claim now e0 st ch sv b e) = qe_id e"
  "qe_booking (assign_claim now e0 st ch sv b e) = qe_booking e"
  "qe_guestHash (assign_claim now e0 st ch sv b e) = qe_guestHash e"
  "ekey (assign_claim now e0 st ch sv b e) = ekey e"
  "qe_staff (assign_claim now e0 st ch sv b e) = Some st"
  "qe_chair (assign_claim now e0 st ch sv b e) = Some ch"
  "qe_status (assign_claim now e0 st ch sv b e) = (if b then Q_IN_SERVICE else Q_CALLED)"
  by (simp_all add: assign_claim_def ekey_def)

lemma assign_txD:
  assumes "assign_tx now clk entry st ch sv d start s = Inr t"
  defines "p \<equiv> \<lambda>e::entry. qe_id e = qe_id entry \<and> entry_in [Q_WAITING, Q_CALLED] e"
  defines "s1 \<equiv> upd_entries p (assign_claim now entry st ch sv start) s"
  shows "\<not> chair_locally_occupied s ch"
    and "sc_free (isStaffFreeForInterval clk s (qe_salon entry) st now (now + minutes d) (qe_booking entry) (Some (qe_id entry)))"
    and "e \<in> set (db_entries s) \<Longrightarrow> qe_chair e = Some ch \<Longrightarrow> qe_status e = Q_CALLED \<Longrightarrow> qe_id e = qe_id entry"
    and "\<exists>e\<in>set (db_entries s). p e"
    and "uniq_on qe_staff holds_staff (db_entries s1)" "uniq_on qe_chair holds_chair (db_entries s1)"
    and "start \<Longrightarrow> createActiveSession now (qe_id entry) st ch sv s1 = Inr t" "\<not> start \<Longrightarrow> t = s1"
  using assms
  by (auto simp: assign_tx_def mapHoldConflict_def Let_def success_simps count_where_gt exists_where_iff)

lemma assign_tx_safe:
  assumes tx: "assign_tx now clk entry st ch sv d start s = Inr t"
  shows "safe_step s t"
proof -
  define p where "p = (\<lambda>e::entry. qe_id e = qe_id entry \<and> entry_in [Q_WAITING, Q_CALLED] e)"
  define s1 where "s1 = upd_entries p (assign_claim now entry st ch sv start) s"
  note tx' = assign_txD [OF tx, folded p_def s1_def]
  from tx'(4) obtain e0 where e0: "e0 \<in> set (db_entries s)" "p e0" by blast
  have h: "history s s1"
    unfolding s1_def by (rule history_upd_entries) simp_all
  have ch: "chairs_inv s1" if "chairs_inv s"
    by (rule chairs_inv_upd [OF that, where q = p and f = "assign_claim now entry st ch sv start"])
      (use tx'(1) in \<open>auto simp: s1_def upd_entries_def occupies_def\<close>)
  show ?thesis
  proof (cases start)
    case True
    have cr: "createActiveSession now (qe_id entry) st ch sv (upd_entries p (assign_claim now entry st ch sv True) s) = Inr t"
      using tx'(7) True by (simp add: s1_def)
    have "seat_inv t" if "seat_inv s"
      by (rule seat_inv_start [OF that e0 _ _ _ cr]) (use e0(2) in \<open>auto simp: p_def entry_in_def\<close>)
    moreover have "history s t"
      using history_trans [OF h] createActiveSession_history [OF cr] True by (simp add: s1_def)
    moreover have "chairs_inv t" if "chairs_inv s"
      by (rule chairs_inv_cong [OF ch [OF that]]) (use createActiveSession_chairs [OF cr] True in \<open>simp_all add: s1_def\<close>)
    ultimately show ?thesis by (simp add: safe_step_def)
  next
    case False
    then have t: "t = s1" using tx'(8) by (simp add: s1_def)
    have "seat_inv s1" if inv: "seat_inv s"
    proof -
      have "seat_ok (upd_where p (assign_claim now entry st ch sv start) (db_entries s)) (db_sessions s) (db_next s)"
      proof (rule seat_ok_upd_seat)
        show "seat_ok (db_entries s) (db_sessions s) (db_next s)"
          using inv by (simp add: seat_inv_def)
        show "keeps_seat e (assign_claim now entry st ch sv start e)" if "p e" for e
          using that False by (auto simp: keeps_seat_def entry_wf_def p_def entry_in_def)
        show "holds_ok (upd_where p (assign_claim now entry st ch sv start) (db_entries s))"
          using tx'(5,6) by (simp add: holds_ok_def s1_def upd_entries_def)
      qed
      then show ?thesis by (simp add: seat_inv_def s1_def upd_entries_def)
    qed
    then show ?thesis using h t ch by (simp add: safe_step_def)
  qed
qed

lemma assignLoadedD:
  assumes "assignLoaded now clk pre s entry sv st ch who start = Inr t"
  obtains serviceId d s1 where "assign_checks pre entry sv st ch = Inr (serviceId, d)"
    "assign_tx now clk entry st ch serviceId d start s = Inr s1"
    "safe_step s s1 \<Longrightarrow> safe_step s t" "db_sessions t = db_sessions s1"
proof -
  have rs: "db_sessions (recomputeEtas n sal x) = db_sessions x" for n sal x
  proof -
    have "db_sessions (eta_loop sal busy rem i es y) = db_sessions y" for busy rem i es y
      by (induction sal busy rem i es y rule: eta_loop.induct)
        (simp_all add: eta_step_def Let_def upd_entries_def split: prod.split option.split)
    then show ?thesis by (simp add: recomputeEtas_def Let_def)
  qed
  from assms obtain serviceId d s1 where 1: "assign_checks pre entry sv st ch = Inr (serviceId, d)"
    "assign_tx now clk entry st ch serviceId d start s = Inr s1"
    and t: "assignLoaded now clk pre s entry sv st ch who start = Inr t"
    by (auto simp: assignLoaded_def success_simps)
  moreover have "safe_step s s1 \<Longrightarrow> safe_step s t" "db_sessions t = db_sessions s1"
    using t 1 by (auto simp: assignLoaded_def Let_def rs intro!: safe_wrap split: option.splits prod.splits if_splits)
  ultimately show ?thesis using that by blast
qed

lemma assignLoaded_safe: "assignLoaded now clk pre s entry sv st ch who start = Inr t \<Longrightarrow> safe_step s t"
  by (erule assignLoadedD) (blast intro: assign_tx_safe)

lemma assign_safe: "assign now clk pre s u i sv st ch start = Inr t \<Longrightarrow> safe_step s t"
  by (auto simp: assign_def success_simps intro: assignLoaded_safe)

lemma assignAsSystem_safe: "assignAsSystem now clk pre s i sv st ch = Inr t \<Longrightarrow> safe_step s t"
  by (auto simp: assignAsSystem_def success_simps intro: assignLoaded_safe)

lemma start_txD:
  assumes "start_tx now clk entry st ch sv d u s = Inr t"
  defines "p \<equiv> \<lambda>e::entry. qe_id e = qe_id entry \<and> qe_status e = Q_CALLED \<and> qe_staff e = Some st \<and> qe_chair e = Some ch"
  defines "f \<equiv> \<lambda>e::entry. e\<lparr>qe_status := Q_IN_SERVICE, qe_startedAt := Some now,
              qe_arrivedAt := (if qe_arrivedAt entry \<noteq> None then qe_arrivedAt e else Some now)\<rparr>"
  shows "\<not> chair_locally_occupied s ch"
    and "sc_free (isStaffFreeForInterval clk s (qe_salon entry) st now (now + minutes d) (qe_booking entry) (Some (qe_id entry)))"
    and "\<exists>e\<in>set (db_entries s). p e"
    and "\<exists>s2. createActiveSession now (qe_id entry) st ch sv (upd_entries p f s) = Inr s2 \<and>
           t = emit [Audit (Some u) ''QUEUE_ENTRY_SERVICE_STARTED'' (qe_id entry)] s2"
  using assms by (auto simp: start_tx_def Let_def success_simps)

lemma start_tx_safe:
  assumes tx: "start_tx now clk entry st ch sv d u s = Inr t"
  shows "safe_step s t"
proof -
  define p where "p = (\<lambda>e::entry. qe_id e = qe_id entry \<and> qe_status e = Q_CALLED \<and> qe_staff e = Some st \<and> qe_chair e = Some ch)"
  define f where "f = (\<lambda>e::entry. e\<lparr>qe_status := Q_IN_SERVICE, qe_startedAt := Some now,
              qe_arrivedAt := (if qe_arrivedAt entry \<noteq> None then qe_arrivedAt e else Some now)\<rparr>)"
  note tx' = start_txD [OF tx, folded p_def f_def]
  from tx'(3) obtain e0 where e0: "e0 \<in> set (db_entries s)" "p e0" by blast
  from tx'(4) obtain s2 where cr: "createActiveSession now (qe_id entry) st ch sv (upd_entries p f s) = Inr s2"
    and t: "t = emit [Audit (Some u) ''QUEUE_ENTRY_SERVICE_STARTED'' (qe_id entry)] s2" by blast
  have "seat_inv s2" if "seat_inv s"
    by (rule seat_inv_start [OF that e0 _ _ _ cr]) (use e0(2) in \<open>auto simp: p_def f_def\<close>)
  moreover have "history s (upd_entries p f s)"
    by (rule history_upd_entries) (simp_all add: f_def ekey_def)
  then have "history s s2"
    using createActiveSession_history [OF cr] history_trans by blast
  moreover have "chairs_inv s2" if "chairs_inv s"
    by (rule chairs_inv_upd [OF that, where q = p and f = f])
      (use createActiveSession_chairs [OF cr] in \<open>auto simp: upd_entries_def occupies_def p_def f_def\<close>)
  ultimately show ?thesis by (simp add: safe_step_def t)
qed

lemma startServiceD:
  assumes "startService now clk pre s u i = Inr t"
  shows "(t = s \<and> (\<exists>entry. find_entry pre i = Some entry \<and> qe_status entry = Q_IN_SERVICE)) \<or>
    (\<exists>entry st ch sv d s1. find_entry pre i = Some entry \<and> qe_status entry = Q_CALLED \<and> qe_staff entry = Some st \<and>
       qe_chair entry = Some ch \<and> qe_service entry = Some sv \<and>
       start_tx now clk entry st ch sv d u s = Inr s1 \<and>
       t = emit [QueueUpdated (qe_salon entry)] (recomputeEtas now (qe_salon entry) s1))"
proof -
  from assms obtain entry where e: "find_entry pre i = Some entry"
    by (auto simp: startService_def getEntryOrThrow_def success_simps)
  show ?thesis
  proof (cases "qe_status entry = Q_IN_SERVICE")
    case True
    then show ?thesis
      using assms e by (simp add: startService_def getEntryOrThrow_def success_simps)
  next
    case False
    then show ?thesis
      using assms e by (auto simp: startService_def getEntryOrThrow_def success_simps Let_def) blast+
  qed
qed

lemma startService_safe: "startService now clk pre s u i = Inr t \<Longrightarrow> safe_step s t"
  by (drule startServiceD) (auto intro!: safe_wrap intro: start_tx_safe)

section \<open>Reassignment, completion and cancellation by staff\<close>

lemma reassign_tx_safe:
  assumes tx: "reassign_tx now clk entry session st ch d s = Inr t"
    and pre: "history pre s" "session \<in> set (db_sessions pre)" "ss_entry session = qe_id entry"
  shows "safe_step s t"
proof -
  define q where "q = (\<lambda>x::session. ss_id x = ss_id session \<and> ss_status x = S_ACTIVE \<and> ss_staff x = ss_staff session
                            \<and> ss_chair x = ss_chair session)"
  define g where "g = (\<lambda>x::session. x\<lparr>ss_staff := st, ss_chair := ch\<rparr>)"
  define p where "p = (\<lambda>e::entry. qe_id e = qe_id entry \<and> qe_status e = Q_IN_SERVICE \<and> qe_staff e = qe_staff entry
                               \<and> qe_chair e = qe_chair entry)"
  define f where "f = (\<lambda>e::entry. e\<lparr>qe_staff := Some st, qe_chair := Some ch\<rparr>)"
  let ?xs = "upd_where q g (db_sessions s)"
  have uq: "uniq_on ss_staff active ?xs" "uniq_on ss_chair active ?xs"
    and cnt: "\<exists>x\<in>set (db_sessions s). q x"
    and claim: "(\<exists>e\<in>set (db_entries s). p e) \<and> t = upd_entries p f (s\<lparr>db_sessions := ?xs\<rparr>)"
    and local_free: "\<not> chair_locally_occupied s ch"
    using tx by (simp_all add: reassign_tx_def Let_def success_simps count_where_gt active_def [abs_def] q_def g_def p_def f_def)
  from cnt obtain x0 where x0: "x0 \<in> set (db_sessions s)" "q x0" by blast
  from claim obtain e0 where e0: "e0 \<in> set (db_entries s)" "p e0" by blast
  have "seat_inv t" if inv: "seat_inv s"
  proof (rule seat_inv_move [where p = p and q = q and f = f and g = g and i = "qe_id entry", OF inv _ e0 _ _ x0 _ uq])
    fix x assume x: "x \<in> set (db_sessions s)" "q x"
    show "ss_entry x = qe_id entry \<and> active x"
      using history_session [OF pre(1) inv pre(2) x(1)] x(2) pre(3) by (simp add: q_def active_def)
  qed (use claim in \<open>simp_all add: p_def f_def g_def upd_entries_def\<close>)
  moreover have "history s (s\<lparr>db_sessions := ?xs\<rparr>)"
    by (rule history_upd_sessions) (simp_all add: g_def skey_def)
  then have "history s t"
    using claim by (simp add: history_upd_entries f_def ekey_def)
  moreover have "chairs_inv t" if "chairs_inv s"
    by (rule chairs_inv_upd [OF that, where q = p and f = f])
      (use claim local_free in \<open>auto simp: upd_entries_def occupies_def f_def\<close>)
  ultimately show ?thesis by (simp add: safe_step_def)
qed

lemma reassignD:
  assumes "reassign now clk pre s u i st' ch' = Inr t"
  shows "t = s \<or> (\<exists>entry x st ch d s1 act. find_entry pre i = Some entry \<and>
    find (\<lambda>x. ss_entry x = i \<and> ss_status x = S_ACTIVE) (db_sessions pre) = Some x \<and>
    st = nvl st' (ss_staff x) \<and> ch = nvl ch' (ss_chair x) \<and>
    reassign_tx now clk entry x st ch d s = Inr s1 \<and>
    t = emit (logAdminQueueAction act u ''ADMIN_QUEUE_ENTRY_REASSIGNED'' i
                @ [EntryReassigned (qe_salon entry) i, QueueUpdated (qe_salon entry)]) s1)"
  using assms
  by (auto simp: reassign_def getEntryOrThrow_def success_simps Let_def split: if_splits)

lemma reassign_safe:
  assumes "reassign now clk pre s u i st' ch' = Inr t" "history pre s"
  shows "safe_step s t"
proof -
  from reassignD [OF assms(1)] show ?thesis
  proof (elim disjE exE conjE)
    fix entry x st ch d s1 act
    assume e: "find_entry pre i = Some entry"
      and x: "find (\<lambda>x. ss_entry x = i \<and> ss_status x = S_ACTIVE) (db_sessions pre) = Some x"
      and tx: "reassign_tx now clk entry x st ch d s = Inr s1"
      and t: "t = emit (logAdminQueueAction act u ''ADMIN_QUEUE_ENTRY_REASSIGNED'' i
                @ [EntryReassigned (qe_salon entry) i, QueueUpdated (qe_salon entry)]) s1"
    have "x \<in> set (db_sessions pre)" "ss_entry x = qe_id entry"
      using find_SomeD [OF x] find_rowD(7) [OF e] by simp_all
    from reassign_tx_safe [OF tx assms(2) this] show ?thesis by (simp add: t)
  qed simp
qed

lemma complete_txD:
  assumes "complete_tx now x qe s = Inr t"
  shows "\<exists>y\<in>set (db_sessions s). ss_id y = ss_id x \<and> ss_status y = S_ACTIVE"
    and "db_sessions t = upd_where (\<lambda>y. ss_id y = ss_id x \<and> ss_status y = S_ACTIVE)
           (\<lambda>y. y\<lparr>ss_status := S_COMPLETED, ss_endedAt := Some now\<rparr>) (db_sessions s)"
    and "db_entries t = upd_where (\<lambda>e. qe_id e = ss_entry x)
           (\<lambda>e. e\<lparr>qe_status := Q_COMPLETED, qe_completedAt := Some now\<rparr>) (db_entries s)"
    and "db_next t = db_next s"
    and "db_manual t = db_manual s"
    and "db_bookings t = (case qe_booking qe of None \<Rightarrow> db_bookings s
           | Some b \<Rightarrow> upd_where (\<lambda>r. bk_id r = b) (\<lambda>r. r\<lparr>bk_status := B_COMPLETED\<rparr>) (db_bookings s))"
  using assms
  by (auto simp: complete_tx_def Let_def success_simps count_where_gt upd_entries_def split: option.splits)

lemma complete_tx_safe:
  assumes tx: "complete_tx now x qe s = Inr t" and pre: "history pre s" "x \<in> set (db_sessions pre)"
  shows "safe_step s t"
proof -
  note d = complete_txD [OF tx]
  from d(1) obtain y0 where y0: "y0 \<in> set (db_sessions s)" "ss_id y0 = ss_id x" "active y0"
    by (auto simp: active_def)
  have "seat_inv t" if inv: "seat_inv s"
  proof -
    have ent: "ss_entry y = ss_entry x" if "y \<in> set (db_sessions s)" "ss_id y = ss_id x" for y
      by (rule history_session [OF pre(1) inv pre(2) that])
    have us: "uniq_on ss_entry active (db_sessions s)"
      using inv by (simp add: seat_inv_def seat_ok_def sessions_ok_def)
    have one: "ss_id y = ss_id x" if "y \<in> set (db_sessions s)" "active y" "ss_entry y = ss_entry x" for y
      using uniq_onD [OF us that(1) y0(1) that(2) y0(3)] that(3) ent [OF y0(1,2)] y0(2) by simp
    show ?thesis
      by (rule seat_inv_finish [OF inv _ _ _ _ _ _ d(3,2,4), where i = "ss_entry x"])
        (use ent one in \<open>auto simp: gone_def active_def\<close>)
  qed
  moreover have "history s t"
    by (simp add: history_def d(2,3) image_upd_where skey_def ekey_def)
  moreover have "chairs_inv t" if "chairs_inv s"
    by (rule chairs_inv_upd [OF that d(5,3)]) (simp add: occupies_def)
  ultimately show ?thesis by (simp add: safe_step_def)
qed

lemma completeSessionD:
  assumes "completeSession now pre s u k = Inr t"
  shows "\<exists>x qe s1 es act. find_session pre k = Some x \<and> find_entry pre (ss_entry x) = Some qe \<and>
    complete_tx now x qe s = Inr s1 \<and> assertAccessOrAdminAccess pre u (qe_salon qe) = Inr act \<and>
    \<not> (act = STAFF_OR_OWNER \<and> getActorKind pre u (qe_salon qe) = Some KIND_STAFF
        \<and> map_option st_user (find_staff pre (ss_staff x)) \<noteq> Some u) \<and>
    t = emit [QueueUpdated (qe_salon qe), AutoAssignTrigger (qe_salon qe)]
          (recomputeEtas now (qe_salon qe) (emit es s1))"
  using assms by (auto simp: completeSession_def success_simps)

lemma completeSession_safe:
  assumes "completeSession now pre s u k = Inr t" "history pre s"
  shows "safe_step s t"
  using completeSessionD [OF assms(1)] complete_tx_safe [OF _ assms(2)] find_rowD(8)
  by (auto intro!: safe_wrap)

lemma cancelByStaff_safe:
  assumes "cancelByStaff now pre s u i = Inr t"
  shows "safe_step s t"
proof -
  from assms obtain entry :: entry and act s1 where tx: "cancel_staff_tx now i s = Inr s1"
    and t: "t = after_queue_change now (qe_salon entry)
              (emit (logAdminQueueAction act u ''ADMIN_QUEUE_ENTRY_CANCELLED'' i) s1)"
    by (auto simp: cancelByStaff_def success_simps)
  define p where "p = (\<lambda>e::entry. qe_id e = i \<and> entry_in [Q_WAITING, Q_CALLED, Q_IN_SERVICE] e)"
  define q where "q = (\<lambda>x::session. ss_entry x = i \<and> ss_status x = S_ACTIVE)"
  have s1: "db_entries s1 = upd_where p (\<lambda>e. e\<lparr>qe_status := Q_CANCELLED\<rparr>) (db_entries s)"
    "db_sessions s1 = upd_where q (\<lambda>x. x\<lparr>ss_status := S_CANCELLED, ss_endedAt := Some now\<rparr>) (db_sessions s)"
    "db_next s1 = db_next s" and m1: "db_manual s1 = db_manual s"
    using tx by (auto simp: cancel_staff_tx_def success_simps upd_entries_def p_def q_def)
  have "seat_inv s1" if "seat_inv s"
    by (rule seat_inv_finish [OF that _ _ _ _ _ _ s1, where i = i])
      (auto simp: gone_def active_def p_def q_def entry_in_def)
  moreover have "history s s1"
    by (simp add: history_def s1 image_upd_where skey_def ekey_def)
  moreover have "chairs_inv s1" if "chairs_inv s"
    by (rule chairs_inv_upd [OF that m1 s1(1)]) (simp add: occupies_def)
  ultimately show ?thesis by (simp add: t safe_step_def after_queue_change_inv after_queue_change_chairs history_after)
qed

end
