(* ===== verification/Bookings.thy ===== *)
theory Bookings
  imports Credits Offers Queue_Steps
begin

text \<open>
  Appointments (\<^verbatim>\<open>apps/backend/src/bookings/bookings.service.ts\<close>, with the effective policy
  of \<^verbatim>\<open>cancellation-policy.service.ts\<close>): creation by a customer and by the shop, cancellation
  by either, rescheduling. \<open>pre\<close> is the snapshot the reads before the transaction see, \<open>s\<close> the database
  the transaction runs on, \<open>now\<close> the clock at the start and \<open>clk\<close> the clock inside the transaction.
  Columns that are only displayed (style, campaign attribution, note, offer title) are left out.
\<close>

section \<open>Policy and prices\<close>

definition getEffectivePolicy :: "db \<Rightarrow> id \<Rightarrow> app_error + salon_policy" where
  "getEffectivePolicy s salonId =
     theE (case find (\<lambda>p. sp_salon p = Some salonId) (db_policies s) of
             Some p \<Rightarrow> Some p | None \<Rightarrow> find (\<lambda>p. sp_salon p = None) (db_policies s))
       CANCELLATION_POLICY_MISSING Inr"

definition totalServicePricePaise :: "booking_item list \<Rightarrow> paise" where
  "totalServicePricePaise services = sum_list (map bi_price services)"

definition discountedServicePricePaise :: "booking_item list \<Rightarrow> paise \<Rightarrow> paise" where
  "discountedServicePricePaise services discountAmount = max 0 (totalServicePricePaise services - discountAmount)"

definition payablePaise :: "db \<Rightarrow> booking \<Rightarrow> paise" where
  "payablePaise s b =
     max 0 (discountedServicePricePaise (resolveEffectiveBookingServices s b) (bk_discountAmount b)
            - nvl (bk_creditsRedeemed b) 0)"

section \<open>Creation by a customer\<close>

record booking_request =
  br_salon :: id
  br_services :: "id list"
  br_slotStart :: ms
  br_preferredStaff :: "id option"
  br_creditsToRedeem :: rat
  br_offer :: "id option"

record booking_quote =
  bq_services :: "service list"
  bq_slotEnd :: ms
  bq_percent :: int
  bq_discount :: paise
  bq_offer :: "offer_application option"
  bq_maxCredits :: rat
  bq_status :: booking_status
  bq_prepayment :: "paise option"
  bq_graceMinutes :: int
  bq_owner :: id

definition money_err :: "money_error + 'a \<Rightarrow> app_error + 'a" where
  "money_err m = (case m of Inl _ \<Rightarrow> Inl INVALID_MONEY | Inr x \<Rightarrow> Inr x)"

definition prepayment_terms :: "payment_policy option \<Rightarrow> paise \<Rightarrow> app_error + (booking_status \<times> paise option)" where
  "prepayment_terms policy discountedPaise =
     (let hasOnlinePaymentSetup = (case policy of None \<Rightarrow> False | Some p \<Rightarrow> pp_hasQr p);
          requirement = (case policy of None \<Rightarrow> PREPAY_NONE | Some p \<Rightarrow> pp_requirement p);
          requiresPrepayment = (hasOnlinePaymentSetup \<and> (requirement = PREPAY_PARTIAL \<or> requirement = PREPAY_FULL));
          percentage = (if requirement = PREPAY_FULL then 100
                        else case policy of None \<Rightarrow> 100 | Some p \<Rightarrow> nvl (pp_percentage p) 100)
      in if \<not> requiresPrepayment then Inr (B_CONFIRMED, None)
         else bindE (money_err (computePercentageDiscountPaise discountedPaise percentage)) (\<lambda>a.
           Inr (B_PENDING_PAYMENT, Some a)))"

definition quoteBooking ::
    "(booking \<Rightarrow> ms) \<Rightarrow> zone_db \<Rightarrow> ms \<Rightarrow> db \<Rightarrow> id \<Rightarrow> booking_request \<Rightarrow> booking_source \<Rightarrow> app_error + booking_quote" where
  "quoteBooking upd tz now pre customerId input source =
     (let sal = br_salon input in
      bindE (getSalonOrThrow pre sal) (\<lambda>salon.
      bindE (getServicesOrThrow pre sal (br_services input)) (\<lambda>services.
      let totalDurationMinutes = total_duration services; totalPricePaise = sum_list (map sv_price services) in
      bindE (case br_offer input of None \<Rightarrow> Inr None
             | Some i \<Rightarrow> bindE (previewForBooking upd pre sal customerId i services source now) (\<lambda>a. Inr (Some a)))
        (\<lambda>offerApplication.
      let percent = (case offerApplication of Some a \<Rightarrow> \<lfloor>ap_percent a\<rfloor>
                     | None \<Rightarrow> if source = SRC_APP \<or> source = SRC_WEB then sa_onlineBookingDiscountPercent salon else 0) in
      bindE (case offerApplication of Some a \<Rightarrow> Inr (ap_discount a)
             | None \<Rightarrow> money_err (computePercentageDiscountPaise totalPricePaise percent)) (\<lambda>discount.
      let discountedTotalPricePaise = max 0 (totalPricePaise - discount);
          slotStart = br_slotStart input; slotEnd = slotStart + minutes totalDurationMinutes in
      guardE (\<not> slotStart \<le> now) SLOT_IN_PAST
     (bindE (assertWithinOperatingHours tz pre sal slotStart slotEnd) (\<lambda>_.
      bindE (case br_preferredStaff input of None \<Rightarrow> Inr ()
             | Some st \<Rightarrow> bindE (assertStaffQualifiedForServices pre sal (br_services input) st) (\<lambda>_.
                         assertStaffWithinWorkingHours tz pre sal st slotStart slotEnd)) (\<lambda>_.
      guardE (\<not> exists_where (\<lambda>e. le_customer e = customerId \<and> le_salon e = sal \<and> le_status e = L_OUTSTANDING)
                 (db_ledger pre)) OUTSTANDING_BALANCE
     (bindE (getEffectivePolicy pre sal) (\<lambda>arrivalPolicy.
      bindE (computeMaxRedeemable (paiseToDecimalString discountedTotalPricePaise)) (\<lambda>maxCreditsAllowed.
      bindE (prepayment_terms (find (\<lambda>p. pp_salon p = sal) (db_paymentPolicies pre)) discountedTotalPricePaise)
        (\<lambda>(status, prepayment).
        Inr \<lparr>bq_services = services, bq_slotEnd = slotEnd, bq_percent = percent, bq_discount = discount,
             bq_offer = offerApplication, bq_maxCredits = maxCreditsAllowed, bq_status = status,
             bq_prepayment = prepayment, bq_graceMinutes = sp_arrivalGraceMinutes arrivalPolicy,
             bq_owner = sa_owner salon\<rparr>))))))))))))"

text \<open>The capacity and exclusivity checks every writer of a slot runs inside its transaction.\<close>

definition slot_checks ::
    "ms \<Rightarrow> db \<Rightarrow> id \<Rightarrow> id list \<Rightarrow> id option \<Rightarrow> ms \<Rightarrow> ms \<Rightarrow> id option \<Rightarrow> app_error + unit" where
  "slot_checks clk s salonId serviceIds preferredStaff slotStart slotEnd excludeBookingId =
     guardE (isSlotBookable (getSlotCapacityForServices s salonId serviceIds)
               (countPoolReservations clk s salonId slotStart slotEnd excludeBookingId)) SLOT_FULL
       (case preferredStaff of None \<Rightarrow> Inr ()
        | Some st \<Rightarrow> guardE (sc_free (isStaffFreeForInterval clk s salonId st slotStart slotEnd excludeBookingId None))
                     STAFF_SLOT_UNAVAILABLE (Inr ()))"

definition item_of :: "service \<Rightarrow> booking_item" where
  "item_of sv = \<lparr>bi_service = sv_id sv, bi_name = sv_name sv, bi_duration = sv_duration sv, bi_price = sv_price sv\<rparr>"

definition insert_booking :: "booking \<Rightarrow> db \<Rightarrow> app_error + db" where
  "insert_booking b s =
     guardE (\<not> exists_where (\<lambda>x. bk_idempotencyKey x = bk_idempotencyKey b) (db_bookings s)) UNIQUE_VIOLATION
       (Inr (s\<lparr>db_bookings := db_bookings s @ [b], db_next := db_next s + 1\<rparr>))"

definition upd_booking :: "id \<Rightarrow> (booking \<Rightarrow> booking) \<Rightarrow> db \<Rightarrow> db" where
  "upd_booking bookingId f s = s\<lparr>db_bookings := upd_where (\<lambda>b. bk_id b = bookingId) f (db_bookings s)\<rparr>"

definition new_booking :: "id \<Rightarrow> id \<Rightarrow> booking_request \<Rightarrow> booking_source \<Rightarrow> string \<Rightarrow> booking_quote \<Rightarrow> ms \<Rightarrow> booking" where
  "new_booking i customerId input source key q clk =
     \<lparr>bk_id = i, bk_salon = br_salon input, bk_customer = Some customerId, bk_service = sv_id (hd (bq_services q)),
      bk_services = map item_of (bq_services q), bk_slotStart = br_slotStart input, bk_slotEnd = bq_slotEnd q,
      bk_status = bq_status q, bk_source = source, bk_idempotencyKey = key,
      bk_preferredStaff = br_preferredStaff input, bk_prepaymentRequired = bq_prepayment q,
      bk_discountPercent = bq_percent q, bk_discountAmount = bq_discount q,
      bk_offer = map_option ap_offer (bq_offer q), bk_creditsRedeemed = None,
      bk_cancelledAt = None, bk_cancelledBy = None, bk_cancelledByActor = None, bk_cancellationReason = None,
      bk_cancellationCharge = None, bk_guestName = None, bk_guestPhone = None, bk_createdBy = None,
      bk_createdAt = clk, bk_arrivalGraceMinutes = Some (bq_graceMinutes q)\<rparr>"

definition offer_recheck ::
    "(booking \<Rightarrow> ms) \<Rightarrow> (service list \<Rightarrow> service list) \<Rightarrow> ms \<Rightarrow> db \<Rightarrow> id \<Rightarrow> booking_request \<Rightarrow> booking_source
      \<Rightarrow> booking_quote \<Rightarrow> app_error + offer_application option" where
  "offer_recheck upd ord clk s customerId input source q =
     (case br_offer input of None \<Rightarrow> Inr None
      | Some i \<Rightarrow>
          bindE (lockAndValidateForBooking upd ord s (br_salon input) customerId i (bq_services q) source clk) (\<lambda>locked.
          guardE (case bq_offer q of None \<Rightarrow> False
                  | Some a \<Rightarrow> ap_updatedAt locked = ap_updatedAt a \<and> ap_discount locked = ap_discount a
                      \<and> ap_percent locked = ap_percent a \<and> ap_title locked = ap_title a) OFFER_CHANGED_RETRY
            (Inr (Some locked))))"

definition redeem_for_booking :: "ms \<Rightarrow> id \<Rightarrow> id \<Rightarrow> id \<Rightarrow> rat \<Rightarrow> rat \<Rightarrow> db \<Rightarrow> app_error + db" where
  "redeem_for_booking clk salonId customerId bookingId requestedCredits maxCredits s =
     (if \<not> requestedCredits > 0 then Inr s
      else bindE (redeemUpTo clk customerId bookingId requestedCredits maxCredits s) (\<lambda>(r, s1).
        let s2 = (if rr_actualUsedPaise r > 0
                  then upd_booking bookingId (\<lambda>b. b\<lparr>bk_creditsRedeemed := Some (rr_actualUsedPaise r)\<rparr>) s1 else s1);
            s3 = (if rr_fastQueFundedConsumedPaise r > 0
                  then s2\<lparr>db_subsidies := db_subsidies s2 @
                         [\<lparr>sb_salon = salonId, sb_booking = bookingId, sb_amount = rr_fastQueFundedConsumedPaise r,
                           sb_status = SUB_OUTSTANDING, sb_voidedAt = None\<rparr>]\<rparr>
                  else s2)
        in Inr s3))"

definition create_tx ::
    "(booking \<Rightarrow> ms) \<Rightarrow> (service list \<Rightarrow> service list) \<Rightarrow> ms \<Rightarrow> db \<Rightarrow> id \<Rightarrow> booking_request \<Rightarrow> booking_source \<Rightarrow> string
      \<Rightarrow> booking_quote \<Rightarrow> app_error + (db \<times> id)" where
  "create_tx upd ord clk s customerId input source key q =
     bindE (slot_checks clk s (br_salon input) (br_services input) (br_preferredStaff input)
              (br_slotStart input) (bq_slotEnd q) None) (\<lambda>_.
     bindE (offer_recheck upd ord clk s customerId input source q) (\<lambda>locked.
       let i = db_next s in
       bindE (insert_booking ((new_booking i customerId input source key q clk)
                \<lparr>bk_offer := map_option ap_offer locked\<rparr>) s) (\<lambda>s1.
       let s2 = (case locked of None \<Rightarrow> s1 | Some a \<Rightarrow> recordRedemption a (br_salon input) customerId i s1) in
       bindE (redeem_for_booking clk (br_salon input) customerId i (br_creditsToRedeem input) (bq_maxCredits q) s2)
         (\<lambda>s3. Inr (s3, i)))))"

definition createBooking ::
    "(booking \<Rightarrow> ms) \<Rightarrow> (service list \<Rightarrow> service list) \<Rightarrow> zone_db \<Rightarrow> ms \<Rightarrow> ms \<Rightarrow> db \<Rightarrow> db \<Rightarrow> id \<Rightarrow> booking_request
      \<Rightarrow> booking_source \<Rightarrow> string \<Rightarrow> app_error + (db \<times> id)" where
  "createBooking upd ord tz now clk pre s customerId input source key =
     bindE (quoteBooking upd tz now pre customerId input source) (\<lambda>q.
     bindE (create_tx upd ord clk s customerId input source key q) (\<lambda>(t, i).
       Inr (emit [BookingEvent ''created'' (br_salon input) i, QueueUpdated (br_salon input),
                  Notify customerId ''booking.confirmed'', Notify (bq_owner q) ''owner.booking.created''] t, i)))"

section \<open>Creation by the shop\<close>

record in_shop_request =
  is_services :: "id list"
  is_slotStart :: ms
  is_preferredStaff :: "id option"
  is_guestName :: string
  is_guestPhone :: "string option"
  is_contactConsent :: bool

definition same_in_shop_booking :: "id \<Rightarrow> ms \<Rightarrow> string \<Rightarrow> service list \<Rightarrow> booking \<Rightarrow> bool" where
  "same_in_shop_booking salonId slotStart guestName services b \<longleftrightarrow>
     bk_salon b = salonId \<and> bk_source b = SRC_IN_SHOP \<and> bk_slotStart b = slotStart
     \<and> map_option upper (bk_guestName b) = Some (upper guestName)
     \<and> (bk_status b = B_CONFIRMED \<or> bk_status b = B_PENDING_PAYMENT)
     \<and> list_all (\<lambda>sv. list_ex (\<lambda>i. bi_service i = sv_id sv) (bk_services b)) services"

definition in_shop_booking :: "id \<Rightarrow> id \<Rightarrow> id \<Rightarrow> in_shop_request \<Rightarrow> string \<Rightarrow> service list \<Rightarrow> ms \<Rightarrow> int \<Rightarrow> ms \<Rightarrow> booking" where
  "in_shop_booking i salonId actorUserId input key services slotEnd grace clk =
     \<lparr>bk_id = i, bk_salon = salonId, bk_customer = None, bk_service = sv_id (hd services),
      bk_services = map item_of services, bk_slotStart = is_slotStart input, bk_slotEnd = slotEnd,
      bk_status = B_CONFIRMED, bk_source = SRC_IN_SHOP, bk_idempotencyKey = key,
      bk_preferredStaff = is_preferredStaff input, bk_prepaymentRequired = None, bk_discountPercent = 0,
      bk_discountAmount = 0, bk_offer = None, bk_creditsRedeemed = None,
      bk_cancelledAt = None, bk_cancelledBy = None, bk_cancelledByActor = None, bk_cancellationReason = None,
      bk_cancellationCharge = None, bk_guestName = Some (is_guestName input),
      bk_guestPhone = (if is_contactConsent input \<and> truthy (is_guestPhone input) then is_guestPhone input else None),
      bk_createdBy = Some actorUserId, bk_createdAt = clk, bk_arrivalGraceMinutes = Some grace\<rparr>"

text \<open>\<open>catch\<close> of the unique violation (\<open>P2002\<close>).\<close>

definition onUnique :: "app_error \<Rightarrow> app_error + 'a \<Rightarrow> app_error + 'a" where
  "onUnique d m = (case m of Inl e \<Rightarrow> Inl (if e = UNIQUE_VIOLATION then d else e) | Inr x \<Rightarrow> Inr x)"

lemma onUnique_Inr [success_simps]: "onUnique d m = Inr x \<longleftrightarrow> m = Inr x"
  by (simp add: onUnique_def split: sum.split)

definition createInShop ::
    "zone_db \<Rightarrow> ms \<Rightarrow> ms \<Rightarrow> db \<Rightarrow> db \<Rightarrow> id \<Rightarrow> id \<Rightarrow> in_shop_request \<Rightarrow> string \<Rightarrow> app_error + (db \<times> id)" where
  "createInShop tz now clk pre s salonId actorUserId input key =
     bindE (getSalonOrThrow pre salonId) (\<lambda>_.
     bindE (getServicesOrThrow pre salonId (is_services input)) (\<lambda>services.
     let slotStart = is_slotStart input; slotEnd = slotStart + minutes (total_duration services) in
     guardE (\<not> slotStart < now - minutes 5) SLOT_IN_PAST
    (bindE (assertWithinOperatingHours tz pre salonId slotStart slotEnd) (\<lambda>_.
     bindE (case is_preferredStaff input of None \<Rightarrow> Inr ()
            | Some st \<Rightarrow> bindE (assertStaffQualifiedForServices pre salonId (is_services input) st) (\<lambda>_.
                        assertStaffWithinWorkingHours tz pre salonId st slotStart slotEnd)) (\<lambda>_.
     bindE (getEffectivePolicy pre salonId) (\<lambda>arrivalPolicy.
     guardE (\<not> exists_where (same_in_shop_booking salonId slotStart (is_guestName input) services) (db_bookings s))
       IN_SHOP_DUPLICATE_BOOKING
    (bindE (slot_checks clk s salonId (is_services input) (is_preferredStaff input) slotStart slotEnd None) (\<lambda>_.
       let i = db_next s;
           b = in_shop_booking i salonId actorUserId input key services slotEnd (sp_arrivalGraceMinutes arrivalPolicy) clk
       in bindE (onUnique IN_SHOP_DUPLICATE_BOOKING (insert_booking b s)) (\<lambda>s1.
            Inr (emit [Audit (Some actorUserId) ''BOOKING_CREATED_IN_SHOP'' i,
                       BookingEvent ''created'' salonId i, QueueUpdated salonId] s1, i))))))))))"

section \<open>Reading one's bookings\<close>

definition listMine :: "db \<Rightarrow> id \<Rightarrow> id option \<Rightarrow> nat \<Rightarrow> booking list \<times> id option" where
  "listMine s customerId cursor limit =
     (let mine = rev (sort_key bk_slotStart (filter (\<lambda>b. bk_customer b = Some customerId) (db_bookings s)));
          after = (case cursor of None \<Rightarrow> mine | Some c \<Rightarrow> tl (dropWhile (\<lambda>b. bk_id b \<noteq> c) mine));
          bookings = take (limit + 1) after;
          hasMore = (length bookings > limit);
          page = (if hasMore then take limit bookings else bookings)
      in (page, if hasMore then Some (bk_id (last page)) else None))"

definition getOne :: "db \<Rightarrow> id \<Rightarrow> id \<Rightarrow> app_error + booking" where
  "getOne s customerId bookingId =
     theE (find (\<lambda>b. bk_id b = bookingId \<and> bk_customer b = Some customerId) (db_bookings s)) BOOKING_NOT_FOUND Inr"

section \<open>Cancellation\<close>

definition cancellable :: "booking \<Rightarrow> bool" where
  "cancellable b \<longleftrightarrow> bk_status b = B_CONFIRMED \<or> bk_status b = B_PENDING_PAYMENT"

definition QUEUE_ENTRY_STATUSES_CANCELLABLE_FROM_BOOKING :: "entry_status list" where
  "QUEUE_ENTRY_STATUSES_CANCELLABLE_FROM_BOOKING = [Q_WAITING, Q_CALLED]"

definition linked_cancellable :: "id \<Rightarrow> entry \<Rightarrow> bool" where
  "linked_cancellable bookingId e \<longleftrightarrow> qe_booking e = Some bookingId
     \<and> entry_in QUEUE_ENTRY_STATUSES_CANCELLABLE_FROM_BOOKING e"

definition cancel_linked_entries :: "id \<Rightarrow> db \<Rightarrow> db" where
  "cancel_linked_entries bookingId = upd_entries (linked_cancellable bookingId) (\<lambda>e. e\<lparr>qe_status := Q_CANCELLED\<rparr>)"

definition void_subsidies :: "id \<Rightarrow> ms \<Rightarrow> db \<Rightarrow> db" where
  "void_subsidies bookingId now s =
     s\<lparr>db_subsidies := upd_where (\<lambda>x. sb_booking x = bookingId \<and> sb_status x = SUB_OUTSTANDING)
         (\<lambda>x. x\<lparr>sb_status := SUB_VOIDED, sb_voidedAt := Some now\<rparr>) (db_subsidies s)\<rparr>"

definition give_back_credits :: "ms \<Rightarrow> id \<Rightarrow> id \<Rightarrow> paise option \<Rightarrow> db \<Rightarrow> db" where
  "give_back_credits clk customerId bookingId redeemed s = (case redeemed of None \<Rightarrow> s
     | Some amount \<Rightarrow> void_subsidies bookingId clk (restoreForCancelledBooking clk customerId bookingId amount s))"

definition add_ledger :: "id \<Rightarrow> id \<Rightarrow> id \<Rightarrow> rat \<Rightarrow> ledger_reason \<Rightarrow> db \<Rightarrow> db" where
  "add_ledger customerId salonId bookingId amount reason s =
     s\<lparr>db_ledger := db_ledger s @ [\<lparr>le_id = db_next s, le_customer = customerId, le_salon = salonId,
         le_booking = bookingId, le_amount = amount, le_reason = reason, le_status = L_OUTSTANDING\<rparr>],
       db_next := db_next s + 1\<rparr>"

definition cancel_tx :: "ms \<Rightarrow> db \<Rightarrow> booking \<Rightarrow> id \<Rightarrow> rat \<Rightarrow> app_error + (db \<times> bool)" where
  "cancel_tx clk s booking customerId chargeAmount =
     (let bookingId = bk_id booking in
      guardE (case find_booking s bookingId of None \<Rightarrow> False | Some current \<Rightarrow> cancellable current)
        BOOKING_NOT_CANCELLABLE
       (let s1 = upd_booking bookingId (\<lambda>b. b\<lparr>bk_status := B_CANCELLED, bk_cancelledAt := Some clk,
                    bk_cancelledBy := Some customerId, bk_cancellationCharge := Some chargeAmount\<rparr>) s;
            linkedQueueEntryCancelled = (count_where (linked_cancellable bookingId) (db_entries s1) > 0);
            s2 = cancel_linked_entries bookingId s1;
            s3 = (if chargeAmount > 0
                  then add_ledger customerId (bk_salon booking) bookingId chargeAmount CANCELLATION_CHARGE s2 else s2);
            s4 = give_back_credits clk customerId bookingId (bk_creditsRedeemed booking) s3
        in Inr (emit [Audit (Some customerId) ''BOOKING_CANCELLED'' bookingId] s4, linkedQueueEntryCancelled)))"

definition cancelBooking :: "ms \<Rightarrow> ms \<Rightarrow> db \<Rightarrow> db \<Rightarrow> id \<Rightarrow> id \<Rightarrow> app_error + (db \<times> rat)" where
  "cancelBooking now clk pre s customerId bookingId =
     bindE (getOne pre customerId bookingId) (\<lambda>booking.
     guardE (cancellable booking) BOOKING_NOT_CANCELLABLE
    (bindE (getEffectivePolicy pre (bk_salon booking)) (\<lambda>policy.
       let minutesUntilSlot = of_int (bk_slotStart booking - now) / 60000;
           chargeAmount = computeCancellationCharge (sp_policy policy)
             (paiseToRupees (discountedServicePricePaise (resolveEffectiveBookingServices pre booking)
                               (bk_discountAmount booking))) minutesUntilSlot False;
           sal = bk_salon booking
       in bindE (cancel_tx clk s booking customerId chargeAmount) (\<lambda>(t, linkedQueueEntryCancelled).
            let t1 = emit [BookingEvent ''cancelled'' sal bookingId] t;
                t2 = (if linkedQueueEntryCancelled
                      then emit [QueueUpdated sal, AutoAssignTrigger sal] (recomputeEtas clk sal t1) else t1)
            in Inr (emit [Notify customerId ''booking.cancelled'',
                          Notify (case find_salon pre sal of Some x \<Rightarrow> sa_owner x | None \<Rightarrow> 0) ''owner.booking.cancelled''] t2,
                    chargeAmount)))))"

definition cancel_by_shop_tx ::
    "ms \<Rightarrow> db \<Rightarrow> booking \<Rightarrow> id \<Rightarrow> cancellation_actor \<Rightarrow> string option \<Rightarrow> app_error + (db \<times> bool)" where
  "cancel_by_shop_tx clk s booking actorUserId actor reason =
     (let bookingId = bk_id booking in
      guardE (case find_booking s bookingId of None \<Rightarrow> False | Some current \<Rightarrow> cancellable current)
        BOOKING_NOT_CANCELLABLE_BY_SHOP
     (guardE (\<not> exists_where (\<lambda>e. qe_booking e = Some bookingId \<and> entry_in [Q_IN_SERVICE, Q_COMPLETED] e) (db_entries s))
        BOOKING_NOT_CANCELLABLE_BY_SHOP
       (let s1 = upd_booking bookingId (\<lambda>b. b\<lparr>bk_status := B_CANCELLED, bk_cancelledAt := Some clk,
                    bk_cancelledBy := Some actorUserId, bk_cancelledByActor := Some actor,
                    bk_cancellationReason := reason, bk_cancellationCharge := None\<rparr>) s;
            linkedQueueEntryCancelled = (count_where (linked_cancellable bookingId) (db_entries s1) > 0);
            s2 = cancel_linked_entries bookingId s1;
            s3 = (case bk_customer booking of None \<Rightarrow> s2
                  | Some c \<Rightarrow> give_back_credits clk c bookingId (bk_creditsRedeemed booking) s2)
        in Inr (emit [Audit (Some actorUserId) ''BOOKING_CANCELLED_BY_SHOP'' bookingId] s3, linkedQueueEntryCancelled))))"

definition cancelByShop ::
    "ms \<Rightarrow> db \<Rightarrow> db \<Rightarrow> id \<Rightarrow> id \<Rightarrow> id \<Rightarrow> cancellation_actor \<Rightarrow> string option \<Rightarrow> app_error + db" where
  "cancelByShop clk pre s salonId bookingId actorUserId actor reason =
     theE (find (\<lambda>b. bk_id b = bookingId \<and> bk_salon b = salonId) (db_bookings pre)) BOOKING_NOT_FOUND (\<lambda>booking.
     guardE (cancellable booking) BOOKING_NOT_CANCELLABLE_BY_SHOP
     (bindE (cancel_by_shop_tx clk s booking actorUserId actor reason) (\<lambda>(t, linkedQueueEntryCancelled).
        let t1 = emit [BookingEvent ''cancelled'' salonId bookingId] t;
            t2 = (if linkedQueueEntryCancelled
                  then emit [AutoAssignTrigger salonId] (recomputeEtas clk salonId t1) else t1)
        in Inr (emit [QueueUpdated salonId] t2))))"

section \<open>Rescheduling\<close>

definition reschedule_tx :: "ms \<Rightarrow> db \<Rightarrow> db \<Rightarrow> booking \<Rightarrow> id \<Rightarrow> ms \<Rightarrow> ms \<Rightarrow> bool \<Rightarrow> app_error + db" where
  "reschedule_tx clk pre s booking actorUserId newSlotStart newSlotEnd byShop =
     bindE (slot_checks clk s (bk_salon booking) (map bi_service (resolveEffectiveBookingServices pre booking))
              (bk_preferredStaff booking) newSlotStart newSlotEnd (Some (bk_id booking))) (\<lambda>_.
     guardE (find_booking s (bk_id booking) \<noteq> None) RECORD_NOT_FOUND
       (Inr (emit [Audit (Some actorUserId) (if byShop then ''BOOKING_RESCHEDULED_BY_SHOP'' else ''BOOKING_RESCHEDULED'')
                     (bk_id booking)]
          (upd_booking (bk_id booking) (\<lambda>b. b\<lparr>bk_slotStart := newSlotStart, bk_slotEnd := newSlotEnd\<rparr>) s))))"

definition rescheduleLoaded ::
    "zone_db \<Rightarrow> ms \<Rightarrow> ms \<Rightarrow> db \<Rightarrow> db \<Rightarrow> booking \<Rightarrow> id \<Rightarrow> ms \<Rightarrow> bool \<Rightarrow> app_error + db" where
  "rescheduleLoaded tz now clk pre s booking actorUserId newSlotStart byShop =
     guardE (cancellable booking) BOOKING_NOT_RESCHEDULABLE
    (guardE (\<not> bk_slotStart booking \<le> now) BOOKING_NOT_RESCHEDULABLE
    (guardE (\<not> newSlotStart \<le> now) SLOT_IN_PAST
      (let effectiveServices = resolveEffectiveBookingServices pre booking;
           newSlotEnd = newSlotStart + minutes (sum_list (map bi_duration effectiveServices))
       in bindE (assertWithinOperatingHours tz pre (bk_salon booking) newSlotStart newSlotEnd) (\<lambda>_.
          bindE (case bk_preferredStaff booking of None \<Rightarrow> Inr ()
                 | Some st \<Rightarrow> assertStaffWithinWorkingHours tz pre (bk_salon booking) st newSlotStart newSlotEnd) (\<lambda>_.
          bindE (reschedule_tx clk pre s booking actorUserId newSlotStart newSlotEnd byShop) (\<lambda>t.
            Inr (emit [BookingEvent ''rescheduled'' (bk_salon booking) (bk_id booking),
                       QueueUpdated (bk_salon booking)] t)))))))"

definition reschedule :: "zone_db \<Rightarrow> ms \<Rightarrow> ms \<Rightarrow> db \<Rightarrow> db \<Rightarrow> id \<Rightarrow> id \<Rightarrow> ms \<Rightarrow> app_error + db" where
  "reschedule tz now clk pre s customerId bookingId newSlotStart =
     bindE (getOne pre customerId bookingId) (\<lambda>booking.
       rescheduleLoaded tz now clk pre s booking customerId newSlotStart False)"

definition rescheduleByShop :: "zone_db \<Rightarrow> ms \<Rightarrow> ms \<Rightarrow> db \<Rightarrow> db \<Rightarrow> id \<Rightarrow> id \<Rightarrow> id \<Rightarrow> ms \<Rightarrow> app_error + (db \<times> ms)" where
  "rescheduleByShop tz now clk pre s salonId bookingId actorUserId newSlotStart =
     theE (find (\<lambda>b. bk_id b = bookingId \<and> bk_salon b = salonId) (db_bookings pre)) BOOKING_NOT_FOUND (\<lambda>booking.
       bindE (rescheduleLoaded tz now clk pre s booking actorUserId newSlotStart True) (\<lambda>t.
         Inr (t, bk_slotStart booking)))"

section \<open>What the wallet operations leave alone\<close>

definition wallet_frame :: "db \<Rightarrow> db \<Rightarrow> bool" where
  "wallet_frame s t \<longleftrightarrow> (\<exists>cs as n. t = s\<lparr>db_credits := cs, db_accounts := as, db_next := n\<rparr> \<and> db_next s \<le> n)"

lemma wallet_frameD:
  assumes "wallet_frame s t"
  shows "db_bookings t = db_bookings s" "db_entries t = db_entries s" "db_sessions t = db_sessions s"
    "db_services t = db_services s" "db_subsidies t = db_subsidies s" "db_ledger t = db_ledger s"
    "db_next s \<le> db_next t" "db_offers t = db_offers s" "db_redemptions t = db_redemptions s" "db_manual t = db_manual s"
  using assms by (auto simp: wallet_frame_def)

lemma consume_lots_frame: "consume_lots lots a fd s = (a', fd', t) \<Longrightarrow> \<exists>cs. t = s\<lparr>db_credits := cs\<rparr>"
proof (induction lots a fd s arbitrary: a' fd' t rule: consume_lots.induct)
  case (1 a fd s)
  then show ?case by (intro exI [of _ "db_credits s"]) simp
next
  case (2 lot lots a fd s)
  show ?case
  proof (cases "a \<le> 0")
    case True
    then show ?thesis using "2.prems" by (intro exI [of _ "db_credits s"]) simp
  next
    case False
    show ?thesis
    proof (cases "min (remaining lot) a \<le> 0")
      case True
      have "consume_lots lots a fd s = (a', fd', t)" using "2.prems" by (simp only: consume_skip [OF False True])
      from "2.IH"(1) [OF False refl True this] show ?thesis .
    next
      case take: False
      have "consume_lots lots (a - min (remaining lot) a)
          (if ct_funding lot = Some FASTQUE_FUNDED then fd + min (remaining lot) a else fd)
          (decrement_lot (ct_id lot) (min (remaining lot) a) s) = (a', fd', t)"
        using "2.prems" by (simp only: consume_take [OF False take])
      from "2.IH"(2) [OF False refl take this] show ?thesis
        by (auto simp: decrement_lot_def)
    qed
  qed
qed

lemma redeemUpTo_frame:
  assumes "redeemUpTo now c b req cap s = Inr (r, t)"
  shows "wallet_frame s t"
  using redeemUpToD [OF assms]
proof (elim disjE exE conjE)
  fix acc rp cp tgt rest fd s1
  assume run: "consume_lots (validLots s (ca_id acc) now) tgt 0 s = (rest, fd, s1)"
    and t: "t = insert_credit (redeemed_row (db_next s1) (ca_id acc) (tgt - rest) b now) s1"
  obtain cs where s1: "s1 = s\<lparr>db_credits := cs\<rparr>" using consume_lots_frame [OF run] by blast
  show ?thesis unfolding wallet_frame_def t s1 insert_credit_def
    by (intro exI [of _ "cs @ [redeemed_row (db_next s) (ca_id acc) (tgt - rest) b now]"] exI [of _ "db_accounts s"]
        exI [of _ "db_next s + 1"]) simp
next
  assume "t = s"
  then show ?thesis unfolding wallet_frame_def
    by (intro exI [of _ "db_credits s"] exI [of _ "db_accounts s"] exI [of _ "db_next s"]) simp
qed

lemma restore_frame: "wallet_frame s (restoreForCancelledBooking now c b a s)"
proof -
  obtain acc s1 where up: "upsert_account c s = (acc, s1)" by (cases "upsert_account c s")
  have "\<exists>as n. s1 = s\<lparr>db_accounts := as, db_next := n\<rparr> \<and> db_next s \<le> n"
  proof (cases "find_account s c")
    case None
    then show ?thesis using up
      by (intro exI [of _ "db_accounts s @ [acc]"] exI [of _ "db_next s + 1"]) (auto simp: upsert_account_def Let_def)
  next
    case (Some x)
    then show ?thesis using up
      by (intro exI [of _ "db_accounts s"] exI [of _ "db_next s"]) (simp add: upsert_account_def)
  qed
  then obtain as n where s1: "s1 = s\<lparr>db_accounts := as, db_next := n\<rparr>" "db_next s \<le> n" by blast
  show ?thesis
  proof (cases "a \<le> 0")
    case True
    then show ?thesis unfolding wallet_frame_def restoreForCancelledBooking_def
      by (intro exI [of _ "db_credits s"] exI [of _ "db_accounts s"] exI [of _ "db_next s"]) simp
  next
    case False
    then have "\<exists>row. restoreForCancelledBooking now c b a s = insert_credit row s1"
      by (auto simp: restoreForCancelledBooking_def up)
    then obtain row where r: "restoreForCancelledBooking now c b a s = insert_credit row s1" by blast
    show ?thesis unfolding wallet_frame_def r insert_credit_def s1(1)
      by (intro exI [of _ "db_credits s @ [row]"] exI [of _ as] exI [of _ "n + 1"]) (use s1(2) in simp)
  qed
qed

section \<open>No barber is booked twice\<close>

text \<open>Two bookings that reserve the same barber of a salon for overlapping intervals.\<close>

definition staff_clash :: "booking \<Rightarrow> booking \<Rightarrow> bool" where
  "staff_clash a b \<longleftrightarrow> reserving a \<and> reserving b \<and> bk_salon a = bk_salon b
     \<and> bk_preferredStaff a \<noteq> None \<and> bk_preferredStaff a = bk_preferredStaff b
     \<and> intervalsOverlap (bk_slotStart a) (bk_slotEnd a) (bk_slotStart b) (bk_slotEnd b)"

definition no_clash :: "booking list \<Rightarrow> bool" where
  "no_clash bs \<longleftrightarrow> (\<forall>a\<in>set bs. \<forall>b\<in>set bs. bk_id a \<noteq> bk_id b \<longrightarrow> \<not> staff_clash a b)"

definition book_inv :: "db \<Rightarrow> bool" where
  "book_inv s \<longleftrightarrow> distinct (map bk_id (db_bookings s)) \<and> (\<forall>b\<in>set (db_bookings s). bk_id b < db_next s)
     \<and> distinct (map bk_idempotencyKey (db_bookings s)) \<and> no_clash (db_bookings s)"

text \<open>The columns of a booking that never change once its transaction has committed.\<close>

definition bkey :: "booking \<Rightarrow> booking" where
  "bkey b = b\<lparr>bk_slotStart := 0, bk_slotEnd := 0, bk_status := B_CONFIRMED, bk_cancelledAt := None,
     bk_cancelledBy := None, bk_cancelledByActor := None, bk_cancellationReason := None,
     bk_cancellationCharge := None\<rparr>"

definition bhistory :: "db \<Rightarrow> db \<Rightarrow> bool" where
  "bhistory pre s \<longleftrightarrow> bkey ` set (db_bookings pre) \<subseteq> bkey ` set (db_bookings s)"

definition safe_book :: "db \<Rightarrow> db \<Rightarrow> bool" where
  "safe_book s t \<longleftrightarrow> (book_inv s \<longrightarrow> book_inv t \<and> bhistory s t)"

lemma bkey_sel:
  "bk_id (bkey b) = bk_id b" "bk_salon (bkey b) = bk_salon b" "bk_preferredStaff (bkey b) = bk_preferredStaff b"
  "bk_customer (bkey b) = bk_customer b" "bk_creditsRedeemed (bkey b) = bk_creditsRedeemed b"
  "bk_services (bkey b) = bk_services b" "bk_service (bkey b) = bk_service b"
  "bk_discountAmount (bkey b) = bk_discountAmount b"
  by (simp_all add: bkey_def)

lemma bkey_eqD:
  assumes "bkey a = bkey b"
  shows "bk_id a = bk_id b" "bk_salon a = bk_salon b" "bk_preferredStaff a = bk_preferredStaff b"
    "bk_customer a = bk_customer b" "bk_creditsRedeemed a = bk_creditsRedeemed b"
    "bk_services a = bk_services b" "bk_service a = bk_service b" "bk_discountAmount a = bk_discountAmount b"
  using arg_cong [OF assms, of bk_id] arg_cong [OF assms, of bk_salon] arg_cong [OF assms, of bk_preferredStaff]
    arg_cong [OF assms, of bk_customer] arg_cong [OF assms, of bk_creditsRedeemed] arg_cong [OF assms, of bk_services]
    arg_cong [OF assms, of bk_service] arg_cong [OF assms, of bk_discountAmount]
  by (simp_all only: bkey_sel)

lemma bhistory_refl [simp]: "bhistory s s"
  by (simp add: bhistory_def)

lemma bhistory_row:
  assumes "bhistory pre s" "b \<in> set (db_bookings pre)"
  shows "\<exists>c\<in>set (db_bookings s). bkey c = bkey b"
proof -
  have "bkey b \<in> bkey ` set (db_bookings s)" using assms unfolding bhistory_def by blast
  then show ?thesis by (auto simp: image_iff)
qed

lemma safe_book_refl [simp]: "safe_book s s"
  by (simp add: safe_book_def)

lemma safe_book_trans: "safe_book a b \<Longrightarrow> safe_book b c \<Longrightarrow> safe_book a c"
  unfolding safe_book_def bhistory_def by blast

text \<open>Everything that leaves the table of bookings alone is safe.\<close>

lemma safe_book_same: "db_bookings t = db_bookings s \<Longrightarrow> db_next s \<le> db_next t \<Longrightarrow> safe_book s t"
  unfolding safe_book_def book_inv_def bhistory_def by (auto intro: less_le_trans)

lemma safe_book_emit [simp]: "safe_book a (emit es s) = safe_book a s"
  by (simp add: safe_book_def book_inv_def bhistory_def)

lemma no_clash_snoc:
  assumes "no_clash bs" "\<And>a. a \<in> set bs \<Longrightarrow> \<not> staff_clash a b \<and> \<not> staff_clash b a"
  shows "no_clash (bs @ [b])"
  using assms by (auto simp: no_clash_def)

lemma clash_sym: "staff_clash a b = staff_clash b a"
  by (auto simp: staff_clash_def intervalsOverlap_def)

lemma safe_book_upd:
  assumes f: "\<And>b. bk_id b = i \<Longrightarrow> bkey (f b) = bkey b \<and> bk_idempotencyKey (f b) = bk_idempotencyKey b
      \<and> bk_slotStart (f b) = bk_slotStart b \<and> bk_slotEnd (f b) = bk_slotEnd b \<and> (reserving (f b) \<longrightarrow> reserving b)"
  shows "safe_book s (upd_booking i f s)"
proof -
  let ?u = "upd_where (\<lambda>b. bk_id b = i) f (db_bookings s)"
  have keys: "map bkey ?u = map bkey (db_bookings s)" "map bk_idempotencyKey ?u = map bk_idempotencyKey (db_bookings s)"
    by (rule map_upd_where, use f in blast)+
  have ids: "map bk_id ?u = map bk_id (db_bookings s)"
    by (rule map_upd_where) (use f bkey_eqD(1) in blast)
  have origin: "\<exists>r\<in>set (db_bookings s). bk_id r = bk_id u \<and> (\<forall>v. staff_clash u v \<longrightarrow> staff_clash r v)" if u: "u \<in> set ?u" for u
  proof -
    obtain r where r: "r \<in> set (db_bookings s)" "u = (if bk_id r = i then f r else r)"
      using u unfolding in_upd_where by blast
    show ?thesis
    proof (cases "bk_id r = i")
      case True
      then have "u = f r" using r(2) by simp
      then have "bk_id u = bk_id r" "\<forall>v. staff_clash u v \<longrightarrow> staff_clash r v"
        using f [OF True] bkey_eqD [of "f r" r] by (auto simp: staff_clash_def)
      then show ?thesis using r(1) by metis
    qed (use r in auto)
  qed
  have "no_clash ?u" if nc: "no_clash (db_bookings s)"
    unfolding no_clash_def
  proof (intro ballI impI notI)
    fix a b assume ab: "a \<in> set ?u" "b \<in> set ?u" "bk_id a \<noteq> bk_id b" "staff_clash a b"
    obtain ra where ra: "ra \<in> set (db_bookings s)" "bk_id ra = bk_id a" "\<forall>v. staff_clash a v \<longrightarrow> staff_clash ra v"
      using origin [OF ab(1)] by blast
    obtain rb where rb: "rb \<in> set (db_bookings s)" "bk_id rb = bk_id b" "\<forall>v. staff_clash b v \<longrightarrow> staff_clash rb v"
      using origin [OF ab(2)] by blast
    have "staff_clash rb ra" using ab(4) ra(3) rb(3) clash_sym by blast
    then show False using nc ra rb ab(3) clash_sym unfolding no_clash_def by metis
  qed
  moreover have "bkey ` set ?u = bkey ` set (db_bookings s)"
    using arg_cong [OF keys(1), of set] by simp
  moreover have "bk_id ` set ?u = bk_id ` set (db_bookings s)"
    using arg_cong [OF ids, of set] by simp
  then have "(\<forall>b\<in>set (db_bookings s). bk_id b < n) \<Longrightarrow> (\<forall>b\<in>set ?u. bk_id b < n)" for n
    by (metis (no_types, lifting) image_iff)
  ultimately show ?thesis
    unfolding safe_book_def book_inv_def bhistory_def upd_booking_def by (simp add: keys ids)
qed

lemma safe_book_insert:
  assumes ins: "insert_booking b s = Inr t" and i: "bk_id b = db_next s"
    and free: "\<And>a. a \<in> set (db_bookings s) \<Longrightarrow> \<not> staff_clash a b"
  shows "safe_book s t"
proof -
  have t: "t = s\<lparr>db_bookings := db_bookings s @ [b], db_next := db_next s + 1\<rparr>"
    and key: "bk_idempotencyKey b \<notin> bk_idempotencyKey ` set (db_bookings s)"
    using ins by (auto simp: insert_booking_def success_simps table_simps)
  have "book_inv t" if inv: "book_inv s"
  proof -
    have "db_next s \<notin> bk_id ` set (db_bookings s)" using inv by (force simp: book_inv_def)
    moreover have "no_clash (db_bookings s @ [b])"
      using inv free clash_sym by (intro no_clash_snoc) (auto simp: book_inv_def)
    ultimately show ?thesis
      using inv key i by (auto simp: book_inv_def t intro: less_SucI)
  qed
  then show ?thesis by (auto simp: safe_book_def bhistory_def t)
qed

lemma slot_checksD:
  assumes "slot_checks clk s sal ids st a e x = Inr ()"
  shows "countPoolReservations clk s sal a e x < getSlotCapacityForServices s sal ids"
    and "st = Some m \<Longrightarrow> sc_free (isStaffFreeForInterval clk s sal m a e x None)"
  using assms by (auto simp: slot_checks_def success_simps isSlotBookable_def)

lemma slot_checks_no_clash:
  assumes "slot_checks clk s (bk_salon b) ids (bk_preferredStaff b) (bk_slotStart b) (bk_slotEnd b) x = Inr ()"
    and "a \<in> set (db_bookings s)" "x = None \<or> x \<noteq> Some (bk_id a)"
  shows "\<not> staff_clash a b"
proof
  assume c: "staff_clash a b"
  then obtain m where m: "bk_preferredStaff b = Some m" "bk_preferredStaff a = Some m"
    by (auto simp: staff_clash_def)
  have "booking_conflicts (bk_salon b) (bk_slotStart b) (bk_slotEnd b) x a"
    using c assms(3) by (auto simp: booking_conflicts_def staff_clash_def intervalsOverlap_def split: option.split)
  then show False
    using staff_free_no_booking [OF slot_checksD(2) [OF assms(1) m(1)] assms(2)] m(2) by simp
qed

section \<open>Each writer opened\<close>

lemma redeem_for_bookingD:
  assumes "redeem_for_booking clk sal c i req cap s = Inr t"
  shows "(t = s \<and> \<not> req > 0) \<or>
    (\<exists>r s1. req > 0 \<and> redeemUpTo clk c i req cap s = Inr (r, s1) \<and>
      db_credits t = db_credits s1 \<and> db_accounts t = db_accounts s1 \<and> db_next t = db_next s1 \<and>
      db_entries t = db_entries s \<and> db_sessions t = db_sessions s \<and> db_redemptions t = db_redemptions s \<and>
      db_ledger t = db_ledger s \<and> db_services t = db_services s \<and>
      db_bookings t = (if rr_actualUsedPaise r > 0
         then upd_where (\<lambda>b. bk_id b = i) (\<lambda>b. b\<lparr>bk_creditsRedeemed := Some (rr_actualUsedPaise r)\<rparr>) (db_bookings s)
         else db_bookings s) \<and>
      db_subsidies t = (if rr_fastQueFundedConsumedPaise r > 0
         then db_subsidies s @ [\<lparr>sb_salon = sal, sb_booking = i, sb_amount = rr_fastQueFundedConsumedPaise r,
                                 sb_status = SUB_OUTSTANDING, sb_voidedAt = None\<rparr>]
         else db_subsidies s))"
proof (cases "req > 0")
  case True
  then obtain r s1 where red: "redeemUpTo clk c i req cap s = Inr (r, s1)"
    using assms by (auto simp: redeem_for_booking_def success_simps)
  note F = wallet_frameD [OF redeemUpTo_frame [OF red]]
  have fr: "\<exists>cs as n. s1 = s\<lparr>db_credits := cs, db_accounts := as, db_next := n\<rparr>"
    using redeemUpTo_frame [OF red] unfolding wallet_frame_def by blast
  show ?thesis
    using assms True red fr
    by (intro disjI2 exI [of _ r] exI [of _ s1]) (auto simp: redeem_for_booking_def upd_booking_def Let_def)
qed (use assms in \<open>simp add: redeem_for_booking_def\<close>)

text \<open>Everything of a booking a redemption can change is the amount of credits, so it is safe for
  the table of bookings as long as the booking is its own.\<close>

lemma quoteBookingD:
  assumes "quoteBooking upd tz now pre c input source = Inr q"
  shows "getServicesOrThrow pre (br_salon input) (br_services input) = Inr (bq_services q)"
    and "bq_slotEnd q = br_slotStart input + minutes (total_duration (bq_services q))"
    and "now < br_slotStart input"
    and "\<exists>salon. getSalonOrThrow pre (br_salon input) = Inr salon \<and> bq_owner q = sa_owner salon"
    and "case br_offer input of
           None \<Rightarrow> bq_offer q = None \<and> money_err (computePercentageDiscountPaise
                   (sum_list (map sv_price (bq_services q))) (bq_percent q)) = Inr (bq_discount q)
         | Some i \<Rightarrow> \<exists>a. previewForBooking upd pre (br_salon input) c i (bq_services q) source now = Inr a
                   \<and> bq_offer q = Some a \<and> bq_discount q = ap_discount a"
    and "computeMaxRedeemable (paiseToDecimalString (max 0 (sum_list (map sv_price (bq_services q)) - bq_discount q)))
           = Inr (bq_maxCredits q)"
    and "bq_status q = B_CONFIRMED \<or> bq_status q = B_PENDING_PAYMENT"
    and "\<not> exists_where (\<lambda>e. le_customer e = c \<and> le_salon e = br_salon input \<and> le_status e = L_OUTSTANDING) (db_ledger pre)"
    and "assertWithinOperatingHours tz pre (br_salon input) (br_slotStart input) (bq_slotEnd q) = Inr ()"
    and "br_preferredStaff input = Some st \<Longrightarrow>
           assertStaffQualifiedForServices pre (br_salon input) (br_services input) st = Inr ()
         \<and> assertStaffWithinWorkingHours tz pre (br_salon input) st (br_slotStart input) (bq_slotEnd q) = Inr ()"
proof -
  define sal where "sal = br_salon input"
  obtain salon services offer discount cap st pp u1 u2 and grace :: salon_policy where
    salon: "getSalonOrThrow pre sal = Inr salon"
    and services: "getServicesOrThrow pre sal (br_services input) = Inr services"
    and offer: "(case br_offer input of None \<Rightarrow> Inr None
             | Some i \<Rightarrow> bindE (previewForBooking upd pre sal c i services source now) (\<lambda>a. Inr (Some a))) = Inr offer"
    and discount: "(case offer of Some a \<Rightarrow> Inr (ap_discount a)
             | None \<Rightarrow> money_err (computePercentageDiscountPaise (sum_list (map sv_price services))
                 (case offer of Some a \<Rightarrow> \<lfloor>ap_percent a\<rfloor>
                     | None \<Rightarrow> if source = SRC_APP \<or> source = SRC_WEB then sa_onlineBookingDiscountPercent salon else 0))) = Inr discount"
    and future: "\<not> br_slotStart input \<le> now"
    and hours: "assertWithinOperatingHours tz pre sal (br_slotStart input)
         (br_slotStart input + minutes (total_duration services)) = Inr u1"
    and staff: "(case br_preferredStaff input of None \<Rightarrow> Inr ()
             | Some st \<Rightarrow> bindE (assertStaffQualifiedForServices pre sal (br_services input) st) (\<lambda>_.
                         assertStaffWithinWorkingHours tz pre sal st (br_slotStart input)
                           (br_slotStart input + minutes (total_duration services)))) = Inr u2"
    and due: "\<not> exists_where (\<lambda>e. le_customer e = c \<and> le_salon e = sal \<and> le_status e = L_OUTSTANDING) (db_ledger pre)"
    and cap: "computeMaxRedeemable (paiseToDecimalString (max 0 (sum_list (map sv_price services) - discount))) = Inr cap"
    and terms: "prepayment_terms (find (\<lambda>p. pp_salon p = sal) (db_paymentPolicies pre))
        (max 0 (sum_list (map sv_price services) - discount)) = Inr (st, pp)"
    and q': "\<lparr>bq_services = services, bq_slotEnd = br_slotStart input + minutes (total_duration services),
             bq_percent = (case offer of Some a \<Rightarrow> \<lfloor>ap_percent a\<rfloor>
                     | None \<Rightarrow> if source = SRC_APP \<or> source = SRC_WEB then sa_onlineBookingDiscountPercent salon else 0),
             bq_discount = discount, bq_offer = offer, bq_maxCredits = cap, bq_status = st,
             bq_prepayment = pp, bq_graceMinutes = sp_arrivalGraceMinutes grace, bq_owner = sa_owner salon\<rparr> = q"
    using assms unfolding quoteBooking_def Let_def sal_def [symmetric] bindE_Inr guardE_Inr split_paired_Ex prod.case sum.inject
    by (elim exE conjE) (rule that, assumption+)
  note q = q' [symmetric]
  have status: "st = B_CONFIRMED \<or> st = B_PENDING_PAYMENT"
    using terms by (auto simp: prepayment_terms_def Let_def success_simps split: if_splits)
  show "getServicesOrThrow pre (br_salon input) (br_services input) = Inr (bq_services q)"
    using services by (simp add: q sal_def)
  show "bq_slotEnd q = br_slotStart input + minutes (total_duration (bq_services q))" by (simp add: q)
  show "now < br_slotStart input" using future by simp
  show "\<exists>salon. getSalonOrThrow pre (br_salon input) = Inr salon \<and> bq_owner q = sa_owner salon"
    using salon by (auto simp: q sal_def)
  show "case br_offer input of
           None \<Rightarrow> bq_offer q = None \<and> money_err (computePercentageDiscountPaise
                   (sum_list (map sv_price (bq_services q))) (bq_percent q)) = Inr (bq_discount q)
         | Some i \<Rightarrow> \<exists>a. previewForBooking upd pre (br_salon input) c i (bq_services q) source now = Inr a
                   \<and> bq_offer q = Some a \<and> bq_discount q = ap_discount a"
    using offer discount by (cases "br_offer input") (auto simp: q sal_def success_simps)
  show "computeMaxRedeemable (paiseToDecimalString (max 0 (sum_list (map sv_price (bq_services q)) - bq_discount q)))
           = Inr (bq_maxCredits q)"
    using cap by (simp add: q)
  show "bq_status q = B_CONFIRMED \<or> bq_status q = B_PENDING_PAYMENT" using status by (simp add: q)
  show "\<not> exists_where (\<lambda>e. le_customer e = c \<and> le_salon e = br_salon input \<and> le_status e = L_OUTSTANDING) (db_ledger pre)"
    using due unfolding sal_def .
  show "assertWithinOperatingHours tz pre (br_salon input) (br_slotStart input) (bq_slotEnd q) = Inr ()"
    using hours by (simp add: q sal_def)
  show "assertStaffQualifiedForServices pre (br_salon input) (br_services input) st = Inr ()
         \<and> assertStaffWithinWorkingHours tz pre (br_salon input) st (br_slotStart input) (bq_slotEnd q) = Inr ()"
    if "br_preferredStaff input = Some st" for st
    using staff that by (simp add: q sal_def success_simps)
qed

text \<open>The transaction of \<open>create\<close>: the row it inserts and the two ways it continues.\<close>

lemma create_txD:
  assumes "create_tx upd ord clk s c input source key q = Inr (t, i)"
  obtains locked :: "offer_application option" and s1 s2 where
    "slot_checks clk s (br_salon input) (br_services input) (br_preferredStaff input)
       (br_slotStart input) (bq_slotEnd q) None = Inr ()"
    "offer_recheck upd ord clk s c input source q = Inr locked" "i = db_next s"
    "insert_booking ((new_booking i c input source key q clk)\<lparr>bk_offer := map_option ap_offer locked\<rparr>) s = Inr s1"
    "s2 = (case locked of None \<Rightarrow> s1 | Some a \<Rightarrow> recordRedemption a (br_salon input) c i s1)"
    "redeem_for_booking clk (br_salon input) c i (br_creditsToRedeem input) (bq_maxCredits q) s2 = Inr t"
proof -
  obtain u s1 s3 and locked :: "offer_application option" where
    1: "slot_checks clk s (br_salon input) (br_services input) (br_preferredStaff input)
       (br_slotStart input) (bq_slotEnd q) None = Inr u"
    and 2: "offer_recheck upd ord clk s c input source q = Inr locked"
    and 3: "insert_booking ((new_booking (db_next s) c input source key q clk)\<lparr>bk_offer := map_option ap_offer locked\<rparr>) s = Inr s1"
    and 4: "redeem_for_booking clk (br_salon input) c (db_next s) (br_creditsToRedeem input) (bq_maxCredits q)
       (case locked of None \<Rightarrow> s1 | Some a \<Rightarrow> recordRedemption a (br_salon input) c (db_next s) s1) = Inr s3"
    and 5: "s3 = t" "db_next s = i"
    using assms unfolding create_tx_def Let_def bindE_Inr sum.inject prod.inject by blast
  show thesis by (rule that [OF _ 2 _ 3 [unfolded 5] refl 4 [unfolded 5]]) (use 1 5 in simp_all)
qed

lemma insert_bookingD:
  assumes "insert_booking b s = Inr t"
  shows "t = s\<lparr>db_bookings := db_bookings s @ [b], db_next := db_next s + 1\<rparr>"
  using assms by (auto simp: insert_booking_def success_simps)

lemma recordRedemption_frame:
  "db_bookings (recordRedemption a sal c i s) = db_bookings s" "db_entries (recordRedemption a sal c i s) = db_entries s"
  "db_sessions (recordRedemption a sal c i s) = db_sessions s" "db_next (recordRedemption a sal c i s) = db_next s"
  "db_credits (recordRedemption a sal c i s) = db_credits s" "db_accounts (recordRedemption a sal c i s) = db_accounts s"
  "db_subsidies (recordRedemption a sal c i s) = db_subsidies s" "db_ledger (recordRedemption a sal c i s) = db_ledger s"
  "db_manual (recordRedemption a sal c i s) = db_manual s"
  by (simp_all add: recordRedemption_def)

definition with_credits :: "paise option \<Rightarrow> booking \<Rightarrow> booking" where
  "with_credits cr b = (case cr of None \<Rightarrow> b | Some a \<Rightarrow> b\<lparr>bk_creditsRedeemed := Some a\<rparr>)"

lemma upd_where_snoc_fresh:
  assumes "\<And>r. r \<in> set rs \<Longrightarrow> k r \<noteq> i"
  shows "upd_where (\<lambda>r. k r = i) f (rs @ [b]) = rs @ [if k b = i then f b else b]"
proof -
  have "upd_where (\<lambda>r. k r = i) f rs = rs" using assms by (induction rs) auto
  then show ?thesis by simp
qed

text \<open>A created booking is one new row; entries and sessions stay as they are.\<close>

lemma create_txE:
  assumes tx: "create_tx upd ord clk s c input source key q = Inr (t, i)"
    and fresh: "\<And>b. b \<in> set (db_bookings s) \<Longrightarrow> bk_id b < db_next s"
  obtains locked :: "offer_application option" and cr where
    "slot_checks clk s (br_salon input) (br_services input) (br_preferredStaff input)
       (br_slotStart input) (bq_slotEnd q) None = Inr ()"
    "offer_recheck upd ord clk s c input source q = Inr locked" "i = db_next s"
    "key \<notin> bk_idempotencyKey ` set (db_bookings s)"
    "db_bookings t = db_bookings s @ [with_credits cr
       ((new_booking i c input source key q clk)\<lparr>bk_offer := map_option ap_offer locked\<rparr>)]"
    "db_entries t = db_entries s" "db_sessions t = db_sessions s" "db_next s < db_next t" "db_ledger t = db_ledger s"
    "\<exists>s2. db_credits s2 = db_credits s \<and> db_accounts s2 = db_accounts s \<and> db_next s2 = Suc (db_next s)
      \<and> db_subsidies s2 = db_subsidies s
      \<and> redeem_for_booking clk (br_salon input) c i (br_creditsToRedeem input) (bq_maxCredits q) s2 = Inr t"
    "cr = (if \<not> br_creditsToRedeem input > 0 then None else
       (let u = bk_creditsRedeemed (last (db_bookings t)) in u))"
proof (rule create_txD [OF tx])
  fix locked :: "offer_application option" and s1 s2
  let ?b = "(new_booking i c input source key q clk)\<lparr>bk_offer := map_option ap_offer locked\<rparr>"
  assume checks: "slot_checks clk s (br_salon input) (br_services input) (br_preferredStaff input)
       (br_slotStart input) (bq_slotEnd q) None = Inr ()"
    and recheck: "offer_recheck upd ord clk s c input source q = Inr locked" and i: "i = db_next s"
    and ins: "insert_booking ?b s = Inr s1"
    and s2: "s2 = (case locked of None \<Rightarrow> s1 | Some a \<Rightarrow> recordRedemption a (br_salon input) c i s1)"
    and red: "redeem_for_booking clk (br_salon input) c i (br_creditsToRedeem input) (bq_maxCredits q) s2 = Inr t"
  note s1 = insert_bookingD [OF ins]
  have key: "key \<notin> bk_idempotencyKey ` set (db_bookings s)"
    using ins by (auto simp: insert_booking_def success_simps table_simps new_booking_def)
  have F: "db_bookings s2 = db_bookings s @ [?b]" "db_entries s2 = db_entries s" "db_sessions s2 = db_sessions s"
    "db_next s2 = Suc (db_next s)" "db_credits s2 = db_credits s" "db_accounts s2 = db_accounts s"
    "db_subsidies s2 = db_subsidies s" "db_ledger s2 = db_ledger s"
    unfolding s2 s1 by (cases locked; simp add: recordRedemption_frame)+
  have bid: "bk_id ?b = i" and nocr: "bk_creditsRedeemed ?b = None" by (simp_all add: new_booking_def)
  have upd: "upd_where (\<lambda>b. bk_id b = i) f (db_bookings s @ [?b]) = db_bookings s @ [f ?b]" for f
    using upd_where_snoc_fresh [of "db_bookings s" bk_id i f ?b] fresh i bid by fastforce
  have s2ex: "\<exists>s2. db_credits s2 = db_credits s \<and> db_accounts s2 = db_accounts s \<and> db_next s2 = Suc (db_next s)
      \<and> db_subsidies s2 = db_subsidies s
      \<and> redeem_for_booking clk (br_salon input) c i (br_creditsToRedeem input) (bq_maxCredits q) s2 = Inr t"
    using F red by blast
  from redeem_for_bookingD [OF red] show thesis
  proof (elim disjE exE conjE)
    assume t: "t = s2" and no: "\<not> br_creditsToRedeem input > 0"
    show thesis
      by (rule that [of locked None, OF checks recheck i key]) (simp_all add: t F no s2ex [unfolded t] with_credits_def)
  next
    fix r s3
    assume pos: "br_creditsToRedeem input > 0"
      and rd: "redeemUpTo clk c i (br_creditsToRedeem input) (bq_maxCredits q) s2 = Inr (r, s3)"
      and t: "db_credits t = db_credits s3" "db_next t = db_next s3" "db_entries t = db_entries s2"
        "db_sessions t = db_sessions s2" "db_ledger t = db_ledger s2"
      and bks: "db_bookings t = (if rr_actualUsedPaise r > 0
         then upd_where (\<lambda>b. bk_id b = i) (\<lambda>b. b\<lparr>bk_creditsRedeemed := Some (rr_actualUsedPaise r)\<rparr>) (db_bookings s2)
         else db_bookings s2)"
    define cr where "cr = (if rr_actualUsedPaise r > 0 then Some (rr_actualUsedPaise r) else None)"
    have b: "db_bookings t = db_bookings s @ [with_credits cr ?b]"
      unfolding bks F(1) upd by (simp add: cr_def with_credits_def)
    have "db_next s < db_next t"
      using wallet_frameD(7) [OF redeemUpTo_frame [OF rd]] t(2) F(4) by simp
    moreover have "cr = bk_creditsRedeemed (last (db_bookings t))"
      unfolding b using nocr by (simp add: cr_def with_credits_def)
    ultimately show thesis
      by (intro that [of locked cr, OF checks recheck i key b]) (simp_all add: t F pos s2ex)
  qed
qed

section \<open>Every writer is safe\<close>

text \<open>Operations that leave entries and sessions alone keep everybody's seat.\<close>

lemma safe_step_same:
  "db_entries t = db_entries s \<Longrightarrow> db_sessions t = db_sessions s \<Longrightarrow> db_manual t = db_manual s \<Longrightarrow> db_next s \<le> db_next t
    \<Longrightarrow> safe_step s t"
  unfolding safe_step_def history_def by (auto intro: seat_inv_cong chairs_inv_cong)

lemma insert_booking_safe_step: "insert_booking b s = Inr t \<Longrightarrow> safe_step s t"
  by (rule safe_step_same) (auto dest!: insert_bookingD)

lemma new_booking_sel:
  "bk_id (with_credits cr ((new_booking i c input source key q clk)\<lparr>bk_offer := o'\<rparr>)) = i"
  "bk_salon (with_credits cr ((new_booking i c input source key q clk)\<lparr>bk_offer := o'\<rparr>)) = br_salon input"
  "bk_preferredStaff (with_credits cr ((new_booking i c input source key q clk)\<lparr>bk_offer := o'\<rparr>)) = br_preferredStaff input"
  "bk_slotStart (with_credits cr ((new_booking i c input source key q clk)\<lparr>bk_offer := o'\<rparr>)) = br_slotStart input"
  "bk_slotEnd (with_credits cr ((new_booking i c input source key q clk)\<lparr>bk_offer := o'\<rparr>)) = bq_slotEnd q"
  "bk_idempotencyKey (with_credits cr ((new_booking i c input source key q clk)\<lparr>bk_offer := o'\<rparr>)) = key"
  "bk_status (with_credits cr ((new_booking i c input source key q clk)\<lparr>bk_offer := o'\<rparr>)) = bq_status q"
  "bk_services (with_credits cr ((new_booking i c input source key q clk)\<lparr>bk_offer := o'\<rparr>)) = map item_of (bq_services q)"
  "bk_discountAmount (with_credits cr ((new_booking i c input source key q clk)\<lparr>bk_offer := o'\<rparr>)) = bq_discount q"
  "bk_customer (with_credits cr ((new_booking i c input source key q clk)\<lparr>bk_offer := o'\<rparr>)) = Some c"
  "bk_creditsRedeemed (with_credits cr ((new_booking i c input source key q clk)\<lparr>bk_offer := o'\<rparr>)) = cr"
  by (simp_all add: new_booking_def with_credits_def split: option.split)

lemma insert_row_safe_book:
  assumes inv: "book_inv s" and i: "bk_id b = db_next s" "db_next s < db_next t"
    and key: "bk_idempotencyKey b \<notin> bk_idempotencyKey ` set (db_bookings s)"
    and t: "db_bookings t = db_bookings s @ [b]"
    and free: "\<And>a. a \<in> set (db_bookings s) \<Longrightarrow> \<not> staff_clash a b"
  shows "book_inv t \<and> bhistory s t"
proof -
  have "db_next s \<notin> bk_id ` set (db_bookings s)" using inv by (force simp: book_inv_def)
  moreover have "no_clash (db_bookings s @ [b])"
    using inv free clash_sym by (intro no_clash_snoc) (auto simp: book_inv_def)
  ultimately show ?thesis
    using inv i key by (auto simp: book_inv_def bhistory_def t intro: less_trans)
qed

lemma create_tx_safe:
  assumes "create_tx upd ord clk s c input source key q = Inr (t, i)" and inv: "book_inv s"
  shows "book_inv t \<and> bhistory s t"
proof -
  have fresh: "\<And>b. b \<in> set (db_bookings s) \<Longrightarrow> bk_id b < db_next s" using inv by (simp add: book_inv_def)
  show "book_inv t \<and> bhistory s t"
  proof (rule create_txE [OF assms(1) fresh])
    fix locked :: "offer_application option" and cr
    let ?b = "with_credits cr ((new_booking i c input source key q clk)\<lparr>bk_offer := map_option ap_offer locked\<rparr>)"
    assume checks: "slot_checks clk s (br_salon input) (br_services input) (br_preferredStaff input)
       (br_slotStart input) (bq_slotEnd q) None = Inr ()"
      and i: "i = db_next s" and key: "key \<notin> bk_idempotencyKey ` set (db_bookings s)"
      and t: "db_bookings t = db_bookings s @ [?b]" and n: "db_next s < db_next t"
    have "\<not> staff_clash a ?b" if "a \<in> set (db_bookings s)" for a
      by (rule slot_checks_no_clash [OF _ that, of clk _ "br_services input" None])
        (simp_all add: new_booking_sel checks)
    then show ?thesis
      using i key by (intro insert_row_safe_book [OF inv _ n _ t]) (simp_all add: new_booking_sel)
  qed assumption
qed

lemma createBooking_safe:
  assumes "createBooking upd ord tz now clk pre s c input source key = Inr (t, i)"
  shows "safe_book s t"
proof -
  obtain q t0 es where tx: "create_tx upd ord clk s c input source key q = Inr (t0, i)" and t: "t = emit es t0"
    using assms by (auto simp: createBooking_def success_simps)
  have "safe_book s t0" using create_tx_safe [OF tx] by (simp add: safe_book_def)
  then show "safe_book s t" by (simp add: t)
qed

lemma createInShopD:
  assumes "createInShop tz now clk pre s sal u input key = Inr (t, i)"
  obtains services grace s1 where
    "getServicesOrThrow pre sal (is_services input) = Inr services"
    "slot_checks clk s sal (is_services input) (is_preferredStaff input) (is_slotStart input)
       (is_slotStart input + minutes (total_duration services)) None = Inr ()"
    "i = db_next s"
    "insert_booking (in_shop_booking i sal u input key services
       (is_slotStart input + minutes (total_duration services)) grace clk) s = Inr s1"
    "t = emit [Audit (Some u) ''BOOKING_CREATED_IN_SHOP'' i, BookingEvent ''created'' sal i, QueueUpdated sal] s1"
    "\<not> exists_where (same_in_shop_booking sal (is_slotStart input) (is_guestName input) services) (db_bookings s)"
    "now - minutes 5 \<le> is_slotStart input"
  using assms unfolding createInShop_def Let_def
  by (auto simp: success_simps split: sum.splits if_splits)

lemma createInShop_safe:
  assumes "createInShop tz now clk pre s sal u input key = Inr (t, i)"
  shows "safe_book s t" "safe_step s t"
proof -
  show "safe_book s t"
    using assms
  proof (rule createInShopD)
    fix services grace s1
    let ?b = "in_shop_booking i sal u input key services (is_slotStart input + minutes (total_duration services)) grace clk"
    assume checks: "slot_checks clk s sal (is_services input) (is_preferredStaff input) (is_slotStart input)
       (is_slotStart input + minutes (total_duration services)) None = Inr ()"
      and i: "i = db_next s" and ins: "insert_booking ?b s = Inr s1"
      and t: "t = emit [Audit (Some u) ''BOOKING_CREATED_IN_SHOP'' i, BookingEvent ''created'' sal i, QueueUpdated sal] s1"
    have "\<not> staff_clash a ?b" if "a \<in> set (db_bookings s)" for a
      by (rule slot_checks_no_clash [OF _ that, of clk _ "is_services input" None])
        (simp_all add: in_shop_booking_def checks)
    then have "safe_book s s1"
      using i by (intro safe_book_insert [OF ins]) (simp_all add: in_shop_booking_def)
    then show ?thesis unfolding t by simp
  qed
  show "safe_step s t"
    using assms by (rule createInShopD) (simp add: insert_booking_safe_step)
qed

lemma give_back_frame:
  "db_bookings (give_back_credits clk c i cr s) = db_bookings s" "db_entries (give_back_credits clk c i cr s) = db_entries s"
  "db_sessions (give_back_credits clk c i cr s) = db_sessions s" "db_next s \<le> db_next (give_back_credits clk c i cr s)"
  "db_ledger (give_back_credits clk c i cr s) = db_ledger s"
  "db_subsidies (give_back_credits clk c i cr s) = (if cr = None then db_subsidies s
     else upd_where (\<lambda>x. sb_booking x = i \<and> sb_status x = SUB_OUTSTANDING)
         (\<lambda>x. x\<lparr>sb_status := SUB_VOIDED, sb_voidedAt := Some clk\<rparr>) (db_subsidies s))"
  "db_manual (give_back_credits clk c i cr s) = db_manual s"
  using wallet_frameD [OF restore_frame]
  by (simp_all add: give_back_credits_def void_subsidies_def split: option.split)

lemma cancel_linked_frame:
  "db_bookings (cancel_linked_entries i s) = db_bookings s" "db_sessions (cancel_linked_entries i s) = db_sessions s"
  "db_next (cancel_linked_entries i s) = db_next s" "db_ledger (cancel_linked_entries i s) = db_ledger s"
  "db_subsidies (cancel_linked_entries i s) = db_subsidies s" "db_credits (cancel_linked_entries i s) = db_credits s"
  "db_accounts (cancel_linked_entries i s) = db_accounts s" "db_manual (cancel_linked_entries i s) = db_manual s"
  by (simp_all add: cancel_linked_entries_def upd_entries_def)

lemma upd_booking_frame [simp]:
  "db_entries (upd_booking i f s) = db_entries s" "db_sessions (upd_booking i f s) = db_sessions s"
  "db_next (upd_booking i f s) = db_next s" "db_ledger (upd_booking i f s) = db_ledger s"
  "db_subsidies (upd_booking i f s) = db_subsidies s" "db_credits (upd_booking i f s) = db_credits s"
  "db_accounts (upd_booking i f s) = db_accounts s" "db_manual (upd_booking i f s) = db_manual s"
  by (simp_all add: upd_booking_def)

lemma add_ledger_frame [simp]:
  "db_entries (add_ledger c sal i a r s) = db_entries s" "db_sessions (add_ledger c sal i a r s) = db_sessions s"
  "db_bookings (add_ledger c sal i a r s) = db_bookings s" "db_next (add_ledger c sal i a r s) = Suc (db_next s)"
  "db_subsidies (add_ledger c sal i a r s) = db_subsidies s" "db_credits (add_ledger c sal i a r s) = db_credits s"
  "db_accounts (add_ledger c sal i a r s) = db_accounts s" "db_manual (add_ledger c sal i a r s) = db_manual s"
  by (simp_all add: add_ledger_def)

lemma cancel_linked_safe: "safe_step a s \<Longrightarrow> safe_step a (cancel_linked_entries i s)"
  unfolding cancel_linked_entries_def
  by (rule safe_upd_calm)
    (auto simp: linked_cancellable_def entry_in_def QUEUE_ENTRY_STATUSES_CANCELLABLE_FROM_BOOKING_def
      keeps_seat_def keeps_hold_def entry_wf_def holds_staff_def holds_chair_def ekey_def)

definition cancel_row :: "ms \<Rightarrow> id \<Rightarrow> rat \<Rightarrow> booking \<Rightarrow> booking" where
  "cancel_row clk c charge b = b\<lparr>bk_status := B_CANCELLED, bk_cancelledAt := Some clk,
     bk_cancelledBy := Some c, bk_cancellationCharge := Some charge\<rparr>"

lemma cancel_txD:
  assumes "cancel_tx clk s bk c charge = Inr (t, l)"
  shows "\<exists>cur. find_booking s (bk_id bk) = Some cur \<and> cancellable cur"
    and "db_bookings t = upd_where (\<lambda>b. bk_id b = bk_id bk) (cancel_row clk c charge) (db_bookings s)"
    and "db_sessions t = db_sessions s" "db_next s \<le> db_next t"
    and "db_entries t = upd_where (linked_cancellable (bk_id bk)) (\<lambda>e. e\<lparr>qe_status := Q_CANCELLED\<rparr>) (db_entries s)"
    and "\<exists>s3. db_next s \<le> db_next s3 \<and> db_credits s3 = db_credits s \<and> db_accounts s3 = db_accounts s \<and>
       db_credits t = db_credits (give_back_credits clk c (bk_id bk) (bk_creditsRedeemed bk) s3) \<and>
       db_accounts t = db_accounts (give_back_credits clk c (bk_id bk) (bk_creditsRedeemed bk) s3) \<and>
       db_next t = db_next (give_back_credits clk c (bk_id bk) (bk_creditsRedeemed bk) s3)"
    and "db_ledger t = (if charge > 0 then db_ledger s @ [\<lparr>le_id = db_next s, le_customer = c, le_salon = bk_salon bk,
         le_booking = bk_id bk, le_amount = charge, le_reason = CANCELLATION_CHARGE, le_status = L_OUTSTANDING\<rparr>]
       else db_ledger s)"
    and "db_subsidies t = (if bk_creditsRedeemed bk = None then db_subsidies s
     else upd_where (\<lambda>x. sb_booking x = bk_id bk \<and> sb_status x = SUB_OUTSTANDING)
         (\<lambda>x. x\<lparr>sb_status := SUB_VOIDED, sb_voidedAt := Some clk\<rparr>) (db_subsidies s))"
    and "safe_step s t"
proof -
  define s1 where "s1 = upd_booking (bk_id bk) (cancel_row clk c charge) s"
  define s2 where "s2 = cancel_linked_entries (bk_id bk) s1"
  define s3 where "s3 = (if charge > 0 then add_ledger c (bk_salon bk) (bk_id bk) charge CANCELLATION_CHARGE s2 else s2)"
  have row: "(\<lambda>b. b\<lparr>bk_status := B_CANCELLED, bk_cancelledAt := Some clk, bk_cancelledBy := Some c,
      bk_cancellationCharge := Some charge\<rparr>) = cancel_row clk c charge"
    by (simp add: fun_eq_iff cancel_row_def)
  have t: "t = emit [Audit (Some c) ''BOOKING_CANCELLED'' (bk_id bk)]
      (give_back_credits clk c (bk_id bk) (bk_creditsRedeemed bk) s3)"
    and cur: "case find_booking s (bk_id bk) of None \<Rightarrow> False | Some current \<Rightarrow> cancellable current"
    using assms unfolding cancel_tx_def Let_def row s1_def [symmetric] s2_def [symmetric] s3_def [symmetric] guardE_Inr
    by simp_all
  show "\<exists>cur. find_booking s (bk_id bk) = Some cur \<and> cancellable cur" using cur by (auto split: option.splits)
  have b3: "db_bookings s3 = upd_where (\<lambda>b. bk_id b = bk_id bk) (cancel_row clk c charge) (db_bookings s)"
    by (simp add: s3_def s2_def s1_def cancel_linked_frame upd_booking_def)
  then show "db_bookings t = upd_where (\<lambda>b. bk_id b = bk_id bk) (cancel_row clk c charge) (db_bookings s)"
    by (simp add: t give_back_frame)
  have e3: "db_entries s3 = upd_where (linked_cancellable (bk_id bk)) (\<lambda>e. e\<lparr>qe_status := Q_CANCELLED\<rparr>) (db_entries s)"
    by (simp add: s3_def s2_def s1_def cancel_linked_entries_def upd_entries_def)
  then show "db_entries t = upd_where (linked_cancellable (bk_id bk)) (\<lambda>e. e\<lparr>qe_status := Q_CANCELLED\<rparr>) (db_entries s)"
    by (simp add: t give_back_frame)
  show "db_sessions t = db_sessions s" by (simp add: t give_back_frame s3_def s2_def s1_def cancel_linked_frame)
  have n3: "db_next s \<le> db_next s3" by (simp add: s3_def s2_def s1_def cancel_linked_frame)
  then show "db_next s \<le> db_next t" using give_back_frame(4) [of s3] by (auto simp: t intro: le_trans)
  have l2: "db_ledger s2 = db_ledger s" "db_next s2 = db_next s" by (simp_all add: s2_def s1_def cancel_linked_frame)
  show "db_ledger t = (if charge > 0 then db_ledger s @ [\<lparr>le_id = db_next s, le_customer = c, le_salon = bk_salon bk,
         le_booking = bk_id bk, le_amount = charge, le_reason = CANCELLATION_CHARGE, le_status = L_OUTSTANDING\<rparr>]
       else db_ledger s)"
    by (simp add: t give_back_frame s3_def add_ledger_def l2)
  show "db_subsidies t = (if bk_creditsRedeemed bk = None then db_subsidies s
     else upd_where (\<lambda>x. sb_booking x = bk_id bk \<and> sb_status x = SUB_OUTSTANDING)
         (\<lambda>x. x\<lparr>sb_status := SUB_VOIDED, sb_voidedAt := Some clk\<rparr>) (db_subsidies s))"
    by (simp add: t give_back_frame s3_def s2_def s1_def cancel_linked_frame)
  have cr3: "db_credits s3 = db_credits s" "db_accounts s3 = db_accounts s"
    by (simp_all add: s3_def s2_def s1_def cancel_linked_frame)
  show "\<exists>s3. db_next s \<le> db_next s3 \<and> db_credits s3 = db_credits s \<and> db_accounts s3 = db_accounts s \<and>
       db_credits t = db_credits (give_back_credits clk c (bk_id bk) (bk_creditsRedeemed bk) s3) \<and>
       db_accounts t = db_accounts (give_back_credits clk c (bk_id bk) (bk_creditsRedeemed bk) s3) \<and>
       db_next t = db_next (give_back_credits clk c (bk_id bk) (bk_creditsRedeemed bk) s3)"
    using n3 cr3 by (intro exI [of _ s3]) (simp add: t)
  have "safe_step s s1" by (rule safe_step_same) (simp_all add: s1_def)
  then have "safe_step s s2" unfolding s2_def by (rule cancel_linked_safe)
  moreover have "db_next s2 \<le> db_next s3" by (simp add: s3_def)
  then have "db_next s2 \<le> db_next t" using give_back_frame(4) [of s3] by (auto simp: t intro: le_trans)
  then have "safe_step s2 t"
    by (intro safe_step_same) (simp_all add: t give_back_frame s3_def)
  ultimately show "safe_step s t" by (rule safe_trans)
qed

text \<open>Marking one row cancelled keeps every barber's bookings apart.\<close>

lemma safe_book_cancel_row:
  assumes "db_bookings t = upd_where (\<lambda>b. bk_id b = i) f (db_bookings s)" "db_next s \<le> db_next t"
    and "\<And>b. bkey (f b) = bkey b \<and> bk_idempotencyKey (f b) = bk_idempotencyKey b
      \<and> bk_slotStart (f b) = bk_slotStart b \<and> bk_slotEnd (f b) = bk_slotEnd b \<and> bk_status (f b) = B_CANCELLED"
  shows "safe_book s t"
proof -
  have "safe_book s (upd_booking i f s)"
    by (rule safe_book_upd) (use assms(3) in \<open>simp add: reserving_def RESERVING_BOOKING_STATUSES_def\<close>)
  moreover have "safe_book (upd_booking i f s) t"
    by (rule safe_book_same) (use assms(1,2) in \<open>simp_all add: upd_booking_def\<close>)
  ultimately show ?thesis by (rule safe_book_trans)
qed

lemma recompute_frame [simp]:
  "db_bookings (recomputeEtas now sal s) = db_bookings s" "db_next (recomputeEtas now sal s) = db_next s"
  "db_ledger (recomputeEtas now sal s) = db_ledger s" "db_credits (recomputeEtas now sal s) = db_credits s"
  "db_accounts (recomputeEtas now sal s) = db_accounts s" "db_subsidies (recomputeEtas now sal s) = db_subsidies s"
proof -
  have *: "db_bookings (eta_loop sal busy r i es s) = db_bookings s \<and> db_next (eta_loop sal busy r i es s) = db_next s
     \<and> db_ledger (eta_loop sal busy r i es s) = db_ledger s \<and> db_credits (eta_loop sal busy r i es s) = db_credits s
     \<and> db_accounts (eta_loop sal busy r i es s) = db_accounts s \<and> db_subsidies (eta_loop sal busy r i es s) = db_subsidies s"
    for busy r i es s
  proof (induction sal busy r i es s rule: eta_loop.induct)
    case (2 sal busy rem i e es s)
    then show ?case
      by (simp add: eta_step_def Let_def upd_entries_def split: prod.split option.split)
  qed simp
  show "db_bookings (recomputeEtas now sal s) = db_bookings s" "db_next (recomputeEtas now sal s) = db_next s"
    "db_ledger (recomputeEtas now sal s) = db_ledger s" "db_credits (recomputeEtas now sal s) = db_credits s"
    "db_accounts (recomputeEtas now sal s) = db_accounts s" "db_subsidies (recomputeEtas now sal s) = db_subsidies s"
    by (simp_all add: recomputeEtas_def Let_def *)
qed

lemma safe_book_recompute [simp]: "safe_book a (recomputeEtas now sal s) = safe_book a s"
  by (simp add: safe_book_def book_inv_def bhistory_def)

lemma getOneD: "getOne s c i = Inr b \<Longrightarrow> b \<in> set (db_bookings s) \<and> bk_id b = i \<and> bk_customer b = Some c"
  by (auto simp: getOne_def success_simps dest: find_SomeD)

lemma cancelBookingD:
  assumes "cancelBooking now clk pre s c i = Inr (t, charge)"
  obtains bk pol t0 l where
    "getOne pre c i = Inr bk" "cancellable bk" "getEffectivePolicy pre (bk_salon bk) = Inr pol"
    "charge = computeCancellationCharge (sp_policy pol)
       (paiseToRupees (discountedServicePricePaise (resolveEffectiveBookingServices pre bk) (bk_discountAmount bk)))
       (of_int (bk_slotStart bk - now) / 60000) False"
    "cancel_tx clk s bk c charge = Inr (t0, l)"
    "\<exists>es es' es''. t = emit es (if l then emit es' (recomputeEtas clk (bk_salon bk) (emit es'' t0)) else emit es'' t0)"
proof -
  obtain bk where bk: "getOne pre c i = Inr bk" "cancellable bk"
    using assms unfolding cancelBooking_def bindE_Inr guardE_Inr by blast
  obtain pol :: salon_policy where pol: "getEffectivePolicy pre (bk_salon bk) = Inr pol"
    using assms bk unfolding cancelBooking_def bindE_Inr guardE_Inr by auto
  define ch where "ch = computeCancellationCharge (sp_policy pol)
       (paiseToRupees (discountedServicePricePaise (resolveEffectiveBookingServices pre bk) (bk_discountAmount bk)))
       (of_int (bk_slotStart bk - now) / 60000) False"
  obtain es where run: "cancelBooking now clk pre s c i = bindE (cancel_tx clk s bk c ch) (\<lambda>(t0, l).
      Inr (emit es (if l then emit [QueueUpdated (bk_salon bk), AutoAssignTrigger (bk_salon bk)]
            (recomputeEtas clk (bk_salon bk) (emit [BookingEvent ''cancelled'' (bk_salon bk) i] t0))
          else emit [BookingEvent ''cancelled'' (bk_salon bk) i] t0), ch))"
    unfolding cancelBooking_def Let_def bk(1) pol bindE_simps ch_def [symmetric]
    by (simp only: bk(2) guardE_True)
  then obtain t0 l where tx: "cancel_tx clk s bk c ch = Inr (t0, l)"
    and t: "t = emit es (if l then emit [QueueUpdated (bk_salon bk), AutoAssignTrigger (bk_salon bk)]
            (recomputeEtas clk (bk_salon bk) (emit [BookingEvent ''cancelled'' (bk_salon bk) i] t0))
          else emit [BookingEvent ''cancelled'' (bk_salon bk) i] t0)" and ch: "charge = ch"
    using assms unfolding run bindE_Inr by auto
  show thesis
    by (rule that [OF bk pol]) (use tx t ch in \<open>simp_all only: ch_def [symmetric]\<close>, blast)
qed

lemma cancelBooking_safe:
  assumes "cancelBooking now clk pre s c i = Inr (t, charge)"
  shows "safe_book s t" "safe_step s t"
proof -
  obtain bk t0 l es es' es'' where tx: "cancel_tx clk s bk c charge = Inr (t0, l)"
    and t: "t = emit es (if l then emit es' (recomputeEtas clk (bk_salon bk) (emit es'' t0)) else emit es'' t0)"
    by (rule cancelBookingD [OF assms]) blast
  note D = cancel_txD [OF tx]
  have "safe_book s t0"
    by (rule safe_book_cancel_row [OF D(2,4)]) (simp add: cancel_row_def bkey_def)
  then show "safe_book s t" by (simp add: t)
  show "safe_step s t" using D(9) by (simp add: t safe_recompute)
qed

lemma cancelByShop_safe:
  assumes "cancelByShop clk pre s sal i u act reason = Inr t"
  shows "safe_book s t" "safe_step s t"
proof -
  obtain bk t0 l where tx: "cancel_by_shop_tx clk s bk u act reason = Inr (t0, l)"
    and t: "t = emit [QueueUpdated sal] (if l then emit [AutoAssignTrigger sal]
        (recomputeEtas clk sal (emit [BookingEvent ''cancelled'' sal i] t0)) else emit [BookingEvent ''cancelled'' sal i] t0)"
    using assms unfolding cancelByShop_def by (auto simp: success_simps Let_def)
  define f where "f = (\<lambda>b::booking. b\<lparr>bk_status := B_CANCELLED, bk_cancelledAt := Some clk,
                    bk_cancelledBy := Some u, bk_cancelledByActor := Some act,
                    bk_cancellationReason := reason, bk_cancellationCharge := None\<rparr>)"
  define s2 where "s2 = cancel_linked_entries (bk_id bk) (upd_booking (bk_id bk) f s)"
  define s3 where "s3 = (case bk_customer bk of None \<Rightarrow> s2
      | Some c \<Rightarrow> give_back_credits clk c (bk_id bk) (bk_creditsRedeemed bk) s2)"
  have t0: "\<exists>es. t0 = emit es s3"
    using tx unfolding cancel_by_shop_tx_def Let_def f_def [symmetric] s2_def [symmetric] s3_def [symmetric]
    by (auto simp: success_simps)
  have F: "db_bookings s3 = upd_where (\<lambda>b. bk_id b = bk_id bk) f (db_bookings s)" "db_next s \<le> db_next s3"
    "db_entries s3 = db_entries s2" "db_sessions s3 = db_sessions s2" "db_next s2 \<le> db_next s3" "db_manual s3 = db_manual s2"
    using give_back_frame(4) [of s2]
    by (auto simp: s3_def s2_def cancel_linked_frame give_back_frame upd_booking_def split: option.split)
  have "safe_book s s3"
    by (rule safe_book_cancel_row [OF F(1,2)]) (simp add: f_def bkey_def)
  then show "safe_book s t" using t t0 by auto
  have "safe_step s (upd_booking (bk_id bk) f s)" by (rule safe_step_same) simp_all
  then have "safe_step s s2" unfolding s2_def by (rule cancel_linked_safe)
  moreover have "safe_step s2 s3" by (rule safe_step_same) (use F in simp_all)
  ultimately have "safe_step s s3" by (rule safe_trans)
  then show "safe_step s t" using t t0 by (auto simp: safe_recompute)
qed

lemma rescheduleLoadedD:
  assumes "rescheduleLoaded tz now clk pre s bk u ns byShop = Inr t"
  obtains ne es where
    "cancellable bk" "now < bk_slotStart bk" "now < ns"
    "ne = ns + minutes (sum_list (map bi_duration (resolveEffectiveBookingServices pre bk)))"
    "slot_checks clk s (bk_salon bk) (map bi_service (resolveEffectiveBookingServices pre bk))
       (bk_preferredStaff bk) ns ne (Some (bk_id bk)) = Inr ()"
    "find_booking s (bk_id bk) \<noteq> None"
    "t = emit es (upd_booking (bk_id bk) (\<lambda>b. b\<lparr>bk_slotStart := ns, bk_slotEnd := ne\<rparr>) s)"
    "assertWithinOperatingHours tz pre (bk_salon bk) ns ne = Inr ()"
proof -
  define ne where "ne = ns + minutes (sum_list (map bi_duration (resolveEffectiveBookingServices pre bk)))"
  have g: "cancellable bk" "\<not> bk_slotStart bk \<le> now" "\<not> ns \<le> now"
    and run: "bindE (assertWithinOperatingHours tz pre (bk_salon bk) ns ne) (\<lambda>_.
          bindE (case bk_preferredStaff bk of None \<Rightarrow> Inr ()
                 | Some st \<Rightarrow> assertStaffWithinWorkingHours tz pre (bk_salon bk) st ns ne) (\<lambda>_.
          bindE (reschedule_tx clk pre s bk u ns ne byShop) (\<lambda>t.
            Inr (emit [BookingEvent ''rescheduled'' (bk_salon bk) (bk_id bk), QueueUpdated (bk_salon bk)] t)))) = Inr t"
    using assms unfolding rescheduleLoaded_def Let_def ne_def [symmetric] guardE_Inr by blast+
  obtain t0 where tx: "reschedule_tx clk pre s bk u ns ne byShop = Inr t0"
    and t: "t = emit [BookingEvent ''rescheduled'' (bk_salon bk) (bk_id bk), QueueUpdated (bk_salon bk)] t0"
    using run by (auto simp: success_simps)
  have h: "assertWithinOperatingHours tz pre (bk_salon bk) ns ne = Inr ()"
    using run by (auto simp: success_simps)
  define es where "es = [Audit (Some u) (if byShop then ''BOOKING_RESCHEDULED_BY_SHOP'' else ''BOOKING_RESCHEDULED'')
                     (bk_id bk)]"
  obtain z where tx': "slot_checks clk s (bk_salon bk) (map bi_service (resolveEffectiveBookingServices pre bk))
       (bk_preferredStaff bk) ns ne (Some (bk_id bk)) = Inr z" "find_booking s (bk_id bk) \<noteq> None"
    "emit es (upd_booking (bk_id bk) (\<lambda>b. b\<lparr>bk_slotStart := ns, bk_slotEnd := ne\<rparr>) s) = t0"
    using tx unfolding reschedule_tx_def es_def [symmetric] bindE_Inr guardE_Inr sum.inject by blast
  have t': "t = emit (es @ [BookingEvent ''rescheduled'' (bk_salon bk) (bk_id bk), QueueUpdated (bk_salon bk)])
      (upd_booking (bk_id bk) (\<lambda>b. b\<lparr>bk_slotStart := ns, bk_slotEnd := ne\<rparr>) s)"
    unfolding t tx'(3) [symmetric] by (simp add: emit_def)
  show thesis
    by (rule that [OF g(1) _ _ ne_def _ tx'(2) t' h]) (use tx'(1) g(2,3) in simp_all)
qed

lemma reschedule_book:
  assumes run: "rescheduleLoaded tz now clk pre s bk u ns byShop = Inr t"
    and hist: "bhistory pre s" and bk: "bk \<in> set (db_bookings pre)"
  shows "safe_book s t" "safe_step s t"
proof -
  show "safe_book s t"
  proof (rule rescheduleLoadedD [OF run])
    fix ne es
    let ?f = "\<lambda>b::booking. b\<lparr>bk_slotStart := ns, bk_slotEnd := ne\<rparr>"
    let ?u = "upd_where (\<lambda>b. bk_id b = bk_id bk) ?f (db_bookings s)"
    assume checks: "slot_checks clk s (bk_salon bk) (map bi_service (resolveEffectiveBookingServices pre bk))
       (bk_preferredStaff bk) ns ne (Some (bk_id bk)) = Inr ()"
      and t: "t = emit es (upd_booking (bk_id bk) ?f s)"
    have keys: "map bkey ?u = map bkey (db_bookings s)" "map bk_idempotencyKey ?u = map bk_idempotencyKey (db_bookings s)"
      "map bk_id ?u = map bk_id (db_bookings s)"
      by (rule map_upd_where; simp add: bkey_def)+
    have "no_clash ?u" if inv: "book_inv s"
      unfolding no_clash_def
    proof (intro ballI impI notI)
      have d: "distinct (map bk_id (db_bookings s))" using inv by (simp add: book_inv_def)
      obtain cur where cur: "cur \<in> set (db_bookings s)" "bkey cur = bkey bk" using bhistory_row [OF hist bk] by blast
      note K = bkey_eqD [OF cur(2)]
      have moved: "\<not> staff_clash a (?f cur)" if a: "a \<in> set (db_bookings s)" "bk_id a \<noteq> bk_id bk" for a
        by (rule slot_checks_no_clash [OF _ a(1), of clk _ "map bi_service (resolveEffectiveBookingServices pre bk)" "Some (bk_id bk)"])
          (use a(2) checks K in simp_all)
      have one: "x \<in> set (db_bookings s) \<and> bk_id x \<noteq> bk_id bk \<or> x = ?f cur" if x: "x \<in> set ?u" for x
      proof -
        obtain r where r: "r \<in> set (db_bookings s)" "x = (if bk_id r = bk_id bk then ?f r else r)"
          using x unfolding in_upd_where by blast
        show ?thesis
        proof (cases "bk_id r = bk_id bk")
          case True
          then have "r = cur" using distinct_key_eq [OF d r(1) cur(1)] K(1) by simp
          then show ?thesis using r(2) True by simp
        qed (use r in simp)
      qed
      fix a b assume ab: "a \<in> set ?u" "b \<in> set ?u" "bk_id a \<noteq> bk_id b" "staff_clash a b"
      from one [OF ab(1)] one [OF ab(2)] show False
      proof (elim disjE conjE)
        assume "a \<in> set (db_bookings s)" "b \<in> set (db_bookings s)"
        then show False using inv ab(3,4) by (simp add: book_inv_def no_clash_def)
      next
        assume "a \<in> set (db_bookings s)" "bk_id a \<noteq> bk_id bk" "b = ?f cur"
        then show False using moved [of a] ab(4) by simp
      next
        assume "b \<in> set (db_bookings s)" "bk_id b \<noteq> bk_id bk" "a = ?f cur"
        then show False using moved [of b] ab(4) clash_sym by simp
      next
        assume "a = ?f cur" "b = ?f cur"
        then show False using ab(3) by simp
      qed
    qed
    moreover have "bkey ` set ?u = bkey ` set (db_bookings s)" using arg_cong [OF keys(1), of set] by simp
    moreover have "bk_id ` set ?u = bk_id ` set (db_bookings s)" using arg_cong [OF keys(3), of set] by simp
    then have "(\<forall>b\<in>set (db_bookings s). bk_id b < n) \<Longrightarrow> (\<forall>b\<in>set ?u. bk_id b < n)" for n
      by (metis (no_types, lifting) image_iff)
    ultimately show ?thesis
      unfolding t safe_book_emit unfolding safe_book_def book_inv_def bhistory_def upd_booking_def
      by (simp add: keys)
  qed
  show "safe_step s t"
    by (rule rescheduleLoadedD [OF run]) (simp, rule safe_step_same; simp)
qed

lemma reschedule_safe:
  assumes "reschedule tz now clk pre s c i ns = Inr t" "bhistory pre s"
  shows "safe_book s t" "safe_step s t"
proof -
  obtain bk where bk: "getOne pre c i = Inr bk" "rescheduleLoaded tz now clk pre s bk c ns False = Inr t"
    using assms(1) by (auto simp: reschedule_def success_simps)
  show "safe_book s t" "safe_step s t"
    using reschedule_book [OF bk(2) assms(2)] getOneD [OF bk(1)] by blast+
qed

lemma rescheduleByShop_safe:
  assumes "rescheduleByShop tz now clk pre s sal i u ns = Inr (t, prev)" "bhistory pre s"
  shows "safe_book s t" "safe_step s t"
proof -
  obtain bk where bk: "bk \<in> set (db_bookings pre)" "rescheduleLoaded tz now clk pre s bk u ns True = Inr t"
    using assms(1) by (auto simp: rescheduleByShop_def success_simps dest: find_SomeD)
  show "safe_book s t" "safe_step s t"
    using reschedule_book [OF bk(2) assms(2) bk(1)] by blast+
qed

section \<open>Prices of a new booking\<close>

lemma preview_discount_bound:
  assumes val: "previewForBooking upd pre sal c i svs source now = Inr a" and ok: "offers_ok pre"
    and prices: "\<forall>sv\<in>set svs. 0 \<le> sv_price sv"
  shows "0 \<le> ap_discount a" "ap_discount a \<le> sum_list (map sv_price svs)"
proof -
  obtain off d where off: "getOffer pre sal i = Some off" and d: "totalDiscount off svs = Inr d" "ap_discount a = d" "0 < d"
    using val by (auto simp: previewForBooking_def validateOfferForBooking_def success_simps)
  obtain ls where ls: "calculateLines off svs = Inr ls" "lines_ok off svs ls"
    using calculateLines_ok [OF _ prices, of off] ok getOfferD [OF off] by (auto simp: offers_ok_def)
  have "d = sum_list (map ol_discount ls)" using d(1) ls(1) by (simp add: totalDiscount_def)
  also have "\<dots> \<le> sum_list (map ol_base ls)"
    by (rule sum_list_mono) (use ls(2) in \<open>simp add: lines_ok_def\<close>)
  also have "\<dots> = sum_list (map sv_price svs)" using ls(2) by (simp add: lines_ok_def)
  finally show "ap_discount a \<le> sum_list (map sv_price svs)" by (simp add: d(2))
  show "0 \<le> ap_discount a" using d by simp
qed

lemma quote_discount_bound:
  assumes q: "quoteBooking upd tz now pre c input source = Inr q" and ok: "offers_ok pre"
    and prices: "\<forall>sv\<in>set (bq_services q). 0 \<le> sv_price sv"
  shows "0 \<le> bq_discount q" "bq_discount q \<le> sum_list (map sv_price (bq_services q))"
proof -
  have "0 \<le> bq_discount q \<and> bq_discount q \<le> sum_list (map sv_price (bq_services q))"
  proof (cases "br_offer input")
    case None
    then have "money_err (computePercentageDiscountPaise (sum_list (map sv_price (bq_services q))) (bq_percent q))
        = Inr (bq_discount q)"
      using quoteBookingD(5) [OF q] by simp
    then have "computePercentageDiscountPaise (sum_list (map sv_price (bq_services q))) (bq_percent q) = Inr (bq_discount q)"
      by (simp add: money_err_def split: sum.splits)
    from discount_bound [OF this] show ?thesis by simp
  next
    case (Some i)
    then obtain a where "previewForBooking upd pre (br_salon input) c i (bq_services q) source now = Inr a"
      "bq_discount q = ap_discount a"
      using quoteBookingD(5) [OF q] by auto
    then show ?thesis using preview_discount_bound [OF _ ok prices] by simp
  qed
  then show "0 \<le> bq_discount q" "bq_discount q \<le> sum_list (map sv_price (bq_services q))" by blast+
qed

lemma numberToPaise_rupees_eq: "numberToPaise (paiseToRupees p) = Inr q \<Longrightarrow> q = p"
  by (simp add: numberToPaise_def paiseToRupees_def split: if_splits)

lemma cap_of_quote:
  assumes q: "quoteBooking upd tz now pre c input source = Inr q" and cp: "numberToPaise (bq_maxCredits q) = Inr cp"
  shows "0 \<le> cp" "5 * cp \<le> max 0 (sum_list (map sv_price (bq_services q)) - bq_discount q)"
proof -
  let ?x = "max 0 (sum_list (map sv_price (bq_services q)) - bq_discount q)"
  obtain k where k: "computeMaxRedeemableCreditsPaise ?x = Inr k" "bq_maxCredits q = paiseToRupees k"
    using quoteBookingD(6) [OF q] by (auto simp: computeMaxRedeemable_def decimal_of_paise split: sum.splits)
  have "cp = k" using cp unfolding k(2) by (rule numberToPaise_rupees_eq)
  then show "0 \<le> cp" "5 * cp \<le> ?x" using cap_bound [OF k(1)] by simp_all
qed

text \<open>The credits redeemed for a booking: what the booking shows is what left the wallet.\<close>

lemma wallet_inv_same:
  assumes "wallet_inv s" "db_credits t = db_credits s" "db_accounts t = db_accounts s" "db_next s \<le> db_next t"
  shows "wallet_inv t"
  using assms unfolding wallet_inv_def by (metis less_le_trans)

lemma walletBalance_same:
  assumes "db_credits t = db_credits s" "db_accounts t = db_accounts s"
  shows "walletBalance t now u = walletBalance s now u"
proof -
  have "sumValidLots t = sumValidLots s" using assms by (simp add: sumValidLots_def fun_eq_iff)
  then show ?thesis using assms(2) by (simp add: walletBalance_def find_account_def cong: option.case_cong)
qed

lemma redeem_for_booking_effect:
  assumes run: "redeem_for_booking clk sal c i req cap s = Inr t" and inv: "wallet_inv s"
    and cap: "\<And>cp. numberToPaise cap = Inr cp \<Longrightarrow> 0 \<le> cp \<and> cp \<le> m" "0 \<le> m"
  shows "\<exists>u. 0 \<le> u \<and> u \<le> m \<and> walletBalance t clk c = walletBalance s clk c - u
     \<and> (\<forall>v n. v = c \<or> walletBalance t n v = walletBalance s n v) \<and> wallet_inv t
     \<and> db_bookings t = (if u > 0 then upd_where (\<lambda>b. bk_id b = i) (\<lambda>b. b\<lparr>bk_creditsRedeemed := Some u\<rparr>) (db_bookings s)
         else db_bookings s)
     \<and> (\<exists>f. 0 \<le> f \<and> f \<le> u \<and> db_subsidies t = (if f > 0 then db_subsidies s @ [\<lparr>sb_salon = sal, sb_booking = i,
          sb_amount = f, sb_status = SUB_OUTSTANDING, sb_voidedAt = None\<rparr>] else db_subsidies s))"
  using redeem_for_bookingD [OF run]
proof (elim disjE exE conjE)
  assume "t = s"
  then show ?thesis using inv cap(2) by (intro exI [of _ 0]) auto
next
  fix r s1
  assume red: "redeemUpTo clk c i req cap s = Inr (r, s1)"
    and t: "db_credits t = db_credits s1" "db_accounts t = db_accounts s1" "db_next t = db_next s1"
    and bks: "db_bookings t = (if rr_actualUsedPaise r > 0
         then upd_where (\<lambda>b. bk_id b = i) (\<lambda>b. b\<lparr>bk_creditsRedeemed := Some (rr_actualUsedPaise r)\<rparr>) (db_bookings s)
         else db_bookings s)"
    and subs: "db_subsidies t = (if rr_fastQueFundedConsumedPaise r > 0
         then db_subsidies s @ [\<lparr>sb_salon = sal, sb_booking = i, sb_amount = rr_fastQueFundedConsumedPaise r,
                                 sb_status = SUB_OUTSTANDING, sb_voidedAt = None\<rparr>]
         else db_subsidies s)"
  have E: "0 \<le> rr_actualUsedPaise r \<and> rr_actualUsedPaise r \<le> m
     \<and> walletBalance s1 clk c = walletBalance s clk c - rr_actualUsedPaise r
     \<and> (\<forall>v n. v = c \<or> walletBalance s1 n v = walletBalance s n v) \<and> wallet_inv s1
     \<and> 0 \<le> rr_fastQueFundedConsumedPaise r \<and> rr_fastQueFundedConsumedPaise r \<le> rr_actualUsedPaise r"
    using redeemUpToD [OF red]
  proof (elim disjE exE conjE)
    assume "r = no_redemption" "s1 = s"
    then show ?thesis using inv cap(2) by (simp add: no_redemption_def)
  next
    fix acc rp cp tgt rest fd s1'
    assume p: "numberToPaise req = Inr rp" "numberToPaise cap = Inr cp"
    from redeemUpTo_effect [OF inv p, of clk c i] red
    have "rr_actualUsedPaise r = max 0 (min (min rp (walletBalance s clk c)) cp)
       \<and> 0 \<le> rr_fastQueFundedConsumedPaise r \<and> rr_fastQueFundedConsumedPaise r \<le> rr_actualUsedPaise r
       \<and> walletBalance s1 clk c = walletBalance s clk c - rr_actualUsedPaise r
       \<and> (\<forall>v n. v = c \<or> walletBalance s1 n v = walletBalance s n v) \<and> wallet_inv s1" by auto
    moreover have "0 \<le> max 0 (min (min rp (walletBalance s clk c)) cp)
        \<and> max 0 (min (min rp (walletBalance s clk c)) cp) \<le> m"
      using cap(1) [OF p(2)] cap(2) by (simp add: max_def min_def)
    ultimately show ?thesis by simp
  qed
  have w: "walletBalance t n v = walletBalance s1 n v" for n v by (rule walletBalance_same [OF t(1,2)])
  have "wallet_inv t" by (rule wallet_inv_same [OF _ t(1,2)]) (use E t(3) in simp_all)
  then show ?thesis
    using E bks subs by (intro exI [of _ "rr_actualUsedPaise r"] conjI exI [of _ "rr_fastQueFundedConsumedPaise r"]) (simp_all add: w)
qed

end
