(* ===== verification/Booking_Props.thy ===== *)
theory Booking_Props
  imports Bookings
begin

text \<open>
  What the appointments promise: a created booking takes a slot that was free and never overbooks
  the pool or the barber, its prices add up to the paisa, a cancellation settles exactly once, and
  creating and cancelling leaves the wallet as it was.
\<close>

section \<open>A created booking\<close>

lemma redeem_for_booking_tables:
  assumes "redeem_for_booking clk sal c i req cap s = Inr t"
  shows "db_services t = db_services s" "db_staff t = db_staff s" "db_staffServices t = db_staffServices s"
    "db_chairs t = db_chairs s" "db_entries t = db_entries s" "db_sessions t = db_sessions s" "db_manual t = db_manual s"
proof -
  let ?F = "\<lambda>t. db_services t = db_services s \<and> db_staff t = db_staff s \<and> db_staffServices t = db_staffServices s
    \<and> db_chairs t = db_chairs s \<and> db_entries t = db_entries s \<and> db_sessions t = db_sessions s \<and> db_manual t = db_manual s"
  have "?F t"
  proof (cases "req > 0")
    case True
    then obtain r s1 where red: "redeemUpTo clk c i req cap s = Inr (r, s1)"
      using assms by (auto simp: redeem_for_booking_def success_simps)
    have "\<exists>cs as n. s1 = s\<lparr>db_credits := cs, db_accounts := as, db_next := n\<rparr>"
      using redeemUpTo_frame [OF red] unfolding wallet_frame_def by blast
    then show ?thesis
      using assms True red by (auto simp: redeem_for_booking_def upd_booking_def Let_def)
  next
    case False
    then show ?thesis using assms by (simp add: redeem_for_booking_def)
  qed
  then show "db_services t = db_services s" "db_staff t = db_staff s" "db_staffServices t = db_staffServices s"
    "db_chairs t = db_chairs s" "db_entries t = db_entries s" "db_sessions t = db_sessions s" "db_manual t = db_manual s" by simp_all
qed

lemma create_tx_tables:
  assumes "create_tx upd ord clk s c input source key q = Inr (t, i)"
  shows "db_services t = db_services s" "db_staff t = db_staff s" "db_staffServices t = db_staffServices s"
    "db_chairs t = db_chairs s"
proof -
  from assms obtain locked :: "offer_application option" and s1 s2 where
    ins: "insert_booking ((new_booking i c input source key q clk)\<lparr>bk_offer := map_option ap_offer locked\<rparr>) s = Inr s1"
    and s2: "s2 = (case locked of None \<Rightarrow> s1 | Some a \<Rightarrow> recordRedemption a (br_salon input) c i s1)"
    and red: "redeem_for_booking clk (br_salon input) c i (br_creditsToRedeem input) (bq_maxCredits q) s2 = Inr t"
    by (rule create_txD)
  have "db_services s2 = db_services s" "db_staff s2 = db_staff s" "db_staffServices s2 = db_staffServices s"
    "db_chairs s2 = db_chairs s"
    unfolding s2 insert_bookingD [OF ins] by (simp_all add: recordRedemption_def split: option.split)
  then show "db_services t = db_services s" "db_staff t = db_staff s" "db_staffServices t = db_staffServices s"
    "db_chairs t = db_chairs s"
    using redeem_for_booking_tables [OF red] by simp_all
qed

lemma pool_after_insert:
  assumes b: "db_bookings t = db_bookings s @ [b]" and e: "db_entries t = db_entries s" "db_sessions t = db_sessions s"
    "db_services t = db_services s" "db_chairs t = db_chairs s"
  shows "countPoolReservations clk t sal a z None \<le> Suc (countPoolReservations clk s sal a z None)"
proof -
  have fe: "find_entry t = find_entry s" by (simp add: fun_eq_iff find_entry_def e)
  have fs: "find_service t = find_service s" by (simp add: fun_eq_iff find_service_def e)
  have fc: "find_chair t = find_chair s" by (simp add: fun_eq_iff find_chair_def e)
  have 1: "session_overlaps t clk = session_overlaps s clk"
    by (simp add: fun_eq_iff session_overlaps_def session_duration_def fs)
  have 2: "entry_service_duration t = entry_service_duration s"
    by (simp add: fun_eq_iff entry_service_duration_def fs cong: option.case_cong)
  have 3: "hold_overlaps t clk = hold_overlaps s clk"
    by (simp add: fun_eq_iff hold_overlaps_def hold_end_def 2)
  have 4: "session_in_salon t = session_in_salon s" "session_is_walk_in t = session_is_walk_in s"
    by (simp_all add: fun_eq_iff session_in_salon_def session_is_walk_in_def fe fc cong: option.case_cong)
  show ?thesis by (simp add: countPoolReservations_def Let_def b e 1 3 4)
qed

lemma capacity_cong:
  assumes "db_staff t = db_staff s" "db_staffServices t = db_staffServices s" "db_chairs t = db_chairs s"
  shows "getSlotCapacityForServices t sal ids = getSlotCapacityForServices s sal ids"
proof -
  have "qualifiedStaffWhereForServices t sal ids = qualifiedStaffWhereForServices s sal ids"
    by (simp add: fun_eq_iff qualifiedStaffWhereForServices_def restrictedServiceIds_def assms)
  then show ?thesis by (simp add: getSlotCapacityForServices_def assms)
qed

text \<open>The row \<open>createBooking\<close> adds, in terms of its quote.\<close>

lemma createBookingE:
  assumes run: "createBooking upd ord tz now clk pre s c input source key = Inr (t, i)" and inv: "book_inv s"
  obtains q t0 b es where
    "quoteBooking upd tz now pre c input source = Inr q"
    "create_tx upd ord clk s c input source key q = Inr (t0, i)" "t = emit es t0"
    "i = db_next s" "db_bookings t = db_bookings s @ [b]" "bk_id b = i" "bk_salon b = br_salon input"
    "bk_customer b = Some c" "bk_slotStart b = br_slotStart input" "bk_slotEnd b = bq_slotEnd q"
    "bk_status b = bq_status q" "bk_preferredStaff b = br_preferredStaff input"
    "bk_services b = map item_of (bq_services q)" "bk_discountAmount b = bq_discount q"
    "bk_idempotencyKey b = key"
    "db_entries t = db_entries s" "db_sessions t = db_sessions s"
proof -
  obtain q t0 es where q: "quoteBooking upd tz now pre c input source = Inr q"
    and tx: "create_tx upd ord clk s c input source key q = Inr (t0, i)" and t: "t = emit es t0"
    using run by (auto simp: createBooking_def success_simps)
  have fresh: "bk_id r < db_next s" if "r \<in> set (db_bookings s)" for r using inv that by (simp add: book_inv_def)
  show thesis
  proof (rule create_txE [OF tx fresh])
    fix locked :: "offer_application option" and cr
    let ?b = "with_credits cr ((new_booking i c input source key q clk)\<lparr>bk_offer := map_option ap_offer locked\<rparr>)"
    assume i: "i = db_next s" and b: "db_bookings t0 = db_bookings s @ [?b]"
      and f: "db_entries t0 = db_entries s" "db_sessions t0 = db_sessions s"
    show thesis
      by (rule that [OF q tx t i, of ?b]) (simp_all add: t b f with_credits_def new_booking_def split: option.split)
  qed
qed

text \<open>A concrete shop: open on Mondays from nine to six in Kolkata, a discount of ten percent online, a
  customer with a wallet of 500 rupees who asks for the slot at half past nine and for 40 rupees of credits.\<close>

definition demo_policy :: salon_policy where
  "demo_policy = \<lparr>sp_salon = None, sp_policy = sample_policy, sp_arrivalGraceMinutes = 10, sp_queueCallGraceMinutes = 3\<rparr>"
definition demo_shop :: db where
  "demo_shop = demo_db\<lparr>db_hours := [\<lparr>h_owner = 1, h_day = 1, h_open = ''09:00'', h_close = ''18:00'', h_isClosed = False\<rparr>],
     db_policies := [demo_policy], db_accounts := [\<lparr>ca_id = 1, ca_user = 7\<rparr>], db_credits := [demo_lot 10 50000 None FASTQUE_FUNDED]\<rparr>"
definition demo_request :: booking_request where
  "demo_request = \<lparr>br_salon = 1, br_services = [2], br_slotStart = 1792382400000, br_preferredStaff = Some 3,
     br_creditsToRedeem = 40, br_offer = None\<rparr>"

lemmas demo_shop_defs = demo_shop_def demo_policy_def demo_request_def demo_lot_def sample_policy_def demo_defs

definition demo_quote :: booking_quote where
  "demo_quote = \<lparr>bq_services = [demo_service], bq_slotEnd = 1792382400000 + minutes 30, bq_percent = 10, bq_discount = 2000,
     bq_offer = None, bq_maxCredits = 30, bq_status = B_CONFIRMED, bq_prepayment = None, bq_graceMinutes = 10, bq_owner = 8\<rparr>"

lemma demo_quote: "quoteBooking (\<lambda>_. 0) ist 1792368000000 demo_shop 7 demo_request SRC_APP = Inr demo_quote"
proof -
  have 1: "getSalonOrThrow demo_shop 1 = Inr demo_salon" by (simp add: getSalonOrThrow_def find_salon_def demo_shop_defs)
  have 2: "getServicesOrThrow demo_shop 1 [2] = Inr [demo_service]"
    by (simp add: getServicesOrThrow_def MAX_SERVICES_PER_BOOKING_def demo_shop_defs)
  have 3: "computePercentageDiscountPaise 20000 10 = Inr 2000" by (simp add: discount_Inr)
  have 4: "assertWithinOperatingHours ist demo_shop 1 1792382400000 (1792382400000 + minutes 30) = Inr ()" by code_simp
  have 5: "assertStaffQualifiedForServices demo_shop 1 [2] 3 = Inr ()" by code_simp
  have 6: "assertStaffWithinWorkingHours ist demo_shop 1 3 1792382400000 (1792382400000 + minutes 30) = Inr ()" by code_simp
  have 7: "getEffectivePolicy demo_shop 1 = Inr demo_policy" by (simp add: getEffectivePolicy_def demo_shop_defs)
  have 8: "computeMaxRedeemable (paiseToDecimalString 18000) = Inr 30"
  proof -
    have "computeMaxRedeemableCreditsPaise 18000 = Inr 3000" by (simp add: cap_Inr)
    then show ?thesis by (simp add: computeMaxRedeemable_def decimal_of_paise paiseToRupees_def)
  qed
  have 9: "sv_price demo_service = 20000" "sv_duration demo_service = 30" "sa_onlineBookingDiscountPercent demo_salon = 10"
    "sa_owner demo_salon = 8" "sp_arrivalGraceMinutes demo_policy = 10" "db_ledger demo_shop = []" "db_paymentPolicies demo_shop = []"
    by (simp_all add: demo_shop_defs)
  have r: "br_salon demo_request = 1" "br_services demo_request = [2]" "br_slotStart demo_request = 1792382400000"
    "br_preferredStaff demo_request = Some 3" "br_offer demo_request = None"
    by (simp_all add: demo_request_def)
  have tot: "total_duration [demo_service] = 30" by (simp add: total_duration_def 9)
  show ?thesis
    unfolding quoteBooking_def Let_def r 1 2 bindE_simps tot 4 5 6 7
    by (simp add: 3 4 5 6 7 8 9 money_err_def exists_where_iff prepayment_terms_def demo_quote_def del: One_nat_def)
qed

lemma demo_book_inv: "book_inv demo_shop" "wallet_inv demo_shop"
  by (simp_all add: book_inv_def no_clash_def wallet_inv_def lot_ok_def uniq_on_def demo_shop_defs)

lemma demo_created:
  "\<exists>t. createBooking (\<lambda>_. 0) id ist 1792368000000 1792368000000 demo_shop demo_shop 7 demo_request SRC_APP ''k1'' = Inr (t, 100)"
proof -
  let ?b = "new_booking 100 7 demo_request SRC_APP ''k1'' demo_quote 1792368000000"
  define s1 where "s1 = demo_shop\<lparr>db_bookings := [?b\<lparr>bk_offer := None\<rparr>], db_next := 101\<rparr>"
  have i: "db_next demo_shop = 100" by (simp add: demo_shop_defs)
  have checks: "slot_checks 1792368000000 demo_shop 1 [2] (Some 3) 1792382400000 (1792382400000 + minutes 30) None = Inr ()"
    by code_simp
  have rc: "offer_recheck (\<lambda>_. 0) id 1792368000000 demo_shop 7 demo_request SRC_APP demo_quote = Inr None"
    by (simp add: offer_recheck_def demo_request_def)
  have ins: "insert_booking (?b\<lparr>bk_offer := None\<rparr>) demo_shop = Inr s1"
    by (simp add: insert_booking_def s1_def demo_shop_defs exists_where_iff)
  have "wallet_inv s1" by (rule wallet_inv_same [OF demo_book_inv(2)]) (simp_all add: s1_def demo_shop_defs)
  moreover have "numberToPaise 40 = Inr 4000" "numberToPaise 30 = Inr 3000" by (simp_all add: numberToPaise_def)
  ultimately obtain r t where red: "redeemUpTo 1792368000000 7 100 40 30 s1 = Inr (r, t)"
    using redeemUpTo_effect by blast
  have "\<exists>u. redeem_for_booking 1792368000000 1 7 100 40 30 s1 = Inr u"
    by (simp add: redeem_for_booking_def red Let_def)
  then obtain u where u: "redeem_for_booking 1792368000000 1 7 100 40 30 s1 = Inr u" ..
  have q: "bq_slotEnd demo_quote = 1792382400000 + minutes 30" "bq_maxCredits demo_quote = 30" by (simp_all add: demo_quote_def)
  have r: "br_salon demo_request = 1" "br_services demo_request = [2]" "br_slotStart demo_request = 1792382400000"
    "br_preferredStaff demo_request = Some 3" "br_creditsToRedeem demo_request = 40"
    by (simp_all add: demo_request_def)
  have "create_tx (\<lambda>_. 0) id 1792368000000 demo_shop 7 demo_request SRC_APP ''k1'' demo_quote = Inr (u, 100)"
    unfolding create_tx_def r q checks rc bindE_simps Let_def i by (simp add: ins u del: One_nat_def)
  then show ?thesis by (simp add: createBooking_def demo_quote)
qed

text \<open>C4: a booking is only created on a slot that is free, in any interleaving. The transaction may
  run on a database that changed since the quote was computed; still the new row is one fresh row, it
  lasts exactly as long as its distinct services together, it starts in the future, with it the pool of
  the salon is not overbooked at its interval, and no other booking reserves its barber then.\<close>

theorem create_takes_a_free_slot:
  assumes run: "createBooking upd ord tz now clk pre s c input source key = Inr (t, i)" and inv: "book_inv s"
    and ids: "distinct (map sv_id (db_services pre))"
  shows "\<exists>b svs. db_bookings t = db_bookings s @ [b] \<and> bk_id b = i \<and> i \<notin> bk_id ` set (db_bookings s)
     \<and> bk_customer b = Some c \<and> bk_salon b = br_salon input \<and> (bk_status b = B_CONFIRMED \<or> bk_status b = B_PENDING_PAYMENT)
     \<and> map sv_id svs = br_services input \<and> distinct (br_services input)
     \<and> (\<forall>sv\<in>set svs. sv \<in> set (db_services pre) \<and> sv_salon sv = br_salon input \<and> sv_isActive sv)
     \<and> bk_services b = map item_of svs \<and> now < bk_slotStart b \<and> bk_slotStart b = br_slotStart input
     \<and> bk_slotEnd b = bk_slotStart b + minutes (sum_list (map sv_duration svs))
     \<and> countPoolReservations clk t (bk_salon b) (bk_slotStart b) (bk_slotEnd b) None
         \<le> getSlotCapacityForServices t (bk_salon b) (br_services input)
     \<and> (\<forall>a\<in>set (db_bookings s). \<not> staff_clash a b) \<and> book_inv t"
proof -
  obtain q t0 b es where q: "quoteBooking upd tz now pre c input source = Inr q"
    and tx: "create_tx upd ord clk s c input source key q = Inr (t0, i)" and t: "t = emit es t0"
    and i: "i = db_next s" and b: "db_bookings t = db_bookings s @ [b]" "bk_id b = i" "bk_salon b = br_salon input"
      "bk_customer b = Some c" "bk_slotStart b = br_slotStart input" "bk_slotEnd b = bq_slotEnd q"
      "bk_status b = bq_status q" "bk_preferredStaff b = br_preferredStaff input"
      "bk_services b = map item_of (bq_services q)"
    and same: "db_entries t = db_entries s" "db_sessions t = db_sessions s"
    by (rule createBookingE [OF run inv])
  note Q = quoteBookingD(1-3,7) [OF q]
  have fresh: "r \<in> set (db_bookings s) \<Longrightarrow> bk_id r < db_next s" for r using inv by (simp add: book_inv_def)
  have checks: "slot_checks clk s (br_salon input) (br_services input) (br_preferredStaff input)
       (br_slotStart input) (bq_slotEnd q) None = Inr ()"
    by (rule create_txD [OF tx])
  have T: "db_services t = db_services s" "db_staff t = db_staff s" "db_staffServices t = db_staffServices s"
    "db_chairs t = db_chairs s"
    using create_tx_tables [OF tx] by (simp_all add: t)
  have "countPoolReservations clk t (bk_salon b) (bk_slotStart b) (bk_slotEnd b) None
      \<le> Suc (countPoolReservations clk s (bk_salon b) (bk_slotStart b) (bk_slotEnd b) None)"
    by (rule pool_after_insert [OF b(1) same T(1,4)])
  also have "\<dots> \<le> getSlotCapacityForServices s (bk_salon b) (br_services input)"
    using slot_checksD(1) [OF checks] by (simp add: b)
  also have "\<dots> = getSlotCapacityForServices t (bk_salon b) (br_services input)"
    by (rule capacity_cong [OF T(2-4), symmetric])
  finally have pool: "countPoolReservations clk t (bk_salon b) (bk_slotStart b) (bk_slotEnd b) None
      \<le> getSlotCapacityForServices t (bk_salon b) (br_services input)" .
  have clash: "\<not> staff_clash a b" if "a \<in> set (db_bookings s)" for a
    by (rule slot_checks_no_clash [OF _ that, of clk _ "br_services input" None]) (use checks in \<open>simp_all add: b\<close>)
  have inv': "book_inv t" using createBooking_safe [OF run] inv by (simp add: safe_book_def)
  have "set (bq_services q) = set (filter (\<lambda>sv. sv_salon sv = br_salon input \<and> sv_isActive sv
      \<and> (br_services input = [] \<or> sv_id sv \<in> set (br_services input))) (db_services pre))"
    by (rule mset_eq_setD [OF services_permuted(1) [OF Q(1) ids]])
  then have P: "map sv_id (bq_services q) = br_services input" "distinct (br_services input)"
    "\<forall>sv\<in>set (bq_services q). sv \<in> set (db_services pre) \<and> sv_salon sv = br_salon input \<and> sv_isActive sv"
    using services_permuted(2) [OF Q(1) ids] Q(1) by (auto simp: getServicesOrThrow_def guardE_Inr)
  have "i \<notin> bk_id ` set (db_bookings s)" using fresh i by fastforce
  then show ?thesis
    using b Q P pool clash inv' by (intro exI [of _ b] exI [of _ "bq_services q"]) (simp add: total_duration_def)
qed

lemma create_takes_a_free_slot_witness:
  "\<exists>t b. createBooking (\<lambda>_. 0) id ist 1792368000000 1792368000000 demo_shop demo_shop 7 demo_request SRC_APP ''k1'' = Inr (t, 100)
     \<and> db_bookings t = [b] \<and> bk_slotEnd b = bk_slotStart b + minutes 30 \<and> book_inv t"
proof -
  obtain t where run: "createBooking (\<lambda>_. 0) id ist 1792368000000 1792368000000 demo_shop demo_shop 7 demo_request SRC_APP ''k1'' = Inr (t, 100)"
    using demo_created ..
  have "distinct (map sv_id (db_services demo_shop))" by (simp add: demo_shop_defs)
  from create_takes_a_free_slot [OF run demo_book_inv(1) this] obtain b svs where
    b: "db_bookings t = db_bookings demo_shop @ [b]" "map sv_id svs = br_services demo_request"
    "\<forall>sv\<in>set svs. sv \<in> set (db_services demo_shop) \<and> sv_salon sv = br_salon demo_request \<and> sv_isActive sv"
    "bk_slotEnd b = bk_slotStart b + minutes (sum_list (map sv_duration svs))" "book_inv t"
    by blast
  have "svs = [demo_service]" using b(2,3) by (auto simp: demo_shop_defs map_eq_Cons_conv)
  then show ?thesis using run b by (intro exI [of _ t] exI [of _ b]) (simp add: demo_shop_defs)
qed

text \<open>C5: the prices of a created booking add up. The discount is between nothing and the price of the
  services, the credits redeemed are at most a fifth of what is left of it, what the customer still has to pay
  is the price less both, exactly; the wallet loses exactly the credits the booking shows, nobody else's
  wallet changes, and the platform owes the shop at most those credits.\<close>

theorem created_prices_add_up:
  assumes run: "createBooking upd ord tz now clk pre s c input source key = Inr (t, i)"
    and inv: "book_inv s" "wallet_inv s" and ok: "offers_ok pre" "distinct (map sv_id (db_services pre))"
    and prices: "\<forall>sv\<in>set (db_services pre). 0 \<le> sv_price sv"
  shows "\<exists>b u f. db_bookings t = db_bookings s @ [b] \<and> bk_id b = i
     \<and> 0 \<le> bk_discountAmount b \<and> bk_discountAmount b \<le> sum_list (map bi_price (bk_services b))
     \<and> nvl (bk_creditsRedeemed b) 0 = u \<and> 0 \<le> u
     \<and> 5 * u \<le> sum_list (map bi_price (bk_services b)) - bk_discountAmount b
     \<and> payablePaise t b = sum_list (map bi_price (bk_services b)) - bk_discountAmount b - u
     \<and> walletBalance t clk c = walletBalance s clk c - u
     \<and> (\<forall>v n. v = c \<or> walletBalance t n v = walletBalance s n v) \<and> wallet_inv t
     \<and> 0 \<le> f \<and> f \<le> u \<and> db_subsidies t = (if f > 0 then db_subsidies s @ [\<lparr>sb_salon = br_salon input,
          sb_booking = i, sb_amount = f, sb_status = SUB_OUTSTANDING, sb_voidedAt = None\<rparr>] else db_subsidies s)"
proof -
  obtain q t0 b es where q: "quoteBooking upd tz now pre c input source = Inr q"
    and tx: "create_tx upd ord clk s c input source key q = Inr (t0, i)" and t: "t = emit es t0"
    and i: "i = db_next s" and b: "db_bookings t = db_bookings s @ [b]" "bk_id b = i"
      "bk_services b = map item_of (bq_services q)" "bk_discountAmount b = bq_discount q"
    by (rule createBookingE [OF run inv(1)])
  have fresh: "r \<in> set (db_bookings s) \<Longrightarrow> bk_id r < db_next s" for r using inv by (simp add: book_inv_def)
  have svs: "set (bq_services q) \<subseteq> set (db_services pre)" "bq_services q \<noteq> []"
    using services_permuted(2,3) [OF quoteBookingD(1) [OF q] ok(2)] quoteBookingD(1) [OF q]
    by (auto simp: getServicesOrThrow_def guardE_Inr)
  let ?total = "sum_list (map sv_price (bq_services q))"
  have total: "sum_list (map bi_price (bk_services b)) = ?total" unfolding b by (simp add: item_of_def comp_def)
  have disc: "0 \<le> bq_discount q" "bq_discount q \<le> ?total"
    using quote_discount_bound [OF q ok(1)] svs(1) prices by blast+
  define left where "left = ?total - bq_discount q"
  have left: "0 \<le> left" using disc by (simp add: left_def)
  obtain locked :: "offer_application option" and s1 s2 where
    ins: "insert_booking ((new_booking i c input source key q clk)\<lparr>bk_offer := map_option ap_offer locked\<rparr>) s = Inr s1"
    and s2': "s2 = (case locked of None \<Rightarrow> s1 | Some a \<Rightarrow> recordRedemption a (br_salon input) c i s1)"
    and red: "redeem_for_booking clk (br_salon input) c i (br_creditsToRedeem input) (bq_maxCredits q) s2 = Inr t0"
    by (rule create_txD [OF tx])
  let ?b = "(new_booking i c input source key q clk)\<lparr>bk_offer := map_option ap_offer locked\<rparr>"
  have s2: "db_credits s2 = db_credits s" "db_accounts s2 = db_accounts s" "db_next s2 = Suc (db_next s)"
      "db_subsidies s2 = db_subsidies s" "db_bookings s2 = db_bookings s @ [?b]"
    unfolding s2' insert_bookingD [OF ins] by (cases locked; simp add: recordRedemption_frame)+
  have inv2: "wallet_inv s2" by (rule wallet_inv_same [OF inv(2)]) (simp_all add: s2)
  have cap: "0 \<le> cp \<and> cp \<le> left div 5" if "numberToPaise (bq_maxCredits q) = Inr cp" for cp
    using cap_of_quote [OF q that] left by (simp add: left_def)
  have "0 \<le> left div 5" using left by simp
  from redeem_for_booking_effect [OF red inv2 cap this] obtain u f where
    u: "0 \<le> u" "u \<le> left div 5" "walletBalance t0 clk c = walletBalance s2 clk c - u"
      "\<forall>v n. v = c \<or> walletBalance t0 n v = walletBalance s2 n v" "wallet_inv t0"
    and bks: "db_bookings t0 = (if u > 0 then upd_where (\<lambda>b. bk_id b = i) (\<lambda>b. b\<lparr>bk_creditsRedeemed := Some u\<rparr>) (db_bookings s2)
         else db_bookings s2)"
    and f: "0 \<le> f" "f \<le> u" "db_subsidies t0 = (if f > 0 then db_subsidies s2 @ [\<lparr>sb_salon = br_salon input, sb_booking = i,
          sb_amount = f, sb_status = SUB_OUTSTANDING, sb_voidedAt = None\<rparr>] else db_subsidies s2)"
    by blast
  have w: "walletBalance s2 n v = walletBalance s n v" for n v by (rule walletBalance_same [OF s2(1,2)])
  have w0: "walletBalance t n v = walletBalance t0 n v" for n v by (rule walletBalance_same) (simp_all add: t)
  have "bk_id r \<noteq> i" if "r \<in> set (db_bookings s)" for r using fresh [OF that] i by simp
  note upd = upd_where_snoc_fresh [OF this]
  have "db_bookings t0 = db_bookings s @ [if u > 0 then ?b\<lparr>bk_creditsRedeemed := Some u\<rparr> else ?b]"
    unfolding bks s2(5) by (simp only: upd) (simp add: new_booking_def)
  then have "b = (if u > 0 then ?b\<lparr>bk_creditsRedeemed := Some u\<rparr> else ?b)" using b(1) by (simp add: t)
  then have cr: "nvl (bk_creditsRedeemed b) 0 = u" using u(1) by (simp add: new_booking_def)
  have five: "5 * u \<le> left" using u(2) by linarith
  have "resolveEffectiveBookingServices t b = bk_services b"
    using svs(2) by (simp add: resolveEffectiveBookingServices_def b(3))
  then have pay: "payablePaise t b = ?total - bq_discount q - u"
    using five left u(1) by (simp add: payablePaise_def discountedServicePricePaise_def totalServicePricePaise_def
        total b(4) cr left_def)
  have wal: "walletBalance t clk c = walletBalance s clk c - u" using u(3) by (simp only: w w0)
  have oth: "\<forall>v n. v = c \<or> walletBalance t n v = walletBalance s n v" using u(4) by (simp add: w w0)
  have winv: "wallet_inv t" by (rule wallet_inv_same [OF u(5)]) (simp_all add: t)
  have sub: "db_subsidies t = (if f > 0 then db_subsidies s @ [\<lparr>sb_salon = br_salon input, sb_booking = i,
      sb_amount = f, sb_status = SUB_OUTSTANDING, sb_voidedAt = None\<rparr>] else db_subsidies s)"
    using f(3) by (simp add: t s2(4))
  have disc': "bk_discountAmount b \<le> ?total" "0 \<le> bk_discountAmount b" using disc by (simp_all add: b(4))
  have five': "5 * u \<le> ?total - bk_discountAmount b" using five by (simp add: b(4) left_def)
  have pay': "payablePaise t b = ?total - bk_discountAmount b - u" using pay by (simp add: b(4))
  show ?thesis
    by (rule exI [of _ b], rule exI [of _ u], rule exI [of _ f], unfold total, intro conjI)
      (fact b(1) b(2) disc' cr u(1) five' pay' wal oth winv f(1,2) sub)+
qed

lemma created_prices_add_up_witness:
  "\<exists>t b u. createBooking (\<lambda>_. 0) id ist 1792368000000 1792368000000 demo_shop demo_shop 7 demo_request SRC_APP ''k1'' = Inr (t, 100)
     \<and> db_bookings t = [b] \<and> 0 \<le> u \<and> 5 * u \<le> sum_list (map bi_price (bk_services b)) - bk_discountAmount b
     \<and> payablePaise t b = sum_list (map bi_price (bk_services b)) - bk_discountAmount b - u"
proof -
  obtain t where run: "createBooking (\<lambda>_. 0) id ist 1792368000000 1792368000000 demo_shop demo_shop 7 demo_request SRC_APP ''k1'' = Inr (t, 100)"
    using demo_created ..
  have h: "distinct (map sv_id (db_services demo_shop))" "\<forall>sv\<in>set (db_services demo_shop). 0 \<le> sv_price sv"
      "offers_ok demo_shop" "wallet_inv demo_shop" "db_bookings demo_shop = []"
    using demo_book_inv(2) by (simp_all add: demo_shop_defs offers_ok_def)
  from created_prices_add_up [OF run demo_book_inv(1) h(4,3,1,2)] show ?thesis
    using run h(5) by (metis append_Nil)
qed

end
