(* ===== verification/No_Show.thy ===== *)
theory No_Show
  imports Bookings
begin

text \<open>
  No-shows of appointments (\<^verbatim>\<open>apps/backend/src/bookings/booking-no-show.service.ts\<close>): the operator's
  \<open>markNoShow\<close> with its charge, and the correction of a wrong one. \<open>now\<close> is the clock of the grace
  check; \<open>pre\<close> and \<open>s\<close> are the databases before and inside the transaction.
\<close>

section \<open>Operations\<close>

definition computeNoShowCharge :: "db \<Rightarrow> booking \<Rightarrow> salon_policy \<Rightarrow> rat" where
  "computeNoShowCharge s booking policy =
     (let effectiveServices = resolveEffectiveBookingServices s booking;
          originalSubtotalPaise = sum_list (map bi_price effectiveServices);
          appointmentPrice = paiseToRupees (max 0 (originalSubtotalPaise - bk_discountAmount booking))
      in computeCancellationCharge (sp_policy policy) appointmentPrice 0 True)"

definition no_show_claim :: "db \<Rightarrow> id \<Rightarrow> booking \<Rightarrow> bool" where
  "no_show_claim s bookingId b \<longleftrightarrow> bk_id b = bookingId \<and> bk_status b = B_CONFIRMED
     \<and> \<not> exists_where (\<lambda>e. qe_booking e = Some bookingId) (db_entries s)"

definition no_show_row :: "rat \<Rightarrow> booking \<Rightarrow> booking" where
  "no_show_row chargeAmount b = b\<lparr>bk_status := B_NO_SHOW, bk_cancellationCharge := Some chargeAmount\<rparr>"

definition no_show_tx :: "db \<Rightarrow> booking \<Rightarrow> id \<Rightarrow> id \<Rightarrow> rat \<Rightarrow> db \<times> bool" where
  "no_show_tx s booking userId ownerUserId chargeAmount =
     (let claim = no_show_claim s (bk_id booking) in
      if count_where claim (db_bookings s) = 0 then (s, False)
      else
        let s1 = s\<lparr>db_bookings := upd_where claim (no_show_row chargeAmount) (db_bookings s)\<rparr>;
            s2 = (case bk_customer booking of
                    Some c \<Rightarrow> if chargeAmount > 0
                              then add_ledger c (bk_salon booking) (bk_id booking) chargeAmount NO_SHOW_CHARGE s1 else s1
                  | None \<Rightarrow> s1)
        in (emit ([Audit (Some userId) ''BOOKING_NO_SHOW'' (bk_id booking)]
                  @ (case bk_customer booking of Some c \<Rightarrow> [Notify c ''booking.no_show''] | None \<Rightarrow> [])
                  @ [Notify ownerUserId ''owner.booking.no_show'']) s2, True))"

definition markNoShow :: "ms \<Rightarrow> db \<Rightarrow> db \<Rightarrow> id \<Rightarrow> id \<Rightarrow> app_error + (db \<times> rat)" where
  "markNoShow now pre s userId bookingId =
     theE (find_booking pre bookingId) BOOKING_NOT_FOUND (\<lambda>booking.
     bindE (assertAccessOrAdminAccess pre userId (bk_salon booking)) (\<lambda>_.
     guardE (bk_status booking = B_CONFIRMED) NO_SHOW_NOT_ELIGIBLE
    (guardE (\<not> exists_where (\<lambda>e. qe_booking e = Some bookingId) (db_entries pre)) NO_SHOW_NOT_ELIGIBLE
    (bindE (getEffectivePolicy pre (bk_salon booking)) (\<lambda>policy.
     guardE (\<not> bk_slotStart booking + minutes (sp_arrivalGraceMinutes policy) > now) NO_SHOW_NOT_ELIGIBLE
       (let chargeAmount = (if bk_customer booking \<noteq> None then computeNoShowCharge pre booking policy else 0);
            owner = (case find_salon pre (bk_salon booking) of Some x \<Rightarrow> sa_owner x | None \<Rightarrow> 0);
            (t, claimed) = no_show_tx s booking userId owner chargeAmount
        in guardE claimed NO_SHOW_NOT_ELIGIBLE
             (Inr (emit [BookingEvent ''no_show'' (bk_salon booking) bookingId] t, chargeAmount))))))))"

definition outstanding_no_show :: "id \<Rightarrow> ledger_entry \<Rightarrow> bool" where
  "outstanding_no_show bookingId e \<longleftrightarrow>
     le_booking e = bookingId \<and> le_reason e = NO_SHOW_CHARGE \<and> le_status e = L_OUTSTANDING"

definition correct_tx :: "db \<Rightarrow> booking \<Rightarrow> id \<Rightarrow> app_error + (db \<times> id list)" where
  "correct_tx s booking userId =
     (let claim = (\<lambda>b. bk_id b = bk_id booking \<and> bk_status b = B_NO_SHOW) in
      guardE (count_where claim (db_bookings s) \<noteq> 0) BOOKING_NOT_NO_SHOW
        (let s1 = s\<lparr>db_bookings := upd_where claim (\<lambda>b. b\<lparr>bk_status := B_COMPLETED, bk_cancellationCharge := None\<rparr>)
                                    (db_bookings s)\<rparr>;
             outstanding = map le_id (filter (outstanding_no_show (bk_id booking)) (db_ledger s1));
             s2 = (if outstanding = [] then s1
                   else s1\<lparr>db_ledger := upd_where (\<lambda>e. le_id e \<in> set outstanding \<and> le_status e = L_OUTSTANDING)
                             (\<lambda>e. e\<lparr>le_status := L_WAIVED\<rparr>) (db_ledger s1)\<rparr>)
         in Inr (emit ([Audit (Some userId) ''BOOKING_NO_SHOW_CORRECTED_TO_COMPLETED'' (bk_id booking)]
                  @ (case bk_customer booking of Some c \<Rightarrow> [Notify c ''booking.corrected''] | None \<Rightarrow> [])) s2,
                 outstanding)))"

definition correctToCompleted :: "db \<Rightarrow> db \<Rightarrow> id \<Rightarrow> id \<Rightarrow> app_error + (db \<times> id list)" where
  "correctToCompleted pre s userId bookingId =
     theE (find_booking pre bookingId) BOOKING_NOT_FOUND (\<lambda>booking.
     bindE (assertAccessOrAdminAccess pre userId (bk_salon booking)) (\<lambda>_.
     guardE (bk_status booking = B_NO_SHOW) BOOKING_NOT_NO_SHOW
    (bindE (correct_tx s booking userId) (\<lambda>(t, waived).
       Inr (emit [BookingEvent ''corrected'' (bk_salon booking) bookingId] t, waived)))))"

section \<open>What they did\<close>

lemma no_show_txD:
  assumes "no_show_tx s booking u owner charge = (t, True)"
  shows "\<exists>b\<in>set (db_bookings s). no_show_claim s (bk_id booking) b"
    and "db_bookings t = upd_where (no_show_claim s (bk_id booking)) (no_show_row charge) (db_bookings s)"
    and "db_ledger t = (case bk_customer booking of None \<Rightarrow> db_ledger s
      | Some c \<Rightarrow> if charge > 0 then db_ledger s @ [\<lparr>le_id = db_next s, le_customer = c, le_salon = bk_salon booking,
         le_booking = bk_id booking, le_amount = charge, le_reason = NO_SHOW_CHARGE, le_status = L_OUTSTANDING\<rparr>]
        else db_ledger s)"
    and "db_entries t = db_entries s" "db_sessions t = db_sessions s" "db_next s \<le> db_next t"
    and "db_credits t = db_credits s" "db_accounts t = db_accounts s" "db_manual t = db_manual s"
proof -
  define claim where "claim = no_show_claim s (bk_id booking)"
  define s1 where "s1 = s\<lparr>db_bookings := upd_where claim (no_show_row charge) (db_bookings s)\<rparr>"
  define s2 where "s2 = (case bk_customer booking of
                    Some c \<Rightarrow> if charge > 0
                              then add_ledger c (bk_salon booking) (bk_id booking) charge NO_SHOW_CHARGE s1 else s1
                  | None \<Rightarrow> s1)"
  have pos: "count_where claim (db_bookings s) \<noteq> 0"
    and t: "\<exists>es. t = emit es s2"
    using assms unfolding no_show_tx_def Let_def claim_def [symmetric] s1_def [symmetric] s2_def [symmetric]
    by (auto split: if_splits)
  obtain es where t: "t = emit es s2" using t ..
  have F: "db_bookings s2 = db_bookings s1" "db_entries s2 = db_entries s" "db_sessions s2 = db_sessions s"
    "db_credits s2 = db_credits s" "db_accounts s2 = db_accounts s" "db_next s \<le> db_next s2" "db_manual s2 = db_manual s"
    by (auto simp: s2_def s1_def add_ledger_def split: option.split)
  show "\<exists>b\<in>set (db_bookings s). no_show_claim s (bk_id booking) b"
    using pos unfolding count_where_pos claim_def .
  show "db_bookings t = upd_where (no_show_claim s (bk_id booking)) (no_show_row charge) (db_bookings s)"
    using F(1) by (simp add: t s1_def claim_def)
  show "db_entries t = db_entries s" "db_sessions t = db_sessions s" "db_next s \<le> db_next t"
    "db_credits t = db_credits s" "db_accounts t = db_accounts s" "db_manual t = db_manual s"
    using F by (simp_all add: t)
  show "db_ledger t = (case bk_customer booking of None \<Rightarrow> db_ledger s
      | Some c \<Rightarrow> if charge > 0 then db_ledger s @ [\<lparr>le_id = db_next s, le_customer = c, le_salon = bk_salon booking,
         le_booking = bk_id booking, le_amount = charge, le_reason = NO_SHOW_CHARGE, le_status = L_OUTSTANDING\<rparr>]
        else db_ledger s)"
    by (simp add: t s2_def s1_def add_ledger_def split: option.split)
qed

lemma markNoShowD:
  assumes "markNoShow now pre s u i = Inr (t, charge)"
  obtains bk pol t0 es owner where "find_booking pre i = Some bk" "bk_status bk = B_CONFIRMED"
    "\<not> exists_where (\<lambda>e. qe_booking e = Some i) (db_entries pre)"
    "getEffectivePolicy pre (bk_salon bk) = Inr pol"
    "bk_slotStart bk + minutes (sp_arrivalGraceMinutes pol) \<le> now"
    "charge = (if bk_customer bk \<noteq> None then computeNoShowCharge pre bk pol else 0)"
    "no_show_tx s bk u owner charge = (t0, True)" "t = emit es t0"
proof -
  obtain bk and pol :: salon_policy where 1: "find_booking pre i = Some bk" "bk_status bk = B_CONFIRMED"
    "\<not> exists_where (\<lambda>e. qe_booking e = Some i) (db_entries pre)"
    "getEffectivePolicy pre (bk_salon bk) = Inr pol"
    "\<not> bk_slotStart bk + minutes (sp_arrivalGraceMinutes pol) > now"
    and rest: "(let chargeAmount = (if bk_customer bk \<noteq> None then computeNoShowCharge pre bk pol else 0);
            owner = (case find_salon pre (bk_salon bk) of Some x \<Rightarrow> sa_owner x | None \<Rightarrow> 0);
            (t, claimed) = no_show_tx s bk u owner chargeAmount
        in guardE claimed NO_SHOW_NOT_ELIGIBLE
             (Inr (emit [BookingEvent ''no_show'' (bk_salon bk) i] t, chargeAmount))) = Inr (t, charge)"
    using assms unfolding markNoShow_def theE_Inr bindE_Inr guardE_Inr by blast
  define owner where "owner = (case find_salon pre (bk_salon bk) of Some x \<Rightarrow> sa_owner x | None \<Rightarrow> 0)"
  obtain t0 cl where tx: "no_show_tx s bk u owner (if bk_customer bk \<noteq> None then computeNoShowCharge pre bk pol else 0) = (t0, cl)"
    by (cases "no_show_tx s bk u owner (if bk_customer bk \<noteq> None then computeNoShowCharge pre bk pol else 0)")
  have c: cl "charge = (if bk_customer bk \<noteq> None then computeNoShowCharge pre bk pol else 0)"
    "t = emit [BookingEvent ''no_show'' (bk_salon bk) i] t0"
    using rest unfolding Let_def owner_def [symmetric] tx prod.case guardE_Inr by simp_all
  show thesis
    by (rule that [OF 1(1-4) _ c(2) _ c(3)]) (use 1(5) tx c in simp_all)
qed

end
