(* ===== verification/Settlement.thy ===== *)
theory Settlement
  imports Booking_Props No_Show
begin

text \<open>
  What cancelling or missing an appointment settles: the row, the charge in the customer ledger, the
  credits of the wallet, the subsidy the platform owes and the place in the queue; and that none of it
  happens twice.
\<close>

section \<open>Frames\<close>

definition ecore :: "entry \<Rightarrow> entry" where "ecore e = e\<lparr>qe_estimate := None\<rparr>"

lemma ecore_sel [simp]: "qe_status (ecore e) = qe_status e" "qe_booking (ecore e) = qe_booking e"
  "qe_id (ecore e) = qe_id e" "qe_salon (ecore e) = qe_salon e" "qe_staff (ecore e) = qe_staff e"
  by (simp_all add: ecore_def)

lemma recompute_ecore: "map ecore (db_entries (recomputeEtas now sal s)) = map ecore (db_entries s)"
proof -
  have "map ecore (db_entries (eta_loop sal busy r i es s)) = map ecore (db_entries s)" for busy r i es s
  proof (induction sal busy r i es s rule: eta_loop.induct)
    case (2 sal busy rem i e es s)
    have "map ecore (db_entries (eta_step sal busy rem i e s)) = map ecore (db_entries s)"
      by (simp add: eta_step_def Let_def upd_entries_def map_upd_where ecore_def split: prod.split option.split)
    with "2.IH" show ?case by simp
  qed simp
  then show ?thesis by (simp add: recomputeEtas_def Let_def)
qed

lemma recompute_entry:
  assumes "e \<in> set (db_entries (recomputeEtas now sal s))"
  obtains r where "r \<in> set (db_entries s)" "ecore r = ecore e"
proof -
  have "ecore e \<in> set (map ecore (db_entries s))"
    using assms by (simp flip: recompute_ecore [of now sal s])
  then show thesis using that by auto
qed

lemma recompute_linked:
  assumes "\<forall>e\<in>set (db_entries s). \<not> linked_cancellable i e"
  shows "\<forall>e\<in>set (db_entries (recomputeEtas now sal s)). \<not> linked_cancellable i e"
proof
  fix e assume "e \<in> set (db_entries (recomputeEtas now sal s))"
  then obtain r where r: "r \<in> set (db_entries s)" "ecore r = ecore e" by (rule recompute_entry)
  have "qe_status r = qe_status e" "qe_booking r = qe_booking e"
    using arg_cong [OF r(2), of qe_status] arg_cong [OF r(2), of qe_booking] by simp_all
  then show "\<not> linked_cancellable i e" using assms r(1) by (auto simp: linked_cancellable_def entry_in_def)
qed

lemma linked_cleared:
  "\<forall>e\<in>set (upd_where (linked_cancellable i) (\<lambda>e. e\<lparr>qe_status := Q_CANCELLED\<rparr>) es). \<not> linked_cancellable i e"
  by (auto simp: set_upd_where linked_cancellable_def entry_in_def QUEUE_ENTRY_STATUSES_CANCELLABLE_FROM_BOOKING_def)

lemma give_back_wallet:
  assumes "wallet_inv s"
  shows "wallet_inv (give_back_credits clk c i cr s)"
    and "walletBalance (give_back_credits clk c i cr s) n v
       = walletBalance s n v + (if v = c then max 0 (nvl cr 0) else 0)"
proof -
  have 1: "wallet_inv (void_subsidies i clk s') = wallet_inv s'" for s'
    by (simp add: wallet_inv_def void_subsidies_def)
  have 2: "walletBalance (void_subsidies i clk s') n v = walletBalance s' n v" for s' v
    by (rule walletBalance_same) (simp_all add: void_subsidies_def)
  show "wallet_inv (give_back_credits clk c i cr s)"
    using restore_effect(1) [OF assms] assms by (simp add: give_back_credits_def 1 split: option.split)
  show "walletBalance (give_back_credits clk c i cr s) n v
       = walletBalance s n v + (if v = c then max 0 (nvl cr 0) else 0)"
    by (simp add: give_back_credits_def 2 restore_effect(2) [OF assms] split: option.split)
qed

lemma upd_where_all: "(\<And>r. P (f r)) \<Longrightarrow> \<forall>b\<in>set (upd_where (\<lambda>b. k b = i) f rs). k b = i \<longrightarrow> P b"
  by (induction rs) auto

section \<open>Cancellation by the customer\<close>

text \<open>A cancelled row blocks every further cancellation, whatever the caller read before.\<close>

definition settled :: "id \<Rightarrow> db \<Rightarrow> bool" where
  "settled i s \<longleftrightarrow> (\<forall>b\<in>set (db_bookings s). bk_id b = i \<longrightarrow> \<not> cancellable b)"

lemma settled_upd:
  assumes "db_bookings t = upd_where (\<lambda>b. bk_id b = i) f bs" "\<And>b. \<not> cancellable (f b)"
  shows "settled i t"
  using assms(2) by (auto simp: settled_def assms(1) set_upd_where)

lemma settled_find: "settled i s \<Longrightarrow> \<not> (case find_booking s i of None \<Rightarrow> False | Some b \<Rightarrow> cancellable b)"
  by (auto simp: settled_def split: option.split dest: find_rowD(6))

lemma settled_no_cancel: "settled i s \<Longrightarrow> \<not> is_ok (cancelBooking now clk pre s c i)"
  by (auto simp: is_ok_iff dest!: cancel_txD(1) settled_find getOneD elim!: cancelBookingD)

lemma settled_no_shop_cancel:
  assumes "settled i s"
  shows "\<not> is_ok (cancelByShop clk pre s sal i u act reason)"
  using settled_find [OF assms]
  by (auto simp: is_ok_iff cancelByShop_def cancel_by_shop_tx_def success_simps Let_def dest!: find_SomeD)

lemma cancel_effect:
  assumes run: "cancelBooking now clk pre s c i = Inr (t, charge)" and inv: "wallet_inv s"
  obtains bk and pol :: salon_policy where "getOne pre c i = Inr bk" "getEffectivePolicy pre (bk_salon bk) = Inr pol"
    "charge = computeCancellationCharge (sp_policy pol)
       (paiseToRupees (discountedServicePricePaise (resolveEffectiveBookingServices pre bk) (bk_discountAmount bk)))
       (of_int (bk_slotStart bk - now) / 60000) False"
    "\<exists>b\<in>set (db_bookings s). bk_id b = i \<and> cancellable b"
    "db_bookings t = upd_where (\<lambda>b. bk_id b = i) (cancel_row clk c charge) (db_bookings s)"
    "db_ledger t = (if charge > 0 then db_ledger s @ [\<lparr>le_id = db_next s, le_customer = c, le_salon = bk_salon bk,
         le_booking = i, le_amount = charge, le_reason = CANCELLATION_CHARGE, le_status = L_OUTSTANDING\<rparr>]
       else db_ledger s)"
    "\<forall>e\<in>set (db_entries t). \<not> linked_cancellable i e"
    "wallet_inv t" "\<And>n v. walletBalance t n v = walletBalance s n v
       + (if v = c then max 0 (nvl (bk_creditsRedeemed bk) 0) else 0)"
    "db_subsidies t = (if bk_creditsRedeemed bk = None then db_subsidies s
     else upd_where (\<lambda>x. sb_booking x = i \<and> sb_status x = SUB_OUTSTANDING)
         (\<lambda>x. x\<lparr>sb_status := SUB_VOIDED, sb_voidedAt := Some clk\<rparr>) (db_subsidies s))"
    "settled i t" "db_next s \<le> db_next t"
proof -
  obtain bk and pol :: salon_policy and t0 l es es' es'' where
    1: "getOne pre c i = Inr bk" "getEffectivePolicy pre (bk_salon bk) = Inr pol"
    and ch: "charge = computeCancellationCharge (sp_policy pol)
       (paiseToRupees (discountedServicePricePaise (resolveEffectiveBookingServices pre bk) (bk_discountAmount bk)))
       (of_int (bk_slotStart bk - now) / 60000) False"
    and tx: "cancel_tx clk s bk c charge = Inr (t0, l)"
    and t: "t = emit es (if l then emit es' (recomputeEtas clk (bk_salon bk) (emit es'' t0)) else emit es'' t0)"
    by (rule cancelBookingD [OF run]) blast
  have id: "bk_id bk = i" using getOneD [OF 1(1)] by simp
  note D = cancel_txD [OF tx, unfolded id]
  have T: "db_bookings t = db_bookings t0" "db_ledger t = db_ledger t0" "db_subsidies t = db_subsidies t0"
    "db_credits t = db_credits t0" "db_accounts t = db_accounts t0" "db_next t = db_next t0"
    by (simp_all add: t)
  obtain s3 where s3: "db_next s \<le> db_next s3" "db_credits s3 = db_credits s" "db_accounts s3 = db_accounts s"
    and g: "db_credits t0 = db_credits (give_back_credits clk c i (bk_creditsRedeemed bk) s3)"
      "db_accounts t0 = db_accounts (give_back_credits clk c i (bk_creditsRedeemed bk) s3)"
      "db_next t0 = db_next (give_back_credits clk c i (bk_creditsRedeemed bk) s3)"
    using D(6) by blast
  have inv3: "wallet_inv s3" by (rule wallet_inv_same [OF inv s3(2,3,1)])
  show thesis
  proof (rule that [OF 1 ch])
    show "\<exists>b\<in>set (db_bookings s). bk_id b = i \<and> cancellable b" using D(1) by (auto dest: find_rowD(6))
    show "wallet_inv t" by (rule wallet_inv_same [OF give_back_wallet(1) [OF inv3, of clk c i "bk_creditsRedeemed bk"]]) (use g T in simp_all)
    show "walletBalance t n v = walletBalance s n v + (if v = c then max 0 (nvl (bk_creditsRedeemed bk) 0) else 0)" for n v
      using walletBalance_same [of t "give_back_credits clk c i (bk_creditsRedeemed bk) s3"] g T
        walletBalance_same [OF s3(2,3)] give_back_wallet(2) [OF inv3] by simp
    show "settled i t" by (rule settled_upd [where f = "cancel_row clk c charge" and bs = "db_bookings s"]) (use T D(2) in \<open>simp_all add: cancel_row_def cancellable_def\<close>)
    show "\<forall>e\<in>set (db_entries t). \<not> linked_cancellable i e"
      using linked_cleared [of i "db_entries s"] recompute_linked [of "emit es'' t0" i clk "bk_salon bk"]
      by (simp add: t D(5))
  qed (use D T in simp_all)
qed

text \<open>C6: a cancellation settles the booking, and once. The charge is what the shop's policy says and lies
  between nothing and the discounted price; it appears in the customer's ledger exactly when it is not zero;
  exactly the credits the booking had used return to the wallet and nobody else's wallet moves; the subsidy
  for the booking is no longer owed; no queue place of the booking stays open; and no later cancellation by
  the customer or by the shop, whatever it read before, succeeds.\<close>

theorem cancellation_settles_once:
  assumes run: "cancelBooking now clk pre s c i = Inr (t, charge)" and inv: "wallet_inv s"
  shows "\<exists>bk. getOne pre c i = Inr bk
     \<and> 0 \<le> charge \<and> charge \<le> paiseToRupees (discountedServicePricePaise (resolveEffectiveBookingServices pre bk) (bk_discountAmount bk))
     \<and> db_ledger t = (if charge > 0 then db_ledger s @ [\<lparr>le_id = db_next s, le_customer = c, le_salon = bk_salon bk,
         le_booking = i, le_amount = charge, le_reason = CANCELLATION_CHARGE, le_status = L_OUTSTANDING\<rparr>] else db_ledger s)
     \<and> db_bookings t = upd_where (\<lambda>b. bk_id b = i) (\<lambda>b. b\<lparr>bk_status := B_CANCELLED, bk_cancelledAt := Some clk,
           bk_cancelledBy := Some c, bk_cancellationCharge := Some charge\<rparr>) (db_bookings s)
     \<and> (\<forall>n v. walletBalance t n v = walletBalance s n v + (if v = c then max 0 (nvl (bk_creditsRedeemed bk) 0) else 0))
     \<and> (bk_creditsRedeemed bk = None \<or> \<not> exists_where (\<lambda>x. sb_booking x = i \<and> sb_status x = SUB_OUTSTANDING) (db_subsidies t))
     \<and> \<not> exists_where (\<lambda>e. qe_booking e = Some i \<and> qe_status e \<in> {Q_WAITING, Q_CALLED}) (db_entries t)
     \<and> (\<forall>now' clk' pre' c'. \<not> is_ok (cancelBooking now' clk' pre' t c' i))
     \<and> (\<forall>clk' pre' sal u act why. \<not> is_ok (cancelByShop clk' pre' t sal i u act why))"
proof -
  obtain bk and pol :: salon_policy where bk: "getOne pre c i = Inr bk"
    and ch: "charge = computeCancellationCharge (sp_policy pol)
       (paiseToRupees (discountedServicePricePaise (resolveEffectiveBookingServices pre bk) (bk_discountAmount bk)))
       (of_int (bk_slotStart bk - now) / 60000) False"
    and bks: "db_bookings t = upd_where (\<lambda>b. bk_id b = i) (cancel_row clk c charge) (db_bookings s)"
    and led: "db_ledger t = (if charge > 0 then db_ledger s @ [\<lparr>le_id = db_next s, le_customer = c, le_salon = bk_salon bk,
         le_booking = i, le_amount = charge, le_reason = CANCELLATION_CHARGE, le_status = L_OUTSTANDING\<rparr>] else db_ledger s)"
    and lnk: "\<forall>e\<in>set (db_entries t). \<not> linked_cancellable i e"
    and wal: "\<And>n v. walletBalance t n v = walletBalance s n v + (if v = c then max 0 (nvl (bk_creditsRedeemed bk) 0) else 0)"
    and sub: "db_subsidies t = (if bk_creditsRedeemed bk = None then db_subsidies s
     else upd_where (\<lambda>x. sb_booking x = i \<and> sb_status x = SUB_OUTSTANDING)
         (\<lambda>x. x\<lparr>sb_status := SUB_VOIDED, sb_voidedAt := Some clk\<rparr>) (db_subsidies s))"
    and set: "settled i t"
    by (rule cancel_effect [OF run inv]) (rule that, assumption+)
  have "0 \<le> paiseToRupees (discountedServicePricePaise (resolveEffectiveBookingServices pre bk) (bk_discountAmount bk))"
    by (simp add: paiseToRupees_def discountedServicePricePaise_def)
  note pos = this
  have price: "0 \<le> charge"
    "charge \<le> paiseToRupees (discountedServicePricePaise (resolveEffectiveBookingServices pre bk) (bk_discountAmount bk))"
    unfolding ch computeCancellationCharge_def Let_def using charge_bounds [OF pos] pos by auto
  have lnk': "\<not> exists_where (\<lambda>e. qe_booking e = Some i \<and> qe_status e \<in> {Q_WAITING, Q_CALLED}) (db_entries t)"
    using lnk by (auto simp: exists_where_iff linked_cancellable_def entry_in_def QUEUE_ENTRY_STATUSES_CANCELLABLE_FROM_BOOKING_def)
  have sub': "bk_creditsRedeemed bk = None \<or> \<not> exists_where (\<lambda>x. sb_booking x = i \<and> sb_status x = SUB_OUTSTANDING) (db_subsidies t)"
    unfolding sub exists_where_iff by (cases "bk_creditsRedeemed bk") (simp_all add: set_upd_where ball_Un)
  have row: "cancel_row clk c charge = (\<lambda>b. b\<lparr>bk_status := B_CANCELLED, bk_cancelledAt := Some clk,
      bk_cancelledBy := Some c, bk_cancellationCharge := Some charge\<rparr>)"
    by (simp add: fun_eq_iff cancel_row_def)
  show ?thesis
    by (rule exI [of _ bk], intro conjI allI)
      (fact bk price led bks [unfolded row] wal sub' lnk' settled_no_cancel [OF set] settled_no_shop_cancel [OF set])+
qed

text \<open>The example: the customer of the demo shop cancels half an hour ahead, which costs half the price.\<close>

definition booked_row :: booking where
  "booked_row = (demo_booking 50 (Some 3) 1792382400000 1792384200000 B_CONFIRMED)\<lparr>bk_creditsRedeemed := Some 3000\<rparr>"
definition booked_shop :: db where
  "booked_shop = demo_shop\<lparr>db_bookings :=[booked_row],
     db_entries := [(demo_entry 60 Q_WAITING None None 1)\<lparr>qe_booking := Some 50\<rparr>],
     db_subsidies := [\<lparr>sb_salon = 1, sb_booking = 50, sb_amount = 3000, sb_status = SUB_OUTSTANDING, sb_voidedAt = None\<rparr>]\<rparr>"

lemma booked_shop_inv: "book_inv booked_shop" "wallet_inv booked_shop"
  using demo_book_inv(2) by (simp_all add: book_inv_def no_clash_def wallet_inv_def uniq_on_def booked_shop_def booked_row_def demo_shop_defs)

lemma booked_getOne: "getOne booked_shop 7 50 = Inr booked_row"
  by (simp add: getOne_def booked_shop_def booked_row_def demo_booking_def)

lemma booked_row_cancelled:
  assumes "find_booking s 50 = Some booked_row" "db_policies s = [demo_policy]"
    and "getOne s 7 50 = Inr booked_row"
  shows "\<exists>t. cancelBooking 1792380600000 1792380600000 s s 7 50 = Inr (t, 100)"
proof -
  have 1: "cancellable booked_row" by (simp add: cancellable_def booked_row_def demo_booking_def)
  have 2: "getEffectivePolicy s (bk_salon booked_row) = Inr demo_policy"
    by (simp add: getEffectivePolicy_def assms(2) demo_policy_def)
  have 3: "computeCancellationCharge (sp_policy demo_policy)
       (paiseToRupees (discountedServicePricePaise (resolveEffectiveBookingServices s booked_row) (bk_discountAmount booked_row)))
       (of_int (bk_slotStart booked_row - 1792380600000) / 60000) False = 100"
    by (simp add: computeCancellationCharge_def computeChargeAmount_def effectiveFreeCancellationWindowMinutes_def
        PLATFORM_MINIMUM_FREE_CANCELLATION_WINDOW_MINUTES_def resolveEffectiveBookingServices_def paiseToRupees_def
        discountedServicePricePaise_def totalServicePricePaise_def booked_row_def demo_booking_def demo_policy_def sample_policy_def Let_def)
  have 4: "bk_id booked_row = 50" "bk_creditsRedeemed booked_row = Some 3000"
    by (simp_all add: booked_row_def demo_booking_def)
  show ?thesis
    unfolding cancelBooking_def assms(3) bindE_simps 2 Let_def 3 using 1
    by (simp add: cancel_tx_def assms(1) 4 Let_def)
qed

lemma booked_cancelled: "\<exists>t. cancelBooking 1792380600000 1792380600000 booked_shop booked_shop 7 50 = Inr (t, 100)"
  by (rule booked_row_cancelled [OF _ _ booked_getOne])
    (simp_all add: find_booking_def booked_shop_def booked_row_def demo_booking_def demo_shop_def)

lemma cancellation_settles_once_witness:
  "\<exists>t. cancelBooking 1792380600000 1792380600000 booked_shop booked_shop 7 50 = Inr (t, 100)
     \<and> walletBalance t 0 7 = walletBalance booked_shop 0 7 + 3000
     \<and> \<not> is_ok (cancelBooking 1792380600001 1792380600001 booked_shop t 7 50)"
proof -
  obtain t where run: "cancelBooking 1792380600000 1792380600000 booked_shop booked_shop 7 50 = Inr (t, 100)"
    using booked_cancelled ..
  obtain bk where "getOne booked_shop 7 50 = Inr bk"
    "walletBalance t 0 7 = walletBalance booked_shop 0 7 + max 0 (nvl (bk_creditsRedeemed bk) 0)"
    "\<not> is_ok (cancelBooking 1792380600001 1792380600001 booked_shop t 7 50)"
    using cancellation_settles_once [OF run booked_shop_inv(2)] by force
  then show ?thesis using run by (auto simp: booked_getOne booked_row_def)
qed

section \<open>No-shows\<close>

lemma no_show_effect:
  assumes run: "markNoShow now pre s u i = Inr (t, charge)" and inv: "book_inv s"
  obtains bk and pol :: salon_policy and b where "find_booking pre i = Some bk"
    "bk_slotStart bk + minutes (sp_arrivalGraceMinutes pol) \<le> now" "getEffectivePolicy pre (bk_salon bk) = Inr pol"
    "charge = (if bk_customer bk \<noteq> None then computeNoShowCharge pre bk pol else 0)"
    "b \<in> set (db_bookings s)" "bk_id b = i" "bk_status b = B_CONFIRMED"
    "\<not> exists_where (\<lambda>e. qe_booking e = Some i) (db_entries s)"
    "db_bookings t = upd_where (\<lambda>b. bk_id b = i) (no_show_row charge) (db_bookings s)"
    "db_ledger t = (case bk_customer bk of None \<Rightarrow> db_ledger s
      | Some c \<Rightarrow> if charge > 0 then db_ledger s @ [\<lparr>le_id = db_next s, le_customer = c, le_salon = bk_salon bk,
         le_booking = i, le_amount = charge, le_reason = NO_SHOW_CHARGE, le_status = L_OUTSTANDING\<rparr>]
        else db_ledger s)"
    "db_entries t = db_entries s" "db_sessions t = db_sessions s" "db_next s \<le> db_next t"
    "db_credits t = db_credits s" "db_accounts t = db_accounts s"
proof -
  obtain bk and pol :: salon_policy and t0 es owner where D: "find_booking pre i = Some bk"
    "getEffectivePolicy pre (bk_salon bk) = Inr pol"
    "bk_slotStart bk + minutes (sp_arrivalGraceMinutes pol) \<le> now"
    "charge = (if bk_customer bk \<noteq> None then computeNoShowCharge pre bk pol else 0)"
    and tx: "no_show_tx s bk u owner charge = (t0, True)" and t: "t = emit es t0"
    by (rule markNoShowD [OF run])
  have id: "bk_id bk = i" using find_rowD(6) [OF D(1)] by simp
  note N = no_show_txD [OF tx, unfolded id]
  obtain b where b: "b \<in> set (db_bookings s)" "no_show_claim s i b" using N(1) by blast
  have dist: "distinct (map bk_id (db_bookings s))" using inv by (simp add: book_inv_def)
  have claim: "no_show_claim s i r \<longleftrightarrow> bk_id r = i" if "r \<in> set (db_bookings s)" for r
    using distinct_key_eq [OF dist that b(1)] b(2) by (auto simp: no_show_claim_def)
  have bks: "db_bookings t = upd_where (\<lambda>b. bk_id b = i) (no_show_row charge) (db_bookings s)"
    unfolding t using N(2) claim by (simp add: upd_where_def)
  show thesis
    by (rule that [OF D(1,3,2,4) b(1) _ _ _ bks]) (use b(2) N t in \<open>simp_all add: no_show_claim_def\<close>)
qed

text \<open>C8: an appointment is only marked as missed when the customer really was absent: the row was still
  confirmed and had never entered the queue when the mark was written, and the grace period had passed. The
  charge lies between nothing and the discounted price and reaches the ledger exactly when it is not zero and
  there is a customer; the wallet is left alone; the appointment can then neither be marked again nor be
  cancelled by the customer, whatever the caller read before.\<close>

theorem no_show_needs_absence:
  assumes run: "markNoShow now pre s u i = Inr (t, charge)" and inv: "book_inv s"
  shows "\<exists>bk pol. find_booking pre i = Some bk \<and> getEffectivePolicy pre (bk_salon bk) = Inr pol
     \<and> bk_slotStart bk + minutes (sp_arrivalGraceMinutes pol) \<le> now
     \<and> (\<exists>b\<in>set (db_bookings s). bk_id b = i \<and> bk_status b = B_CONFIRMED)
     \<and> \<not> exists_where (\<lambda>e. qe_booking e = Some i) (db_entries s)
     \<and> 0 \<le> charge \<and> charge \<le> paiseToRupees (discountedServicePricePaise (resolveEffectiveBookingServices pre bk) (bk_discountAmount bk))
     \<and> db_ledger t = db_ledger s @ (case bk_customer bk of None \<Rightarrow> []
         | Some c \<Rightarrow> if charge > 0 then [\<lparr>le_id = db_next s, le_customer = c, le_salon = bk_salon bk, le_booking = i,
             le_amount = charge, le_reason = NO_SHOW_CHARGE, le_status = L_OUTSTANDING\<rparr>] else [])
     \<and> (\<forall>n v. walletBalance t n v = walletBalance s n v)
     \<and> book_inv t
     \<and> (\<forall>now' pre' u'. \<not> is_ok (markNoShow now' pre' t u' i))
     \<and> (\<forall>now' clk' pre' c. \<not> is_ok (cancelBooking now' clk' pre' t c i))"
proof -
  obtain bk and pol :: salon_policy and b where D: "find_booking pre i = Some bk"
      "getEffectivePolicy pre (bk_salon bk) = Inr pol"
      "bk_slotStart bk + minutes (sp_arrivalGraceMinutes pol) \<le> now"
    and ch: "charge = (if bk_customer bk \<noteq> None then computeNoShowCharge pre bk pol else 0)"
    and b: "b \<in> set (db_bookings s)" "bk_id b = i" "bk_status b = B_CONFIRMED"
    and abs: "\<not> exists_where (\<lambda>e. qe_booking e = Some i) (db_entries s)"
    and bks: "db_bookings t = upd_where (\<lambda>b. bk_id b = i) (no_show_row charge) (db_bookings s)"
    and led: "db_ledger t = (case bk_customer bk of None \<Rightarrow> db_ledger s
      | Some c \<Rightarrow> if charge > 0 then db_ledger s @ [\<lparr>le_id = db_next s, le_customer = c, le_salon = bk_salon bk,
         le_booking = i, le_amount = charge, le_reason = NO_SHOW_CHARGE, le_status = L_OUTSTANDING\<rparr>]
        else db_ledger s)"
    and T: "db_next s \<le> db_next t" "db_credits t = db_credits s" "db_accounts t = db_accounts s"
    by (rule no_show_effect [OF run inv]) (rule that, assumption+)
  let ?price = "paiseToRupees (discountedServicePricePaise (resolveEffectiveBookingServices pre bk) (bk_discountAmount bk))"
  have pos: "0 \<le> ?price" by (simp add: paiseToRupees_def discountedServicePricePaise_def)
  have "computeNoShowCharge pre bk pol = computeCancellationCharge (sp_policy pol) ?price 0 True"
    by (simp add: computeNoShowCharge_def Let_def discountedServicePricePaise_def totalServicePricePaise_def)
  then have price: "0 \<le> charge" "charge \<le> ?price"
    using charge_bounds [OF pos] pos unfolding ch by (auto simp: computeCancellationCharge_def)
  have gone: "\<forall>b\<in>set (db_bookings t). bk_id b = i \<longrightarrow> bk_status b = B_NO_SHOW"
    unfolding bks by (rule upd_where_all) (simp add: no_show_row_def)
  then have set: "settled i t" by (auto simp: settled_def cancellable_def)
  have again: "\<not> is_ok (markNoShow now' pre' t u' i)" for now' pre' u'
    using gone by (auto simp: is_ok_iff no_show_claim_def dest!: no_show_txD(1) find_rowD(6) elim!: markNoShowD)
  have "safe_book s (upd_booking i (no_show_row charge) s)"
    by (rule safe_book_upd) (simp add: no_show_row_def bkey_def reserving_def RESERVING_BOOKING_STATUSES_def)
  moreover have "safe_book (upd_booking i (no_show_row charge) s) t"
    by (rule safe_book_same) (use bks T(1) in \<open>simp_all add: upd_booking_def\<close>)
  ultimately have inv': "book_inv t" using inv unfolding safe_book_def by blast
  have led': "db_ledger t = db_ledger s @ (case bk_customer bk of None \<Rightarrow> []
         | Some c \<Rightarrow> if charge > 0 then [\<lparr>le_id = db_next s, le_customer = c, le_salon = bk_salon bk, le_booking = i,
             le_amount = charge, le_reason = NO_SHOW_CHARGE, le_status = L_OUTSTANDING\<rparr>] else [])"
    using led by (simp split: option.split)
  have conf: "\<exists>b\<in>set (db_bookings s). bk_id b = i \<and> bk_status b = B_CONFIRMED" using b by blast
  show ?thesis
    by (rule exI [of _ bk], rule exI [of _ pol], intro conjI allI)
      (fact D conf abs price led' walletBalance_same [OF T(2,3)] inv' again settled_no_cancel [OF set])+
qed

definition missed_shop :: db where
  "missed_shop = demo_shop\<lparr>db_roles := [\<lparr>ur_user = 8, ur_role = SALON_OWNER, ur_salon = Some 1\<rparr>], db_bookings := [demo_booking 50 (Some 3) 1792382400000 1792384200000 B_CONFIRMED]\<rparr>"

lemma missed_shop_inv: "book_inv missed_shop"
  by (simp add: book_inv_def no_clash_def uniq_on_def missed_shop_def demo_shop_defs)

lemma missed_marked: "\<exists>t. markNoShow 1792383000000 missed_shop missed_shop 8 50 = Inr (t, 200)"
proof -
  let ?b = "demo_booking 50 (Some 3) 1792382400000 1792384200000 B_CONFIRMED"
  have 1: "find_booking missed_shop 50 = Some ?b" by (simp add: find_booking_def missed_shop_def demo_booking_def)
  have 2: "is_ok (assertAccessOrAdminAccess missed_shop 8 (bk_salon ?b))"
    by (simp add: assertAccessOrAdminAccess_def has_role_def exists_where_def missed_shop_def demo_shop_defs)
  have 3: "getEffectivePolicy missed_shop (bk_salon ?b) = Inr demo_policy"
    by (simp add: getEffectivePolicy_def missed_shop_def demo_shop_defs)
  have 4: "computeNoShowCharge missed_shop ?b demo_policy = 200"
    by (simp add: computeNoShowCharge_def computeCancellationCharge_def computeChargeAmount_def resolveEffectiveBookingServices_def
        paiseToRupees_def demo_booking_def demo_policy_def sample_policy_def Let_def)
  have 6: "bk_id ?b = 50" "bk_status ?b = B_CONFIRMED" "bk_customer ?b = Some 7" "bk_slotStart ?b = 1792382400000"
    by (simp_all add: demo_booking_def)
  have 5: "db_entries missed_shop = []" "no_show_claim missed_shop 50 ?b" "db_bookings missed_shop = [?b]"
    by (simp_all add: no_show_claim_def exists_where_def 6) (simp_all add: missed_shop_def demo_shop_defs)
  obtain a where a: "assertAccessOrAdminAccess missed_shop 8 (bk_salon ?b) = Inr a" using 2 by (auto simp: is_ok_iff)
  show ?thesis
    unfolding markNoShow_def 1 theE_Some a bindE_simps 3 4
    by (simp add: 5 6 exists_where_def no_show_tx_def 4 Let_def demo_policy_def minutes_def)
qed

lemma no_show_needs_absence_witness:
  "\<exists>t. markNoShow 1792383000000 missed_shop missed_shop 8 50 = Inr (t, 200)
     \<and> \<not> is_ok (markNoShow 1792383000001 missed_shop t 8 50)"
  using missed_marked no_show_needs_absence [OF _ missed_shop_inv] by blast

text \<open>The conditional updates of the two operations, as claims that are spent by succeeding.\<close>

interpretation absence: single_claim "no_show_claim s i" "no_show_row charge" for s i charge
  by unfold_locales (simp add: no_show_claim_def no_show_row_def)

interpretation correction: single_claim "\<lambda>b. bk_id b = i \<and> bk_status b = B_NO_SHOW"
    "\<lambda>b. b\<lparr>bk_status := B_COMPLETED, bk_cancellationCharge := None\<rparr>" for i
  by unfold_locales simp

interpretation waiver: single_claim "outstanding_no_show i" "\<lambda>e. e\<lparr>le_status := L_WAIVED\<rparr>" for i
  by unfold_locales (simp add: outstanding_no_show_def)

text \<open>The correction of a wrong no-show waives exactly the outstanding no-show charges of that
  appointment and no other debt, reports the ones it waived, marks the appointment as completed without a
  charge, moves no wallet, and cannot be applied twice.\<close>

theorem correction_waives_only_its_charge:
  assumes run: "correctToCompleted pre s u i = Inr (t, waived)" and ids: "distinct (map le_id (db_ledger s))"
  shows "db_ledger t = upd_where (outstanding_no_show i) (\<lambda>e. e\<lparr>le_status := L_WAIVED\<rparr>) (db_ledger s)
     \<and> waived = map le_id (filter (outstanding_no_show i) (db_ledger s))
     \<and> \<not> exists_where (outstanding_no_show i) (db_ledger t)
     \<and> db_bookings t = upd_where (\<lambda>b. bk_id b = i \<and> bk_status b = B_NO_SHOW)
          (\<lambda>b. b\<lparr>bk_status := B_COMPLETED, bk_cancellationCharge := None\<rparr>) (db_bookings s)
     \<and> (\<forall>n v. walletBalance t n v = walletBalance s n v)
     \<and> (\<forall>pre' u'. \<not> is_ok (correctToCompleted pre' t u' i))"
proof -
  define claim where "claim = (\<lambda>b::booking. bk_id b = i \<and> bk_status b = B_NO_SHOW)"
  define s1 where "s1 = s\<lparr>db_bookings := upd_where claim (\<lambda>b. b\<lparr>bk_status := B_COMPLETED, bk_cancellationCharge := None\<rparr>)
      (db_bookings s)\<rparr>"
  define out where "out = map le_id (filter (outstanding_no_show i) (db_ledger s))"
  obtain bk where bk: "find_booking pre i = Some bk" and tx: "\<exists>t0 es. correct_tx s bk u = Inr (t0, waived) \<and> t = emit es t0"
    using run unfolding correctToCompleted_def theE_Inr bindE_Inr guardE_Inr by (auto split: prod.splits)
  have id: "bk_id bk = i" using find_rowD(6) [OF bk] by simp
  have "\<exists>es. t = emit es (if out = [] then s1
        else s1\<lparr>db_ledger := upd_where (\<lambda>e. le_id e \<in> set out \<and> le_status e = L_OUTSTANDING)
               (\<lambda>e. e\<lparr>le_status := L_WAIVED\<rparr>) (db_ledger s)\<rparr>)" and w: "waived = out"
    using tx unfolding correct_tx_def id claim_def [symmetric] Let_def s1_def [symmetric] guardE_Inr
    by (auto simp: s1_def out_def emit_def)
  then obtain es where t: "t = emit es (if out = [] then s1
        else s1\<lparr>db_ledger := upd_where (\<lambda>e. le_id e \<in> set out \<and> le_status e = L_OUTSTANDING)
               (\<lambda>e. e\<lparr>le_status := L_WAIVED\<rparr>) (db_ledger s)\<rparr>)" by blast
  have hit: "le_id e \<in> set out \<and> le_status e = L_OUTSTANDING \<longleftrightarrow> outstanding_no_show i e" if "e \<in> set (db_ledger s)" for e
    using distinct_key_eq [OF ids that] that by (auto simp: out_def outstanding_no_show_def)
  have led: "db_ledger t = upd_where (outstanding_no_show i) (\<lambda>e. e\<lparr>le_status := L_WAIVED\<rparr>) (db_ledger s)"
  proof (cases "out = []")
    case True
    then have "\<not> outstanding_no_show i e" if "e \<in> set (db_ledger s)" for e
      using that by (auto simp: out_def filter_empty_conv)
    then show ?thesis using True by (simp add: t s1_def upd_where_def map_idI)
  next
    case False
    then show ?thesis using hit by (simp add: t s1_def upd_where_def)
  qed
  have bks: "db_bookings t = upd_where claim (\<lambda>b. b\<lparr>bk_status := B_COMPLETED, bk_cancellationCharge := None\<rparr>) (db_bookings s)"
    by (simp add: t s1_def)
  have wal: "walletBalance t n v = walletBalance s n v" for n v
    by (rule walletBalance_same) (simp_all add: t s1_def)
  have none: "count_where claim (db_bookings t) = 0"
    unfolding bks claim_def by (rule correction.second_claim_fails)
  have again: "\<not> is_ok (correctToCompleted pre' t u' i)" for pre' u'
    using none by (auto simp: is_ok_iff correctToCompleted_def correct_tx_def success_simps claim_def Let_def dest!: find_rowD(6))
  have clear: "\<not> exists_where (outstanding_no_show i) (db_ledger t)"
    using waiver.second_claim_fails [of i "db_ledger s"] unfolding led exists_where_iff count_where_0 by blast
  show ?thesis
    using led w clear bks wal again by (simp add: claim_def out_def)
qed

text \<open>The example: the missed half hour of barber 3 was sold again for its second half before the correction.\<close>

definition resold_shop :: db where
  "resold_shop = missed_shop\<lparr>db_bookings := [demo_booking 50 (Some 3) 1792382400000 1792384200000 B_NO_SHOW,
       (demo_booking 51 (Some 3) 1792383300000 1792385100000 B_CONFIRMED)\<lparr>bk_idempotencyKey := ''k2''\<rparr>],
     db_ledger := [\<lparr>le_id = 70, le_customer = 7, le_salon = 1, le_booking = 50, le_amount = 200,
       le_reason = NO_SHOW_CHARGE, le_status = L_OUTSTANDING\<rparr>]\<rparr>"

lemma resold_shop_inv: "book_inv resold_shop"
  by (simp add: book_inv_def no_clash_def uniq_on_def staff_clash_def reserving_def RESERVING_BOOKING_STATUSES_def
      resold_shop_def missed_shop_def demo_shop_defs)

lemma resold_corrected:
  "\<exists>t. correctToCompleted resold_shop resold_shop 8 50 = Inr (t, [70])
     \<and> map bk_status (db_bookings t) = [B_COMPLETED, B_CONFIRMED] \<and> \<not> no_clash (db_bookings t)"
proof -
  let ?b = "demo_booking 50 (Some 3) 1792382400000 1792384200000 B_NO_SHOW"
  let ?c = "(demo_booking 51 (Some 3) 1792383300000 1792385100000 B_CONFIRMED)\<lparr>bk_idempotencyKey := ''k2''\<rparr>"
  have 1: "find_booking resold_shop 50 = Some ?b" by (simp add: find_booking_def resold_shop_def demo_booking_def)
  have 2: "is_ok (assertAccessOrAdminAccess resold_shop 8 (bk_salon ?b))"
    by (simp add: assertAccessOrAdminAccess_def has_role_def exists_where_def resold_shop_def missed_shop_def demo_shop_defs)
  obtain a where a: "assertAccessOrAdminAccess resold_shop 8 (bk_salon ?b) = Inr a" using 2 by (auto simp: is_ok_iff)
  have 3: "bk_id ?b = 50" "bk_status ?b = B_NO_SHOW" "bk_customer ?b = Some 7" "bk_id ?c = 51"
    by (simp_all add: demo_booking_def)
  have 4: "db_bookings resold_shop = [?b, ?c]" "map le_id (filter (outstanding_no_show 50) (db_ledger resold_shop)) = [70]"
    by (simp_all add: resold_shop_def outstanding_no_show_def)
  have "\<exists>t. correctToCompleted resold_shop resold_shop 8 50 = Inr (t, [70])
      \<and> db_bookings t = [?b\<lparr>bk_status := B_COMPLETED, bk_cancellationCharge := None\<rparr>, ?c]"
    unfolding correctToCompleted_def 1 theE_Some a bindE_simps
    by (simp add: 3 4 correct_tx_def Let_def)
  then obtain t where t: "correctToCompleted resold_shop resold_shop 8 50 = Inr (t, [70])"
    "db_bookings t = [?b\<lparr>bk_status := B_COMPLETED, bk_cancellationCharge := None\<rparr>, ?c]" by blast
  have "\<not> no_clash (db_bookings t)"
    by (simp add: t no_clash_def staff_clash_def reserving_def RESERVING_BOOKING_STATUSES_def intervalsOverlap_def demo_booking_def)
  then show ?thesis using t by (intro exI [of _ t]) (simp add: demo_booking_def)
qed

lemma correction_waives_only_its_charge_witness:
  "\<exists>t. correctToCompleted resold_shop resold_shop 8 50 = Inr (t, [70]) \<and> map le_status (db_ledger t) = [L_WAIVED]
     \<and> \<not> is_ok (correctToCompleted resold_shop t 8 50)"
proof -
  obtain t where t: "correctToCompleted resold_shop resold_shop 8 50 = Inr (t, [70])" using resold_corrected by blast
  have "distinct (map le_id (db_ledger resold_shop))" by (simp add: resold_shop_def)
  from correction_waives_only_its_charge [OF t this] have
    "db_ledger t = upd_where (outstanding_no_show 50) (\<lambda>e. e\<lparr>le_status := L_WAIVED\<rparr>) (db_ledger resold_shop)"
    "\<not> is_ok (correctToCompleted resold_shop t 8 50)" by blast+
  then show ?thesis using t by (intro exI [of _ t]) (simp add: resold_shop_def outstanding_no_show_def)
qed

text \<open>The correction does not look at the calendar: a missed slot that was sold again in the meantime
  becomes a completed appointment beside the new one, so two appointments of one barber that both count as
  reserved overlap.\<close>

theorem correction_can_double_book:
  "\<exists>s t w. book_inv s \<and> correctToCompleted s s 8 50 = Inr (t, w) \<and> \<not> no_clash (db_bookings t)"
  using resold_corrected resold_shop_inv by blast

end
