(* ===== verification/Queue_Frame.thy ===== *)
theory Queue_Frame
  imports Queue_Steps
begin

text \<open>
  What the queue handlers leave alone: a successful handler changes entries, sessions, manual
  occupancies and events only, and completing a visit also the status of its booking. Money and
  campaigns are never touched by the Live Queue.
\<close>

section \<open>The frame\<close>

definition queue_frame :: "db \<Rightarrow> db \<Rightarrow> bool" where
  "queue_frame s t \<longleftrightarrow> (\<exists>es xs ms ev n.
     t = s\<lparr>db_entries := es, db_sessions := xs, db_manual := ms, db_events := ev, db_next := n\<rparr> \<and> db_next s \<le> n)"

lemma queue_frameD:
  assumes "queue_frame s t"
  shows "db_bookings t = db_bookings s" "db_credits t = db_credits s" "db_accounts t = db_accounts s"
    "db_ledger t = db_ledger s" "db_subsidies t = db_subsidies s" "db_next s \<le> db_next t"
    "db_offers t = db_offers s" "db_redemptions t = db_redemptions s" "db_services t = db_services s"
  using assms by (auto simp: queue_frame_def)

lemma queue_frame_refl [simp]: "queue_frame s s"
proof -
  have "s = s\<lparr>db_entries := db_entries s, db_sessions := db_sessions s, db_manual := db_manual s,
      db_events := db_events s, db_next := db_next s\<rparr>" by simp
  then show ?thesis unfolding queue_frame_def by (meson le_refl)
qed

lemma queue_frame_trans: "queue_frame a b \<Longrightarrow> queue_frame b c \<Longrightarrow> queue_frame a c"
  unfolding queue_frame_def
proof (elim exE conjE)
  fix es xs ms ev n es' xs' ms' ev' n'
  assume "b = a\<lparr>db_entries := es, db_sessions := xs, db_manual := ms, db_events := ev, db_next := n\<rparr>" "db_next a \<le> n"
    "c = b\<lparr>db_entries := es', db_sessions := xs', db_manual := ms', db_events := ev', db_next := n'\<rparr>" "db_next b \<le> n'"
  then show "\<exists>es xs ms ev n. c = a\<lparr>db_entries := es, db_sessions := xs, db_manual := ms, db_events := ev, db_next := n\<rparr>
      \<and> db_next a \<le> n"
    by (intro exI [of _ es'] exI [of _ xs'] exI [of _ ms'] exI [of _ ev'] exI [of _ n']) simp
qed

text \<open>The writes queue handlers make, one rule each.\<close>

lemma queue_frame_write:
  "queue_frame s (s\<lparr>db_entries := es\<rparr>)" "queue_frame s (s\<lparr>db_sessions := xs\<rparr>)"
  "queue_frame s (s\<lparr>db_manual := ms\<rparr>)" "queue_frame s (s\<lparr>db_events := ev\<rparr>)"
  "db_next s \<le> n \<Longrightarrow> queue_frame s (s\<lparr>db_entries := es, db_next := n\<rparr>)"
  "db_next s \<le> n \<Longrightarrow> queue_frame s (s\<lparr>db_sessions := xs, db_next := n\<rparr>)"
  "db_next s \<le> n \<Longrightarrow> queue_frame s (s\<lparr>db_manual := ms, db_next := n\<rparr>)"
proof -
  have w: "queue_frame s (s\<lparr>db_entries := es, db_sessions := xs, db_manual := ms, db_events := ev, db_next := n\<rparr>)"
    if "db_next s \<le> n" for es xs ms ev n
    using that unfolding queue_frame_def by blast
  show "queue_frame s (s\<lparr>db_entries := es\<rparr>)"
    using w [where n = "db_next s" and es = es and xs = "db_sessions s" and ms = "db_manual s" and ev = "db_events s"] by simp
  show "queue_frame s (s\<lparr>db_sessions := xs\<rparr>)"
    using w [where n = "db_next s" and es = "db_entries s" and xs = xs and ms = "db_manual s" and ev = "db_events s"] by simp
  show "queue_frame s (s\<lparr>db_manual := ms\<rparr>)"
    using w [where n = "db_next s" and es = "db_entries s" and xs = "db_sessions s" and ms = ms and ev = "db_events s"] by simp
  show "queue_frame s (s\<lparr>db_events := ev\<rparr>)"
    using w [where n = "db_next s" and es = "db_entries s" and xs = "db_sessions s" and ms = "db_manual s" and ev = ev] by simp
  show "queue_frame s (s\<lparr>db_entries := es, db_next := n\<rparr>)" if "db_next s \<le> n"
    using w [OF that, where es = es and xs = "db_sessions s" and ms = "db_manual s" and ev = "db_events s"] by simp
  show "queue_frame s (s\<lparr>db_sessions := xs, db_next := n\<rparr>)" if "db_next s \<le> n"
    using w [OF that, where es = "db_entries s" and xs = xs and ms = "db_manual s" and ev = "db_events s"] by simp
  show "queue_frame s (s\<lparr>db_manual := ms, db_next := n\<rparr>)" if "db_next s \<le> n"
    using w [OF that, where es = "db_entries s" and xs = "db_sessions s" and ms = ms and ev = "db_events s"] by simp
qed

lemma frame_emit: "queue_frame a s \<Longrightarrow> queue_frame a (emit es s)"
  unfolding emit_def by (rule queue_frame_trans [OF _ queue_frame_write(4)])

lemma frame_upd_entries: "queue_frame a s \<Longrightarrow> queue_frame a (upd_entries p f s)"
  unfolding upd_entries_def by (rule queue_frame_trans [OF _ queue_frame_write(1)])

lemma frame_sessions: "queue_frame a s \<Longrightarrow> queue_frame a (s\<lparr>db_sessions := xs\<rparr>)"
  by (rule queue_frame_trans [OF _ queue_frame_write(2)])

lemma frame_manual: "queue_frame a s \<Longrightarrow> queue_frame a (s\<lparr>db_manual := ms\<rparr>)"
  by (rule queue_frame_trans [OF _ queue_frame_write(3)])

lemma frame_manual_new: "queue_frame a s \<Longrightarrow> db_next s \<le> n \<Longrightarrow> queue_frame a (s\<lparr>db_manual := ms, db_next := n\<rparr>)"
  by (rule queue_frame_trans [OF _ queue_frame_write(7)])

lemma frame_eta_loop: "queue_frame a s \<Longrightarrow> queue_frame a (eta_loop sal busy rem i es s)"
proof (induction sal busy rem i es s rule: eta_loop.induct)
  case (2 sal busy rem i e es s)
  have "queue_frame a (eta_step sal busy rem i e s)"
    using "2.prems" by (simp add: eta_step_def Let_def frame_emit frame_upd_entries split: prod.split option.split)
  from "2.IH" [OF this] show ?case by simp
qed simp

lemma frame_recompute: "queue_frame a s \<Longrightarrow> queue_frame a (recomputeEtas now sal s)"
  by (simp add: recomputeEtas_def Let_def frame_eta_loop)

lemma frame_after: "queue_frame a s \<Longrightarrow> queue_frame a (after_queue_change now sal s)"
  unfolding after_queue_change_def by (intro frame_emit frame_recompute)

lemma frame_insert_entry: "insert_entry e d s = Inr (t, i) \<Longrightarrow> queue_frame s t"
  by (auto simp: insert_entry_def guardE_Inr intro: queue_frame_write)

lemma frame_createActiveSession: "createActiveSession now i st ch sv s = Inr t \<Longrightarrow> queue_frame s t"
  by (auto simp: createActiveSession_def guardE_Inr intro: queue_frame_write)

lemma frame_hold: "mapHoldConflict s = Inr t \<Longrightarrow> t = s"
  by (auto simp: mapHoldConflict_def guardE_Inr)

lemmas frame_wrap = frame_emit frame_after frame_recompute frame_upd_entries frame_sessions frame_manual

section \<open>Each queue handler\<close>

lemma frame_joins:
  "checkIn tz now pre s c b = Inr (t, i) \<Longrightarrow> queue_frame s t"
  "arriveAsOperator tz now pre s u b = Inr (t, i) \<Longrightarrow> queue_frame s t"
  "joinWalkIn tz now pre s c sal svo nm ph = Inr (t, i) \<Longrightarrow> queue_frame s t"
  "joinGuestWalkIn tz now pre s h sal sv nm' ph' = Inr (t, i) \<Longrightarrow> queue_frame s t"
  "createOperatorEntry tz now pre s u sal nm' ph cons svo st = Inr (t, i) \<Longrightarrow> queue_frame s t"
proof -
  have c: "queue_frame s t" if "createArrivalQueueEntry tz now pre s b c = Inr (t, i)" for b c
    using createArrivalQueueEntryD [OF that] by (auto intro!: frame_wrap dest: frame_insert_entry)
  show "checkIn tz now pre s c b = Inr (t, i) \<Longrightarrow> queue_frame s t"
    by (auto simp: checkIn_def success_simps intro: c)
  show "arriveAsOperator tz now pre s u b = Inr (t, i) \<Longrightarrow> queue_frame s t"
    by (auto simp: arriveAsOperator_def success_simps intro: c)
  show "joinWalkIn tz now pre s c sal svo nm ph = Inr (t, i) \<Longrightarrow> queue_frame s t"
    by (auto simp: joinWalkIn_def success_simps Let_def intro!: frame_wrap dest: frame_insert_entry)
  show "joinGuestWalkIn tz now pre s h sal sv nm' ph' = Inr (t, i) \<Longrightarrow> queue_frame s t"
    by (auto simp: joinGuestWalkIn_def success_simps Let_def intro!: frame_wrap dest: frame_insert_entry)
  show "createOperatorEntry tz now pre s u sal nm' ph cons svo st = Inr (t, i) \<Longrightarrow> queue_frame s t"
    by (auto simp: createOperatorEntry_def success_simps Let_def intro!: frame_wrap dest: frame_insert_entry)
qed

lemma frame_waiting:
  "call now pre s u i = Inr t \<Longrightarrow> queue_frame s t"
  "markArrived now pre s u i = Inr t \<Longrightarrow> queue_frame s t"
  "noShow now pre s u i = Inr t \<Longrightarrow> queue_frame s t"
  "cancelByCustomer now pre s c i = Inr t \<Longrightarrow> queue_frame s t"
  "cancelGuestEntry sha now pre s i tok = Inr t \<Longrightarrow> queue_frame s t"
  "registerGuestPush sha now pre s i tok push = Inr (t, b) \<Longrightarrow> queue_frame s t"
  "respondArrival sha now s i choice cu tok' = Inr t \<Longrightarrow> queue_frame s t"
  by (auto simp: call_def markArrived_def noShow_def cancelByCustomer_def cancelGuestEntry_def registerGuestPush_def
      respondArrival_def success_simps Let_def split: if_splits intro!: frame_wrap)

lemma frame_release_row: "queue_frame s (fst (release_row i st act s))"
  by (auto simp: release_row_def Let_def intro!: frame_wrap)

lemma frame_release: "queue_frame s (fst (release sal holder act s))"
proof -
  note row = frame_release_row
  have "queue_frame s (fst (release_loop rows act s))" for rows s
  proof (induction rows arbitrary: s)
    case (Cons r rows)
    show ?case using queue_frame_trans [OF row Cons] by (simp add: split_beta)
  qed simp
  then show ?thesis by (simp add: release_def Let_def split_beta frame_emit)
qed

lemma frame_occupancy:
  "occupyLocal now pre s u sal ch = Inr (t, i) \<Longrightarrow> queue_frame s t"
  "freeLocal now pre s u sal ch = Inr (t, j) \<Longrightarrow> queue_frame s t"
  "freeAllLocal now pre s u sal = Inr (t, n) \<Longrightarrow> queue_frame s t"
  by (auto simp: occupyLocal_def freeLocal_def freeAllLocal_def onChairOccupancyChanged_def success_simps Let_def
      split: if_splits option.splits intro!: frame_wrap frame_manual_new)

lemma frame_assign_tx: "assign_tx now clk entry st ch sv d start s = Inr t \<Longrightarrow> queue_frame s t"
  using assign_txD(7,8) [of now clk entry st ch sv d start s t]
  by (cases start) (auto intro: frame_wrap queue_frame_trans [OF frame_upd_entries [OF queue_frame_refl]]
      frame_createActiveSession)

lemma frame_assignLoaded:
  assumes "assignLoaded now clk pre s entry sv st ch who start = Inr t"
  shows "queue_frame s t"
proof -
  from assms obtain serviceId d s1 where "assign_tx now clk entry st ch serviceId d start s = Inr s1"
    and t: "assignLoaded now clk pre s entry sv st ch who start = Inr t"
      "assign_checks pre entry sv st ch = Inr (serviceId, d)"
    by (auto simp: assignLoaded_def success_simps)
  then have "queue_frame s s1" by (simp add: frame_assign_tx)
  then show ?thesis
    using t \<open>assign_tx now clk entry st ch serviceId d start s = Inr s1\<close>
    by (auto simp: assignLoaded_def Let_def intro!: frame_wrap split: option.splits prod.splits if_splits)
qed

lemma frame_start_tx: "start_tx now clk entry st ch sv d u s = Inr t \<Longrightarrow> queue_frame s t"
  by (auto dest!: start_txD(4) frame_createActiveSession intro!: frame_emit
      intro: queue_frame_trans [OF frame_upd_entries [OF queue_frame_refl]])

lemma frame_assignment:
  "assign now clk pre s u i svo st ch start = Inr t \<Longrightarrow> queue_frame s t"
  "assignAsSystem now clk pre s i svo st ch = Inr t \<Longrightarrow> queue_frame s t"
  "startService now clk pre s u i = Inr t \<Longrightarrow> queue_frame s t"
  "reassign now clk pre s u i st' ch' = Inr t \<Longrightarrow> queue_frame s t"
proof -
  show "assign now clk pre s u i svo st ch start = Inr t \<Longrightarrow> queue_frame s t"
    by (auto simp: assign_def success_simps intro: frame_assignLoaded)
  show "assignAsSystem now clk pre s i svo st ch = Inr t \<Longrightarrow> queue_frame s t"
    by (auto simp: assignAsSystem_def success_simps intro: frame_assignLoaded)
  show "startService now clk pre s u i = Inr t \<Longrightarrow> queue_frame s t"
    by (drule startServiceD) (auto intro!: frame_wrap intro: frame_start_tx)
  have "queue_frame s t" if "reassign_tx now clk entry x st ch d s = Inr t" for entry x st ch d t
    using that by (auto simp: reassign_tx_def Let_def success_simps intro!: frame_wrap)
  then show "reassign now clk pre s u i st' ch' = Inr t \<Longrightarrow> queue_frame s t"
    by (drule_tac reassignD) (auto intro!: frame_wrap)
qed

lemma frame_cancelByStaff: "cancelByStaff now pre s u i = Inr t \<Longrightarrow> queue_frame s t"
  by (auto simp: cancelByStaff_def cancel_staff_tx_def success_simps intro!: frame_wrap)

text \<open>Completing a visit also marks its booking completed.\<close>

lemma completeSession_frame:
  assumes "completeSession now pre s u k = Inr t"
  obtains x qe where "find_session pre k = Some x" "find_entry pre (ss_entry x) = Some qe"
    "queue_frame (s\<lparr>db_bookings := db_bookings t\<rparr>) t"
    "db_bookings t = (case qe_booking qe of None \<Rightarrow> db_bookings s
       | Some b \<Rightarrow> upd_where (\<lambda>r. bk_id r = b) (\<lambda>r. r\<lparr>bk_status := B_COMPLETED\<rparr>) (db_bookings s))"
proof -
  from completeSessionD [OF assms] obtain x qe s1 es es' where
    x: "find_session pre k = Some x" "find_entry pre (ss_entry x) = Some qe" and tx: "complete_tx now x qe s = Inr s1"
    and t: "t = emit es' (recomputeEtas now (qe_salon qe) (emit es s1))" by blast
  let ?b = "case qe_booking qe of None \<Rightarrow> db_bookings s
       | Some b \<Rightarrow> upd_where (\<lambda>r. bk_id r = b) (\<lambda>r. r\<lparr>bk_status := B_COMPLETED\<rparr>) (db_bookings s)"
  have f: "queue_frame (s\<lparr>db_bookings := ?b\<rparr>) s1"
  proof -
    have "s1 = (s\<lparr>db_bookings := ?b\<rparr>)\<lparr>db_entries := db_entries s1, db_sessions := db_sessions s1\<rparr>"
      using tx by (auto simp: complete_tx_def Let_def success_simps upd_entries_def split: option.splits)
    then show ?thesis using queue_frame_trans [OF queue_frame_write(1) queue_frame_write(2)] by metis
  qed
  have g: "queue_frame (s\<lparr>db_bookings := ?b\<rparr>) t" unfolding t by (intro frame_wrap f)
  have b: "db_bookings t = ?b" using queue_frameD(1) [OF g] by simp
  show thesis by (rule that [OF x _ b]) (use g b in simp)
qed

end
