(* ===== verification/Expiry.thy ===== *)
theory Expiry
  imports Settlement Queue_Frame
begin

text \<open>
  The two periodic sweeps: abandoned payment holds
  (\<^verbatim>\<open>apps/backend/src/bookings/booking-expiry.service.ts\<close>) and queue entries that were called
  and never came, were assigned and never started, or waited past the end of their day
  (\<^verbatim>\<open>apps/backend/src/queue/queue-entry-expiry.service.ts\<close>), each with the deadline it registers.
  \<open>pre\<close> is the snapshot the candidates are read from; every claim runs on the current database and
  re-checks the row. A sweep that throws keeps the claims it had committed: the result pairs the
  database with the error.
\<close>

section \<open>Payment holds\<close>

definition PAYMENT_HOLD_TIMEOUT_MINUTES :: int where "PAYMENT_HOLD_TIMEOUT_MINUTES = 10"

definition booking_nextDueAt :: "db \<Rightarrow> ms option" where
  "booking_nextDueAt s =
     (case sort_key bk_createdAt (filter (\<lambda>b. bk_status b = B_PENDING_PAYMENT) (db_bookings s)) of
        [] \<Rightarrow> None | nxt # _ \<Rightarrow> Some (bk_createdAt nxt + minutes PAYMENT_HOLD_TIMEOUT_MINUTES))"

definition hold_overdue :: "ms \<Rightarrow> booking \<Rightarrow> bool" where
  "hold_overdue cutoff b \<longleftrightarrow> bk_status b = B_PENDING_PAYMENT \<and> bk_createdAt b < cutoff"

definition expire_booking_tx :: "ms \<Rightarrow> db \<Rightarrow> booking \<Rightarrow> db \<Rightarrow> db \<times> bool" where
  "expire_booking_tx cutoff pre booking s =
     (let claim = (\<lambda>b. bk_id b = bk_id booking \<and> hold_overdue cutoff b) in
      if count_where claim (db_bookings s) = 0 then (s, False)
      else (emit ([Audit None ''BOOKING_EXPIRED'' (bk_id booking)]
                  @ (case bk_customer booking of Some c \<Rightarrow> [Notify c ''booking.expired''] | None \<Rightarrow> [])
                  @ [Notify (case find_salon pre (bk_salon booking) of Some x \<Rightarrow> sa_owner x | None \<Rightarrow> 0) ''owner.booking.expired''])
             (s\<lparr>db_bookings := upd_where claim (\<lambda>b. b\<lparr>bk_status := B_EXPIRED\<rparr>) (db_bookings s)\<rparr>), True))"

fun expire_bookings :: "ms \<Rightarrow> db \<Rightarrow> booking list \<Rightarrow> db \<Rightarrow> db \<times> nat" where
  "expire_bookings cutoff pre [] s = (s, 0)"
| "expire_bookings cutoff pre (booking # overdue) s =
     (let (s1, result) = expire_booking_tx cutoff pre booking s;
          s2 = (if result then emit [BookingEvent ''expired'' (bk_salon booking) (bk_id booking)] s1 else s1);
          (t, expiredCount) = expire_bookings cutoff pre overdue s2
      in (t, (if result then 1 else 0) + expiredCount))"

definition expireOverdueBookings :: "ms \<Rightarrow> db \<Rightarrow> db \<Rightarrow> db \<times> nat" where
  "expireOverdueBookings now pre s =
     (let cutoff = now - minutes PAYMENT_HOLD_TIMEOUT_MINUTES
      in expire_bookings cutoff pre (filter (hold_overdue cutoff) (db_bookings pre)) s)"

section \<open>Queue entries\<close>

definition called_unassigned :: "entry \<Rightarrow> bool" where
  "called_unassigned e \<longleftrightarrow> qe_status e = Q_CALLED \<and> qe_staff e = None"

definition called_assigned :: "entry \<Rightarrow> bool" where
  "called_assigned e \<longleftrightarrow> qe_status e = Q_CALLED \<and> qe_staff e \<noteq> None"

definition still_waiting :: "entry \<Rightarrow> bool" where
  "still_waiting e \<longleftrightarrow> qe_status e = Q_WAITING"

definition call_deadline :: "db \<Rightarrow> entry \<Rightarrow> app_error + ms option" where
  "call_deadline s e =
     (case qe_calledAt e of None \<Rightarrow> Inr None
      | Some calledAt \<Rightarrow> bindE (getEffectivePolicy s (qe_salon e)) (\<lambda>policy.
          Inr (Some (calledAt + minutes (sp_queueCallGraceMinutes policy)))))"

definition assignedOn :: "entry \<Rightarrow> ms" where
  "assignedOn e = nvl (orElse (qe_assignedAt e) (qe_calledAt e)) (qe_joinedAt e)"

definition assigned_deadline :: "zone_db \<Rightarrow> db \<Rightarrow> entry \<Rightarrow> ms option" where
  "assigned_deadline tz s e =
     (case getSalonTimeZone tz s (qe_salon e) of None \<Rightarrow> None
      | Some zone \<Rightarrow> map_option (\<lambda>(_, _, end'). end') (zonedDayBounds tz (assignedOn e) zone))"

definition expiryBoundaryFor :: "zone_db \<Rightarrow> db \<Rightarrow> id \<Rightarrow> string \<Rightarrow> ms \<Rightarrow> ms option" where
  "expiryBoundaryFor tz s salonId timeZone joinedAt =
     (let dayEnd = map_option (\<lambda>(_, _, end'). end') (zonedDayBounds tz joinedAt timeZone) in
      case utcToZonedDateStr tz joinedAt timeZone of None \<Rightarrow> dayEnd
      | Some joinDateStr \<Rightarrow>
          (case find_hours (db_hours s) salonId (zonedDateToDayOfWeek joinDateStr) of None \<Rightarrow> dayEnd
           | Some today \<Rightarrow> if h_isClosed today then dayEnd
                           else orElse (zonedWallTimeToUtc tz joinDateStr (h_close today) timeZone) dayEnd))"

definition waiting_deadline :: "zone_db \<Rightarrow> db \<Rightarrow> entry \<Rightarrow> ms option" where
  "waiting_deadline tz s e =
     (case getSalonTimeZone tz s (qe_salon e) of None \<Rightarrow> None
      | Some timeZone \<Rightarrow> expiryBoundaryFor tz s (qe_salon e) timeZone (qe_joinedAt e))"

text \<open>A deadline has passed when the clock is not before it.\<close>

definition passed :: "ms \<Rightarrow> ms option \<Rightarrow> bool" where
  "passed now d = (case d of None \<Rightarrow> False | Some t \<Rightarrow> \<not> now < t)"

definition consider_due :: "ms option \<Rightarrow> ms option \<Rightarrow> ms option" where
  "consider_due candidate earliest' = (case candidate of None \<Rightarrow> earliest'
     | Some c \<Rightarrow> (case earliest' of None \<Rightarrow> Some c | Some t \<Rightarrow> if c < t then Some c else Some t))"

fun consider_calls :: "db \<Rightarrow> entry list \<Rightarrow> ms option \<Rightarrow> app_error + ms option" where
  "consider_calls s [] acc = Inr acc"
| "consider_calls s (e # es) acc = bindE (call_deadline s e) (\<lambda>d. consider_calls s es (consider_due d acc))"

definition queue_nextDueAt :: "zone_db \<Rightarrow> db \<Rightarrow> app_error + ms option" where
  "queue_nextDueAt tz s =
     bindE (consider_calls s (filter called_unassigned (db_entries s)) None) (\<lambda>d1.
       let d2 = fold (\<lambda>e. consider_due (assigned_deadline tz s e)) (filter called_assigned (db_entries s)) d1;
           d3 = fold (\<lambda>e. consider_due (waiting_deadline tz s e)) (filter still_waiting (db_entries s)) d2
       in Inr d3)"

definition expire_entry_tx :: "(entry \<Rightarrow> bool) \<Rightarrow> entry_status \<Rightarrow> string \<Rightarrow> entry \<Rightarrow> db \<Rightarrow> db \<times> bool" where
  "expire_entry_tx still target action entry s =
     (let claim = (\<lambda>e. qe_id e = qe_id entry \<and> still e) in
      if count_where claim (db_entries s) = 0 then (s, False)
      else (emit [Audit None action (qe_id entry)] (upd_entries claim (\<lambda>e. e\<lparr>qe_status := target\<rparr>) s), True))"

text \<open>The loop the three sweeps share: the salons of the entries it changed, in order.\<close>

fun sweep_loop :: "(entry \<Rightarrow> app_error + bool) \<Rightarrow> (entry \<Rightarrow> bool) \<Rightarrow> entry_status \<Rightarrow> string \<Rightarrow> string
    \<Rightarrow> entry list \<Rightarrow> db \<Rightarrow> db \<times> (app_error + id list)" where
  "sweep_loop due still target action ev [] s = (s, Inr [])"
| "sweep_loop due still target action ev (entry # es) s =
     (case due entry of Inl err \<Rightarrow> (s, Inl err)
      | Inr False \<Rightarrow> sweep_loop due still target action ev es s
      | Inr True \<Rightarrow>
          (let (s1, result) = expire_entry_tx still target action entry s;
               s2 = (if result then emit [BookingEvent ev (qe_salon entry) (qe_id entry)] s1 else s1);
               (t, salons) = sweep_loop due still target action ev es s2
           in (t, bindE salons (\<lambda>l. Inr (if result then qe_salon entry # l else l)))))"

text \<open>The members of a JavaScript \<open>Set\<close>, in the order of their first insertion.\<close>

definition js_set :: "id list \<Rightarrow> id list" where "js_set xs = rev (remdups (rev xs))"

definition settle_salons :: "ms \<Rightarrow> bool \<Rightarrow> id list \<Rightarrow> db \<Rightarrow> db" where
  "settle_salons now freed salons =
     fold (\<lambda>sal s. emit (QueueUpdated sal # (if freed then [AutoAssignTrigger sal] else [])) (recomputeEtas now sal s)) salons"

definition finish_sweep :: "ms \<Rightarrow> bool \<Rightarrow> db \<times> (app_error + id list) \<Rightarrow> db \<times> (app_error + nat)" where
  "finish_sweep now freed r = (case r of (s, Inl err) \<Rightarrow> (s, Inl err)
     | (s, Inr salons) \<Rightarrow> (settle_salons now freed (js_set salons) s, Inr (length salons)))"

definition markStaleAssignedExpired :: "zone_db \<Rightarrow> ms \<Rightarrow> db \<Rightarrow> db \<Rightarrow> db \<times> (app_error + nat)" where
  "markStaleAssignedExpired tz now pre s =
     finish_sweep now True (sweep_loop (\<lambda>e. Inr (passed now (assigned_deadline tz pre e))) called_assigned Q_EXPIRED
       ''QUEUE_ASSIGNMENT_EXPIRED'' ''queue.entry.expired'' (filter called_assigned (db_entries pre)) s)"

definition call_due :: "ms \<Rightarrow> db \<Rightarrow> entry \<Rightarrow> app_error + bool" where
  "call_due now pre e = bindE (getEffectivePolicy pre (qe_salon e)) (\<lambda>policy.
     Inr (case qe_calledAt e of None \<Rightarrow> False
          | Some calledAt \<Rightarrow> \<not> calledAt + minutes (sp_queueCallGraceMinutes policy) > now))"

definition markOverdueNoShows :: "ms \<Rightarrow> db \<Rightarrow> db \<Rightarrow> db \<times> (app_error + nat)" where
  "markOverdueNoShows now pre s =
     finish_sweep now False (sweep_loop (call_due now pre) called_unassigned Q_NO_SHOW
       ''QUEUE_ENTRY_NO_SHOW'' ''queue.entry.no_show'' (filter called_unassigned (db_entries pre)) s)"

definition markStaleWaitingExpired :: "zone_db \<Rightarrow> ms \<Rightarrow> db \<Rightarrow> db \<Rightarrow> db \<times> (app_error + nat)" where
  "markStaleWaitingExpired tz now pre s =
     finish_sweep now False (sweep_loop (\<lambda>e. Inr (passed now (waiting_deadline tz pre e))) still_waiting Q_EXPIRED
       ''QUEUE_ENTRY_EXPIRED'' ''queue.entry.expired'' (filter still_waiting (db_entries pre)) s)"

text \<open>The sweep of the scheduler: each part reads its candidates from what the one before it left.\<close>

definition queue_sweep :: "zone_db \<Rightarrow> ms \<Rightarrow> db \<Rightarrow> db \<times> (app_error + unit)" where
  "queue_sweep tz now s =
     (case markOverdueNoShows now s s of (s1, Inl err) \<Rightarrow> (s1, Inl err)
      | (s1, Inr _) \<Rightarrow>
         (case markStaleWaitingExpired tz now s1 s1 of (s2, Inl err) \<Rightarrow> (s2, Inl err)
          | (s2, Inr _) \<Rightarrow>
             (case markStaleAssignedExpired tz now s2 s2 of (s3, Inl err) \<Rightarrow> (s3, Inl err)
              | (s3, Inr _) \<Rightarrow> (s3, Inr ()))))"

section \<open>What a sweep does to the queue\<close>

lemma upd_where_none: "(\<And>r. r \<in> set rs \<Longrightarrow> \<not> p r) \<Longrightarrow> upd_where p f rs = rs"
  by (induction rs) auto

lemma expire_entry_tx_entries:
  "db_entries (fst (expire_entry_tx still target a e s))
     = upd_where (\<lambda>r. qe_id r = qe_id e \<and> still r) (\<lambda>r. r\<lparr>qe_status := target\<rparr>) (db_entries s)"
proof (cases "count_where (\<lambda>r. qe_id r = qe_id e \<and> still r) (db_entries s) = 0")
  case True
  then have "upd_where (\<lambda>r. qe_id r = qe_id e \<and> still r) (\<lambda>r. r\<lparr>qe_status := target\<rparr>) (db_entries s) = db_entries s"
    by (intro upd_where_none) (simp add: count_where_0)
  then show ?thesis using True by (simp add: expire_entry_tx_def Let_def)
qed (simp add: expire_entry_tx_def Let_def upd_entries_def)

lemma upd_where_twice:
  assumes "\<And>r. \<not> q (f r)" "\<And>r. k (f r) = k r"
  shows "upd_where (\<lambda>r. P (k r) \<and> q r) f (upd_where (\<lambda>r. k r = n \<and> q r) f rs)
     = upd_where (\<lambda>r. (k r = n \<or> P (k r)) \<and> q r) f rs"
  using assms by (induction rs) auto

lemma sweep_loop_entries:
  assumes "\<And>e. \<not> still (e\<lparr>qe_status := target\<rparr>)"
  shows "sweep_loop due still target a ev es s = (t, Inr l) \<Longrightarrow>
     db_entries t = upd_where (\<lambda>r. (\<exists>c\<in>set es. due c = Inr True \<and> qe_id c = qe_id r) \<and> still r)
       (\<lambda>r. r\<lparr>qe_status := target\<rparr>) (db_entries s)"
proof (induction es arbitrary: s l)
  case Nil
  then show ?case by (simp add: upd_where_def)
next
  case (Cons e es)
  consider "due e = Inr False" | "due e = Inr True" using Cons.prems by (cases "due e") (auto split: if_splits)
  then show ?case
  proof cases
    case 1
    then show ?thesis using Cons by simp
  next
    case 2
    obtain s1 result where tx: "expire_entry_tx still target a e s = (s1, result)" by fastforce
    obtain l' where "sweep_loop due still target a ev es
        (if result then emit [BookingEvent ev (qe_salon e) (qe_id e)] s1 else s1) = (t, Inr l')"
      using Cons.prems 2 tx by (auto simp: Let_def bindE_Inr split: prod.splits)
    from Cons.IH [OF this] have "db_entries t = upd_where (\<lambda>r. (\<exists>c\<in>set es. due c = Inr True \<and> qe_id c = qe_id r) \<and> still r)
       (\<lambda>r. r\<lparr>qe_status := target\<rparr>) (db_entries s1)" by (simp split: if_splits)
    moreover have "db_entries s1 = upd_where (\<lambda>r. qe_id r = qe_id e \<and> still r) (\<lambda>r. r\<lparr>qe_status := target\<rparr>) (db_entries s)"
      using expire_entry_tx_entries [of still target a e s] by (simp add: tx)
    moreover have "(\<lambda>r. (\<exists>c\<in>set (e # es). due c = Inr True \<and> qe_id c = qe_id r) \<and> still r)
        = (\<lambda>r. (qe_id r = qe_id e \<or> (\<exists>c\<in>set es. due c = Inr True \<and> qe_id c = qe_id r)) \<and> still r)"
      using 2 by (auto simp: fun_eq_iff)
    moreover note upd_where_twice [where q = still and k = qe_id and P = "\<lambda>n. \<exists>c\<in>set es. due c = Inr True \<and> qe_id c = n"
          and f = "\<lambda>r. r\<lparr>qe_status := target\<rparr>" and n = "qe_id e" and rs = "db_entries s", OF assms]
    ultimately show ?thesis by simp
  qed
qed

lemma sweep_loop_frame:
  "queue_frame a s \<Longrightarrow> queue_frame a (fst (sweep_loop due still target act ev es s))"
proof (induction es arbitrary: s)
  case (Cons e es)
  have "queue_frame a (fst (expire_entry_tx still target act e s))"
    using Cons.prems by (simp add: expire_entry_tx_def Let_def frame_emit frame_upd_entries)
  then have "queue_frame a (fst (sweep_loop due still target act ev es (fst (expire_entry_tx still target act e s))))"
    "queue_frame a (fst (sweep_loop due still target act ev es
       (emit [BookingEvent ev (qe_salon e) (qe_id e)] (fst (expire_entry_tx still target act e s)))))"
    by (intro Cons.IH frame_emit; simp)+
  then show ?case
    using Cons by (simp add: Let_def case_prod_beta split: sum.split bool.split)
qed simp

lemma settle_salons_frame: "queue_frame a s \<Longrightarrow> queue_frame a (settle_salons now freed sals s)"
  unfolding settle_salons_def by (induction sals arbitrary: s) (simp_all add: frame_emit frame_recompute)

lemma settle_salons_ecore: "map ecore (db_entries (settle_salons now freed sals s)) = map ecore (db_entries s)"
  unfolding settle_salons_def by (induction sals arbitrary: s) (simp_all add: recompute_ecore)

definition pass :: "(entry \<Rightarrow> app_error + bool) \<Rightarrow> (entry \<Rightarrow> bool) \<Rightarrow> entry_status \<Rightarrow> entry \<Rightarrow> entry" where
  "pass due still target e = (if still e \<and> due e = Inr True then e\<lparr>qe_status := target\<rparr> else e)"

lemma ids_ecore: "map ecore es = map (\<lambda>e. ecore (f e)) rs \<Longrightarrow> (\<And>e. qe_id (f e) = qe_id e) \<Longrightarrow> map qe_id es = map qe_id rs"
proof -
  assume a: "map ecore es = map (\<lambda>e. ecore (f e)) rs" "\<And>e. qe_id (f e) = qe_id e"
  have "map qe_id es = map qe_id (map ecore es)" by simp
  then show ?thesis unfolding a(1) by (simp add: a(2))
qed

lemma pass_effect:
  assumes run: "finish_sweep now freed (sweep_loop due still target a ev (filter still (db_entries s)) s) = (t, Inr n)"
    and ids: "distinct (map qe_id (db_entries s))" and tgt: "\<And>e. \<not> still (e\<lparr>qe_status := target\<rparr>)"
  shows "map ecore (db_entries t) = map (\<lambda>e. ecore (pass due still target e)) (db_entries s)"
    and "queue_frame s t" "distinct (map qe_id (db_entries t))"
proof -
  obtain t0 l where loop: "sweep_loop due still target a ev (filter still (db_entries s)) s = (t0, Inr l)"
    and t: "t = settle_salons now freed (js_set l) t0"
    using run unfolding finish_sweep_def by (auto split: prod.splits sum.splits)
  have "(\<exists>c\<in>set (filter still (db_entries s)). due c = Inr True \<and> qe_id c = qe_id r) \<and> still r
      \<longleftrightarrow> still r \<and> due r = Inr True" if "r \<in> set (db_entries s)" for r
    using distinct_key_eq [OF ids _ that] that by auto
  then have "db_entries t0 = map (pass due still target) (db_entries s)"
    unfolding sweep_loop_entries [OF tgt loop] by (simp add: upd_where_def pass_def)
  then show e: "map ecore (db_entries t) = map (\<lambda>e. ecore (pass due still target e)) (db_entries s)"
    by (simp add: t settle_salons_ecore)
  show "queue_frame s t"
    unfolding t using settle_salons_frame sweep_loop_frame [OF queue_frame_refl [of s]] loop by (metis fst_conv)
  show "distinct (map qe_id (db_entries t))"
    using ids_ecore [OF e] ids by (simp add: pass_def)
qed

lemma sweep_loop_total: "(\<And>e. e \<in> set es \<Longrightarrow> \<exists>b. due e = Inr b) \<Longrightarrow> \<exists>t l. sweep_loop due still target a ev es s = (t, Inr l)"
proof (induction es arbitrary: s)
  case (Cons e es)
  obtain b where b: "due e = Inr b" using Cons.prems by auto
  have IH: "\<exists>t l. sweep_loop due still target a ev es s' = (t, Inr l)" for s'
    using Cons.IH Cons.prems by simp
  show ?case
    using IH [of s] IH [of "fst (expire_entry_tx still target a e s)"]
      IH [of "emit [BookingEvent ev (qe_salon e) (qe_id e)] (fst (expire_entry_tx still target a e s))"]
    by (cases b) (auto simp: b Let_def case_prod_beta)
qed simp

lemma pass_total:
  assumes "\<And>e. e \<in> set es \<Longrightarrow> \<exists>b. due e = Inr b"
  shows "\<exists>t n. finish_sweep now freed (sweep_loop due still target a ev es s) = (t, Inr n)"
  using sweep_loop_total [of es due still target a ev s] assms by (auto simp: finish_sweep_def)

text \<open>Deadlines read only tables no sweep writes, and no estimate.\<close>

lemma deadlines_frame:
  assumes "queue_frame s t"
  shows "waiting_deadline tz t = waiting_deadline tz s" "assigned_deadline tz t = assigned_deadline tz s"
    "call_due now t = call_due now s" "call_deadline t = call_deadline s" "db_policies t = db_policies s"
proof -
  obtain es xs ms ev n where t: "t = s\<lparr>db_entries := es, db_sessions := xs, db_manual := ms, db_events := ev, db_next := n\<rparr>"
    using assms by (auto simp: queue_frame_def)
  have f: "getSalonTimeZone tz t = getSalonTimeZone tz s" for tz by (simp add: t fun_eq_iff getSalonTimeZone_def find_salon_def)
  have h: "db_hours t = db_hours s" by (simp add: t)
  have g: "getEffectivePolicy t = getEffectivePolicy s" by (simp add: t fun_eq_iff getEffectivePolicy_def cong: option.case_cong)
  show "waiting_deadline tz t = waiting_deadline tz s"
    unfolding waiting_deadline_def [abs_def] expiryBoundaryFor_def f h ..
  show "assigned_deadline tz t = assigned_deadline tz s" unfolding assigned_deadline_def [abs_def] f ..
  show "call_due now t = call_due now s" "call_deadline t = call_deadline s"
    unfolding call_due_def [abs_def] call_deadline_def [abs_def] g by simp_all
  show "db_policies t = db_policies s" by (simp add: t)
qed

lemma deadlines_ecore [simp]:
  "waiting_deadline tz s (ecore e) = waiting_deadline tz s e" "assigned_deadline tz s (ecore e) = assigned_deadline tz s e"
  "call_due now s (ecore e) = call_due now s e" "call_deadline s (ecore e) = call_deadline s e"
  "called_unassigned (ecore e) = called_unassigned e" "called_assigned (ecore e) = called_assigned e"
  "still_waiting (ecore e) = still_waiting e"
  by (simp_all add: waiting_deadline_def assigned_deadline_def call_due_def call_deadline_def assignedOn_def ecore_def
      called_unassigned_def called_assigned_def still_waiting_def cong: option.case_cong)

lemma deadlines_status [simp]:
  "waiting_deadline tz s (e\<lparr>qe_status := x\<rparr>) = waiting_deadline tz s e"
  "assigned_deadline tz s (e\<lparr>qe_status := x\<rparr>) = assigned_deadline tz s e"
  "call_due now s (e\<lparr>qe_status := x\<rparr>) = call_due now s e"
  by (simp_all add: waiting_deadline_def assigned_deadline_def call_due_def assignedOn_def cong: option.case_cong)

lemma pass_ecore: "due (ecore e) = due e \<Longrightarrow> still (ecore e) = still e \<Longrightarrow> ecore (pass due still target e) = pass due still target (ecore e)"
  by (simp add: pass_def ecore_def)

lemma pass_list:
  assumes "map ecore es = map (\<lambda>e. ecore (f e)) rs" "\<And>e. due (ecore e) = due e" "\<And>e. still (ecore e) = still e"
  shows "map (\<lambda>e. ecore (pass due still target e)) es = map (\<lambda>e. ecore (pass due still target (f e))) rs"
proof -
  have "map (\<lambda>e. ecore (pass due still target e)) es = map (pass due still target) (map ecore es)"
    using pass_ecore [where due = due and still = still and target = target] assms(2,3) by simp
  also have "\<dots> = map (\<lambda>e. ecore (pass due still target (f e))) rs"
    unfolding assms(1) using pass_ecore [where due = due and still = still and target = target] assms(2,3) by simp
  finally show ?thesis .
qed

section \<open>Deadlines and sweeps\<close>

lemma passed_consider [simp]: "passed now (consider_due c a) \<longleftrightarrow> passed now c \<or> passed now a"
  by (auto simp: passed_def consider_due_def split: option.split)

lemma passed_fold: "passed now (fold (\<lambda>e. consider_due (f e)) es a) \<longleftrightarrow> passed now a \<or> (\<exists>e\<in>set es. passed now (f e))"
  by (induction es arbitrary: a) auto

lemma consider_calls_passed:
  "consider_calls s es acc = Inr d \<Longrightarrow> passed now d \<longleftrightarrow> passed now acc \<or> (\<exists>e\<in>set es. call_due now s e = Inr True)"
proof (induction es arbitrary: acc)
  case (Cons e es)
  obtain d' where d': "call_deadline s e = Inr d'" "consider_calls s es (consider_due d' acc) = Inr d"
    using Cons.prems by (auto simp: bindE_Inr)
  have "passed now d' \<longleftrightarrow> call_due now s e = Inr True"
    using d'(1) by (auto simp: call_deadline_def call_due_def passed_def bindE_def split: option.splits sum.splits)
  then show ?case using Cons.IH [OF d'(2)] by auto
qed (simp add: passed_def)

lemma call_due_total: "\<exists>p\<in>set (db_policies s). sp_salon p = None \<Longrightarrow> \<exists>b. call_due now s e = Inr b"
proof -
  assume "\<exists>p\<in>set (db_policies s). sp_salon p = None"
  then obtain p where "find (\<lambda>p. sp_salon p = None) (db_policies s) = Some p"
    by (cases "find (\<lambda>p. sp_salon p = None) (db_policies s)") (auto simp: find_None_iff)
  then show ?thesis by (simp add: call_due_def getEffectivePolicy_def split: option.split)
qed

lemma consider_calls_total: "\<exists>p\<in>set (db_policies s). sp_salon p = None \<Longrightarrow> \<exists>d. consider_calls s es acc = Inr d"
proof (induction es arbitrary: acc)
  case (Cons e es)
  obtain b where "call_due 0 s e = Inr b" using call_due_total [OF Cons.prems] by blast
  then have "\<exists>d. call_deadline s e = Inr d"
    by (auto simp: call_due_def call_deadline_def bindE_Inr split: option.split)
  then show ?case using Cons by auto
qed simp

definition due_now :: "zone_db \<Rightarrow> ms \<Rightarrow> db \<Rightarrow> entry \<Rightarrow> bool" where
  "due_now tz now s e \<longleftrightarrow> (called_unassigned e \<and> call_due now s e = Inr True)
     \<or> (called_assigned e \<and> passed now (assigned_deadline tz s e)) \<or> (still_waiting e \<and> passed now (waiting_deadline tz s e))"

lemma nextDueAt_passed:
  assumes "queue_nextDueAt tz s = Inr d"
  shows "passed now d \<longleftrightarrow> (\<exists>e\<in>set (db_entries s). due_now tz now s e)"
proof -
  obtain d1 where d1: "consider_calls s (filter called_unassigned (db_entries s)) None = Inr d1"
    and d: "d = fold (\<lambda>e. consider_due (waiting_deadline tz s e)) (filter still_waiting (db_entries s))
        (fold (\<lambda>e. consider_due (assigned_deadline tz s e)) (filter called_assigned (db_entries s)) d1)"
    using assms by (auto simp: queue_nextDueAt_def bindE_Inr Let_def)
  show ?thesis
    unfolding d passed_fold consider_calls_passed [OF d1] by (auto simp: passed_def [of _ None] due_now_def)
qed

text \<open>The deadline the queue sweep registers is exact: the scheduler's clock has reached it precisely
  when some entry is due, that is, was called and did not answer within the grace period, was assigned on a day
  that is over, or waits past the closing time (or the end) of the day it joined.\<close>

theorem deadline_passed_iff_due:
  assumes "queue_nextDueAt tz s = Inr d"
  shows "passed now d \<longleftrightarrow> exists_where (due_now tz now s) (db_entries s)"
  unfolding exists_where_iff by (rule nextDueAt_passed [OF assms])

definition swept_status :: "zone_db \<Rightarrow> ms \<Rightarrow> db \<Rightarrow> entry \<Rightarrow> entry_status" where
  "swept_status tz now s e =
     (if called_unassigned e \<and> call_due now s e = Inr True then Q_NO_SHOW
      else if still_waiting e \<and> passed now (waiting_deadline tz s e) then Q_EXPIRED
      else if called_assigned e \<and> passed now (assigned_deadline tz s e) then Q_EXPIRED
      else qe_status e)"

text \<open>C7: one run of the queue sweep at a clock reading succeeds, brings every entry to the status its
  deadline asks for and no other entry to another, and leaves nothing due: the next deadline lies in the
  future, so the scheduler does not spin. (The platform's default policy must exist.)\<close>

theorem sweep_clears_everything_due:
  assumes ids: "distinct (map qe_id (db_entries s))" and pol: "\<exists>p\<in>set (db_policies s). sp_salon p = None"
  shows "\<exists>t d. queue_sweep tz now s = (t, Inr ())
     \<and> map (\<lambda>e. (qe_id e, qe_status e)) (db_entries t) = map (\<lambda>e. (qe_id e, swept_status tz now s e)) (db_entries s)
     \<and> queue_nextDueAt tz t = Inr d \<and> \<not> passed now d"
proof -
  let ?f1 = "pass (call_due now s) called_unassigned Q_NO_SHOW"
  let ?f2 = "pass (\<lambda>e. Inr (passed now (waiting_deadline tz s e))) still_waiting Q_EXPIRED"
  let ?f3 = "pass (\<lambda>e. Inr (passed now (assigned_deadline tz s e))) called_assigned Q_EXPIRED"
  obtain s1 n1 where 1: "markOverdueNoShows now s s = (s1, Inr n1)"
    using pass_total [where due = "call_due now s"] call_due_total [OF pol] unfolding markOverdueNoShows_def by blast
  note P1 = pass_effect [OF 1 [unfolded markOverdueNoShows_def] ids]
  have c1: "map ecore (db_entries s1) = map (\<lambda>e. ecore (?f1 e)) (db_entries s)" and F1: "queue_frame s s1"
    and i1: "distinct (map qe_id (db_entries s1))" using P1 by (simp_all add: called_unassigned_def)
  obtain s2 n2 where 2: "markStaleWaitingExpired tz now s1 s1 = (s2, Inr n2)"
    using pass_total [where due = "\<lambda>e. Inr (passed now (waiting_deadline tz s1 e))"] unfolding markStaleWaitingExpired_def by blast
  note P2 = pass_effect [OF 2 [unfolded markStaleWaitingExpired_def deadlines_frame(1) [OF F1]] i1]
  have c2: "map ecore (db_entries s2) = map (\<lambda>e. ecore (?f2 e)) (db_entries s1)" and F2: "queue_frame s1 s2"
    and i2: "distinct (map qe_id (db_entries s2))" using P2 by (simp_all add: still_waiting_def)
  have F12: "queue_frame s s2" by (rule queue_frame_trans [OF F1 F2])
  obtain s3 n3 where 3: "markStaleAssignedExpired tz now s2 s2 = (s3, Inr n3)"
    using pass_total [where due = "\<lambda>e. Inr (passed now (assigned_deadline tz s2 e))"] unfolding markStaleAssignedExpired_def by blast
  note P3 = pass_effect [OF 3 [unfolded markStaleAssignedExpired_def deadlines_frame(2) [OF F12]] i2]
  have c3: "map ecore (db_entries s3) = map (\<lambda>e. ecore (?f3 e)) (db_entries s2)" and F3: "queue_frame s2 s3"
    using P3 by (simp_all add: called_assigned_def)
  have F: "queue_frame s s3" by (rule queue_frame_trans [OF F12 F3])
  have "map ecore (db_entries s2) = map (\<lambda>e. ecore (?f2 (?f1 e))) (db_entries s)"
    unfolding c2 by (rule pass_list [OF c1]) simp_all
  from pass_list [OF this, of "\<lambda>e. Inr (passed now (assigned_deadline tz s e))" called_assigned Q_EXPIRED]
  have c: "map ecore (db_entries s3) = map (\<lambda>e. ecore (?f3 (?f2 (?f1 e)))) (db_entries s)" by (simp add: c3)
  have sw: "?f3 (?f2 (?f1 e)) = e\<lparr>qe_status := swept_status tz now s e\<rparr>" for e
    by (auto simp: pass_def swept_status_def called_unassigned_def still_waiting_def called_assigned_def)
  have run: "queue_sweep tz now s = (s3, Inr ())" by (simp add: queue_sweep_def 1 2 3)
  have "map (\<lambda>e. (qe_id e, qe_status e)) (db_entries s3) = map (\<lambda>e. (qe_id e, qe_status e)) (map ecore (db_entries s3))"
    by simp
  then have st: "map (\<lambda>e. (qe_id e, qe_status e)) (db_entries s3)
      = map (\<lambda>e. (qe_id e, swept_status tz now s e)) (db_entries s)" unfolding c sw by simp
  have clear: "\<not> due_now tz now s3 e" if e: "e \<in> set (db_entries s3)" for e
  proof -
    have "ecore e \<in> (\<lambda>e. ecore (e\<lparr>qe_status := swept_status tz now s e\<rparr>)) ` set (db_entries s)"
      using e c by (metis (no_types, lifting) imageI list.set_map map_eq_conv sw)
    then obtain r where r: "ecore e = ecore (r\<lparr>qe_status := swept_status tz now s r\<rparr>)" by blast
    have "due_now tz now s3 e = due_now tz now s (ecore e)" by (simp add: due_now_def deadlines_frame [OF F])
    also have "\<dots> = due_now tz now s (r\<lparr>qe_status := swept_status tz now s r\<rparr>)"
      unfolding r by (simp add: due_now_def)
    also have "\<not> \<dots>"
      by (auto simp: due_now_def swept_status_def called_unassigned_def still_waiting_def called_assigned_def split: if_splits)
    finally show ?thesis .
  qed
  have "\<exists>p\<in>set (db_policies s3). sp_salon p = None" using pol deadlines_frame(5) [OF F] by simp
  from consider_calls_total [OF this, of "filter called_unassigned (db_entries s3)" None]
  obtain d where d: "queue_nextDueAt tz s3 = Inr d" by (auto simp: queue_nextDueAt_def Let_def)
  have "\<not> passed now d" unfolding nextDueAt_passed [OF d] using clear by blast
  then show ?thesis using run st d by blast
qed

definition swept_shop :: db where
  "swept_shop = demo_shop\<lparr>db_entries := [(demo_entry 60 Q_CALLED None None 1)\<lparr>qe_calledAt := Some 0\<rparr>,
     demo_entry 61 Q_WAITING None None 2, (demo_entry 62 Q_WAITING None None 3)\<lparr>qe_joinedAt := 1792382400000\<rparr>,
     (demo_entry 63 Q_CALLED (Some 3) (Some 5) 4)\<lparr>qe_assignedAt := Some 1792382400000\<rparr>]\<rparr>"

lemma swept_shop_hyps: "distinct (map qe_id (db_entries swept_shop))" "\<exists>p\<in>set (db_policies swept_shop). sp_salon p = None"
  by (simp_all add: swept_shop_def demo_shop_defs)

lemma ist_days:
  "zonedDayBounds ist 0 ''Asia/Kolkata'' = Some ((1970, 1, 1), - 19800000, 66600000)"
  "zonedDayBounds ist 1792382400000 ''Asia/Kolkata'' = Some ((2026, 10, 19), 1792348200000, 1792434600000)"
  "zonedDateToDayOfWeek (2026, 10, 19) = 1" "zonedDateToDayOfWeek (1970, 1, 1) = 4"
  by code_simp+

lemma ist_dates:
  "utcToZonedDateStr ist 0 ''Asia/Kolkata'' = Some (1970, 1, 1)"
  "utcToZonedDateStr ist 1792382400000 ''Asia/Kolkata'' = Some (2026, 10, 19)"
  "zonedWallTimeToUtc ist (2026, 10, 19) ''18:00'' ''Asia/Kolkata'' = Some 1792413000000"
  by code_simp+

lemma swept_zone: "getSalonTimeZone ist swept_shop 1 = Some ''Asia/Kolkata''" by code_simp

lemma swept_shop_deadlines:
  "call_due 1792382400000 swept_shop ((demo_entry 60 Q_CALLED None None 1)\<lparr>qe_calledAt := Some 0\<rparr>) = Inr True"
  "waiting_deadline ist swept_shop (demo_entry 61 Q_WAITING None None 2) = Some 66600000"
  "waiting_deadline ist swept_shop ((demo_entry 62 Q_WAITING None None 3)\<lparr>qe_joinedAt := 1792382400000\<rparr>) = Some 1792413000000"
  "assigned_deadline ist swept_shop ((demo_entry 63 Q_CALLED (Some 3) (Some 5) 4)\<lparr>qe_assignedAt := Some 1792382400000\<rparr>)
     = Some 1792434600000"
proof -
  have h: "db_hours swept_shop = [\<lparr>h_owner = 1, h_day = 1, h_open = ''09:00'', h_close = ''18:00'', h_isClosed = False\<rparr>]"
    and p: "db_policies swept_shop = [demo_policy]"
    by (simp_all add: swept_shop_def demo_shop_def)
  have e: "qe_salon (demo_entry i st a b n) = 1" "qe_joinedAt (demo_entry i st a b n) = 0" for i st a b n
    by (simp_all add: demo_entry_def)
  show "call_due 1792382400000 swept_shop ((demo_entry 60 Q_CALLED None None 1)\<lparr>qe_calledAt := Some 0\<rparr>) = Inr True"
    by (simp add: call_due_def getEffectivePolicy_def p demo_policy_def minutes_def)
  show "waiting_deadline ist swept_shop (demo_entry 61 Q_WAITING None None 2) = Some 66600000"
    by (simp add: waiting_deadline_def expiryBoundaryFor_def find_hours_def e h swept_zone ist_days ist_dates Let_def del: One_nat_def)
  show "waiting_deadline ist swept_shop ((demo_entry 62 Q_WAITING None None 3)\<lparr>qe_joinedAt := 1792382400000\<rparr>) = Some 1792413000000"
    by (simp add: waiting_deadline_def expiryBoundaryFor_def find_hours_def e h swept_zone ist_days ist_dates Let_def del: One_nat_def)
  show "assigned_deadline ist swept_shop ((demo_entry 63 Q_CALLED (Some 3) (Some 5) 4)\<lparr>qe_assignedAt := Some 1792382400000\<rparr>)
     = Some 1792434600000"
    by (simp add: assigned_deadline_def assignedOn_def e swept_zone ist_days del: One_nat_def)
qed

lemma sweep_clears_everything_due_witness:
  "\<exists>t. queue_sweep ist 1792382400000 swept_shop = (t, Inr ())
     \<and> map (\<lambda>e. (qe_id e, qe_status e)) (db_entries t)
        = [(60, Q_NO_SHOW), (61, Q_EXPIRED), (62, Q_WAITING), (63, Q_CALLED)]"
proof -
  have es: "db_entries swept_shop = [(demo_entry 60 Q_CALLED None None 1)\<lparr>qe_calledAt := Some 0\<rparr>,
     demo_entry 61 Q_WAITING None None 2, (demo_entry 62 Q_WAITING None None 3)\<lparr>qe_joinedAt := 1792382400000\<rparr>,
     (demo_entry 63 Q_CALLED (Some 3) (Some 5) 4)\<lparr>qe_assignedAt := Some 1792382400000\<rparr>]"
    by (simp add: swept_shop_def)
  have "map (\<lambda>e. (qe_id e, swept_status ist 1792382400000 swept_shop e)) (db_entries swept_shop)
      = [(60, Q_NO_SHOW), (61, Q_EXPIRED), (62, Q_WAITING), (63, Q_CALLED)]"
    unfolding es by (simp add: swept_status_def swept_shop_deadlines passed_def called_unassigned_def still_waiting_def
        called_assigned_def) (simp add: demo_entry_def)
  then show ?thesis using sweep_clears_everything_due [OF swept_shop_hyps, of ist 1792382400000] by auto
qed

lemma deadline_passed_iff_due_witness:
  "\<exists>d. queue_nextDueAt ist swept_shop = Inr d \<and> passed 1792382400000 d"
proof -
  obtain d where d: "queue_nextDueAt ist swept_shop = Inr d"
    using consider_calls_total [OF swept_shop_hyps(2), of "filter called_unassigned (db_entries swept_shop)" None]
    by (auto simp: queue_nextDueAt_def Let_def)
  have "demo_entry 61 Q_WAITING None None 2 \<in> set (db_entries swept_shop)" by (simp add: swept_shop_def)
  moreover have "due_now ist 1792382400000 swept_shop (demo_entry 61 Q_WAITING None None 2)"
    unfolding due_now_def swept_shop_deadlines by (simp add: passed_def still_waiting_def demo_entry_def)
  ultimately have "exists_where (due_now ist 1792382400000 swept_shop) (db_entries swept_shop)"
    unfolding exists_where_iff by blast
  then show ?thesis using d deadline_passed_iff_due [OF d, of 1792382400000] by blast
qed

lemma joinWalkIn_entry:
  assumes "joinWalkIn tz now pre s c sal sv nm ph = Inr (t, i)"
  obtains e where "e \<in> set (db_entries t)" "qe_id e = i" "qe_status e = Q_WAITING" "qe_salon e = sal" "qe_joinedAt e = now"
proof -
  obtain r s1 es where t: "t = emit es (after_queue_change now sal s1)" and r: "db_entries s1 = db_entries s @ [r]"
      "qe_id r = i" "qe_status r = Q_WAITING" "qe_salon r = sal" "qe_joinedAt r = now"
    using assms by (auto simp: joinWalkIn_def success_simps Let_def new_entry_def insert_entry_def)
  have "map ecore (db_entries t) = map ecore (db_entries s1)"
    by (simp add: t after_queue_change_def recompute_ecore)
  then have "ecore r \<in> set (map ecore (db_entries t))" by (simp add: r(1))
  then obtain e where e: "e \<in> set (db_entries t)" "ecore e = ecore r" by auto
  have "qe_id e = i" "qe_status e = Q_WAITING" "qe_salon e = sal"
    using arg_cong [OF e(2), of qe_id] arg_cong [OF e(2), of qe_status] arg_cong [OF e(2), of qe_salon] r by simp_all
  moreover have "qe_joinedAt e = now" using arg_cong [OF e(2), of qe_joinedAt] r by (simp add: ecore_def)
  ultimately show thesis using that e(1) by blast
qed

text \<open>A walk-in customer may join after the shop has closed for the day, but the posted closing time of
  that day is the deadline of the entry: it is due for expiry from the moment it exists, so the next sweep
  takes the customer out of the line again.\<close>

theorem late_walk_in_is_due_at_once:
  assumes run: "joinWalkIn tz now pre s c sal sv nm ph = Inr (t, i)"
    and day: "getSalonTimeZone tz s sal = Some zone" "utcToZonedDateStr tz now zone = Some day"
      "find_hours (db_hours s) sal (zonedDateToDayOfWeek day) = Some h" "\<not> h_isClosed h"
      "zonedWallTimeToUtc tz day (h_close h) zone = Some close" "close \<le> now"
  shows "exists_where (\<lambda>e. qe_id e = i \<and> due_now tz now t e \<and> swept_status tz now t e = Q_EXPIRED) (db_entries t)"
proof -
  obtain e where e: "e \<in> set (db_entries t)" "qe_id e = i" "qe_status e = Q_WAITING" "qe_salon e = sal" "qe_joinedAt e = now"
    by (rule joinWalkIn_entry [OF run])
  have "queue_frame s t" by (rule frame_joins(3) [OF run])
  then have "waiting_deadline tz t e = waiting_deadline tz s e" by (simp add: deadlines_frame)
  also have "\<dots> = Some close" using day by (simp add: waiting_deadline_def expiryBoundaryFor_def Let_def e)
  finally have "due_now tz now t e \<and> swept_status tz now t e = Q_EXPIRED"
    using day(6) e by (simp add: due_now_def swept_status_def still_waiting_def called_unassigned_def passed_def)
  then show ?thesis using e unfolding exists_where_iff by blast
qed

text \<open>Example: the demo shop closes at six; a customer joins at seven in the evening of the same day.\<close>

lemma evening_zone: "getSalonTimeZone ist demo_shop 1 = Some ''Asia/Kolkata''" by code_simp

lemma evening_day:
  "zonedDayBounds ist 1792416600000 ''Asia/Kolkata'' = Some ((2026, 10, 19), 1792348200000, 1792434600000)"
  "utcToZonedDateStr ist 1792416600000 ''Asia/Kolkata'' = Some (2026, 10, 19)"
  by code_simp+

lemma evening_joined:
  "\<exists>t. joinWalkIn ist 1792416600000 demo_shop demo_shop 7 1 (Some 2) None None = Inr (t, 100)"
proof -
  have s: "db_entries demo_shop = []" "db_salons demo_shop = [demo_salon]" "db_services demo_shop = [demo_service]"
      "db_users demo_shop = [demo_user 7, demo_user 8]" "db_next demo_shop = 100"
    by (simp_all add: demo_shop_def demo_db_def empty_db_def)
  show ?thesis
    unfolding joinWalkIn_def nextTokenNumber_def resolveTimeZoneOrThrow_def evening_zone theE_Some bindE_simps evening_day
    by (simp add: getSalonOrThrow_def find_salon_def getServiceOrThrow_def assertNotAlreadyInQueue_def exists_where_def
        find_user_def truthy_def insert_entry_def new_entry_def s demo_salon_def demo_service_def demo_user_def del: One_nat_def)
qed

lemma late_walk_in_is_due_at_once_witness:
  "\<exists>t. joinWalkIn ist 1792416600000 demo_shop demo_shop 7 1 (Some 2) None None = Inr (t, 100)
     \<and> exists_where (\<lambda>e. qe_id e = 100 \<and> due_now ist 1792416600000 t e) (db_entries t)"
proof -
  obtain t where t: "joinWalkIn ist 1792416600000 demo_shop demo_shop 7 1 (Some 2) None None = Inr (t, 100)"
    using evening_joined ..
  have 3: "find_hours (db_hours demo_shop) 1 (zonedDateToDayOfWeek (2026, 10, 19))
      = Some \<lparr>h_owner = 1, h_day = 1, h_open = ''09:00'', h_close = ''18:00'', h_isClosed = False\<rparr>"
    by (simp add: ist_days find_hours_def demo_shop_def)
  show ?thesis
    using t late_walk_in_is_due_at_once [OF t evening_zone evening_day(2) 3, of 1792413000000] by (auto simp: ist_dates exists_where_iff)
qed

section \<open>Abandoned payment holds\<close>

interpretation hold: single_claim "\<lambda>b. bk_id b = i \<and> hold_overdue cutoff b" "\<lambda>b. b\<lparr>bk_status := B_EXPIRED\<rparr>" for i cutoff
  by unfold_locales (simp add: hold_overdue_def)

lemma expire_booking_tx_effect:
  "expire_booking_tx cutoff pre b s = (t, r) \<Longrightarrow>
     \<exists>ev. t = s\<lparr>db_bookings := upd_where (\<lambda>x. bk_id x = bk_id b \<and> hold_overdue cutoff x) (\<lambda>x. x\<lparr>bk_status := B_EXPIRED\<rparr>) (db_bookings s),
        db_events := ev\<rparr>"
proof (cases "count_where (\<lambda>x. bk_id x = bk_id b \<and> hold_overdue cutoff x) (db_bookings s) = 0")
  case True
  assume "expire_booking_tx cutoff pre b s = (t, r)"
  then have "t = s" using True by (simp add: expire_booking_tx_def Let_def)
  moreover have "upd_where (\<lambda>x. bk_id x = bk_id b \<and> hold_overdue cutoff x) (\<lambda>x. x\<lparr>bk_status := B_EXPIRED\<rparr>) (db_bookings s) = db_bookings s"
    using True by (intro upd_where_none) (simp add: count_where_0)
  ultimately show ?thesis by (intro exI [of _ "db_events s"]) simp
next
  case False
  assume "expire_booking_tx cutoff pre b s = (t, r)"
  then show ?thesis using False by (auto simp: expire_booking_tx_def Let_def emit_def)
qed

lemma expire_bookings_effect:
  "expire_bookings cutoff pre bs s = (t, n) \<Longrightarrow>
     \<exists>ev. t = s\<lparr>db_bookings := upd_where (\<lambda>x. bk_id x \<in> bk_id ` set bs \<and> hold_overdue cutoff x) (\<lambda>x. x\<lparr>bk_status := B_EXPIRED\<rparr>) (db_bookings s),
        db_events := ev\<rparr>"
proof (induction bs arbitrary: s n)
  case Nil
  then show ?case by (intro exI [of _ "db_events s"]) (simp add: upd_where_def)
next
  case (Cons b bs)
  let ?f = "\<lambda>x::booking. x\<lparr>bk_status := B_EXPIRED\<rparr>"
  obtain s1 r where tx: "expire_booking_tx cutoff pre b s = (s1, r)" by fastforce
  obtain m where rest: "expire_bookings cutoff pre bs
      (if r then emit [BookingEvent ''expired'' (bk_salon b) (bk_id b)] s1 else s1) = (t, m)"
    using Cons.prems by (auto simp: tx Let_def split: prod.splits)
  obtain ev where s1: "s1 = s\<lparr>db_bookings := upd_where (\<lambda>x. bk_id x = bk_id b \<and> hold_overdue cutoff x) ?f (db_bookings s), db_events := ev\<rparr>"
    using expire_booking_tx_effect [OF tx] by blast
  obtain ev' where t: "t = s1\<lparr>db_bookings := upd_where (\<lambda>x. bk_id x \<in> bk_id ` set bs \<and> hold_overdue cutoff x) ?f (db_bookings s1), db_events := ev'\<rparr>"
    using Cons.IH [OF rest] by (auto simp: emit_def split: if_splits)
  note tw = upd_where_twice [where q = "hold_overdue cutoff" and k = bk_id and P = "\<lambda>n. n \<in> bk_id ` set bs"
      and f = ?f and n = "bk_id b" and rs = "db_bookings s"]
  have "(\<lambda>x. bk_id x \<in> bk_id ` set (b # bs) \<and> hold_overdue cutoff x)
      = (\<lambda>x. (bk_id x = bk_id b \<or> bk_id x \<in> bk_id ` set bs) \<and> hold_overdue cutoff x)" by (auto simp: fun_eq_iff)
  then show ?case using tw by (intro exI [of _ ev']) (simp add: t s1 hold_overdue_def)
qed

lemma booking_nextDueAt_least:
  assumes "booking_nextDueAt s = Some d"
  shows "\<exists>b\<in>set (db_bookings s). bk_status b = B_PENDING_PAYMENT \<and> d = bk_createdAt b + minutes PAYMENT_HOLD_TIMEOUT_MINUTES"
    and "b \<in> set (db_bookings s) \<Longrightarrow> bk_status b = B_PENDING_PAYMENT \<Longrightarrow> d \<le> bk_createdAt b + minutes PAYMENT_HOLD_TIMEOUT_MINUTES"
proof -
  let ?xs = "filter (\<lambda>b. bk_status b = B_PENDING_PAYMENT) (db_bookings s)"
  obtain n xs where eq: "sort_key bk_createdAt ?xs = n # xs" "d = bk_createdAt n + minutes PAYMENT_HOLD_TIMEOUT_MINUTES"
    using assms by (auto simp: booking_nextDueAt_def split: list.splits)
  have "sorted (map bk_createdAt (n # xs))" using sorted_sort_key [of bk_createdAt ?xs] by (simp add: eq)
  moreover have "set (n # xs) = set ?xs" by (simp flip: eq(1))
  ultimately have le: "b \<in> set ?xs \<Longrightarrow> bk_createdAt n \<le> bk_createdAt b" for b by (metis list.map(2) set_ConsD order_refl sorted_wrt.simps(2) imageI list.set_map)
  have "n \<in> set ?xs" using \<open>set (n # xs) = set ?xs\<close> by auto
  then show "\<exists>b\<in>set (db_bookings s). bk_status b = B_PENDING_PAYMENT \<and> d = bk_createdAt b + minutes PAYMENT_HOLD_TIMEOUT_MINUTES"
    using eq(2) by auto
  show "b \<in> set (db_bookings s) \<Longrightarrow> bk_status b = B_PENDING_PAYMENT \<Longrightarrow> d \<le> bk_createdAt b + minutes PAYMENT_HOLD_TIMEOUT_MINUTES"
    using le by (simp add: eq(2))
qed

text \<open>One run of the payment-hold sweep expires exactly the holds that are older than ten minutes, keeps
  every other row, and leaves no hold whose deadline lies before the clock. It frees the slot and nothing
  else: the credits such a booking had redeemed are not returned, the subsidy stays outstanding, and since an
  expired booking can no longer be cancelled the customer has no way to get them back.\<close>

theorem hold_sweep_expires_but_keeps_the_credits:
  assumes run: "expireOverdueBookings now s s = (t, n)" and inv: "book_inv s"
  shows "db_bookings t = map (\<lambda>b. if bk_status b = B_PENDING_PAYMENT \<and> bk_createdAt b + 600000 < now
            then b\<lparr>bk_status := B_EXPIRED\<rparr> else b) (db_bookings s)
     \<and> (\<forall>d. booking_nextDueAt t = Some d \<longrightarrow> now \<le> d)
     \<and> (\<forall>clk u. walletBalance t clk u = walletBalance s clk u) \<and> db_subsidies t = db_subsidies s
     \<and> (\<forall>b\<in>set (db_bookings s). bk_status b = B_PENDING_PAYMENT \<and> bk_createdAt b + 600000 < now \<longrightarrow>
          (\<forall>now' clk pre c. \<not> is_ok (cancelBooking now' clk pre t c (bk_id b))))"
proof -
  let ?cut = "now - minutes PAYMENT_HOLD_TIMEOUT_MINUTES"
  have cut: "minutes PAYMENT_HOLD_TIMEOUT_MINUTES = 600000" by (simp add: minutes_def PAYMENT_HOLD_TIMEOUT_MINUTES_def)
  obtain ev where t: "t = s\<lparr>db_bookings := upd_where (\<lambda>x. bk_id x \<in> bk_id ` set (filter (hold_overdue ?cut) (db_bookings s))
      \<and> hold_overdue ?cut x) (\<lambda>x. x\<lparr>bk_status := B_EXPIRED\<rparr>) (db_bookings s), db_events := ev\<rparr>"
    using expire_bookings_effect [OF run [unfolded expireOverdueBookings_def Let_def]] by blast
  have b: "db_bookings t = map (\<lambda>b. if bk_status b = B_PENDING_PAYMENT \<and> bk_createdAt b + 600000 < now
            then b\<lparr>bk_status := B_EXPIRED\<rparr> else b) (db_bookings s)"
    by (auto simp: t upd_where_def hold_overdue_def cut)
  have due: "now \<le> d" if d: "booking_nextDueAt t = Some d" for d
    using booking_nextDueAt_least(1) [OF d] by (auto simp: b cut split: if_splits)
  have w: "walletBalance t clk u = walletBalance s clk u" for clk u
    by (rule walletBalance_same) (simp_all add: t)
  have set: "settled (bk_id r) t" if r: "r \<in> set (db_bookings s)" "bk_status r = B_PENDING_PAYMENT \<and> bk_createdAt r + 600000 < now" for r
  proof -
    have "distinct (map bk_id (db_bookings s))" using inv by (simp add: book_inv_def)
    from distinct_key_eq [OF this _ r(1)] r(2) show ?thesis
      unfolding settled_def b by (auto simp: cancellable_def)
  qed
  have no: "\<forall>b\<in>set (db_bookings s). bk_status b = B_PENDING_PAYMENT \<and> bk_createdAt b + 600000 < now \<longrightarrow>
          (\<forall>now' clk pre c. \<not> is_ok (cancelBooking now' clk pre t c (bk_id b)))"
    using settled_no_cancel [OF set] by blast
  have "db_subsidies t = db_subsidies s" by (simp add: t)
  then show ?thesis using b due w no by blast
qed

definition unpaid_shop :: db where
  "unpaid_shop = demo_shop\<lparr>db_bookings := [booked_row\<lparr>bk_status := B_PENDING_PAYMENT\<rparr>]\<rparr>"

lemma unpaid_shop_inv: "book_inv unpaid_shop"
  by (simp add: book_inv_def no_clash_def uniq_on_def unpaid_shop_def booked_row_def demo_shop_defs)

lemma hold_sweep_expires_but_keeps_the_credits_witness:
  "\<exists>t n. expireOverdueBookings 600001 unpaid_shop unpaid_shop = (t, n) \<and> map bk_status (db_bookings t) = [B_EXPIRED]
     \<and> map bk_creditsRedeemed (db_bookings t) = [Some 3000] \<and> walletBalance t 0 7 = walletBalance unpaid_shop 0 7
     \<and> \<not> is_ok (cancelBooking 0 0 unpaid_shop t 7 50)"
proof -
  obtain t n where run: "expireOverdueBookings 600001 unpaid_shop unpaid_shop = (t, n)" by fastforce
  have b: "db_bookings unpaid_shop = [booked_row\<lparr>bk_status := B_PENDING_PAYMENT\<rparr>]" by (simp add: unpaid_shop_def)
  have r: "bk_createdAt booked_row = 0" "bk_id booked_row = 50" "bk_creditsRedeemed booked_row = Some 3000"
    by (simp_all add: booked_row_def demo_booking_def)
  note T = hold_sweep_expires_but_keeps_the_credits [OF run unpaid_shop_inv, unfolded b]
  show ?thesis using T run by (intro exI [of _ t] exI [of _ n]) (simp add: r)
qed

text \<open>The run that the registered deadline triggers exactly on time finds nothing to expire: the deadline
  is the instant at which the oldest hold is ten minutes old, but the sweep asks for more than ten minutes.\<close>

theorem hold_sweep_on_time_does_nothing:
  assumes "booking_nextDueAt s = Some d"
  shows "db_bookings (fst (expireOverdueBookings d pre s)) = db_bookings s"
proof -
  have "\<not> hold_overdue (d - minutes PAYMENT_HOLD_TIMEOUT_MINUTES) b" if "b \<in> set (db_bookings s)" for b
    using booking_nextDueAt_least(2) [OF assms that] by (auto simp: hold_overdue_def)
  then have "upd_where (\<lambda>x. bk_id x \<in> ids \<and> hold_overdue (d - minutes PAYMENT_HOLD_TIMEOUT_MINUTES) x) f (db_bookings s)
      = db_bookings s" for ids f by (intro upd_where_none) blast
  note same = this
  obtain t n where run: "expireOverdueBookings d pre s = (t, n)" by fastforce
  from expire_bookings_effect [OF run [unfolded expireOverdueBookings_def Let_def]] show ?thesis
    by (auto simp: run same)
qed

lemma hold_sweep_on_time_does_nothing_witness:
  "db_bookings (fst (expireOverdueBookings 600000 unpaid_shop unpaid_shop)) = db_bookings unpaid_shop"
proof (rule hold_sweep_on_time_does_nothing)
  show "booking_nextDueAt unpaid_shop = Some 600000"
    by (simp add: booking_nextDueAt_def unpaid_shop_def booked_row_def demo_booking_def minutes_def PAYMENT_HOLD_TIMEOUT_MINUTES_def)
qed

end
