(* ===== verification/Dues.thy ===== *)
theory Dues
  imports Settlement
begin

text \<open>
  What a shop may do about the charges a customer owes it: the courtesy waiver of a late cancellation
  (\<^verbatim>\<open>dashboard-customers/cancellation-courtesy-waiver.service.ts\<close>) and the waiver of a no-show for new customers
  (\<^verbatim>\<open>waiveNoShowDue\<close>, \<^verbatim>\<open>restoreNoShowDue\<close> of \<^verbatim>\<open>dashboard-customers.service.ts\<close>). \<open>pre\<close> is what the reads before
  the transaction saw. Inside the transaction of a courtesy the count and the claim are two statements, each of which
  sees what is committed when it starts: \<open>rd\<close> is what the count saw, \<open>s\<close> what the claim runs on.
\<close>

section \<open>Constants, errors, rows\<close>

definition CANCELLATION_COURTESY_WAIVER_LIMIT :: nat where
  "CANCELLATION_COURTESY_WAIVER_LIMIT = 5"

definition NEW_CUSTOMER_GRACE_COMPLETED_VISIT_LIMIT :: nat where
  "NEW_CUSTOMER_GRACE_COMPLETED_VISIT_LIMIT = 3"

datatype due_error = LEDGER_ENTRY_NOT_FOUND | LEDGER_ENTRY_NOT_WAIVABLE | LEDGER_ENTRY_NOT_RESTORABLE | DUE_ACCESS app_error

definition due_access :: "app_error + 'a \<Rightarrow> due_error + 'a" where
  "due_access m = (case m of Inl err \<Rightarrow> Inl (DUE_ACCESS err) | Inr x \<Rightarrow> Inr x)"

lemma due_access_Inr [success_simps]: "due_access m = Inr y \<longleftrightarrow> m = Inr y"
  by (auto simp: due_access_def split: sum.splits)

definition getOwnedLedgerEntry :: "db \<Rightarrow> id \<Rightarrow> id \<Rightarrow> id \<Rightarrow> due_error + ledger_entry" where
  "getOwnedLedgerEntry s salonId customerId ledgerEntryId =
     theE (find (\<lambda>e. le_id e = ledgerEntryId) (db_ledger s)) LEDGER_ENTRY_NOT_FOUND (\<lambda>e.
     guardE (\<not> (le_salon e \<noteq> salonId \<or> le_customer e \<noteq> customerId)) LEDGER_ENTRY_NOT_FOUND (Inr e))"

definition getOwnedCancellationEntry :: "db \<Rightarrow> id \<Rightarrow> id \<Rightarrow> id \<Rightarrow> due_error + ledger_entry" where
  "getOwnedCancellationEntry s salonId customerId ledgerEntryId =
     bindE (getOwnedLedgerEntry s salonId customerId ledgerEntryId) (\<lambda>e.
     guardE (le_reason e = CANCELLATION_CHARGE) LEDGER_ENTRY_NOT_WAIVABLE (Inr e))"

definition due_claim :: "id \<Rightarrow> id \<Rightarrow> id \<Rightarrow> ledger_reason option \<Rightarrow> ledger_status \<Rightarrow> ledger_entry \<Rightarrow> bool" where
  "due_claim salonId customerId ledgerEntryId reason status e \<longleftrightarrow>
     le_id e = ledgerEntryId \<and> le_salon e = salonId \<and> le_customer e = customerId
     \<and> (case reason of None \<Rightarrow> True | Some r \<Rightarrow> le_reason e = r) \<and> le_status e = status"

text \<open>The conditional update with its audit row; a claim that hits nothing changes nothing.\<close>

definition claim_due :: "id \<Rightarrow> string \<Rightarrow> (ledger_entry \<Rightarrow> bool) \<Rightarrow> ledger_status \<Rightarrow> id \<Rightarrow> db \<Rightarrow> db" where
  "claim_due userId action claim status ledgerEntryId s =
     (if count_where claim (db_ledger s) = 0 then s
      else emit [Audit (Some userId) action ledgerEntryId]
             (s\<lparr>db_ledger := upd_where claim (\<lambda>e. e\<lparr>le_status := status\<rparr>) (db_ledger s)\<rparr>))"

section \<open>Courtesies\<close>

definition courtesies :: "id \<Rightarrow> id \<Rightarrow> db \<Rightarrow> nat" where
  "courtesies salonId customerId s =
     count_where (\<lambda>e. le_salon e = salonId \<and> le_customer e = customerId \<and> le_reason e = CANCELLATION_CHARGE \<and> le_status e = L_WAIVED)
       (db_ledger s)"

definition courtesy_tx :: "id \<Rightarrow> id \<Rightarrow> id \<Rightarrow> id \<Rightarrow> db \<Rightarrow> db \<Rightarrow> due_error + db" where
  "courtesy_tx userId salonId customerId ledgerEntryId rd s =
     guardE (\<not> courtesies salonId customerId rd \<ge> CANCELLATION_COURTESY_WAIVER_LIMIT) LEDGER_ENTRY_NOT_WAIVABLE
       (Inr (claim_due userId ''CANCELLATION_DUE_WAIVED''
               (due_claim salonId customerId ledgerEntryId (Some CANCELLATION_CHARGE) L_OUTSTANDING) L_WAIVED ledgerEntryId s))"

definition waiveCourtesy :: "db \<Rightarrow> db \<Rightarrow> db \<Rightarrow> id \<Rightarrow> id \<Rightarrow> id \<Rightarrow> id \<Rightarrow> due_error + (db \<times> ledger_entry)" where
  "waiveCourtesy pre rd s userId salonId customerId ledgerEntryId =
     bindE (due_access (assertOwnerOrAdminAccess pre userId salonId)) (\<lambda>_.
     bindE (getOwnedCancellationEntry pre salonId customerId ledgerEntryId) (\<lambda>entry.
     if le_status entry = L_WAIVED then Inr (s, entry)
     else guardE (le_status entry = L_OUTSTANDING) LEDGER_ENTRY_NOT_WAIVABLE
    (guardE (\<not> courtesies salonId customerId pre \<ge> CANCELLATION_COURTESY_WAIVER_LIMIT) LEDGER_ENTRY_NOT_WAIVABLE
    (bindE (courtesy_tx userId salonId customerId ledgerEntryId rd s) (\<lambda>t.
     bindE (getOwnedCancellationEntry t salonId customerId ledgerEntryId) (\<lambda>e. Inr (t, e)))))))"

definition restoreCourtesy :: "db \<Rightarrow> db \<Rightarrow> id \<Rightarrow> id \<Rightarrow> id \<Rightarrow> id \<Rightarrow> due_error + (db \<times> ledger_entry)" where
  "restoreCourtesy pre s userId salonId customerId ledgerEntryId =
     bindE (due_access (assertOwnerOrAdminAccess pre userId salonId)) (\<lambda>_.
     bindE (getOwnedCancellationEntry pre salonId customerId ledgerEntryId) (\<lambda>entry.
     if le_status entry = L_OUTSTANDING then Inr (s, entry)
     else guardE (le_status entry = L_WAIVED) LEDGER_ENTRY_NOT_RESTORABLE
    (let t = claim_due userId ''CANCELLATION_DUE_RESTORED''
               (due_claim salonId customerId ledgerEntryId (Some CANCELLATION_CHARGE) L_WAIVED) L_OUTSTANDING ledgerEntryId s
     in bindE (getOwnedCancellationEntry t salonId customerId ledgerEntryId) (\<lambda>e. Inr (t, e)))))"

section \<open>Grace for new customers\<close>

definition completed_visits :: "id \<Rightarrow> id \<Rightarrow> db \<Rightarrow> nat" where
  "completed_visits salonId customerId s =
     count_where (\<lambda>b. bk_salon b = salonId \<and> bk_customer b = Some customerId \<and> bk_status b = B_COMPLETED) (db_bookings s)"

definition waiveNoShowDue :: "db \<Rightarrow> db \<Rightarrow> id \<Rightarrow> id \<Rightarrow> id \<Rightarrow> id \<Rightarrow> due_error + (db \<times> ledger_entry)" where
  "waiveNoShowDue pre s userId salonId customerId ledgerEntryId =
     bindE (due_access (assertOwnerOrAdminAccess pre userId salonId)) (\<lambda>_.
     bindE (getOwnedLedgerEntry pre salonId customerId ledgerEntryId) (\<lambda>entry.
     guardE (le_reason entry = NO_SHOW_CHARGE) LEDGER_ENTRY_NOT_WAIVABLE
    (if le_status entry = L_WAIVED then Inr (s, entry)
     else guardE (le_status entry = L_OUTSTANDING) LEDGER_ENTRY_NOT_WAIVABLE
    (guardE (\<not> completed_visits salonId customerId pre \<ge> NEW_CUSTOMER_GRACE_COMPLETED_VISIT_LIMIT) LEDGER_ENTRY_NOT_WAIVABLE
    (let t = claim_due userId ''NO_SHOW_DUE_WAIVED''
               (due_claim salonId customerId ledgerEntryId (Some NO_SHOW_CHARGE) L_OUTSTANDING) L_WAIVED ledgerEntryId s
     in bindE (getOwnedLedgerEntry t salonId customerId ledgerEntryId) (\<lambda>e. Inr (t, e)))))))"

definition restoreNoShowDue :: "db \<Rightarrow> db \<Rightarrow> id \<Rightarrow> id \<Rightarrow> id \<Rightarrow> id \<Rightarrow> due_error + (db \<times> ledger_entry)" where
  "restoreNoShowDue pre s userId salonId customerId ledgerEntryId =
     bindE (due_access (assertOwnerOrAdminAccess pre userId salonId)) (\<lambda>_.
     bindE (getOwnedLedgerEntry pre salonId customerId ledgerEntryId) (\<lambda>entry.
     if le_status entry = L_OUTSTANDING then Inr (s, entry)
     else guardE (le_status entry = L_WAIVED) LEDGER_ENTRY_NOT_RESTORABLE
    (guardE (\<not> (case find_booking pre (le_booking entry) of None \<Rightarrow> False | Some b \<Rightarrow> bk_status b = B_COMPLETED)) LEDGER_ENTRY_NOT_RESTORABLE
    (let t = claim_due userId ''NO_SHOW_DUE_RESTORED''
               (due_claim salonId customerId ledgerEntryId None L_WAIVED) L_OUTSTANDING ledgerEntryId s
     in bindE (getOwnedLedgerEntry t salonId customerId ledgerEntryId) (\<lambda>e. Inr (t, e))))))"

section \<open>What a commit does to the dues\<close>

text \<open>The handlers as commits; each transaction runs by itself.\<close>

inductive due_commit :: "db \<Rightarrow> db \<Rightarrow> db \<Rightarrow> bool" for pre s where
  "waiveCourtesy pre s s u sal c i = Inr (t, e) \<Longrightarrow> due_commit pre s t"
| "restoreCourtesy pre s u sal c i = Inr (t, e) \<Longrightarrow> due_commit pre s t"
| "waiveNoShowDue pre s u sal c i = Inr (t, e) \<Longrightarrow> due_commit pre s t"
| "restoreNoShowDue pre s u sal c i = Inr (t, e) \<Longrightarrow> due_commit pre s t"

text \<open>Dues only ever change their status, and a settled one not even that.\<close>

definition due_later :: "ledger_entry \<Rightarrow> ledger_entry \<Rightarrow> bool" where
  "due_later e f \<longleftrightarrow> f\<lparr>le_status := L_OUTSTANDING\<rparr> = e\<lparr>le_status := L_OUTSTANDING\<rparr> 
     \<and> (if le_status e = L_SETTLED then f = e else le_status f \<in> {L_OUTSTANDING, L_WAIVED})"

definition due_ids :: "db \<Rightarrow> bool" where
  "due_ids s \<longleftrightarrow> distinct (map le_id (db_ledger s)) \<and> (\<forall>e\<in>set (db_ledger s). le_id e < db_next s)"

text \<open>
  What any commit of the backend may do to the dues: change the status of old ones as above, and open new ones. While
  identifiers are unique, no customer comes to have more courtesies than the limit.
\<close>

definition ledger_step :: "db \<Rightarrow> db \<Rightarrow> bool" where
  "ledger_step s t \<longleftrightarrow> db_next s \<le> db_next t
     \<and> (\<exists>fs new. db_ledger t = fs @ new \<and> list_all2 due_later (db_ledger s) fs
          \<and> (\<forall>e\<in>set new. le_status e = L_OUTSTANDING \<and> db_next s \<le> le_id e \<and> le_id e < db_next t) \<and> distinct (map le_id new))
     \<and> (due_ids s \<longrightarrow> (\<forall>sal c. courtesies sal c t \<le> max CANCELLATION_COURTESY_WAIVER_LIMIT (courtesies sal c s)))"

lemma due_later_refl [simp]: "due_later e e"
  by (cases "le_status e") (simp_all add: due_later_def)

lemma due_later_trans: "due_later e f \<Longrightarrow> due_later f g \<Longrightarrow> due_later e g"
  by (auto simp: due_later_def split: if_splits)

lemma due_later_id: "due_later e f \<Longrightarrow> le_id f = le_id e"
  unfolding due_later_def by (metis ledger_entry.select_convs(1) ledger_entry.surjective ledger_entry.update_convs(7))

lemma ledger_step_ids:
  assumes "ledger_step s t" "due_ids s"
  shows "due_ids t"
proof -
  obtain fs new where f: "db_ledger t = fs @ new" "list_all2 due_later (db_ledger s) fs"
    "\<forall>e\<in>set new. le_status e = L_OUTSTANDING \<and> db_next s \<le> le_id e \<and> le_id e < db_next t" "distinct (map le_id new)" "db_next s \<le> db_next t"
    using assms(1) by (auto simp: ledger_step_def)
  have "map le_id fs = map le_id (db_ledger s)"
    using f(2) by (induction rule: list_all2_induct) (auto dest: due_later_id)
  then have "distinct (map le_id fs)" "le_id ` set fs = le_id ` set (db_ledger s)"
    using assms(2) by (simp_all add: due_ids_def flip: set_map)
  then have d: "distinct (map le_id fs)" "\<forall>e\<in>set fs. le_id e < db_next s" using assms(2) by (force simp: due_ids_def)+
  moreover have "le_id e \<noteq> le_id g" if "e \<in> set fs" "g \<in> set new" for e g
    using d(2) f(3) that by fastforce
  ultimately show ?thesis using f unfolding due_ids_def by (auto simp: image_iff)
qed

lemma ledger_step_same: "db_ledger t = db_ledger s \<Longrightarrow> db_next s \<le> db_next t \<Longrightarrow> ledger_step s t"
  unfolding ledger_step_def courtesies_def
  by (intro conjI, assumption, rule exI [of _ "db_ledger s"], rule exI [of _ "[]"]) (simp_all add: list_all2_refl)

lemma ledger_step_snoc:
  assumes "db_ledger t = db_ledger s @ [e]" "le_status e = L_OUTSTANDING" "db_next s \<le> le_id e" "le_id e < db_next t"
  shows "ledger_step s t"
proof -
  have "\<exists>fs new. db_ledger t = fs @ new \<and> list_all2 due_later (db_ledger s) fs
      \<and> (\<forall>e\<in>set new. le_status e = L_OUTSTANDING \<and> db_next s \<le> le_id e \<and> le_id e < db_next t) \<and> distinct (map le_id new)"
    by (rule exI [of _ "db_ledger s"], rule exI [of _ "[e]"]) (use assms in \<open>simp add: list_all2_refl\<close>)
  then show ?thesis using assms unfolding ledger_step_def courtesies_def by simp
qed

lemma ledger_step_upd:
  assumes "db_ledger t = upd_where p (\<lambda>e. e\<lparr>le_status := st\<rparr>) (db_ledger s)" "db_next t = db_next s"
    and "\<And>e. p e \<Longrightarrow> le_status e \<noteq> L_SETTLED" "st \<noteq> L_SETTLED"
    and "\<And>sal c. due_ids s \<Longrightarrow> courtesies sal c t \<le> max CANCELLATION_COURTESY_WAIVER_LIMIT (courtesies sal c s)"
  shows "ledger_step s t"
proof -
  have "due_later e (if p e then e\<lparr>le_status := st\<rparr> else e)" for e
    using assms(3) [of e] assms(4) by (cases st) (simp_all add: due_later_def [of e "e\<lparr>le_status := _\<rparr>"])
  then have "list_all2 due_later (db_ledger s) (db_ledger t)"
    by (simp add: assms(1) upd_where_def list_all2_map2 list_all2_refl)
  then have "\<exists>fs new. db_ledger t = fs @ new \<and> list_all2 due_later (db_ledger s) fs
      \<and> (\<forall>e\<in>set new. le_status e = L_OUTSTANDING \<and> db_next s \<le> le_id e \<and> le_id e < db_next t) \<and> distinct (map le_id new)"
    by - (rule exI [of _ "db_ledger t"], rule exI [of _ "[]"], simp)
  then show ?thesis unfolding ledger_step_def using assms(2,5) by simp
qed

text \<open>A change that makes nobody's cancellation waived costs no courtesy.\<close>

lemma courtesies_upd_le:
  assumes "db_ledger t = upd_where p (\<lambda>e. e\<lparr>le_status := st\<rparr>) (db_ledger s)"
    and "st = L_WAIVED \<Longrightarrow> (\<And>e. p e \<Longrightarrow> le_reason e \<noteq> CANCELLATION_CHARGE)"
  shows "courtesies sal c t \<le> courtesies sal c s"
  unfolding courtesies_def assms(1) by (rule count_where_upd_le) (use assms(2) in auto)

text \<open>A claim of one row by its identifier costs at most one, and that of the customer it names.\<close>

lemma count_upd_one:
  assumes "distinct (map k rs)" "\<And>r. p r \<Longrightarrow> k r = i"
  shows "count_where q (upd_where p f rs) \<le> count_where q rs + 1"
  using assms(1)
proof (induction rs)
  case (Cons r rs)
  show ?case
  proof (cases "p r")
    case True
    have "\<not> p x" if "x \<in> set rs" for x
      using Cons.prems assms(2) [OF True] assms(2) [of x] that by (metis distinct.simps(2) image_eqI list.map(2) list.set_map)
    then have "upd_where p f rs = rs" by (induction rs) auto
    then show ?thesis by simp
  next
    case False
    then show ?thesis using Cons by simp
  qed
qed simp

lemma claim_due_ledger:
  "db_ledger (claim_due u a p st i s) = upd_where p (\<lambda>e. e\<lparr>le_status := st\<rparr>) (db_ledger s)" "db_next (claim_due u a p st i s) = db_next s"
proof -
  show "db_ledger (claim_due u a p st i s) = upd_where p (\<lambda>e. e\<lparr>le_status := st\<rparr>) (db_ledger s)"
  proof (cases "count_where p (db_ledger s) = 0")
    case True
    then have "\<forall>e\<in>set (db_ledger s). \<not> p e" by (simp add: count_where_0)
    then have "upd_where p (\<lambda>e. e\<lparr>le_status := st\<rparr>) (db_ledger s) = db_ledger s" by (induction "db_ledger s") (auto simp: upd_where_def map_idI)
    then show ?thesis using True by (simp add: claim_due_def)
  qed (simp add: claim_due_def)
  show "db_next (claim_due u a p st i s) = db_next s" by (simp add: claim_due_def)
qed

lemma db_untouched: "\<exists>l es. s = emit es (s\<lparr>db_ledger := l\<rparr>)"
  by (rule exI [of _ "db_ledger s"], rule exI [of _ "[]"]) (simp add: emit_def)

lemma claim_due_rest: "\<exists>l es. claim_due u a p st i s = emit es (s\<lparr>db_ledger := l\<rparr>)"
proof (cases "count_where p (db_ledger s) = 0")
  case True
  then show ?thesis using db_untouched [of s] by (simp add: claim_due_def)
qed (auto simp: claim_due_def)

lemma claim_due_step:
  assumes "p = due_claim sal c i r st0" "st0 \<noteq> L_SETTLED" "st \<noteq> L_SETTLED" "st = L_WAIVED \<Longrightarrow> r = Some NO_SHOW_CHARGE"
  shows "ledger_step s (claim_due u a p st i s)"
proof (rule ledger_step_upd [OF claim_due_ledger])
  show "le_status e \<noteq> L_SETTLED" if "p e" for e using that assms(1,2) by (simp add: due_claim_def)
  show "st \<noteq> L_SETTLED" by (rule assms(3))
  show "courtesies sal' c' (claim_due u a p st i s) \<le> max CANCELLATION_COURTESY_WAIVER_LIMIT (courtesies sal' c' s)" for sal' c'
    by (rule max.coboundedI2, rule courtesies_upd_le [OF claim_due_ledger(1)]) (use assms in \<open>auto simp: due_claim_def\<close>)
qed

lemma courtesy_tx_step:
  assumes "courtesy_tx u sal c i s s = Inr t"
  shows "ledger_step s t"
proof -
  let ?p = "due_claim sal c i (Some CANCELLATION_CHARGE) L_OUTSTANDING"
  have few: "courtesies sal c s < CANCELLATION_COURTESY_WAIVER_LIMIT"
    and t: "t = claim_due u ''CANCELLATION_DUE_WAIVED'' ?p L_WAIVED i s"
    using assms by (auto simp: courtesy_tx_def success_simps)
  show ?thesis unfolding t
  proof (rule ledger_step_upd [OF claim_due_ledger])
    show "le_status e \<noteq> L_SETTLED" if "?p e" for e using that by (simp add: due_claim_def)
    show "L_WAIVED \<noteq> L_SETTLED" by simp
    fix sal' c' assume d: "due_ids s"
    show "courtesies sal' c' (claim_due u ''CANCELLATION_DUE_WAIVED'' ?p L_WAIVED i s)
      \<le> max CANCELLATION_COURTESY_WAIVER_LIMIT (courtesies sal' c' s)"
    proof (cases "sal' = sal \<and> c' = c")
      case True
      have "courtesies sal c (claim_due u ''CANCELLATION_DUE_WAIVED'' ?p L_WAIVED i s) \<le> courtesies sal c s + 1"
        unfolding courtesies_def claim_due_ledger
        by (rule count_upd_one [of le_id _ _ i]) (use d in \<open>auto simp: due_ids_def due_claim_def\<close>)
      then show ?thesis using few True by simp
    next
      case False
      have "courtesies sal' c' (claim_due u ''CANCELLATION_DUE_WAIVED'' ?p L_WAIVED i s) \<le> courtesies sal' c' s"
        unfolding courtesies_def claim_due_ledger by (rule count_where_upd_le) (use False in \<open>auto simp: due_claim_def\<close>)
      then show ?thesis by simp
    qed
  qed
qed

lemma due_commit_step:
  assumes "due_commit pre s t"
  shows "ledger_step s t \<and> (\<exists>l es. t = emit es (s\<lparr>db_ledger := l\<rparr>))"
proof -
  have same: "ledger_step s s \<and> (\<exists>l es. s = emit es (s\<lparr>db_ledger := l\<rparr>))"
    using db_untouched ledger_step_same by simp
  have claim: "ledger_step s (claim_due u a (due_claim sal c i r st0) st i s) \<and>
      (\<exists>l es. claim_due u a (due_claim sal c i r st0) st i s = emit es (s\<lparr>db_ledger := l\<rparr>))"
    if "st0 \<noteq> L_SETTLED" "st \<noteq> L_SETTLED" "st = L_WAIVED \<Longrightarrow> r = Some NO_SHOW_CHARGE" for u a sal c i r st0 st
    using claim_due_step [OF refl that] claim_due_rest by blast
  show ?thesis using assms
  proof cases
    case (1 u sal c i e)
    then consider "t = s" | "courtesy_tx u sal c i s s = Inr t"
      by (auto simp: waiveCourtesy_def success_simps split: if_splits)
    then show ?thesis
    proof cases
      case 1
      then show ?thesis using same by simp
    next
      case 2
      then show ?thesis using courtesy_tx_step claim_due_rest by (auto simp: courtesy_tx_def success_simps)
    qed
  next
    case (2 u sal c i e)
    then have "t = s \<or> t = claim_due u ''CANCELLATION_DUE_RESTORED'' (due_claim sal c i (Some CANCELLATION_CHARGE) L_WAIVED) L_OUTSTANDING i s"
      by (auto simp: restoreCourtesy_def success_simps Let_def split: if_splits)
    then show ?thesis using same claim [of L_WAIVED L_OUTSTANDING "Some CANCELLATION_CHARGE" u "''CANCELLATION_DUE_RESTORED''" sal c i] by auto
  next
    case (3 u sal c i e)
    then have "t = s \<or> t = claim_due u ''NO_SHOW_DUE_WAIVED'' (due_claim sal c i (Some NO_SHOW_CHARGE) L_OUTSTANDING) L_WAIVED i s"
      by (auto simp: waiveNoShowDue_def success_simps Let_def split: if_splits)
    then show ?thesis using same claim [of L_OUTSTANDING L_WAIVED "Some NO_SHOW_CHARGE" u "''NO_SHOW_DUE_WAIVED''" sal c i] by auto
  next
    case (4 u sal c i e)
    then have "t = s \<or> t = claim_due u ''NO_SHOW_DUE_RESTORED'' (due_claim sal c i None L_WAIVED) L_OUTSTANDING i s"
      by (auto simp: restoreNoShowDue_def success_simps Let_def split: if_splits)
    then show ?thesis using same claim [of L_WAIVED L_OUTSTANDING None u "''NO_SHOW_DUE_RESTORED''" sal c i] by auto
  qed
qed

end
