(* ===== verification/System.thy ===== *)
theory System
  imports Expiry Dues
begin

text \<open>
  The whole backend as one transition system. A \<open>commit\<close> is one handler that read its snapshot
  \<open>pre\<close> at some earlier moment and committed its transaction on the current database \<open>s\<close>; a run is the
  list of the databases committed so far, newest first, and every commit may have read any of them. So
  handlers interleave freely: what protects the invariants is what their transactions re-check.
\<close>

section \<open>Commits\<close>

text \<open>Handlers of the Live Queue and of the shop floor. A release runs row by row in the code, so that other handlers may
  commit in between and an error may cut it short: its single rows are commits too.\<close>

inductive queue_commit :: "zone_db \<Rightarrow> db \<Rightarrow> db \<Rightarrow> db \<Rightarrow> bool" for tz pre s where
  "checkIn tz now pre s c b = Inr (t, i) \<Longrightarrow> queue_commit tz pre s t"
| "arriveAsOperator tz now pre s u b = Inr (t, i) \<Longrightarrow> queue_commit tz pre s t"
| "joinWalkIn tz now pre s c sal svo nm ph = Inr (t, i) \<Longrightarrow> queue_commit tz pre s t"
| "joinGuestWalkIn tz now pre s h sal sv nm' ph' = Inr (t, i) \<Longrightarrow> queue_commit tz pre s t"
| "createOperatorEntry tz now pre s u sal nm' ph cons svo st' = Inr (t, i) \<Longrightarrow> queue_commit tz pre s t"
| "call now pre s u i = Inr t \<Longrightarrow> queue_commit tz pre s t"
| "markArrived now pre s u i = Inr t \<Longrightarrow> queue_commit tz pre s t"
| "noShow now pre s u i = Inr t \<Longrightarrow> queue_commit tz pre s t"
| "cancelByCustomer now pre s c i = Inr t \<Longrightarrow> queue_commit tz pre s t"
| "cancelByStaff now pre s u i = Inr t \<Longrightarrow> queue_commit tz pre s t"
| "cancelGuestEntry sha now pre s i tok = Inr t \<Longrightarrow> queue_commit tz pre s t"
| "registerGuestPush sha now pre s i tok push = Inr (t, b) \<Longrightarrow> queue_commit tz pre s t"
| "respondArrival sha now s i choice cu tok' = Inr t \<Longrightarrow> queue_commit tz pre s t"
| "assign now clk pre s u i svo st ch start = Inr t \<Longrightarrow> queue_commit tz pre s t"
| "assignAsSystem now clk pre s i svo st ch = Inr t \<Longrightarrow> queue_commit tz pre s t"
| "startService now clk pre s u i = Inr t \<Longrightarrow> queue_commit tz pre s t"
| "reassign now clk pre s u i sto cho = Inr t \<Longrightarrow> queue_commit tz pre s t"
| "release sal holder act s = (t, n) \<Longrightarrow> queue_commit tz pre s t"
| "occupyLocal now pre s u sal ch = Inr (t, i) \<Longrightarrow> queue_commit tz pre s t"
| "freeLocal now pre s u sal ch = Inr (t, j) \<Longrightarrow> queue_commit tz pre s t"
| "freeAllLocal now pre s u sal = Inr (t, n) \<Longrightarrow> queue_commit tz pre s t"
| "release_row i sto act s = (t, b) \<Longrightarrow> queue_commit tz pre s t"

text \<open>The single claims of the queue sweep, and the recomputation of the waits.\<close>

inductive sweep_commit :: "db \<Rightarrow> db \<Rightarrow> bool" for s where
  "expire_entry_tx called_unassigned Q_NO_SHOW act e s = (t, r) \<Longrightarrow> sweep_commit s t"
| "expire_entry_tx called_assigned Q_EXPIRED act e s = (t, r) \<Longrightarrow> sweep_commit s t"
| "expire_entry_tx still_waiting Q_EXPIRED act e s = (t, r) \<Longrightarrow> sweep_commit s t"
| "t = emit evs (recomputeEtas now sal s) \<Longrightarrow> sweep_commit s t"

text \<open>Handlers of appointments and wallets.\<close>

inductive booking_commit :: "zone_db \<Rightarrow> db \<Rightarrow> db \<Rightarrow> db \<Rightarrow> bool" for tz pre s where
  "createBooking upd ord tz now clk pre s c input source key = Inr (t, i) \<Longrightarrow> booking_commit tz pre s t"
| "createInShop tz now clk pre s sal u shop_input key = Inr (t, i) \<Longrightarrow> booking_commit tz pre s t"
| "cancelBooking now clk pre s c i = Inr (t, charge) \<Longrightarrow> booking_commit tz pre s t"
| "cancelByShop clk pre s sal i u actor reason = Inr t \<Longrightarrow> booking_commit tz pre s t"
| "reschedule tz now clk pre s c i ns = Inr t \<Longrightarrow> booking_commit tz pre s t"
| "rescheduleByShop tz now clk pre s sal i u ns = Inr (t, prev) \<Longrightarrow> booking_commit tz pre s t"
| "markNoShow now pre s u i = Inr (t, charge) \<Longrightarrow> booking_commit tz pre s t"
| "expire_booking_tx cutoff pre b s = (t, r) \<Longrightarrow> booking_commit tz pre s t"
| "grantPromotionalCredits now admin grant_key grant s = Inr (lot, t) \<Longrightarrow> 0 \<le> gi_amount grant \<Longrightarrow> booking_commit tz pre s t"

text \<open>
  The two handlers that set an appointment to completed whatever its status was are told apart: the flag of
  a commit is false when they complete an appointment that no longer reserves its slot.
\<close>

definition visit_reserves :: "db \<Rightarrow> db \<Rightarrow> id \<Rightarrow> bool" where
  "visit_reserves pre s k =
     (case find_session pre k of None \<Rightarrow> True | Some x \<Rightarrow>
        (case find_entry pre (ss_entry x) of None \<Rightarrow> True | Some e \<Rightarrow>
           \<not> exists_where (\<lambda>b. qe_booking e = Some (bk_id b) \<and> \<not> reserving b) (db_bookings s)))"

inductive commit :: "zone_db \<Rightarrow> db \<Rightarrow> bool \<Rightarrow> db \<Rightarrow> db \<Rightarrow> bool" for tz pre where
  queue: "queue_commit tz pre s t \<Longrightarrow> commit tz pre True s t"
| sweep: "sweep_commit s t \<Longrightarrow> commit tz pre True s t"
| booking: "booking_commit tz pre s t \<Longrightarrow> commit tz pre True s t"
| complete: "completeSession now pre s u k = Inr t \<Longrightarrow> commit tz pre (visit_reserves pre s k) s t"
| correct: "correctToCompleted pre s u i = Inr (t, waived) \<Longrightarrow> commit tz pre False s t"
| dues: "due_commit pre s t \<Longrightarrow> commit tz pre True s t"

section \<open>Runs\<close>

inductive run :: "zone_db \<Rightarrow> bool \<Rightarrow> db \<Rightarrow> db list \<Rightarrow> bool" for tz strict s0 where
  start: "run tz strict s0 [s0]"
| commit: "run tz strict s0 (s # older) \<Longrightarrow> pre \<in> set (s # older) \<Longrightarrow> commit tz pre ok s t \<Longrightarrow> strict \<le> ok
    \<Longrightarrow> run tz strict s0 (t # s # older)"

inductive_cases completeE: "commit tz pre ok s t"

section \<open>What each commit keeps\<close>

lemma queue_commit_safe:
  assumes "queue_commit tz pre s t" "history pre s"
  shows "safe_step s t"
  using assms
proof (cases rule: queue_commit.cases)
  case (18 sal holder act n)
  then show ?thesis using release_safe [of s sal holder act] by simp
next
  case (22 i sto act b)
  then show ?thesis using release_row_safe [of s i sto act] by simp
qed (auto intro: checkIn_safe arriveAsOperator_safe joinWalkIn_safe joinGuestWalkIn_safe createOperatorEntry_safe call_safe
    markArrived_safe noShow_safe cancelByCustomer_safe cancelByStaff_safe cancelGuestEntry_safe registerGuestPush_safe
    respondArrival_safe assign_safe assignAsSystem_safe startService_safe reassign_safe occupancy_safe)

lemma queue_commit_frame:
  assumes "queue_commit tz pre s t"
  shows "queue_frame s t"
  using assms
proof (cases rule: queue_commit.cases)
  case (18 sal holder act n)
  then show ?thesis using frame_release [of s sal holder act] by simp
next
  case (22 i sto act b)
  then show ?thesis using frame_release_row [of s i sto act] by simp
qed (auto intro: frame_joins frame_waiting frame_cancelByStaff frame_assignment frame_occupancy)

lemma expire_entry_safe:
  assumes "expire_entry_tx still target act e s = (t, r)"
    and "\<And>e. still e \<Longrightarrow> entry_wf e \<Longrightarrow> keeps_seat e (e\<lparr>qe_status := target\<rparr>) \<and> keeps_hold e (e\<lparr>qe_status := target\<rparr>)"
  shows "safe_step s t"
proof -
  have "safe_step s (upd_entries (\<lambda>r. qe_id r = qe_id e \<and> still r) (\<lambda>e. e\<lparr>qe_status := target\<rparr>) s)"
    by (rule safe_upd_calm) (use assms(2) in \<open>auto simp: ekey_def\<close>)
  then show ?thesis using assms(1) by (auto simp: expire_entry_tx_def Let_def split: if_splits)
qed

lemma sweep_commit_safe: "sweep_commit s t \<Longrightarrow> safe_step s t"
  by (erule sweep_commit.cases)
    (auto intro!: safe_wrap elim!: expire_entry_safe simp: seat_simps called_unassigned_def called_assigned_def still_waiting_def)

lemma sweep_commit_frame: "sweep_commit s t \<Longrightarrow> queue_frame s t"
  by (erule sweep_commit.cases)
    (auto intro!: frame_wrap simp: expire_entry_tx_def Let_def split: if_splits)

lemma frame_safe_book: "queue_frame s t \<Longrightarrow> safe_book s t"
  by (rule safe_book_same) (simp_all add: queue_frameD)

lemma frame_wallet: "queue_frame s t \<Longrightarrow> wallet_inv s \<Longrightarrow> wallet_inv t"
  by (erule wallet_inv_same) (simp_all add: queue_frameD)

lemma wallet_inv_emit [simp]: "wallet_inv (emit es s) = wallet_inv s"
  by (simp add: wallet_inv_def)

lemma createBooking_tables:
  assumes "createBooking upd ord tz now clk pre s c input source key = Inr (t, i)"
  shows "db_entries t = db_entries s" "db_sessions t = db_sessions s" "db_manual t = db_manual s" "db_next s \<le> db_next t"
    "wallet_inv s \<Longrightarrow> wallet_inv t"
proof -
  obtain q t0 es where tx: "create_tx upd ord clk s c input source key q = Inr (t0, i)" and t: "t = emit es t0"
    using assms by (auto simp: createBooking_def success_simps)
  obtain locked :: "offer_application option" and s1 s2 where
    ins: "insert_booking ((new_booking i c input source key q clk)\<lparr>bk_offer := map_option ap_offer locked\<rparr>) s = Inr s1"
    and s2: "s2 = (case locked of None \<Rightarrow> s1 | Some a \<Rightarrow> recordRedemption a (br_salon input) c i s1)"
    and red: "redeem_for_booking clk (br_salon input) c i (br_creditsToRedeem input) (bq_maxCredits q) s2 = Inr t0"
    by (rule create_txD [OF tx])
  have f: "db_entries s2 = db_entries s" "db_sessions s2 = db_sessions s" "db_next s2 = Suc (db_next s)"
      "db_credits s2 = db_credits s" "db_accounts s2 = db_accounts s" "db_manual s2 = db_manual s"
    unfolding s2 insert_bookingD [OF ins] by (simp_all add: recordRedemption_frame split: option.split)
  show "db_entries t = db_entries s" "db_sessions t = db_sessions s" "db_manual t = db_manual s"
    using redeem_for_booking_tables [OF red] f by (simp_all add: t)
  have r: "db_next s2 \<le> db_next t0 \<and> (wallet_inv s2 \<longrightarrow> wallet_inv t0)"
    using redeem_for_bookingD [OF red]
  proof (elim disjE exE conjE)
    fix r s3
    assume rd: "redeemUpTo clk c i (br_creditsToRedeem input) (bq_maxCredits q) s2 = Inr (r, s3)"
      and e: "db_credits t0 = db_credits s3" "db_accounts t0 = db_accounts s3" "db_next t0 = db_next s3"
    have "wallet_inv t0" if "wallet_inv s2"
      by (rule wallet_inv_same [OF wallet_inv_redeem [OF that rd]]) (simp_all add: e)
    then show ?thesis using wallet_frameD [OF redeemUpTo_frame [OF rd]] e by simp
  qed simp
  show "db_next s \<le> db_next t" using r f by (simp add: t)
  assume "wallet_inv s"
  then have "wallet_inv s2" by (rule wallet_inv_same) (simp_all add: f)
  then have "wallet_inv t0" using r by blast
  then show "wallet_inv t" by (rule wallet_inv_same) (simp_all add: t)
qed

lemma grant_effect:
  assumes "grantPromotionalCredits now admin key g s = Inr (lot, t)" "0 \<le> gi_amount g"
  shows "db_bookings t = db_bookings s" "db_entries t = db_entries s" "db_sessions t = db_sessions s" "db_next s \<le> db_next t"
    "wallet_inv s \<Longrightarrow> wallet_inv t" "db_manual t = db_manual s"
proof -
  obtain p where p: "numberToPaise (gi_amount g) = Inr p"
    using assms(1) by (auto simp: grantPromotionalCredits_def success_simps split: sum.splits)
  show "db_bookings t = db_bookings s" "db_entries t = db_entries s" "db_sessions t = db_sessions s" "db_next s \<le> db_next t"
    "db_manual t = db_manual s"
    using assms(1) by (auto simp: grantPromotionalCredits_def success_simps p Let_def insert_credit_def upsert_account_def
        split: option.splits)
  show "wallet_inv t" if inv: "wallet_inv s"
  proof (cases "find (\<lambda>t. ct_idempotencyKey t = Some key) (db_credits s)")
    case None
    obtain a s1 where up: "upsert_account (gi_customer g) s = (a, s1)" by fastforce
    define row where "row = \<lparr>ct_id = db_next s1, ct_account = ca_id a, ct_type = PROMO_GRANT,
                       ct_amount = p, ct_remaining = Some p, ct_booking = None,
                       ct_funding = Some (gi_funding g), ct_campaign = gi_campaign g,
                       ct_expiresAt = gi_expiresAt g, ct_idempotencyKey = Some key,
                       ct_reason = Some (gi_reason g), ct_createdAt = now\<rparr>"
    have t: "\<exists>es. t = emit es (insert_credit row s1)"
      using assms(1) None by (auto simp: grantPromotionalCredits_def success_simps p up Let_def row_def)
    have "0 \<le> p" using assms(2) p by (auto simp: numberToPaise_def split: if_splits)
    then have "wallet_inv (insert_credit row s1)"
      using wallet_inv_account [OF inv up] None
      by (intro wallet_inv_insert) (auto simp: row_def lot_ok_def find_None_iff)
    then show ?thesis using t wallet_inv_same [of "insert_credit row s1" t] by auto
  next
    case (Some e)
    then have "t = s" using assms(1) by (auto simp: grantPromotionalCredits_def success_simps p)
    then show ?thesis using inv by simp
  qed
qed

lemma upd_booking_reserving:
  assumes "\<And>b. b \<in> set (db_bookings s) \<Longrightarrow> bk_id b = i \<Longrightarrow> reserving (f b) \<Longrightarrow> reserving b"
    and "\<And>b. bkey (f b) = bkey b \<and> bk_idempotencyKey (f b) = bk_idempotencyKey b
      \<and> bk_slotStart (f b) = bk_slotStart b \<and> bk_slotEnd (f b) = bk_slotEnd b"
  shows "safe_book s (upd_booking i f s)"
proof -
  let ?g = "\<lambda>b. if reserving (f b) \<longrightarrow> reserving b then f b else b"
  have "upd_where (\<lambda>b. bk_id b = i) f (db_bookings s) = upd_where (\<lambda>b. bk_id b = i) ?g (db_bookings s)"
    using assms(1) by (auto simp: upd_where_def)
  then have "upd_booking i f s = upd_booking i ?g s" by (simp add: upd_booking_def)
  moreover have "safe_book s (upd_booking i ?g s)" by (rule safe_book_upd) (use assms(2) in auto)
  ultimately show ?thesis by simp
qed

lemma upd_booking_only_safe:
  assumes "db_bookings t = upd_where (\<lambda>b. bk_id b = i) f (db_bookings s)" "db_next s \<le> db_next t"
    and "safe_book s (upd_booking i f s)"
  shows "safe_book s t"
proof -
  have "safe_book (upd_booking i f s) t"
    by (rule safe_book_same) (use assms(1,2) in \<open>simp_all add: upd_booking_def\<close>)
  then show ?thesis using assms(3) safe_book_trans by blast
qed

lemma markNoShow_keeps:
  assumes "markNoShow now pre s u i = Inr (t, charge)"
  shows "safe_book s t" "safe_step s t" "wallet_inv s \<Longrightarrow> wallet_inv t"
proof -
  obtain bk t0 es owner where tx: "no_show_tx s bk u owner charge = (t0, True)" and t: "t = emit es t0"
    by (rule markNoShowD [OF assms])
  note N = no_show_txD [OF tx]
  let ?f = "\<lambda>b. if no_show_claim s (bk_id bk) b then no_show_row charge b else b"
  have "db_bookings t = upd_where (\<lambda>b. bk_id b = bk_id bk) ?f (db_bookings s)"
    unfolding t using N(2) by (auto simp: upd_where_def no_show_claim_def)
  then show "safe_book s t"
    by (rule upd_booking_only_safe) (use N(6) t in \<open>auto intro!: safe_book_upd simp: no_show_row_def bkey_def reserving_def
        RESERVING_BOOKING_STATUSES_def split: if_splits\<close>)
  show "safe_step s t" by (rule safe_step_same) (use N t in simp_all)
  show "wallet_inv s \<Longrightarrow> wallet_inv t" by (erule wallet_inv_same) (use N t in simp_all)
qed

lemma expire_booking_keeps:
  assumes "expire_booking_tx cutoff pre b s = (t, r)"
  shows "safe_book s t" "safe_step s t" "wallet_inv s \<Longrightarrow> wallet_inv t"
proof -
  obtain ev where t: "t = s\<lparr>db_bookings := upd_where (\<lambda>x. bk_id x = bk_id b \<and> hold_overdue cutoff x)
      (\<lambda>x. x\<lparr>bk_status := B_EXPIRED\<rparr>) (db_bookings s), db_events := ev\<rparr>"
    using expire_booking_tx_effect [OF assms] ..
  let ?f = "\<lambda>x. if hold_overdue cutoff x then x\<lparr>bk_status := B_EXPIRED\<rparr> else x"
  have "db_bookings t = upd_where (\<lambda>x. bk_id x = bk_id b) ?f (db_bookings s)"
    by (auto simp: t upd_where_def)
  then show "safe_book s t"
    by (rule upd_booking_only_safe) (auto intro!: safe_book_upd simp: t bkey_def reserving_def RESERVING_BOOKING_STATUSES_def
        split: if_splits)
  show "safe_step s t" by (rule safe_step_same) (simp_all add: t)
  show "wallet_inv s \<Longrightarrow> wallet_inv t" by (erule wallet_inv_same) (simp_all add: t)
qed

lemma cancelByShop_wallet:
  assumes "cancelByShop clk pre s sal i u act reason = Inr t" "wallet_inv s"
  shows "wallet_inv t"
proof -
  obtain bk t0 l where tx: "cancel_by_shop_tx clk s bk u act reason = Inr (t0, l)"
    and t: "t = emit [QueueUpdated sal] (if l then emit [AutoAssignTrigger sal]
        (recomputeEtas clk sal (emit [BookingEvent ''cancelled'' sal i] t0)) else emit [BookingEvent ''cancelled'' sal i] t0)"
    using assms(1) unfolding cancelByShop_def by (auto simp: success_simps Let_def)
  define s2 where "s2 = cancel_linked_entries (bk_id bk) (upd_booking (bk_id bk) (\<lambda>b. b\<lparr>bk_status := B_CANCELLED, bk_cancelledAt := Some clk,
                    bk_cancelledBy := Some u, bk_cancelledByActor := Some act,
                    bk_cancellationReason := reason, bk_cancellationCharge := None\<rparr>) s)"
  have "\<exists>es. t0 = emit es (case bk_customer bk of None \<Rightarrow> s2
      | Some c \<Rightarrow> give_back_credits clk c (bk_id bk) (bk_creditsRedeemed bk) s2)"
    using tx unfolding cancel_by_shop_tx_def Let_def s2_def [symmetric] by (auto simp: success_simps)
  moreover have "wallet_inv s2"
    by (rule wallet_inv_same [OF assms(2)]) (simp_all add: s2_def cancel_linked_frame upd_booking_def)
  ultimately have "wallet_inv t0"
    using give_back_wallet(1) by (auto split: option.splits)
  then show ?thesis by (rule wallet_inv_same) (simp_all add: t)
qed

lemma reschedule_keeps:
  assumes "rescheduleLoaded tz now clk pre s bk u ns byShop = Inr t"
  shows "safe_step s t" "wallet_inv s \<Longrightarrow> wallet_inv t"
proof -
  show "safe_step s t" by (rule rescheduleLoadedD [OF assms]) (simp, rule safe_step_same; simp)
  show "wallet_inv s \<Longrightarrow> wallet_inv t"
    by (rule rescheduleLoadedD [OF assms]) (erule wallet_inv_same; simp)
qed

lemma booking_commit_keeps:
  assumes "booking_commit tz pre s t"
  shows "safe_step s t" "wallet_inv s \<Longrightarrow> wallet_inv t" "bhistory pre s \<Longrightarrow> safe_book s t"
proof -
  have r: "safe_step s t \<and> (wallet_inv s \<longrightarrow> wallet_inv t) \<and> (bhistory pre s \<longrightarrow> safe_book s t)"
    using assms
  proof (cases rule: booking_commit.cases)
    case (1 upd ord now clk c "input" source key i)
    then show ?thesis using createBooking_tables [OF 1] createBooking_safe [OF 1] safe_step_same by blast
  next
    case (2 now clk sal u shop_input key i)
    have "wallet_inv s \<Longrightarrow> wallet_inv t"
      by (rule createInShopD [OF 2]) (auto dest!: insert_bookingD elim!: wallet_inv_same)
    then show ?thesis using createInShop_safe [OF 2] by blast
  next
    case (3 now clk c i charge)
    have "wallet_inv s \<Longrightarrow> wallet_inv t" by (rule cancel_effect [OF 3])
    then show ?thesis using cancelBooking_safe [OF 3] by blast
  next
    case (4 clk sal i u actor reason)
    then show ?thesis using cancelByShop_safe [OF 4] cancelByShop_wallet [OF 4] by blast
  next
    case (5 now clk c i ns)
    then obtain bk where "rescheduleLoaded tz now clk pre s bk c ns False = Inr t"
      by (auto simp: reschedule_def success_simps)
    then show ?thesis using reschedule_keeps reschedule_safe(1) [OF 5] by blast
  next
    case (6 now clk sal i u ns prev)
    then obtain bk where "rescheduleLoaded tz now clk pre s bk u ns True = Inr t"
      by (auto simp: rescheduleByShop_def success_simps)
    then show ?thesis using reschedule_keeps rescheduleByShop_safe(1) [OF 6] by blast
  next
    case (7 now u i charge)
    then show ?thesis using markNoShow_keeps [OF 7] by blast
  next
    case (8 cutoff b r)
    then show ?thesis using expire_booking_keeps [OF 8] by blast
  next
    case (9 now admin key g lot)
    then show ?thesis using grant_effect [OF 9] safe_step_same safe_book_same by blast
  qed
  then show "safe_step s t" "wallet_inv s \<Longrightarrow> wallet_inv t" "bhistory pre s \<Longrightarrow> safe_book s t" by blast+
qed

lemma complete_keeps:
  assumes run: "completeSession now pre s u k = Inr t"
  shows "wallet_inv s \<Longrightarrow> wallet_inv t" "visit_reserves pre s k \<Longrightarrow> safe_book s t"
proof -
  obtain x qe where x: "find_session pre k = Some x" "find_entry pre (ss_entry x) = Some qe"
    and f: "queue_frame (s\<lparr>db_bookings := db_bookings t\<rparr>) t"
    and b: "db_bookings t = (case qe_booking qe of None \<Rightarrow> db_bookings s
       | Some b \<Rightarrow> upd_where (\<lambda>r. bk_id r = b) (\<lambda>r. r\<lparr>bk_status := B_COMPLETED\<rparr>) (db_bookings s))"
    by (rule completeSession_frame [OF run])
  have n: "db_next s \<le> db_next t" using queue_frameD(6) [OF f] by simp
  show "wallet_inv s \<Longrightarrow> wallet_inv t" by (erule wallet_inv_same) (use queue_frameD [OF f] in simp_all)
  show "safe_book s t" if v: "visit_reserves pre s k"
  proof (cases "qe_booking qe")
    case None
    then show ?thesis using b n by (intro safe_book_same) simp_all
  next
    case (Some i)
    then have "reserving r" if "r \<in> set (db_bookings s)" "bk_id r = i" for r
      using v that by (auto simp: visit_reserves_def x exists_where_iff)
    then have "safe_book s (upd_booking i (\<lambda>r. r\<lparr>bk_status := B_COMPLETED\<rparr>) s)"
      by (intro upd_booking_reserving) (simp_all add: bkey_def)
    note c = this
    show ?thesis by (rule upd_booking_only_safe [OF _ n c]) (simp add: b Some)
  qed
qed

lemma correct_keeps:
  assumes run: "correctToCompleted pre s u i = Inr (t, waived)"
  shows "safe_step s t" "wallet_inv s \<Longrightarrow> wallet_inv t"
proof -
  obtain bk t0 es where tx: "correct_tx s bk u = Inr (t0, waived)" and t: "t = emit es t0"
    using run unfolding correctToCompleted_def by (auto simp: success_simps split: prod.splits)
  have "db_entries t = db_entries s" "db_sessions t = db_sessions s" "db_manual t = db_manual s" "db_next t = db_next s"
    "db_credits t = db_credits s" "db_accounts t = db_accounts s"
    using tx unfolding t correct_tx_def Let_def by (auto simp: success_simps)
  then show "safe_step s t" "wallet_inv s \<Longrightarrow> wallet_inv t"
    using safe_step_same wallet_inv_same by auto
qed

lemma commit_keeps:
  assumes "commit tz pre ok s t" and h: "history pre s"
  shows "safe_step s t" "wallet_inv s \<Longrightarrow> wallet_inv t" "ok \<Longrightarrow> bhistory pre s \<Longrightarrow> safe_book s t"
proof -
  have r: "safe_step s t \<and> (wallet_inv s \<longrightarrow> wallet_inv t) \<and> (ok \<longrightarrow> bhistory pre s \<longrightarrow> safe_book s t)"
    using assms(1)
  proof cases
    case queue
    then show ?thesis using queue_commit_safe [OF queue(2) h] queue_commit_frame frame_safe_book frame_wallet by blast
  next
    case sweep
    then show ?thesis using sweep_commit_safe sweep_commit_frame frame_safe_book frame_wallet by blast
  next
    case booking
    then show ?thesis using booking_commit_keeps by blast
  next
    case (complete now u k)
    then show ?thesis using complete_keeps [OF complete(2)] completeSession_safe [OF complete(2) h] by blast
  next
    case (correct now u i)
    then show ?thesis using correct_keeps by blast
  next
    case dues
    then obtain l es where t: "t = emit es (s\<lparr>db_ledger := l\<rparr>)" using due_commit_step by blast
    have "wallet_inv s \<Longrightarrow> wallet_inv t" by (erule wallet_inv_same) (simp_all add: t)
    moreover have "safe_book s t" by (rule safe_book_same) (simp_all add: t)
    moreover have "safe_step s t" by (rule safe_step_same) (simp_all add: t)
    ultimately show ?thesis by blast
  qed
  then show "safe_step s t" "wallet_inv s \<Longrightarrow> wallet_inv t" "ok \<Longrightarrow> bhistory pre s \<Longrightarrow> safe_book s t" by blast+
qed

section \<open>Invariants of every run\<close>

definition grow :: "zone_db \<Rightarrow> bool \<Rightarrow> db list \<Rightarrow> db list \<Rightarrow> bool" where
  "grow tz strict xs ys \<longleftrightarrow> (\<exists>s older pre ok t. xs = s # older \<and> pre \<in> set xs \<and> commit tz pre ok s t \<and> strict \<le> ok \<and> ys = t # xs)"

lemma run_grow: "run tz strict s0 xs \<Longrightarrow> (grow tz strict)\<^sup>*\<^sup>* [s0] xs"
proof (induction rule: run.induct)
  case (commit s older pre ok t)
  then have "grow tz strict (s # older) (t # s # older)" unfolding grow_def by blast
  with commit.IH show ?case by (rule rtranclp.rtrancl_into_rtrancl)
qed simp

definition floor_ok :: "db list \<Rightarrow> bool" where
  "floor_ok xs = (case xs of [] \<Rightarrow> False | s # _ \<Rightarrow> seat_inv s \<and> wallet_inv s \<and> (\<forall>p\<in>set xs. history p s))"

definition diary_ok :: "db list \<Rightarrow> bool" where
  "diary_ok xs \<longleftrightarrow> floor_ok xs \<and> (case xs of [] \<Rightarrow> False | s # _ \<Rightarrow> book_inv s \<and> (\<forall>p\<in>set xs. bhistory p s))"

lemma bhistory_trans: "bhistory a b \<Longrightarrow> bhistory b c \<Longrightarrow> bhistory a c"
  by (auto simp: bhistory_def)

lemma grow_floor:
  assumes "grow tz strict xs ys" "floor_ok xs"
  shows "floor_ok ys"
proof -
  obtain s older pre ok t where g: "xs = s # older" "pre \<in> set xs" "commit tz pre ok s t" "ys = t # xs"
    using assms(1) unfolding grow_def by blast
  have h: "history p s" if "p \<in> set xs" for p using assms(2) that by (auto simp: floor_ok_def g(1))
  note K = commit_keeps [OF g(3) h [OF g(2)]]
  have "seat_inv t" "history s t" "wallet_inv t" using K assms(2) by (simp_all add: floor_ok_def g(1) safe_step_def)
  then show ?thesis using h history_trans by (auto simp: floor_ok_def g(4))
qed

lemma grow_diary:
  assumes "grow tz True xs ys" "diary_ok xs"
  shows "diary_ok ys"
proof -
  have f: "floor_ok ys" using grow_floor [OF assms(1)] assms(2) by (simp add: diary_ok_def)
  obtain s older pre ok t where g: "xs = s # older" "pre \<in> set xs" "commit tz pre ok s t" "True \<le> ok" "ys = t # xs"
    using assms(1) unfolding grow_def by blast
  have h: "history p s" "bhistory p s" if "p \<in> set xs" for p using assms(2) that by (auto simp: floor_ok_def diary_ok_def g(1))
  have "book_inv s" using assms(2) by (simp add: diary_ok_def g(1))
  moreover have "safe_book s t" using commit_keeps(3) [OF g(3) h(1) [OF g(2)] _ h(2) [OF g(2)]] g(4) by simp
  ultimately have "book_inv t" "bhistory s t" by (simp_all add: safe_book_def)
  then show ?thesis using f h(2) bhistory_trans by (auto simp: diary_ok_def g(5))
qed

lemma occupied_chair_is_free:
  assumes "seat_inv s" "chairs_inv s" "m \<in> set (db_manual s)" "mo_endedAt m = None"
  shows "\<not> exists_where (\<lambda>x. ss_status x = S_ACTIVE \<and> ss_chair x = mo_chair m) (db_sessions s)"
    and "\<not> exists_where (\<lambda>e. qe_status e = Q_CALLED \<and> qe_chair e = Some (mo_chair m)) (db_entries s)"
proof -
  have "chair_locally_occupied s (mo_chair m)" using assms(3,4) by (auto simp: chair_locally_occupied_def exists_where_iff)
  then have none: "\<not> occupies e (mo_chair m)" if "e \<in> set (db_entries s)" for e
    using assms(2) that by (auto simp: chairs_inv_def exists_where_iff)
  then show "\<not> exists_where (\<lambda>e. qe_status e = Q_CALLED \<and> qe_chair e = Some (mo_chair m)) (db_entries s)"
    by (auto simp: exists_where_iff occupies_def)
  have "\<exists>e\<in>set (db_entries s). occupies e (ss_chair x)" if "x \<in> set (db_sessions s)" "ss_status x = S_ACTIVE" for x
    using assms(1) that by (fastforce simp: seat_inv_def seat_ok_def linked_def active_def seated_at_def occupies_def)
  then show "\<not> exists_where (\<lambda>x. ss_status x = S_ACTIVE \<and> ss_chair x = mo_chair m) (db_sessions s)"
    using none by (fastforce simp: exists_where_iff)
qed

text \<open>The same with the chairs that were occupied by hand.\<close>

definition chairs_ok :: "db list \<Rightarrow> bool" where
  "chairs_ok xs \<longleftrightarrow> floor_ok xs \<and> (case xs of [] \<Rightarrow> False | s # _ \<Rightarrow> chairs_inv s)"

lemma grow_chairs:
  assumes "grow tz strict xs ys" "chairs_ok xs"
  shows "chairs_ok ys"
proof -
  obtain s older pre ok t where g: "xs = s # older" "pre \<in> set xs" "commit tz pre ok s t" "ys = t # xs"
    using assms(1) unfolding grow_def by blast
  have f: "floor_ok xs" "chairs_inv s" using assms(2) by (simp_all add: chairs_ok_def g(1))
  then have "history pre s" "seat_inv s" using g(1,2) by (auto simp: floor_ok_def)
  then have "chairs_inv t" using commit_keeps(1) [OF g(3)] f(2) by (simp add: safe_step_def)
  then show ?thesis using grow_floor [OF assms(1) f(1)] by (simp add: chairs_ok_def g(4))
qed

interpretation floor: invariant "grow tz strict" floor_ok for tz strict
  by unfold_locales (rule grow_floor)

interpretation chairs: invariant "grow tz strict" chairs_ok for tz strict
  by unfold_locales (rule grow_chairs)

interpretation diary: invariant "grow tz True" diary_ok for tz
  by unfold_locales (rule grow_diary)

lemma run_floor: "run tz strict s0 xs \<Longrightarrow> seat_inv s0 \<Longrightarrow> wallet_inv s0 \<Longrightarrow> floor_ok xs"
  by (rule floor.run_inv [OF run_grow]) (simp_all add: floor_ok_def)

lemma run_chairs: "run tz strict s0 xs \<Longrightarrow> seat_inv s0 \<Longrightarrow> wallet_inv s0 \<Longrightarrow> chairs_inv s0 \<Longrightarrow> chairs_ok xs"
  by (rule chairs.run_inv [OF run_grow]) (simp_all add: floor_ok_def chairs_ok_def)

lemma run_diary: "run tz True s0 xs \<Longrightarrow> seat_inv s0 \<Longrightarrow> wallet_inv s0 \<Longrightarrow> book_inv s0 \<Longrightarrow> diary_ok xs"
  by (rule diary.run_inv [OF run_grow]) (simp_all add: floor_ok_def diary_ok_def)

text \<open>C1: however the handlers of the backend interleave, and whatever stale data each of them read, no
  barber and no chair ever serves two queue entries at once, no queue entry is served twice at once, no two called
  entries hold the same barber or the same chair, a visit is running exactly when its queue entry is in
  service with that barber on that chair, and no appointment and no guest ticket has two queue entries. A chair that
  the shop marked as occupied by a local customer is marked once, and neither a visit nor a called entry is on it.
  One person may still hold two entries: see \<open>racing_joins_hold_two_places\<close>.\<close>

theorem floor_is_exclusive:
  assumes "run tz False s0 (s # older)" "seat_inv s0" "wallet_inv s0" "chairs_inv s0"
  shows "uniq_on ss_staff (\<lambda>x. ss_status x = S_ACTIVE) (db_sessions s) \<and> uniq_on ss_chair (\<lambda>x. ss_status x = S_ACTIVE) (db_sessions s)
    \<and> uniq_on ss_entry (\<lambda>x. ss_status x = S_ACTIVE) (db_sessions s)
    \<and> uniq_on qe_staff (\<lambda>e. qe_status e = Q_CALLED \<and> qe_staff e \<noteq> None) (db_entries s)
    \<and> uniq_on qe_chair (\<lambda>e. qe_status e = Q_CALLED \<and> qe_chair e \<noteq> None) (db_entries s)
    \<and> (\<forall>x\<in>set (db_sessions s). ss_status x = S_ACTIVE \<longrightarrow> exists_where (\<lambda>e. qe_id e = ss_entry x \<and> qe_status e = Q_IN_SERVICE
          \<and> qe_staff e = Some (ss_staff x) \<and> qe_chair e = Some (ss_chair x)) (db_entries s))
    \<and> (\<forall>e\<in>set (db_entries s). qe_status e = Q_IN_SERVICE \<longrightarrow> exists_where (\<lambda>x. ss_status x = S_ACTIVE \<and> ss_entry x = qe_id e) (db_sessions s))
    \<and> uniq_on qe_booking (\<lambda>e. qe_booking e \<noteq> None) (db_entries s) \<and> uniq_on qe_guestHash (\<lambda>e. qe_guestHash e \<noteq> None) (db_entries s)
    \<and> uniq_on mo_chair (\<lambda>m. mo_endedAt m = None) (db_manual s)
    \<and> (\<forall>m\<in>set (db_manual s). mo_endedAt m = None \<longrightarrow>
          \<not> exists_where (\<lambda>x. ss_status x = S_ACTIVE \<and> ss_chair x = mo_chair m) (db_sessions s)
        \<and> \<not> exists_where (\<lambda>e. qe_status e = Q_CALLED \<and> qe_chair e = Some (mo_chair m)) (db_entries s))"
proof -
  have c: "seat_inv s" "chairs_inv s" using run_chairs [OF assms] by (simp_all add: floor_ok_def chairs_ok_def)
  have a: "active = (\<lambda>x. ss_status x = S_ACTIVE)" by (simp add: fun_eq_iff active_def)
  have h: "holds_staff = (\<lambda>e. qe_status e = Q_CALLED \<and> qe_staff e \<noteq> None)" "holds_chair = (\<lambda>e. qe_status e = Q_CALLED \<and> qe_chair e \<noteq> None)"
    by (auto simp: fun_eq_iff holds_staff_def holds_chair_def)
  note floor = c(1) [unfolded seat_inv_def seat_ok_def rows_ok_def sessions_ok_def holds_ok_def linked_def seated_at_def a h]
  have marks: "uniq_on mo_chair (\<lambda>m. mo_endedAt m = None) (db_manual s)" using c(2) by (simp add: chairs_inv_def)
  have free: "\<forall>m\<in>set (db_manual s). mo_endedAt m = None \<longrightarrow>
          \<not> exists_where (\<lambda>x. ss_status x = S_ACTIVE \<and> ss_chair x = mo_chair m) (db_sessions s)
        \<and> \<not> exists_where (\<lambda>e. qe_status e = Q_CALLED \<and> qe_chair e = Some (mo_chair m)) (db_entries s)"
    using occupied_chair_is_free [OF c] by blast
  from floor show ?thesis
    by (intro conjI marks free) (unfold exists_where_iff, blast+)
qed

text \<open>C2: as long as no handler completes an appointment that has given its slot up, no interleaving books a
  barber twice: any two appointments that reserve the same barber of a salon lie apart in time; and booking
  rows, their identifiers and their idempotency keys stay unique.\<close>

theorem barbers_are_never_double_booked:
  assumes "run tz True s0 (s # older)" "seat_inv s0" "wallet_inv s0" "book_inv s0"
    and "a \<in> set (db_bookings s)" "b \<in> set (db_bookings s)" "bk_id a \<noteq> bk_id b"
    and "reserving a" "reserving b" "bk_salon a = bk_salon b" "bk_preferredStaff a = Some st" "bk_preferredStaff b = Some st"
  shows "(bk_slotEnd a \<le> bk_slotStart b \<or> bk_slotEnd b \<le> bk_slotStart a) \<and> bk_idempotencyKey a \<noteq> bk_idempotencyKey b"
proof -
  have i: "book_inv s" using run_diary [OF assms(1-4)] by (simp add: diary_ok_def)
  then have "\<not> staff_clash a b" using assms(5-7) by (simp add: book_inv_def no_clash_def)
  moreover have "bk_idempotencyKey a \<noteq> bk_idempotencyKey b"
    using i assms(5-7) distinct_key_eq [of bk_idempotencyKey "db_bookings s" a b] by (auto simp: book_inv_def)
  ultimately show ?thesis
    using assms(8-12) by (auto simp: staff_clash_def intervalsOverlap_def)
qed

text \<open>C3: no interleaving overdraws a wallet: every lot keeps between nothing and what was granted, lots and
  grant keys stay unique, and every lot belongs to a wallet.\<close>

theorem wallets_are_never_overdrawn:
  assumes "run tz False s0 (s # older)" "seat_inv s0" "wallet_inv s0"
  shows "(\<forall>l\<in>set (db_credits s). 0 \<le> nvl (ct_remaining l) 0 \<and> (ct_remaining l = None \<or> the (ct_remaining l) \<le> ct_amount l))
    \<and> distinct (map ct_id (db_credits s)) \<and> uniq_on ct_idempotencyKey (\<lambda>l. ct_idempotencyKey l \<noteq> None) (db_credits s)
    \<and> (\<forall>now u. 0 \<le> walletBalance s now u)"
proof -
  have i: "wallet_inv s" using run_floor [OF assms] by (simp add: floor_ok_def)
  have lots: "lot_ok l" if "l \<in> set (db_credits s)" for l using i that by (simp add: wallet_inv_def)
  then have "\<forall>l\<in>set (db_credits s). 0 \<le> nvl (ct_remaining l) 0 \<and> (ct_remaining l = None \<or> the (ct_remaining l) \<le> ct_amount l)"
    by (force simp: lot_ok_def nvl_def split: option.splits)
  moreover have "0 \<le> walletBalance s now u" for now u
    using sumValidLots_nonneg i by (auto simp: walletBalance_def split: option.split)
  ultimately show ?thesis using i by (simp add: wallet_inv_def)
qed

section \<open>Example runs\<close>

lemma demo_seat_inv: "seat_inv demo_shop"
  by (simp add: seat_inv_def seat_ok_def rows_ok_def sessions_ok_def holds_ok_def linked_def demo_shop_def demo_db_def empty_db_def)

lemma wallets_are_never_overdrawn_witness:
  "\<exists>t. run ist False demo_shop [t, demo_shop] \<and> db_bookings t \<noteq> [] \<and> 0 \<le> walletBalance t 1792368000000 7"
proof -
  obtain t where t: "createBooking (\<lambda>_. 0) id ist 1792368000000 1792368000000 demo_shop demo_shop 7 demo_request SRC_APP ''k1'' = Inr (t, 100)"
    using demo_created ..
  have r: "run ist False demo_shop [t, demo_shop]"
    by (rule run.commit [OF run.start _ commit.booking [OF booking_commit.intros(1) [OF t]]]) simp_all
  have "db_bookings t \<noteq> []" by (rule createBookingE [OF t demo_book_inv(1)]) simp
  then show ?thesis using r wallets_are_never_overdrawn [OF r demo_seat_inv demo_book_inv(2)] by blast
qed

definition busy_shop :: db where
  "busy_shop = demo_shop\<lparr>db_bookings := [demo_booking 50 (Some 3) 1792382400000 1792384200000 B_CONFIRMED,
     (demo_booking 51 (Some 3) 1792384200000 1792386000000 B_CONFIRMED)\<lparr>bk_idempotencyKey := ''k2''\<rparr>]\<rparr>"

lemma busy_shop_inv: "seat_inv busy_shop" "wallet_inv busy_shop" "book_inv busy_shop"
proof -
  show "seat_inv busy_shop"
    using demo_seat_inv by (simp add: busy_shop_def seat_inv_def)
  show "wallet_inv busy_shop" using demo_book_inv(2) by (simp add: busy_shop_def wallet_inv_def)
  show "book_inv busy_shop"
    by (simp add: book_inv_def no_clash_def uniq_on_def staff_clash_def reserving_def RESERVING_BOOKING_STATUSES_def
        intervalsOverlap_def busy_shop_def demo_shop_defs)
qed

lemma barbers_are_never_double_booked_witness:
  "\<exists>t a b. run ist True busy_shop [t, busy_shop] \<and> a \<in> set (db_bookings t) \<and> b \<in> set (db_bookings t)
     \<and> bk_id a = 50 \<and> bk_id b = 51 \<and> (bk_slotEnd a \<le> bk_slotStart b \<or> bk_slotEnd b \<le> bk_slotStart a)"
proof -
  let ?t = "emit [] (recomputeEtas 0 1 busy_shop)"
  let ?a = "demo_booking 50 (Some 3) 1792382400000 1792384200000 B_CONFIRMED"
  let ?b = "(demo_booking 51 (Some 3) 1792384200000 1792386000000 B_CONFIRMED)\<lparr>bk_idempotencyKey := ''k2''\<rparr>"
  have r: "run ist True busy_shop [?t, busy_shop]"
    by (rule run.commit [OF run.start _ commit.sweep [OF sweep_commit.intros(4) [OF refl]]]) simp_all
  have m: "?a \<in> set (db_bookings ?t)" "?b \<in> set (db_bookings ?t)" by (simp_all add: busy_shop_def)
  have "(bk_slotEnd ?a \<le> bk_slotStart ?b \<or> bk_slotEnd ?b \<le> bk_slotStart ?a) \<and> bk_idempotencyKey ?a \<noteq> bk_idempotencyKey ?b"
    by (rule barbers_are_never_double_booked [OF r busy_shop_inv m, of 3])
      (simp_all add: demo_booking_def reserving_def RESERVING_BOOKING_STATUSES_def)
  then show ?thesis using r m by (intro exI [of _ ?t] exI [of _ ?a] exI [of _ ?b]) (simp add: demo_booking_def)
qed

section \<open>Two joins at once\<close>

lemma evening_join:
  assumes "getSalonTimeZone ist s 1 = Some ''Asia/Kolkata''"
  shows "\<exists>t e. joinWalkIn ist 1792416600000 demo_shop s 7 1 (Some 2) None None = Inr (t, db_next s)
     \<and> map ecore (db_entries t) = map ecore (db_entries s @ [e]) \<and> qe_customer e = Some 7 \<and> qe_status e = Q_WAITING
     \<and> queue_frame s t"
proof -
  have d: "db_entries demo_shop = []" "db_salons demo_shop = [demo_salon]" "db_services demo_shop = [demo_service]"
      "db_users demo_shop = [demo_user 7, demo_user 8]"
    by (simp_all add: demo_shop_def demo_db_def empty_db_def)
  have "\<exists>t e s1 es. joinWalkIn ist 1792416600000 demo_shop s 7 1 (Some 2) None None = Inr (t, db_next s)
     \<and> t = emit es (after_queue_change 1792416600000 1 s1) \<and> db_entries s1 = db_entries s @ [e]
     \<and> qe_customer e = Some 7 \<and> qe_status e = Q_WAITING"
    unfolding joinWalkIn_def nextTokenNumber_def resolveTimeZoneOrThrow_def assms theE_Some bindE_simps evening_day prod.case Let_def
    by (simp add: getSalonOrThrow_def find_salon_def getServiceOrThrow_def assertNotAlreadyInQueue_def
        find_user_def truthy_def insert_entry_def new_entry_def d demo_salon_def demo_service_def demo_user_def exists_where_iff
        del: One_nat_def) fastforce
  then show ?thesis using frame_joins(3) by (fastforce simp: after_queue_change_def recompute_ecore)
qed

text \<open>The rule that a customer holds one active place at a time is checked before the transaction only:
  two joins of one customer that both read the queue before either committed both succeed.\<close>

theorem racing_joins_hold_two_places:
  "\<exists>t1 t2. run ist True demo_shop [t2, t1, demo_shop]
     \<and> count_where (\<lambda>e. qe_customer e = Some 7 \<and> entry_in ACTIVE_ENTRY_STATUSES e) (db_entries t2) = 2"
proof -
  obtain t1 e1 where 1: "joinWalkIn ist 1792416600000 demo_shop demo_shop 7 1 (Some 2) None None = Inr (t1, db_next demo_shop)"
      "map ecore (db_entries t1) = map ecore (db_entries demo_shop @ [e1])" "qe_customer e1 = Some 7" "qe_status e1 = Q_WAITING"
      "queue_frame demo_shop t1"
    using evening_join [OF evening_zone] by blast
  have "getSalonTimeZone ist t1 1 = getSalonTimeZone ist demo_shop 1"
    using 1(5) by (auto simp: queue_frame_def getSalonTimeZone_def find_salon_def)
  then obtain t2 e2 where 2: "joinWalkIn ist 1792416600000 demo_shop t1 7 1 (Some 2) None None = Inr (t2, db_next t1)"
      "map ecore (db_entries t2) = map ecore (db_entries t1 @ [e2])" "qe_customer e2 = Some 7" "qe_status e2 = Q_WAITING"
    using evening_join [of t1] evening_zone by auto
  let ?P = "\<lambda>e. qe_customer e = Some 7 \<and> entry_in ACTIVE_ENTRY_STATUSES e"
  have P: "?P (ecore e) = ?P e" for e by (simp add: ecore_def entry_in_def)
  have "count_where ?P (map ecore es) = count_where ?P es" for es by (induction es) (simp_all add: P)
  then have c: "count_where ?P (db_entries t2) = count_where ?P (map ecore (db_entries t2))" by simp
  have "map ecore (db_entries t2) = [ecore e1, ecore e2]"
    using 1(2) 2(2) by (simp add: demo_shop_def demo_db_def empty_db_def)
  then have "count_where ?P (db_entries t2) = 2"
    unfolding c using 1(3,4) 2(3,4) by (simp add: P ACTIVE_ENTRY_STATUSES_def entry_in_def ecore_def)
  moreover have "run ist True demo_shop [t1, demo_shop]"
    by (rule run.commit [OF run.start _ commit.queue [OF queue_commit.intros(3) [OF 1(1)]]]) simp_all
  then have "run ist True demo_shop [t2, t1, demo_shop]"
    by (rule run.commit [OF _ _ commit.queue [OF queue_commit.intros(3) [OF 2(1)]]]) simp_all
  ultimately show ?thesis by blast
qed

section \<open>Completion does not look at the appointment\<close>

text \<open>Completing a visit marks its appointment as completed whatever became of it, and touches no money:
  an appointment its customer cancelled while in the chair, with its credits returned and a cancellation charge
  in the ledger, ends as completed with both still in place.\<close>

theorem completion_overrides_cancellation:
  assumes run: "completeSession now pre s u k = Inr t" and x: "find_session pre k = Some x" "find_entry pre (ss_entry x) = Some e"
    and b: "qe_booking e = Some i"
  shows "(\<forall>r\<in>set (db_bookings t). bk_id r = i \<longrightarrow> bk_status r = B_COMPLETED)
     \<and> db_ledger t = db_ledger s \<and> (\<forall>n v. walletBalance t n v = walletBalance s n v)"
proof -
  obtain x' e' where x': "find_session pre k = Some x'" "find_entry pre (ss_entry x') = Some e'"
    and f: "queue_frame (s\<lparr>db_bookings := db_bookings t\<rparr>) t"
    and bk: "db_bookings t = (case qe_booking e' of None \<Rightarrow> db_bookings s
       | Some b \<Rightarrow> upd_where (\<lambda>r. bk_id r = b) (\<lambda>r. r\<lparr>bk_status := B_COMPLETED\<rparr>) (db_bookings s))"
    by (rule completeSession_frame [OF run])
  have e: "e' = e" using x x' by simp
  have 1: "\<forall>r\<in>set (db_bookings t). bk_id r = i \<longrightarrow> bk_status r = B_COMPLETED"
    unfolding bk e b option.case by (rule upd_where_all) simp
  have 2: "walletBalance t n v = walletBalance s n v" for n v
    by (rule walletBalance_same) (use queue_frameD [OF f] in simp_all)
  show ?thesis using 1 2 queue_frameD(4) [OF f] by simp
qed

definition serving_shop :: db where
  "serving_shop = demo_shop\<lparr>db_roles := [\<lparr>ur_user = 8, ur_role = SALON_OWNER, ur_salon = Some 1\<rparr>],
     db_bookings := [booked_row],
     db_entries := [(demo_entry 60 Q_IN_SERVICE (Some 3) (Some 5) 1)\<lparr>qe_booking := Some 50\<rparr>],
     db_sessions := [\<lparr>ss_id = 80, ss_entry = 60, ss_staff = 3, ss_chair = 5, ss_service = 2, ss_status = S_ACTIVE,
        ss_startedAt = 1792379000000, ss_endedAt = None\<rparr>]\<rparr>"

lemma serving_shop_inv: "seat_inv serving_shop" "wallet_inv serving_shop" "chairs_inv serving_shop"
proof -
  show "seat_inv serving_shop"
    by (simp add: seat_inv_def seat_ok_def rows_ok_def sessions_ok_def holds_ok_def linked_def seated_at_def uniq_on_def entry_wf_def
        holds_staff_def holds_chair_def active_def serving_shop_def demo_shop_def demo_defs)
  show "wallet_inv serving_shop" using demo_book_inv(2) by (simp add: serving_shop_def wallet_inv_def)
  show "chairs_inv serving_shop"
    by (simp add: chairs_inv_def chair_locally_occupied_def exists_where_iff serving_shop_def demo_shop_def demo_db_def empty_db_def)
qed

lemma serving_occupied:
  "map_sum id (\<lambda>(t, i). (map mo_chair (db_manual t), map ss_chair (db_sessions t))) (occupyLocal 1792381000000 serving_shop serving_shop 8 1 6)
     = Inr ([6], [5])"
  by code_simp

lemma floor_is_exclusive_witness:
  "\<exists>t. run ist False serving_shop [t, serving_shop] \<and> map ss_chair (db_sessions t) = [5] \<and> map mo_chair (db_manual t) = [6]
     \<and> uniq_on ss_chair (\<lambda>x. ss_status x = S_ACTIVE) (db_sessions t)
     \<and> (\<forall>m\<in>set (db_manual t). mo_endedAt m = None \<longrightarrow>
          \<not> exists_where (\<lambda>x. ss_status x = S_ACTIVE \<and> ss_chair x = mo_chair m) (db_sessions t))"
proof -
  obtain t i where t: "occupyLocal 1792381000000 serving_shop serving_shop 8 1 6 = Inr (t, i)"
    and m: "map mo_chair (db_manual t) = [6]" "map ss_chair (db_sessions t) = [5]"
    using serving_occupied by (cases "occupyLocal 1792381000000 serving_shop serving_shop 8 1 6") auto
  have r: "run ist False serving_shop [t, serving_shop]"
    by (rule run.commit [OF run.start _ commit.queue [OF queue_commit.intros(19) [OF t]]]) simp_all
  show ?thesis by (rule exI [of _ t]) (use r m floor_is_exclusive [OF r serving_shop_inv] in simp)
qed

lemma emit_emit [simp]: "emit es (emit ds s) = emit (ds @ es) s"
  by (simp add: emit_def)

lemma serving_cancelled:
  "\<exists>es bs ls cs as n su. cancelBooking 1792380600000 1792380600000 serving_shop serving_shop 7 50 = Inr (emit es
     (serving_shop\<lparr>db_bookings := bs, db_ledger := ls, db_credits := cs, db_accounts := as, db_next := n, db_subsidies := su\<rparr>), 100)"
proof -
  have f: "find_booking serving_shop 50 = Some booked_row" "getOne serving_shop 7 50 = Inr booked_row"
      "db_policies serving_shop = [demo_policy]"
    by (simp_all add: find_booking_def getOne_def serving_shop_def booked_row_def demo_booking_def demo_shop_def)
  obtain t where run: "cancelBooking 1792380600000 1792380600000 serving_shop serving_shop 7 50 = Inr (t, 100)"
    using booked_row_cancelled [OF f(1,3,2)] ..
  obtain bk t0 l es es' es'' where bk: "getOne serving_shop 7 50 = Inr bk"
    and tx: "cancel_tx 1792380600000 serving_shop bk 7 100 = Inr (t0, l)"
    and t: "t = emit es (if l then emit es' (recomputeEtas 1792380600000 (bk_salon bk) (emit es'' t0)) else emit es'' t0)"
    by (rule cancelBookingD [OF run]) blast
  have bk: "bk = booked_row" using bk f by simp
  have id: "bk_id booked_row = 50" "bk_creditsRedeemed booked_row = Some 3000"
    by (simp_all add: booked_row_def demo_booking_def)
  have es: "db_entries serving_shop = [(demo_entry 60 Q_IN_SERVICE (Some 3) (Some 5) 1)\<lparr>qe_booking := Some 50\<rparr>]"
    by (simp add: serving_shop_def)
  have nl: "\<not> linked_cancellable 50 ((demo_entry 60 Q_IN_SERVICE (Some 3) (Some 5) 1)\<lparr>qe_booking := Some 50\<rparr>)"
    by (simp add: linked_cancellable_def entry_in_def QUEUE_ENTRY_STATUSES_CANCELLABLE_FROM_BOOKING_def demo_entry_def)
  define s3 where "s3 = add_ledger 7 (bk_salon booked_row) 50 100 CANCELLATION_CHARGE
      (serving_shop\<lparr>db_bookings := upd_where (\<lambda>b. bk_id b = 50) (\<lambda>b. b\<lparr>bk_status := B_CANCELLED, bk_cancelledAt := Some 1792380600000,
         bk_cancelledBy := Some 7, bk_cancellationCharge := Some 100\<rparr>) (db_bookings serving_shop)\<rparr>)"
  have le: "db_entries serving_shop = [e] \<Longrightarrow> serving_shop\<lparr>db_bookings := b, db_entries := [e]\<rparr> = serving_shop\<lparr>db_bookings := b\<rparr>" for e b
    by simp
  have "t0 = emit [Audit (Some 7) ''BOOKING_CANCELLED'' 50] (give_back_credits 1792380600000 7 50 (Some 3000) s3)" and l: "\<not> l"
    using tx by (simp_all add: bk cancel_tx_def id Let_def guardE_Inr s3_def cancel_linked_entries_def upd_entries_def upd_booking_def es nl le)
  moreover obtain cs as n where "restoreForCancelledBooking 1792380600000 7 50 3000 s3
      = s3\<lparr>db_credits := cs, db_accounts := as, db_next := n\<rparr>"
    using restore_frame [of s3] unfolding wallet_frame_def by blast
  ultimately show ?thesis
    using run unfolding t by (simp add: l give_back_credits_def void_subsidies_def s3_def add_ledger_def) (metis (no_types))
qed

lemma completion_overrides_cancellation_witness:
  "\<exists>t v. cancelBooking 1792380600000 1792380600000 serving_shop serving_shop 7 50 = Inr (t, 100)
     \<and> map bk_status (db_bookings t) = [B_CANCELLED] \<and> completeSession 1792381000000 t t 8 80 = Inr v
     \<and> map bk_status (db_bookings v) = [B_COMPLETED] \<and> walletBalance v 0 7 = walletBalance serving_shop 0 7 + 3000
     \<and> map le_amount (db_ledger v) = [100]"
proof -
  let ?x = "\<lparr>ss_id = 80, ss_entry = 60, ss_staff = 3, ss_chair = 5, ss_service = 2, ss_status = S_ACTIVE,
        ss_startedAt = 1792379000000, ss_endedAt = None\<rparr>"
  let ?e = "(demo_entry 60 Q_IN_SERVICE (Some 3) (Some 5) 1)\<lparr>qe_booking := Some 50\<rparr>"
  obtain es bs ls cs as n su where run: "cancelBooking 1792380600000 1792380600000 serving_shop serving_shop 7 50 = Inr (emit es
     (serving_shop\<lparr>db_bookings := bs, db_ledger := ls, db_credits := cs, db_accounts := as, db_next := n, db_subsidies := su\<rparr>), 100)"
    using serving_cancelled by blast
  define t where "t = emit es
     (serving_shop\<lparr>db_bookings := bs, db_ledger := ls, db_credits := cs, db_accounts := as, db_next := n, db_subsidies := su\<rparr>)"
  note run = run [folded t_def]
  have w: "wallet_inv serving_shop" using demo_book_inv(2) by (simp add: serving_shop_def wallet_inv_def)
  have g: "getOne serving_shop 7 50 = Inr booked_row"
    by (simp add: getOne_def serving_shop_def booked_row_def demo_booking_def)
  obtain bk where bk: "getOne serving_shop 7 50 = Inr bk"
    and b: "db_bookings t = upd_where (\<lambda>b. bk_id b = 50) (cancel_row 1792380600000 7 100) (db_bookings serving_shop)"
    and l: "db_ledger t = (if (0::rat) < 100 then db_ledger serving_shop @ [\<lparr>le_id = db_next serving_shop, le_customer = 7, le_salon = bk_salon bk,
         le_booking = 50, le_amount = 100, le_reason = CANCELLATION_CHARGE, le_status = L_OUTSTANDING\<rparr>] else db_ledger serving_shop)"
    and wal: "\<And>n v. walletBalance t n v = walletBalance serving_shop n v + (if v = 7 then max 0 (nvl (bk_creditsRedeemed bk) 0) else 0)"
    by (rule cancel_effect [OF run w]) blast
  have bk': "bk = booked_row" using bk g by simp
  have id: "bk_id booked_row = 50" "bk_creditsRedeemed booked_row = Some 3000"
    by (simp_all add: booked_row_def demo_booking_def)
  have tb: "db_bookings t = [cancel_row 1792380600000 7 100 booked_row]" unfolding b by (simp add: serving_shop_def id)
  have tl: "map le_amount (db_ledger t) = [100]" unfolding l by (simp add: serving_shop_def demo_shop_def demo_db_def empty_db_def)
  have tw: "walletBalance t 0 7 = walletBalance serving_shop 0 7 + 3000" using wal [of 0 7] by (simp add: bk' id)
  have tt: "db_sessions t = [?x]" "db_entries t = [?e]" "db_roles t = [\<lparr>ur_user = 8, ur_role = SALON_OWNER, ur_salon = Some 1\<rparr>]"
    by (simp_all add: t_def serving_shop_def)
  have es': "qe_id ?e = 60" "qe_salon ?e = 1" "qe_booking ?e = Some 50" by (simp_all add: demo_entry_def)
  have fs: "find_session t 80 = Some ?x" "find_entry t 60 = Some ?e" by (simp_all add: find_session_def find_entry_def tt es')
  have ac: "assertAccessOrAdminAccess t 8 1 = Inr STAFF_OR_OWNER" "getActorKind t 8 1 = Some KIND_OWNER"
    by (simp_all add: assertAccessOrAdminAccess_def getActorKind_def has_role_def exists_where_def tt)
  have "\<exists>v. completeSession 1792381000000 t t 8 80 = Inr v"
    unfolding completeSession_def fs(1) theE_Some session.simps fs(2) es' ac bindE_simps complete_tx_def Let_def
    by (simp add: tt count_where_def)
  then obtain v where v: "completeSession 1792381000000 t t 8 80 = Inr v" ..
  note V = completion_overrides_cancellation [OF v fs(1) _ es'(3)]
  have V: "\<forall>r\<in>set (db_bookings v). bk_id r = 50 \<longrightarrow> bk_status r = B_COMPLETED" "db_ledger v = db_ledger t"
      "walletBalance v 0 7 = walletBalance t 0 7"
    using V fs(2) by simp_all
  have "db_bookings v = upd_where (\<lambda>r. bk_id r = 50) (\<lambda>r. r\<lparr>bk_status := B_COMPLETED\<rparr>) (db_bookings t)"
    by (rule completeSession_frame [OF v]) (auto simp: fs es')
  then have "map bk_status (db_bookings v) = [B_COMPLETED]" by (simp add: tb cancel_row_def id)
  moreover have "map bk_status (db_bookings t) = [B_CANCELLED]" by (simp add: tb cancel_row_def)
  ultimately show ?thesis using run v V tw tl by (intro exI [of _ t] exI [of _ v]) simp
qed

end
