(* ===== verification/Auto_Assign.thy ===== *)
theory Auto_Assign
  imports Queue_Steps "HOL-Library.Multiset"
begin

text \<open>
  Automatic allocation (\<^verbatim>\<open>owner-ops/queue-auto-assign.service.ts\<close>): the planner \<open>planAllocation\<close>, which is
  free of I/O, the pass \<open>runForSalon\<close> that reads the queue, the barbers and the chairs, plans and seats, and
  its entry points \<open>assignAllWaiting\<close>, \<open>assignOne\<close> and \<open>takeNext\<close>. The order of chairs by label and
  \<open>localeCompare\<close> belong to the database and to Intl: both are arguments, as are the texts of the exceptions.
\<close>

section \<open>The planner\<close>

record planner_entry =
  pe_id :: id
  pe_serviceIds :: "id list"
  pe_duration :: int
  pe_preferred :: "id option"
  pe_booking :: "id option"

record planner_staff =
  ps_id :: id
  ps_displayName :: string
  ps_qualified :: "id list"
  ps_completedToday :: int
  ps_lastEndedAt :: "ms option"

record planner_chair =
  pc_id :: id
  pc_label :: string

record assignment =
  as_entry :: id
  as_staff :: id
  as_chair :: id

text \<open>Why a customer stays waiting; \<open>REFUSED\<close> carries the error of a refused seating.\<close>

datatype skip_reason = ALL_CHAIRS_OCCUPIED | CHOOSE_A_SERVICE | REQUESTED_NOT_ON_DUTY
  | REQUESTED_NOT_FREE_OR_QUALIFIED string | NOBODY_QUALIFIED_AND_FREE | REQUESTED_BUSY string
  | EVERYBODY_BUSY | REFUSED app_error

record skip_note =
  nt_entry :: id
  nt_reason :: skip_reason

record plan_outcome =
  po_assignments :: "assignment list"
  po_skipped :: "skip_note list"

record plan_input =
  pi_staff :: "planner_staff list"
  pi_unrestricted :: "id list"
  pi_isStaffFree :: "id \<Rightarrow> planner_entry \<Rightarrow> bool"
  pi_localeCompare :: "string \<Rightarrow> string \<Rightarrow> int"
  pi_idCompare :: "id \<Rightarrow> id \<Rightarrow> int"

definition or_compare :: "int \<Rightarrow> int \<Rightarrow> int" where  \<comment> \<open>the \<open>||\<close> of two comparisons\<close>
  "or_compare a b = (if a \<noteq> 0 then a else b)"

definition compare_staff :: "plan_input \<Rightarrow> planner_staff \<Rightarrow> planner_staff \<Rightarrow> int" where
  "compare_staff input a b =
     or_compare (ps_completedToday a - ps_completedToday b)
       (or_compare (nvl (ps_lastEndedAt a) 0 - nvl (ps_lastEndedAt b) 0)
         (or_compare (pi_localeCompare input (ps_displayName a) (ps_displayName b))
           (pi_idCompare input (ps_id a) (ps_id b))))"

text \<open>\<open>Array.prototype.sort\<close>: the stable sort by a comparison function.\<close>

fun insert_by :: "('a \<Rightarrow> 'a \<Rightarrow> int) \<Rightarrow> 'a \<Rightarrow> 'a list \<Rightarrow> 'a list" where
  "insert_by cmp x [] = [x]"
| "insert_by cmp x (y # ys) = (if cmp x y \<le> 0 then x # y # ys else y # insert_by cmp x ys)"

definition sort_by :: "('a \<Rightarrow> 'a \<Rightarrow> int) \<Rightarrow> 'a list \<Rightarrow> 'a list" where
  "sort_by cmp xs = foldr (insert_by cmp) xs []"

definition qualified_for :: "plan_input \<Rightarrow> planner_entry \<Rightarrow> planner_staff \<Rightarrow> bool" where
  "qualified_for input entry st =
     list_all (\<lambda>i. i \<in> set (pi_unrestricted input) \<or> i \<in> set (ps_qualified st)) (pe_serviceIds entry)"

definition requested :: "plan_input \<Rightarrow> planner_entry \<Rightarrow> planner_staff option" where
  "requested input entry = (case pe_preferred entry of None \<Rightarrow> None
     | Some p \<Rightarrow> find (\<lambda>st. ps_id st = p) (rev (pi_staff input)))"  \<comment> \<open>\<open>new Map\<close>: the last one of an id\<close>

text \<open>The body of the loop for one customer: the barber chosen, or why nobody is.\<close>

definition plan_entry :: "plan_input \<Rightarrow> planner_chair list \<Rightarrow> id list \<Rightarrow> planner_entry \<Rightarrow> skip_reason + planner_staff" where
  "plan_entry input freeChairs usedStaff entry =
     (if freeChairs = [] then Inl ALL_CHAIRS_OCCUPIED
      else if pe_serviceIds entry = [] then Inl CHOOSE_A_SERVICE
      else let preferred = requested input entry in
        if pe_preferred entry \<noteq> None \<and> preferred = None then Inl REQUESTED_NOT_ON_DUTY
        else let pool = (case preferred of Some p \<Rightarrow> [p] | None \<Rightarrow> pi_staff input);
                 qualified = filter (\<lambda>st. ps_id st \<notin> set usedStaff \<and> qualified_for input entry st) pool
             in if qualified = [] then
                  Inl (case preferred of Some p \<Rightarrow> REQUESTED_NOT_FREE_OR_QUALIFIED (ps_displayName p)
                       | None \<Rightarrow> NOBODY_QUALIFIED_AND_FREE)
                else case find (\<lambda>st. pi_isStaffFree input (ps_id st) entry) (sort_by (compare_staff input) qualified) of
                    None \<Rightarrow> Inl (case preferred of Some p \<Rightarrow> REQUESTED_BUSY (ps_displayName p) | None \<Rightarrow> EVERYBODY_BUSY)
                  | Some chosen \<Rightarrow> Inr chosen)"

fun plan_loop :: "plan_input \<Rightarrow> planner_entry list \<Rightarrow> planner_chair list \<Rightarrow> id list \<Rightarrow> plan_outcome" where
  "plan_loop input [] freeChairs usedStaff = \<lparr>po_assignments = [], po_skipped = []\<rparr>"
| "plan_loop input (entry # es) freeChairs usedStaff =
     (case plan_entry input freeChairs usedStaff entry of
        Inl reason \<Rightarrow>
          (let rest = plan_loop input es freeChairs usedStaff
           in rest\<lparr>po_skipped := \<lparr>nt_entry = pe_id entry, nt_reason = reason\<rparr> # po_skipped rest\<rparr>)
      | Inr chosen \<Rightarrow>
          (let rest = plan_loop input es (tl freeChairs) (ps_id chosen # usedStaff)
           in rest\<lparr>po_assignments := \<lparr>as_entry = pe_id entry, as_staff = ps_id chosen, as_chair = pc_id (hd freeChairs)\<rparr>
                                   # po_assignments rest\<rparr>))"

definition planAllocation :: "plan_input \<Rightarrow> planner_entry list \<Rightarrow> planner_chair list \<Rightarrow> plan_outcome" where
  "planAllocation input entries chairs = plan_loop input entries chairs []"

section \<open>The pass over one salon\<close>

definition CONFLICT_CODES :: "app_error list" where
  "CONFLICT_CODES = [STAFF_ALREADY_OCCUPIED, CHAIR_ALREADY_OCCUPIED, INVALID_QUEUE_TRANSITION,
     STAFF_RESERVED_FOR_APPOINTMENT, APPOINTMENT_STAFF_LOCKED, CHAIR_INACTIVE_ERROR, CHAIR_NOT_FOUND]"

record run_options =
  ro_requireEnabled :: bool
  ro_includeNotArrived :: bool
  ro_onlyEntryId :: "id option"
  ro_onlyStaffId :: "id option"
  ro_stopAfterFirst :: bool

definition matches :: "id option \<Rightarrow> id \<Rightarrow> bool" where  \<comment> \<open>a condition that is only there when the option is set\<close>
  "matches only i = (case only of None \<Rightarrow> True | Some j \<Rightarrow> i = j)"

definition to_plan :: "run_options \<Rightarrow> db \<Rightarrow> id \<Rightarrow> entry list" where
  "to_plan opts s salonId =
     sort_key qe_joinedAt (filter (\<lambda>e. qe_salon e = salonId \<and> entry_in [Q_WAITING, Q_CALLED] e \<and> qe_staff e = None
        \<and> (ro_includeNotArrived opts \<or> qe_arrivedAt e \<noteq> None) \<and> matches (ro_onlyEntryId opts) (qe_id e)) (db_entries s))"

definition planner_services :: "db \<Rightarrow> entry \<Rightarrow> id list" where
  "planner_services s e = (case entry_booking s e of
       Some b \<Rightarrow> map bi_service (resolveEffectiveBookingServices s b)
     | None \<Rightarrow> (case qe_service e of Some sv \<Rightarrow> [sv] | None \<Rightarrow> []))"

definition to_planner_entry :: "db \<Rightarrow> entry \<Rightarrow> planner_entry" where
  "to_planner_entry s e =
     (let durationMinutes = (case entry_booking s e of
             Some b \<Rightarrow> sum_list (map bi_duration (resolveEffectiveBookingServices s b))
           | None \<Rightarrow> nvl (entry_service_duration s e) 30)
      in \<lparr>pe_id = qe_id e, pe_serviceIds = planner_services s e, pe_duration = max 1 durationMinutes,
          pe_preferred = (if qe_source e = APPOINTMENT
                          then (case entry_booking s e of Some b \<Rightarrow> bk_preferredStaff b | None \<Rightarrow> None)
                          else qe_preferredStaff e),
          pe_booking = qe_booking e\<rparr>)"

text \<open>The services done today and the end of the last one, per barber.\<close>

definition count_done :: "session \<Rightarrow> (id \<rightharpoonup> int \<times> ms option) \<Rightarrow> (id \<rightharpoonup> int \<times> ms option)" where
  "count_done row doneByStaff =
     (let (count, last) = nvl (doneByStaff (ss_staff row)) (0, None);
          last' = (case ss_endedAt row of None \<Rightarrow> last
                   | Some t \<Rightarrow> (case last of None \<Rightarrow> Some t | Some l \<Rightarrow> if t > l then Some t else last))
      in doneByStaff(ss_staff row \<mapsto> (count + 1, last')))"

definition done_today :: "zone_db \<Rightarrow> ms \<Rightarrow> db \<Rightarrow> id \<Rightarrow> (id \<rightharpoonup> int \<times> ms option)" where
  "done_today tz now s salonId =
     (let dayStart = (case getSalonTimeZone tz s salonId of
            None \<Rightarrow> now - 24 * 3600000
          | Some zone \<Rightarrow> (case zonedDayBounds tz now zone of None \<Rightarrow> now - 24 * 3600000 | Some (_, st, _) \<Rightarrow> st))
      in fold count_done (filter (\<lambda>x. ss_status x = S_COMPLETED \<and> session_in_salon s salonId x
            \<and> (case ss_endedAt x of None \<Rightarrow> False | Some t \<Rightarrow> dayStart \<le> t)) (db_sessions s)) Map.empty)"

definition busy_staff :: "db \<Rightarrow> id \<Rightarrow> id list" where
  "busy_staff s salonId = map ss_staff (liveSessions s salonId) @ map (\<lambda>h. the (qe_staff h)) (assignedHolds s salonId)"

definition busy_chairs :: "db \<Rightarrow> id \<Rightarrow> id list" where
  "busy_chairs s salonId = map ss_chair (liveSessions s salonId)
     @ map mo_chair (filter (\<lambda>m. mo_salon m = salonId \<and> mo_endedAt m = None) (db_manual s))
     @ map (\<lambda>h. the (qe_chair h)) (filter (\<lambda>h. qe_chair h \<noteq> None) (assignedHolds s salonId))"

definition free_staff :: "zone_db \<Rightarrow> ms \<Rightarrow> run_options \<Rightarrow> db \<Rightarrow> id \<Rightarrow> planner_staff list" where
  "free_staff tz now opts s salonId =
     (let staffRows = filter (\<lambda>st. st_salon st = salonId \<and> st_status st = STAFF_ACTIVE \<and> st_accessRevokedAt st = None
             \<and> matches (ro_onlyStaffId opts) (st_id st)) (db_staff s);
          doneByStaff = done_today tz now s salonId
      in map (\<lambda>st. \<lparr>ps_id = st_id st, ps_displayName = st_displayName st,
                     ps_qualified = map snd (filter (\<lambda>(i, _). i = st_id st) (db_staffServices s)),
                     ps_completedToday = fst (nvl (doneByStaff (st_id st)) (0, None)),
                     ps_lastEndedAt = snd (nvl (doneByStaff (st_id st)) (0, None))\<rparr>)
             (filter (\<lambda>st. st_id st \<notin> set (busy_staff s salonId)) staffRows))"

definition free_chairs :: "(chair list \<Rightarrow> chair list) \<Rightarrow> db \<Rightarrow> id \<Rightarrow> planner_chair list" where
  "free_chairs by_label s salonId =
     map (\<lambda>c. \<lparr>pc_id = ch_id c, pc_label = ch_label c\<rparr>)
       (filter (\<lambda>c. ch_id c \<notin> set (busy_chairs s salonId))
          (by_label (filter (\<lambda>c. ch_salon c = salonId \<and> ch_status c = CHAIR_ACTIVE) (db_chairs s))))"

definition is_staff_free :: "zone_db \<Rightarrow> ms \<Rightarrow> db \<Rightarrow> id \<Rightarrow> id \<Rightarrow> planner_entry \<Rightarrow> bool" where
  "is_staff_free tz now s salonId staffId entry =
     (let end' = now + minutes (pe_duration entry)
      in sc_free (isStaffFreeForInterval now s salonId staffId now end' (pe_booking entry) (Some (pe_id entry)))
         \<and> is_ok (assertStaffWithinWorkingHours tz s salonId staffId now end'))"

text \<open>The orders the database and Intl decide.\<close>

record orders =
  by_label :: "chair list \<Rightarrow> chair list"
  compare_names :: "string \<Rightarrow> string \<Rightarrow> int"
  compare_ids :: "id \<Rightarrow> id \<Rightarrow> int"

definition plan_for_salon :: "orders \<Rightarrow> zone_db \<Rightarrow> ms \<Rightarrow> run_options \<Rightarrow> db \<Rightarrow> id \<Rightarrow> plan_outcome" where
  "plan_for_salon ord tz now opts s salonId =
     (let waiting = to_plan opts s salonId;
          ids = remdups (concat (map (planner_services s) waiting))
      in planAllocation
           \<lparr>pi_staff = free_staff tz now opts s salonId,
            pi_unrestricted = filter (\<lambda>i. i \<notin> set (map snd (db_staffServices s))) ids,
            pi_isStaffFree = is_staff_free tz now s salonId,
            pi_localeCompare = compare_names ord, pi_idCompare = compare_ids ord\<rparr>
           (map (to_planner_entry s) waiting) (free_chairs (by_label ord) s salonId))"

text \<open>
  The loop that seats: every seating is a request of its own on the database it finds, a refusal with one of
  the conflict codes leaves the customer waiting, any other error ends the pass with what was seated.
\<close>

type_synonym seater = "id \<Rightarrow> id \<Rightarrow> id \<Rightarrow> db \<Rightarrow> app_error + db"

fun seat_loop :: "seater \<Rightarrow> bool \<Rightarrow> assignment list \<Rightarrow> plan_outcome \<Rightarrow> db \<Rightarrow> db \<times> (app_error + plan_outcome)" where
  "seat_loop seat stopAfterFirst [] result s = (s, Inr result)"
| "seat_loop seat stopAfterFirst (planned # ps) result s =
     (case seat (as_entry planned) (as_staff planned) (as_chair planned) s of
        Inr t \<Rightarrow> (let result' = result\<lparr>po_assignments := po_assignments result @ [planned]\<rparr>
                  in if stopAfterFirst then (t, Inr result') else seat_loop seat stopAfterFirst ps result' t)
      | Inl err \<Rightarrow>
          (if err \<in> set CONFLICT_CODES
           then seat_loop seat stopAfterFirst ps
                  (result\<lparr>po_skipped := po_skipped result @ [\<lparr>nt_entry = as_entry planned, nt_reason = REFUSED err\<rparr>]\<rparr>) s
           else (s, Inl err)))"

definition empty_result :: plan_outcome where
  "empty_result = \<lparr>po_assignments = [], po_skipped = []\<rparr>"

definition runForSalon :: "orders \<Rightarrow> zone_db \<Rightarrow> ms \<Rightarrow> run_options \<Rightarrow> seater \<Rightarrow> db \<Rightarrow> db \<Rightarrow> id
    \<Rightarrow> db \<times> (app_error + plan_outcome)" where
  "runForSalon ord tz now opts seat pre s salonId =
     (case find_salon pre salonId of None \<Rightarrow> (s, Inr empty_result)
      | Some salon \<Rightarrow>
          if ro_requireEnabled opts \<and> \<not> sa_queueAutoAssignEnabled salon then (s, Inr empty_result)
          else if to_plan opts pre salonId = [] then (s, Inr empty_result)
          else let plan = plan_for_salon ord tz now opts pre salonId
               in seat_loop seat (ro_stopAfterFirst opts) (po_assignments plan)
                    \<lparr>po_assignments = [], po_skipped = po_skipped plan\<rparr> s)"

section \<open>Its entry points\<close>

definition default_options :: run_options where
  "default_options = \<lparr>ro_requireEnabled = False, ro_includeNotArrived = False, ro_onlyEntryId = None,
     ro_onlyStaffId = None, ro_stopAfterFirst = False\<rparr>"

definition seat_as :: "ms \<Rightarrow> id \<Rightarrow> seater" where
  "seat_as now userId i staffId chairId s = assign now now s s userId i None staffId chairId (Some True)"

definition seat_as_system :: "ms \<Rightarrow> seater" where
  "seat_as_system now i staffId chairId s = assignAsSystem now now s s i None staffId chairId"

definition automatic_pass :: "orders \<Rightarrow> zone_db \<Rightarrow> ms \<Rightarrow> db \<Rightarrow> db \<Rightarrow> id \<Rightarrow> db \<times> (app_error + plan_outcome)" where
  "automatic_pass ord tz now pre s salonId =
     runForSalon ord tz now (default_options\<lparr>ro_requireEnabled := True\<rparr>) (seat_as_system now) pre s salonId"

definition assignAllWaiting :: "orders \<Rightarrow> zone_db \<Rightarrow> ms \<Rightarrow> db \<Rightarrow> db \<Rightarrow> id \<Rightarrow> id \<Rightarrow> db \<times> (app_error + plan_outcome)" where
  "assignAllWaiting ord tz now pre s userId salonId =
     (case assertAccessOrAdminAccess pre userId salonId of Inl err \<Rightarrow> (s, Inl err)
      | Inr _ \<Rightarrow> runForSalon ord tz now default_options (seat_as now userId) pre s salonId)"

text \<open>The texts of the reasons decide which error \<open>assignOne\<close> answers with.\<close>

fun text_includes :: "string \<Rightarrow> string \<Rightarrow> bool" where
  "text_includes [] needle = (needle = [])"
| "text_includes (c # cs) needle = (take (length needle) (c # cs) = needle \<or> text_includes cs needle)"

fun reason_text :: "(app_error \<Rightarrow> string) \<Rightarrow> skip_reason \<Rightarrow> string" where
  "reason_text msg ALL_CHAIRS_OCCUPIED = ''All chairs are occupied right now.''"
| "reason_text msg CHOOSE_A_SERVICE = ''Choose a service for this customer before they can be assigned.''"
| "reason_text msg REQUESTED_NOT_ON_DUTY = ''Their requested barber is not on duty.''"
| "reason_text msg (REQUESTED_NOT_FREE_OR_QUALIFIED n) =
     ''Waiting for '' @ n @ '', who is not free or not qualified for this service.''"
| "reason_text msg NOBODY_QUALIFIED_AND_FREE = ''No on-duty barber is qualified for this service and free right now.''"
| "reason_text msg (REQUESTED_BUSY n) = ''Waiting for '' @ n @ '', who is busy or booked for an appointment.''"
| "reason_text msg EVERYBODY_BUSY = ''Every qualified barber is busy or booked for an appointment.''"
| "reason_text msg (REFUSED err) = msg err"

definition assignOne :: "(app_error \<Rightarrow> string) \<Rightarrow> orders \<Rightarrow> zone_db \<Rightarrow> ms \<Rightarrow> db \<Rightarrow> db \<Rightarrow> id \<Rightarrow> id \<Rightarrow> db \<times> (app_error + id)" where
  "assignOne msg ord tz now pre s userId entryId =
     (case find_entry pre entryId of None \<Rightarrow> (s, Inl QUEUE_ENTRY_NOT_FOUND)
      | Some entry \<Rightarrow>
        (case assertAccessOrAdminAccess pre userId (qe_salon entry) of Inl err \<Rightarrow> (s, Inl err)
         | Inr _ \<Rightarrow>
           (case runForSalon ord tz now (default_options\<lparr>ro_onlyEntryId := Some entryId\<rparr>) (seat_as now userId) pre s
                   (qe_salon entry) of
              (t, Inl err) \<Rightarrow> (t, Inl err)
            | (t, Inr result) \<Rightarrow>
                if length (po_assignments result) = 1 then (t, Inr entryId)
                else let reason = (case find (\<lambda>n. nt_entry n = entryId) (po_skipped result) of
                              Some n \<Rightarrow> reason_text msg (nt_reason n)
                            | None \<Rightarrow> ''This customer cannot be assigned right now.'')
                     in (t, Inl (if text_includes reason ''chair'' then NO_FREE_CHAIR else NO_ELIGIBLE_BARBER)))))"

definition takeNext :: "orders \<Rightarrow> zone_db \<Rightarrow> ms \<Rightarrow> db \<Rightarrow> db \<Rightarrow> id \<Rightarrow> id \<Rightarrow> db \<times> (app_error + id)" where
  "takeNext ord tz now pre s userId salonId =
     (case assertAccessOrAdminAccess pre userId salonId of Inl err \<Rightarrow> (s, Inl err)
      | Inr _ \<Rightarrow>
        (case find (\<lambda>st. st_user st = userId \<and> st_salon st = salonId \<and> st_status st = STAFF_ACTIVE
                 \<and> st_accessRevokedAt st = None) (db_staff pre) of
           None \<Rightarrow> (s, Inl NOT_YOUR_STAFF_PROFILE)
         | Some me \<Rightarrow>
           if exists_where (\<lambda>x. ss_staff x = st_id me \<and> ss_status x = S_ACTIVE) (db_sessions pre)
              \<or> exists_where (\<lambda>e. qe_salon e = salonId \<and> qe_status e = Q_CALLED \<and> qe_staff e = Some (st_id me)) (db_entries pre)
           then (s, Inl STAFF_ALREADY_OCCUPIED)
           else (case runForSalon ord tz now (default_options\<lparr>ro_onlyStaffId := Some (st_id me), ro_stopAfterFirst := True\<rparr>)
                        (seat_as now userId) pre s salonId of
                   (t, Inl err) \<Rightarrow> (t, Inl err)
                 | (t, Inr result) \<Rightarrow>
                     (case po_assignments result of a # _ \<Rightarrow> (t, Inr (as_entry a)) | [] \<Rightarrow> (t, Inl NO_ELIGIBLE_BARBER)))))"

section \<open>The owner's switch\<close>

definition setAutomaticAssignment :: "db \<Rightarrow> db \<Rightarrow> id \<Rightarrow> id \<Rightarrow> bool \<Rightarrow> app_error + (db \<times> bool)" where
  "setAutomaticAssignment pre s userId salonId enabled =
     bindE (assertOwnerOrAdminAccess pre userId salonId) (\<lambda>actor.
     guardE (find_salon s salonId \<noteq> None) RECORD_NOT_FOUND
       (let s1 = s\<lparr>db_salons := upd_where (\<lambda>r. sa_id r = salonId) (\<lambda>r. r\<lparr>sa_queueAutoAssignEnabled := enabled\<rparr>) (db_salons s)\<rparr>
        in Inr (emit ([Audit (Some userId) (if enabled then ''QUEUE_AUTO_ASSIGN_ENABLED'' else ''QUEUE_AUTO_ASSIGN_DISABLED'') salonId,
                       QueueUpdated salonId] @ (if enabled then [AutoAssignTrigger salonId] else [])) s1, enabled)))"

definition getAutomaticAssignment :: "db \<Rightarrow> id \<Rightarrow> id \<Rightarrow> app_error + bool" where
  "getAutomaticAssignment s userId salonId =
     bindE (assertAccessOrAdminAccess s userId salonId) (\<lambda>_.
     theE (find_salon s salonId) SALON_ACCESS_DENIED (\<lambda>salon. Inr (sa_queueAutoAssignEnabled salon)))"

section \<open>Sorting by a comparison\<close>

lemma mset_insert_by [simp]: "mset (insert_by cmp x xs) = add_mset x (mset xs)"
  by (induction xs) auto

lemma mset_sort_by [simp]: "mset (sort_by cmp xs) = mset xs"
  by (induction xs) (simp_all add: sort_by_def)

lemma set_insert_by [simp]: "set (insert_by cmp x xs) = insert x (set xs)"
  by (metis mset_insert_by set_mset_add_mset_insert set_mset_mset)

lemma set_sort_by [simp]: "set (sort_by cmp xs) = set xs"
  by (metis mset_sort_by set_mset_mset)

text \<open>The contract of a comparison function: it decides a total preorder.\<close>

locale comparison =
  fixes cmp :: "'a \<Rightarrow> 'a \<Rightarrow> int"
    and le :: "'a \<Rightarrow> 'a \<Rightarrow> bool"
  assumes le_trans: "le x y \<Longrightarrow> le y z \<Longrightarrow> le x z"
    and cmp_le: "cmp x y \<le> 0 \<Longrightarrow> le x y"
    and cmp_gt: "0 < cmp x y \<Longrightarrow> le y x"
begin

lemma insert_by_sorted: "sorted_wrt le ys \<Longrightarrow> sorted_wrt le (insert_by cmp x ys)"
  by (induction ys) (auto intro: cmp_le cmp_gt le_trans)

lemma sort_by_sorted: "sorted_wrt le (sort_by cmp xs)"
  by (induction xs) (simp_all add: sort_by_def insert_by_sorted)

lemma found_is_least:
  assumes "find p (sort_by cmp xs) = Some x" "y \<in> set xs" "p y"
  shows "x = y \<or> le x y"
proof -
  have "find p l = Some x \<Longrightarrow> sorted_wrt le l \<Longrightarrow> y \<in> set l \<Longrightarrow> x = y \<or> le x y" for l
    using assms(3) by (induction l) (auto split: if_splits dest: find_SomeD)
  then show ?thesis using assms sort_by_sorted [of xs] by auto
qed

end

text \<open>Fewer services today first, then the longest idle.\<close>

definition served_less :: "planner_staff \<Rightarrow> planner_staff \<Rightarrow> bool" where
  "served_less a b \<longleftrightarrow> ps_completedToday a < ps_completedToday b \<or>
     (ps_completedToday a = ps_completedToday b \<and> nvl (ps_lastEndedAt a) 0 \<le> nvl (ps_lastEndedAt b) 0)"

interpretation fair: comparison "compare_staff input" served_less for input
  by unfold_locales (auto simp: served_less_def compare_staff_def or_compare_def split: if_splits)

section \<open>What the planner decides\<close>

definition eligible :: "plan_input \<Rightarrow> planner_entry \<Rightarrow> planner_staff \<Rightarrow> bool" where
  "eligible input e st \<longleftrightarrow> st \<in> set (pi_staff input) \<and> pe_serviceIds e \<noteq> [] \<and> qualified_for input e st \<and>
     pi_isStaffFree input (ps_id st) e \<and> (\<forall>p. pe_preferred e = Some p \<longrightarrow> ps_id st = p)"

lemma eligible_iff: "eligible input e st \<longleftrightarrow> st \<in> set (pi_staff input) \<and> pi_isStaffFree input (ps_id st) e \<and> pe_serviceIds e \<noteq> []
    \<and> set (pe_serviceIds e) \<subseteq> set (pi_unrestricted input) \<union> set (ps_qualified st) \<and> pe_preferred e \<in> {None, Some (ps_id st)}"
  by (cases "pe_preferred e") (auto simp: eligible_def qualified_for_def list_all_iff)

lemma requested_SomeD: "requested input e = Some st \<Longrightarrow> st \<in> set (pi_staff input) \<and> pe_preferred e = Some (ps_id st)"
  by (auto simp: requested_def split: option.splits dest!: find_SomeD)

lemma requested_unique:
  assumes "distinct (map ps_id (pi_staff input))" "st \<in> set (pi_staff input)" "pe_preferred e = Some (ps_id st)"
  shows "requested input e = Some st"
  using find_id_eq [of ps_id "rev (pi_staff input)" st] assms by (simp add: requested_def rev_map [symmetric])

definition pool :: "plan_input \<Rightarrow> planner_entry \<Rightarrow> planner_staff list" where
  "pool input e = (case requested input e of Some p \<Rightarrow> [p] | None \<Rightarrow> pi_staff input)"

lemma eligible_in_pool:
  assumes "distinct (map ps_id (pi_staff input))" "eligible input e st"
  shows "st \<in> set (pool input e)" "pe_preferred e \<noteq> None \<Longrightarrow> requested input e \<noteq> None"
proof -
  have "pe_preferred e = None \<Longrightarrow> requested input e = None" by (simp add: requested_def)
  moreover have "requested input e = Some st" if "pe_preferred e \<noteq> None"
    using that assms requested_unique [of input st e] by (auto simp: eligible_def)
  ultimately show "st \<in> set (pool input e)" "pe_preferred e \<noteq> None \<Longrightarrow> requested input e \<noteq> None"
    using assms(2) by (cases "pe_preferred e"; simp add: pool_def eligible_def)+
qed

lemma plan_entry_InrD:
  assumes "plan_entry input fc us e = Inr st"
  shows "fc \<noteq> []" "ps_id st \<notin> set us" "eligible input e st"
    "\<And>st'. eligible input e st' \<Longrightarrow> ps_id st' \<notin> set us \<Longrightarrow> distinct (map ps_id (pi_staff input)) \<Longrightarrow> st = st' \<or> served_less st st'"
proof -
  define qs where "qs = filter (\<lambda>st. ps_id st \<notin> set us \<and> qualified_for input e st) (pool input e)"
  have 1: "fc \<noteq> []" "pe_serviceIds e \<noteq> []" "\<not> (pe_preferred e \<noteq> None \<and> requested input e = None)"
    and f: "find (\<lambda>st. pi_isStaffFree input (ps_id st) e) (sort_by (compare_staff input) qs) = Some st"
    using assms by (auto simp: plan_entry_def Let_def qs_def pool_def split: if_splits option.splits)
  have st: "st \<in> set qs" "pi_isStaffFree input (ps_id st) e" using find_SomeD [OF f] by simp_all
  have pool: "x \<in> set (pi_staff input) \<and> (\<forall>p. pe_preferred e = Some p \<longrightarrow> ps_id x = p)" if "x \<in> set (pool input e)" for x
    using that 1(3) by (auto simp: pool_def split: option.splits dest: requested_SomeD)
  show "fc \<noteq> []" "ps_id st \<notin> set us" "eligible input e st"
    using st 1 pool [of st] by (simp_all add: qs_def eligible_def)
  show "st = st' \<or> served_less st st'"
    if "eligible input e st'" "ps_id st' \<notin> set us" "distinct (map ps_id (pi_staff input))" for st'
  proof (rule fair.found_is_least [OF f])
    show "st' \<in> set qs" using that eligible_in_pool [OF that(3,1)] by (simp add: qs_def eligible_def)
    show "pi_isStaffFree input (ps_id st') e" using that(1) by (simp add: eligible_def)
  qed
qed

lemma plan_entry_InlD:
  assumes "plan_entry input fc us e = Inl r" "distinct (map ps_id (pi_staff input))" "fc \<noteq> []" "eligible input e st"
  shows "ps_id st \<in> set us"
proof (rule ccontr)
  assume un: "ps_id st \<notin> set us"
  define qs where "qs = filter (\<lambda>st. ps_id st \<notin> set us \<and> qualified_for input e st) (pool input e)"
  note r = eligible_in_pool [OF assms(2,4)]
  then have q: "st \<in> set qs" using assms(4) un by (simp add: qs_def eligible_def)
  then have "find (\<lambda>st. pi_isStaffFree input (ps_id st) e) (sort_by (compare_staff input) qs) \<noteq> None"
    using assms(4) by (auto simp: find_None_iff eligible_def)
  then obtain y where f: "find (\<lambda>st. pi_isStaffFree input (ps_id st) e) (sort_by (compare_staff input) qs) = Some y" by blast
  have "qs \<noteq> []" "pe_serviceIds e \<noteq> []" "\<not> (pe_preferred e \<noteq> None \<and> requested input e = None)"
    using q assms(4) r(2) by (auto simp: eligible_def simp del: not_None_eq)
  then have "plan_entry input fc us e = Inr y"
    unfolding plan_entry_def Let_def pool_def [of input e, symmetric] qs_def [symmetric] f using assms(3) by simp
  then show False using assms(1) by simp
qed

lemma plan_loop_skip:
  assumes "plan_entry input fc us e = Inl r"
  shows "po_assignments (plan_loop input (e # es) fc us) = po_assignments (plan_loop input es fc us)"
    "po_skipped (plan_loop input (e # es) fc us) = \<lparr>nt_entry = pe_id e, nt_reason = r\<rparr> # po_skipped (plan_loop input es fc us)"
  by (simp_all add: assms Let_def)

lemma plan_loop_take:
  assumes "plan_entry input fc us e = Inr st"
  shows "po_assignments (plan_loop input (e # es) fc us) = \<lparr>as_entry = pe_id e, as_staff = ps_id st, as_chair = pc_id (hd fc)\<rparr>
      # po_assignments (plan_loop input es (tl fc) (ps_id st # us))"
    "po_skipped (plan_loop input (e # es) fc us) = po_skipped (plan_loop input es (tl fc) (ps_id st # us))"
  by (simp_all add: assms Let_def)

lemma plan_loop_split:
  assumes "po_assignments (plan_loop input es fc us) = as @ a # bs"
  shows "\<exists>e\<in>set es. \<exists>st. plan_entry input (drop (length as) fc) (rev (map as_staff as) @ us) e = Inr st
    \<and> as_entry a = pe_id e \<and> as_staff a = ps_id st \<and> length as < length fc \<and> as_chair a = pc_id (fc ! length as)"
  using assms
proof (induction es arbitrary: fc us as)
  case (Cons e es)
  show ?case
  proof (cases "plan_entry input fc us e")
    case (Inl r)
    then show ?thesis using Cons.IH [of fc us as] Cons.prems by (auto simp only: plan_loop_skip list.set)
  next
    case (Inr st)
    then obtain c fc' where fc: "fc = c # fc'" using plan_entry_InrD(1) [OF Inr] by (cases fc) auto
    show ?thesis
    proof (cases as)
      case Nil
      then show ?thesis using Inr Cons.prems fc by (auto simp only: plan_loop_take) auto
    next
      case (Cons b as')
      then have b: "b = \<lparr>as_entry = pe_id e, as_staff = ps_id st, as_chair = pc_id c\<rparr>"
        and rest: "po_assignments (plan_loop input es fc' (ps_id st # us)) = as' @ a # bs"
        using Inr Cons.prems fc by (auto simp only: plan_loop_take) auto
      show ?thesis using Cons.IH [OF rest] b fc Cons by auto
    qed
  qed
qed simp

lemma plan_loop_mset:
  "mset (map as_entry (po_assignments (plan_loop input es fc us)) @ map nt_entry (po_skipped (plan_loop input es fc us)))
     = mset (map pe_id es)"
proof (induction es arbitrary: fc us)
  case (Cons e es)
  then show ?case
    by (cases "plan_entry input fc us e") (simp_all only: plan_loop_skip plan_loop_take, simp_all)
qed simp

lemma plan_loop_staff:
  "distinct (map as_staff (po_assignments (plan_loop input es fc us))) \<and>
   set (map as_staff (po_assignments (plan_loop input es fc us))) \<inter> set us = {}"
proof (induction es arbitrary: fc us)
  case (Cons e es)
  show ?case
  proof (cases "plan_entry input fc us e")
    case (Inl r)
    then show ?thesis using Cons.IH [of fc us] by (simp only: plan_loop_skip)
  next
    case (Inr st)
    show ?thesis using Cons.IH [of "tl fc" "ps_id st # us"] plan_entry_InrD(2) [OF Inr]
      by (simp only: plan_loop_take [OF Inr]) auto
  qed
qed simp

lemma plan_loop_chairs:
  "map as_chair (po_assignments (plan_loop input es fc us)) = take (length (po_assignments (plan_loop input es fc us))) (map pc_id fc)"
proof (induction es arbitrary: fc us)
  case (Cons e es)
  show ?case
  proof (cases "plan_entry input fc us e")
    case (Inl r)
    then show ?thesis using Cons.IH [of fc us] by (simp only: plan_loop_skip)
  next
    case (Inr st)
    obtain c fc' where fc: "fc = c # fc'" using plan_entry_InrD(1) [OF Inr] by (cases fc) auto
    show ?thesis unfolding plan_loop_take(1) [OF Inr] using Cons.IH [of fc' "ps_id st # us"] by (simp add: fc)
  qed
qed simp

lemma plan_loop_waits:
  assumes "distinct (map ps_id (pi_staff input))" "distinct (map pe_id (xs @ e # ys))"
    and "pe_id e \<in> nt_entry ` set (po_skipped (plan_loop input (xs @ e # ys) fc us))"
    and "a \<in> set (po_assignments (plan_loop input (xs @ e # ys) fc us))" "as_entry a \<in> pe_id ` set ys"
    and "eligible input e st"
  shows "as_staff a \<noteq> ps_id st"
  using assms(2-5)
proof (induction xs arbitrary: fc us)
  case Nil
  have no: "pe_id e \<notin> nt_entry ` set (po_skipped (plan_loop input ys gc vs))" for gc vs
  proof -
    have "set (map nt_entry (po_skipped (plan_loop input ys gc vs))) \<subseteq> pe_id ` set ys"
      using arg_cong [OF plan_loop_mset [of input ys gc vs], of set_mset] by auto
    then show ?thesis using Nil(1) by auto
  qed
  show ?case
  proof (cases "plan_entry input fc us e")
    case (Inl r)
    have a: "a \<in> set (po_assignments (plan_loop input ys fc us))" using Nil(3) plan_loop_skip(1) [OF Inl] by simp
    then have "fc \<noteq> []" using plan_loop_chairs [of input ys fc us] by auto
    from plan_entry_InlD [OF Inl assms(1) this assms(6)] a plan_loop_staff [of input ys fc us]
    show ?thesis by auto
  next
    case (Inr st')
    then show ?thesis using Nil(2) no plan_loop_take(2) [OF Inr, of ys] by simp
  qed
next
  case (Cons x xs)
  have x: "pe_id x \<noteq> pe_id e" "pe_id x \<notin> pe_id ` set ys" "distinct (map pe_id (xs @ e # ys))" using Cons.prems(1) by auto
  show ?case
  proof (cases "plan_entry input fc us x")
    case (Inl r)
    show ?thesis
      by (rule Cons.IH [of fc us])
        (use Cons.prems x in \<open>auto simp: plan_loop_skip [OF Inl, of "xs @ e # ys"] simp del: plan_loop.simps\<close>)
  next
    case (Inr st')
    show ?thesis
      by (rule Cons.IH [of "tl fc" "ps_id st' # us"])
        (use Cons.prems x in \<open>auto simp: plan_loop_take [OF Inr, of "xs @ e # ys"] simp del: plan_loop.simps\<close>)
  qed
qed

text \<open>C24: the planner never promises the impossible. Every customer is either assigned or told why not, once
  each; no barber and no chair is promised twice, and the chairs are taken in order. A barber who is promised
  was asked for or nobody was, is qualified for every service of the customer and is free for all of it.\<close>

theorem plan_is_sound:
  "let plan = planAllocation input entries chairs in
      mset (map as_entry (po_assignments plan) @ map nt_entry (po_skipped plan)) = mset (map pe_id entries)
    \<and> distinct (map as_staff (po_assignments plan))
    \<and> map as_chair (po_assignments plan) = take (length (po_assignments plan)) (map pc_id chairs)
    \<and> list_all (\<lambda>a. \<exists>e\<in>set entries. \<exists>st\<in>set (pi_staff input). as_entry a = pe_id e \<and> as_staff a = ps_id st
          \<and> pi_isStaffFree input (ps_id st) e \<and> pe_serviceIds e \<noteq> []
          \<and> set (pe_serviceIds e) \<subseteq> set (pi_unrestricted input) \<union> set (ps_qualified st)
          \<and> pe_preferred e \<in> {None, Some (ps_id st)}) (po_assignments plan)"
proof -
  define plan where "plan = planAllocation input entries chairs"
  have "\<exists>e\<in>set entries. \<exists>st. eligible input e st \<and> as_entry a = pe_id e \<and> as_staff a = ps_id st"
    if a: "a \<in> set (po_assignments plan)" for a
  proof -
    from split_list [OF a] obtain xs ys where "po_assignments plan = xs @ a # ys" by blast
    from plan_loop_split [OF this [unfolded plan_def planAllocation_def]] show ?thesis
      by (blast intro: plan_entry_InrD(3))
  qed
  then have all: "list_all (\<lambda>a. \<exists>e\<in>set entries. \<exists>st\<in>set (pi_staff input). as_entry a = pe_id e \<and> as_staff a = ps_id st
          \<and> pi_isStaffFree input (ps_id st) e \<and> pe_serviceIds e \<noteq> []
          \<and> set (pe_serviceIds e) \<subseteq> set (pi_unrestricted input) \<union> set (ps_qualified st)
          \<and> pe_preferred e \<in> {None, Some (ps_id st)}) (po_assignments plan)"
    unfolding list_all_iff eligible_iff by blast
  show ?thesis
    using plan_loop_mset plan_loop_staff plan_loop_chairs all unfolding plan_def planAllocation_def Let_def by blast
qed

text \<open>C25: the planner is first come, first served. When a customer is left waiting and one who joined later is
  assigned, the barber the later one gets could not have served the first: not the one asked for, not
  qualified for all of the services, or not free.\<close>

theorem nobody_is_overtaken:
  assumes "distinct (map ps_id (pi_staff input))" "distinct (map pe_id (xs @ e # ys))"
    and "pe_id e \<in> nt_entry ` set (po_skipped (planAllocation input (xs @ e # ys) chairs))"
    and "a \<in> set (po_assignments (planAllocation input (xs @ e # ys) chairs))" "as_entry a \<in> pe_id ` set ys"
    and "st \<in> set (pi_staff input)" "as_staff a = ps_id st"
  shows "pe_serviceIds e = [] \<or> \<not> set (pe_serviceIds e) \<subseteq> set (pi_unrestricted input) \<union> set (ps_qualified st)
    \<or> \<not> pi_isStaffFree input (ps_id st) e \<or> pe_preferred e \<notin> {None, Some (ps_id st)}"
proof (rule ccontr)
  assume "\<not> ?thesis"
  then have "eligible input e st" using assms(6) by (simp add: eligible_iff)
  from plan_loop_waits [OF assms(1,2) _ _ assms(5) this] assms(3,4,7) show False
    by (auto simp: planAllocation_def)
qed

text \<open>Work is shared out fairly. The barber a customer gets is, among those who could serve and were not
  promised to somebody earlier in the pass, one who has done the fewest services today and, among these, one
  whose last service ended longest ago.\<close>

theorem least_busy_barber_first:
  assumes "distinct (map ps_id (pi_staff input))" "distinct (map pe_id entries)"
    and "po_assignments (planAllocation input entries chairs) = as @ a # bs"
    and "e \<in> set entries" "as_entry a = pe_id e" "st \<in> set (pi_staff input)" "as_staff a = ps_id st"
    and "other \<in> set (pi_staff input)" "ps_id other \<notin> set (map as_staff as)" "pi_isStaffFree input (ps_id other) e"
    and "set (pe_serviceIds e) \<subseteq> set (pi_unrestricted input) \<union> set (ps_qualified other)" "pe_preferred e = None"
  shows "ps_completedToday st < ps_completedToday other \<or> ps_completedToday st = ps_completedToday other
    \<and> nvl (ps_lastEndedAt st) 0 \<le> nvl (ps_lastEndedAt other) 0"
proof -
  obtain e' st' where "e' \<in> set entries" "as_entry a = pe_id e'" "as_staff a = ps_id st'"
    and r: "plan_entry input (drop (length as) chairs) (rev (map as_staff as) @ []) e' = Inr st'"
    using plan_loop_split [OF assms(3) [unfolded planAllocation_def]] by blast
  moreover from this have "e' = e" using distinct_key_eq [OF assms(2)] assms(4,5) by metis
  moreover have "st' = st"
    using distinct_key_eq [OF assms(1), of st' st] plan_entry_InrD(3) [OF r] assms(6,7) \<open>as_staff a = ps_id st'\<close>
    by (simp add: eligible_def)
  moreover have "eligible input e other"
    using plan_entry_InrD(3) [OF r] \<open>e' = e\<close> assms(8-12) by (simp add: eligible_iff)
  ultimately have "st = other \<or> served_less st other"
    using plan_entry_InrD(4) [OF r, of other] assms(1,9) by auto
  then show ?thesis by (auto simp: served_less_def)
qed

section \<open>A concrete plan\<close>

definition demo_planner :: plan_input where
  "demo_planner = \<lparr>pi_staff = [\<lparr>ps_id = 3, ps_displayName = ''Asha'', ps_qualified = [2], ps_completedToday = 2, ps_lastEndedAt = Some 50\<rparr>,
                               \<lparr>ps_id = 4, ps_displayName = ''Ravi'', ps_qualified = [2], ps_completedToday = 1, ps_lastEndedAt = Some 90\<rparr>],
     pi_unrestricted = [], pi_isStaffFree = (\<lambda>st e. st = 4 \<or> pe_id e \<noteq> 10), pi_localeCompare = (\<lambda>a b. 0),
     pi_idCompare = (\<lambda>a b. int a - int b)\<rparr>"

definition demo_asks :: "id \<Rightarrow> id option \<Rightarrow> planner_entry" where
  "demo_asks i p = \<lparr>pe_id = i, pe_serviceIds = [2], pe_duration = 30, pe_preferred = p, pe_booking = None\<rparr>"

definition demo_seats :: "planner_chair list" where
  "demo_seats = [\<lparr>pc_id = 5, pc_label = ''A''\<rparr>, \<lparr>pc_id = 6, pc_label = ''B''\<rparr>]"

lemmas demo_plan_defs = demo_planner_def demo_asks_def demo_seats_def planAllocation_def plan_entry_def requested_def qualified_for_def
  sort_by_def compare_staff_def or_compare_def Let_def

lemma demo_plan_waits:
  "planAllocation demo_planner [demo_asks 10 (Some 3), demo_asks 11 None] demo_seats
     = \<lparr>po_assignments = [\<lparr>as_entry = 11, as_staff = 4, as_chair = 5\<rparr>],
        po_skipped = [\<lparr>nt_entry = 10, nt_reason = REQUESTED_BUSY ''Asha''\<rparr>]\<rparr>"
  by (simp add: demo_plan_defs)

lemma nobody_is_overtaken_witness: "pi_isStaffFree demo_planner 4 (demo_asks 10 (Some 3)) \<and> pe_preferred (demo_asks 10 (Some 3)) \<notin> {None, Some 4}"
  using nobody_is_overtaken [of demo_planner "[]" "demo_asks 10 (Some 3)" "[demo_asks 11 None]" demo_seats
      "\<lparr>as_entry = 11, as_staff = 4, as_chair = 5\<rparr>" "pi_staff demo_planner ! 1"] demo_plan_waits
  by (simp add: demo_planner_def demo_asks_def)

lemma least_busy_barber_first_witness:
  "po_assignments (planAllocation demo_planner [demo_asks 11 None] demo_seats) = [\<lparr>as_entry = 11, as_staff = 4, as_chair = 5\<rparr>]
   \<and> ps_completedToday (pi_staff demo_planner ! 1) \<le> ps_completedToday (pi_staff demo_planner ! 0)"
proof -
  have p: "po_assignments (planAllocation demo_planner [demo_asks 11 None] demo_seats) = [] @ \<lparr>as_entry = 11, as_staff = 4, as_chair = 5\<rparr> # []"
    by (simp add: demo_plan_defs)
  from least_busy_barber_first [OF _ _ p, of "demo_asks 11 None" "pi_staff demo_planner ! 1" "pi_staff demo_planner ! 0"]
  show ?thesis using p by (simp add: demo_planner_def demo_asks_def)
qed

end
