(* ===== verification/Auto_Pass.thy ===== *)
theory Auto_Pass
  imports Auto_Assign Demo
begin

text \<open>
  What the allocator does to the floor. The pass is a client of the queue engine: it relies on one law of the
  operation that seats, that a success opens one active session for exactly the customer, barber and chair
  that were asked for and keeps the invariant of the floor. Both seaters of the code provide it.
\<close>

section \<open>The contract of a seater\<close>

definition opens :: "id \<Rightarrow> id \<Rightarrow> id \<Rightarrow> session \<Rightarrow> bool" where
  "opens e st ch x \<longleftrightarrow> ss_status x = S_ACTIVE \<and> ss_entry x = e \<and> ss_staff x = st \<and> ss_chair x = ch"

definition opened :: "assignment \<Rightarrow> db \<Rightarrow> bool" where
  "opened a s = exists_where (opens (as_entry a) (as_staff a) (as_chair a)) (db_sessions s)"

locale seater =
  fixes seat :: seater
    and inv :: "db \<Rightarrow> bool"
  assumes seat_inv: "seat e st ch s = Inr t \<Longrightarrow> inv s \<Longrightarrow> inv t"
    and seat_opens: "seat e st ch s = Inr t \<Longrightarrow> \<exists>x. db_sessions t = db_sessions s @ [x] \<and> opens e st ch x"
begin

lemma opened_mono: "seat e st ch s = Inr t \<Longrightarrow> opened a s \<Longrightarrow> opened a t"
  using seat_opens [of e st ch s t] by (auto simp: opened_def exists_where_iff)

lemma opened_new: "seat (as_entry a) (as_staff a) (as_chair a) s = Inr t \<Longrightarrow> opened a t"
  using seat_opens [of "as_entry a" "as_staff a" "as_chair a" s t] by (auto simp: opened_def exists_where_iff)

lemma seat_loop_opens:
  assumes "seat_loop seat stop ps result s = (t, r)" "inv s" "\<forall>a\<in>set (po_assignments result). opened a s"
  shows "inv t \<and> (\<forall>result'. r = Inr result' \<longrightarrow> (\<forall>a\<in>set (po_assignments result'). opened a t)
    \<and> set (po_assignments result') \<subseteq> set (po_assignments result) \<union> set ps)"
  using assms
proof (induction ps arbitrary: result s)
  case (Cons p ps)
  show ?case
  proof (cases "seat (as_entry p) (as_staff p) (as_chair p) s")
    case (Inl err)
    show ?thesis
    proof (cases "err \<in> set CONFLICT_CODES")
      case True
      then show ?thesis
        using Cons.IH [of "result\<lparr>po_skipped := po_skipped result @ [\<lparr>nt_entry = as_entry p, nt_reason = REFUSED err\<rparr>]\<rparr>" s]
          Cons.prems Inl by auto
    next
      case False
      then show ?thesis using Cons.prems Inl by auto
    qed
  next
    case (Inr u)
    let ?res = "result\<lparr>po_assignments := po_assignments result @ [p]\<rparr>"
    have u: "inv u" "\<forall>a\<in>set (po_assignments ?res). opened a u"
      using seat_inv [OF Inr] opened_mono [OF Inr] opened_new [OF Inr] Cons.prems by auto
    show ?thesis
    proof (cases stop)
      case True
      then show ?thesis using Cons.prems Inr u by auto
    next
      case False
      then have "seat_loop seat stop ps ?res u = (t, r)" using Cons.prems(1) Inr by simp
      from Cons.IH [OF this u] show ?thesis by auto
    qed
  qed
qed auto

text \<open>The pass: whatever it answers, the floor is sound; what it reports was planned and is under way.\<close>

lemma runForSalon_opens:
  assumes "runForSalon ord tz now opts seat pre s salonId = (t, r)" "inv s"
  shows "inv t" "r = Inr result \<Longrightarrow> a \<in> set (po_assignments result) \<Longrightarrow> opened a t"
    "r = Inr result \<Longrightarrow> a \<in> set (po_assignments result) \<Longrightarrow> a \<in> set (po_assignments (plan_for_salon ord tz now opts pre salonId))
       \<and> (ro_requireEnabled opts \<longrightarrow> (\<exists>salon. find_salon pre salonId = Some salon \<and> sa_queueAutoAssignEnabled salon))"
proof -
  have "inv t \<and> (\<forall>result a. r = Inr result \<longrightarrow> a \<in> set (po_assignments result) \<longrightarrow> opened a t
      \<and> a \<in> set (po_assignments (plan_for_salon ord tz now opts pre salonId))
      \<and> (ro_requireEnabled opts \<longrightarrow> (\<exists>salon. find_salon pre salonId = Some salon \<and> sa_queueAutoAssignEnabled salon)))"
  proof (cases "find_salon pre salonId")
    case None
    then show ?thesis using assms by (auto simp: runForSalon_def empty_result_def)
  next
    case (Some salon)
    show ?thesis
    proof (cases "(ro_requireEnabled opts \<and> \<not> sa_queueAutoAssignEnabled salon) \<or> to_plan opts pre salonId = []")
      case True
      then have "runForSalon ord tz now opts seat pre s salonId = (s, Inr empty_result)"
        by (simp add: runForSalon_def Some disj_imp)
      then show ?thesis using assms by (auto simp: empty_result_def)
    next
      case False
      let ?plan = "plan_for_salon ord tz now opts pre salonId"
      have "seat_loop seat (ro_stopAfterFirst opts) (po_assignments ?plan) \<lparr>po_assignments = [], po_skipped = po_skipped ?plan\<rparr> s = (t, r)"
        using assms(1) Some False by (auto simp: runForSalon_def Let_def split: if_splits)
      from seat_loop_opens [OF this assms(2)] show ?thesis using Some False by fastforce
    qed
  qed
  then show "inv t" "r = Inr result \<Longrightarrow> a \<in> set (po_assignments result) \<Longrightarrow> opened a t"
    "r = Inr result \<Longrightarrow> a \<in> set (po_assignments result) \<Longrightarrow> a \<in> set (po_assignments (plan_for_salon ord tz now opts pre salonId))
       \<and> (ro_requireEnabled opts \<longrightarrow> (\<exists>salon. find_salon pre salonId = Some salon \<and> sa_queueAutoAssignEnabled salon))"
    by blast+
qed

end

section \<open>Both seaters keep it\<close>

lemma assignLoaded_opens:
  assumes "assignLoaded now clk pre s entry sv st ch who True = Inr t"
  shows "\<exists>x. db_sessions t = db_sessions s @ [x] \<and> opens (qe_id entry) st ch x"
proof -
  obtain serviceId d s1 where tx: "assign_tx now clk entry st ch serviceId d True s = Inr s1" and t: "db_sessions t = db_sessions s1"
    using assignLoadedD [OF assms] by metis
  from assign_txD(7) [OF tx] show ?thesis
    by (auto simp: createActiveSession_def success_simps upd_entries_def t opens_def)
qed

lemma getEntryOrThrow_id: "getEntryOrThrow s i = Inr e \<Longrightarrow> qe_id e = i"
  by (auto simp: getEntryOrThrow_def success_simps dest: find_rowD)

interpretation by_staff: seater "seat_as now userId" seat_inv for now userId
proof
  fix e st ch s t assume "seat_as now userId e st ch s = Inr t"
  then show "seat_inv s \<Longrightarrow> seat_inv t" "\<exists>x. db_sessions t = db_sessions s @ [x] \<and> opens e st ch x"
    using assign_safe [of now now s s userId e None st ch "Some True" t]
    by (auto simp: seat_as_def safe_step_def assign_def success_simps dest!: assignLoaded_opens getEntryOrThrow_id)
qed

interpretation by_system: seater "seat_as_system now" seat_inv for now
proof
  fix e st ch s t assume "seat_as_system now e st ch s = Inr t"
  then show "seat_inv s \<Longrightarrow> seat_inv t" "\<exists>x. db_sessions t = db_sessions s @ [x] \<and> opens e st ch x"
    using assignAsSystem_safe [of now now s s e None st ch t]
    by (auto simp: seat_as_system_def safe_step_def assignAsSystem_def success_simps dest!: assignLoaded_opens getEntryOrThrow_id)
qed

section \<open>What the pass reads\<close>

lemma plan_for_salon_sound:
  assumes "a \<in> set (po_assignments (plan_for_salon ord tz now opts s salonId))"
  shows "\<exists>e\<in>set (db_entries s). qe_id e = as_entry a \<and> qe_salon e = salonId \<and> entry_in [Q_WAITING, Q_CALLED] e \<and> qe_staff e = None
      \<and> (ro_includeNotArrived opts \<or> qe_arrivedAt e \<noteq> None) \<and> matches (ro_onlyEntryId opts) (qe_id e)"
    and "\<exists>st\<in>set (db_staff s). st_id st = as_staff a \<and> st_salon st = salonId \<and> st_status st = STAFF_ACTIVE
      \<and> st_accessRevokedAt st = None \<and> matches (ro_onlyStaffId opts) (st_id st) \<and> st_id st \<notin> set (busy_staff s salonId)"
    and "as_chair a \<notin> set (busy_chairs s salonId)"
proof -
  obtain as bs where "po_assignments (plan_for_salon ord tz now opts s salonId) = as @ a # bs"
    using split_list [OF assms] by blast
  from plan_loop_split [OF this [unfolded plan_for_salon_def planAllocation_def Let_def]]
  obtain e st fc us input where e: "e \<in> to_planner_entry s ` set (to_plan opts s salonId)" "as_entry a = pe_id e"
    and st: "as_staff a = ps_id st" "plan_entry input fc us e = Inr st" "pi_staff input = free_staff tz now opts s salonId"
    and ch: "as_chair a \<in> pc_id ` set (free_chairs (by_label ord) s salonId)"
    by fastforce
  show "as_chair a \<notin> set (busy_chairs s salonId)" using ch by (auto simp: free_chairs_def)
  have el: "st \<in> set (free_staff tz now opts s salonId)"
    using plan_entry_InrD(3) [OF st(2)] st(3) by (simp add: eligible_def)
  show "\<exists>e\<in>set (db_entries s). qe_id e = as_entry a \<and> qe_salon e = salonId \<and> entry_in [Q_WAITING, Q_CALLED] e \<and> qe_staff e = None
      \<and> (ro_includeNotArrived opts \<or> qe_arrivedAt e \<noteq> None) \<and> matches (ro_onlyEntryId opts) (qe_id e)"
    using e by (auto simp: to_plan_def to_planner_entry_def Let_def)
  show "\<exists>st\<in>set (db_staff s). st_id st = as_staff a \<and> st_salon st = salonId \<and> st_status st = STAFF_ACTIVE
      \<and> st_accessRevokedAt st = None \<and> matches (ro_onlyStaffId opts) (st_id st) \<and> st_id st \<notin> set (busy_staff s salonId)"
    using el st(1) by (auto simp: free_staff_def Let_def)
qed

lemma opened_in_service:
  assumes "opened a t" "seat_inv t"
  shows "exists_where (\<lambda>e. qe_id e = as_entry a \<and> qe_status e = Q_IN_SERVICE \<and> qe_staff e = Some (as_staff a)
    \<and> qe_chair e = Some (as_chair a)) (db_entries t)"
proof -
  obtain x where x: "x \<in> set (db_sessions t)" "opens (as_entry a) (as_staff a) (as_chair a) x"
    using assms(1) by (auto simp: opened_def exists_where_iff)
  with assms(2) obtain e where "e \<in> set (db_entries t)" "seated_at e x"
    by (auto simp: seat_inv_def seat_ok_def linked_def active_def opens_def)
  then show ?thesis using x by (auto simp: exists_where_iff seated_at_def opens_def)
qed

text \<open>What it means that a barber and a chair are not busy when the pass reads the shop.\<close>

lemma not_busy:
  assumes "st \<notin> set (busy_staff s salonId)" "ch \<notin> set (busy_chairs s salonId)"
  shows "\<not> exists_where (\<lambda>x. (ss_staff x = st \<or> ss_chair x = ch) \<and> ss_status x = S_ACTIVE \<and> session_in_salon s salonId x) (db_sessions s)"
    and "\<not> exists_where (\<lambda>e. qe_salon e = salonId \<and> qe_status e = Q_CALLED
           \<and> (qe_staff e = Some st \<or> qe_staff e \<noteq> None \<and> qe_chair e = Some ch)) (db_entries s)"
    and "\<not> exists_where (\<lambda>m. mo_chair m = ch \<and> mo_salon m = salonId \<and> mo_endedAt m = None) (db_manual s)"
proof -
  have live: "ss_staff x \<in> set (busy_staff s salonId) \<and> ss_chair x \<in> set (busy_chairs s salonId)"
    if "x \<in> set (db_sessions s)" "ss_status x = S_ACTIVE" "session_in_salon s salonId x" for x
    using that by (simp add: busy_staff_def busy_chairs_def liveSessions_def)
  show "\<not> exists_where (\<lambda>x. (ss_staff x = st \<or> ss_chair x = ch) \<and> ss_status x = S_ACTIVE \<and> session_in_salon s salonId x) (db_sessions s)"
    using assms live by (auto simp: exists_where_iff)
  have held: "the (qe_staff e) \<in> set (busy_staff s salonId) \<and> (qe_chair e \<noteq> None \<longrightarrow> the (qe_chair e) \<in> set (busy_chairs s salonId))"
    if "e \<in> set (db_entries s)" "qe_salon e = salonId" "qe_status e = Q_CALLED" "qe_staff e \<noteq> None" for e
    using that by (simp add: busy_staff_def busy_chairs_def assignedHolds_def)
  show "\<not> exists_where (\<lambda>e. qe_salon e = salonId \<and> qe_status e = Q_CALLED
           \<and> (qe_staff e = Some st \<or> qe_staff e \<noteq> None \<and> qe_chair e = Some ch)) (db_entries s)"
    unfolding exists_where_iff
  proof (rule notI, elim bexE conjE)
    fix e assume e: "e \<in> set (db_entries s)" "qe_salon e = salonId" "qe_status e = Q_CALLED"
      and h: "qe_staff e = Some st \<or> qe_staff e \<noteq> None \<and> qe_chair e = Some ch"
    then have "qe_staff e \<noteq> None" by auto
    from held [OF e this] h assms show False by auto
  qed
  have "mo_chair m \<in> set (busy_chairs s salonId)" if "m \<in> set (db_manual s)" "mo_salon m = salonId" "mo_endedAt m = None" for m
    using that by (simp add: busy_chairs_def)
  then show "\<not> exists_where (\<lambda>m. mo_chair m = ch \<and> mo_salon m = salonId \<and> mo_endedAt m = None) (db_manual s)"
    using assms(2) by (auto simp: exists_where_iff)
qed

section \<open>Its entry points\<close>

text \<open>C26: the automatic pass starts services, never promises. What it reports as assigned is, when it
  ends, in service: the customer had arrived and was waiting without a barber, the barber was on duty,
  neither the barber nor the chair was serving or held for anybody when the pass read the shop, nor was the
  chair marked as occupied, and an active session joins the customer, the barber and the chair; the pass only
  runs where the shop has it switched on. Even a pass that is cut short by an error leaves the floor sound.\<close>

theorem automatic_pass_starts_services:
  assumes "automatic_pass ord tz now pre s salonId = (t, r)" "seat_inv s"
  shows "seat_inv t \<and> (\<forall>result. r = Inr result \<longrightarrow> list_all (\<lambda>a.
      exists_where (\<lambda>x. ss_status x = S_ACTIVE \<and> ss_entry x = as_entry a \<and> ss_staff x = as_staff a \<and> ss_chair x = as_chair a) (db_sessions t)
    \<and> exists_where (\<lambda>e. qe_id e = as_entry a \<and> qe_status e = Q_IN_SERVICE \<and> qe_staff e = Some (as_staff a) \<and> qe_chair e = Some (as_chair a)) (db_entries t)
    \<and> exists_where (\<lambda>e. qe_id e = as_entry a \<and> qe_salon e = salonId \<and> qe_status e \<in> {Q_WAITING, Q_CALLED} \<and> qe_staff e = None \<and> qe_arrivedAt e \<noteq> None) (db_entries pre)
    \<and> exists_where (\<lambda>st. st_id st = as_staff a \<and> st_salon st = salonId \<and> st_status st = STAFF_ACTIVE) (db_staff pre)
    \<and> \<not> exists_where (\<lambda>x. (ss_staff x = as_staff a \<or> ss_chair x = as_chair a) \<and> ss_status x = S_ACTIVE \<and> session_in_salon pre salonId x)
          (db_sessions pre)
    \<and> \<not> exists_where (\<lambda>e. qe_salon e = salonId \<and> qe_status e = Q_CALLED
          \<and> (qe_staff e = Some (as_staff a) \<or> qe_staff e \<noteq> None \<and> qe_chair e = Some (as_chair a))) (db_entries pre)
    \<and> \<not> exists_where (\<lambda>m. mo_chair m = as_chair a \<and> mo_salon m = salonId \<and> mo_endedAt m = None) (db_manual pre)
    \<and> map_option sa_queueAutoAssignEnabled (find_salon pre salonId) = Some True) (po_assignments result))"
    (is "_ \<and> (\<forall>result. _ \<longrightarrow> list_all ?P _)")
proof (intro conjI allI impI)
  note run = by_system.runForSalon_opens [OF assms(1) [unfolded automatic_pass_def] assms(2)]
  show t: "seat_inv t" by (rule run(1))
  fix result assume r: "r = Inr result"
  have "?P a" if a: "a \<in> set (po_assignments result)" for a
  proof -
    note o = run(2) [OF r a] and p = run(3) [OF r a]
    note pl = plan_for_salon_sound [OF conjunct1 [OF p]]
    obtain st where st: "st \<in> set (db_staff pre)" "st_id st = as_staff a" "st_salon st = salonId" "st_status st = STAFF_ACTIVE"
        "as_staff a \<notin> set (busy_staff pre salonId)" using pl(2) by auto
    have "exists_where (\<lambda>e. qe_id e = as_entry a \<and> qe_salon e = salonId \<and> qe_status e \<in> {Q_WAITING, Q_CALLED} \<and> qe_staff e = None
        \<and> qe_arrivedAt e \<noteq> None) (db_entries pre)"
      using pl(1) by (auto simp: exists_where_iff entry_in_def default_options_def)
    moreover have "exists_where (\<lambda>x. ss_status x = S_ACTIVE \<and> ss_entry x = as_entry a \<and> ss_staff x = as_staff a \<and> ss_chair x = as_chair a)
        (db_sessions t)"
      using o by (simp add: opened_def opens_def [abs_def])
    moreover have "exists_where (\<lambda>st. st_id st = as_staff a \<and> st_salon st = salonId \<and> st_status st = STAFF_ACTIVE) (db_staff pre)"
      using st by (auto simp: exists_where_iff)
    moreover have "map_option sa_queueAutoAssignEnabled (find_salon pre salonId) = Some True"
      using p by (auto simp: default_options_def)
    ultimately show ?thesis using opened_in_service [OF o t] not_busy [OF st(5) pl(3)] by blast
  qed
  then show "list_all ?P (po_assignments result)" by (simp add: list_all_iff)
qed

text \<open>"Take next customer" serves the barber who asked. When it succeeds, the caller is a barber on duty
  of this shop who was neither serving nor holding anybody, and the customer returned, who had arrived and
  was waiting, is now in that barber's service.\<close>

theorem take_next_serves_the_caller:
  assumes "takeNext ord tz now pre s userId salonId = (t, Inr entryId)" "seat_inv s"
  shows "seat_inv t \<and> exists_where (\<lambda>me. st_user me = userId \<and> st_salon me = salonId \<and> st_status me = STAFF_ACTIVE
      \<and> \<not> exists_where (\<lambda>x. ss_staff x = st_id me \<and> ss_status x = S_ACTIVE) (db_sessions pre)
      \<and> exists_where (\<lambda>x. ss_status x = S_ACTIVE \<and> ss_entry x = entryId \<and> ss_staff x = st_id me) (db_sessions t)
      \<and> exists_where (\<lambda>e. qe_id e = entryId \<and> qe_status e = Q_IN_SERVICE \<and> qe_staff e = Some (st_id me)) (db_entries t)) (db_staff pre)
    \<and> exists_where (\<lambda>e. qe_id e = entryId \<and> qe_salon e = salonId \<and> qe_staff e = None \<and> qe_arrivedAt e \<noteq> None) (db_entries pre)"
proof -
  obtain me result a as where me: "find (\<lambda>st. st_user st = userId \<and> st_salon st = salonId \<and> st_status st = STAFF_ACTIVE
                 \<and> st_accessRevokedAt st = None) (db_staff pre) = Some me"
      and idle: "\<not> exists_where (\<lambda>x. ss_staff x = st_id me \<and> ss_status x = S_ACTIVE) (db_sessions pre)"
      and r: "runForSalon ord tz now (default_options\<lparr>ro_onlyStaffId := Some (st_id me), ro_stopAfterFirst := True\<rparr>)
                        (seat_as now userId) pre s salonId = (t, Inr result)"
      and a: "po_assignments result = a # as" "entryId = as_entry a"
    using assms(1) by (auto simp: takeNext_def split: sum.splits option.splits if_splits prod.splits list.splits)
  have mem: "a \<in> set (po_assignments result)" by (simp add: a)
  note run = by_staff.runForSalon_opens [OF r assms(2)]
  note o = run(2) [OF refl mem] and p = run(3) [OF refl mem]
  note pl = plan_for_salon_sound [OF conjunct1 [OF p]]
  have st: "as_staff a = st_id me" using pl(2) by (auto simp: matches_def default_options_def)
  show ?thesis
    using run(1) idle o opened_in_service [OF o run(1)] pl(1) find_SomeD [OF me] st a(2)
    by (auto simp: exists_where_iff opened_def opens_def default_options_def)
qed

section \<open>A concrete pass\<close>

definition demo_waiting :: db where
  "demo_waiting = demo_db\<lparr>db_entries := [demo_entry 10 Q_WAITING None None 1],
     db_roles := [\<lparr>ur_user = 103, ur_role = SALON_STAFF, ur_salon = Some 1\<rparr>]\<rparr>"

definition demo_orders :: orders where
  "demo_orders = \<lparr>by_label = (\<lambda>cs. cs), compare_names = (\<lambda>a b. 0), compare_ids = (\<lambda>a b. int a - int b)\<rparr>"

lemma demo_waiting_seats: "seat_inv demo_waiting"
  by (simp add: seat_inv_def seat_ok_def rows_ok_def sessions_ok_def holds_ok_def linked_def uniq_on_def entry_wf_def holds_staff_def holds_chair_def
      demo_waiting_def demo_defs)

lemma demo_pass:
  "case automatic_pass demo_orders ist 1792392000000 demo_waiting demo_waiting 1 of
     (t, Inr r) \<Rightarrow> po_assignments r = [\<lparr>as_entry = 10, as_staff = 3, as_chair = 5\<rparr>] | _ \<Rightarrow> False"
  by code_simp

lemma demo_take:
  "case takeNext demo_orders ist 1792392000000 demo_waiting demo_waiting 103 1 of (t, Inr e) \<Rightarrow> e = 10 | _ \<Rightarrow> False"
  by code_simp

lemma automatic_pass_starts_services_witness:
  "\<exists>t r. automatic_pass demo_orders ist 1792392000000 demo_waiting demo_waiting 1 = (t, Inr r) \<and> po_assignments r \<noteq> []
     \<and> exists_where (\<lambda>e. qe_id e = 10 \<and> qe_status e = Q_IN_SERVICE \<and> qe_staff e = Some 3 \<and> qe_chair e = Some 5) (db_entries t)"
proof -
  obtain t r where r: "automatic_pass demo_orders ist 1792392000000 demo_waiting demo_waiting 1 = (t, Inr r)"
      "po_assignments r = [\<lparr>as_entry = 10, as_staff = 3, as_chair = 5\<rparr>]"
    using demo_pass by (auto split: prod.splits sum.splits)
  with automatic_pass_starts_services [OF r(1) demo_waiting_seats] show ?thesis by auto
qed

lemma take_next_serves_the_caller_witness:
  "\<exists>t. takeNext demo_orders ist 1792392000000 demo_waiting demo_waiting 103 1 = (t, Inr 10) \<and> seat_inv t
     \<and> exists_where (\<lambda>me. exists_where (\<lambda>x. ss_status x = S_ACTIVE \<and> ss_entry x = 10 \<and> ss_staff x = st_id me) (db_sessions t))
         (db_staff demo_waiting)"
proof -
  obtain t where r: "takeNext demo_orders ist 1792392000000 demo_waiting demo_waiting 103 1 = (t, Inr 10)"
    using demo_take by (auto split: prod.splits sum.splits)
  with take_next_serves_the_caller [OF r demo_waiting_seats] show ?thesis by (auto simp: exists_where_iff)
qed

end
