(* ===== verification/Scheduling.thy ===== *)
theory Scheduling
  imports Prelude
begin

text \<open>
  When the jobs of the backend run. \<open>QueueAutoAssignTrigger\<close> (\<^verbatim>\<open>queue/queue-auto-assign.trigger.ts\<close>) coalesces
  the requests for an allocation pass; \<open>DbDeadlineSchedulerService\<close>
  (\<^verbatim>\<open>common/db-deadline-scheduler/db-deadline-scheduler.service.ts\<close>) keeps one timer per deadline job. Both run
  on one JavaScript thread: a step of the model is the code between two \<open>await\<close>s, and which step comes next is
  up to the environment (timers, answers of the database, requests).
\<close>

section \<open>The trigger of the allocator\<close>

record trigger_state =
  tg_registered :: bool
  tg_inFlight :: "id \<rightharpoonup> bool"  \<comment> \<open>per salon with a pass under way: the flag \<open>again\<close>\<close>

datatype trigger_event = Trigger id | Pass_settles id
datatype pass_action = Pass_starts id | Pass_ends id

definition tg_initial :: trigger_state where
  "tg_initial = \<lparr>tg_registered = False, tg_inFlight = Map.empty\<rparr>"

definition tg_register :: "trigger_state \<Rightarrow> trigger_state" where
  "tg_register st = st\<lparr>tg_registered := True\<rparr>"

definition tg_trigger :: "id \<Rightarrow> trigger_state \<Rightarrow> trigger_state \<times> pass_action list" where
  "tg_trigger salonId st =
     (if \<not> tg_registered st then (st, [])
      else case tg_inFlight st salonId of
          Some _ \<Rightarrow> (st\<lparr>tg_inFlight := (tg_inFlight st)(salonId \<mapsto> True)\<rparr>, [])
        | None \<Rightarrow> (st\<lparr>tg_inFlight := (tg_inFlight st)(salonId \<mapsto> False)\<rparr>, [Pass_starts salonId]))"

text \<open>The handler's promise settles, fulfilled or rejected: the loop goes round once more or ends.\<close>

definition tg_settles :: "id \<Rightarrow> trigger_state \<Rightarrow> trigger_state \<times> pass_action list" where
  "tg_settles salonId st =
     (case tg_inFlight st salonId of
        None \<Rightarrow> (st, [])
      | Some True \<Rightarrow> (st\<lparr>tg_inFlight := (tg_inFlight st)(salonId \<mapsto> False)\<rparr>, [Pass_ends salonId, Pass_starts salonId])
      | Some False \<Rightarrow> (st\<lparr>tg_inFlight := (tg_inFlight st)(salonId := None)\<rparr>, [Pass_ends salonId]))"

fun tg_step :: "trigger_event \<Rightarrow> trigger_state \<Rightarrow> trigger_state \<times> pass_action list" where
  "tg_step (Trigger salonId) st = tg_trigger salonId st"
| "tg_step (Pass_settles salonId) st = tg_settles salonId st"

fun tg_run :: "trigger_event list \<Rightarrow> trigger_state \<Rightarrow> trigger_state \<times> pass_action list" where
  "tg_run [] st = (st, [])"
| "tg_run (ev # evs) st = (let (st1, acts) = tg_step ev st; (st2, rest) = tg_run evs st1 in (st2, acts @ rest))"

text \<open>The starts and ends of one salon's passes take turns.\<close>

fun takes_turns :: "id \<Rightarrow> bool \<Rightarrow> pass_action list \<Rightarrow> bool" where
  "takes_turns salonId under_way [] = True"
| "takes_turns salonId under_way (Pass_starts i # acts) =
     (if i = salonId then \<not> under_way \<and> takes_turns salonId True acts else takes_turns salonId under_way acts)"
| "takes_turns salonId under_way (Pass_ends i # acts) =
     (if i = salonId then under_way \<and> takes_turns salonId False acts else takes_turns salonId under_way acts)"

fun under_way_after :: "id \<Rightarrow> bool \<Rightarrow> pass_action list \<Rightarrow> bool" where
  "under_way_after salonId under_way [] = under_way"
| "under_way_after salonId under_way (Pass_starts i # acts) = under_way_after salonId (i = salonId \<or> under_way) acts"
| "under_way_after salonId under_way (Pass_ends i # acts) = under_way_after salonId (i \<noteq> salonId \<and> under_way) acts"

lemma takes_turns_append:
  "takes_turns i u (xs @ ys) \<longleftrightarrow> takes_turns i u xs \<and> takes_turns i (under_way_after i u xs) ys"
  by (induction i u xs rule: takes_turns.induct) auto

lemma tg_step_turns:
  assumes "tg_step ev st = (st', acts)"
  shows "takes_turns i (tg_inFlight st i \<noteq> None) acts \<and> under_way_after i (tg_inFlight st i \<noteq> None) acts = (tg_inFlight st' i \<noteq> None)"
  using assms by (cases ev) (auto simp: tg_trigger_def tg_settles_def split: if_splits option.splits bool.splits)

lemma tg_run_turns: "tg_run evs st = (st', acts) \<Longrightarrow> takes_turns i (tg_inFlight st i \<noteq> None) acts"
proof (induction evs arbitrary: st st' acts)
  case (Cons ev evs)
  obtain st1 a b where s: "tg_step ev st = (st1, a)" "tg_run evs st1 = (st', b)" "acts = a @ b"
    using Cons.prems by (auto simp: Let_def split: prod.splits)
  then show ?case using Cons.IH [OF s(2)] tg_step_turns [OF s(1), of i] by (auto simp: takes_turns_append)
qed simp

lemma tg_step_registered: "tg_step ev st = (st', acts) \<Longrightarrow> tg_registered st' = tg_registered st"
  by (cases ev) (auto simp: tg_trigger_def tg_settles_def split: if_splits option.splits bool.splits)

lemma tg_run_drains:
  "tg_run evs st = (st', acts) \<Longrightarrow> tg_inFlight st i = Some True \<Longrightarrow> tg_inFlight st' i = None \<Longrightarrow> Pass_starts i \<in> set acts"
proof (induction evs arbitrary: st acts)
  case (Cons ev evs)
  obtain st1 a b where s: "tg_step ev st = (st1, a)" "tg_run evs st1 = (st', b)" "acts = a @ b"
    using Cons.prems by (auto simp: Let_def split: prod.splits)
  have "tg_inFlight st1 i = Some True \<or> Pass_starts i \<in> set a"
    using s(1) Cons.prems(2)
    by (cases ev) (auto simp: tg_trigger_def tg_settles_def split: if_splits option.splits bool.splits)
  then show ?case using Cons.IH [OF s(2)] s(3) Cons.prems(3) by auto
qed simp

text \<open>C35: requests for an allocation pass coalesce and none is lost. Whatever the interleaving, the passes of one salon
  never overlap; and once a salon is idle again after a request, a pass has started no earlier than the request.\<close>

theorem no_trigger_is_lost:
  assumes "tg_registered st" "tg_run evs st = (st1, acts1)" "tg_run (Trigger salonId # later) st1 = (st2, acts2)"
  shows "takes_turns salonId (tg_inFlight st salonId \<noteq> None) (acts1 @ acts2)
    \<and> (tg_inFlight st2 salonId = None \<longrightarrow> Pass_starts salonId \<in> set acts2)"
proof
  have app: "tg_run (xs @ ys) s = (let (s1, a) = tg_run xs s; (s2, b) = tg_run ys s1 in (s2, a @ b))" for xs ys s
    by (induction xs arbitrary: s) (auto simp: Let_def split: prod.splits)
  have "tg_run (evs @ Trigger salonId # later) st = (st2, acts1 @ acts2)" using assms(2,3) by (simp only: app) simp
  then show "takes_turns salonId (tg_inFlight st salonId \<noteq> None) (acts1 @ acts2)" by (rule tg_run_turns)
  have reg: "tg_registered st1"
    using assms(1,2)
  proof (induction evs arbitrary: st acts1)
    case (Cons ev evs)
    then show ?case by (auto simp: Let_def dest: tg_step_registered split: prod.splits)
  qed simp
  obtain s a b where s: "tg_trigger salonId st1 = (s, a)" "tg_run later s = (st2, b)" "acts2 = a @ b"
    using assms(3) by (auto simp: Let_def split: prod.splits)
  show "tg_inFlight st2 salonId = None \<longrightarrow> Pass_starts salonId \<in> set acts2"
  proof
    assume idle: "tg_inFlight st2 salonId = None"
    show "Pass_starts salonId \<in> set acts2"
    proof (cases "tg_inFlight st1 salonId")
      case None
      then show ?thesis using s reg by (auto simp: tg_trigger_def)
    next
      case (Some again)
      then have "tg_inFlight s salonId = Some True" using s(1) reg by (auto simp: tg_trigger_def)
      from tg_run_drains [OF s(2) this idle] s(3) show ?thesis by simp
    qed
  qed
qed

text \<open>A burst costs one pass. However many requests arrive while a pass is under way, exactly one more pass
  follows it, and the salon is idle after that.\<close>

theorem burst_costs_one_pass:
  assumes "tg_registered st" "tg_inFlight st salonId = Some again" "0 < n"
  shows "snd (tg_run (replicate n (Trigger salonId) @ [Pass_settles salonId, Pass_settles salonId]) st)
      = [Pass_ends salonId, Pass_starts salonId, Pass_ends salonId]
    \<and> tg_inFlight (fst (tg_run (replicate n (Trigger salonId) @ [Pass_settles salonId, Pass_settles salonId]) st)) salonId = None"
  using assms
proof (induction n arbitrary: st again)
  case (Suc n)
  let ?st = "st\<lparr>tg_inFlight := (tg_inFlight st)(salonId \<mapsto> True)\<rparr>"
  have step: "tg_trigger salonId st = (?st, [])" using Suc.prems by (simp add: tg_trigger_def)
  show ?case
  proof (cases n)
    case 0
    then show ?thesis by (simp add: step Let_def tg_settles_def)
  next
    case (Suc m)
    then show ?thesis using Suc.IH [of ?st True] Suc.prems by (simp add: step Let_def split_beta)
  qed
qed simp

lemma no_trigger_is_lost_witness:
  "Pass_starts 1 \<in> set (snd (tg_run [Trigger 1, Pass_settles 1, Pass_settles 1] (fst (tg_run [Trigger 1] (tg_register tg_initial)))))"
  using no_trigger_is_lost [of "tg_register tg_initial" "[Trigger 1]" "fst (tg_run [Trigger 1] (tg_register tg_initial))"
      "snd (tg_run [Trigger 1] (tg_register tg_initial))" 1 "[Pass_settles 1, Pass_settles 1]"
      "fst (tg_run [Trigger 1, Pass_settles 1, Pass_settles 1] (fst (tg_run [Trigger 1] (tg_register tg_initial))))"
      "snd (tg_run [Trigger 1, Pass_settles 1, Pass_settles 1] (fst (tg_run [Trigger 1] (tg_register tg_initial))))"]
  by (simp add: tg_register_def tg_initial_def tg_trigger_def tg_settles_def Let_def)

lemma burst_costs_one_pass_witness:
  "snd (tg_run (replicate 3 (Trigger 1) @ [Pass_settles 1, Pass_settles 1]) \<lparr>tg_registered = True, tg_inFlight = [1 \<mapsto> False]\<rparr>)
     = [Pass_ends 1, Pass_starts 1, Pass_ends 1]"
  using burst_costs_one_pass [of "\<lparr>tg_registered = True, tg_inFlight = [1 \<mapsto> False]\<rparr>" 1 False 3] by simp

section \<open>The deadline scheduler\<close>

text \<open>
  A \<open>JobState\<close> is an object that closures keep a reference to, whether its job is still registered or not: the
  objects are a list, the map of registered jobs points into it.
\<close>

datatype domain = Booking_jobs | Queue_jobs | Inventory_jobs

datatype timer = Run_at ms | Replan_at ms

record job_state =
  js_domain :: domain
  js_timer :: "timer option"
  js_refreshTimer :: "ms option"
  js_running :: bool
  js_refreshing :: bool
  js_pendingRefresh :: bool

record scheduler =
  sd_objects :: "job_state list"
  sd_jobs :: "(string \<times> nat) list"
  sd_reconcile :: bool

definition MIN_DELAY_MS :: ms where "MIN_DELAY_MS = 250"
definition MAX_TIMER_DELAY_MS :: ms where "MAX_TIMER_DELAY_MS = 2000000000"

definition run_delay :: "ms \<Rightarrow> ms \<Rightarrow> ms" where
  "run_delay now dueAt = max MIN_DELAY_MS (min MAX_TIMER_DELAY_MS (dueAt - now))"

definition upd_job :: "nat \<Rightarrow> (job_state \<Rightarrow> job_state) \<Rightarrow> scheduler \<Rightarrow> scheduler" where
  "upd_job i f s = s\<lparr>sd_objects := (sd_objects s)[i := f (sd_objects s ! i)]\<rparr>"

definition queueRefresh :: "ms \<Rightarrow> ms \<Rightarrow> job_state \<Rightarrow> job_state" where
  "queueRefresh now delayMs j = j\<lparr>js_refreshTimer := Some (now + delayMs)\<rparr>"

text \<open>\<open>refresh\<close> up to its lookup, and from the answer of the lookup to its end.\<close>

definition refresh_begins :: "job_state \<Rightarrow> job_state \<times> bool" where
  "refresh_begins j =
     (if js_running j \<or> js_refreshing j then (j\<lparr>js_pendingRefresh := True\<rparr>, False)
      else (j\<lparr>js_refreshing := True, js_pendingRefresh := False, js_timer := None\<rparr>, True))"

definition refresh_ends :: "ms \<Rightarrow> unit + ms option \<Rightarrow> job_state \<Rightarrow> job_state" where
  "refresh_ends now answer j =
     (let planned = (case answer of
             Inr None \<Rightarrow> j
           | Inr (Some dueAt) \<Rightarrow> j\<lparr>js_timer := Some (Run_at (now + run_delay now dueAt))\<rparr>
           | Inl _ \<Rightarrow> j\<lparr>js_timer := Some (Replan_at (now + 5 * 60 * 1000))\<rparr>);
          finished = planned\<lparr>js_refreshing := False\<rparr>
      in if js_pendingRefresh finished then queueRefresh now 0 finished else finished)"

definition run_begins :: "job_state \<Rightarrow> job_state \<times> bool" where
  "run_begins j = (if js_running j then (j, False) else (j\<lparr>js_running := True\<rparr>, True))"

definition run_ends :: "ms \<Rightarrow> job_state \<Rightarrow> job_state" where
  "run_ends now j = queueRefresh now 0 (j\<lparr>js_running := False\<rparr>)"

definition unregister :: "string \<Rightarrow> scheduler \<Rightarrow> scheduler" where
  "unregister name s =
     (case map_of (sd_jobs s) name of None \<Rightarrow> s
      | Some i \<Rightarrow> (let s1 = upd_job i (\<lambda>j. j\<lparr>js_timer := None, js_refreshTimer := None\<rparr>) s;
                       left = filter (\<lambda>(n, _). n \<noteq> name) (sd_jobs s1)
                   in s1\<lparr>sd_jobs := left, sd_reconcile := (sd_reconcile s1 \<and> left \<noteq> [])\<rparr>))"

definition new_job :: "domain \<Rightarrow> job_state" where
  "new_job d = \<lparr>js_domain = d, js_timer = None, js_refreshTimer = None, js_running = False, js_refreshing = False,
     js_pendingRefresh = False\<rparr>"

definition register :: "ms \<Rightarrow> string \<Rightarrow> domain \<Rightarrow> scheduler \<Rightarrow> scheduler" where
  "register now name d s =
     (let s1 = unregister name s; i = length (sd_objects s1)
      in s1\<lparr>sd_objects := sd_objects s1 @ [queueRefresh now 0 (new_job d)], sd_jobs := sd_jobs s1 @ [(name, i)],
            sd_reconcile := True\<rparr>)"

fun refresh_all :: "ms \<Rightarrow> ms \<Rightarrow> nat list \<Rightarrow> scheduler \<Rightarrow> scheduler" where
  "refresh_all now delayMs [] s = s"
| "refresh_all now delayMs (i # is) s = refresh_all now delayMs is (upd_job i (queueRefresh now delayMs) s)"

definition signal :: "ms \<Rightarrow> domain \<Rightarrow> scheduler \<Rightarrow> scheduler" where
  "signal now d s = refresh_all now 50 (filter (\<lambda>i. js_domain (sd_objects s ! i) = d) (map snd (sd_jobs s))) s"

definition reconcile :: "ms \<Rightarrow> scheduler \<Rightarrow> scheduler" where
  "reconcile now s = refresh_all now 0 (map snd (sd_jobs s)) s"

definition onModuleDestroy :: "scheduler \<Rightarrow> scheduler" where
  "onModuleDestroy s = (fold unregister (map fst (sd_jobs s)) s)\<lparr>sd_reconcile := False\<rparr>"

definition sd_initial :: scheduler where
  "sd_initial = \<lparr>sd_objects = [], sd_jobs = [], sd_reconcile = False\<rparr>"

text \<open>What the environment may do next, at the instant \<open>now\<close>. A lookup or a run is only answered while it is
  under way, a timer only fires when it is set and its time has come.\<close>

datatype sched_event =
    Registers string domain | Unregisters string | Signals domain | Reconciles
  | Refresh_fires nat | Lookup_answers nat "unit + ms option" | Timer_fires nat | Run_settles nat

inductive sched_step :: "ms \<Rightarrow> sched_event \<Rightarrow> scheduler \<Rightarrow> scheduler \<Rightarrow> bool" for now where
  "sched_step now (Registers name d) s (register now name d s)"
| "sched_step now (Unregisters name) s (unregister name s)"
| "sched_step now (Signals d) s (signal now d s)"
| "sd_reconcile s \<Longrightarrow> sched_step now Reconciles s (reconcile now s)"
| "i < length (sd_objects s) \<Longrightarrow> js_refreshTimer (sd_objects s ! i) = Some at \<Longrightarrow> at \<le> now
    \<Longrightarrow> sched_step now (Refresh_fires i) s (upd_job i (\<lambda>j. fst (refresh_begins (j\<lparr>js_refreshTimer := None\<rparr>))) s)"
| "i < length (sd_objects s) \<Longrightarrow> js_refreshing (sd_objects s ! i)
    \<Longrightarrow> sched_step now (Lookup_answers i answer) s (upd_job i (refresh_ends now answer) s)"
| "i < length (sd_objects s) \<Longrightarrow> js_timer (sd_objects s ! i) = Some (Run_at at) \<Longrightarrow> at \<le> now
    \<Longrightarrow> sched_step now (Timer_fires i) s (upd_job i (\<lambda>j. fst (run_begins (j\<lparr>js_timer := None\<rparr>))) s)"
| "i < length (sd_objects s) \<Longrightarrow> js_timer (sd_objects s ! i) = Some (Replan_at at) \<Longrightarrow> at \<le> now
    \<Longrightarrow> sched_step now (Timer_fires i) s (upd_job i (\<lambda>j. queueRefresh now 0 (j\<lparr>js_timer := None\<rparr>)) s)"
| "i < length (sd_objects s) \<Longrightarrow> js_running (sd_objects s ! i)
    \<Longrightarrow> sched_step now (Run_settles i) s (upd_job i (run_ends now) s)"

inductive sched_run :: "(ms \<times> sched_event) list \<Rightarrow> scheduler \<Rightarrow> scheduler \<Rightarrow> bool" where
  stay: "sched_run [] s s"
| step: "sched_step now ev s t \<Longrightarrow> sched_run evs t u \<Longrightarrow> sched_run ((now, ev) # evs) s u"

section \<open>One thing at a time\<close>

definition job_ok :: "job_state \<Rightarrow> bool" where
  "job_ok j \<longleftrightarrow> \<not> (js_running j \<and> js_refreshing j) \<and> (js_timer j \<noteq> None \<longrightarrow> \<not> js_running j \<and> \<not> js_refreshing j)"

definition sched_ok :: "scheduler \<Rightarrow> bool" where
  "sched_ok s \<longleftrightarrow> list_all job_ok (sd_objects s) \<and> distinct (map fst (sd_jobs s)) \<and> distinct (map snd (sd_jobs s))
     \<and> list_all (\<lambda>i. i < length (sd_objects s)) (map snd (sd_jobs s)) \<and> (sd_reconcile s \<longleftrightarrow> sd_jobs s \<noteq> [])"

lemma upd_job_simps [simp]:
  "sd_jobs (upd_job i f s) = sd_jobs s" "sd_reconcile (upd_job i f s) = sd_reconcile s"
  "length (sd_objects (upd_job i f s)) = length (sd_objects s)"
  "k < length (sd_objects s) \<Longrightarrow> sd_objects (upd_job i f s) ! k = (if k = i then f (sd_objects s ! k) else sd_objects s ! k)"
  by (auto simp: upd_job_def nth_list_update)

lemma upd_job_ok:
  assumes "sched_ok s" "\<And>j. i < length (sd_objects s) \<Longrightarrow> j = sd_objects s ! i \<Longrightarrow> job_ok j \<Longrightarrow> job_ok (f j)"
  shows "sched_ok (upd_job i f s)"
  using assms by (auto simp: sched_ok_def list_all_length)

lemma queueRefresh_ok [simp]: "job_ok (queueRefresh now d j) = job_ok j"
  by (simp add: job_ok_def queueRefresh_def)

lemma refresh_all_simps [simp]:
  "sd_jobs (refresh_all now d is s) = sd_jobs s" "sd_reconcile (refresh_all now d is s) = sd_reconcile s"
  "length (sd_objects (refresh_all now d is s)) = length (sd_objects s)"
  by (induction now d "is" s rule: refresh_all.induct) simp_all

lemma refresh_all_nth:
  "k < length (sd_objects s) \<Longrightarrow> sd_objects (refresh_all now d is s) ! k
     = (if k \<in> set is then queueRefresh now d (sd_objects s ! k) else sd_objects s ! k)"
  by (induction now d "is" s rule: refresh_all.induct) (auto simp: queueRefresh_def)

lemma refresh_all_ok: "sched_ok s \<Longrightarrow> sched_ok (refresh_all now d is s)"
proof (induction now d "is" s rule: refresh_all.induct)
  case (2 now d i "is" s)
  have "sched_ok (upd_job i (queueRefresh now d) s)" by (rule upd_job_ok [OF 2(2)]) simp
  from 2(1) [OF this] show ?case by simp
qed simp

lemma unregister_ok: "sched_ok s \<Longrightarrow> sched_ok (unregister name s)"
proof (cases "map_of (sd_jobs s) name")
  case (Some i)
  assume ok: "sched_ok s"
  have "sched_ok (upd_job i (\<lambda>j. j\<lparr>js_timer := None, js_refreshTimer := None\<rparr>) s)"
    by (rule upd_job_ok [OF ok]) (simp add: job_ok_def)
  then show ?thesis using Some
    by (auto simp: unregister_def Let_def sched_ok_def list_all_iff distinct_map_filter)
qed (simp add: unregister_def)

lemma unregister_gone [simp]: "name \<notin> fst ` set (sd_jobs (unregister name s))"
  by (auto simp: unregister_def Let_def map_of_eq_None_iff split: option.splits)

lemma register_ok:
  assumes "sched_ok s"
  shows "sched_ok (register now name d s)"
  using unregister_ok [OF assms, of name] unregister_gone [of name s]
  by (auto simp: register_def Let_def sched_ok_def new_job_def job_ok_def queueRefresh_def list_all_iff image_iff)

lemma sched_step_ok: "sched_step now ev s t \<Longrightarrow> sched_ok s \<Longrightarrow> sched_ok t"
  by (induction rule: sched_step.induct)
    (auto intro!: register_ok unregister_ok refresh_all_ok upd_job_ok
      simp: signal_def reconcile_def job_ok_def refresh_begins_def refresh_ends_def run_begins_def run_ends_def queueRefresh_def Let_def
      split: sum.splits option.splits)

interpretation sched: invariant "\<lambda>s t. \<exists>now ev. sched_step now ev s t" sched_ok
  by unfold_locales (blast intro: sched_step_ok)

lemma sched_run_steps: "sched_run evs s t \<Longrightarrow> (\<lambda>s t. \<exists>now ev. sched_step now ev s t)\<^sup>*\<^sup>* s t"
  by (induction rule: sched_run.induct) (auto intro: converse_rtranclp_into_rtranclp)

lemma sched_run_ok: "sched_run evs s t \<Longrightarrow> sched_ok s \<Longrightarrow> sched_ok t"
  by (rule sched.run_inv [OF sched_run_steps])

lemma sd_initial_ok: "sched_ok sd_initial"
  by (simp add: sched_ok_def sd_initial_def)

text \<open>A job does one thing at a time. In every reachable state no job is looked up and run at once, and a timer
  is only set while neither is under way, so a timer that fires always starts its run; names and objects of
  registered jobs are unique, and the hourly reconciliation runs exactly while a job is registered.\<close>

theorem one_thing_at_a_time:
  assumes "sched_run evs sd_initial s"
  shows "list_all (\<lambda>j. \<not> (js_running j \<and> js_refreshing j) \<and> (js_timer j \<noteq> None \<longrightarrow> snd (run_begins j) \<and> \<not> js_refreshing j)) (sd_objects s)
    \<and> distinct (map fst (sd_jobs s)) \<and> distinct (map snd (sd_jobs s)) \<and> (sd_reconcile s \<longleftrightarrow> sd_jobs s \<noteq> [])"
  using sched_run_ok [OF assms sd_initial_ok]
  by (auto simp: sched_ok_def job_ok_def run_begins_def list_all_iff)

section \<open>No signal is lost\<close>

definition owes_lookup :: "nat \<Rightarrow> scheduler \<Rightarrow> bool" where
  "owes_lookup i s = (let j = sd_objects s ! i in
     js_refreshTimer j \<noteq> None \<or> js_running j \<or> (js_refreshing j \<and> js_pendingRefresh j))"

lemma unregister_other:
  assumes "sched_ok s" "(name, i) \<in> set (sd_jobs s)" "other \<noteq> name"
  shows "sd_objects (unregister other s) ! i = sd_objects s ! i" "(name, i) \<in> set (sd_jobs (unregister other s))"
proof -
  have "k \<noteq> i" if "map_of (sd_jobs s) other = Some k" for k
    using assms map_of_SomeD [OF that] distinct_key_eq [of snd "sd_jobs s" "(other, k)" "(name, i)"] by (auto simp: sched_ok_def)
  moreover have "i < length (sd_objects s)" using assms by (auto simp: sched_ok_def list_all_iff)
  ultimately show "sd_objects (unregister other s) ! i = sd_objects s ! i" "(name, i) \<in> set (sd_jobs (unregister other s))"
    using assms by (auto simp: unregister_def Let_def split: option.splits)
qed

lemma unregister_length [simp]: "length (sd_objects (unregister name s)) = length (sd_objects s)"
  by (auto simp: unregister_def Let_def split: option.splits)

lemma sched_step_owes:
  assumes "sched_step now ev s t" "sched_ok s" "(name, i) \<in> set (sd_jobs s)" "owes_lookup i s"
    and "ev \<noteq> Unregisters name" "\<And>d. ev \<noteq> Registers name d"
  shows "(name, i) \<in> set (sd_jobs t) \<and> (owes_lookup i t \<or> (ev = Refresh_fires i \<and> js_refreshing (sd_objects t ! i)
    \<and> snd (refresh_begins (sd_objects s ! i))))"
proof -
  have i: "i < length (sd_objects s)" using assms(2,3) by (auto simp: sched_ok_def list_all_iff)
  show ?thesis
    using assms(1)
  proof (cases rule: sched_step.cases)
    case (1 other d)
    then have ne: "other \<noteq> name" using assms(6) by auto
    have "i < length (sd_objects (unregister other s))" using i by simp
    then have "sd_objects t ! i = sd_objects (unregister other s) ! i" using 1 by (simp add: register_def Let_def nth_append)
    then show ?thesis using unregister_other [OF assms(2,3) ne] assms(4) 1 by (simp add: register_def Let_def owes_lookup_def)
  next
    case (2 other)
    then have ne: "other \<noteq> name" using assms(5) by auto
    show ?thesis using unregister_other [OF assms(2,3) ne] assms(4) 2 by (simp add: owes_lookup_def)
  qed (use assms i in \<open>auto simp: owes_lookup_def signal_def reconcile_def refresh_all_nth queueRefresh_def refresh_begins_def
      refresh_ends_def run_begins_def run_ends_def Let_def split: sum.splits option.splits if_splits\<close>)
qed

lemma sched_run_owes:
  assumes "sched_run later s t" "sched_ok s" "(name, i) \<in> set (sd_jobs s)" "owes_lookup i s" "\<not> owes_lookup i t"
    and "\<forall>ev\<in>snd ` set later. ev \<noteq> Unregisters name \<and> (\<forall>d'. ev \<noteq> Registers name d')"
  shows "\<exists>xs at ys u v. later = xs @ (at, Refresh_fires i) # ys \<and> sched_run xs s u
    \<and> sched_step at (Refresh_fires i) u v \<and> js_refreshing (sd_objects v ! i)"
  using assms
proof (induction rule: sched_run.induct)
  case (step now ev s s' evs t)
  have ev: "ev \<noteq> Unregisters name" "\<And>d. ev \<noteq> Registers name d" using step.prems(5) by auto
  note one = sched_step_owes [OF step.hyps(1) step.prems(1-3) ev]
  show ?case
  proof (cases "owes_lookup i s'")
    case True
    obtain xs at ys u v where "evs = xs @ (at, Refresh_fires i) # ys" "sched_run xs s' u"
      "sched_step at (Refresh_fires i) u v" "js_refreshing (sd_objects v ! i)"
      using step.IH [OF sched_step_ok [OF step.hyps(1) step.prems(1)] conjunct1 [OF one] True step.prems(4)] step.prems(5) by auto
    then show ?thesis
      by (intro exI [of _ "(now, ev) # xs"] exI [of _ at] exI [of _ ys] exI [of _ u] exI [of _ v])
        (auto intro: sched_run.step [OF step.hyps(1)])
  next
    case False
    then have "ev = Refresh_fires i" "js_refreshing (sd_objects s' ! i)" using one by auto
    then show ?thesis using step.hyps(1)
      by (intro exI [of _ "[]"] exI [of _ now] exI [of _ evs] exI [of _ s] exI [of _ s']) (auto intro: sched_run.stay)
  qed
qed simp

text \<open>C36: no signal is lost. After a domain signal each registered job of the domain owes a lookup, and it keeps
  owing it, through every interleaving of timers, running jobs and pending lookups, until a lookup of that job
  begins after the signal, unless it is unregistered or registered anew.\<close>

theorem no_signal_is_lost:
  assumes "sched_run evs sd_initial s" "(name, i) \<in> set (sd_jobs s)" "js_domain (sd_objects s ! i) = d"
    and "sched_run later (signal now d s) t"
    and "\<forall>ev\<in>snd ` set later. ev \<noteq> Unregisters name \<and> (\<forall>d'. ev \<noteq> Registers name d')"
    and "js_refreshTimer (sd_objects t ! i) = None" "\<not> js_running (sd_objects t ! i)"
    and "js_refreshing (sd_objects t ! i) \<longrightarrow> \<not> js_pendingRefresh (sd_objects t ! i)"
  shows "\<exists>xs at ys u v. later = xs @ (at, Refresh_fires i) # ys \<and> sched_run xs (signal now d s) u
    \<and> sched_step at (Refresh_fires i) u v \<and> js_refreshing (sd_objects v ! i)"
proof -
  have ok: "sched_ok s" by (rule sched_run_ok [OF assms(1) sd_initial_ok])
  have i: "i < length (sd_objects s)" using ok assms(2) by (auto simp: sched_ok_def list_all_iff)
  have own: "owes_lookup i (signal now d s)" "(name, i) \<in> set (sd_jobs (signal now d s))"
    using i assms(2,3) by (force simp: owes_lookup_def signal_def refresh_all_nth queueRefresh_def)+
  have "\<not> owes_lookup i t" using assms(6-8) by (auto simp: owes_lookup_def Let_def)
  moreover have "sched_ok (signal now d s)" using ok by (simp add: signal_def refresh_all_ok)
  ultimately show ?thesis using sched_run_owes [OF assms(4) _ own(2,1) _ assms(5)] by blast
qed

text \<open>A timer keeps its deadline. The run is planned no earlier than the deadline, unless that is more than
  23 days away, and at most a quarter of a second after the later of the deadline and now; the delay handed to
  \<open>setTimeout\<close> is positive and fits the 32 bits a timer has, so it never fires at once by overflow.\<close>

theorem timers_keep_deadlines:
  assumes "js_timer (refresh_ends now (Inr (Some dueAt)) j) = Some (Run_at at)"
  shows "(dueAt \<le> at \<or> dueAt - now > 23 * 24 * 60 * 60 * 1000) \<and> at \<le> max dueAt now + 250
    \<and> 0 < at - now \<and> at - now < 2 ^ 31"
  using assms
  by (auto simp: refresh_ends_def queueRefresh_def run_delay_def MIN_DELAY_MS_def MAX_TIMER_DELAY_MS_def Let_def
      max_def min_def split: if_splits)

section \<open>What unregistering misses\<close>

text \<open>Unregistering does not stop a job whose lookup is under way. The answer of the lookup arms a timer on the
  object that is no longer registered; when it fires the job runs, and every run plans the next.\<close>

theorem unregistered_job_still_runs:
  "\<exists>evs s. sched_run evs sd_initial s \<and> sd_jobs s = [] \<and> list_ex js_running (sd_objects s)
    \<and> snd (last evs) = Timer_fires 0 \<and> Unregisters ''expiry'' \<in> snd ` set evs"
proof -
  define s1 where "s1 = register 0 ''expiry'' Queue_jobs sd_initial"
  define s2 where "s2 = upd_job 0 (\<lambda>j. fst (refresh_begins (j\<lparr>js_refreshTimer := None\<rparr>))) s1"
  define s3 where "s3 = unregister ''expiry'' s2"
  define s4 where "s4 = upd_job 0 (refresh_ends 2 (Inr (Some 1000))) s3"
  define s5 where "s5 = upd_job 0 (\<lambda>j. fst (run_begins (j\<lparr>js_timer := None\<rparr>))) s4"
  note defs = s1_def s2_def s3_def s4_def s5_def register_def unregister_def sd_initial_def new_job_def queueRefresh_def upd_job_def
    refresh_begins_def refresh_ends_def run_begins_def run_delay_def MIN_DELAY_MS_def MAX_TIMER_DELAY_MS_def Let_def
  have steps: "sched_step 0 (Registers ''expiry'' Queue_jobs) sd_initial s1" "sched_step 1 (Refresh_fires 0) s1 s2"
    "sched_step 2 (Unregisters ''expiry'') s2 s3" "sched_step 2 (Lookup_answers 0 (Inr (Some 1000))) s3 s4"
    "sched_step 1000 (Timer_fires 0) s4 s5"
    subgoal by (simp add: s1_def sched_step.intros(1))
    subgoal unfolding s2_def by (rule sched_step.intros(5) [where at = 0]) (simp_all add: defs)
    subgoal by (simp add: s3_def sched_step.intros(2))
    subgoal unfolding s4_def by (rule sched_step.intros(6)) (simp_all add: defs)
    subgoal unfolding s5_def by (rule sched_step.intros(7) [where at = 1000]) (simp_all add: defs)
    done
  show ?thesis
    by (intro exI [of _ "[(0, Registers ''expiry'' Queue_jobs), (1, Refresh_fires 0), (2, Unregisters ''expiry''),
          (2, Lookup_answers 0 (Inr (Some 1000))), (1000, Timer_fires 0)]"] exI [of _ s5] conjI sched_run.step [OF steps(1)]
          sched_run.step [OF steps(2)] sched_run.step [OF steps(3)] sched_run.step [OF steps(4)] sched_run.step [OF steps(5)] sched_run.stay)
      (simp_all add: defs)
qed

section \<open>A concrete job\<close>

definition demo_sched :: scheduler where
  "demo_sched = register 0 ''expiry'' Queue_jobs sd_initial"

definition demo_looked :: scheduler where
  "demo_looked = upd_job 0 (\<lambda>j. fst (refresh_begins (j\<lparr>js_refreshTimer := None\<rparr>))) (signal 40 Queue_jobs demo_sched)"

lemmas demo_sched_defs = demo_sched_def demo_looked_def register_def unregister_def sd_initial_def new_job_def queueRefresh_def upd_job_def
  refresh_begins_def signal_def Let_def

lemma demo_sched_run: "sched_run [(0, Registers ''expiry'' Queue_jobs)] sd_initial demo_sched"
  by (simp add: demo_sched_def sched_run.step [OF sched_step.intros(1) sched_run.stay])

lemma demo_looked_run: "sched_run [(100, Refresh_fires 0)] (signal 40 Queue_jobs demo_sched) demo_looked"
  unfolding demo_looked_def
  by (rule sched_run.step [OF sched_step.intros(5) [where at = 90] sched_run.stay]) (simp_all add: demo_sched_defs)

lemma one_thing_at_a_time_witness: "sd_reconcile demo_sched \<and> list_all (\<lambda>j. \<not> (js_running j \<and> js_refreshing j)) (sd_objects demo_sched)"
  using one_thing_at_a_time [OF demo_sched_run] by (auto simp: list_all_iff demo_sched_def register_def Let_def)

lemma no_signal_is_lost_witness:
  "\<exists>xs at ys u v. [(100::ms, Refresh_fires 0)] = xs @ (at, Refresh_fires 0) # ys \<and> sched_run xs (signal 40 Queue_jobs demo_sched) u
    \<and> sched_step at (Refresh_fires 0) u v \<and> js_refreshing (sd_objects v ! 0)"
  by (rule no_signal_is_lost [OF demo_sched_run, of "''expiry''" 0 Queue_jobs _ 40 demo_looked])
    (use demo_looked_run in \<open>simp_all add: demo_sched_defs\<close>)

lemma timers_keep_deadlines_witness:
  "js_timer (refresh_ends 5 (Inr (Some 1000)) (new_job Queue_jobs)) = Some (Run_at 1000) \<and> (1000::ms) \<le> max 1000 5 + 250"
  using timers_keep_deadlines [of 5 1000 "new_job Queue_jobs" 1000]
  by (simp add: refresh_ends_def new_job_def run_delay_def MIN_DELAY_MS_def MAX_TIMER_DELAY_MS_def Let_def)

end
