(* ===== verification/Ai_Credits.thy ===== *)
theory Ai_Credits
  imports Prelude
begin

text \<open>
  The credits of a premium subscription (\<^verbatim>\<open>premium/ai-credit.service.ts\<close>), their allocation
  (\<^verbatim>\<open>premium/premium-entitlement.service.ts\<close>) and the one client of them, the style advisor
  (\<^verbatim>\<open>style-advisor/style-advisor.service.ts\<close>), which holds a credit before it calls the image provider and
  settles it by the outcome. Every operation is one transaction on the tables of subscriptions and of
  transactions; the provider's answer is an argument.
\<close>

section \<open>State\<close>

datatype subscription_status = SUBSCRIPTION_ACTIVE | SUBSCRIPTION_CANCELLED | SUBSCRIPTION_EXPIRED
datatype ai_tx_type = ALLOCATION | RESERVATION | CONSUMPTION | RELEASE | AI_MANUAL_ADJUSTMENT
datatype premium_error = PREMIUM_REQUIRED | AI_CREDITS_EXHAUSTED | IMAGE_REQUIRED | INVALID_IMAGE | PROVIDER_FAILED | PLAN_NOT_FOUND

record subscription =
  su_id :: id
  su_user :: id
  su_plan :: id
  su_status :: subscription_status
  su_periodEnd :: ms
  su_allocated :: int
  su_reserved :: int
  su_consumed :: int
  su_createdAt :: ms

record ai_tx =
  at_subscription :: id
  at_type :: ai_tx_type
  at_amount :: int

record plan =
  pl_id :: id
  pl_aiCreditsPerYear :: int

record premium_db =
  pd_next :: id
  pd_plans :: "plan list"
  pd_subs :: "subscription list"
  pd_txs :: "ai_tx list"

section \<open>Operations\<close>

text \<open>\<open>findFirst\<close> ordered by \<open>createdAt\<close>, newest first.\<close>

fun newest :: "subscription list \<Rightarrow> subscription option" where
  "newest [] = None"
| "newest (x # xs) = (case newest xs of None \<Rightarrow> Some x | Some y \<Rightarrow> Some (if su_createdAt y > su_createdAt x then y else x))"

definition findActiveSubscription :: "ms \<Rightarrow> id \<Rightarrow> premium_db \<Rightarrow> subscription option" where
  "findActiveSubscription now userId s =
     (case newest (filter (\<lambda>x. su_user x = userId \<and> su_status x = SUBSCRIPTION_ACTIVE) (pd_subs s)) of
        None \<Rightarrow> None | Some x \<Rightarrow> if su_periodEnd x \<le> now then None else Some x)"

record balance =
  ba_allocated :: int
  ba_reserved :: int
  ba_consumed :: int
  ba_available :: int

definition toBalanceDto :: "subscription \<Rightarrow> balance" where
  "toBalanceDto x = \<lparr>ba_allocated = su_allocated x, ba_reserved = su_reserved x, ba_consumed = su_consumed x,
     ba_available = max 0 (su_allocated x - su_reserved x - su_consumed x)\<rparr>"

definition getBalance_ai :: "ms \<Rightarrow> id \<Rightarrow> premium_db \<Rightarrow> balance" where
  "getBalance_ai now userId s = (case findActiveSubscription now userId s of
       None \<Rightarrow> \<lparr>ba_allocated = 0, ba_reserved = 0, ba_consumed = 0, ba_available = 0\<rparr> | Some x \<Rightarrow> toBalanceDto x)"

definition write_tx :: "id \<Rightarrow> ai_tx_type \<Rightarrow> int \<Rightarrow> premium_db \<Rightarrow> premium_db" where
  "write_tx subscriptionId type amount s =
     s\<lparr>pd_txs := pd_txs s @ [\<lparr>at_subscription = subscriptionId, at_type = type, at_amount = amount\<rparr>]\<rparr>"

definition reserveCredit :: "ms \<Rightarrow> id \<Rightarrow> premium_db \<Rightarrow> premium_error + (premium_db \<times> id)" where
  "reserveCredit now userId s =
     theE (findActiveSubscription now userId s) PREMIUM_REQUIRED (\<lambda>x.
     guardE (\<not> su_allocated x - su_reserved x - su_consumed x < 1) AI_CREDITS_EXHAUSTED
       (Inr (write_tx (su_id x) RESERVATION 1
               (s\<lparr>pd_subs := upd_where (\<lambda>r. su_id r = su_id x) (\<lambda>r. r\<lparr>su_reserved := su_reserved r + 1\<rparr>) (pd_subs s)\<rparr>),
             su_id x)))"

definition held :: "id \<Rightarrow> subscription \<Rightarrow> bool" where
  "held subscriptionId r \<longleftrightarrow> su_id r = subscriptionId \<and> su_reserved r \<ge> 1"

definition consumeCredit :: "id \<Rightarrow> premium_db \<Rightarrow> premium_db" where
  "consumeCredit subscriptionId s =
     (if count_where (held subscriptionId) (pd_subs s) = 0 then s
      else write_tx subscriptionId CONSUMPTION 1
             (s\<lparr>pd_subs := upd_where (held subscriptionId)
                  (\<lambda>r. r\<lparr>su_reserved := su_reserved r - 1, su_consumed := su_consumed r + 1\<rparr>) (pd_subs s)\<rparr>))"

definition releaseCredit :: "id \<Rightarrow> premium_db \<Rightarrow> premium_db" where
  "releaseCredit subscriptionId s =
     (if count_where (held subscriptionId) (pd_subs s) = 0 then s
      else write_tx subscriptionId RELEASE 1
             (s\<lparr>pd_subs := upd_where (held subscriptionId) (\<lambda>r. r\<lparr>su_reserved := su_reserved r - 1\<rparr>) (pd_subs s)\<rparr>))"

definition ONE_YEAR_MS :: ms where "ONE_YEAR_MS = 365 * 24 * 60 * 60 * 1000"

definition activateForDevelopment :: "ms \<Rightarrow> id \<Rightarrow> id \<Rightarrow> premium_db \<Rightarrow> premium_error + premium_db" where
  "activateForDevelopment now userId planId s =
     theE (find (\<lambda>p. pl_id p = planId) (pd_plans s)) PLAN_NOT_FOUND (\<lambda>plan.
       let cancelled = upd_where (\<lambda>r. su_user r = userId \<and> su_status r = SUBSCRIPTION_ACTIVE)
                         (\<lambda>r. r\<lparr>su_status := SUBSCRIPTION_CANCELLED\<rparr>) (pd_subs s);
           created = \<lparr>su_id = pd_next s, su_user = userId, su_plan = pl_id plan, su_status = SUBSCRIPTION_ACTIVE,
                      su_periodEnd = now + ONE_YEAR_MS, su_allocated = pl_aiCreditsPerYear plan, su_reserved = 0, su_consumed = 0,
                      su_createdAt = now\<rparr>
       in Inr (write_tx (pd_next s) ALLOCATION (pl_aiCreditsPerYear plan)
                 (s\<lparr>pd_subs := cancelled @ [created], pd_next := pd_next s + 1\<rparr>)))"

text \<open>The style advisor: the upload is its type and size, the provider's outcome whether it produced previews.\<close>

definition MAX_IMAGE_BYTES :: int where "MAX_IMAGE_BYTES = 5 * 1024 * 1024"
definition ALLOWED_MIME_TYPES :: "string list" where
  "ALLOWED_MIME_TYPES = [''image/jpeg'', ''image/png'', ''image/webp'']"

definition generate_begins :: "ms \<Rightarrow> id \<Rightarrow> (string \<times> int) option \<Rightarrow> premium_db \<Rightarrow> premium_error + (premium_db \<times> id)" where
  "generate_begins now userId file s =
     theE file IMAGE_REQUIRED (\<lambda>(mimetype, size).
     guardE (mimetype \<in> set ALLOWED_MIME_TYPES \<and> \<not> size > MAX_IMAGE_BYTES) INVALID_IMAGE
       (reserveCredit now userId s))"

definition generate_ends :: "id \<Rightarrow> bool \<Rightarrow> premium_db \<Rightarrow> premium_db \<times> (premium_error + unit)" where
  "generate_ends subscriptionId produced s =
     (if produced then (consumeCredit subscriptionId s, Inr ()) else (releaseCredit subscriptionId s, Inl PROVIDER_FAILED))"

section \<open>The abstract account\<close>

text \<open>What the ledger of a subscription says: the credits allotted, those spent and those on hold.\<close>

definition total :: "ai_tx_type \<Rightarrow> id \<Rightarrow> premium_db \<Rightarrow> int" where
  "total type i s = sum_list (map at_amount (filter (\<lambda>t. at_type t = type \<and> at_subscription t = i) (pd_txs s)))"

definition explained :: "premium_db \<Rightarrow> subscription \<Rightarrow> bool" where
  "explained s r \<longleftrightarrow> su_allocated r = total ALLOCATION (su_id r) s \<and> su_consumed r = total CONSUMPTION (su_id r) s
     \<and> su_reserved r = total RESERVATION (su_id r) s - total CONSUMPTION (su_id r) s - total RELEASE (su_id r) s
     \<and> 0 \<le> su_reserved r \<and> 0 \<le> su_consumed r \<and> su_reserved r + su_consumed r \<le> su_allocated r"

definition premium_inv :: "premium_db \<Rightarrow> bool" where
  "premium_inv s \<longleftrightarrow> distinct (map su_id (pd_subs s)) \<and> list_all (explained s) (pd_subs s)
     \<and> list_all (\<lambda>r. su_id r < pd_next s) (pd_subs s) \<and> list_all (\<lambda>t. at_subscription t < pd_next s) (pd_txs s)
     \<and> list_all (\<lambda>p. 0 \<le> pl_aiCreditsPerYear p) (pd_plans s)"

inductive premium_step :: "premium_db \<Rightarrow> premium_db \<Rightarrow> bool" for s where
  reserve: "reserveCredit now u s = Inr (t, i) \<Longrightarrow> premium_step s t"
| consume: "premium_step s (consumeCredit i s)"
| release: "premium_step s (releaseCredit i s)"
| activate: "activateForDevelopment now u p s = Inr t \<Longrightarrow> premium_step s t"

lemma total_write [simp]:
  "total type i (write_tx j type' a s) = total type i s + (if type = type' \<and> i = j then a else 0)"
  by (simp add: total_def write_tx_def)

lemma write_tx_simps [simp]:
  "pd_subs (write_tx j type a s) = pd_subs s" "pd_next (write_tx j type a s) = pd_next s" "pd_plans (write_tx j type a s) = pd_plans s"
  "pd_txs (write_tx j type a s) = pd_txs s @ [\<lparr>at_subscription = j, at_type = type, at_amount = a\<rparr>]"
  by (simp_all add: write_tx_def)

lemma total_subs [simp]: "total type i (s\<lparr>pd_subs := xs\<rparr>) = total type i s" "total type i (s\<lparr>pd_next := n\<rparr>) = total type i s"
  by (simp_all add: total_def)

lemma premium_inv_write:
  assumes "premium_inv s" "r \<in> set (pd_subs s)" "su_id r = i" "\<And>x. q x \<longleftrightarrow> su_id x = i \<and> p x" "p r"
    and "\<And>x. su_id (f x) = su_id x"
    and "explained s r \<Longrightarrow> explained (write_tx i type 1 s) (f r)"
    and "\<And>x. explained s x \<Longrightarrow> su_id x \<noteq> i \<Longrightarrow> explained (write_tx i type 1 s) x"
  shows "premium_inv (write_tx i type 1 (s\<lparr>pd_subs := upd_where q f (pd_subs s)\<rparr>))"
proof -
  have only: "x = r" if "x \<in> set (pd_subs s)" "su_id x = i" for x
    using distinct_key_eq [of su_id "pd_subs s" x r] assms(1,2,3) that by (simp add: premium_inv_def)
  have ex: "explained (write_tx i type 1 (s\<lparr>pd_subs := upd_where q f (pd_subs s)\<rparr>)) x = explained (write_tx i type 1 s) x" for x
    by (simp add: explained_def)
  have "explained (write_tx i type 1 s) (if q x then f x else x)" if x: "x \<in> set (pd_subs s)" for x
    using assms(1,4,5,7,8) only [OF x] x by (auto simp: premium_inv_def list_all_iff)
  then have "list_all (explained (write_tx i type 1 s)) (upd_where q f (pd_subs s))"
    unfolding list_all_iff set_upd_where by blast
  then show ?thesis using assms(1,2,3,6)
    by (auto simp: premium_inv_def list_all_iff ex map_upd_where in_upd_where)
qed

lemma newest_mem: "newest xs = Some x \<Longrightarrow> x \<in> set xs"
  by (induction xs arbitrary: x) (auto split: option.splits if_splits)

lemma findActive_mem: "findActiveSubscription now u s = Some x \<Longrightarrow> x \<in> set (pd_subs s) \<and> su_user x = u"
  by (auto simp: findActiveSubscription_def split: option.splits if_splits dest!: newest_mem)

lemma explained_other: "explained s x \<Longrightarrow> su_id x \<noteq> i \<Longrightarrow> explained (write_tx i type 1 s) x"
  by (auto simp: explained_def)

lemma premium_step_inv: "premium_step s t \<Longrightarrow> premium_inv s \<Longrightarrow> premium_inv t"
proof (induction rule: premium_step.induct)
  case (reserve now u t i)
  then obtain x where x: "x \<in> set (pd_subs s)" "su_allocated x - su_reserved x - su_consumed x \<ge> 1"
    and t: "t = write_tx (su_id x) RESERVATION 1
       (s\<lparr>pd_subs := upd_where (\<lambda>r. su_id r = su_id x) (\<lambda>r. r\<lparr>su_reserved := su_reserved r + 1\<rparr>) (pd_subs s)\<rparr>)"
    by (auto simp: reserveCredit_def success_simps dest: findActive_mem)
  show ?case unfolding t
    by (rule premium_inv_write [OF reserve.prems x(1) refl, where p = "\<lambda>_. True"])
      (use x(2) in \<open>auto simp: explained_other explained_def\<close>)
next
  case (consume i)
  show ?case
  proof (cases "count_where (held i) (pd_subs s) = 0")
    case False
    then obtain x where x: "x \<in> set (pd_subs s)" "held i x" by (auto simp: count_where_gt)
    show ?thesis using False unfolding consumeCredit_def
      by (simp, intro premium_inv_write [OF consume.prems x(1), where p = "\<lambda>r. su_reserved r \<ge> 1"])
        (use x(2) in \<open>auto simp: held_def explained_other explained_def\<close>)
  qed (use consume in \<open>simp add: consumeCredit_def\<close>)
next
  case (release i)
  show ?case
  proof (cases "count_where (held i) (pd_subs s) = 0")
    case False
    then obtain x where x: "x \<in> set (pd_subs s)" "held i x" by (auto simp: count_where_gt)
    show ?thesis using False unfolding releaseCredit_def
      by (simp, intro premium_inv_write [OF release.prems x(1), where p = "\<lambda>r. su_reserved r \<ge> 1"])
        (use x(2) in \<open>auto simp: held_def explained_other explained_def\<close>)
  qed (use release in \<open>simp add: releaseCredit_def\<close>)
next
  case (activate now u p t)
  have zero: "total type (pd_next s) s = 0" for type
  proof -
    have "filter (\<lambda>t. at_type t = type \<and> at_subscription t = pd_next s) (pd_txs s) = []"
      using activate.prems by (auto simp: premium_inv_def list_all_iff filter_empty_conv)
    then show ?thesis by (simp add: total_def)
  qed
  obtain plan where plan: "find (\<lambda>x. pl_id x = p) (pd_plans s) = Some plan"
    and t: "t = write_tx (pd_next s) ALLOCATION (pl_aiCreditsPerYear plan) (s\<lparr>pd_subs := upd_where (\<lambda>r. su_user r = u \<and> su_status r = SUBSCRIPTION_ACTIVE)
          (\<lambda>r. r\<lparr>su_status := SUBSCRIPTION_CANCELLED\<rparr>) (pd_subs s) @ [\<lparr>su_id = pd_next s, su_user = u, su_plan = pl_id plan,
          su_status = SUBSCRIPTION_ACTIVE, su_periodEnd = now + ONE_YEAR_MS, su_allocated = pl_aiCreditsPerYear plan, su_reserved = 0,
          su_consumed = 0, su_createdAt = now\<rparr>], pd_next := pd_next s + 1\<rparr>)"
    using activate.hyps by (auto simp: activateForDevelopment_def success_simps Let_def)
  have pl: "0 \<le> pl_aiCreditsPerYear plan" using find_SomeD [OF plan] activate.prems by (simp add: premium_inv_def list_all_iff)
  have old: "su_id r < pd_next s" "explained t r" "explained t (r\<lparr>su_status := SUBSCRIPTION_CANCELLED\<rparr>)" if r: "r \<in> set (pd_subs s)" for r
  proof -
    show lt: "su_id r < pd_next s" using activate.prems r by (simp add: premium_inv_def list_all_iff)
    have "total type (su_id r) t = total type (su_id r) s" for type using lt by (simp add: t)
    moreover have "explained s r" using activate.prems r by (simp add: premium_inv_def list_all_iff)
    ultimately show "explained t r" "explained t (r\<lparr>su_status := SUBSCRIPTION_CANCELLED\<rparr>)" by (simp_all add: explained_def)
  qed
  have "list_all (explained t) (pd_subs t)" "list_all (\<lambda>r. su_id r < pd_next t) (pd_subs t)"
    unfolding list_all_iff
    using old less_SucI [OF old(1)] zero pl by (auto simp: t in_upd_where) (simp add: explained_def)
  moreover have "distinct (map su_id (pd_subs t))"
  proof -
    have "pd_next s \<notin> set (map su_id (pd_subs s))" using less_imp_neq [OF old(1)] by fastforce
    then show ?thesis using activate.prems by (simp add: t premium_inv_def map_upd_where)
  qed
  ultimately show ?case using activate.prems
    by (auto simp: premium_inv_def t list_all_iff dest: less_SucI)
qed

interpretation premium: invariant premium_step premium_inv
  by unfold_locales (rule premium_step_inv)

lemma premium_run_inv: "premium_step\<^sup>*\<^sup>* s t \<Longrightarrow> premium_inv s \<Longrightarrow> premium_inv t"
  by (rule premium.run_inv)

section \<open>Properties\<close>

text \<open>C34: the counters of a subscription are what its ledger says, and never promise more than was allotted. After any
  sequence of reservations, settlements (repeated or without a reservation included) and activations from an empty
  system, a subscription has on hold what was reserved and neither spent nor given back, has spent what was consumed,
  both are non-negative, and together they stay within the allotment; the balance shown is the exact rest.\<close>

theorem ai_credits_are_accounted_for:
  assumes "premium_step\<^sup>*\<^sup>* s t" "pd_subs s = []" "pd_txs s = []" "\<forall>p\<in>set (pd_plans s). 0 \<le> pl_aiCreditsPerYear p"
    and "x \<in> set (pd_subs t)"
  shows "su_consumed x = total CONSUMPTION (su_id x) t
    \<and> su_reserved x = total RESERVATION (su_id x) t - total CONSUMPTION (su_id x) t - total RELEASE (su_id x) t
    \<and> su_allocated x = total ALLOCATION (su_id x) t \<and> 0 \<le> su_reserved x \<and> 0 \<le> su_consumed x
    \<and> su_reserved x + su_consumed x \<le> su_allocated x
    \<and> ba_available (toBalanceDto x) = su_allocated x - su_reserved x - su_consumed x"
proof -
  have "premium_inv s" using assms(2-4) by (simp add: premium_inv_def list_all_iff)
  from premium_run_inv [OF assms(1) this] assms(5) show ?thesis
    by (auto simp: premium_inv_def list_all_iff explained_def toBalanceDto_def)
qed

lemma newest_upd:
  assumes "\<And>r. su_createdAt (f r) = su_createdAt r"
  shows "newest (map f xs) = map_option f (newest xs)"
  by (induction xs) (auto simp: assms split: option.split)

text \<open>Only a preview that was produced costs a credit. A generation that begins holds one credit of the
  customer's current subscription, which must have had one left; when the provider fails the counters are exactly
  those from before, when it succeeds exactly one more credit is spent and none is left on hold.\<close>

theorem only_success_costs_a_credit:
  assumes "generate_begins now userId file s = Inr (t, i)" "premium_inv s"
  shows "1 \<le> ba_available (getBalance_ai now userId s) \<and> ba_available (getBalance_ai now userId t) = ba_available (getBalance_ai now userId s) - 1
    \<and> pd_subs (fst (generate_ends i False t)) = pd_subs s
    \<and> pd_subs (fst (generate_ends i True t)) = upd_where (\<lambda>r. su_id r = i) (\<lambda>r. r\<lparr>su_consumed := su_consumed r + 1\<rparr>) (pd_subs s)"
proof -
  obtain x where x: "findActiveSubscription now userId s = Some x" "i = su_id x" "1 \<le> su_allocated x - su_reserved x - su_consumed x"
    and t: "t = write_tx (su_id x) RESERVATION 1
       (s\<lparr>pd_subs := upd_where (\<lambda>r. su_id r = su_id x) (\<lambda>r. r\<lparr>su_reserved := su_reserved r + 1\<rparr>) (pd_subs s)\<rparr>)"
    using assms(1) by (auto simp: generate_begins_def reserveCredit_def success_simps split: prod.splits)
  let ?f = "\<lambda>r. if su_id r = su_id x then r\<lparr>su_reserved := su_reserved r + 1\<rparr> else r"
  have nn: "0 \<le> su_reserved r" if "r \<in> set (pd_subs s)" for r
    using assms(2) that by (auto simp: premium_inv_def list_all_iff explained_def)
  have filt: "filter p (map ?f xs) = map ?f (filter p xs)"
    if "p = (\<lambda>r. su_user r = userId \<and> su_status r = SUBSCRIPTION_ACTIVE)" for p xs
    by (induction xs) (auto simp: that)
  have "newest (filter (\<lambda>r. su_user r = userId \<and> su_status r = SUBSCRIPTION_ACTIVE) (map ?f (pd_subs s)))
      = map_option ?f (newest (filter (\<lambda>r. su_user r = userId \<and> su_status r = SUBSCRIPTION_ACTIVE) (pd_subs s)))"
    unfolding filt [OF refl] by (rule newest_upd) simp
  then have "findActiveSubscription now userId t = Some (x\<lparr>su_reserved := su_reserved x + 1\<rparr>)"
    using x(1) by (auto simp: t findActiveSubscription_def upd_where_def split: option.splits if_splits)
  then have bal: "ba_available (getBalance_ai now userId s) = su_allocated x - su_reserved x - su_consumed x"
    "ba_available (getBalance_ai now userId t) = su_allocated x - su_reserved x - su_consumed x - 1"
    using x by (simp_all add: getBalance_ai_def toBalanceDto_def)
  have mem: "x \<in> set (pd_subs s)" using findActive_mem [OF x(1)] by simp
  then have "count_where (held (su_id x)) (pd_subs t) \<noteq> 0"
    unfolding count_where_pos
    by (intro bexI [of _ "?f x"]) (use nn [OF mem] mem in \<open>auto simp: t held_def set_upd_where\<close>)
  then have ends: "pd_subs (releaseCredit (su_id x) t) = upd_where (held (su_id x)) (\<lambda>r. r\<lparr>su_reserved := su_reserved r - 1\<rparr>) (pd_subs t)"
    "pd_subs (consumeCredit (su_id x) t) = upd_where (held (su_id x))
       (\<lambda>r. r\<lparr>su_reserved := su_reserved r - 1, su_consumed := su_consumed r + 1\<rparr>) (pd_subs t)"
    by (simp_all add: releaseCredit_def consumeCredit_def)
  have settle: "upd_where (held (su_id x)) g (upd_where (\<lambda>r. su_id r = su_id x) (\<lambda>r. r\<lparr>su_reserved := su_reserved r + 1\<rparr>) xs)
      = upd_where (\<lambda>r. su_id r = su_id x) (\<lambda>r. g (r\<lparr>su_reserved := su_reserved r + 1\<rparr>)) xs"
    if "\<forall>r\<in>set xs. 0 \<le> su_reserved r" for g xs
    using that by (induction xs) (auto simp: held_def)
  have nn': "\<forall>r\<in>set (pd_subs s). 0 \<le> su_reserved r" using nn by blast
  have "upd_where p (\<lambda>r. r) xs = xs" for p and xs :: "subscription list" by (induction xs) auto
  then show ?thesis using x(2,3) bal ends
    by (simp add: generate_ends_def t settle [OF nn'])
qed

section \<open>A concrete subscription\<close>

definition demo_premium :: premium_db where
  "demo_premium = \<lparr>pd_next = 5, pd_plans = [\<lparr>pl_id = 1, pl_aiCreditsPerYear = 2\<rparr>], pd_subs = [], pd_txs = []\<rparr>"

definition demo_activated :: premium_db where
  "demo_activated = (case activateForDevelopment 0 7 1 demo_premium of Inr t \<Rightarrow> t | Inl _ \<Rightarrow> demo_premium)"

lemmas demo_premium_defs = demo_premium_def demo_activated_def activateForDevelopment_def write_tx_def Let_def ONE_YEAR_MS_def

lemma demo_activated_step: "activateForDevelopment 0 7 1 demo_premium = Inr demo_activated"
  by (simp add: demo_premium_defs)

lemma ai_credits_are_accounted_for_witness:
  "\<exists>x\<in>set (pd_subs demo_activated). su_allocated x = total ALLOCATION 5 demo_activated \<and> ba_available (toBalanceDto x) = 2"
proof -
  have run: "premium_step\<^sup>*\<^sup>* demo_premium demo_activated"
    by (rule r_into_rtranclp, rule premium_step.activate [OF demo_activated_step])
  have x: "pd_subs demo_activated ! 0 \<in> set (pd_subs demo_activated)" by (simp add: demo_premium_defs)
  have v: "su_id (pd_subs demo_activated ! 0) = 5" "su_allocated (pd_subs demo_activated ! 0) = 2"
    "su_reserved (pd_subs demo_activated ! 0) = 0" "su_consumed (pd_subs demo_activated ! 0) = 0"
    by (simp_all add: demo_premium_defs)
  show ?thesis
    using ai_credits_are_accounted_for [OF run _ _ _ x] x v by (intro bexI [OF _ x]) (simp add: demo_premium_def)
qed

lemma only_success_costs_a_credit_witness:
  "\<exists>t i. generate_begins 1 7 (Some (''image/png'', 100)) demo_activated = Inr (t, i)
     \<and> pd_subs (fst (generate_ends i False t)) = pd_subs demo_activated
     \<and> ba_available (getBalance_ai 1 7 t) = ba_available (getBalance_ai 1 7 demo_activated) - 1"
proof -
  have inv: "premium_inv demo_activated"
    by (rule premium_step_inv [OF premium_step.activate [OF demo_activated_step]]) (simp add: premium_inv_def demo_premium_def)
  obtain t i where r: "generate_begins 1 7 (Some (''image/png'', 100)) demo_activated = Inr (t, i)"
    by (simp add: generate_begins_def reserveCredit_def findActiveSubscription_def demo_premium_defs ALLOWED_MIME_TYPES_def MAX_IMAGE_BYTES_def)
  show ?thesis using only_success_costs_a_credit [OF r inv] r by blast
qed

end
