(* ===== verification/Tokens.thy ===== *)
theory Tokens
  imports Schema
begin

text \<open>
  Sessions (\<^verbatim>\<open>auth/services/token.service.ts\<close>): which roles a session of an audience may assert, issuing a pair
  of tokens, rotating a refresh token by an atomic claim, and revoking. \<open>sha256\<close> and the random token are
  arguments; an access token is its payload, signing is not modelled. The rotation is three statements without a
  transaction; the claim is the first of them and the only one that protects it.
\<close>

section \<open>State\<close>

datatype audience = SESSION_CUSTOMER | SESSION_STAFF | SESSION_EMPLOYEE | SESSION_ADMIN
datatype token_error = REFRESH_TOKEN_INVALID | REFRESH_TOKEN_EXPIRED | SESSION_NOT_FOUND

record refresh_token =
  rt_id :: id
  rt_user :: id
  rt_hash :: string
  rt_audience :: audience
  rt_device :: "string option"
  rt_expiresAt :: ms
  rt_revokedAt :: "ms option"
  rt_createdAt :: ms

record token_db =
  td_next :: id
  td_roles :: "user_role list"
  td_tokens :: "refresh_token list"

record access_token =
  jw_sub :: id
  jw_roles :: "role list"
  jw_audience :: audience
  jw_expiresAt :: ms

definition ACCESS_TOKEN_TTL_SECONDS :: int where "ACCESS_TOKEN_TTL_SECONDS = 15 * 60"
definition REFRESH_TOKEN_TTL_DAYS :: int where "REFRESH_TOKEN_TTL_DAYS = 30"

definition GLOBAL_ADMIN_ROLES :: "role list" where
  "GLOBAL_ADMIN_ROLES = [ROLE_PLATFORM_ADMIN, ROLE_CO_FOUNDER, HR_ADMIN, SALES_ADMIN, PLATFORM_VIEWER]"

fun ROLES_ALLOWED_FOR_AUDIENCE :: "audience \<Rightarrow> role list" where
  "ROLES_ALLOWED_FOR_AUDIENCE SESSION_CUSTOMER = [CUSTOMER]"
| "ROLES_ALLOWED_FOR_AUDIENCE SESSION_STAFF = [SALON_STAFF, SALON_OWNER]"
| "ROLES_ALLOWED_FOR_AUDIENCE SESSION_EMPLOYEE = [FIELD_EXECUTIVE]"
| "ROLES_ALLOWED_FOR_AUDIENCE SESSION_ADMIN = [ROLE_PLATFORM_ADMIN, ROLE_CO_FOUNDER, HR_ADMIN, SALES_ADMIN, PLATFORM_VIEWER]"

section \<open>Issuing\<close>

definition scopeRolesToAudience :: "role list \<Rightarrow> audience \<Rightarrow> role list" where
  "scopeRolesToAudience roles audience = filter (\<lambda>r. r \<in> set (ROLES_ALLOWED_FOR_AUDIENCE audience)) roles"

definition signAccessToken :: "ms \<Rightarrow> id \<Rightarrow> role list \<Rightarrow> audience \<Rightarrow> access_token" where
  "signAccessToken now userId roles audience =
     \<lparr>jw_sub = userId, jw_roles = scopeRolesToAudience roles audience, jw_audience = audience,
      jw_expiresAt = now + ACCESS_TOKEN_TTL_SECONDS * 1000\<rparr>"

definition new_token :: "(string \<Rightarrow> string) \<Rightarrow> ms \<Rightarrow> string \<Rightarrow> id \<Rightarrow> audience \<Rightarrow> string option \<Rightarrow> id \<Rightarrow> refresh_token" where
  "new_token sha now raw userId audience deviceInfo i =
     \<lparr>rt_id = i, rt_user = userId, rt_hash = sha raw, rt_audience = audience, rt_device = deviceInfo,
      rt_expiresAt = now + REFRESH_TOKEN_TTL_DAYS * 24 * 60 * 60000, rt_revokedAt = None, rt_createdAt = now\<rparr>"

definition issueTokenPair :: "(string \<Rightarrow> string) \<Rightarrow> ms \<Rightarrow> string \<Rightarrow> id \<Rightarrow> role list \<Rightarrow> audience \<Rightarrow> string option \<Rightarrow> token_db
    \<Rightarrow> (access_token \<times> string) \<times> token_db" where
  "issueTokenPair sha now raw userId roles audience deviceInfo s =
     ((signAccessToken now userId roles audience, raw),
      s\<lparr>td_tokens := td_tokens s @ [new_token sha now raw userId audience deviceInfo (td_next s)], td_next := td_next s + 1\<rparr>)"

section \<open>Rotation\<close>

definition live :: "ms \<Rightarrow> string \<Rightarrow> refresh_token \<Rightarrow> bool" where
  "live now h r \<longleftrightarrow> rt_hash r = h \<and> rt_revokedAt r = None \<and> rt_expiresAt r > now"

definition revoke :: "ms \<Rightarrow> refresh_token \<Rightarrow> refresh_token" where
  "revoke now r = r\<lparr>rt_revokedAt := Some now\<rparr>"

definition rotate_claim :: "(string \<Rightarrow> string) \<Rightarrow> ms \<Rightarrow> string \<Rightarrow> token_db \<Rightarrow> token_error + token_db" where
  "rotate_claim sha now raw s =
     (if count_where (live now (sha raw)) (td_tokens s) = 0
      then (case find (\<lambda>r. rt_hash r = sha raw) (td_tokens s) of
              None \<Rightarrow> Inl REFRESH_TOKEN_INVALID
            | Some existing \<Rightarrow> if rt_expiresAt existing < now then Inl REFRESH_TOKEN_EXPIRED else Inl REFRESH_TOKEN_INVALID)
      else Inr (s\<lparr>td_tokens := upd_where (live now (sha raw)) (revoke now) (td_tokens s)\<rparr>))"

definition roles_of :: "token_db \<Rightarrow> id \<Rightarrow> user_role list" where
  "roles_of s userId = filter (\<lambda>r. ur_user r = userId) (td_roles s)"

text \<open>The roles a refreshed session may assert, from the rows as they are now.\<close>

definition refreshed_roles :: "token_db \<Rightarrow> refresh_token \<Rightarrow> role list" where
  "refreshed_roles s claimed =
     (let rows = roles_of s (rt_user claimed);
          scoped = scopeRolesToAudience (map ur_role rows) (rt_audience claimed);
          scoped1 = (if rt_audience claimed = SESSION_ADMIN
                     then map ur_role (filter (\<lambda>r. ur_salon r = None \<and> ur_role r \<in> set GLOBAL_ADMIN_ROLES) rows) else scoped)
      in if rt_audience claimed = SESSION_EMPLOYEE \<and> \<not> list_ex (\<lambda>r. ur_role r = FIELD_EXECUTIVE \<and> ur_salon r = None) rows
         then [] else scoped1)"

text \<open>What follows the claim, on the database \<open>s\<close> it finds when it reads.\<close>

definition rotate_issue :: "(string \<Rightarrow> string) \<Rightarrow> ms \<Rightarrow> string \<Rightarrow> string \<Rightarrow> string option \<Rightarrow> token_db
    \<Rightarrow> token_error + ((access_token \<times> string) \<times> token_db)" where
  "rotate_issue sha now raw fresh deviceInfo s =
     theE (find (\<lambda>r. rt_hash r = sha raw) (td_tokens s)) REFRESH_TOKEN_INVALID (\<lambda>claimed.
     guardE (refreshed_roles s claimed \<noteq> []) REFRESH_TOKEN_INVALID
       (Inr (issueTokenPair sha now fresh (rt_user claimed) (refreshed_roles s claimed) (rt_audience claimed)
               (orElse deviceInfo (rt_device claimed)) s)))"

definition rotateRefreshToken :: "(string \<Rightarrow> string) \<Rightarrow> ms \<Rightarrow> string \<Rightarrow> string \<Rightarrow> string option \<Rightarrow> token_db
    \<Rightarrow> token_error + ((access_token \<times> string) \<times> token_db)" where
  "rotateRefreshToken sha now raw fresh deviceInfo s =
     bindE (rotate_claim sha now raw s) (\<lambda>s1. rotate_issue sha now raw fresh deviceInfo s1)"

section \<open>Revocation\<close>

definition revokeRefreshToken :: "(string \<Rightarrow> string) \<Rightarrow> ms \<Rightarrow> string \<Rightarrow> token_db \<Rightarrow> token_db" where
  "revokeRefreshToken sha now raw s =
     s\<lparr>td_tokens := upd_where (\<lambda>r. rt_hash r = sha raw \<and> rt_revokedAt r = None) (revoke now) (td_tokens s)\<rparr>"

definition revokeAllForUser :: "ms \<Rightarrow> id \<Rightarrow> token_db \<Rightarrow> token_db" where
  "revokeAllForUser now userId s =
     s\<lparr>td_tokens := upd_where (\<lambda>r. rt_user r = userId \<and> rt_revokedAt r = None) (revoke now) (td_tokens s)\<rparr>"

definition revokeSession :: "ms \<Rightarrow> id \<Rightarrow> id \<Rightarrow> token_db \<Rightarrow> token_error + token_db" where
  "revokeSession now userId sessionId s =
     theE (find (\<lambda>r. rt_id r = sessionId \<and> rt_user r = userId) (td_tokens s)) SESSION_NOT_FOUND (\<lambda>session.
       Inr (s\<lparr>td_tokens := upd_where (\<lambda>r. rt_id r = rt_id session) (revoke now) (td_tokens s)\<rparr>))"

definition listSessions :: "(string \<Rightarrow> string) \<Rightarrow> ms \<Rightarrow> id \<Rightarrow> string option \<Rightarrow> token_db \<Rightarrow> (id \<times> bool) list" where
  "listSessions sha now userId currentRaw s =
     map (\<lambda>r. (rt_id r, Some (rt_hash r) = map_option sha currentRaw))
       (sort_key (\<lambda>r. - rt_createdAt r)
          (filter (\<lambda>r. rt_user r = userId \<and> rt_revokedAt r = None \<and> rt_expiresAt r > now) (td_tokens s)))"

section \<open>Interleavings\<close>

text \<open>The statements other requests may commit between any two of one rotation; account deletion removes rows.\<close>

inductive token_step :: "(string \<Rightarrow> string) \<Rightarrow> string \<Rightarrow> token_db \<Rightarrow> token_db \<Rightarrow> bool" for sha h s where
  issues: "sha raw \<noteq> h \<Longrightarrow> issueTokenPair sha now raw u roles aud dev s = (pair, t) \<Longrightarrow> token_step sha h s t"
| claims: "rotate_claim sha now raw s = Inr t \<Longrightarrow> token_step sha h s t"
| reissues: "sha fresh \<noteq> h \<Longrightarrow> rotate_issue sha now raw fresh dev s = Inr (pair, t) \<Longrightarrow> token_step sha h s t"
| revokes: "token_step sha h s (revokeRefreshToken sha now raw s)"
| revokes_all: "token_step sha h s (revokeAllForUser now u s)"
| revokes_one: "revokeSession now u i s = Inr t \<Longrightarrow> token_step sha h s t"
| deletes: "token_step sha h s (s\<lparr>td_tokens := filter (\<lambda>r. rt_user r \<noteq> u) (td_tokens s)\<rparr>)"
| roles_change: "token_step sha h s (s\<lparr>td_roles := rs\<rparr>)"

text \<open>Every token with the hash is spent.\<close>

definition spent :: "string \<Rightarrow> token_db \<Rightarrow> bool" where
  "spent h s \<longleftrightarrow> list_all (\<lambda>r. rt_hash r = h \<longrightarrow> rt_revokedAt r \<noteq> None) (td_tokens s)"

lemma spent_upd: "spent h s \<Longrightarrow> spent h (s\<lparr>td_tokens := upd_where p (revoke now) (td_tokens s)\<rparr>)"
  by (auto simp: spent_def list_all_iff in_upd_where revoke_def)

lemma token_step_spent: "token_step sha h s t \<Longrightarrow> spent h s \<Longrightarrow> spent h t"
proof (induction rule: token_step.induct)
  case (claims now raw t)
  then show ?case by (auto simp: rotate_claim_def split: if_splits option.splits intro: spent_upd)
next
  case (revokes_one now u i t)
  then show ?case by (auto simp: revokeSession_def success_simps intro: spent_upd)
qed (auto simp: issueTokenPair_def rotate_issue_def success_simps revokeRefreshToken_def revokeAllForUser_def new_token_def spent_upd,
     auto simp: spent_def list_all_iff)

interpretation spending: invariant "token_step sha h" "spent h" for sha h
  by unfold_locales (rule token_step_spent)

interpretation rotation: single_claim "live now h" "revoke now" for now h
  by unfold_locales (simp add: live_def revoke_def)

lemma claim_spends:
  assumes "rotate_claim sha now raw s = Inr t" "list_all (\<lambda>r. rt_hash r = sha raw \<longrightarrow> rt_expiresAt r > now \<or> rt_revokedAt r \<noteq> None) (td_tokens s)"
  shows "spent (sha raw) t"
proof -
  have t: "td_tokens t = upd_where (live now (sha raw)) (revoke now) (td_tokens s)"
    using assms(1) by (auto simp: rotate_claim_def split: if_splits option.splits)
  show ?thesis
    unfolding spent_def list_all_iff
  proof (intro ballI impI)
    fix y assume "y \<in> set (td_tokens t)" "rt_hash y = sha raw"
    then obtain r where r: "r \<in> set (td_tokens s)" "y = (if live now (sha raw) r then revoke now r else r)"
      by (auto simp: t in_upd_where)
    then show "rt_revokedAt y \<noteq> None"
      using assms(2) \<open>rt_hash y = sha raw\<close> by (cases "live now (sha raw) r") (auto simp: live_def revoke_def list_all_iff)
  qed
qed

lemma spent_fails: "spent (sha raw) s \<Longrightarrow> \<exists>err. rotate_claim sha now raw s = Inl err"
  by (auto simp: rotate_claim_def spent_def list_all_iff count_where_0 live_def split: option.split)

text \<open>C28: a refresh token works once. After a successful claim of a token, whatever other requests do (issue other
  tokens, rotate, revoke, delete accounts, change roles), every later attempt to rotate the same token fails, so two
  requests that present one token never both get a pair.\<close>

theorem refresh_token_is_single_use:
  assumes "rotate_claim sha now raw s = Inr t"
    and "distinct (map rt_hash (td_tokens s))" "(token_step sha (sha raw))\<^sup>*\<^sup>* t u"
  shows "\<exists>err. rotateRefreshToken sha now' raw fresh dev u = Inl err"
proof -
  have "spent (sha raw) t"
  proof (rule claim_spends [OF assms(1)])
    obtain r where r: "r \<in> set (td_tokens s)" "live now (sha raw) r"
      using assms(1) by (auto simp: rotate_claim_def count_where_0 split: if_splits option.splits)
    show "list_all (\<lambda>x. rt_hash x = sha raw \<longrightarrow> rt_expiresAt x > now \<or> rt_revokedAt x \<noteq> None) (td_tokens s)"
      using r distinct_key_eq [OF assms(2) _ r(1)] by (auto simp: list_all_iff live_def)
  qed
  from spent_fails [of sha raw u now', OF spending.run_inv [OF assms(3) this]] obtain err where "rotate_claim sha now' raw u = Inl err" by blast
  then show ?thesis by (auto simp: rotateRefreshToken_def)
qed

text \<open>C29: a session never gains privilege. A rotated session keeps the audience its first login had; the roles in the new
  access token are roles the user holds at that moment, allowed for that audience, and not none; an administrator's
  session asserts only global roles, and a field executive's session needs the global role. The signature itself
  cannot carry a role outside the audience, whatever a caller passes.\<close>

theorem sessions_never_gain_privilege:
  assumes "rotateRefreshToken sha now raw fresh dev s = Inr ((jwt, refresh), t)"
  shows "\<exists>row\<in>set (td_tokens s). rt_hash row = sha raw \<and> jw_sub jwt = rt_user row \<and> jw_audience jwt = rt_audience row
    \<and> jw_roles jwt \<noteq> [] \<and> set (jw_roles jwt) \<subseteq> set (ROLES_ALLOWED_FOR_AUDIENCE (rt_audience row))
    \<and> list_all (\<lambda>r. exists_where (\<lambda>ur. ur_user ur = rt_user row \<and> ur_role ur = r
          \<and> (rt_audience row \<in> {SESSION_ADMIN, SESSION_EMPLOYEE} \<longrightarrow> ur_salon ur = None)) (td_roles s)) (jw_roles jwt)
    \<and> exists_where (\<lambda>r. rt_hash r = sha refresh \<and> rt_audience r = rt_audience row \<and> rt_user r = rt_user row) (td_tokens t)"
proof -
  obtain s1 claimed where cl: "rotate_claim sha now raw s = Inr s1" "find (\<lambda>r. rt_hash r = sha raw) (td_tokens s1) = Some claimed"
    and ne: "refreshed_roles s1 claimed \<noteq> []"
    and out: "issueTokenPair sha now fresh (rt_user claimed) (refreshed_roles s1 claimed) (rt_audience claimed)
               (orElse dev (rt_device claimed)) s1 = ((jwt, refresh), t)"
    using assms by (auto simp: rotateRefreshToken_def rotate_issue_def success_simps)
  have s1: "s1 = s\<lparr>td_tokens := upd_where (live now (sha raw)) (revoke now) (td_tokens s)\<rparr>"
    using cl(1) by (auto simp: rotate_claim_def split: if_splits option.splits)
  obtain row where row: "row \<in> set (td_tokens s)" "claimed = (if live now (sha raw) row then revoke now row else row)"
    using find_SomeD [OF cl(2)] by (auto simp: s1 in_upd_where)
  have same: "rt_hash row = sha raw" "rt_user claimed = rt_user row" "rt_audience claimed = rt_audience row"
    using find_SomeD [OF cl(2)] row(2) by (auto simp: revoke_def split: if_splits)
  have rs: "roles_of s1 (rt_user claimed) = filter (\<lambda>r. ur_user r = rt_user row) (td_roles s)"
    using same by (simp add: roles_of_def s1)
  have allowed: "set (refreshed_roles s1 claimed) \<subseteq> set (ROLES_ALLOWED_FOR_AUDIENCE (rt_audience row))"
    using same by (auto simp: refreshed_roles_def Let_def scopeRolesToAudience_def GLOBAL_ADMIN_ROLES_def split: if_splits)
  then have jw: "jw_roles jwt = refreshed_roles s1 claimed"
    using out same by (auto simp: issueTokenPair_def signAccessToken_def scopeRolesToAudience_def filter_id_conv)
  have held: "exists_where (\<lambda>ur. ur_user ur = rt_user row \<and> ur_role ur = r
          \<and> (rt_audience row \<in> {SESSION_ADMIN, SESSION_EMPLOYEE} \<longrightarrow> ur_salon ur = None)) (td_roles s)"
    if r: "r \<in> set (refreshed_roles s1 claimed)" for r
  proof (cases "rt_audience row")
    case SESSION_EMPLOYEE
    then have "r = FIELD_EXECUTIVE" using r allowed by auto
    then show ?thesis using r SESSION_EMPLOYEE rs same
      by (auto simp: refreshed_roles_def Let_def exists_where_iff list_ex_iff split: if_splits)
  qed (use r rs same in \<open>auto simp: refreshed_roles_def Let_def exists_where_iff scopeRolesToAudience_def split: if_splits\<close>)
  have "exists_where (\<lambda>r. rt_hash r = sha refresh \<and> rt_audience r = rt_audience row \<and> rt_user r = rt_user row) (td_tokens t)"
    using out same by (auto simp: issueTokenPair_def new_token_def exists_where_iff)
  then show ?thesis
    using row(1) same out ne jw allowed held
    by (intro bexI [OF _ row(1)]) (auto simp: issueTokenPair_def signAccessToken_def list_all_iff)
qed

section \<open>A concrete session\<close>

definition demo_tokens :: token_db where
  "demo_tokens = \<lparr>td_next = 2, td_roles = [\<lparr>ur_user = 7, ur_role = CUSTOMER, ur_salon = None\<rparr>,
       \<lparr>ur_user = 7, ur_role = ROLE_PLATFORM_ADMIN, ur_salon = None\<rparr>],
     td_tokens = [new_token (\<lambda>x. x) 0 ''a'' 7 SESSION_CUSTOMER None 1]\<rparr>"

definition demo_claimed :: token_db where
  "demo_claimed = (case rotate_claim (\<lambda>x. x) 5 ''a'' demo_tokens of Inr t \<Rightarrow> t | Inl _ \<Rightarrow> demo_tokens)"

lemmas demo_token_defs = demo_tokens_def demo_claimed_def rotate_claim_def new_token_def live_def revoke_def REFRESH_TOKEN_TTL_DAYS_def

lemma refresh_token_is_single_use_witness:
  "rotate_claim (\<lambda>x. x) 5 ''a'' demo_tokens = Inr demo_claimed
   \<and> (\<exists>err. rotateRefreshToken (\<lambda>x. x) 6 ''a'' ''c'' None (revokeAllForUser 6 9 demo_claimed) = Inl err)"
proof -
  have c: "rotate_claim (\<lambda>x. x) 5 ''a'' demo_tokens = Inr demo_claimed" by (simp add: demo_token_defs)
  have "(token_step (\<lambda>x. x) ''a'')\<^sup>*\<^sup>* demo_claimed (revokeAllForUser 6 9 demo_claimed)"
    by (rule r_into_rtranclp, rule token_step.revokes_all)
  from refresh_token_is_single_use [OF c _ this, of 6 "''c''" None] c show ?thesis by (simp add: demo_tokens_def)
qed

lemma sessions_never_gain_privilege_witness:
  "\<exists>jwt refresh t. rotateRefreshToken (\<lambda>x. x) 5 ''a'' ''b'' None demo_tokens = Inr ((jwt, refresh), t)
     \<and> set (jw_roles jwt) \<subseteq> {CUSTOMER} \<and> jw_roles jwt \<noteq> []"
proof -
  obtain jwt refresh t where r: "rotateRefreshToken (\<lambda>x. x) 5 ''a'' ''b'' None demo_tokens = Inr ((jwt, refresh), t)"
    by (simp add: rotateRefreshToken_def rotate_issue_def refreshed_roles_def roles_of_def scopeRolesToAudience_def issueTokenPair_def demo_token_defs)
  from sessions_never_gain_privilege [OF r] have "jw_roles jwt \<noteq> [] \<and> set (jw_roles jwt) \<subseteq> set (ROLES_ALLOWED_FOR_AUDIENCE SESSION_CUSTOMER)"
    by (auto simp: demo_tokens_def new_token_def)
  with r show ?thesis by auto
qed

end
