(* ===== verification/Otp_Config.thy ===== *)
theory Otp_Config
  imports Money "HOL-Library.Sublist"
begin

text \<open>
  The settings of the one-time codes (\<^verbatim>\<open>auth/services/otp-config.ts\<close>): the environment variables as the process
  holds them, read and parsed by the code's own rules. A string is its bytes below 128 and one character each above
  (Latin-1), whose encoding in UTF-8 takes two.
\<close>

type_synonym process_env = "string \<rightharpoonup> string"

section \<open>Parsing\<close>

fun split_commas :: "string \<Rightarrow> string list" where
  "split_commas [] = [[]]"
| "split_commas (c # cs) = (if c = CHR '','' then [] # split_commas cs
     else (case split_commas cs of [] \<Rightarrow> [[c]] | w # ws \<Rightarrow> (c # w) # ws))"

definition utf8_length :: "string \<Rightarrow> nat" where
  "utf8_length s = sum_list (map (\<lambda>c. if (of_char c :: nat) < 128 then 1 else 2) s)"

definition without_plus :: "string \<Rightarrow> string" where
  "without_plus s = (if take 1 s = ''+'' then drop 1 s else s)"

text \<open>\<open>[1-9]\d{a,b}\<close>, anchored at both ends.\<close>

definition number_between :: "nat \<Rightarrow> nat \<Rightarrow> string \<Rightarrow> bool" where
  "number_between a b s \<longleftrightarrow> Suc a \<le> length s \<and> length s \<le> Suc b \<and> list_all is_digit s \<and> hd s \<noteq> CHR ''0''"

text \<open>\<open>process.env.NAME?.trim()\<close> where absent and empty count alike.\<close>

definition setting :: "process_env \<Rightarrow> string \<Rightarrow> string option" where
  "setting vars name = (case vars name of None \<Rightarrow> None | Some raw \<Rightarrow> if js_trim raw = [] then None else Some (js_trim raw))"

section \<open>Settings\<close>

definition otpHashSecret :: "process_env \<Rightarrow> string option" where
  "otpHashSecret vars = (case vars ''OTP_HASH_SECRET'' of
       None \<Rightarrow> None | Some secret \<Rightarrow> if utf8_length secret \<ge> 32 then Some secret else None)"

definition allowedOtpCallingCodes :: "process_env \<Rightarrow> string list" where
  "allowedOtpCallingCodes vars =
     filter (number_between 0 2)
       (map (\<lambda>v. without_plus (js_trim v)) (split_commas (case vars ''OTP_ALLOWED_COUNTRY_CALLING_CODES'' of None \<Rightarrow> [] | Some v \<Rightarrow> v)))"

record otp_limits =
  ol_globalDaily :: nat
  ol_globalRolling24Hours :: nat
  ol_perCountryDaily :: nat

definition MAX_SAFE_INTEGER :: int where "MAX_SAFE_INTEGER = 2 ^ 53 - 1"

definition positiveIntegerSetting :: "process_env \<Rightarrow> string \<Rightarrow> nat option" where
  "positiveIntegerSetting vars name = (case setting vars name of
       None \<Rightarrow> None
     | Some raw \<Rightarrow> if list_all is_digit raw \<and> parse_int raw \<le> MAX_SAFE_INTEGER \<and> parse_int raw > 0
                   then Some (nat (parse_int raw)) else None)"

definition otpDeliveryLimits :: "process_env \<Rightarrow> otp_limits option" where
  "otpDeliveryLimits vars =
     (case (positiveIntegerSetting vars ''OTP_MAX_DAILY_GLOBAL_SENDS'', positiveIntegerSetting vars ''OTP_MAX_ROLLING_24H_GLOBAL_SENDS'',
            positiveIntegerSetting vars ''OTP_MAX_DAILY_PER_COUNTRY_SENDS'') of
        (Some a, Some b, Some c) \<Rightarrow> Some \<lparr>ol_globalDaily = a, ol_globalRolling24Hours = b, ol_perCountryDaily = c\<rparr>
      | _ \<Rightarrow> None)"

text \<open>The longest allowed calling code that starts the number; the sort is stable.\<close>

definition otpPhoneCallingCode :: "process_env \<Rightarrow> string \<Rightarrow> string option" where
  "otpPhoneCallingCode vars phone =
     find (\<lambda>c. prefix c (without_plus phone)) (sort_key (\<lambda>c. - int (length c)) (allowedOtpCallingCodes vars))"

definition MAX_PILOT_PHONES :: nat where "MAX_PILOT_PHONES = 3"

definition phoneDigits :: "string \<Rightarrow> string" where
  "phoneDigits phone = without_plus (js_trim phone)"

definition otpPilotRestriction :: "process_env \<Rightarrow> bool \<times> string list" where
  "otpPilotRestriction vars = (case setting vars ''OTP_PILOT_ALLOWED_PHONES'' of
       None \<Rightarrow> (False, [])
     | Some raw \<Rightarrow> let entries = map phoneDigits (split_commas raw)
                   in (True, if length entries \<le> MAX_PILOT_PHONES \<and> list_all (number_between 7 14) entries then entries else []))"

definition isOtpPhoneAllowed :: "process_env \<Rightarrow> string \<Rightarrow> bool" where
  "isOtpPhoneAllowed vars phone \<longleftrightarrow> otpPhoneCallingCode vars phone \<noteq> None \<and>
     (let (restricted, phones) = otpPilotRestriction vars in \<not> restricted \<or> phoneDigits phone \<in> set phones)"

datatype api_mode = Post_mode | Manual_v1_mode

definition otpProviderApiMode :: "process_env \<Rightarrow> api_mode option" where
  "otpProviderApiMode vars = (case setting vars ''OTP_PROVIDER_API_MODE'' of
       None \<Rightarrow> Some Post_mode
     | Some v \<Rightarrow> if v = ''post'' then Some Post_mode else if v = ''manual-v1'' then Some Manual_v1_mode else None)"

definition template_char :: "char \<Rightarrow> bool" where
  "template_char c \<longleftrightarrow> is_digit c \<or> c = CHR ''_'' \<or> c = CHR ''-''
     \<or> (65 \<le> (of_char c :: nat) \<and> (of_char c :: nat) \<le> 90) \<or> (97 \<le> (of_char c :: nat) \<and> (of_char c :: nat) \<le> 122)"

definition providerConfigured :: "process_env \<Rightarrow> bool" where
  "providerConfigured vars \<longleftrightarrow> vars ''NODE_ENV'' = Some ''production'' \<and> setting vars ''OTP_PROVIDER_API_KEY'' \<noteq> None
     \<and> otpProviderApiMode vars \<noteq> None
     \<and> (case setting vars ''OTP_PROVIDER_TEMPLATE_NAME'' of None \<Rightarrow> False | Some t \<Rightarrow> length t \<le> 64 \<and> list_all template_char t)"

definition testSenderEnabled :: "process_env \<Rightarrow> bool" where
  "testSenderEnabled vars \<longleftrightarrow> vars ''NODE_ENV'' = Some ''test'' \<and> vars ''OTP_TEST_SENDER_ENABLED'' = Some ''true''"

definition isPhoneOtpConfigured :: "process_env \<Rightarrow> bool" where
  "isPhoneOtpConfigured vars \<longleftrightarrow> (providerConfigured vars \<or> testSenderEnabled vars)
     \<and> (let (restricted, phones) = otpPilotRestriction vars in \<not> restricted \<or> phones \<noteq> [])
     \<and> otpHashSecret vars \<noteq> None \<and> allowedOtpCallingCodes vars \<noteq> [] \<and> otpDeliveryLimits vars \<noteq> None"

section \<open>What the settings can never allow\<close>

lemma calling_code_longest:
  assumes "otpPhoneCallingCode vars phone = Some c"
  shows "c \<in> set (allowedOtpCallingCodes vars) \<and> prefix c (without_plus phone)
    \<and> (\<forall>d \<in> set (allowedOtpCallingCodes vars). prefix d (without_plus phone) \<longrightarrow> length d \<le> length c)"
proof -
  let ?xs = "sort_key (\<lambda>c. - int (length c)) (allowedOtpCallingCodes vars)"
  obtain i where i: "i < length ?xs" "prefix (?xs ! i) (without_plus phone)" "c = ?xs ! i"
    and first: "\<forall>j < i. \<not> prefix (?xs ! j) (without_plus phone)"
    using assms by (auto simp: otpPhoneCallingCode_def find_Some_iff)
  have "length d \<le> length c" if d: "d \<in> set (allowedOtpCallingCodes vars)" "prefix d (without_plus phone)" for d
  proof -
    obtain j where j: "j < length ?xs" "d = ?xs ! j" using d(1) by (metis in_set_conv_nth set_sort)
    have "i \<le> j" using first j(2) d(2) by (meson not_le_imp_less)
    then have "map (\<lambda>c. - int (length c)) ?xs ! i \<le> map (\<lambda>c. - int (length c)) ?xs ! j"
      by (rule sorted_nth_mono [OF sorted_sort_key]) (simp add: j(1)[simplified])
    then show ?thesis using i j by simp
  qed
  moreover have "c \<in> set ?xs" using i(1,3) nth_mem by blast
  ultimately show ?thesis using i by simp
qed

lemma pilot_phones_few: "otpPilotRestriction vars = (restricted, phones) \<Longrightarrow> length phones \<le> MAX_PILOT_PHONES"
  by (auto simp: otpPilotRestriction_def Let_def split: option.splits if_splits)

end
