(* ===== verification/Otp.thy ===== *)
theory Otp
  imports Otp_Config
begin

text \<open>
  One-time codes (\<^verbatim>\<open>auth/services/otp.service.ts\<close>): admission of a request under one
  advisory lock with its cooldown, its windows per phone and its budgets, and verification by conditional updates.
  The hashes, the random code and the environment variables are arguments.
\<close>

section \<open>State\<close>

datatype otp_error = OTP_INVALID | OTP_EXPIRED | OTP_MAX_ATTEMPTS | OTP_RATE_LIMITED "int option" | OTP_DELIVERY_FAILED
datatype hash_version = HMAC_SHA256_V1 | LEGACY_SHA256
datatype attempt_status = RESERVED | ACCEPTED | UNKNOWN

record otp_request =
  or_id :: id
  or_phone :: string
  or_hash :: string
  or_version :: hash_version
  or_purpose :: string
  or_subject :: "id option"
  or_attempts :: int
  or_expiresAt :: ms
  or_verifiedAt :: "ms option"
  or_createdAt :: ms

record delivery_attempt =
  da_id :: id
  da_callingCode :: string
  da_status :: attempt_status
  da_createdAt :: ms

record otp_db =
  od_next :: id
  od_requests :: "otp_request list"
  od_deliveries :: "delivery_attempt list"

text \<open>The environment: the process's variables and the two hash functions.\<close>

record otp_env =
  oe_vars :: process_env
  oe_hmac :: "string \<Rightarrow> string \<Rightarrow> string"
  oe_sha :: "string \<Rightarrow> string"

definition OTP_TTL_MINUTES :: int where "OTP_TTL_MINUTES = 5"
definition MAX_VERIFY_ATTEMPTS :: int where "MAX_VERIFY_ATTEMPTS = 5"
definition MAX_REQUESTS_PER_WINDOW :: nat where "MAX_REQUESTS_PER_WINDOW = 3"
definition REQUEST_WINDOW_MINUTES :: int where "REQUEST_WINDOW_MINUTES = 10"
definition MAX_REQUESTS_PER_DAY :: nat where "MAX_REQUESTS_PER_DAY = 10"
definition RESEND_COOLDOWN_SECONDS :: int where "RESEND_COOLDOWN_SECONDS = 45"

section \<open>Requesting a code\<close>

definition utcDayStart :: "ms \<Rightarrow> ms" where "utcDayStart now = now - now mod 86400000"

definition requested_since :: "string \<Rightarrow> ms \<Rightarrow> otp_db \<Rightarrow> nat" where
  "requested_since phone t s = count_where (\<lambda>r. or_phone r = phone \<and> or_createdAt r \<ge> t) (od_requests s)"

definition delivered_since :: "ms \<Rightarrow> otp_db \<Rightarrow> nat" where
  "delivered_since t s = count_where (\<lambda>d. da_createdAt d \<ge> t) (od_deliveries s)"

fun newest_request :: "otp_request list \<Rightarrow> otp_request option" where
  "newest_request [] = None"
| "newest_request (x # xs) = (case newest_request xs of None \<Rightarrow> Some x
     | Some y \<Rightarrow> Some (if or_createdAt y > or_createdAt x then y else x))"

definition pending :: "string \<Rightarrow> string \<Rightarrow> id option \<Rightarrow> otp_request \<Rightarrow> bool" where
  "pending phone purpose subject r \<longleftrightarrow> or_phone r = phone \<and> or_purpose r = purpose \<and> or_subject r = subject \<and> or_verifiedAt r = None"

text \<open>The transaction under the delivery lock: the challenge and the reservation, or the refusal.\<close>

definition admit :: "otp_limits \<Rightarrow> ms \<Rightarrow> string \<Rightarrow> string \<Rightarrow> string \<Rightarrow> string \<Rightarrow> id option \<Rightarrow> otp_db \<Rightarrow> otp_error + (otp_db \<times> id \<times> id)" where
  "admit limits now callingCode codeHash phone purpose subject s =
     (let s1 = s\<lparr>od_deliveries := filter (\<lambda>d. \<not> da_createdAt d < min (now - 24 * 60 * 60000) (utcDayStart now)) (od_deliveries s)\<rparr>
      in case newest_request (filter (\<lambda>r. or_phone r = phone \<and> or_createdAt r > now - RESEND_COOLDOWN_SECONDS * 1000) (od_requests s1)) of
           Some lastRequest \<Rightarrow>
             Inl (OTP_RATE_LIMITED (Some (max 1 (- ((now - or_createdAt lastRequest - RESEND_COOLDOWN_SECONDS * 1000) div 1000)))))
         | None \<Rightarrow>
             guardE (\<not> (delivered_since (utcDayStart now) s1 \<ge> ol_globalDaily limits
                  \<or> delivered_since (now - 24 * 60 * 60000) s1 \<ge> ol_globalRolling24Hours limits
                  \<or> count_where (\<lambda>d. da_callingCode d = callingCode \<and> da_createdAt d \<ge> utcDayStart now) (od_deliveries s1) \<ge> ol_perCountryDaily limits
                  \<or> requested_since phone (now - REQUEST_WINDOW_MINUTES * 60000) s1 \<ge> MAX_REQUESTS_PER_WINDOW
                  \<or> requested_since phone (now - 24 * 60 * 60000) s1 \<ge> MAX_REQUESTS_PER_DAY)) (OTP_RATE_LIMITED None)
               (Inr (s1\<lparr>od_requests := upd_where (pending phone purpose subject) (\<lambda>r. r\<lparr>or_verifiedAt := Some now\<rparr>) (od_requests s1)
                          @ [\<lparr>or_id = od_next s1, or_phone = phone, or_hash = codeHash, or_version = HMAC_SHA256_V1, or_purpose = purpose,
                              or_subject = subject, or_attempts = 0, or_expiresAt = now + OTP_TTL_MINUTES * 60000, or_verifiedAt = None,
                              or_createdAt = now\<rparr>],
                       od_deliveries := od_deliveries s1 @ [\<lparr>da_id = od_next s1 + 1, da_callingCode = callingCode, da_status = RESERVED,
                              da_createdAt = now\<rparr>],
                       od_next := od_next s1 + 2\<rparr>, od_next s1, od_next s1 + 1)))"

definition request_begins :: "otp_env \<Rightarrow> ms \<Rightarrow> string \<Rightarrow> string \<Rightarrow> string \<Rightarrow> id option \<Rightarrow> otp_db \<Rightarrow> otp_error + (otp_db \<times> id \<times> id)" where
  "request_begins env now code phone purpose subject s =
     theE (otpHashSecret (oe_vars env)) OTP_DELIVERY_FAILED (\<lambda>secret.
     theE (otpDeliveryLimits (oe_vars env)) OTP_DELIVERY_FAILED (\<lambda>limits.
     guardE (isPhoneOtpConfigured (oe_vars env)) OTP_DELIVERY_FAILED
    (guardE (isOtpPhoneAllowed (oe_vars env) phone) OTP_DELIVERY_FAILED
    (theE (otpPhoneCallingCode (oe_vars env) phone) OTP_DELIVERY_FAILED (\<lambda>callingCode.
       admit limits now callingCode (oe_hmac env secret code) phone purpose subject s)))))"

text \<open>After the send: a failure spends the challenge and leaves the reservation counted.\<close>

definition send_failed :: "ms \<Rightarrow> id \<Rightarrow> id \<Rightarrow> otp_db \<Rightarrow> otp_db" where
  "send_failed now requestId attemptId s =
     s\<lparr>od_requests := upd_where (\<lambda>r. or_id r = requestId \<and> or_verifiedAt r = None) (\<lambda>r. r\<lparr>or_verifiedAt := Some now\<rparr>) (od_requests s),
       od_deliveries := upd_where (\<lambda>d. da_id d = attemptId) (\<lambda>d. d\<lparr>da_status := UNKNOWN\<rparr>) (od_deliveries s)\<rparr>"

definition send_accepted :: "id \<Rightarrow> otp_db \<Rightarrow> otp_db" where
  "send_accepted attemptId s =
     s\<lparr>od_deliveries := upd_where (\<lambda>d. da_id d = attemptId) (\<lambda>d. d\<lparr>da_status := ACCEPTED\<rparr>) (od_deliveries s)\<rparr>"

section \<open>Verifying a code\<close>

definition matchesHash :: "otp_env \<Rightarrow> string \<Rightarrow> otp_request \<Rightarrow> bool" where
  "matchesHash env code r = (case or_version r of
       LEGACY_SHA256 \<Rightarrow> oe_sha env code = or_hash r
     | HMAC_SHA256_V1 \<Rightarrow> (case otpHashSecret (oe_vars env) of Some secret \<Rightarrow> oe_hmac env secret code = or_hash r | None \<Rightarrow> False))"

definition open_challenge :: "ms \<Rightarrow> id \<Rightarrow> otp_request \<Rightarrow> bool" where
  "open_challenge now i r \<longleftrightarrow> or_id r = i \<and> or_verifiedAt r = None \<and> or_expiresAt r > now \<and> or_attempts r < MAX_VERIFY_ATTEMPTS"

definition currentState :: "ms \<Rightarrow> id \<Rightarrow> otp_db \<Rightarrow> otp_error" where
  "currentState now i s = (case find (\<lambda>r. or_id r = i) (od_requests s) of
       None \<Rightarrow> OTP_INVALID
     | Some current \<Rightarrow> if or_expiresAt current \<le> now then OTP_EXPIRED
                       else if or_attempts current \<ge> MAX_VERIFY_ATTEMPTS then OTP_MAX_ATTEMPTS else OTP_INVALID)"

text \<open>
  What happened to the challenge \<open>i\<close> is the result: the caller only sees whether it is \<open>Consumed\<close>. The challenge is
  read from \<open>pre\<close>, the conditional update runs on \<open>s\<close>.
\<close>

datatype verdict = Consumed id | Guessed_wrong id | Refused otp_error

definition verifyOtp :: "otp_env \<Rightarrow> ms \<Rightarrow> otp_db \<Rightarrow> otp_db \<Rightarrow> string \<Rightarrow> string \<Rightarrow> string \<Rightarrow> id option \<Rightarrow> otp_db \<times> verdict" where
  "verifyOtp env now pre s phone code purpose subject =
     (case newest_request (filter (pending phone purpose subject) (od_requests pre)) of
        None \<Rightarrow> (s, Refused OTP_INVALID)
      | Some request \<Rightarrow>
          if or_expiresAt request \<le> now then
            (s\<lparr>od_requests := upd_where (\<lambda>r. or_id r = or_id request \<and> or_verifiedAt r = None \<and> or_expiresAt r \<le> now)
                 (\<lambda>r. r\<lparr>or_verifiedAt := Some now\<rparr>) (od_requests s)\<rparr>, Refused OTP_EXPIRED)
          else if or_attempts request \<ge> MAX_VERIFY_ATTEMPTS then (s, Refused OTP_MAX_ATTEMPTS)
          else if \<not> matchesHash env code request then
            (if count_where (open_challenge now (or_id request)) (od_requests s) = 0
             then (s, Refused (currentState now (or_id request) s))
             else (s\<lparr>od_requests := upd_where (open_challenge now (or_id request)) (\<lambda>r. r\<lparr>or_attempts := or_attempts r + 1\<rparr>) (od_requests s)\<rparr>,
                   Guessed_wrong (or_id request)))
          else (if count_where (open_challenge now (or_id request)) (od_requests s) \<noteq> 1
                then (s, Refused (currentState now (or_id request) s))
                else (s\<lparr>od_requests := upd_where (open_challenge now (or_id request)) (\<lambda>r. r\<lparr>or_verifiedAt := Some now\<rparr>) (od_requests s)\<rparr>,
                      Consumed (or_id request))))"

section \<open>Runs\<close>

text \<open>Any interleaving of the statements: a verification may have read any snapshot, clocks are arbitrary.\<close>

inductive otp_run :: "otp_db \<Rightarrow> verdict list \<Rightarrow> otp_db \<Rightarrow> bool" for s0 where
  start: "otp_run s0 [] s0"
| admits: "otp_run s0 vs s \<Longrightarrow> admit limits now cc h ph pu su s = Inr (t, i, j) \<Longrightarrow> otp_run s0 vs t"
| fails: "otp_run s0 vs s \<Longrightarrow> otp_run s0 vs (send_failed now i j s)"
| accepts: "otp_run s0 vs s \<Longrightarrow> otp_run s0 vs (send_accepted j s)"
| verifies: "otp_run s0 vs s \<Longrightarrow> verifyOtp env now pre s ph code pu su = (t, v) \<Longrightarrow> otp_run s0 (v # vs) t"
| deletes: "otp_run s0 vs s \<Longrightarrow> otp_run s0 vs (s\<lparr>od_requests := filter (\<lambda>r. or_phone r \<noteq> ph) (od_requests s)\<rparr>)"

section \<open>One code, one login, five guesses\<close>

definition tally :: "verdict list \<Rightarrow> otp_db \<Rightarrow> bool" where
  "tally vs s \<longleftrightarrow> distinct (map or_id (od_requests s)) \<and> list_all (\<lambda>r. or_id r < od_next s) (od_requests s)
     \<and> (\<forall>i. count_list vs (Consumed i) \<le> 1 \<and> int (count_list vs (Guessed_wrong i)) \<le> MAX_VERIFY_ATTEMPTS
          \<and> (0 < count_list vs (Consumed i) + count_list vs (Guessed_wrong i) \<longrightarrow> i < od_next s))
     \<and> list_all (\<lambda>r. (0 < count_list vs (Consumed (or_id r)) \<longrightarrow> or_verifiedAt r \<noteq> None)
          \<and> int (count_list vs (Guessed_wrong (or_id r))) \<le> or_attempts r) (od_requests s)"

definition tame :: "(otp_request \<Rightarrow> otp_request) \<Rightarrow> bool" where
  "tame f \<longleftrightarrow> (\<forall>r. or_id (f r) = or_id r \<and> or_attempts (f r) \<ge> or_attempts r \<and> (or_verifiedAt r \<noteq> None \<longrightarrow> or_verifiedAt (f r) \<noteq> None))"

lemma tally_upd:
  assumes "tally vs s" "tame f" "od_requests t = upd_where p f (od_requests s)" "od_next t = od_next s"
  shows "tally vs t"
proof -
  have "distinct (map or_id (od_requests t))" using assms(1-3) by (simp add: tally_def tame_def map_upd_where)
  moreover have "(0 < count_list vs (Consumed (or_id r)) \<longrightarrow> or_verifiedAt r \<noteq> None) \<and> or_id r < od_next s
      \<and> int (count_list vs (Guessed_wrong (or_id r))) \<le> or_attempts r" if r: "r \<in> set (od_requests t)" for r
  proof -
    obtain q where q: "q \<in> set (od_requests s)" "r = (if p q then f q else q)" using r by (auto simp: assms(3) in_upd_where)
    have "or_id r = or_id q" "or_attempts q \<le> or_attempts r" "or_verifiedAt q \<noteq> None \<longrightarrow> or_verifiedAt r \<noteq> None"
      using assms(2) q(2) by (simp_all add: tame_def)
    moreover have "(0 < count_list vs (Consumed (or_id q)) \<longrightarrow> or_verifiedAt q \<noteq> None) \<and> or_id q < od_next s
      \<and> int (count_list vs (Guessed_wrong (or_id q))) \<le> or_attempts q"
      using assms(1) q(1) by (simp add: tally_def list_all_iff)
    ultimately show ?thesis by fastforce
  qed
  ultimately show ?thesis using assms(1,4) by (simp add: tally_def list_all_iff)
qed

lemma tame_verified: "tame (\<lambda>r. r\<lparr>or_verifiedAt := Some now\<rparr>)"
  by (simp add: tame_def)

lemma admit_tally:
  assumes "tally vs s" "admit limits now cc h ph pu su s = Inr (t, i, j)"
  shows "tally vs t"
proof -
  obtain new where t: "od_requests t = upd_where (pending ph pu su) (\<lambda>r. r\<lparr>or_verifiedAt := Some now\<rparr>) (od_requests s) @ [new]"
    "od_next t = od_next s + 2" "or_id new = od_next s" "or_attempts new = 0"
    using assms(2) by (auto simp: admit_def Let_def success_simps split: option.splits)
  have u: "tally vs (s\<lparr>od_requests := upd_where (pending ph pu su) (\<lambda>r. r\<lparr>or_verifiedAt := Some now\<rparr>) (od_requests s)\<rparr>)"
    by (rule tally_upd [OF assms(1) tame_verified]) simp_all
  have fresh: "count_list vs (Consumed (od_next s)) = 0" "count_list vs (Guessed_wrong (od_next s)) = 0"
    using assms(1) by (auto simp: tally_def)
  show ?thesis using u t fresh by (auto simp: tally_def list_all_iff less_SucI intro: less_trans)
qed

lemma tally_event:
  assumes "tally vs s" "count_where (open_challenge now i) (od_requests s) \<noteq> 0"
    and "od_requests t = upd_where (open_challenge now i) f (od_requests s)" "od_next t = od_next s" "tame f"
    and "v = Consumed i \<and> (\<forall>r. or_verifiedAt (f r) \<noteq> None) \<or> v = Guessed_wrong i \<and> (\<forall>r. or_attempts (f r) = or_attempts r + 1)"
  shows "tally (v # vs) t"
proof -
  obtain r where r: "r \<in> set (od_requests s)" "or_id r = i" "or_verifiedAt r = None" "or_attempts r < MAX_VERIFY_ATTEMPTS"
    "open_challenge now i r"
    using assms(2) unfolding count_where_pos by (auto simp: open_challenge_def)
  have none: "count_list vs (Consumed i) = 0" "int (count_list vs (Guessed_wrong i)) \<le> or_attempts r" "i < od_next s"
    using assms(1) r by (auto simp: tally_def list_all_iff)
  have t: "tally vs t" by (rule tally_upd [OF assms(1,5,3,4)])
  have hit: "q = f r" if "q \<in> set (od_requests t)" "or_id q = i" for q
  proof -
    obtain q0 where q0: "q0 \<in> set (od_requests s)" "q = (if open_challenge now i q0 then f q0 else q0)"
      using \<open>q \<in> set (od_requests t)\<close> by (auto simp: assms(3) in_upd_where)
    then have "or_id q0 = or_id r" using that(2) r(2) assms(5) by (auto simp: tame_def split: if_splits)
    then have "q0 = r" using distinct_key_eq [of or_id "od_requests s" q0 r] assms(1) q0(1) r(1) by (simp add: tally_def)
    then show ?thesis using q0(2) r(5) by simp
  qed
  show ?thesis
    using assms(6)
  proof (elim disjE conjE)
    assume v: "v = Consumed i" "\<forall>r. or_verifiedAt (f r) \<noteq> None"
    show ?thesis using t none v hit assms(4) by (auto simp: tally_def list_all_iff)
  next
    assume v: "v = Guessed_wrong i" "\<forall>r. or_attempts (f r) = or_attempts r + 1"
    have "1 + int (count_list vs (Guessed_wrong (or_id q))) \<le> or_attempts q" if "q \<in> set (od_requests t)" "or_id q = i" for q
      using hit [OF that] v(2) none(2) that(2) by simp
    then show ?thesis using t none v(1) r(4) assms(4) by (auto simp: tally_def list_all_iff)
  qed
qed

lemma tally_refused: "tally (Refused err # vs) s = tally vs s"
  by (simp add: tally_def)

lemma verify_tally:
  assumes "tally vs s" "verifyOtp env now pre s ph code pu su = (t, v)"
  shows "tally (v # vs) t"
proof (cases "newest_request (filter (pending ph pu su) (od_requests pre))")
  case None
  then show ?thesis using assms by (auto simp: verifyOtp_def tally_refused)
next
  case (Some request)
  let ?i = "or_id request"
  note d = assms(2) [unfolded verifyOtp_def Some option.case]
  consider (expired) "or_expiresAt request \<le> now" | (full) "\<not> or_expiresAt request \<le> now" "or_attempts request \<ge> MAX_VERIFY_ATTEMPTS"
    | (wrong) "\<not> or_expiresAt request \<le> now" "\<not> or_attempts request \<ge> MAX_VERIFY_ATTEMPTS" "\<not> matchesHash env code request"
    | (right) "\<not> or_expiresAt request \<le> now" "\<not> or_attempts request \<ge> MAX_VERIFY_ATTEMPTS" "matchesHash env code request" by blast
  then show ?thesis
  proof cases
    case expired
    have "tally vs (s\<lparr>od_requests := upd_where (\<lambda>r. or_id r = or_id request \<and> or_verifiedAt r = None \<and> or_expiresAt r \<le> now)
                 (\<lambda>r. r\<lparr>or_verifiedAt := Some now\<rparr>) (od_requests s)\<rparr>)"
      by (rule tally_upd [OF assms(1) tame_verified]) simp_all
    then show ?thesis using d expired by (auto simp: tally_refused)
  next
    case full
    then show ?thesis using d assms(1) by (auto simp: tally_refused)
  next
    case wrong
    show ?thesis
    proof (cases "count_where (open_challenge now ?i) (od_requests s) = 0")
      case True
      then show ?thesis using d wrong assms(1) by (auto simp: tally_refused)
    next
      case False
      then show ?thesis using d wrong
        by (intro tally_event [OF assms(1) False, where f = "\<lambda>r. r\<lparr>or_attempts := or_attempts r + 1\<rparr>"]) (auto simp: tame_def)
    qed
  next
    case right
    show ?thesis
    proof (cases "count_where (open_challenge now ?i) (od_requests s) = 1")
      case False
      then show ?thesis using d right assms(1) by (auto simp: tally_refused)
    next
      case True
      then have "count_where (open_challenge now ?i) (od_requests s) \<noteq> 0" by simp
      then show ?thesis using d right True
        by (intro tally_event [OF assms(1), where f = "\<lambda>r. r\<lparr>or_verifiedAt := Some now\<rparr>" and now = now]) (auto simp: tame_def)
    qed
  qed
qed

lemma otp_run_tally: "otp_run s0 vs s \<Longrightarrow> od_requests s0 = [] \<Longrightarrow> tally vs s"
proof (induction rule: otp_run.induct)
  case start
  then show ?case by (simp add: tally_def MAX_VERIFY_ATTEMPTS_def)
next
  case (admits vs s limits now cc h ph pu su t i j)
  then show ?case by (blast intro: admit_tally)
next
  case (fails vs s now i j)
  show ?case
    by (rule tally_upd [OF fails.IH [OF fails.prems] tame_verified [of now], where p = "\<lambda>r. or_id r = i \<and> or_verifiedAt r = None"])
      (simp_all add: send_failed_def)
next
  case (accepts vs s j)
  then show ?case by (simp add: send_accepted_def tally_def)
next
  case (verifies vs s env now pre ph code pu su t v)
  then show ?case by (blast intro: verify_tally)
next
  case (deletes vs s ph)
  then show ?case by (auto simp: tally_def list_all_iff distinct_map_filter)
qed

text \<open>C30: a code opens one session and allows five guesses. However requests, sends and verifications interleave, and
  whatever stale rows the verifications read, a challenge is consumed at most once and at most five wrong codes are
  ever compared with it and counted.\<close>

theorem one_login_and_five_guesses:
  assumes "otp_run s0 vs s" "od_requests s0 = []"
  shows "count_list vs (Consumed i) \<le> 1 \<and> count_list vs (Guessed_wrong i) \<le> 5"
  using otp_run_tally [OF assms] by (auto simp: tally_def MAX_VERIFY_ATTEMPTS_def)

section \<open>Rationing\<close>

text \<open>In the \<open>w\<close> milliseconds up to any moment the number has been sent at most \<open>n\<close> codes.\<close>

definition rationed :: "string \<Rightarrow> int \<Rightarrow> nat \<Rightarrow> otp_db \<Rightarrow> bool" where
  "rationed phone w n s \<longleftrightarrow>
     (\<forall>t. count_where (\<lambda>r. or_phone r = phone \<and> t - w \<le> or_createdAt r \<and> or_createdAt r \<le> t) (od_requests s) \<le> n)"

definition spaced :: "string \<Rightarrow> otp_db \<Rightarrow> bool" where
  "spaced phone s \<longleftrightarrow> sorted_wrt (\<lambda>a b. or_phone a = phone \<longrightarrow> or_phone b = phone \<longrightarrow> or_createdAt b - or_createdAt a \<ge> RESEND_COOLDOWN_SECONDS * 1000)
     (od_requests s)"

definition stamps :: "otp_db \<Rightarrow> (string \<times> ms) list" where
  "stamps s = map (\<lambda>r. (or_phone r, or_createdAt r)) (od_requests s)"

definition in_window :: "string \<Rightarrow> ms \<Rightarrow> ms \<Rightarrow> string \<times> ms \<Rightarrow> bool" where
  "in_window phone a b x \<longleftrightarrow> fst x = phone \<and> a \<le> snd x \<and> snd x \<le> b"

lemma rationed_stamps: "rationed phone w n s \<longleftrightarrow> (\<forall>t. count_where (in_window phone (t - w) t) (stamps s) \<le> n)"
  by (simp add: rationed_def stamps_def count_where_def filter_map o_def in_window_def)

lemma spaced_stamps: "spaced phone s \<longleftrightarrow>
    sorted_wrt (\<lambda>a b. fst a = phone \<longrightarrow> fst b = phone \<longrightarrow> snd b - snd a \<ge> RESEND_COOLDOWN_SECONDS * 1000) (stamps s)"
  by (simp add: spaced_def stamps_def sorted_wrt_map)

lemma stamps_upd: "(\<And>r. or_phone (f r) = or_phone r \<and> or_createdAt (f r) = or_createdAt r) \<Longrightarrow>
    map (\<lambda>r. (or_phone r, or_createdAt r)) (upd_where p f rs) = map (\<lambda>r. (or_phone r, or_createdAt r)) rs"
  by (simp add: map_upd_where)

lemma newest_request_None [simp]: "newest_request xs = None \<longleftrightarrow> xs = []"
  by (cases xs) (auto split: option.splits)

lemma admit_stamps:
  assumes "admit limits now cc h ph pu su s = Inr (t, i, j)"
  shows "stamps t = stamps s @ [(ph, now)]"
    and "x \<in> set (stamps s) \<Longrightarrow> fst x = ph \<Longrightarrow> snd x \<le> now - RESEND_COOLDOWN_SECONDS * 1000"
    and "count_where (\<lambda>x. fst x = ph \<and> now - REQUEST_WINDOW_MINUTES * 60000 \<le> snd x) (stamps s) < MAX_REQUESTS_PER_WINDOW"
    and "count_where (\<lambda>x. fst x = ph \<and> now - 24 * 60 * 60000 \<le> snd x) (stamps s) < MAX_REQUESTS_PER_DAY"
  using assms
  by (auto simp: admit_def Let_def success_simps stamps_def map_upd_where requested_since_def count_where_def filter_map o_def
      filter_empty_conv not_le split: option.splits)

text \<open>A new stamp that saw fewer than \<open>n\<close> in its own window keeps every window within \<open>n\<close>.\<close>

lemma window_snoc:
  assumes "\<forall>t. count_where (in_window phone (t - w) t) xs \<le> n"
    and "count_where (\<lambda>x. fst x = phone \<and> now - w \<le> snd x) xs < n"
  shows "count_where (in_window phone (t - w) t) (xs @ [(phone, now)]) \<le> n"
proof (cases "t - w \<le> now \<and> now \<le> t")
  case True
  have "count_where (in_window phone (t - w) t) xs \<le> count_where (\<lambda>x. fst x = phone \<and> now - w \<le> snd x) xs"
    by (rule count_where_mono) (use True in \<open>auto simp: in_window_def\<close>)
  then show ?thesis using assms(2) by (simp add: in_window_def)
next
  case False
  then have "\<not> in_window phone (t - w) t (phone, now)" by (auto simp: in_window_def)
  then show ?thesis using assms(1) by simp
qed

lemma other_phone: "fst x \<noteq> phone \<Longrightarrow> \<not> in_window phone a b x"
  by (simp add: in_window_def)

lemma admit_rationed:
  assumes "admit limits now cc h ph pu su s = Inr (t, i, j)"
  shows "rationed phone (REQUEST_WINDOW_MINUTES * 60000) MAX_REQUESTS_PER_WINDOW s \<Longrightarrow> rationed phone (REQUEST_WINDOW_MINUTES * 60000) MAX_REQUESTS_PER_WINDOW t"
    and "rationed phone (24 * 60 * 60000) MAX_REQUESTS_PER_DAY s \<Longrightarrow> rationed phone (24 * 60 * 60000) MAX_REQUESTS_PER_DAY t"
    and "spaced phone s \<Longrightarrow> spaced phone t"
proof -
  note st = admit_stamps [OF assms]
  show "rationed phone (REQUEST_WINDOW_MINUTES * 60000) MAX_REQUESTS_PER_WINDOW s \<Longrightarrow> rationed phone (REQUEST_WINDOW_MINUTES * 60000) MAX_REQUESTS_PER_WINDOW t"
    unfolding rationed_stamps st(1) using window_snoc [OF _ st(3)] by (cases "phone = ph") (auto simp: other_phone)
  show "rationed phone (24 * 60 * 60000) MAX_REQUESTS_PER_DAY s \<Longrightarrow> rationed phone (24 * 60 * 60000) MAX_REQUESTS_PER_DAY t"
    unfolding rationed_stamps st(1) using window_snoc [OF _ st(4)] by (cases "phone = ph") (auto simp: other_phone)
  show "spaced phone s \<Longrightarrow> spaced phone t"
    unfolding spaced_stamps st(1) using st(2) by (fastforce simp: sorted_wrt_append)
qed

lemma verify_stamps: "verifyOtp env now pre s ph code pu su = (t, v) \<Longrightarrow> stamps t = stamps s"
  by (auto simp: verifyOtp_def stamps_def map_upd_where split: option.splits if_splits)

lemma send_stamps [simp]: "stamps (send_failed now i j s) = stamps s" "stamps (send_accepted j s) = stamps s"
  by (simp_all add: send_failed_def send_accepted_def stamps_def map_upd_where)

text \<open>First the codes whose rows are still stored.\<close>

lemma stored_codes_rationed:
  assumes "otp_run s0 vs s" "od_requests s0 = []"
  shows "rationed phone (REQUEST_WINDOW_MINUTES * 60000) MAX_REQUESTS_PER_WINDOW s
    \<and> rationed phone (24 * 60 * 60000) MAX_REQUESTS_PER_DAY s \<and> spaced phone s"
  using assms
proof (induction rule: otp_run.induct)
  case start
  then show ?case by (simp add: rationed_def spaced_def)
next
  case (admits vs s limits now cc h ph pu su t i j)
  then show ?case using admit_rationed [OF admits.hyps(2)] by blast
next
  case (fails vs s now i j)
  then show ?case by (simp add: rationed_stamps spaced_stamps)
next
  case (accepts vs s j)
  then show ?case by (simp add: rationed_stamps spaced_stamps)
next
  case (verifies vs s env now pre ph code pu su t v)
  then show ?case by (simp add: rationed_stamps spaced_stamps verify_stamps [OF verifies.hyps(2)])
next
  case (deletes vs s ph)
  have le: "count_where p (filter q rs) \<le> count_where p rs" for p q and rs :: "otp_request list"
    by (induction rs) auto
  from deletes show ?case
    unfolding rationed_def spaced_def by (auto intro: order_trans [OF le] sorted_wrt_filter)
qed

text \<open>
  Now the codes themselves: the same steps, with a record of what was admitted for sending and when the rows of a number
  were deleted together with its account (\<^verbatim>\<open>auth.service.ts\<close>), newest first.
\<close>

datatype otp_event = Code_admitted string ms | Records_deleted string

inductive otp_trace :: "otp_db \<Rightarrow> otp_event list \<Rightarrow> otp_db \<Rightarrow> bool" for s0 where
  starts: "otp_trace s0 [] s0"
| admitted: "otp_trace s0 evs s \<Longrightarrow> admit limits now cc h ph pu su s = Inr (t, i, j) \<Longrightarrow> otp_trace s0 (Code_admitted ph now # evs) t"
| failed: "otp_trace s0 evs s \<Longrightarrow> otp_trace s0 evs (send_failed now i j s)"
| accepted: "otp_trace s0 evs s \<Longrightarrow> otp_trace s0 evs (send_accepted j s)"
| verified: "otp_trace s0 evs s \<Longrightarrow> verifyOtp env now pre s ph code pu su = (t, v) \<Longrightarrow> otp_trace s0 evs t"
| deleted: "otp_trace s0 evs s \<Longrightarrow>
    otp_trace s0 (Records_deleted ph # evs) (s\<lparr>od_requests := filter (\<lambda>r. or_phone r \<noteq> ph) (od_requests s)\<rparr>)"

text \<open>The times at which codes were admitted to a number since its rows were last deleted, newest first.\<close>

fun since_deletion :: "string \<Rightarrow> otp_event list \<Rightarrow> ms list" where
  "since_deletion phone [] = []"
| "since_deletion phone (Code_admitted ph now # evs) =
     (if ph = phone then now # since_deletion phone evs else since_deletion phone evs)"
| "since_deletion phone (Records_deleted ph # evs) = (if ph = phone then [] else since_deletion phone evs)"

lemma otp_trace_run: "otp_trace s0 evs s \<Longrightarrow> \<exists>vs. otp_run s0 vs s"
  by (induction rule: otp_trace.induct) (blast intro: otp_run.intros)+

lemma trace_stamps:
  "otp_trace s0 evs s \<Longrightarrow> od_requests s0 = [] \<Longrightarrow>
     map snd (filter (\<lambda>x. fst x = phone) (stamps s)) = rev (since_deletion phone evs)"
proof (induction rule: otp_trace.induct)
  case starts
  then show ?case by (simp add: stamps_def)
next
  case (admitted evs s limits now cc h ph pu su t i j)
  then show ?case by (simp add: admit_stamps(1) [OF admitted.hyps(2)])
next
  case (verified evs s env now pre ph code pu su t v)
  then show ?case by (simp add: verify_stamps [OF verified.hyps(2)])
next
  case (deleted evs s ph)
  have "stamps (s\<lparr>od_requests := filter (\<lambda>r. or_phone r \<noteq> ph) (od_requests s)\<rparr>) = filter (\<lambda>x. fst x \<noteq> ph) (stamps s)"
    by (simp add: stamps_def filter_map o_def)
  moreover have "filter (\<lambda>x. fst x = phone) (filter (\<lambda>x. fst x \<noteq> ph) xs) = (if ph = phone then [] else filter (\<lambda>x. fst x = phone) xs)"
    for xs :: "(string \<times> ms) list"
    by (induction xs) auto
  ultimately show ?case using deleted by simp
qed simp_all

text \<open>C31: codes are rationed. Whatever requests, sends, verifications and account deletions ran, in whatever order and
  on whatever clocks: of the codes that were admitted to a number since its records were last deleted with an account, no
  ten minutes hold more than three, no day more than ten, and any two are at least 45 seconds apart in the order they
  were admitted. The list is what was admitted, not what is still stored.\<close>

theorem codes_are_rationed:
  assumes "otp_trace s0 evs s" "od_requests s0 = []"
  shows "(\<forall>t. count_where (\<lambda>x. t - 10 * 60000 \<le> x \<and> x \<le> t) (since_deletion phone evs) \<le> 3)
    \<and> (\<forall>t. count_where (\<lambda>x. t - 24 * 60 * 60000 \<le> x \<and> x \<le> t) (since_deletion phone evs) \<le> 10)
    \<and> sorted_wrt (\<lambda>newer older. newer - older \<ge> 45 * 1000) (since_deletion phone evs)"
proof -
  obtain vs where run: "otp_run s0 vs s" using otp_trace_run [OF assms(1)] by blast
  note stored = stored_codes_rationed [OF run assms(2), of phone, unfolded rationed_stamps spaced_stamps]
  note list = trace_stamps [OF assms, of phone]
  have window: "count_where (\<lambda>x. a \<le> x \<and> x \<le> b) (since_deletion phone evs) = count_where (in_window phone a b) (stamps s)" for a b
  proof -
    have "count_where (\<lambda>x. a \<le> x \<and> x \<le> b) (since_deletion phone evs)
        = count_where (\<lambda>x. a \<le> x \<and> x \<le> b) (map snd (filter (\<lambda>x. fst x = phone) (stamps s)))"
      unfolding list by (simp add: count_where_def rev_filter [symmetric])
    then show ?thesis by (simp add: count_where_def filter_map o_def in_window_def [abs_def])
  qed
  have "sorted_wrt (\<lambda>a b. b - a \<ge> RESEND_COOLDOWN_SECONDS * 1000) (map snd (filter (\<lambda>x. fst x = phone) (stamps s)))"
    unfolding sorted_wrt_map using sorted_wrt_filter [of _ "stamps s" "\<lambda>x. fst x = phone"] stored
    by (fastforce intro: sorted_wrt_mono_rel [rotated])
  then have "sorted_wrt (\<lambda>newer older. newer - older \<ge> 45 * 1000) (since_deletion phone evs)"
    unfolding list by (simp add: sorted_wrt_rev RESEND_COOLDOWN_SECONDS_def)
  then show ?thesis
    using stored by (simp add: window REQUEST_WINDOW_MINUTES_def MAX_REQUESTS_PER_WINDOW_def MAX_REQUESTS_PER_DAY_def)
qed

section \<open>Closed unless configured\<close>

lemma success_admit: "admit limits now cc h phone purpose subject s = Inr (t, i, j) \<Longrightarrow>
    delivered_since (utcDayStart now) t \<le> ol_globalDaily limits
  \<and> delivered_since (now - 24 * 60 * 60000) t \<le> ol_globalRolling24Hours limits
  \<and> count_where (\<lambda>d. da_callingCode d = cc \<and> da_createdAt d \<ge> utcDayStart now) (od_deliveries t) \<le> ol_perCountryDaily limits"
  by (auto simp: admit_def Let_def success_simps delivered_since_def count_where_append split: option.splits)

text \<open>One-time codes fail closed. A code is only sent with a secret of at least 32 bytes, with all three budgets
  configured and not exceeded by this send, to a number that starts with an allowed calling code; and when a list of
  pilot phones is set, only to one of its at most three numbers.\<close>

theorem otp_fails_closed:
  assumes "request_begins env now code phone purpose subject s = Inr (t, i, j)"
  shows "(\<exists>secret. otpHashSecret (oe_vars env) = Some secret \<and> 32 \<le> utf8_length secret)
    \<and> (\<exists>limits. otpDeliveryLimits (oe_vars env) = Some limits \<and> delivered_since (utcDayStart now) t \<le> ol_globalDaily limits
         \<and> delivered_since (now - 24 * 60 * 60000) t \<le> ol_globalRolling24Hours limits)
    \<and> (\<exists>c \<in> set (allowedOtpCallingCodes (oe_vars env)). prefix c (without_plus phone))
    \<and> (setting (oe_vars env) ''OTP_PILOT_ALLOWED_PHONES'' \<noteq> None \<longrightarrow>
         phoneDigits phone \<in> set (snd (otpPilotRestriction (oe_vars env))) \<and> length (snd (otpPilotRestriction (oe_vars env))) \<le> 3)"
proof -
  obtain secret limits cc where r: "otpHashSecret (oe_vars env) = Some secret" "otpDeliveryLimits (oe_vars env) = Some limits"
      "otpPhoneCallingCode (oe_vars env) phone = Some cc" "isOtpPhoneAllowed (oe_vars env) phone"
    and adm: "admit limits now cc (oe_hmac env secret code) phone purpose subject s = Inr (t, i, j)"
    using assms by (auto simp: request_begins_def success_simps)
  have "32 \<le> utf8_length secret" using r(1) by (auto simp: otpHashSecret_def split: option.splits if_splits)
  moreover have "cc \<in> set (allowedOtpCallingCodes (oe_vars env)) \<and> prefix cc (without_plus phone)"
    using calling_code_longest [OF r(3)] by simp
  moreover have "phoneDigits phone \<in> set (snd (otpPilotRestriction (oe_vars env)))"
    if "setting (oe_vars env) ''OTP_PILOT_ALLOWED_PHONES'' \<noteq> None"
    using r(4) that by (auto simp: isOtpPhoneAllowed_def otpPilotRestriction_def Let_def split: option.splits)
  moreover have "length (snd (otpPilotRestriction (oe_vars env))) \<le> 3"
    using pilot_phones_few [of "oe_vars env"] by (metis MAX_PILOT_PHONES_def prod.collapse)
  ultimately show ?thesis using r success_admit [OF adm] by blast
qed

section \<open>A concrete code\<close>

definition demo_vars :: process_env where
  "demo_vars = map_of
     [(''NODE_ENV'', ''test''), (''OTP_TEST_SENDER_ENABLED'', ''true''),
      (''OTP_HASH_SECRET'', ''0123456789abcdef0123456789abcdef''), (''OTP_ALLOWED_COUNTRY_CALLING_CODES'', ''1, +91''),
      (''OTP_MAX_DAILY_GLOBAL_SENDS'', ''5''), (''OTP_MAX_ROLLING_24H_GLOBAL_SENDS'', '' 5''),
      (''OTP_MAX_DAILY_PER_COUNTRY_SENDS'', ''5'')]"

definition demo_env :: otp_env where
  "demo_env = \<lparr>oe_vars = demo_vars, oe_hmac = (\<lambda>k c. c), oe_sha = (\<lambda>c. c)\<rparr>"

lemma demo_settings:
  "otpHashSecret demo_vars = Some ''0123456789abcdef0123456789abcdef''"
  "otpDeliveryLimits demo_vars = Some \<lparr>ol_globalDaily = 5, ol_globalRolling24Hours = 5, ol_perCountryDaily = 5\<rparr>"
  "isPhoneOtpConfigured demo_vars"
  "isOtpPhoneAllowed demo_vars ''+919000000000''"
  "otpPhoneCallingCode demo_vars ''+919000000000'' = Some ''91''"
  by code_simp+

definition no_codes :: otp_db where
  "no_codes = \<lparr>od_next = 1, od_requests = [], od_deliveries = []\<rparr>"

definition demo_sent :: otp_db where
  "demo_sent = (case request_begins demo_env 0 ''123456'' ''+919000000000'' ''LOGIN'' None no_codes of Inr (t, _) \<Rightarrow> t | Inl _ \<Rightarrow> no_codes)"

lemmas demo_otp_defs = demo_env_def no_codes_def demo_sent_def request_begins_def admit_def demo_settings delivered_since_def
  requested_since_def utcDayStart_def MAX_REQUESTS_PER_WINDOW_def MAX_REQUESTS_PER_DAY_def OTP_TTL_MINUTES_def Let_def

lemma demo_sent_admitted:
  "admit \<lparr>ol_globalDaily = 5, ol_globalRolling24Hours = 5, ol_perCountryDaily = 5\<rparr> 0 ''91'' ''123456'' ''+919000000000'' ''LOGIN'' None no_codes
     = Inr (demo_sent, 1, 2)"
  by (simp add: demo_otp_defs)

lemma demo_verified: "snd (verifyOtp demo_env 1000 demo_sent demo_sent ''+919000000000'' ''123456'' ''LOGIN'' None) = Consumed 1"
  by (simp add: verifyOtp_def matchesHash_def open_challenge_def pending_def MAX_VERIFY_ATTEMPTS_def demo_otp_defs)

lemma one_login_and_five_guesses_witness:
  "\<exists>s vs. otp_run no_codes vs s \<and> count_list vs (Consumed 1) = 1 \<and> count_list vs (Guessed_wrong 1) \<le> 5"
proof -
  obtain t where v: "verifyOtp demo_env 1000 demo_sent demo_sent ''+919000000000'' ''123456'' ''LOGIN'' None = (t, Consumed 1)"
    using demo_verified by (metis prod.collapse)
  have r: "otp_run no_codes [Consumed 1] t"
    by (rule otp_run.verifies [OF otp_run.admits [OF otp_run.start demo_sent_admitted] v])
  have "count_list [Consumed 1] (Guessed_wrong 1) \<le> 5"
    using one_login_and_five_guesses [OF r, of 1] by (simp add: no_codes_def)
  then show ?thesis by (intro exI [of _ t] exI [of _ "[Consumed 1]"] conjI r) simp_all
qed

lemma demo_trace: "otp_trace no_codes [Code_admitted ''+919000000000'' 0] demo_sent"
  by (rule otp_trace.admitted [OF otp_trace.starts demo_sent_admitted])

lemma codes_are_rationed_witness:
  "\<exists>evs s. otp_trace no_codes evs s \<and> since_deletion ''+919000000000'' evs = [0]
     \<and> (\<forall>t. count_where (\<lambda>x. t - 10 * 60000 \<le> x \<and> x \<le> t) (since_deletion ''+919000000000'' evs) \<le> 3)"
  using codes_are_rationed [OF demo_trace, of "''+919000000000''"] demo_trace
  by (intro exI [of _ "[Code_admitted ''+919000000000'' 0]"] exI [of _ demo_sent]) (simp add: no_codes_def)

text \<open>
  Deleting an account deletes the rows that the windows count. A number that signs up and deletes its account again is
  admitted four codes within three seconds.
\<close>

fun replay :: "otp_event list \<Rightarrow> otp_db \<Rightarrow> otp_db option" where
  "replay [] s = Some s"
| "replay (Code_admitted ph now # rest) s =
     (case admit \<lparr>ol_globalDaily = 5, ol_globalRolling24Hours = 5, ol_perCountryDaily = 5\<rparr> now ''91'' ''123456'' ph ''LOGIN'' None s of
        Inl _ \<Rightarrow> None
      | Inr (t, _) \<Rightarrow> replay rest t)"
| "replay (Records_deleted ph # rest) s = replay rest (s\<lparr>od_requests := filter (\<lambda>r. or_phone r \<noteq> ph) (od_requests s)\<rparr>)"

lemma replay_trace: "replay evs s = Some t \<Longrightarrow> otp_trace s0 past s \<Longrightarrow> otp_trace s0 (rev evs @ past) t"
proof (induction evs s arbitrary: past rule: replay.induct)
  case (2 ph now rest s)
  let ?run = "admit \<lparr>ol_globalDaily = 5, ol_globalRolling24Hours = 5, ol_perCountryDaily = 5\<rparr> now ''91'' ''123456'' ph ''LOGIN'' None s"
  obtain u i j where u: "?run = Inr (u, i, j)" "replay rest u = Some t" using 2(2) by (auto split: sum.splits)
  have "otp_trace s0 (rev rest @ Code_admitted ph now # past) t"
    by (rule 2(1) [OF u(1) refl u(2) otp_trace.admitted [OF 2(3) u(1)]])
  then show ?case by simp
next
  case (3 ph rest s)
  then show ?case by (auto intro: otp_trace.deleted)
qed simp

definition sign_ups :: "otp_event list" where
  "sign_ups = concat (map (\<lambda>now. [Code_admitted ''+919000000000'' now, Records_deleted ''+919000000000'']) [0, 1000, 2000, 3000])"

theorem deletion_resets_the_ration:
  "\<exists>s. otp_trace no_codes (rev sign_ups) s
     \<and> count_where (\<lambda>e. \<exists>now. e = Code_admitted ''+919000000000'' now \<and> 0 \<le> now \<and> now \<le> 3000) (rev sign_ups) = 4"
proof -
  have "replay sign_ups no_codes \<noteq> None" by code_simp
  then obtain s where "replay sign_ups no_codes = Some s" by blast
  from replay_trace [OF this otp_trace.starts]
  have "otp_trace no_codes (rev sign_ups) s" by simp
  then show ?thesis by (intro exI [of _ s]) (simp add: sign_ups_def count_where_def)
qed

lemma otp_fails_closed_witness: "phoneDigits ''919000000000'' \<in> set (snd (otpPilotRestriction (demo_vars(''OTP_PILOT_ALLOWED_PHONES'' \<mapsto> ''+919000000000''))))"
proof -
  let ?vars = "demo_vars(''OTP_PILOT_ALLOWED_PHONES'' \<mapsto> ''+919000000000'')"
  have vars: "otpHashSecret ?vars = Some ''0123456789abcdef0123456789abcdef''"
    "otpDeliveryLimits ?vars = Some \<lparr>ol_globalDaily = 5, ol_globalRolling24Hours = 5, ol_perCountryDaily = 5\<rparr>"
    "isPhoneOtpConfigured ?vars" "isOtpPhoneAllowed ?vars ''919000000000''"
    "otpPhoneCallingCode ?vars ''919000000000'' = Some ''91''" "setting ?vars ''OTP_PILOT_ALLOWED_PHONES'' \<noteq> None"
    by code_simp+
  have "\<exists>t i j. request_begins \<lparr>oe_vars = ?vars, oe_hmac = (\<lambda>k c. c), oe_sha = (\<lambda>c. c)\<rparr> 0 ''123456'' ''919000000000'' ''LOGIN'' None no_codes
      = Inr (t, i, j)"
    by (simp add: request_begins_def vars admit_def no_codes_def delivered_since_def requested_since_def utcDayStart_def
        MAX_REQUESTS_PER_WINDOW_def MAX_REQUESTS_PER_DAY_def Let_def del: fun_upd_apply)
  then obtain t i j where "request_begins \<lparr>oe_vars = ?vars, oe_hmac = (\<lambda>k c. c), oe_sha = (\<lambda>c. c)\<rparr> 0 ''123456'' ''919000000000'' ''LOGIN''
      None no_codes = Inr (t, i, j)" by blast
  from otp_fails_closed [OF this] vars(6) show ?thesis by simp
qed

end
