(* ===== verification/Idempotency.thy ===== *)
theory Idempotency
  imports Prelude
begin

text \<open>
  Replayed requests (\<^verbatim>\<open>common/interceptors/idempotency.interceptor.ts\<close>): a key is claimed by inserting its row, the
  handler runs, and the row gets the response or is removed. The handler itself, \<open>sha256\<close> and \<open>JSON.stringify\<close> are
  arguments; a response is its JSON text, none for a handler that returns nothing (the column then stays null).
\<close>

section \<open>State and operations\<close>

datatype idem_error = IDEMPOTENCY_KEY_REQUIRED | IDEMPOTENCY_KEY_REUSED | REQUEST_IN_PROGRESS

record request =
  rq_user :: id  \<comment> \<open>who is signed in; the interceptor never looks at it\<close>
  rq_method :: string
  rq_url :: string
  rq_body :: string
  rq_key :: "string option"

record idem_row =
  ik_key :: string
  ik_endpoint :: string
  ik_hash :: string
  ik_response :: "string option"
  ik_expiresAt :: ms

definition RESPONSE_TTL_MS :: ms where "RESPONSE_TTL_MS = 24 * 60 * 60 * 1000"

definition requestHash :: "(string \<Rightarrow> string) \<Rightarrow> request \<Rightarrow> string" where
  "requestHash sha r = sha (rq_method r @ '':'' @ rq_url r @ '':'' @ rq_body r)"

definition find_key :: "string \<Rightarrow> idem_row list \<Rightarrow> idem_row option" where
  "find_key key rows = find (\<lambda>x. ik_key x = key) rows"

text \<open>The insertion that claims the key; \<open>None\<close> is the violation of its unique index.\<close>

definition claim_key :: "(string \<Rightarrow> string) \<Rightarrow> ms \<Rightarrow> string \<Rightarrow> request \<Rightarrow> idem_row list \<Rightarrow> idem_row list option" where
  "claim_key sha now key r rows =
     (if find_key key rows \<noteq> None then None
      else Some (rows @ [\<lparr>ik_key = key, ik_endpoint = rq_method r @ '' '' @ rq_url r, ik_hash = requestHash sha r, ik_response = None,
                          ik_expiresAt = now + RESPONSE_TTL_MS\<rparr>]))"

definition resolveExistingClaim :: "string \<Rightarrow> string \<Rightarrow> idem_row list \<Rightarrow> idem_error + string" where
  "resolveExistingClaim key hash rows =
     theE (find_key key rows) REQUEST_IN_PROGRESS (\<lambda>existing.
     guardE (ik_hash existing = hash) IDEMPOTENCY_KEY_REUSED
       (theE (ik_response existing) REQUEST_IN_PROGRESS (\<lambda>response. Inr response)))"

definition record_response :: "string \<Rightarrow> string option \<Rightarrow> idem_row list \<Rightarrow> idem_row list" where
  "record_response key result rows =
     upd_where (\<lambda>x. ik_key x = key) (\<lambda>x. case result of None \<Rightarrow> x | Some resp \<Rightarrow> x\<lparr>ik_response := Some resp\<rparr>) rows"

definition release_key :: "string \<Rightarrow> idem_row list \<Rightarrow> idem_row list" where
  "release_key key rows = filter (\<lambda>x. ik_key x \<noteq> key) rows"

section \<open>Concurrent requests\<close>

text \<open>What happened, newest first: a handler started, finished with a response, threw, or finished without its
  response being recorded; and the answers given to requests that found their key taken.\<close>

datatype happening =
    Started string request | Finished string "string option" | Threw string | Unrecorded string
  | Answered string request "idem_error + string"

record server =
  sv_rows :: "idem_row list"
  sv_running :: "string list"
  sv_log :: "happening list"

definition happens :: "happening \<Rightarrow> server \<Rightarrow> server" where
  "happens h s = s\<lparr>sv_log := h # sv_log s\<rparr>"

text \<open>With the flag, every handler returns a response and its response is recorded.\<close>

inductive server_step :: "(string \<Rightarrow> string) \<Rightarrow> bool \<Rightarrow> server \<Rightarrow> server \<Rightarrow> bool" for sha reliable s where
  starts: "rq_key r = Some key \<Longrightarrow> claim_key sha now key r (sv_rows s) = Some rows
    \<Longrightarrow> server_step sha reliable s (happens (Started key r) (s\<lparr>sv_rows := rows, sv_running := key # sv_running s\<rparr>))"
| answers: "rq_key r = Some key
    \<Longrightarrow> server_step sha reliable s (happens (Answered key r (resolveExistingClaim key (requestHash sha r) (sv_rows s))) s)"
| finishes: "key \<in> set (sv_running s) \<Longrightarrow> reliable \<longrightarrow> result \<noteq> None
    \<Longrightarrow> server_step sha reliable s (happens (Finished key result)
          (s\<lparr>sv_rows := record_response key result (sv_rows s), sv_running := remove1 key (sv_running s)\<rparr>))"
| throws: "key \<in> set (sv_running s)
    \<Longrightarrow> server_step sha reliable s (happens (Threw key) (s\<lparr>sv_rows := release_key key (sv_rows s), sv_running := remove1 key (sv_running s)\<rparr>))"
| unrecorded: "key \<in> set (sv_running s) \<Longrightarrow> \<not> reliable
    \<Longrightarrow> server_step sha reliable s (happens (Unrecorded key) (s\<lparr>sv_rows := release_key key (sv_rows s), sv_running := remove1 key (sv_running s)\<rparr>))"

definition idle_server :: server where
  "idle_server = \<lparr>sv_rows = [], sv_running = [], sv_log = []\<rparr>"

section \<open>The invariant\<close>

fun finishes_key :: "string \<Rightarrow> happening \<Rightarrow> bool" where
  "finishes_key key (Finished k r) = (k = key)"
| "finishes_key key _ = False"

text \<open>No handler starts for a key after one has finished for it (the log has the newest first).\<close>

fun never_restarted :: "happening list \<Rightarrow> bool" where
  "never_restarted [] = True"
| "never_restarted (Started key r # older) = (list_all (\<lambda>h. \<not> finishes_key key h) older \<and> never_restarted older)"
| "never_restarted (h # older) = never_restarted older"

text \<open>The request whose handler started last for a key, and the one whose handler finished for it. As at most one handler
  of a key runs at a time, the one that finishes is the one that started last.\<close>

fun latest_start :: "string \<Rightarrow> happening list \<Rightarrow> request option" where
  "latest_start key [] = None"
| "latest_start key (Started k r # older) = (if k = key then Some r else latest_start key older)"
| "latest_start key (h # older) = latest_start key older"

fun served :: "string \<Rightarrow> happening list \<Rightarrow> request option" where
  "served key [] = None"
| "served key (Finished k result # older) = (if k = key then latest_start key older else served key older)"
| "served key (h # older) = served key older"

lemma latest_start_mem: "latest_start key log = Some r \<Longrightarrow> Started key r \<in> set log"
  by (induction key log rule: latest_start.induct) (auto split: if_splits)

lemma served_mem: "served key log = Some r \<Longrightarrow> Started key r \<in> set log"
  by (induction key log rule: served.induct) (auto split: if_splits dest: latest_start_mem)

definition owner_of :: "idem_row \<Rightarrow> happening list \<Rightarrow> request option" where
  "owner_of x log = (if ik_response x = None then latest_start (ik_key x) log else served (ik_key x) log)"

definition claims_ok :: "(string \<Rightarrow> string) \<Rightarrow> server \<Rightarrow> bool" where
  "claims_ok sha s \<longleftrightarrow> distinct (map ik_key (sv_rows s)) \<and> distinct (sv_running s)
     \<and> (\<forall>key\<in>set (sv_running s). \<exists>x\<in>set (sv_rows s). ik_key x = key \<and> ik_response x = None)
     \<and> (\<forall>x\<in>set (sv_rows s). (\<forall>resp. ik_response x = Some resp \<longrightarrow> Finished (ik_key x) (Some resp) \<in> set (sv_log s))
          \<and> map_option (requestHash sha) (owner_of x (sv_log s)) = Some (ik_hash x))"

definition log_ok :: "(string \<Rightarrow> string) \<Rightarrow> server \<Rightarrow> bool" where
  "log_ok sha s \<longleftrightarrow> never_restarted (sv_log s) \<and> (\<forall>key. count_where (finishes_key key) (sv_log s) \<le> 1)
     \<and> (\<forall>key r. Finished key r \<in> set (sv_log s) \<longrightarrow> r \<noteq> None \<and> (\<exists>x\<in>set (sv_rows s). ik_key x = key \<and> ik_response x = r))
     \<and> (\<forall>key r resp. Answered key r (Inr resp) \<in> set (sv_log s) \<longrightarrow> Finished key (Some resp) \<in> set (sv_log s)
          \<and> map_option (requestHash sha) (served key (sv_log s)) = Some (requestHash sha r))"

definition server_ok :: "(string \<Rightarrow> string) \<Rightarrow> server \<Rightarrow> bool" where
  "server_ok sha s \<longleftrightarrow> claims_ok sha s \<and> log_ok sha s"

lemma happens_simps [simp]:
  "sv_rows (happens h s) = sv_rows s" "sv_running (happens h s) = sv_running s" "sv_log (happens h s) = h # sv_log s"
  by (simp_all add: happens_def)

lemma finishes_key_iff: "finishes_key key h \<longleftrightarrow> (\<exists>r. h = Finished key r)"
  by (cases h) auto

lemma find_key_None: "find_key key rows = None \<longleftrightarrow> key \<notin> ik_key ` set rows"
  by (auto simp: find_key_def find_None_iff)

lemma running_unfinished:
  assumes "server_ok sha s" "key \<in> set (sv_running s)"
  shows "Finished key r \<notin> set (sv_log s)"
proof
  assume f: "Finished key r \<in> set (sv_log s)"
  obtain x where x: "x \<in> set (sv_rows s)" "ik_key x = key" "ik_response x = None"
    using assms by (auto simp: server_ok_def claims_ok_def)
  obtain y where y: "y \<in> set (sv_rows s)" "ik_key y = key" "ik_response y = r" "r \<noteq> None"
    using assms(1) f unfolding server_ok_def log_ok_def by blast
  have "x = y" using distinct_key_eq [of ik_key "sv_rows s" x y] assms(1) x y by (simp add: server_ok_def claims_ok_def)
  then show False using x y by simp
qed

lemma server_step_rows:
  assumes "server_step sha True s t" "server_ok sha s"
  shows "claims_ok sha t"
  using assms(1)
proof (cases rule: server_step.cases)
  case (starts r key now rows)
  let ?new = "\<lparr>ik_key = key, ik_endpoint = rq_method r @ '' '' @ rq_url r, ik_hash = requestHash sha r, ik_response = None,
      ik_expiresAt = now + RESPONSE_TTL_MS\<rparr>"
  have new: "key \<notin> ik_key ` set (sv_rows s)" "rows = sv_rows s @ [?new]"
    using starts(3) by (auto simp: claim_key_def find_key_None split: if_splits)
  have ok: "claims_ok sha s" using assms(2) by (simp add: server_ok_def)
  have "(\<forall>resp. ik_response x = Some resp \<longrightarrow> Finished (ik_key x) (Some resp) \<in> set (sv_log t))
      \<and> map_option (requestHash sha) (owner_of x (sv_log t)) = Some (ik_hash x)" if "x \<in> set (sv_rows t)" for x
  proof (cases "x = ?new")
    case True
    then show ?thesis using starts(1) by (simp add: owner_of_def)
  next
    case False
    then have "x \<in> set (sv_rows s)" using that starts(1) new(2) by simp
    moreover from this have "ik_key x \<noteq> key" using new(1) by blast
    moreover have "owner_of x (sv_log t) = owner_of x (sv_log s)" using \<open>ik_key x \<noteq> key\<close> starts(1) by (simp add: owner_of_def)
    ultimately show ?thesis using ok starts(1) by (auto simp: claims_ok_def)
  qed
  moreover have "\<exists>x\<in>set (sv_rows t). ik_key x = k \<and> ik_response x = None" if "k \<in> set (sv_running t)" for k
    using that ok starts(1) new(2) by (auto simp: claims_ok_def)
  moreover have "key \<notin> set (sv_running s)" using ok new(1) by (force simp: claims_ok_def)
  ultimately show ?thesis using ok starts(1) new by (simp add: claims_ok_def)
next
  case (answers r key)
  then show ?thesis using assms(2) by (auto simp: server_ok_def claims_ok_def owner_of_def)
next
  case (finishes key result)
  then obtain resp where resp: "result = Some resp" by auto
  let ?f = "\<lambda>x. if ik_key x = key then x\<lparr>ik_response := Some resp\<rparr> else x"
  have rows: "sv_rows t = map ?f (sv_rows s)" using finishes resp by (simp add: record_response_def upd_where_def)
  have log: "sv_log t = Finished key (Some resp) # sv_log s" and run': "sv_running t = remove1 key (sv_running s)"
    using finishes resp by simp_all
  have ok: "claims_ok sha s" using assms(2) by (simp add: server_ok_def)
  have run: "\<exists>x\<in>set (sv_rows t). ik_key x = k \<and> ik_response x = None" if "k \<in> set (sv_running t)" for k
  proof -
    have "k \<noteq> key" "k \<in> set (sv_running s)" using that finishes ok by (auto simp: claims_ok_def)
    then show ?thesis using ok by (fastforce simp: claims_ok_def rows)
  qed
  have free: "ik_response x = None" if "x \<in> set (sv_rows s)" "ik_key x = key" for x
  proof -
    obtain z where z: "z \<in> set (sv_rows s)" "ik_key z = key" "ik_response z = None" using ok finishes(2) by (auto simp: claims_ok_def)
    have "x = z" using distinct_key_eq [of ik_key "sv_rows s" x z] ok that z by (simp add: claims_ok_def)
    then show ?thesis using z(3) by simp
  qed
  have "map ik_key (sv_rows t) = map ik_key (sv_rows s)" by (simp add: rows)
  moreover have "(\<forall>resp. ik_response x = Some resp \<longrightarrow> Finished (ik_key x) (Some resp) \<in> set (sv_log t))
          \<and> map_option (requestHash sha) (owner_of x (sv_log t)) = Some (ik_hash x)" if x: "x \<in> set (sv_rows t)" for x
  proof -
    obtain q where q: "q \<in> set (sv_rows s)" "x = ?f q" using x by (auto simp: rows)
    have "owner_of x (sv_log t) = owner_of q (sv_log s)"
      using free [OF q(1)] q(2) by (auto simp: owner_of_def log)
    then show ?thesis using ok q by (auto simp: claims_ok_def log)
  qed
  ultimately show ?thesis using ok run by (simp add: claims_ok_def distinct_remove1 run')
next
  case (throws key)
  have ok: "claims_ok sha s" using assms(2) by (simp add: server_ok_def)
  have run: "\<exists>x\<in>set (sv_rows t). ik_key x = k \<and> ik_response x = None" if "k \<in> set (sv_running t)" for k
  proof -
    have "k \<noteq> key" "k \<in> set (sv_running s)" using that throws ok by (auto simp: claims_ok_def)
    then show ?thesis using ok throws by (auto simp: claims_ok_def release_key_def)
  qed
  then show ?thesis using ok throws
    by (auto simp: claims_ok_def release_key_def distinct_map_filter distinct_remove1 owner_of_def)
qed simp

lemma server_step_log:
  assumes "server_step sha True s t" "server_ok sha s"
  shows "log_ok sha t"
  using assms(1)
proof (cases rule: server_step.cases)
  case (starts r key now rows)
  have free: "key \<notin> ik_key ` set (sv_rows s)" "rows = sv_rows s @ [\<lparr>ik_key = key, ik_endpoint = rq_method r @ '' '' @ rq_url r, ik_hash = requestHash sha r,
      ik_response = None, ik_expiresAt = now + RESPONSE_TTL_MS\<rparr>]"
    using starts(3) by (auto simp: claim_key_def find_key_None split: if_splits)
  then have "Finished key x \<notin> set (sv_log s)" for x using assms(2) by (fastforce simp: server_ok_def log_ok_def)
  then have "list_all (\<lambda>h. \<not> finishes_key key h) (sv_log s)" by (auto simp: list_all_iff finishes_key_iff)
  then show ?thesis using assms(2) starts(1) free(2) by (auto simp: server_ok_def log_ok_def)
next
  case (answers r key)
  have ans: "Finished key (Some resp) \<in> set (sv_log s) \<and> map_option (requestHash sha) (served key (sv_log s)) = Some (requestHash sha r)"
    if "resolveExistingClaim key (requestHash sha r) (sv_rows s) = Inr resp" for resp
  proof -
    obtain x where "x \<in> set (sv_rows s)" "ik_key x = key" "ik_hash x = requestHash sha r" "ik_response x = Some resp"
      using \<open>resolveExistingClaim key (requestHash sha r) (sv_rows s) = Inr resp\<close>
      by (auto simp: resolveExistingClaim_def success_simps find_key_def dest: find_SomeD)
    then show ?thesis using assms(2) by (fastforce simp: server_ok_def claims_ok_def owner_of_def)
  qed
  show ?thesis using assms(2) answers(1) by (auto simp: server_ok_def log_ok_def dest: ans [OF sym])
next
  case (finishes key result)
  then obtain resp where resp: "result = Some resp" by auto
  let ?f = "\<lambda>x. if ik_key x = key then x\<lparr>ik_response := Some resp\<rparr> else x"
  have rows: "sv_rows t = map ?f (sv_rows s)" using finishes resp by (simp add: record_response_def upd_where_def)
  have log: "sv_log t = Finished key (Some resp) # sv_log s" and run': "sv_running t = remove1 key (sv_running s)"
    using finishes resp by simp_all
  have no: "Finished key x \<notin> set (sv_log s)" for x by (rule running_unfinished [OF assms(2) finishes(2)])
  then have "count_where (finishes_key key) (sv_log s) = 0" by (auto simp: count_where_0 finishes_key_iff)
  moreover have "\<exists>x\<in>set (sv_rows t). ik_key x = k \<and> ik_response x = r"
    if fin: "Finished k r \<in> set (sv_log t)" for k r
  proof (cases "k = key")
    case True
    then have "r = Some resp" using fin no by (auto simp: log)
    moreover obtain x where "x \<in> set (sv_rows s)" "ik_key x = key" using assms(2) finishes(2) by (auto simp: server_ok_def claims_ok_def)
    ultimately show ?thesis using True unfolding rows by (intro bexI [of _ "?f x"]) auto
  next
    case False
    then obtain x where "x \<in> set (sv_rows s)" "ik_key x = k" "ik_response x = r"
      using fin assms(2) by (fastforce simp: server_ok_def log_ok_def log)
    then show ?thesis using False unfolding rows by (intro bexI [of _ "?f x"]) auto
  qed
  moreover have "Answered key q (Inr resp') \<notin> set (sv_log s)" for q resp'
    using assms(2) no unfolding server_ok_def log_ok_def by blast
  ultimately show ?thesis using assms(2) unfolding server_ok_def log_ok_def
    by (intro conjI allI impI) (auto simp: log)
next
  case (throws key)
  have no: "Finished key x \<notin> set (sv_log s)" for x by (rule running_unfinished [OF assms(2) throws(2)])
  have "\<exists>x\<in>set (sv_rows t). ik_key x = k \<and> ik_response x = r" if "Finished k r \<in> set (sv_log t)" for k r
  proof -
    have k: "Finished k r \<in> set (sv_log s)" "k \<noteq> key" using that throws(1) no by auto
    then obtain x where "x \<in> set (sv_rows s)" "ik_key x = k" "ik_response x = r"
      using assms(2) unfolding server_ok_def log_ok_def by blast
    then show ?thesis using k(2) throws(1) by (auto simp: release_key_def)
  qed
  then show ?thesis using assms(2) throws(1) by (auto simp: server_ok_def log_ok_def)
qed simp

interpretation reliable: invariant "server_step sha True" "server_ok sha" for sha
  by unfold_locales (simp add: server_ok_def server_step_rows server_step_log)

lemma idle_server_ok: "server_ok sha idle_server"
  by (simp add: server_ok_def claims_ok_def log_ok_def idle_server_def)

lemma answered_served:
  "log_ok sha s \<Longrightarrow> Answered key r (Inr resp) \<in> set (sv_log s) \<Longrightarrow> Finished key (Some resp) \<in> set (sv_log s)
     \<and> map_option (requestHash sha) (served key (sv_log s)) = Some (requestHash sha r)"
  unfolding log_ok_def by blast

text \<open>What a request is identified by, and the texts that a log has hashed.\<close>

definition request_text :: "request \<Rightarrow> string" where
  "request_text r = rq_method r @ '':'' @ rq_url r @ '':'' @ rq_body r"

definition hashed_texts :: "happening list \<Rightarrow> string set" where
  "hashed_texts log = request_text ` {r. \<exists>key a. Started key r \<in> set log \<or> Answered key r a \<in> set log}"

text \<open>C27: a keyed request takes effect once. While handlers return a response and it gets recorded, then under every
  interleaving of requests, retries and failures: for each key at most one handler finishes, at most one runs at a time,
  none is ever started after one has finished, and every answer given from the record is the response of the one handler
  that finished, and that handler served a request with the same text of method, address and body as the one answered,
  as long as no two of the texts hashed in the run collide.\<close>

theorem keyed_request_takes_effect_once:
  assumes "(server_step sha True)\<^sup>*\<^sup>* idle_server s" "inj_on sha (hashed_texts (sv_log s))"
  shows "count_where (finishes_key key) (sv_log s) \<le> 1 \<and> distinct (sv_running s) \<and> never_restarted (sv_log s)
    \<and> (Answered key r (Inr resp) \<in> set (sv_log s) \<longrightarrow> Finished key (Some resp) \<in> set (sv_log s)
         \<and> (\<exists>r'. served key (sv_log s) = Some r'
              \<and> rq_method r' @ '':'' @ rq_url r' @ '':'' @ rq_body r' = rq_method r @ '':'' @ rq_url r @ '':'' @ rq_body r))"
proof -
  note ok = reliable.run_inv [OF assms(1) idle_server_ok]
  have "\<exists>r'. served key (sv_log s) = Some r' \<and> request_text r' = request_text r" if a: "Answered key r (Inr resp) \<in> set (sv_log s)"
  proof -
    obtain r' where r': "served key (sv_log s) = Some r'" "requestHash sha r' = requestHash sha r"
      using answered_served [OF _ a] ok by (auto simp: server_ok_def)
    have "request_text r' = request_text r"
    proof (rule inj_onD [OF assms(2)])
      show "sha (request_text r') = sha (request_text r)" using r'(2) by (simp add: requestHash_def request_text_def)
      show "request_text r' \<in> hashed_texts (sv_log s)" "request_text r \<in> hashed_texts (sv_log s)"
        using served_mem [OF r'(1)] a by (auto simp: hashed_texts_def)
    qed
    then show ?thesis using r'(1) by simp
  qed
  moreover have "Answered key r (Inr resp) \<in> set (sv_log s) \<longrightarrow> Finished key (Some resp) \<in> set (sv_log s)"
    using answered_served [of sha s] ok by (simp add: server_ok_def)
  moreover have "count_where (finishes_key key) (sv_log s) \<le> 1 \<and> distinct (sv_running s) \<and> never_restarted (sv_log s)"
    using ok by (simp add: server_ok_def claims_ok_def log_ok_def)
  ultimately show ?thesis by (simp add: request_text_def)
qed

section \<open>Concrete requests\<close>

definition demo_call :: "id \<Rightarrow> request" where
  "demo_call u = \<lparr>rq_user = u, rq_method = ''POST'', rq_url = ''/bookings'', rq_body = ''{}'', rq_key = Some ''k''\<rparr>"

definition demo_started :: server where
  "demo_started = happens (Started ''k'' (demo_call 7)) (idle_server\<lparr>sv_rows := [\<lparr>ik_key = ''k'', ik_endpoint = ''POST /bookings'',
     ik_hash = requestHash (\<lambda>x. x) (demo_call 7), ik_response = None, ik_expiresAt = RESPONSE_TTL_MS\<rparr>], sv_running := [''k'']\<rparr>)"

definition demo_finished :: server where
  "demo_finished = happens (Finished ''k'' (Some ''ok'')) (demo_started\<lparr>sv_rows := record_response ''k'' (Some ''ok'') (sv_rows demo_started),
     sv_running := []\<rparr>)"

definition demo_answered :: server where
  "demo_answered = happens (Answered ''k'' (demo_call 9) (Inr ''ok'')) demo_finished"

lemmas demo_idem_defs = demo_started_def demo_finished_def demo_answered_def demo_call_def idle_server_def claim_key_def find_key_def
  record_response_def resolveExistingClaim_def requestHash_def

lemma demo_starts: "server_step (\<lambda>x. x) reliable idle_server demo_started"
  using server_step.starts [of "demo_call 7" "''k''" "\<lambda>x. x" 0 idle_server "sv_rows demo_started" reliable]
  by (simp add: demo_idem_defs happens_def)

lemma demo_finishes: "server_step (\<lambda>x. x) reliable demo_started demo_finished"
  using server_step.finishes [of "''k''" demo_started reliable "Some ''ok''" "\<lambda>x. x"]
  by (simp add: demo_idem_defs happens_def)

lemma demo_answers: "server_step (\<lambda>x. x) reliable demo_finished demo_answered"
  using server_step.answers [of "demo_call 9" "''k''" "\<lambda>x. x" reliable demo_finished]
  by (simp add: demo_idem_defs happens_def)

lemma demo_answered_run: "(server_step (\<lambda>x. x) reliable)\<^sup>*\<^sup>* idle_server demo_answered"
  by (rule converse_rtranclp_into_rtranclp, rule demo_starts, rule converse_rtranclp_into_rtranclp, rule demo_finishes,
      rule r_into_rtranclp, rule demo_answers)

lemma keyed_request_takes_effect_once_witness:
  "(server_step (\<lambda>x. x) True)\<^sup>*\<^sup>* idle_server demo_answered \<and> count_where (finishes_key ''k'') (sv_log demo_answered) \<le> 1
   \<and> (\<exists>r'. served ''k'' (sv_log demo_answered) = Some r'
        \<and> rq_method r' @ '':'' @ rq_url r' @ '':'' @ rq_body r' = ''POST:/bookings:{}'')"
proof -
  have inj: "inj_on (\<lambda>x. x) (hashed_texts (sv_log demo_answered))" by simp
  have "Answered ''k'' (demo_call 9) (Inr ''ok'') \<in> set (sv_log demo_answered)" by (simp add: demo_answered_def)
  moreover have "request_text (demo_call 9) = ''POST:/bookings:{}''" by (simp add: request_text_def demo_call_def)
  ultimately show ?thesis
    using keyed_request_takes_effect_once [OF demo_answered_run inj, of "''k''" "demo_call 9" "''ok''"] demo_answered_run
    by (simp add: request_text_def)
qed

text \<open>The record does not say whose request it was: another user who sends the same key, method, address and body is
  answered with the first user's response.\<close>

theorem replay_ignores_who_asks:
  "\<exists>s. (server_step (\<lambda>x. x) True)\<^sup>*\<^sup>* idle_server s \<and> Started ''k'' (demo_call 7) \<in> set (sv_log s)
    \<and> Answered ''k'' (demo_call 9) (Inr ''ok'') \<in> set (sv_log s) \<and> rq_user (demo_call 7) \<noteq> rq_user (demo_call 9)"
  by (intro exI [of _ demo_answered] conjI demo_answered_run)
    (simp_all add: demo_answered_def demo_finished_def demo_started_def demo_call_def)

text \<open>A success that cannot be recorded is repeated. When the handler has finished and only the write of its
  response fails, the claim is removed as if the handler had failed, and the retry runs the handler a second time.\<close>

theorem unrecorded_success_runs_again:
  "\<exists>s. (server_step (\<lambda>x. x) False)\<^sup>*\<^sup>* idle_server s \<and> hd (sv_log s) = Started ''k'' (demo_call 7) \<and> Unrecorded ''k'' \<in> set (sv_log s)"
proof -
  define u where "u = happens (Unrecorded ''k'') (demo_started\<lparr>sv_rows := release_key ''k'' (sv_rows demo_started), sv_running := remove1 ''k'' (sv_running demo_started)\<rparr>)"
  define v where "v = happens (Started ''k'' (demo_call 7)) (u\<lparr>sv_rows := sv_rows demo_started, sv_running := ''k'' # sv_running u\<rparr>)"
  have 1: "server_step (\<lambda>x. x) False demo_started u"
    unfolding u_def by (rule server_step.unrecorded) (simp_all add: demo_started_def)
  have 2: "server_step (\<lambda>x. x) False u v"
    unfolding v_def
    by (rule server_step.starts [where now = 0]) (simp_all add: u_def demo_idem_defs release_key_def)
  have "(server_step (\<lambda>x. x) False)\<^sup>*\<^sup>* idle_server v"
    by (rule converse_rtranclp_into_rtranclp, rule demo_starts, rule converse_rtranclp_into_rtranclp, rule 1,
        rule r_into_rtranclp, rule 2)
  then show ?thesis by (intro exI [of _ v]) (simp add: v_def u_def)
qed

end
