(* ===== verification/Stock.thy ===== *)
theory Stock
  imports Access
begin

text \<open>
  The stock of a shop (\<^verbatim>\<open>inventory/inventory.service.ts\<close>) and the ledger behind it. A product's stock and average
  cost are only written by the trigger of \<^verbatim>\<open>inventory_movements\<close> (\<^verbatim>\<open>prisma/migrations\<close>): \<open>insert_movement\<close> is the
  insertion with that trigger, the table's checks and its unique index. Quantities are \<open>Decimal(12,3)\<close>: integers of
  thousandths; costs are paise. The database's division of decimals is taken exactly before it is rounded.
  \<open>sha256\<close> of the serialised request and the case conversions of the locale are arguments. Lists, reports and their
  signed cursors are left out.
\<close>

section \<open>Rows\<close>

type_synonym milli = int

datatype inventory_unit = EACH | GRAM | KILOGRAM | MILLILITER | LITER | PACK | BOX | OTHER_UNIT
datatype movement_kind = OPENING | PURCHASE | CONSUMED | ADJUSTMENT | RETURN | DAMAGE | EXPIRY | WASTAGE | TRANSFER_OUT | TRANSFER_IN
datatype stock_usage = PROFESSIONAL | RETAIL
datatype usage_status = USAGE_RECORDED | USAGE_REVERSED
datatype usage_source = MANUAL | AUTO

datatype stock_error =
    CATEGORY_EXISTS | SUPPLIER_EXISTS | PRODUCT_EXISTS | PRODUCT_NOT_FOUND | CATEGORY_NOT_FOUND | SUPPLIER_NOT_FOUND
  | INSUFFICIENT_STOCK | MOVEMENT_KEY_REQUIRED | MOVEMENT_KEY_REUSED | OPENING_ALREADY_RECORDED | INVALID_MOVEMENT
  | CATALOG_NOT_USABLE | ALREADY_LINKED | LINK_CONFLICT
  | NO_SERVICES | ALREADY_RECORDED | USAGE_NOT_FOUND | ALREADY_REVERSED | UNIT_MISMATCH | NOT_YOUR_VISIT
  | VISIT_NOT_ACTIVE | INVALID_RECIPE
  | CHECK_VIOLATION | FOREIGN_KEY_VIOLATION | NUMERIC_OVERFLOW | STOCK_UNIQUE_VIOLATION | STOCK_RECORD_NOT_FOUND
  | Access_error app_error

record category =
  ic_id :: id
  ic_salon :: id
  ic_name :: string
  ic_normalized :: string

record supplier =
  is_id :: id
  is_salon :: id
  is_name :: string
  is_normalized :: string
  is_contactName :: "string option"
  is_phone :: "string option"
  is_email :: "string option"
  is_notes :: "string option"
  is_leadTimeDays :: "int option"

record product =
  ip_id :: id
  ip_salon :: id
  ip_category :: "id option"
  ip_supplier :: "id option"
  ip_name :: string
  ip_sku :: "string option"
  ip_unit :: inventory_unit
  ip_stock :: milli
  ip_avgCost :: paise
  ip_threshold :: milli
  ip_isActive :: bool
  ip_global :: "id option"
  ip_usage :: stock_usage
  ip_sellingPrice :: "paise option"
  ip_location :: "string option"
  ip_minOrder :: "milli option"
  ip_contentSize :: "milli option"
  ip_contentUnit :: "inventory_unit option"

record movement =
  im_id :: id
  im_salon :: id
  im_product :: id
  im_supplier :: "id option"
  im_actor :: id
  im_kind :: movement_kind
  im_delta :: milli
  im_unitCost :: "paise option"
  im_stockAfter :: milli
  im_avgAfter :: paise
  im_reason :: "string option"
  im_reference :: "string option"
  im_key :: string
  im_hash :: string
  im_batch :: "string option"
  im_expiry :: "string option"
  im_group :: "id option"

record rule =
  sr_id :: id
  sr_salon :: id
  sr_service :: id
  sr_category :: id
  sr_quantity :: milli
  sr_unit :: inventory_unit
  sr_default :: "id option"
  sr_autoDeduct :: bool
  sr_sortOrder :: nat

record usage =
  ug_id :: id
  ug_salon :: id
  ug_entry :: id
  ug_service :: id
  ug_staff :: "id option"
  ug_status :: usage_status
  ug_source :: usage_source
  ug_by :: id
  ug_reversedBy :: "id option"
  ug_reason :: "string option"

record usage_item =
  ui_id :: id
  ui_usage :: id
  ui_salon :: id
  ui_product :: id
  ui_rule :: "id option"
  ui_quantity :: milli
  ui_entered :: milli
  ui_enteredUnit :: inventory_unit
  ui_movement :: id
  ui_reversal :: "id option"

text \<open>The catalogue all shops share, as the shop's service reads it.\<close>

datatype verification = PENDING_REVIEW | VERIFIED | REJECTED

record catalog_product =
  gp_id :: id
  gp_name :: string
  gp_verification :: verification
  gp_submittedBy :: "id option"
  gp_packSize :: "milli option"
  gp_packUnit :: "inventory_unit option"

record stock_db =
  iv_next :: id
  iv_categories :: "category list"
  iv_suppliers :: "supplier list"
  iv_products :: "product list"
  iv_movements :: "movement list"
  iv_rules :: "rule list"
  iv_usages :: "usage list"
  iv_items :: "usage_item list"
  iv_audit :: "event list"

definition find_product :: "id \<Rightarrow> id \<Rightarrow> stock_db \<Rightarrow> product option" where
  "find_product salonId productId s = find (\<lambda>p. ip_id p = productId \<and> ip_salon p = salonId) (iv_products s)"

definition find_movement :: "id \<Rightarrow> string \<Rightarrow> stock_db \<Rightarrow> movement option" where
  "find_movement salonId key s = find (\<lambda>m. im_salon m = salonId \<and> im_key m = key) (iv_movements s)"

definition audit :: "id \<Rightarrow> string \<Rightarrow> id \<Rightarrow> stock_db \<Rightarrow> stock_db" where
  "audit actor action salonId s = s\<lparr>iv_audit := iv_audit s @ [Audit (Some actor) action salonId]\<rparr>"

definition access :: "app_error + 'a \<Rightarrow> ('a \<Rightarrow> stock_error + 'b) \<Rightarrow> stock_error + 'b" where
  "access m k = (case m of Inl err \<Rightarrow> Inl (Access_error err) | Inr x \<Rightarrow> k x)"

lemma access_Inr [success_simps]: "access m k = Inr y \<longleftrightarrow> (\<exists>z. m = Inr z \<and> k z = Inr y)"
  by (simp add: access_def split: sum.splits)

lemma access_simps [simp]: "access (Inr x) k = k x" "access (Inl e) k = Inl (Access_error e)"
  by (simp_all add: access_def)

text \<open>A handler for the violation of a unique index, by another result or by another error.\<close>

definition catchUnique :: "stock_error + 'a \<Rightarrow> stock_error + 'a \<Rightarrow> stock_error + 'a" where
  "catchUnique m k = (case m of Inr x \<Rightarrow> Inr x | Inl err \<Rightarrow> if err = STOCK_UNIQUE_VIOLATION then k else Inl err)"

definition onStockUnique :: "stock_error \<Rightarrow> stock_error + 'a \<Rightarrow> stock_error + 'a" where
  "onStockUnique err m = catchUnique m (Inl err)"

lemma catchUnique_Inr [success_simps]:
  "catchUnique m k = Inr y \<longleftrightarrow> m = Inr y \<or> m = Inl STOCK_UNIQUE_VIOLATION \<and> k = Inr y"
  by (auto simp: catchUnique_def split: sum.splits)

lemma onStockUnique_Inr [success_simps]: "onStockUnique err m = Inr y \<longleftrightarrow> m = Inr y"
  by (simp add: onStockUnique_def catchUnique_Inr)

section \<open>The ledger\<close>

definition MAX_QUANTITY :: milli where "MAX_QUANTITY = 10 ^ 12"
definition MAX_COST :: paise where "MAX_COST = 10 ^ 12"

definition incoming :: "movement_kind \<Rightarrow> bool" where
  "incoming k \<longleftrightarrow> k \<in> {OPENING, PURCHASE, TRANSFER_IN}"

definition outgoing :: "movement_kind \<Rightarrow> bool" where
  "outgoing k \<longleftrightarrow> k \<in> {CONSUMED, DAMAGE, EXPIRY, WASTAGE, TRANSFER_OUT}"

definition blank :: "string option \<Rightarrow> bool" where
  "blank r \<longleftrightarrow> list_all (\<lambda>c. c = CHR '' '') (nvl r [])"

text \<open>The checks of the trigger on the row alone, in its order.\<close>

definition movement_shape :: "movement \<Rightarrow> bool" where
  "movement_shape m \<longleftrightarrow> im_delta m \<noteq> 0
     \<and> \<not> (incoming (im_kind m) \<and> (im_delta m \<le> 0 \<or> im_unitCost m = None))
     \<and> \<not> (outgoing (im_kind m) \<and> (im_delta m \<ge> 0 \<or> im_unitCost m \<noteq> None \<or> im_supplier m \<noteq> None))
     \<and> \<not> (im_kind m = RETURN \<and> (im_delta m \<ge> 0 \<or> im_unitCost m \<noteq> None))
     \<and> \<not> (im_kind m \<in> {TRANSFER_IN, TRANSFER_OUT} \<and> im_group m = None)
     \<and> \<not> (im_kind m = ADJUSTMENT \<and> (im_unitCost m \<noteq> None \<or> im_supplier m \<noteq> None \<or> blank (im_reason m)))
     \<and> \<not> (im_kind m = OPENING \<and> im_supplier m \<noteq> None)"

text \<open>The weighted average in paise, rounded half up (all amounts are non-negative).\<close>

definition weighted_average :: "milli \<Rightarrow> paise \<Rightarrow> milli \<Rightarrow> paise \<Rightarrow> paise" where
  "weighted_average stock avg delta cost =
     (if stock = 0 then cost
      else (2 * (stock * avg + delta * cost) + (stock + delta)) div (2 * (stock + delta)))"

definition insert_movement :: "movement \<Rightarrow> stock_db \<Rightarrow> stock_error + (stock_db \<times> movement)" where
  "insert_movement m s =
     guardE (movement_shape m) CHECK_VIOLATION
    (theE (find_product (im_salon m) (im_product m) s) FOREIGN_KEY_VIOLATION (\<lambda>p.
     guardE (\<not> (im_kind m = OPENING \<and> (ip_stock p \<noteq> 0 \<or> exists_where (\<lambda>x. im_product x = im_product m) (iv_movements s)))) CHECK_VIOLATION
    (let newStock = ip_stock p + im_delta m;
         newAvg = (if incoming (im_kind m) then weighted_average (ip_stock p) (ip_avgCost p) (im_delta m) (nvl (im_unitCost m) 0)
                   else ip_avgCost p)
     in guardE (newStock < MAX_QUANTITY \<and> newAvg < MAX_COST) NUMERIC_OVERFLOW
       (guardE (\<not> newStock < 0) CHECK_VIOLATION
       (guardE (newAvg \<ge> 0 \<and> nvl (im_unitCost m) 0 \<ge> 0) CHECK_VIOLATION
       (guardE (find_movement (im_salon m) (im_key m) s = None) STOCK_UNIQUE_VIOLATION
       (guardE (case im_supplier m of None \<Rightarrow> True
                | Some i \<Rightarrow> exists_where (\<lambda>x. is_id x = i \<and> is_salon x = im_salon m) (iv_suppliers s)) FOREIGN_KEY_VIOLATION
         (let row = m\<lparr>im_id := iv_next s, im_stockAfter := newStock, im_avgAfter := newAvg\<rparr>
          in Inr (s\<lparr>iv_products := upd_where (\<lambda>x. ip_id x = im_product m \<and> ip_salon x = im_salon m)
                                     (\<lambda>x. x\<lparr>ip_stock := newStock, ip_avgCost := newAvg\<rparr>) (iv_products s),
                    iv_movements := iv_movements s @ [row], iv_next := iv_next s + 1\<rparr>, row)))))))))"

definition new_movement :: "id \<Rightarrow> id \<Rightarrow> id \<Rightarrow> movement_kind \<Rightarrow> milli \<Rightarrow> string \<Rightarrow> string \<Rightarrow> movement" where
  "new_movement salonId productId actor kind delta key hash =
     \<lparr>im_id = 0, im_salon = salonId, im_product = productId, im_supplier = None, im_actor = actor, im_kind = kind, im_delta = delta,
      im_unitCost = None, im_stockAfter = 0, im_avgAfter = 0, im_reason = None, im_reference = None, im_key = key, im_hash = hash,
      im_batch = None, im_expiry = None, im_group = None\<rparr>"

section \<open>Operations of the owner\<close>

datatype direction = INCREASE | DECREASE

record movement_input =
  mi_kind :: movement_kind
  mi_quantity :: milli
  mi_unitCost :: "paise option"
  mi_supplier :: "id option"
  mi_direction :: "direction option"
  mi_reason :: "string option"
  mi_reference :: "string option"
  mi_batch :: "string option"
  mi_expiry :: "string option"

text \<open>The fields of a request that are serialised and hashed.\<close>

record movement_request =
  mr_user :: id
  mr_salon :: id
  mr_product :: id
  mr_kind :: movement_kind
  mr_delta :: milli
  mr_unitCost :: "paise option"
  mr_supplier :: "id option"
  mr_reason :: "string option"
  mr_reference :: "string option"
  mr_batch :: "string option"
  mr_expiry :: "string option"

record stock_env =
  se_hash :: "movement_request \<Rightarrow> string"
  se_sha :: "string \<Rightarrow> string"
  se_lower :: "string \<Rightarrow> string"
  se_upper :: "string \<Rightarrow> string"
  se_transferHash :: "id \<Rightarrow> id \<Rightarrow> id \<Rightarrow> string \<Rightarrow> milli \<Rightarrow> string"

text \<open>\<open>value?.trim() || null\<close>.\<close>

definition nullableTrim :: "string option \<Rightarrow> string option" where
  "nullableTrim v = (case v of None \<Rightarrow> None | Some x \<Rightarrow> if js_trim x = [] then None else Some (js_trim x))"

definition INVENTORY_LOSS_KINDS :: "movement_kind list" where
  "INVENTORY_LOSS_KINDS = [RETURN, DAMAGE, EXPIRY, WASTAGE]"

text \<open>The schema of a request to move stock (\<^verbatim>\<open>shared/src/inventory.ts\<close>): it trims, then checks; \<open>!x\<close> holds of an absent or
  empty field.\<close>

definition positiveQuantity :: "milli \<Rightarrow> bool" where "positiveQuantity q \<longleftrightarrow> 0 < q \<and> q \<le> 999999999999"
definition nonNegativeMoney :: "paise \<Rightarrow> bool" where "nonNegativeMoney c \<longleftrightarrow> 0 \<le> c \<and> c \<le> 999999999999"

definition day_pattern :: "string \<Rightarrow> bool" where
  "day_pattern d \<longleftrightarrow> length d = 10 \<and> list_all (\<lambda>(i, c). if i = 4 \<or> i = 7 then c = CHR ''-'' else is_digit c) (zip [0..<10] d)"

definition absent :: "string option \<Rightarrow> bool" where
  "absent v \<longleftrightarrow> nvl v [] = []"

definition trimmed_movement :: "movement_input \<Rightarrow> movement_input" where
  "trimmed_movement v = v\<lparr>mi_reason := map_option js_trim (mi_reason v), mi_reference := map_option js_trim (mi_reference v),
     mi_batch := map_option js_trim (mi_batch v)\<rparr>"

definition movement_fields_ok :: "movement_input \<Rightarrow> bool" where
  "movement_fields_ok v \<longleftrightarrow> positiveQuantity (mi_quantity v)
     \<and> (case mi_unitCost v of None \<Rightarrow> True | Some c \<Rightarrow> nonNegativeMoney c)
     \<and> length (nvl (mi_reason v) []) \<le> 300 \<and> length (nvl (mi_reference v) []) \<le> 120 \<and> length (nvl (mi_batch v) []) \<le> 60
     \<and> (case mi_expiry v of None \<Rightarrow> True | Some d \<Rightarrow> day_pattern d)"

definition movement_issue :: "movement_input \<Rightarrow> bool" where
  "movement_issue v \<longleftrightarrow> mi_kind v = TRANSFER_IN \<or> mi_kind v = TRANSFER_OUT
     \<or> mi_kind v \<in> set INVENTORY_LOSS_KINDS \<and>
         (mi_unitCost v \<noteq> None \<or> mi_direction v \<noteq> None \<or> mi_supplier v \<noteq> None \<and> mi_kind v \<noteq> RETURN)
     \<or> (\<not> absent (mi_batch v) \<or> \<not> absent (mi_expiry v)) \<and> mi_kind v \<noteq> OPENING \<and> mi_kind v \<noteq> PURCHASE
     \<or> (mi_kind v = OPENING \<or> mi_kind v = PURCHASE) \<and> (mi_unitCost v = None \<or> mi_direction v \<noteq> None)
     \<or> mi_kind v = OPENING \<and> mi_supplier v \<noteq> None
     \<or> mi_kind v = PURCHASE \<and> mi_direction v \<noteq> None
     \<or> mi_kind v = CONSUMED \<and> (mi_unitCost v \<noteq> None \<or> mi_supplier v \<noteq> None \<or> mi_direction v \<noteq> None)
     \<or> mi_kind v = ADJUSTMENT \<and>
         (mi_direction v = None \<or> absent (mi_reason v) \<or> mi_unitCost v \<noteq> None \<or> mi_supplier v \<noteq> None)"

definition createInventoryMovementSchema :: "movement_input \<Rightarrow> movement_input option" where
  "createInventoryMovementSchema raw =
     (let v = trimmed_movement raw in if movement_fields_ok v \<and> \<not> movement_issue v then Some v else None)"

definition key_char :: "char \<Rightarrow> bool" where
  "key_char c \<longleftrightarrow> is_digit c \<or> c \<in> {CHR ''.'', CHR ''_'', CHR '':'', CHR ''-''}
     \<or> (65 \<le> (of_char c :: nat) \<and> (of_char c :: nat) \<le> 90) \<or> (97 \<le> (of_char c :: nat) \<and> (of_char c :: nat) \<le> 122)"

definition validateIdempotencyKey :: "string option \<Rightarrow> string option" where
  "validateIdempotencyKey key = (case key of None \<Rightarrow> None
     | Some raw \<Rightarrow> let k = js_trim raw in
         if 8 \<le> length k \<and> length k \<le> 128 \<and> list_all key_char k then Some k else None)"

definition assertReferences :: "id \<Rightarrow> id option \<Rightarrow> id option \<Rightarrow> stock_db \<Rightarrow> stock_error + unit" where
  "assertReferences salonId categoryId supplierId s =
     guardE (case categoryId of None \<Rightarrow> True
             | Some i \<Rightarrow> exists_where (\<lambda>c. ic_id c = i \<and> ic_salon c = salonId) (iv_categories s)) CATEGORY_NOT_FOUND
    (guardE (case supplierId of None \<Rightarrow> True
             | Some i \<Rightarrow> exists_where (\<lambda>x. is_id x = i \<and> is_salon x = salonId) (iv_suppliers s)) SUPPLIER_NOT_FOUND (Inr ()))"

definition quantity_delta :: "movement_input \<Rightarrow> milli" where
  "quantity_delta input =
     (if mi_kind input = CONSUMED \<or> mi_kind input \<in> set INVENTORY_LOSS_KINDS then - mi_quantity input
      else if mi_kind input = ADJUSTMENT \<and> mi_direction input = Some DECREASE then - mi_quantity input
      else mi_quantity input)"

definition request_of :: "id \<Rightarrow> id \<Rightarrow> id \<Rightarrow> movement_input \<Rightarrow> movement_request" where
  "request_of userId salonId productId input =
     \<lparr>mr_user = userId, mr_salon = salonId, mr_product = productId, mr_kind = mi_kind input, mr_delta = quantity_delta input,
      mr_unitCost = mi_unitCost input, mr_supplier = mi_supplier input, mr_reason = map_option js_trim (mi_reason input),
      mr_reference = map_option js_trim (mi_reference input), mr_batch = nullableTrim (mi_batch input), mr_expiry = mi_expiry input\<rparr>"

definition movement_row :: "id \<Rightarrow> id \<Rightarrow> id \<Rightarrow> string \<Rightarrow> string \<Rightarrow> movement_input \<Rightarrow> movement" where
  "movement_row userId salonId productId key hash input =
     (new_movement salonId productId userId (mi_kind input) (quantity_delta input) key hash)
       \<lparr>im_supplier := (if mi_kind input \<in> {PURCHASE, RETURN} then mi_supplier input else None),
        im_unitCost := mi_unitCost input, im_reason := nullableTrim (mi_reason input),
        im_reference := nullableTrim (mi_reference input), im_batch := nullableTrim (mi_batch input),
        im_expiry := mi_expiry input\<rparr>"

text \<open>
  The transaction and its handler of a unique violation. The row of the product is locked, so it is the one of \<open>s\<close>
  throughout; the key is looked up in \<open>seen\<close>, before movements of other products that commit until the insertion.
\<close>

definition movement_tx :: "id \<Rightarrow> id \<Rightarrow> id \<Rightarrow> string \<Rightarrow> string \<Rightarrow> movement_input \<Rightarrow> stock_db \<Rightarrow> stock_db
    \<Rightarrow> stock_error + (stock_db \<times> movement \<times> bool)" where
  "movement_tx userId salonId productId key hash input seen s =
     theE (find_product salonId productId s) PRODUCT_NOT_FOUND (\<lambda>locked.
     case find_movement salonId key seen of
       Some existing \<Rightarrow> guardE (im_actor existing = userId \<and> im_hash existing = hash) MOVEMENT_KEY_REUSED (Inr (s, existing, False))
     | None \<Rightarrow>
         guardE (\<not> ip_stock locked + quantity_delta input < 0) INSUFFICIENT_STOCK
        (guardE (\<not> (mi_kind input = OPENING \<and>
             (exists_where (\<lambda>m. im_product m = productId) (iv_movements s) \<or> ip_stock locked \<noteq> 0))) OPENING_ALREADY_RECORDED
        (bindE (insert_movement (movement_row userId salonId productId key hash input) s)
           (\<lambda>(t, row). Inr (audit userId ''INVENTORY_MOVEMENT_RECORDED'' salonId t, row, True)))))"

definition replay_movement :: "id \<Rightarrow> id \<Rightarrow> string \<Rightarrow> string \<Rightarrow> stock_db \<Rightarrow> stock_error + (stock_db \<times> movement \<times> bool)" where
  "replay_movement userId salonId key hash s =
     (case find_movement salonId key s of
        Some existing \<Rightarrow> guardE (im_actor existing = userId \<and> im_hash existing = hash) MOVEMENT_KEY_REUSED (Inr (s, existing, False))
      | None \<Rightarrow> Inl MOVEMENT_KEY_REUSED)"

definition createMovement :: "stock_env \<Rightarrow> db \<Rightarrow> id \<Rightarrow> id \<Rightarrow> id \<Rightarrow> string option \<Rightarrow> movement_input \<Rightarrow> stock_db \<Rightarrow> stock_db \<Rightarrow> stock_db
    \<Rightarrow> stock_error + (stock_db \<times> movement \<times> bool)" where
  "createMovement env app userId salonId productId idempotencyKey input pre seen s =
     access (assertOwnerOrAdminAccess app userId salonId) (\<lambda>_.
     theE (validateIdempotencyKey idempotencyKey) MOVEMENT_KEY_REQUIRED (\<lambda>key.
     bindE (assertReferences salonId None (mi_supplier input) pre) (\<lambda>_.
       let hash = se_hash env (request_of userId salonId productId input)
       in catchUnique (movement_tx userId salonId productId key hash input seen s) (replay_movement userId salonId key hash s))))"

section \<open>Categories, suppliers, products\<close>

definition normalizeName :: "stock_env \<Rightarrow> string \<Rightarrow> string" where
  "normalizeName env v = se_lower env (js_trim v)"

definition createCategory :: "stock_env \<Rightarrow> db \<Rightarrow> id \<Rightarrow> id \<Rightarrow> string \<Rightarrow> stock_db \<Rightarrow> stock_error + stock_db" where
  "createCategory env app userId salonId name s =
     access (assertOwnerOrAdminAccess app userId salonId) (\<lambda>_.
     guardE (\<not> exists_where (\<lambda>c. ic_salon c = salonId \<and> ic_normalized c = normalizeName env name) (iv_categories s)) CATEGORY_EXISTS
       (Inr (audit userId ''INVENTORY_CATEGORY_CREATED'' salonId
          (s\<lparr>iv_categories := iv_categories s @
               [\<lparr>ic_id = iv_next s, ic_salon = salonId, ic_name = js_trim name, ic_normalized = normalizeName env name\<rparr>],
             iv_next := iv_next s + 1\<rparr>))))"

record supplier_input =
  spi_name :: string
  spi_contactName :: "string option"
  spi_phone :: "string option"
  spi_email :: "string option"
  spi_notes :: "string option"
  spi_leadTimeDays :: "int option"

definition createSupplier :: "stock_env \<Rightarrow> db \<Rightarrow> id \<Rightarrow> id \<Rightarrow> supplier_input \<Rightarrow> stock_db \<Rightarrow> stock_error + stock_db" where
  "createSupplier env app userId salonId input s =
     access (assertOwnerOrAdminAccess app userId salonId) (\<lambda>_.
     guardE (\<not> exists_where (\<lambda>x. is_salon x = salonId \<and> is_normalized x = normalizeName env (spi_name input)) (iv_suppliers s)) SUPPLIER_EXISTS
       (Inr (audit userId ''INVENTORY_SUPPLIER_CREATED'' salonId
          (s\<lparr>iv_suppliers := iv_suppliers s @
               [\<lparr>is_id = iv_next s, is_salon = salonId, is_name = js_trim (spi_name input), is_normalized = normalizeName env (spi_name input),
                 is_contactName = nullableTrim (spi_contactName input), is_phone = nullableTrim (spi_phone input),
                 is_email = map_option (se_lower env) (nullableTrim (spi_email input)), is_notes = nullableTrim (spi_notes input),
                 is_leadTimeDays = spi_leadTimeDays input\<rparr>],
             iv_next := iv_next s + 1\<rparr>))))"

text \<open>A field of an update that is absent is \<open>None\<close>, one that is cleared \<open>Some None\<close>.\<close>

record product_input =
  pi_name :: "string option"
  pi_sku :: "string option option"
  pi_unit :: "inventory_unit option"
  pi_category :: "id option option"
  pi_supplier :: "id option option"
  pi_isActive :: "bool option"
  pi_threshold :: "milli option"
  pi_sellingPrice :: "paise option option"
  pi_location :: "string option option"
  pi_minOrder :: "milli option option"
  pi_contentSize :: "milli option option"
  pi_contentUnit :: "inventory_unit option option"

definition counted :: "inventory_unit \<Rightarrow> bool" where
  "counted u \<longleftrightarrow> u \<in> {EACH, PACK, BOX}"

definition contentFields :: "product_input \<Rightarrow> stock_error + (milli option \<times> inventory_unit option) option" where
  "contentFields input =
     (if pi_contentSize input = None \<and> pi_contentUnit input = None then Inr None
      else let size = nvl (pi_contentSize input) None; unit = nvl (pi_contentUnit input) None
           in guardE ((size = None) = (unit = None)) INVALID_MOVEMENT
             (guardE (\<not> (size \<noteq> None \<and> (case pi_unit input of Some u \<Rightarrow> \<not> counted u | None \<Rightarrow> False))) INVALID_MOVEMENT
               (Inr (Some (size, unit)))))"

definition sku_of :: "stock_env \<Rightarrow> string option \<Rightarrow> string option" where
  "sku_of env v = map_option (se_upper env) (nullableTrim v)"

text \<open>The unique indexes on a product: its SKU within the shop, and the catalogue entry on one shelf of the shop.\<close>

definition product_clash :: "product \<Rightarrow> product \<Rightarrow> bool" where
  "product_clash p q \<longleftrightarrow> ip_salon p = ip_salon q \<and>
     (ip_sku p \<noteq> None \<and> ip_sku p = ip_sku q \<or> ip_global p \<noteq> None \<and> ip_global p = ip_global q \<and> ip_usage p = ip_usage q)"

definition product_checks :: "product \<Rightarrow> bool" where
  "product_checks p \<longleftrightarrow> 0 \<le> ip_threshold p \<and>
     (ip_contentSize p = None \<and> ip_contentUnit p = None
      \<or> (case ip_contentSize p of Some z \<Rightarrow> z > 0 | None \<Rightarrow> False) \<and> ip_contentUnit p \<noteq> None)"

definition insert_product :: "product \<Rightarrow> stock_db \<Rightarrow> stock_error + (stock_db \<times> product)" where
  "insert_product p s =
     (let row = p\<lparr>ip_id := iv_next s, ip_stock := 0, ip_avgCost := 0\<rparr>
      in guardE (product_checks row) CHECK_VIOLATION
        (guardE (\<not> exists_where (product_clash row) (iv_products s)) STOCK_UNIQUE_VIOLATION
        (guardE (is_ok (assertReferences (ip_salon p) (ip_category p) (ip_supplier p) s)) FOREIGN_KEY_VIOLATION
          (Inr (s\<lparr>iv_products := iv_products s @ [row], iv_next := iv_next s + 1\<rparr>, row)))))"

definition createProduct :: "stock_env \<Rightarrow> db \<Rightarrow> id \<Rightarrow> id \<Rightarrow> string \<Rightarrow> inventory_unit \<Rightarrow> product_input \<Rightarrow> stock_db \<Rightarrow> stock_db
    \<Rightarrow> stock_error + (stock_db \<times> product)" where
  "createProduct env app userId salonId name unit input pre s =
     access (assertOwnerOrAdminAccess app userId salonId) (\<lambda>_.
     bindE (assertReferences salonId (nvl (pi_category input) None) (nvl (pi_supplier input) None) pre) (\<lambda>_.
     onStockUnique PRODUCT_EXISTS
       (bindE (contentFields (input\<lparr>pi_unit := Some unit\<rparr>)) (\<lambda>content.
        bindE (insert_product
          \<lparr>ip_id = 0, ip_salon = salonId, ip_category = nvl (pi_category input) None, ip_supplier = nvl (pi_supplier input) None,
           ip_name = js_trim name, ip_sku = sku_of env (nvl (pi_sku input) None), ip_unit = unit, ip_stock = 0, ip_avgCost = 0,
           ip_threshold = nvl (pi_threshold input) 0, ip_isActive = nvl (pi_isActive input) True, ip_global = None,
           ip_usage = PROFESSIONAL, ip_sellingPrice = nvl (pi_sellingPrice input) None,
           ip_location = nullableTrim (nvl (pi_location input) None), ip_minOrder = nvl (pi_minOrder input) None,
           ip_contentSize = fst (nvl content (None, None)), ip_contentUnit = snd (nvl content (None, None))\<rparr> s) (\<lambda>(t, row).
          Inr (audit userId ''INVENTORY_PRODUCT_CREATED'' salonId t, row))))))"

definition apply_product_input :: "stock_env \<Rightarrow> product_input \<Rightarrow> (milli option \<times> inventory_unit option) option \<Rightarrow> product \<Rightarrow> product" where
  "apply_product_input env input content p =
     p\<lparr>ip_name := (case pi_name input of Some n \<Rightarrow> js_trim n | None \<Rightarrow> ip_name p),
       ip_sku := (case pi_sku input of Some v \<Rightarrow> sku_of env v | None \<Rightarrow> ip_sku p),
       ip_unit := nvl (pi_unit input) (ip_unit p),
       ip_isActive := nvl (pi_isActive input) (ip_isActive p),
       ip_category := nvl (pi_category input) (ip_category p),
       ip_supplier := nvl (pi_supplier input) (ip_supplier p),
       ip_threshold := nvl (pi_threshold input) (ip_threshold p),
       ip_sellingPrice := nvl (pi_sellingPrice input) (ip_sellingPrice p),
       ip_location := (case pi_location input of Some v \<Rightarrow> nullableTrim v | None \<Rightarrow> ip_location p),
       ip_minOrder := nvl (pi_minOrder input) (ip_minOrder p),
       ip_contentSize := (case content of Some c \<Rightarrow> fst c | None \<Rightarrow> ip_contentSize p),
       ip_contentUnit := (case content of Some c \<Rightarrow> snd c | None \<Rightarrow> ip_contentUnit p)\<rparr>"

definition updateProduct :: "stock_env \<Rightarrow> db \<Rightarrow> id \<Rightarrow> id \<Rightarrow> id \<Rightarrow> product_input \<Rightarrow> stock_db \<Rightarrow> stock_db \<Rightarrow> stock_error + stock_db" where
  "updateProduct env app userId salonId productId input pre s =
     access (assertOwnerOrAdminAccess app userId salonId) (\<lambda>_.
     theE (find_product salonId productId pre) PRODUCT_NOT_FOUND (\<lambda>_.
     bindE (assertReferences salonId (nvl (pi_category input) None) (nvl (pi_supplier input) None) pre) (\<lambda>_.
     bindE (contentFields input) (\<lambda>content.
     onStockUnique PRODUCT_EXISTS
       (theE (find (\<lambda>p. ip_id p = productId) (iv_products s)) STOCK_RECORD_NOT_FOUND (\<lambda>p.
          let row = apply_product_input env input content p
          in guardE (product_checks row) CHECK_VIOLATION
            (guardE (\<not> exists_where (\<lambda>q. ip_id q \<noteq> productId \<and> product_clash row q) (iv_products s)) STOCK_UNIQUE_VIOLATION
              (Inr (audit userId ''INVENTORY_PRODUCT_UPDATED'' salonId
                 (s\<lparr>iv_products := upd_where (\<lambda>q. ip_id q = productId) (apply_product_input env input content) (iv_products s)\<rparr>))))))))))"

section \<open>What the ledger says\<close>

definition net :: "id \<Rightarrow> movement list \<Rightarrow> milli" where
  "net i ms = sum_list (map im_delta (filter (\<lambda>m. im_product m = i) ms))"

text \<open>The ledger, newest entry first: every entry states the stock it left.\<close>

fun posted :: "movement list \<Rightarrow> bool" where
  "posted [] = True"
| "posted (m # older) \<longleftrightarrow> movement_shape m \<and> im_stockAfter m = im_delta m + net (im_product m) older
     \<and> 0 \<le> im_stockAfter m \<and> 0 \<le> im_avgAfter m \<and> posted older"

definition stock_inv :: "stock_db \<Rightarrow> bool" where
  "stock_inv s \<longleftrightarrow> distinct (map ip_id (iv_products s)) \<and> list_all (\<lambda>p. ip_id p < iv_next s) (iv_products s)
     \<and> list_all (\<lambda>p. ip_stock p = net (ip_id p) (iv_movements s) \<and> 0 \<le> ip_stock p \<and> ip_stock p < MAX_QUANTITY
          \<and> 0 \<le> ip_avgCost p) (iv_products s)
     \<and> posted (rev (iv_movements s)) \<and> distinct (map im_id (iv_movements s)) \<and> list_all (\<lambda>m. im_id m < iv_next s) (iv_movements s)
     \<and> uniq_on (\<lambda>m. (im_salon m, im_key m)) (\<lambda>_. True) (iv_movements s)
     \<and> list_all (\<lambda>m. exists_where (\<lambda>p. ip_id p = im_product m \<and> ip_salon p = im_salon m) (iv_products s)) (iv_movements s)"

text \<open>A transaction that writes no usage appends to the ledger and leaves the usages alone.\<close>

definition ledger_grows :: "stock_db \<Rightarrow> stock_db \<Rightarrow> bool" where
  "ledger_grows s t \<longleftrightarrow> (\<exists>ms. iv_movements t = iv_movements s @ ms) \<and> iv_usages t = iv_usages s \<and> iv_items t = iv_items s
     \<and> iv_next s \<le> iv_next t"

lemma ledger_grows_refl [simp]: "ledger_grows s s"
  by (simp add: ledger_grows_def)

lemma ledger_grows_trans: "ledger_grows s t \<Longrightarrow> ledger_grows t u \<Longrightarrow> ledger_grows s u"
  unfolding ledger_grows_def by (metis append.assoc order_trans)

lemma net_append [simp]: "net i (xs @ ys) = net i xs + net i ys"
  and net_Nil [simp]: "net i [] = 0"
  and net_Cons [simp]: "net i (m # ms) = (if im_product m = i then im_delta m else 0) + net i ms"
  by (simp_all add: net_def)

lemma net_rev [simp]: "net i (rev ms) = net i ms"
  by (induction ms) simp_all

lemma audit_simps [simp]:
  "iv_next (audit u a i s) = iv_next s" "iv_products (audit u a i s) = iv_products s" "iv_movements (audit u a i s) = iv_movements s"
  "iv_usages (audit u a i s) = iv_usages s" "iv_items (audit u a i s) = iv_items s" "iv_rules (audit u a i s) = iv_rules s"
  "iv_suppliers (audit u a i s) = iv_suppliers s" "iv_categories (audit u a i s) = iv_categories s"
  by (simp_all add: audit_def)

lemma stock_inv_audit [simp]: "stock_inv (audit u a i s) = stock_inv s"
  by (simp add: stock_inv_def)

lemma ledger_grows_audit [simp]: "ledger_grows s (audit u a i t) = ledger_grows s t"
  by (simp add: ledger_grows_def)

lemma find_productD: "find_product sa i s = Some p \<Longrightarrow> p \<in> set (iv_products s) \<and> ip_id p = i \<and> ip_salon p = sa"
  by (auto simp: find_product_def dest: find_SomeD)

lemma find_movementD: "find_movement sa k s = Some m \<Longrightarrow> m \<in> set (iv_movements s) \<and> im_salon m = sa \<and> im_key m = k"
  by (auto simp: find_movement_def dest: find_SomeD)

lemma find_movement_None: "find_movement sa k s = None \<longleftrightarrow> (\<forall>m\<in>set (iv_movements s). \<not> (im_salon m = sa \<and> im_key m = k))"
  by (auto simp: find_movement_def find_None_iff)

lemma insert_movementD:
  assumes "insert_movement m s = Inr (t, row)"
  obtains p newAvg where "find_product (im_salon m) (im_product m) s = Some p" "movement_shape m"
    "0 \<le> ip_stock p + im_delta m" "ip_stock p + im_delta m < MAX_QUANTITY" "0 \<le> newAvg"
    "newAvg = (if incoming (im_kind m) then weighted_average (ip_stock p) (ip_avgCost p) (im_delta m) (nvl (im_unitCost m) 0) else ip_avgCost p)"
    "0 \<le> nvl (im_unitCost m) 0" "find_movement (im_salon m) (im_key m) s = None"
    "row = m\<lparr>im_id := iv_next s, im_stockAfter := ip_stock p + im_delta m, im_avgAfter := newAvg\<rparr>"
    "t = s\<lparr>iv_products := upd_where (\<lambda>x. ip_id x = im_product m \<and> ip_salon x = im_salon m)
             (\<lambda>x. x\<lparr>ip_stock := ip_stock p + im_delta m, ip_avgCost := newAvg\<rparr>) (iv_products s),
           iv_movements := iv_movements s @ [row], iv_next := iv_next s + 1\<rparr>"
  using assms unfolding insert_movement_def Let_def success_simps by (auto simp: not_less)

lemma insert_movement_sel:
  "insert_movement m s = Inr (t, row) \<Longrightarrow> im_kind row = im_kind m \<and> im_product row = im_product m \<and> im_delta row = im_delta m
    \<and> im_unitCost row = im_unitCost m \<and> im_group row = im_group m \<and> im_id row = iv_next s \<and> iv_next t = iv_next s + 1
    \<and> im_actor row = im_actor m \<and> im_hash row = im_hash m \<and> im_key row = im_key m \<and> im_salon row = im_salon m"
  by (erule insert_movementD) simp

lemma posted_snoc: "posted (rev (ms @ [m])) \<longleftrightarrow> movement_shape m \<and> im_stockAfter m = im_delta m + net (im_product m) ms
    \<and> 0 \<le> im_stockAfter m \<and> 0 \<le> im_avgAfter m \<and> posted (rev ms)"
  by simp

lemma movement_shape_cong [simp]:
  "movement_shape (m\<lparr>im_id := i\<rparr>) = movement_shape m" "movement_shape (m\<lparr>im_stockAfter := a\<rparr>) = movement_shape m"
  "movement_shape (m\<lparr>im_avgAfter := c\<rparr>) = movement_shape m"
  by (simp_all add: movement_shape_def)

lemma exists_where_keys:
  assumes "map ip_id xs = map ip_id ys" "map ip_salon xs = map ip_salon ys"
  shows "exists_where (\<lambda>p. ip_id p = i \<and> ip_salon p = sa) xs = exists_where (\<lambda>p. ip_id p = i \<and> ip_salon p = sa) ys"
  using assms
proof (induction xs arbitrary: ys)
  case (Cons x xs)
  then show ?case by (cases ys) (auto simp: exists_where_iff)
qed (simp add: exists_where_iff)

lemma insert_movement_inv:
  assumes ins: "insert_movement m s = Inr (t, row)" and inv: "stock_inv s"
  shows "stock_inv t \<and> ledger_grows s t \<and> iv_movements t = iv_movements s @ [row]"
proof -
  obtain p newAvg where p: "find_product (im_salon m) (im_product m) s = Some p" "movement_shape m"
    and new: "0 \<le> ip_stock p + im_delta m" "ip_stock p + im_delta m < MAX_QUANTITY" "0 \<le> newAvg"
    and key: "find_movement (im_salon m) (im_key m) s = None"
    and row: "row = m\<lparr>im_id := iv_next s, im_stockAfter := ip_stock p + im_delta m, im_avgAfter := newAvg\<rparr>"
    and t: "t = s\<lparr>iv_products := upd_where (\<lambda>x. ip_id x = im_product m \<and> ip_salon x = im_salon m)
             (\<lambda>x. x\<lparr>ip_stock := ip_stock p + im_delta m, ip_avgCost := newAvg\<rparr>) (iv_products s),
           iv_movements := iv_movements s @ [row], iv_next := iv_next s + 1\<rparr>"
    by (rule insert_movementD [OF ins]) (rule that, assumption+)
  note pr = find_productD [OF p(1)]
  have only: "x = p" if "x \<in> set (iv_products s)" "ip_id x = im_product m" for x
    using distinct_key_eq [of ip_id "iv_products s" x p] inv pr that by (simp add: stock_inv_def)
  have stock: "ip_stock p = net (im_product m) (iv_movements s)"
    using inv pr by (auto simp: stock_inv_def list_all_iff)
  have ids: "map ip_id (iv_products t) = map ip_id (iv_products s)" "map ip_salon (iv_products t) = map ip_salon (iv_products s)"
    unfolding t by (simp_all add: map_upd_where)
  have products: "list_all (\<lambda>x. ip_id x < iv_next t \<and> ip_stock x = net (ip_id x) (iv_movements t) \<and> 0 \<le> ip_stock x
      \<and> ip_stock x < MAX_QUANTITY \<and> 0 \<le> ip_avgCost x) (iv_products t)"
    unfolding list_all_iff
  proof
    fix y assume "y \<in> set (iv_products t)"
    then obtain x where x: "x \<in> set (iv_products s)"
      and y: "y = (if ip_id x = im_product m \<and> ip_salon x = im_salon m
                   then x\<lparr>ip_stock := ip_stock p + im_delta m, ip_avgCost := newAvg\<rparr> else x)"
      by (auto simp: t in_upd_where)
    have old: "ip_id x < iv_next s" "ip_stock x = net (ip_id x) (iv_movements s)" "0 \<le> ip_stock x" "ip_stock x < MAX_QUANTITY" "0 \<le> ip_avgCost x"
      using inv x by (auto simp: stock_inv_def list_all_iff)
    show "ip_id y < iv_next t \<and> ip_stock y = net (ip_id y) (iv_movements t) \<and> 0 \<le> ip_stock y \<and> ip_stock y < MAX_QUANTITY \<and> 0 \<le> ip_avgCost y"
    proof (cases "ip_id x = im_product m")
      case True
      then have "x = p" using only [OF x] by simp
      then show ?thesis using y True pr new stock old(1) by (simp add: t row)
    next
      case False
      then show ?thesis using y old by (simp add: t row)
    qed
  qed
  have "posted (rev (iv_movements t))"
    using inv p(2) new(1,3) stock by (simp add: t row stock_inv_def)
  moreover have "distinct (map im_id (iv_movements t)) \<and> list_all (\<lambda>x. im_id x < iv_next t) (iv_movements t)"
    using inv by (auto simp: t row stock_inv_def list_all_iff)
  moreover have "uniq_on (\<lambda>m. (im_salon m, im_key m)) (\<lambda>_. True) (iv_movements t)"
    using inv key by (auto simp: t row stock_inv_def uniq_on_snoc find_movement_None)
  moreover have "list_all (\<lambda>m. exists_where (\<lambda>p. ip_id p = im_product m \<and> ip_salon p = im_salon m) (iv_products t)) (iv_movements t)"
  proof -
    have same: "exists_where (\<lambda>p. ip_id p = i \<and> ip_salon p = sa) (iv_products t) = exists_where (\<lambda>p. ip_id p = i \<and> ip_salon p = sa) (iv_products s)" for i sa
      by (rule exists_where_keys) (simp_all add: t map_upd_where)
    show ?thesis unfolding same using inv pr by (auto simp: t row stock_inv_def list_all_iff exists_where_iff)
  qed
  ultimately show ?thesis
    using inv products ids(1) by (auto simp: stock_inv_def ledger_grows_def list_all_iff t)
qed

text \<open>A product that is new, or whose descriptive columns change, does not disturb the ledger.\<close>

lemma stock_inv_products:
  assumes "stock_inv s" "iv_movements t = iv_movements s" "iv_next s \<le> iv_next t" "distinct (map ip_id (iv_products t))"
    and "\<And>q. q \<in> set (iv_products t) \<Longrightarrow> ip_id q < iv_next t \<and>
           ((\<exists>p\<in>set (iv_products s). ip_id q = ip_id p \<and> ip_stock q = ip_stock p \<and> ip_avgCost q = ip_avgCost p)
            \<or> iv_next s \<le> ip_id q \<and> ip_stock q = 0 \<and> ip_avgCost q = 0)"
    and "\<And>p. p \<in> set (iv_products s) \<Longrightarrow> \<exists>q\<in>set (iv_products t). ip_id q = ip_id p \<and> ip_salon q = ip_salon p"
  shows "stock_inv t"
proof -
  have fresh: "net i (iv_movements s) = 0" if "iv_next s \<le> i" for i
  proof -
    have "\<forall>m\<in>set (iv_movements s). im_product m \<noteq> i"
      using assms(1) that by (fastforce simp: stock_inv_def list_all_iff exists_where_iff)
    then show ?thesis by (simp add: net_def filter_empty_conv)
  qed
  have "ip_stock q = net (ip_id q) (iv_movements t) \<and> 0 \<le> ip_stock q \<and> ip_stock q < MAX_QUANTITY \<and> 0 \<le> ip_avgCost q"
    if "q \<in> set (iv_products t)" for q
    using assms(5) [OF that] assms(1,2) fresh [of "ip_id q"]
    by (auto simp: stock_inv_def list_all_iff MAX_QUANTITY_def)
  moreover have "exists_where (\<lambda>p. ip_id p = im_product m \<and> ip_salon p = im_salon m) (iv_products t)" if "m \<in> set (iv_movements t)" for m
    using assms(1,2,6) that by (fastforce simp: stock_inv_def list_all_iff exists_where_iff)
  ultimately show ?thesis
    using assms(1-5) by (fastforce simp: stock_inv_def list_all_iff)
qed

lemma insert_product_inv:
  assumes "insert_product p s = Inr (t, row)" "stock_inv s"
  shows "stock_inv t \<and> ledger_grows s t"
proof -
  have t: "t = s\<lparr>iv_products := iv_products s @ [row], iv_next := iv_next s + 1\<rparr>" "ip_id row = iv_next s" "ip_stock row = 0" "ip_avgCost row = 0"
    using assms(1) by (auto simp: insert_product_def Let_def success_simps)
  have old: "\<forall>p\<in>set (iv_products s). ip_id p < iv_next s" "distinct (map ip_id (iv_products s))"
    using assms(2) by (auto simp: stock_inv_def list_all_iff)
  have "stock_inv t"
    by (rule stock_inv_products [OF assms(2)]) (use t old in \<open>auto simp: less_Suc_eq\<close>)
  then show ?thesis using t by (simp add: ledger_grows_def)
qed

lemma stock_inv_describe:
  assumes "stock_inv s" "\<And>p. ip_id (f p) = ip_id p \<and> ip_salon (f p) = ip_salon p \<and> ip_stock (f p) = ip_stock p \<and> ip_avgCost (f p) = ip_avgCost p"
  shows "stock_inv (s\<lparr>iv_products := upd_where q f (iv_products s)\<rparr>)"
proof (rule stock_inv_products [OF assms(1)])
  fix x assume "x \<in> set (iv_products (s\<lparr>iv_products := upd_where q f (iv_products s)\<rparr>))"
  then obtain p where p: "p \<in> set (iv_products s)" "x = (if q p then f p else p)" by (auto simp: in_upd_where)
  then show "ip_id x < iv_next (s\<lparr>iv_products := upd_where q f (iv_products s)\<rparr>) \<and>
      ((\<exists>p\<in>set (iv_products s). ip_id x = ip_id p \<and> ip_stock x = ip_stock p \<and> ip_avgCost x = ip_avgCost p)
       \<or> iv_next s \<le> ip_id x \<and> ip_stock x = 0 \<and> ip_avgCost x = 0)"
    using assms by (auto simp: stock_inv_def list_all_iff)
next
  fix p assume p: "p \<in> set (iv_products s)"
  show "\<exists>x\<in>set (iv_products (s\<lparr>iv_products := upd_where q f (iv_products s)\<rparr>)). ip_id x = ip_id p \<and> ip_salon x = ip_salon p"
    using upd_where_memI [OF p, of q f] assms(2) by (intro bexI [of _ "if q p then f p else p"]) auto
qed (use assms in \<open>simp_all add: map_upd_where stock_inv_def\<close>)

lemma apply_product_input_keeps [simp]:
  "ip_id (apply_product_input env input c p) = ip_id p" "ip_salon (apply_product_input env input c p) = ip_salon p"
  "ip_stock (apply_product_input env input c p) = ip_stock p" "ip_avgCost (apply_product_input env input c p) = ip_avgCost p"
  by (simp_all add: apply_product_input_def)

lemma stock_inv_lookup_tables [simp]:
  "stock_inv (s\<lparr>iv_categories := cs, iv_next := Suc (iv_next s)\<rparr>) = stock_inv (s\<lparr>iv_next := Suc (iv_next s)\<rparr>)"
  "stock_inv (s\<lparr>iv_suppliers := ss, iv_next := Suc (iv_next s)\<rparr>) = stock_inv (s\<lparr>iv_next := Suc (iv_next s)\<rparr>)"
  by (simp_all add: stock_inv_def)

lemma stock_inv_next: "stock_inv s \<Longrightarrow> stock_inv (s\<lparr>iv_next := Suc (iv_next s)\<rparr>)"
  by (auto simp: stock_inv_def list_all_iff intro: less_SucI)

lemma movement_row_simps [simp]:
  "im_salon (movement_row u sa i key hash input) = sa" "im_product (movement_row u sa i key hash input) = i"
  "im_actor (movement_row u sa i key hash input) = u" "im_kind (movement_row u sa i key hash input) = mi_kind input"
  "im_delta (movement_row u sa i key hash input) = quantity_delta input" "im_key (movement_row u sa i key hash input) = key"
  "im_hash (movement_row u sa i key hash input) = hash" "im_unitCost (movement_row u sa i key hash input) = mi_unitCost input"
  by (simp_all add: movement_row_def new_movement_def)

lemma movement_txD:
  assumes "movement_tx u sa i key hash input seen s = Inr (t, m, created)"
  shows "\<not> created \<and> t = s \<and> find_movement sa key seen = Some m \<and> im_actor m = u \<and> im_hash m = hash
    \<or> created \<and> (\<exists>s1. insert_movement (movement_row u sa i key hash input) s = Inr (s1, m)
         \<and> t = audit u ''INVENTORY_MOVEMENT_RECORDED'' sa s1)"
  using assms unfolding movement_tx_def success_simps by (auto simp: success_simps split: option.splits)

lemma createMovementD:
  assumes "createMovement env app u sa i k input pre seen s = Inr (t, m, created)"
  shows "\<exists>key hash. validateIdempotencyKey k = Some key \<and> hash = se_hash env (request_of u sa i input) \<and>
     (movement_tx u sa i key hash input seen s = Inr (t, m, created) \<or> replay_movement u sa key hash s = Inr (t, m, created))"
  using assms by (auto simp: createMovement_def Let_def success_simps)

lemma createMovement_inv:
  assumes "createMovement env app u sa i k input pre seen s = Inr (t, m, created)" "stock_inv s"
  shows "stock_inv t \<and> ledger_grows s t"
proof -
  obtain key hash where "movement_tx u sa i key hash input seen s = Inr (t, m, created) \<or> replay_movement u sa key hash s = Inr (t, m, created)"
    using createMovementD [OF assms(1)] by blast
  then show ?thesis
  proof
    assume "movement_tx u sa i key hash input seen s = Inr (t, m, created)"
    from movement_txD [OF this] show ?thesis using insert_movement_inv assms(2) by fastforce
  next
    assume "replay_movement u sa key hash s = Inr (t, m, created)"
    then show ?thesis using assms(2) by (auto simp: replay_movement_def success_simps split: option.splits)
  qed
qed

lemma owner_inv:
  "createCategory env app u sa n s = Inr t \<Longrightarrow> stock_inv s \<Longrightarrow> stock_inv t \<and> ledger_grows s t"
  "createSupplier env app u sa si s = Inr t \<Longrightarrow> stock_inv s \<Longrightarrow> stock_inv t \<and> ledger_grows s t"
  "createProduct env app u sa n unit pin pre s = Inr (t, p) \<Longrightarrow> stock_inv s \<Longrightarrow> stock_inv t \<and> ledger_grows s t"
  "updateProduct env app u sa i pin pre s = Inr t \<Longrightarrow> stock_inv s \<Longrightarrow> stock_inv t \<and> ledger_grows s t"
proof -
  assume "createCategory env app u sa n s = Inr t" "stock_inv s"
  then show "stock_inv t \<and> ledger_grows s t"
    by (auto simp: createCategory_def success_simps stock_inv_next ledger_grows_def)
next
  assume "createSupplier env app u sa si s = Inr t" "stock_inv s"
  then show "stock_inv t \<and> ledger_grows s t"
    by (auto simp: createSupplier_def success_simps stock_inv_next ledger_grows_def)
next
  assume "createProduct env app u sa n unit pin pre s = Inr (t, p)" "stock_inv s"
  then show "stock_inv t \<and> ledger_grows s t"
    by (auto simp: createProduct_def success_simps dest: insert_product_inv)
next
  assume "updateProduct env app u sa i pin pre s = Inr t" "stock_inv s"
  then show "stock_inv t \<and> ledger_grows s t"
    by (auto simp: updateProduct_def success_simps Let_def ledger_grows_def intro!: stock_inv_describe)
qed

section \<open>Average cost\<close>

text \<open>The average stays between the old average and the new cost, and values the stock to within half a unit's paisa.\<close>

lemma weighted_average_bounds:
  assumes "0 < stock" "0 < delta" "0 \<le> avg" "0 \<le> cost"
  shows "min avg cost \<le> weighted_average stock avg delta cost \<and> weighted_average stock avg delta cost \<le> max avg cost
    \<and> \<bar>(stock + delta) * weighted_average stock avg delta cost - (stock * avg + delta * cost)\<bar> * 2 \<le> stock + delta"
proof -
  define n where "n = stock + delta"
  define v where "v = stock * avg + delta * cost"
  have n: "0 < n" using assms by (simp add: n_def)
  define q where "q = (2 * v + n) div (2 * n)"
  have q: "2 * n * q \<le> 2 * v + n" "2 * v + n < 2 * n * q + 2 * n"
    using n by (auto simp: q_def) (smt (verit, best) mult.commute pos_mod_bound minus_mod_eq_mult_div pos_mod_sign)+
  have lo: "n * min avg cost \<le> v" and hi: "v \<le> n * max avg cost"
    using assms by (auto simp: n_def v_def distrib_right min_def max_def mult_left_mono add_mono)
  have "min avg cost \<le> q"
  proof (rule ccontr)
    assume "\<not> min avg cost \<le> q"
    then have "n * (q + 1) \<le> n * min avg cost" using n by (intro mult_left_mono) auto
    then show False using lo q(2) n by (simp add: distrib_left)
  qed
  moreover have "q \<le> max avg cost"
  proof (rule ccontr)
    assume "\<not> q \<le> max avg cost"
    then have "n * (max avg cost + 1) \<le> n * q" using n by (intro mult_left_mono) auto
    then show False using hi q(1) n by (simp add: distrib_left)
  qed
  moreover have "\<bar>n * q - v\<bar> * 2 \<le> n" using q by (auto simp: abs_if)
  moreover have "weighted_average stock avg delta cost = q"
    using assms by (simp add: weighted_average_def q_def n_def v_def)
  ultimately show ?thesis by (simp add: n_def v_def)
qed

end
