(* ===== verification/Stock_Catalog.thy ===== *)
theory Stock_Catalog
  imports Stock
begin

text \<open>
  Products of the shared catalogue on the shelves of a shop (\<^verbatim>\<open>inventory/product-catalog.service.ts\<close>): attaching a
  catalogue entry to a product, receiving stock of one, and moving stock between the professional and the retail
  shelf. The handlers run several transactions; what each reads first is the argument \<open>pre\<close>. A receipt and a transfer
  first make sure that the shop has the product and then book the movement: the model joins the two transactions, so a
  state in which the first is committed and the second failed is not a state of a run. The catalogue itself
  (lookup, submission, review) is a list of rows the shop only reads.
\<close>

section \<open>Linking\<close>

definition catalog_entry :: "catalog_product list \<Rightarrow> id \<Rightarrow> catalog_product option" where
  "catalog_entry catalog i =
     (case find (\<lambda>g. gp_id g = i) catalog of None \<Rightarrow> None | Some g \<Rightarrow> if gp_verification g = REJECTED then None else Some g)"

definition on_shelf :: "id \<Rightarrow> id \<Rightarrow> stock_usage \<Rightarrow> stock_db \<Rightarrow> product option" where
  "on_shelf salonId globalId usage s =
     find (\<lambda>p. ip_salon p = salonId \<and> ip_global p = Some globalId \<and> ip_usage p = usage) (iv_products s)"

definition link :: "db \<Rightarrow> catalog_product list \<Rightarrow> id \<Rightarrow> id \<Rightarrow> id \<Rightarrow> id \<Rightarrow> stock_db \<Rightarrow> stock_db \<Rightarrow> stock_error + stock_db" where
  "link app catalog userId salonId productId globalId pre s =
     access (assertOwnerOrAdminAccess app userId salonId) (\<lambda>_.
     theE (catalog_entry catalog globalId) CATALOG_NOT_USABLE (\<lambda>g.
     theE (find_product salonId productId pre) PRODUCT_NOT_FOUND (\<lambda>product.
     guardE (ip_isActive product) PRODUCT_NOT_FOUND
    (if ip_global product = Some (gp_id g) then Inr s
     else guardE (ip_global product = None) ALREADY_LINKED
       (let p = (\<lambda>q. ip_id q = productId \<and> ip_salon q = salonId \<and> ip_global q = None)
        in guardE (count_where p (iv_products s) \<noteq> 0) ALREADY_LINKED
          (guardE (\<not> exists_where (\<lambda>q. p q \<and> exists_where (\<lambda>x. ip_id x \<noteq> ip_id q \<and>
                      product_clash (q\<lparr>ip_global := Some (gp_id g)\<rparr>) x) (iv_products s)) (iv_products s)) LINK_CONFLICT
            (Inr (audit userId ''INVENTORY_PRODUCT_LINKED'' salonId
               (s\<lparr>iv_products := upd_where p (\<lambda>q. q\<lparr>ip_global := Some (gp_id g)\<rparr>) (iv_products s)\<rparr>)))))))))"

section \<open>Receiving\<close>

record receive_input =
  ri_global :: id
  ri_usage :: stock_usage
  ri_name :: "string option"
  ri_unit :: "inventory_unit option"
  ri_quantity :: milli
  ri_unitCost :: paise
  ri_supplier :: "id option"
  ri_sellingPrice :: "paise option option"
  ri_location :: "string option option"
  ri_threshold :: "milli option"
  ri_reference :: "string option"
  ri_batch :: "string option"
  ri_expiry :: "string option"

definition received_product :: "catalog_product \<Rightarrow> id \<Rightarrow> string \<Rightarrow> receive_input \<Rightarrow> product" where
  "received_product g salonId productName input =
     (let unit = nvl (ri_unit input) EACH;
          packed = counted unit \<and> (case gp_packSize g of Some z \<Rightarrow> z > 0 | None \<Rightarrow> False)
            \<and> (case gp_packUnit g of Some u \<Rightarrow> u \<in> {GRAM, KILOGRAM, MILLILITER, LITER, EACH} | None \<Rightarrow> False)
      in \<lparr>ip_id = 0, ip_salon = salonId, ip_category = None, ip_supplier = ri_supplier input, ip_name = take 120 productName,
          ip_sku = None, ip_unit = unit, ip_stock = 0, ip_avgCost = 0, ip_threshold = nvl (ri_threshold input) 0, ip_isActive = True,
          ip_global = Some (gp_id g), ip_usage = ri_usage input, ip_sellingPrice = nvl (ri_sellingPrice input) None,
          ip_location = nullableTrim (nvl (ri_location input) None), ip_minOrder = None,
          ip_contentSize = (if packed then gp_packSize g else None), ip_contentUnit = (if packed then gp_packUnit g else None)\<rparr>)"

definition received_details :: "receive_input \<Rightarrow> product \<Rightarrow> product" where
  "received_details input p =
     p\<lparr>ip_sellingPrice := nvl (ri_sellingPrice input) (ip_sellingPrice p),
       ip_location := (case ri_location input of Some v \<Rightarrow> nullableTrim v | None \<Rightarrow> ip_location p),
       ip_threshold := nvl (ri_threshold input) (ip_threshold p)\<rparr>"

text \<open>The product to receive into: the one of an earlier entry, the one on the shelf, or a new one.\<close>

definition receiving_product :: "catalog_product \<Rightarrow> id \<Rightarrow> id \<Rightarrow> string \<Rightarrow> receive_input \<Rightarrow> movement option \<Rightarrow> stock_db \<Rightarrow> stock_db
    \<Rightarrow> stock_error + (stock_db \<times> id)" where
  "receiving_product g userId salonId productName input earlier pre s =
     (let details = (\<lambda>i. upd_where (\<lambda>p. ip_id p = i) (received_details input) (iv_products s)) in
      case earlier of
        Some m \<Rightarrow> Inr (s, im_product m)
      | None \<Rightarrow>
          (case on_shelf salonId (gp_id g) (ri_usage input) pre of
             Some p \<Rightarrow> Inr (s\<lparr>iv_products := details (ip_id p)\<rparr>, ip_id p)
           | None \<Rightarrow>
               catchUnique
                 (bindE (insert_product (received_product g salonId productName input) s) (\<lambda>(t, row).
                    Inr (audit userId ''INVENTORY_PRODUCT_CREATED'' salonId t, ip_id row)))
                 (theE (on_shelf salonId (gp_id g) (ri_usage input) s) STOCK_RECORD_NOT_FOUND (\<lambda>p.
                    Inr (s\<lparr>iv_products := details (ip_id p)\<rparr>, ip_id p)))))"

definition receive_kind :: "receive_input \<Rightarrow> movement option \<Rightarrow> id \<Rightarrow> stock_db \<Rightarrow> movement_kind" where
  "receive_kind input earlier productId s =
     (case earlier of Some m \<Rightarrow> im_kind m
      | None \<Rightarrow> if \<not> exists_where (\<lambda>m. im_product m = productId) (iv_movements s) \<and> ri_supplier input = None
                then OPENING else PURCHASE)"

definition receive :: "stock_env \<Rightarrow> db \<Rightarrow> catalog_product list \<Rightarrow> id \<Rightarrow> id \<Rightarrow> string option \<Rightarrow> receive_input \<Rightarrow> stock_db \<Rightarrow> stock_db
    \<Rightarrow> stock_error + (stock_db \<times> movement \<times> bool)" where
  "receive env app catalog userId salonId idempotencyKey input pre s =
     access (assertOwnerOrAdminAccess app userId salonId) (\<lambda>_.
     theE (nullableTrim idempotencyKey) MOVEMENT_KEY_REQUIRED (\<lambda>_.
     theE (catalog_entry catalog (ri_global input)) CATALOG_NOT_USABLE (\<lambda>g.
     let detailsVisible = gp_verification g = VERIFIED \<or> gp_submittedBy g = Some salonId
     in theE (orElse (nullableTrim (ri_name input)) (if detailsVisible then Some (gp_name g) else None)) CATALOG_NOT_USABLE (\<lambda>productName.
     let earlier = find_movement salonId (nvl idempotencyKey []) pre
     in bindE (receiving_product g userId salonId productName input earlier pre s) (\<lambda>(s1, productId).
     let kind = receive_kind input earlier productId s1
     in createMovement env app userId salonId productId idempotencyKey
          \<lparr>mi_kind = kind, mi_quantity = ri_quantity input, mi_unitCost = Some (ri_unitCost input),
           mi_supplier = (if kind = PURCHASE then ri_supplier input else None), mi_direction = None, mi_reason = None,
           mi_reference = (if ri_reference input = Some [] then None else ri_reference input), mi_batch = ri_batch input, mi_expiry = ri_expiry input\<rparr>
          s1 s1 s1)))))"

section \<open>Moving between shelves\<close>

definition other_shelf :: "stock_usage \<Rightarrow> stock_usage" where
  "other_shelf u = (if u = PROFESSIONAL then RETAIL else PROFESSIONAL)"

definition shelf_target :: "id \<Rightarrow> product \<Rightarrow> id \<Rightarrow> stock_db \<Rightarrow> stock_db \<Rightarrow> stock_error + (stock_db \<times> id)" where
  "shelf_target salonId source globalId pre s =
     (case on_shelf salonId globalId (other_shelf (ip_usage source)) pre of
        Some p \<Rightarrow> Inr (s, ip_id p)
      | None \<Rightarrow>
          catchUnique
            (bindE (insert_product
               \<lparr>ip_id = 0, ip_salon = salonId, ip_category = ip_category source, ip_supplier = ip_supplier source, ip_name = ip_name source,
                ip_sku = None, ip_unit = ip_unit source, ip_stock = 0, ip_avgCost = 0, ip_threshold = 0, ip_isActive = True,
                ip_global = Some globalId, ip_usage = other_shelf (ip_usage source), ip_sellingPrice = None, ip_location = None,
                ip_minOrder = None, ip_contentSize = None, ip_contentUnit = None\<rparr> s) (\<lambda>(t, row). Inr (t, ip_id row)))
            (theE (on_shelf salonId globalId (other_shelf (ip_usage source)) s) STOCK_RECORD_NOT_FOUND (\<lambda>p. Inr (s, ip_id p))))"

definition transfer_tx :: "stock_env \<Rightarrow> id \<Rightarrow> id \<Rightarrow> id \<Rightarrow> id \<Rightarrow> string \<Rightarrow> milli \<Rightarrow> string option \<Rightarrow> stock_db \<Rightarrow> stock_error + stock_db" where
  "transfer_tx env userId salonId sourceId targetId key quantity reason s =
     theE (find_product salonId sourceId s) STOCK_RECORD_NOT_FOUND (\<lambda>from_row.
     guardE (\<not> ip_stock from_row < quantity) INSUFFICIENT_STOCK
    (bindE (insert_movement
        ((new_movement salonId sourceId userId TRANSFER_OUT (- quantity) (key @ '':out'')
            (se_transferHash env userId salonId sourceId ''out'' quantity))\<lparr>im_reason := nullableTrim reason, im_group := Some (iv_next s)\<rparr>) s)
      (\<lambda>(s1, _).
     bindE (insert_movement
        ((new_movement salonId targetId userId TRANSFER_IN quantity (key @ '':in'')
            (se_transferHash env userId salonId sourceId ''in'' quantity))
              \<lparr>im_unitCost := Some (ip_avgCost from_row), im_reason := nullableTrim reason, im_group := Some (iv_next s)\<rparr>) s1)
      (\<lambda>(s2, _). Inr (audit userId ''INVENTORY_SHELF_TRANSFER'' salonId s2)))))"

definition transfer :: "stock_env \<Rightarrow> db \<Rightarrow> id \<Rightarrow> id \<Rightarrow> id \<Rightarrow> string option \<Rightarrow> milli \<Rightarrow> string option \<Rightarrow> stock_db \<Rightarrow> stock_db
    \<Rightarrow> stock_error + (stock_db \<times> id)" where
  "transfer env app userId salonId productId idempotencyKey quantity reason pre s =
     access (assertOwnerOrAdminAccess app userId salonId) (\<lambda>_.
     theE (nullableTrim idempotencyKey) MOVEMENT_KEY_REQUIRED (\<lambda>key.
     guardE (\<not> length key > 120) MOVEMENT_KEY_REQUIRED
    (theE (find_product salonId productId pre) PRODUCT_NOT_FOUND (\<lambda>source.
     theE (ip_global source) INVALID_MOVEMENT (\<lambda>globalId.
     bindE (shelf_target salonId source globalId pre s) (\<lambda>(s1, targetId).
     if find_movement salonId (key @ '':out'') s1 \<noteq> None then Inr (s1, targetId)
     else catchUnique
       (bindE (transfer_tx env userId salonId productId targetId key quantity reason s1) (\<lambda>s2. Inr (s2, targetId)))
       (Inr (s1, targetId))))))))"

section \<open>The ledger stays sound\<close>

lemma link_inv:
  assumes "link app catalog u sa i g pre s = Inr t" "stock_inv s"
  shows "stock_inv t \<and> ledger_grows s t"
  using assms by (auto simp: link_def success_simps Let_def ledger_grows_def split: if_splits intro!: stock_inv_describe)

lemma received_details_keeps [simp]:
  "ip_id (received_details input p) = ip_id p" "ip_salon (received_details input p) = ip_salon p"
  "ip_stock (received_details input p) = ip_stock p" "ip_avgCost (received_details input p) = ip_avgCost p"
  by (simp_all add: received_details_def)

lemma receiving_inv:
  assumes "receiving_product g u sa n input earlier pre s = Inr (t, i)" "stock_inv s"
  shows "stock_inv t \<and> ledger_grows s t"
  using assms
  by (auto simp: receiving_product_def success_simps Let_def ledger_grows_def split: option.splits
      intro!: stock_inv_describe dest: insert_product_inv)

lemma receive_inv:
  assumes "receive env app catalog u sa k input pre s = Inr (t, m, created)" "stock_inv s"
  shows "stock_inv t \<and> ledger_grows s t"
  using assms by (auto simp: receive_def success_simps Let_def dest!: receiving_inv createMovement_inv intro: ledger_grows_trans)

lemma shelf_target_inv:
  assumes "shelf_target sa source g pre s = Inr (t, i)" "stock_inv s"
  shows "stock_inv t \<and> ledger_grows s t \<and> iv_movements t = iv_movements s
    \<and> sum_list (map ip_stock (iv_products t)) = sum_list (map ip_stock (iv_products s))"
proof -
  have new: "sum_list (map ip_stock (iv_products t)) = sum_list (map ip_stock (iv_products s)) \<and> iv_movements t = iv_movements s"
    if "insert_product p s = Inr (t, row)" for p row
    using that by (auto simp: insert_product_def Let_def success_simps)
  show ?thesis using assms new
    by (auto simp: shelf_target_def success_simps split: option.splits dest: insert_product_inv)
qed

lemma sum_upd_one:
  assumes "distinct (map i rs)" "r \<in> set rs" "q r" "\<And>x. x \<in> set rs \<Longrightarrow> q x \<Longrightarrow> i x = i r" "g (f r) = g r + (d :: int)"
  shows "sum_list (map g (upd_where q f rs)) = sum_list (map g rs) + d"
  using assms
proof (induction rs)
  case (Cons x xs)
  show ?case
  proof (cases "q x")
    case True
    then have "i x = i r" using Cons.prems(4) by simp
    then have "x = r" using distinct_key_eq [OF Cons.prems(1)] Cons.prems(2) by simp
    moreover have none: "\<not> q y" if "y \<in> set xs" for y
      using that Cons.prems(1,4) \<open>i x = i r\<close> by (auto simp: image_iff)
    have "map g (upd_where q f xs) = map g xs" by (rule map_upd_where) (simp add: none)
    ultimately show ?thesis using True Cons.prems(5) by simp
  next
    case False
    then have "r \<in> set xs" using Cons.prems(2,3) by auto
    have "sum_list (map g (upd_where q f xs)) = sum_list (map g xs) + d"
    proof (rule Cons.IH [OF _ \<open>r \<in> set xs\<close> Cons.prems(3) _ Cons.prems(5)])
      show "distinct (map i xs)" using Cons.prems(1) by simp
      show "i y = i r" if "y \<in> set xs" "q y" for y using Cons.prems(4) [of y] that by simp
    qed
    then show ?thesis using False by simp
  qed
qed simp

lemma insert_movement_total:
  assumes "insert_movement m s = Inr (t, row)" "stock_inv s"
  shows "sum_list (map ip_stock (iv_products t)) = sum_list (map ip_stock (iv_products s)) + im_delta m"
proof -
  obtain p newAvg where p: "find_product (im_salon m) (im_product m) s = Some p"
    and t: "iv_products t = upd_where (\<lambda>x. ip_id x = im_product m \<and> ip_salon x = im_salon m)
             (\<lambda>x. x\<lparr>ip_stock := ip_stock p + im_delta m, ip_avgCost := newAvg\<rparr>) (iv_products s)"
    by (rule insert_movementD [OF assms(1)]) (rule that, assumption, simp)
  show ?thesis unfolding t
    by (rule sum_upd_one [where i = ip_id and r = p]) (use find_productD [OF p] assms(2) in \<open>auto simp: stock_inv_def\<close>)
qed

lemma transfer_txD:
  assumes "transfer_tx env u sa i j key q reason s = Inr t" "stock_inv s"
  shows "stock_inv t \<and> ledger_grows s t \<and> sum_list (map ip_stock (iv_products t)) = sum_list (map ip_stock (iv_products s))
    \<and> (\<exists>p m n. find_product sa i s = Some p \<and> q \<le> ip_stock p \<and> iv_movements t = iv_movements s @ [m, n]
         \<and> im_kind m = TRANSFER_OUT \<and> im_product m = i \<and> im_delta m = - q
         \<and> im_kind n = TRANSFER_IN \<and> im_product n = j \<and> im_delta n = q \<and> im_unitCost n = Some (ip_avgCost p)
         \<and> im_group m = im_group n \<and> im_group m \<noteq> None)"
proof -
  obtain p s1 m s2 n where p: "find_product sa i s = Some p" "q \<le> ip_stock p"
    and m: "insert_movement ((new_movement sa i u TRANSFER_OUT (- q) (key @ '':out'') (se_transferHash env u sa i ''out'' q))
        \<lparr>im_reason := nullableTrim reason, im_group := Some (iv_next s)\<rparr>) s = Inr (s1, m)"
    and n: "insert_movement ((new_movement sa j u TRANSFER_IN q (key @ '':in'') (se_transferHash env u sa i ''in'' q))
        \<lparr>im_unitCost := Some (ip_avgCost p), im_reason := nullableTrim reason, im_group := Some (iv_next s)\<rparr>) s1 = Inr (s2, n)"
    and t: "t = audit u ''INVENTORY_SHELF_TRANSFER'' sa s2"
    using assms(1) unfolding transfer_tx_def success_simps by (auto simp: success_simps not_less)
  note inv1 = insert_movement_inv [OF m assms(2)]
  note inv2 = insert_movement_inv [OF n conjunct1 [OF inv1]]
  have total: "sum_list (map ip_stock (iv_products t)) = sum_list (map ip_stock (iv_products s))"
    using insert_movement_total [OF m assms(2)] insert_movement_total [OF n conjunct1 [OF inv1]]
    by (simp add: t new_movement_def)
  have rows: "im_kind m = TRANSFER_OUT \<and> im_product m = i \<and> im_delta m = - q \<and> im_group m = Some (iv_next s)"
    "im_kind n = TRANSFER_IN \<and> im_product n = j \<and> im_delta n = q \<and> im_unitCost n = Some (ip_avgCost p) \<and> im_group n = Some (iv_next s)"
    using insert_movement_sel [OF m] insert_movement_sel [OF n] by (simp_all add: new_movement_def)
  show ?thesis using inv1 inv2 total rows p t by (auto intro: ledger_grows_trans)
qed

lemma transferD:
  assumes "transfer env app u sa i k q reason pre s = Inr (t, j)" "stock_inv s"
  obtains s1 key where "stock_inv s1" "ledger_grows s s1" "iv_movements s1 = iv_movements s"
    "sum_list (map ip_stock (iv_products s1)) = sum_list (map ip_stock (iv_products s))"
    "t = s1 \<or> transfer_tx env u sa i j key q reason s1 = Inr t"
proof -
  obtain key source g s1 where s1: "shelf_target sa source g pre s = Inr (s1, j)"
    and "t = s1 \<or> transfer_tx env u sa i j key q reason s1 = Inr t"
    using assms(1) unfolding transfer_def success_simps by (auto simp: success_simps split: if_splits)
  then show thesis using that shelf_target_inv [OF s1 assms(2)] by blast
qed

lemma transfer_inv:
  assumes "transfer env app u sa i k q reason pre s = Inr (t, j)" "stock_inv s"
  shows "stock_inv t \<and> ledger_grows s t"
proof -
  obtain s1 key where "stock_inv s1" "ledger_grows s s1" "t = s1 \<or> transfer_tx env u sa i j key q reason s1 = Inr t"
    by (rule transferD [OF assms]) (rule that, assumption+)
  then show ?thesis using transfer_txD by (metis ledger_grows_trans)
qed

end
