(* ===== verification/Service_Usage.thy ===== *)
theory Service_Usage
  imports Stock_Catalog
begin

text \<open>
  Products used in services (\<^verbatim>\<open>inventory/service-usage.service.ts\<close>, \<^verbatim>\<open>shared/src/service-usage.ts\<close>): recipes, the
  conversion to the unit a product is counted in, recording what a visit used, the owner's correction, and the
  automatic deduction when the queue completes a visit. \<open>app\<close> is the database of the queue, read only. Entered amounts
  are thousandths, as the request schema demands; the conversion is exact before it is rounded. The automatic deduction
  records service by service; the model runs its transactions without a pause between them. The lists and the
  dashboard are left out.
\<close>

section \<open>Units\<close>

datatype dimension = MASS | VOLUME | COUNT

fun UNIT_BASE :: "inventory_unit \<Rightarrow> (dimension \<times> int) option" where
  "UNIT_BASE GRAM = Some (MASS, 1)"
| "UNIT_BASE KILOGRAM = Some (MASS, 1000)"
| "UNIT_BASE MILLILITER = Some (VOLUME, 1)"
| "UNIT_BASE LITER = Some (VOLUME, 1000)"
| "UNIT_BASE EACH = Some (COUNT, 1)"
| "UNIT_BASE _ = None"

text \<open>\<open>n / d\<close> thousandths, rounded half up, but not to zero.\<close>

definition toLedger :: "int \<Rightarrow> int \<Rightarrow> milli" where
  "toLedger n d = (let rounded = (2 * n + d) div (2 * d) in if n > 0 \<and> rounded = 0 then 1 else rounded)"

text \<open>Through the contents of one piece: 10 ml of a bottle of 195 ml.\<close>

definition through_contents :: "dimension \<Rightarrow> int \<Rightarrow> milli \<Rightarrow> product \<Rightarrow> milli option" where
  "through_contents dm f quantity p =
     (case (ip_contentSize p, ip_contentUnit p) of
        (Some z, Some u) \<Rightarrow>
          (case UNIT_BASE u of
             Some (dm', c) \<Rightarrow> if dm = dm' \<and> z > 0 then Some (toLedger (1000 * quantity * f) (z * c)) else None
           | None \<Rightarrow> None)
      | _ \<Rightarrow> None)"

definition convertToStockUnit :: "milli \<Rightarrow> inventory_unit \<Rightarrow> product \<Rightarrow> milli option" where
  "convertToStockUnit quantity unit p =
     (if \<not> quantity > 0 then None
      else if unit = ip_unit p then Some (toLedger quantity 1)
      else case UNIT_BASE unit of
          None \<Rightarrow> None
        | Some (dm, f) \<Rightarrow>
            (case UNIT_BASE (ip_unit p) of
               Some (dm', t) \<Rightarrow> if dm = dm' then Some (toLedger (quantity * f) t) else through_contents dm f quantity p
             | None \<Rightarrow> through_contents dm f quantity p))"

section \<open>Recipes\<close>

record recipe_line =
  rl_category :: id
  rl_quantity :: milli
  rl_unit :: inventory_unit
  rl_default :: "id option"
  rl_autoDeduct :: bool

fun check_lines :: "id \<Rightarrow> recipe_line list \<Rightarrow> stock_db \<Rightarrow> stock_error + unit" where
  "check_lines salonId [] s = Inr ()"
| "check_lines salonId (l # ls) s =
     (case rl_default l of
        None \<Rightarrow> check_lines salonId ls s
      | Some d \<Rightarrow>
          theE (find (\<lambda>p. ip_id p = d \<and> ip_salon p = salonId \<and> ip_isActive p) (iv_products s)) INVALID_RECIPE (\<lambda>p.
          guardE (ip_category p = Some (rl_category l)) INVALID_RECIPE
         (guardE (convertToStockUnit (rl_quantity l) (rl_unit l) p \<noteq> None) UNIT_MISMATCH
           (check_lines salonId ls s))))"

definition rule_row :: "recipe_line \<Rightarrow> nat \<Rightarrow> rule \<Rightarrow> rule" where
  "rule_row l n r = r\<lparr>sr_quantity := rl_quantity l, sr_unit := rl_unit l, sr_default := rl_default l, sr_autoDeduct := rl_autoDeduct l,
     sr_sortOrder := n\<rparr>"

fun upsert_lines :: "id \<Rightarrow> id \<Rightarrow> nat \<Rightarrow> recipe_line list \<Rightarrow> stock_db \<Rightarrow> stock_db" where
  "upsert_lines salonId serviceId n [] s = s"
| "upsert_lines salonId serviceId n (l # ls) s =
     (let p = (\<lambda>r. sr_service r = serviceId \<and> sr_category r = rl_category l)
      in upsert_lines salonId serviceId (n + 1) ls
           (if exists_where p (iv_rules s) then s\<lparr>iv_rules := upd_where p (rule_row l n) (iv_rules s)\<rparr>
            else s\<lparr>iv_rules := iv_rules s @ [rule_row l n \<lparr>sr_id = iv_next s, sr_salon = salonId, sr_service = serviceId,
                     sr_category = rl_category l, sr_quantity = 0, sr_unit = EACH, sr_default = None, sr_autoDeduct = False, sr_sortOrder = 0\<rparr>],
                   iv_next := iv_next s + 1\<rparr>))"

definition putRecipe :: "db \<Rightarrow> id \<Rightarrow> id \<Rightarrow> id \<Rightarrow> recipe_line list \<Rightarrow> stock_db \<Rightarrow> stock_db \<Rightarrow> stock_error + stock_db" where
  "putRecipe app userId salonId serviceId lines pre s =
     access (assertOwnerOrAdminAccess app userId salonId) (\<lambda>_.
     guardE (exists_where (\<lambda>v. sv_id v = serviceId \<and> sv_salon v = salonId) (db_services app)) INVALID_RECIPE
    (guardE (list_all (\<lambda>l. exists_where (\<lambda>c. ic_id c = rl_category l \<and> ic_salon c = salonId) (iv_categories pre)) lines) INVALID_RECIPE
    (bindE (check_lines salonId lines pre) (\<lambda>_.
       let gone = (\<lambda>r. sr_salon r = salonId \<and> sr_service r = serviceId \<and> sr_category r \<notin> set (map rl_category lines));
           lost = map sr_id (filter gone (iv_rules s));
           s1 = s\<lparr>iv_rules := filter (\<lambda>r. \<not> gone r) (iv_rules s),
                  iv_items := upd_where (\<lambda>i. case ui_rule i of Some r \<Rightarrow> r \<in> set lost | None \<Rightarrow> False) (\<lambda>i. i\<lparr>ui_rule := None\<rparr>) (iv_items s)\<rparr>
       in Inr (audit userId ''SERVICE_RECIPE_UPDATED'' salonId (upsert_lines salonId serviceId 0 lines s1))))))"

section \<open>Recording a visit\<close>

definition visitServices :: "db \<Rightarrow> entry \<Rightarrow> (id \<times> string) list" where
  "visitServices app e =
     (let booked = (case qe_booking e of None \<Rightarrow> []
                    | Some b \<Rightarrow> (case find_booking app b of None \<Rightarrow> []
                                 | Some bk \<Rightarrow> map (\<lambda>i. (bi_service i, bi_name i)) (bk_services bk)))
      in if booked \<noteq> [] then booked
         else case qe_service e of None \<Rightarrow> []
              | Some i \<Rightarrow> (case find_service app i of None \<Rightarrow> [] | Some v \<Rightarrow> [(sv_id v, sv_name v)]))"

record usage_line =
  ul_product :: id
  ul_quantity :: milli
  ul_unit :: inventory_unit
  ul_rule :: "id option"

type_synonym service_lines = "id \<times> usage_line list"

record planned_line =
  pn_line :: usage_line
  pn_stock :: milli
  pn_rule :: "id option"

record planned_service =
  pv_service :: id
  pv_name :: string
  pv_lines :: "planned_line list"

fun plan_lines :: "id \<Rightarrow> id \<Rightarrow> usage_line list \<Rightarrow> stock_db \<Rightarrow> stock_error + planned_line list" where
  "plan_lines salonId serviceId [] s = Inr []"
| "plan_lines salonId serviceId (l # ls) s =
     theE (find (\<lambda>p. ip_id p = ul_product l \<and> ip_salon p = salonId \<and> ip_isActive p) (iv_products s)) PRODUCT_NOT_FOUND (\<lambda>p.
     theE (convertToStockUnit (ul_quantity l) (ul_unit l) p) UNIT_MISMATCH (\<lambda>v.
     bindE (plan_lines salonId serviceId ls s) (\<lambda>rest.
       Inr (\<lparr>pn_line = l, pn_stock = v,
              pn_rule = (if exists_where (\<lambda>r. Some (sr_id r) = ul_rule l \<and> sr_service r = serviceId \<and> sr_salon r = salonId) (iv_rules s)
                         then ul_rule l else None)\<rparr> # rest))))"

fun plan_services :: "id \<Rightarrow> (id \<times> string) list \<Rightarrow> service_lines list \<Rightarrow> stock_db \<Rightarrow> stock_error + planned_service list" where
  "plan_services salonId services [] s = Inr []"
| "plan_services salonId services ((serviceId, ls) # rest) s =
     bindE (plan_lines salonId serviceId ls s) (\<lambda>items.
     bindE (plan_services salonId services rest s) (\<lambda>more.
       Inr (\<lparr>pv_service = serviceId, pv_name = nvl (map_of services serviceId) [], pv_lines = items\<rparr> # more)))"

definition recorded_for :: "id \<Rightarrow> id \<Rightarrow> usage \<Rightarrow> bool" where
  "recorded_for entryId serviceId u \<longleftrightarrow> ug_entry u = entryId \<and> ug_service u = serviceId \<and> ug_status u = USAGE_RECORDED"

definition items_of :: "id \<Rightarrow> stock_db \<Rightarrow> usage_item list" where
  "items_of i s = filter (\<lambda>x. ui_usage x = i) (iv_items s)"

definition sameItems :: "usage_item list \<Rightarrow> planned_line list \<Rightarrow> bool" where
  "sameItems existing ls \<longleftrightarrow> length existing = length ls \<and>
     list_all (\<lambda>l. exists_where (\<lambda>e. ui_product e = ul_product (pn_line l) \<and> ui_enteredUnit e = ul_unit (pn_line l)
        \<and> ui_entered e = ul_quantity (pn_line l)) existing) ls"

text \<open>A service of the visit, its usage, and whether this request created it.\<close>

type_synonym usage_result = "id \<times> id \<times> bool"

fun split_planned :: "id \<Rightarrow> planned_service list \<Rightarrow> stock_db \<Rightarrow> stock_error + (planned_service list \<times> usage_result list)" where
  "split_planned entryId [] s = Inr ([], [])"
| "split_planned entryId (v # vs) s =
     (case find (recorded_for entryId (pv_service v)) (iv_usages s) of
        None \<Rightarrow> bindE (split_planned entryId vs s) (\<lambda>(toWrite, results). Inr (v # toWrite, results))
      | Some u \<Rightarrow> guardE (sameItems (items_of (ug_id u) s) (pv_lines v)) ALREADY_RECORDED
          (bindE (split_planned entryId vs s) (\<lambda>(toWrite, results). Inr (toWrite, (pv_service v, ug_id u, False) # results))))"

definition needed :: "planned_service list \<Rightarrow> id \<Rightarrow> milli" where
  "needed vs i = sum_list (map pn_stock (filter (\<lambda>l. ul_product (pn_line l) = i) (concat (map pv_lines vs))))"

definition short_of :: "id \<Rightarrow> planned_service list \<Rightarrow> stock_db \<Rightarrow> id \<Rightarrow> bool" where
  "short_of salonId vs s i = (case find_product salonId i s of None \<Rightarrow> True | Some p \<Rightarrow> ip_stock p < needed vs i)"

definition usage_key :: "id \<Rightarrow> id \<Rightarrow> string" where
  "usage_key usageId productId = ''svc-usage:'' @ show_nat usageId @ '':'' @ show_nat productId"

definition insert_item :: "usage_item \<Rightarrow> stock_db \<Rightarrow> stock_error + stock_db" where
  "insert_item it s =
     guardE (0 < ui_quantity it \<and> 0 < ui_entered it) CHECK_VIOLATION
    (guardE (\<not> exists_where (\<lambda>x. ui_usage x = ui_usage it \<and> ui_product x = ui_product it) (iv_items s)) STOCK_UNIQUE_VIOLATION
    (guardE (case ui_rule it of None \<Rightarrow> True | Some r \<Rightarrow> exists_where (\<lambda>x. sr_id x = r) (iv_rules s)) FOREIGN_KEY_VIOLATION
      (Inr (s\<lparr>iv_items := iv_items s @ [it\<lparr>ui_id := iv_next s\<rparr>], iv_next := iv_next s + 1\<rparr>))))"

definition usage_movement :: "stock_env \<Rightarrow> id \<Rightarrow> id \<Rightarrow> id \<Rightarrow> string \<Rightarrow> planned_line \<Rightarrow> movement" where
  "usage_movement env userId salonId usageId reason l =
     (let productId = ul_product (pn_line l); key = usage_key usageId productId
      in (new_movement salonId productId userId CONSUMED (- pn_stock l) key (se_sha env key))
           \<lparr>im_reason := Some (take 300 reason), im_reference := Some (''service-usage:'' @ show_nat usageId)\<rparr>)"

fun write_lines :: "stock_env \<Rightarrow> id \<Rightarrow> id \<Rightarrow> id \<Rightarrow> string \<Rightarrow> planned_line list \<Rightarrow> stock_db \<Rightarrow> stock_error + stock_db" where
  "write_lines env userId salonId usageId reason [] s = Inr s"
| "write_lines env userId salonId usageId reason (l # ls) s =
     bindE (insert_movement (usage_movement env userId salonId usageId reason l) s) (\<lambda>(s1, m).
     bindE (insert_item \<lparr>ui_id = 0, ui_usage = usageId, ui_salon = salonId, ui_product = ul_product (pn_line l), ui_rule = pn_rule l,
              ui_quantity = pn_stock l, ui_entered = ul_quantity (pn_line l), ui_enteredUnit = ul_unit (pn_line l),
              ui_movement = im_id m, ui_reversal = None\<rparr> s1)
       (write_lines env userId salonId usageId reason ls))"

definition insert_usage :: "usage \<Rightarrow> stock_db \<Rightarrow> stock_error + (stock_db \<times> id)" where
  "insert_usage u s =
     guardE (\<not> exists_where (recorded_for (ug_entry u) (ug_service u)) (iv_usages s)) STOCK_UNIQUE_VIOLATION
       (Inr (s\<lparr>iv_usages := iv_usages s @ [u\<lparr>ug_id := iv_next s\<rparr>], iv_next := iv_next s + 1\<rparr>, iv_next s))"

definition usage_reason :: "string \<Rightarrow> entry \<Rightarrow> string" where
  "usage_reason name e = ''Used for '' @ name @ '' (token '' @ show_nat (nat (qe_token e)) @ '')''"

fun write_services :: "stock_env \<Rightarrow> id \<Rightarrow> entry \<Rightarrow> id option \<Rightarrow> usage_source \<Rightarrow> planned_service list \<Rightarrow> stock_db
    \<Rightarrow> stock_error + (stock_db \<times> usage_result list)" where
  "write_services env userId e staffId source [] s = Inr (s, [])"
| "write_services env userId e staffId source (v # vs) s =
     bindE (insert_usage \<lparr>ug_id = 0, ug_salon = qe_salon e, ug_entry = qe_id e, ug_service = pv_service v, ug_staff = staffId,
              ug_status = USAGE_RECORDED, ug_source = source, ug_by = userId, ug_reversedBy = None, ug_reason = None\<rparr> s) (\<lambda>(s1, usageId).
     bindE (write_lines env userId (qe_salon e) usageId (usage_reason (pv_name v) e) (pv_lines v) s1) (\<lambda>s2.
     bindE (write_services env userId e staffId source vs (audit userId ''SERVICE_USAGE_RECORDED'' (qe_salon e) s2)) (\<lambda>(s3, results).
       Inr (s3, (pv_service v, usageId, True) # results))))"

text \<open>
  One transaction: what is already recorded is looked up in \<open>seen\<close>, before the products are locked; the rest runs on
  \<open>s\<close>. When the index on recorded usages refuses the write, the handler answers with what is there, if it is the same.
\<close>

definition record_tx :: "stock_env \<Rightarrow> id \<Rightarrow> entry \<Rightarrow> id option \<Rightarrow> usage_source \<Rightarrow> planned_service list \<Rightarrow> stock_db \<Rightarrow> stock_db
    \<Rightarrow> stock_error + (stock_db \<times> usage_result list)" where
  "record_tx env userId e staffId source planned seen s =
     bindE (split_planned (qe_id e) planned seen) (\<lambda>(toWrite, results).
       if toWrite = [] then Inr (s, results)
       else guardE (\<not> list_ex (\<lambda>l. short_of (qe_salon e) toWrite s (ul_product (pn_line l))) (concat (map pv_lines toWrite))) INSUFFICIENT_STOCK
         (bindE (write_services env userId e staffId source toWrite s) (\<lambda>(t, written). Inr (t, results @ written))))"

fun replay_services :: "id \<Rightarrow> planned_service list \<Rightarrow> stock_db \<Rightarrow> stock_error + usage_result list" where
  "replay_services entryId [] s = Inr []"
| "replay_services entryId (v # vs) s =
     theE (find (recorded_for entryId (pv_service v)) (iv_usages s)) ALREADY_RECORDED (\<lambda>u.
     guardE (sameItems (items_of (ug_id u) s) (pv_lines v)) ALREADY_RECORDED
       (bindE (replay_services entryId vs s) (\<lambda>results. Inr ((pv_service v, ug_id u, False) # results))))"

definition record_usage :: "stock_env \<Rightarrow> db \<Rightarrow> id \<Rightarrow> entry \<Rightarrow> id option \<Rightarrow> service_lines list \<Rightarrow> usage_source \<Rightarrow> stock_db \<Rightarrow> stock_db \<Rightarrow> stock_db
    \<Rightarrow> stock_error + (stock_db \<times> usage_result list)" where
  "record_usage env app userId e staffId input source pre seen s =
     guardE (list_all (\<lambda>(serviceId, _). serviceId \<in> set (map fst (visitServices app e))) input) NO_SERVICES
    (bindE (plan_services (qe_salon e) (visitServices app e) input pre) (\<lambda>planned.
       catchUnique (record_tx env userId e staffId source planned seen s)
         (bindE (replay_services (qe_id e) planned s) (\<lambda>results. Inr (s, results)))))"

section \<open>Who may record\<close>

definition STAFF_RECORD_WINDOW_MS :: ms where "STAFF_RECORD_WINDOW_MS = 12 * 60 * 60 * 1000"

definition visitAccess :: "ms \<Rightarrow> db \<Rightarrow> id \<Rightarrow> id \<Rightarrow> bool \<Rightarrow> stock_error + (entry \<times> id option)" where
  "visitAccess now app userId queueEntryId recording =
     theE (find_entry app queueEntryId) USAGE_NOT_FOUND (\<lambda>e.
     access (assertAccessOrAdminAccess app userId (qe_salon e)) (\<lambda>a.
     let owner = a \<noteq> PLATFORM_ADMIN \<and> getActorKind app userId (qe_salon e) = Some KIND_OWNER;
         is_staff = a \<noteq> PLATFORM_ADMIN \<and> \<not> owner;
         sessions = filter (\<lambda>x. ss_entry x = qe_id e) (db_sessions app);
         served = (case sessions of [] \<Rightarrow> qe_staff e | x # _ \<Rightarrow> Some (ss_staff x));
         me = find (\<lambda>m. st_user m = userId \<and> st_salon m = qe_salon e) (db_staff app);
         mine = (case me of None \<Rightarrow> False
                 | Some m \<Rightarrow> qe_staff e = Some (st_id m) \<or> exists_where (\<lambda>x. ss_staff x = st_id m) sessions)
     in guardE (is_staff \<longrightarrow> mine) NOT_YOUR_VISIT
       (let recent = (case qe_completedAt e of None \<Rightarrow> False | Some c \<Rightarrow> now - c \<le> STAFF_RECORD_WINDOW_MS)
        in guardE (recording \<longrightarrow> qe_status e = Q_IN_SERVICE \<or> qe_status e = Q_COMPLETED \<and> (\<not> is_staff \<or> recent)) VISIT_NOT_ACTIVE
          (Inr (e, if is_staff then map_option st_id me else served)))))"

definition recordForVisit :: "stock_env \<Rightarrow> ms \<Rightarrow> db \<Rightarrow> id \<Rightarrow> id \<Rightarrow> service_lines list \<Rightarrow> stock_db \<Rightarrow> stock_db \<Rightarrow> stock_db
    \<Rightarrow> stock_error + (stock_db \<times> usage_result list)" where
  "recordForVisit env now app userId queueEntryId input pre seen s =
     bindE (visitAccess now app userId queueEntryId True) (\<lambda>(e, staffId).
       record_usage env app userId e staffId input MANUAL pre seen s)"

section \<open>Correction\<close>

definition reversal_movement :: "stock_env \<Rightarrow> id \<Rightarrow> id \<Rightarrow> id \<Rightarrow> string \<Rightarrow> usage_item \<Rightarrow> movement" where
  "reversal_movement env userId salonId usageId reason it =
     (let key = ''svc-usage-rev:'' @ show_nat (ui_id it)
      in (new_movement salonId (ui_product it) userId ADJUSTMENT (ui_quantity it) key (se_sha env key))
           \<lparr>im_reason := Some (take 300 reason), im_reference := Some (''service-usage:'' @ show_nat usageId)\<rparr>)"

fun reverse_items :: "stock_env \<Rightarrow> id \<Rightarrow> id \<Rightarrow> id \<Rightarrow> string \<Rightarrow> usage_item list \<Rightarrow> stock_db \<Rightarrow> stock_error + stock_db" where
  "reverse_items env userId salonId usageId reason [] s = Inr s"
| "reverse_items env userId salonId usageId reason (it # its) s =
     bindE (insert_movement (reversal_movement env userId salonId usageId reason it) s) (\<lambda>(s1, m).
       reverse_items env userId salonId usageId reason its
         (s1\<lparr>iv_items := upd_where (\<lambda>x. ui_id x = ui_id it) (\<lambda>x. x\<lparr>ui_reversal := Some (im_id m)\<rparr>) (iv_items s1)\<rparr>))"

definition reversible :: "id \<Rightarrow> id \<Rightarrow> usage \<Rightarrow> bool" where
  "reversible salonId usageId u \<longleftrightarrow> ug_id u = usageId \<and> ug_salon u = salonId \<and> ug_status u = USAGE_RECORDED"

definition mark_reversed :: "id \<Rightarrow> string \<Rightarrow> usage \<Rightarrow> usage" where
  "mark_reversed userId reason u = u\<lparr>ug_status := USAGE_REVERSED, ug_reversedBy := Some userId, ug_reason := Some reason\<rparr>"

definition reverse_usage :: "stock_env \<Rightarrow> db \<Rightarrow> id \<Rightarrow> id \<Rightarrow> id \<Rightarrow> string \<Rightarrow> stock_db \<Rightarrow> stock_db \<Rightarrow> stock_error + stock_db" where
  "reverse_usage env app userId salonId usageId why pre s =
     access (assertOwnerOrAdminAccess app userId salonId) (\<lambda>_.
     theE (find (\<lambda>u. ug_id u = usageId \<and> ug_salon u = salonId) (iv_usages pre)) USAGE_NOT_FOUND (\<lambda>usage.
     guardE (count_where (reversible salonId usageId) (iv_usages s) \<noteq> 0) ALREADY_REVERSED
    (let name = (case find_service app (ug_service usage) of Some v \<Rightarrow> sv_name v | None \<Rightarrow> [])
     in bindE (reverse_items env userId salonId usageId (''Correction of '' @ name @ '' usage: '' @ js_trim why) (items_of usageId pre)
          (s\<lparr>iv_usages := upd_where (reversible salonId usageId) (mark_reversed userId (js_trim why)) (iv_usages s)\<rparr>))
        (\<lambda>t. Inr (audit userId ''SERVICE_USAGE_REVERSED'' salonId t)))))"

section \<open>Automatic deduction\<close>

definition auto_lines :: "id \<Rightarrow> id \<Rightarrow> stock_db \<Rightarrow> usage_line list option" where
  "auto_lines salonId serviceId s =
     (let ls = filter (\<lambda>r. sr_salon r = salonId \<and> sr_service r = serviceId) (iv_rules s)
      in if ls \<noteq> [] \<and> list_all (\<lambda>l. sr_autoDeduct l \<and> (case sr_default l of None \<Rightarrow> False
              | Some d \<Rightarrow> exists_where (\<lambda>p. ip_id p = d \<and> ip_salon p = salonId \<and> ip_isActive p) (iv_products s))) ls
         then Some (map (\<lambda>l. \<lparr>ul_product = nvl (sr_default l) 0, ul_quantity = sr_quantity l, ul_unit = sr_unit l, ul_rule = Some (sr_id l)\<rparr>) ls)
         else None)"

fun auto_services :: "stock_env \<Rightarrow> db \<Rightarrow> id \<Rightarrow> entry \<Rightarrow> id option \<Rightarrow> (id \<times> string) list \<Rightarrow> stock_db \<Rightarrow> stock_db \<Rightarrow> stock_db" where
  "auto_services env app actor e staffId [] pre s = s"
| "auto_services env app actor e staffId ((serviceId, name) # vs) pre s =
     auto_services env app actor e staffId vs pre
       (if exists_where (recorded_for (qe_id e) serviceId) (iv_usages pre) then s
        else case auto_lines (qe_salon e) serviceId pre of
            None \<Rightarrow> s
          | Some ls \<Rightarrow> (case record_usage env app actor e staffId [(serviceId, ls)] AUTO s s s of Inl _ \<Rightarrow> s | Inr (t, _) \<Rightarrow> t))"

definition autoRecord :: "stock_env \<Rightarrow> db \<Rightarrow> id \<Rightarrow> id \<Rightarrow> stock_db \<Rightarrow> stock_db \<Rightarrow> stock_db" where
  "autoRecord env app queueEntryId actorUserId pre s =
     (case find_entry app queueEntryId of
        None \<Rightarrow> s
      | Some e \<Rightarrow>
          let staffId = (case filter (\<lambda>x. ss_entry x = qe_id e) (db_sessions app) of [] \<Rightarrow> None | x # _ \<Rightarrow> Some (ss_staff x))
          in auto_services env app actorUserId e staffId (visitServices app e) pre s)"

end
