(* ===== verification/Inventory_Props.thy ===== *)
theory Inventory_Props
  imports Service_Usage Demo
begin

text \<open>
  What the inventory keeps in every run: the stock of a product is what its ledger says, and a service of a visit is
  deducted at most once, by entries of the ledger that its lines name. A commit may have read any earlier database.
\<close>

section \<open>Usages and their entries\<close>

definition entered_as :: "movement_kind \<Rightarrow> id \<Rightarrow> milli \<Rightarrow> id \<Rightarrow> stock_db \<Rightarrow> bool" where
  "entered_as k productId delta i s =
     exists_where (\<lambda>m. im_id m = i \<and> im_kind m = k \<and> im_product m = productId \<and> im_delta m = delta) (iv_movements s)"

text \<open>A line of a usage owns the entry that took its amount and, once corrected, the entry that put it back; lines in
  \<open>P\<close> are waiting for theirs.\<close>

definition item_ok :: "id set \<Rightarrow> stock_db \<Rightarrow> usage_item \<Rightarrow> bool" where
  "item_ok P s it \<longleftrightarrow> 0 < ui_quantity it \<and> entered_as CONSUMED (ui_product it) (- ui_quantity it) (ui_movement it) s
     \<and> exists_where (\<lambda>u. ug_id u = ui_usage it \<and>
          (case ui_reversal it of
             None \<Rightarrow> ug_status u = USAGE_RECORDED \<or> ui_id it \<in> P
           | Some r \<Rightarrow> ug_status u = USAGE_REVERSED \<and> ui_id it \<notin> P \<and> entered_as ADJUSTMENT (ui_product it) (ui_quantity it) r s)) (iv_usages s)"

definition usage_inv :: "id set \<Rightarrow> stock_db \<Rightarrow> bool" where
  "usage_inv P s \<longleftrightarrow> distinct (map ug_id (iv_usages s)) \<and> list_all (\<lambda>u. ug_id u < iv_next s) (iv_usages s)
     \<and> uniq_on (\<lambda>u. (ug_entry u, ug_service u)) (\<lambda>u. ug_status u = USAGE_RECORDED) (iv_usages s)
     \<and> distinct (map ui_id (iv_items s)) \<and> list_all (\<lambda>x. ui_id x < iv_next s) (iv_items s)
     \<and> distinct (map ui_movement (iv_items s)) \<and> list_all (\<lambda>x. ui_movement x < iv_next s) (iv_items s)
     \<and> list_all (item_ok P s) (iv_items s)"

definition item_core :: "usage_item \<Rightarrow> id \<times> id \<times> id \<times> milli \<times> milli" where
  "item_core x = (ui_id x, ui_usage x, ui_product x, ui_quantity x, ui_entered x)"

text \<open>Between two databases of a run the lines of a usage stay what they are, but for their correction.\<close>

definition keeps :: "stock_db \<Rightarrow> stock_db \<Rightarrow> bool" where
  "keeps s t \<longleftrightarrow> iv_next s \<le> iv_next t \<and> (\<exists>ms. iv_movements t = iv_movements s @ ms)
     \<and> (\<forall>i < iv_next s. map item_core (items_of i t) = map item_core (items_of i s))"

lemma keeps_refl [simp]: "keeps s s"
  by (simp add: keeps_def)

lemma keeps_trans: "keeps s t \<Longrightarrow> keeps t u \<Longrightarrow> keeps s u"
  unfolding keeps_def by (metis append.assoc less_le_trans order_trans)

lemma keeps_grows: "ledger_grows s t \<Longrightarrow> keeps s t"
  by (auto simp: keeps_def ledger_grows_def items_of_def)

lemma entered_as_mono: "entered_as k i d j s \<Longrightarrow> iv_movements t = iv_movements s @ ms \<Longrightarrow> entered_as k i d j t"
  by (auto simp: entered_as_def exists_where_iff)

lemma item_ok_mono:
  assumes "item_ok P s it" "iv_movements t = iv_movements s @ ms" "iv_usages t = iv_usages s @ us"
  shows "item_ok P t it"
proof -
  obtain u where u: "u \<in> set (iv_usages s)" "ug_id u = ui_usage it"
    and c: "case ui_reversal it of None \<Rightarrow> ug_status u = USAGE_RECORDED \<or> ui_id it \<in> P
           | Some r \<Rightarrow> ug_status u = USAGE_REVERSED \<and> ui_id it \<notin> P \<and> entered_as ADJUSTMENT (ui_product it) (ui_quantity it) r s"
    using assms(1) unfolding item_ok_def exists_where_iff by blast
  have "case ui_reversal it of None \<Rightarrow> ug_status u = USAGE_RECORDED \<or> ui_id it \<in> P
           | Some r \<Rightarrow> ug_status u = USAGE_REVERSED \<and> ui_id it \<notin> P \<and> entered_as ADJUSTMENT (ui_product it) (ui_quantity it) r t"
    using c by (auto split: option.splits intro: entered_as_mono [OF _ assms(2)])
  then show ?thesis
    using assms(1,3) u entered_as_mono [OF _ assms(2)] unfolding item_ok_def exists_where_iff by auto
qed

lemma item_ok_cong: "iv_movements t = iv_movements s \<Longrightarrow> iv_usages t = iv_usages s \<Longrightarrow> item_ok P t = item_ok P s"
proof -
  assume eq: "iv_movements t = iv_movements s" "iv_usages t = iv_usages s"
  have "entered_as k i d j t = entered_as k i d j s" for k i d j by (simp add: entered_as_def eq)
  then show ?thesis by (intro ext) (simp add: item_ok_def eq cong: option.case_cong)
qed

lemma usage_inv_grows:
  assumes "usage_inv P s" "ledger_grows s t"
  shows "usage_inv P t"
proof -
  obtain ms where t: "iv_movements t = iv_movements s @ ms" "iv_usages t = iv_usages s" "iv_items t = iv_items s" "iv_next s \<le> iv_next t"
    using assms(2) by (auto simp: ledger_grows_def)
  have "item_ok P t x" if "x \<in> set (iv_items s)" for x
    by (rule item_ok_mono [where us = "[]", OF _ t(1)]) (use assms(1) that t(2) in \<open>simp_all add: usage_inv_def list_all_iff\<close>)
  then show ?thesis using assms(1) t by (auto simp: usage_inv_def list_all_iff)
qed

section \<open>Recording keeps the invariant\<close>

definition sound :: "id set \<Rightarrow> stock_db \<Rightarrow> bool" where
  "sound P s \<longleftrightarrow> stock_inv s \<and> usage_inv P s"

lemma sound_grows: "sound P s \<Longrightarrow> stock_inv t \<Longrightarrow> ledger_grows s t \<Longrightarrow> sound P t"
  unfolding sound_def using usage_inv_grows by blast

lemma sound_audit [simp]: "sound P (audit u a i s) = sound P s"
  by (simp add: sound_def usage_inv_def item_ok_cong [of "audit u a i s" s])

lemma keeps_audit [simp]: "keeps s (audit u a i t) = keeps s t"
  by (simp add: keeps_def items_of_def)

text \<open>A usage without lines yet.\<close>

lemma insert_usage_sound:
  assumes ins: "insert_usage u s = Inr (t, i)" and inv: "sound P s" and st: "ug_status u = USAGE_RECORDED"
  shows "sound P t \<and> keeps s t \<and> iv_movements t = iv_movements s \<and> iv_products t = iv_products s \<and> i = iv_next s
    \<and> iv_items t = iv_items s \<and> iv_usages t = iv_usages s @ [u\<lparr>ug_id := i\<rparr>]"
proof -
  have t: "t = s\<lparr>iv_usages := iv_usages s @ [u\<lparr>ug_id := iv_next s\<rparr>], iv_next := iv_next s + 1\<rparr>" "i = iv_next s"
    and free: "\<forall>x\<in>set (iv_usages s). \<not> recorded_for (ug_entry u) (ug_service u) x"
    using ins by (auto simp: insert_usage_def success_simps exists_where_iff)
  have "stock_inv t" using inv by (auto simp: t sound_def stock_inv_def list_all_iff intro: less_SucI)
  moreover have "item_ok P t x" if "x \<in> set (iv_items s)" for x
    by (rule item_ok_mono [where s = s and ms = "[]"]) (use inv that in \<open>auto simp: t sound_def usage_inv_def list_all_iff\<close>)
  then have "usage_inv P t"
    using inv free st by (auto simp: t sound_def usage_inv_def list_all_iff uniq_on_snoc recorded_for_def intro: less_SucI)
  ultimately show ?thesis by (simp add: sound_def t keeps_def items_of_def)
qed

text \<open>One line: its entry in the ledger and the line that names it.\<close>

lemma write_line_sound:
  assumes mv: "insert_movement m s = Inr (s1, row)" and it: "insert_item it s1 = Inr t" and inv: "sound P s"
    and m: "im_kind m = CONSUMED" "im_product m = ui_product it" "im_delta m = - ui_quantity it"
    and li: "ui_movement it = im_id row" "ui_reversal it = None" "j \<le> ui_usage it"
    and u: "u \<in> set (iv_usages s)" "ug_id u = ui_usage it" "ug_status u = USAGE_RECORDED"
  shows "sound P t \<and> iv_usages t = iv_usages s \<and> iv_next s \<le> iv_next t \<and> (\<exists>ms. iv_movements t = iv_movements s @ ms)
    \<and> (\<exists>x. iv_items t = iv_items s @ [x] \<and> ui_usage x = ui_usage it \<and> ui_product x = ui_product it \<and> ui_quantity x = ui_quantity it
         \<and> ui_reversal x = None)
    \<and> (\<forall>i. net i (iv_movements t) = net i (iv_movements s) - (if i = ui_product it then ui_quantity it else 0))"
proof -
  note inv1 = insert_movement_inv [OF mv] sound_grows [OF inv]
  have row: "im_kind row = CONSUMED" "im_product row = ui_product it" "im_delta row = - ui_quantity it" "im_id row = iv_next s"
    using insert_movement_sel [OF mv] m by simp_all
  have s1: "stock_inv s1" "ledger_grows s s1" "iv_movements s1 = iv_movements s @ [row]"
    using inv1(1) inv by (auto simp: sound_def)
  have s1n: "iv_next s1 = iv_next s + 1" using insert_movement_sel [OF mv] by simp
  have q: "0 < ui_quantity it" and t: "t = s1\<lparr>iv_items := iv_items s1 @ [it\<lparr>ui_id := iv_next s1\<rparr>], iv_next := iv_next s1 + 1\<rparr>"
    using it by (auto simp: insert_item_def success_simps)
  have sound1: "sound P s1" by (rule inv1(2) [OF s1(1,2)])
  have eqs: "iv_usages s1 = iv_usages s" "iv_items s1 = iv_items s" using s1(2) by (simp_all add: ledger_grows_def)
  have stock: "stock_inv t" using s1(1) by (auto simp: t stock_inv_def list_all_iff intro: less_SucI)
  have old: "item_ok P t x" if "x \<in> set (iv_items s1)" for x
    by (rule item_ok_mono [where s = s1 and ms = "[]" and us = "[]"]) (use sound1 that in \<open>auto simp: t sound_def usage_inv_def list_all_iff\<close>)
  have new: "item_ok P t (it\<lparr>ui_id := iv_next s1\<rparr>)"
    using q li u row s1(3) by (auto simp: item_ok_def t eqs exists_where_iff entered_as_def)
  have "im_id row \<notin> set (map ui_movement (iv_items s1))"
    using inv row(4) by (auto simp: sound_def usage_inv_def list_all_iff eqs)
  then have "usage_inv P t"
    using sound1 old new row(4) s1n li(1)
    by (auto simp: t sound_def usage_inv_def list_all_iff intro: less_SucI)
  then show ?thesis using stock s1(3) row li by (auto simp: sound_def t eqs s1n)
qed

text \<open>What the lines of a usage take from a product.\<close>

definition item_total :: "id \<Rightarrow> id \<Rightarrow> stock_db \<Rightarrow> milli" where
  "item_total i usageId s = sum_list (map (\<lambda>x. if ui_product x = i then ui_quantity x else 0) (items_of usageId s))"

lemma item_total_core:
  assumes "map item_core (items_of j t) = map item_core (items_of j s)"
  shows "item_total i j t = item_total i j s"
proof -
  have e: "item_total i j r = sum_list (map (\<lambda>(a, b, c, d, e). if c = i then d else 0) (map item_core (items_of j r)))" for r
    by (simp add: item_total_def item_core_def comp_def)
  show ?thesis by (simp only: e assms)
qed

lemma keeps_total: "keeps s t \<Longrightarrow> j < iv_next s \<Longrightarrow> item_total i j t = item_total i j s"
  by (rule item_total_core) (simp add: keeps_def)

lemma keeps_new_items:
  assumes "iv_items t = iv_items s @ xs" "\<And>x. x \<in> set xs \<Longrightarrow> iv_next s \<le> ui_usage x" "iv_next s \<le> iv_next t"
    "\<exists>ms. iv_movements t = iv_movements s @ ms"
  shows "keeps s t"
proof -
  have "filter (\<lambda>x. ui_usage x = i) xs = []" if "i < iv_next s" for i
    using assms(2) that by (fastforce simp: filter_empty_conv)
  then show ?thesis using assms by (simp add: keeps_def items_of_def)
qed

lemma usage_movement_simps [simp]:
  "im_kind (usage_movement env uid sa j reason l) = CONSUMED"
  "im_product (usage_movement env uid sa j reason l) = ul_product (pn_line l)"
  "im_delta (usage_movement env uid sa j reason l) = - pn_stock l"
  by (simp_all add: usage_movement_def new_movement_def Let_def)

lemma write_lines_sound:
  assumes "write_lines env uid sa j reason ls s = Inr t" "sound P s"
    and "u \<in> set (iv_usages s)" "ug_id u = j" "ug_status u = USAGE_RECORDED"
  shows "sound P t \<and> iv_usages t = iv_usages s \<and> iv_next s \<le> iv_next t \<and> (\<exists>ms. iv_movements t = iv_movements s @ ms)
    \<and> (\<exists>xs. iv_items t = iv_items s @ xs \<and> (\<forall>x\<in>set xs. ui_usage x = j)
         \<and> (\<forall>i. net i (iv_movements t) = net i (iv_movements s) - sum_list (map (\<lambda>x. if ui_product x = i then ui_quantity x else 0) xs))
         \<and> map ui_product xs = map (ul_product \<circ> pn_line) ls \<and> map ui_quantity xs = map pn_stock ls)"
  using assms
proof (induction ls arbitrary: s)
  case (Cons l ls)
  let ?it = "\<lambda>m. \<lparr>ui_id = 0, ui_usage = j, ui_salon = sa, ui_product = ul_product (pn_line l), ui_rule = pn_rule l,
      ui_quantity = pn_stock l, ui_entered = ul_quantity (pn_line l), ui_enteredUnit = ul_unit (pn_line l), ui_movement = im_id m,
      ui_reversal = None\<rparr>"
  obtain s1 m s2 where m: "insert_movement (usage_movement env uid sa j reason l) s = Inr (s1, m)" and it: "insert_item (?it m) s1 = Inr s2"
    and rest: "write_lines env uid sa j reason ls s2 = Inr t"
    using Cons.prems(1) unfolding write_lines.simps success_simps by (auto simp: success_simps)
  have "sound P s2 \<and> iv_usages s2 = iv_usages s \<and> iv_next s \<le> iv_next s2 \<and> (\<exists>ms. iv_movements s2 = iv_movements s @ ms)
    \<and> (\<exists>x. iv_items s2 = iv_items s @ [x] \<and> ui_usage x = j \<and> ui_product x = ul_product (pn_line l) \<and> ui_quantity x = pn_stock l
         \<and> ui_reversal x = None)
    \<and> (\<forall>i. net i (iv_movements s2) = net i (iv_movements s) - (if i = ul_product (pn_line l) then pn_stock l else 0))"
    using write_line_sound [OF m it Cons.prems(2), of 0 u] Cons.prems(3-5) by simp
  then obtain x ms where s2: "sound P s2" "iv_usages s2 = iv_usages s" "iv_next s \<le> iv_next s2" "iv_movements s2 = iv_movements s @ ms"
    "iv_items s2 = iv_items s @ [x]" "ui_usage x = j" "ui_product x = ul_product (pn_line l)" "ui_quantity x = pn_stock l"
    "\<And>i. net i (iv_movements s2) = net i (iv_movements s) - (if i = ul_product (pn_line l) then pn_stock l else 0)"
    by blast
  have "u \<in> set (iv_usages s2)" using Cons.prems(3) s2(2) by simp
  note IH = Cons.IH [OF rest s2(1) this Cons.prems(4,5)]
  obtain xs ms' where t: "sound P t" "iv_usages t = iv_usages s2" "iv_next s2 \<le> iv_next t" "iv_movements t = iv_movements s2 @ ms'"
    "iv_items t = iv_items s2 @ xs" "\<forall>x\<in>set xs. ui_usage x = j"
    "\<And>i. net i (iv_movements t) = net i (iv_movements s2) - sum_list (map (\<lambda>x. if ui_product x = i then ui_quantity x else 0) xs)"
    "map ui_product xs = map (ul_product \<circ> pn_line) ls" "map ui_quantity xs = map pn_stock ls"
    using IH by blast
  show ?case
    using s2(2,3,4,5,6,7,8) t(1,2,3,4,5,6,8,9) s2(9) t(7)
    by (intro conjI exI [of _ "x # xs"] exI [of _ "ms @ ms'"]) auto
qed simp

lemma write_services_sound:
  assumes "write_services env uid e st src vs s = Inr (t, results)" "sound P s"
  shows "sound P t \<and> keeps s t
    \<and> (\<forall>i. net i (iv_movements t) = net i (iv_movements s) - sum_list (map (\<lambda>(v, j, c). item_total i j t) results))
    \<and> (\<forall>(v, j, c)\<in>set results. c \<and> iv_next s \<le> j \<and> j < iv_next t) \<and> map fst results = map pv_service vs"
  using assms
proof (induction vs arbitrary: s t results)
  case (Cons v vs)
  let ?u = "\<lparr>ug_id = 0, ug_salon = qe_salon e, ug_entry = qe_id e, ug_service = pv_service v, ug_staff = st,
              ug_status = USAGE_RECORDED, ug_source = src, ug_by = uid, ug_reversedBy = None, ug_reason = None\<rparr>"
  obtain s1 j s2 s3 rest where ins: "insert_usage ?u s = Inr (s1, j)"
    and ls: "write_lines env uid (qe_salon e) j (usage_reason (pv_name v) e) (pv_lines v) s1 = Inr s2"
    and more: "write_services env uid e st src vs (audit uid ''SERVICE_USAGE_RECORDED'' (qe_salon e) s2) = Inr (s3, rest)"
    and res: "t = s3" "results = (pv_service v, j, True) # rest"
    using Cons.prems(1) unfolding write_services.simps success_simps by (auto simp: success_simps)
  note a = insert_usage_sound [OF ins Cons.prems(2)]
  have s1: "sound P s1" "keeps s s1" "iv_movements s1 = iv_movements s" "j = iv_next s" "iv_items s1 = iv_items s"
    "?u\<lparr>ug_id := j\<rparr> \<in> set (iv_usages s1)" using a by auto
  obtain xs ms where s2: "sound P s2" "iv_usages s2 = iv_usages s1" "iv_next s1 \<le> iv_next s2" "iv_movements s2 = iv_movements s1 @ ms"
    "iv_items s2 = iv_items s1 @ xs" "\<forall>x\<in>set xs. ui_usage x = j"
    "\<And>i. net i (iv_movements s2) = net i (iv_movements s1) - sum_list (map (\<lambda>x. if ui_product x = i then ui_quantity x else 0) xs)"
    using write_lines_sound [OF ls s1(1) s1(6)] by auto
  have next1: "iv_next s < iv_next s1" using ins by (auto simp: insert_usage_def success_simps)
  have k2: "keeps s s2"
    by (rule keeps_new_items) (use s1(2,3,4,5) s2(3,4,5,6) next1 in auto)
  have "\<forall>x\<in>set (iv_items s). ui_usage x \<noteq> j"
  proof
    fix x assume "x \<in> set (iv_items s)"
    then have "\<exists>u\<in>set (iv_usages s). ug_id u = ui_usage x" "\<forall>u\<in>set (iv_usages s). ug_id u < iv_next s"
      using Cons.prems(2) by (auto simp: sound_def usage_inv_def list_all_iff item_ok_def exists_where_iff)
    then show "ui_usage x \<noteq> j" using s1(4) by auto
  qed
  then have own: "items_of j s2 = xs" using s2(5,6) s1(5) by (auto simp: items_of_def filter_empty_conv)
  have rest: "sound P s3" "keeps (audit uid ''SERVICE_USAGE_RECORDED'' (qe_salon e) s2) s3"
    "\<And>i. net i (iv_movements s3) = net i (iv_movements s2) - sum_list (map (\<lambda>(v, j, c). item_total i j s3) rest)"
    "\<forall>(v, j, c)\<in>set rest. c \<and> iv_next s2 \<le> j \<and> j < iv_next s3" "map fst rest = map pv_service vs"
    using Cons.IH [OF more] s2(1) by auto
  have k3: "keeps s2 s3" using rest(2) by (simp add: keeps_def items_of_def)
  have "item_total i j s3 = sum_list (map (\<lambda>x. if ui_product x = i then ui_quantity x else 0) xs)" for i
    using keeps_total [OF k3, of j i] own s1(4) next1 s2(3) by (simp add: item_total_def)
  then have "net i (iv_movements s3) = net i (iv_movements s) - sum_list (map (\<lambda>(v, j, c). item_total i j s3) results)" for i
    using rest(3) [of i] s2(7) [of i] s1(3) res(2) by simp
  moreover have "iv_next s2 \<le> iv_next s3" using k3 by (simp add: keeps_def)
  ultimately show ?case
    using res rest(1,4,5) keeps_trans [OF k2 k3] s1(4) next1 s2(3) by (auto simp del: sum_list.Cons)
qed simp

lemma split_planned_old: "split_planned e vs s = Inr (ws, results) \<Longrightarrow> \<forall>(v, j, c)\<in>set results. \<not> c"
proof (induction vs arbitrary: ws results)
  case (Cons v vs)
  then show ?case by (fastforce simp: success_simps split: option.splits)
qed simp

text \<open>Recording takes exactly what the lines it created say.\<close>

definition taken :: "id \<Rightarrow> usage_result list \<Rightarrow> stock_db \<Rightarrow> milli" where
  "taken i results t = sum_list (map (\<lambda>(v, j, c). if c then item_total i j t else 0) results)"

lemma taken_simps [simp]: "taken i [] t = 0" "taken i (xs @ ys) t = taken i xs t + taken i ys t"
  by (simp_all add: taken_def)

lemma taken_old: "\<forall>(v, j, c)\<in>set xs. \<not> c \<Longrightarrow> taken i xs t = 0"
  by (induction xs) (auto simp: taken_def)

lemma taken_new: "\<forall>(v, j, c)\<in>set xs. c \<and> q j \<Longrightarrow> taken i xs t = sum_list (map (\<lambda>(v, j, c). item_total i j t) xs)"
  by (induction xs) (auto simp: taken_def)

lemma record_tx_sound:
  assumes "record_tx env uid e st src planned seen s = Inr (t, results)" "sound P s"
  shows "sound P t \<and> keeps s t \<and> (\<forall>i. net i (iv_movements t) = net i (iv_movements s) - taken i results t)
    \<and> (\<forall>(v, j, c)\<in>set results. c \<longrightarrow> iv_next s \<le> j \<and> j < iv_next t)"
proof -
  obtain ws old where sp: "split_planned (qe_id e) planned seen = Inr (ws, old)"
    and k: "ws = [] \<and> t = s \<and> results = old \<or> (\<exists>written. write_services env uid e st src ws s = Inr (t, written) \<and> results = old @ written)"
    using assms(1) unfolding record_tx_def success_simps by (auto simp: success_simps split: if_splits)
  note old = split_planned_old [OF sp]
  from k show ?thesis
  proof
    assume "ws = [] \<and> t = s \<and> results = old"
    then show ?thesis using old assms(2) taken_old by auto
  next
    assume "\<exists>written. write_services env uid e st src ws s = Inr (t, written) \<and> results = old @ written"
    then obtain written where w: "write_services env uid e st src ws s = Inr (t, written)" "results = old @ written" by blast
    have new: "\<forall>(v, j, c)\<in>set written. c \<and> (iv_next s \<le> j \<and> j < iv_next t)" "sound P t" "keeps s t"
      "\<And>i. net i (iv_movements t) = net i (iv_movements s) - sum_list (map (\<lambda>(v, j, c). item_total i j t) written)"
      using write_services_sound [OF w(1) assms(2)] by auto
    then show ?thesis using old w(2) taken_old [OF old] taken_new [OF new(1)] by auto
  qed
qed

lemma replay_old: "replay_services e vs s = Inr results \<Longrightarrow> \<forall>(v, j, c)\<in>set results. \<not> c"
  by (induction vs arbitrary: results) (auto simp: success_simps)

lemma record_usage_sound:
  assumes "record_usage env app uid e st input src pre seen s = Inr (t, results)" "sound P s"
  shows "sound P t \<and> keeps s t \<and> (\<forall>i. net i (iv_movements t) = net i (iv_movements s) - taken i results t)
    \<and> (\<forall>(v, j, c)\<in>set results. c \<longrightarrow> iv_next s \<le> j \<and> j < iv_next t)"
proof -
  obtain planned where "record_tx env uid e st src planned seen s = Inr (t, results) \<or> replay_services (qe_id e) planned s = Inr results \<and> t = s"
    using assms(1) unfolding record_usage_def success_simps by auto
  then show ?thesis
  proof
    assume "record_tx env uid e st src planned seen s = Inr (t, results)"
    then show ?thesis by (rule record_tx_sound [OF _ assms(2)])
  next
    assume r: "replay_services (qe_id e) planned s = Inr results \<and> t = s"
    then show ?thesis using replay_old [OF conjunct1 [OF r]] assms(2) taken_old by fastforce
  qed
qed

lemma auto_services_sound:
  "sound P s \<Longrightarrow> sound P (auto_services env app actor e st vs pre s) \<and> keeps s (auto_services env app actor e st vs pre s)"
proof (induction vs arbitrary: s)
  case (Cons v vs)
  obtain serviceId name where v: "v = (serviceId, name)" by (cases v)
  let ?t = "if exists_where (recorded_for (qe_id e) serviceId) (iv_usages pre) then s
        else case auto_lines (qe_salon e) serviceId pre of None \<Rightarrow> s
          | Some ls \<Rightarrow> (case record_usage env app actor e st [(serviceId, ls)] AUTO s s s of Inl _ \<Rightarrow> s | Inr (t, _) \<Rightarrow> t)"
  have "sound P ?t \<and> keeps s ?t"
    using Cons.prems record_usage_sound [OF _ Cons.prems] by (auto split: option.splits sum.splits)
  then show ?case using Cons.IH [of ?t] by (auto simp: v intro: keeps_trans)
qed simp

lemma autoRecord_sound: "sound P s \<Longrightarrow> sound P (autoRecord env app q actor pre s) \<and> keeps s (autoRecord env app q actor pre s)"
  by (auto simp: autoRecord_def Let_def auto_services_sound split: option.splits)

section \<open>Recipes leave it alone\<close>

lemma sound_rewrite_items:
  assumes "sound P s" "stock_inv t" "iv_movements t = iv_movements s" "iv_usages t = iv_usages s" "iv_next s \<le> iv_next t"
    and "iv_items t = map f (iv_items s)"
    and f: "\<And>x. ui_id (f x) = ui_id x \<and> ui_usage (f x) = ui_usage x \<and> ui_product (f x) = ui_product x
        \<and> ui_quantity (f x) = ui_quantity x \<and> ui_entered (f x) = ui_entered x \<and> ui_movement (f x) = ui_movement x \<and> ui_reversal (f x) = ui_reversal x"
  shows "sound P t \<and> keeps s t"
proof -
  have ok: "item_ok P t (f x) = item_ok P s x" for x
  proof -
    have "item_ok P s (f x) = item_ok P s x" by (simp add: item_ok_def f cong: option.case_cong)
    then show ?thesis by (simp add: item_ok_cong [OF assms(3,4)])
  qed
  have maps: "map ui_id (iv_items t) = map ui_id (iv_items s)" "map ui_movement (iv_items t) = map ui_movement (iv_items s)"
    using f assms(6) by simp_all
  have "map item_core (items_of i t) = map item_core (items_of i s)" for i
    using f assms(6) by (simp add: items_of_def filter_map comp_def item_core_def)
  then have "keeps s t" using assms(3,5) by (simp add: keeps_def)
  moreover have "list_all (\<lambda>x. ui_id x < iv_next t \<and> ui_movement x < iv_next t \<and> item_ok P t x) (iv_items t)"
    using assms(1,5) ok f unfolding assms(6) sound_def usage_inv_def list_all_iff set_map by (auto intro: less_le_trans)
  moreover have "list_all (\<lambda>u. ug_id u < iv_next t) (iv_usages t)"
    using assms(1,4,5) by (auto simp: sound_def usage_inv_def list_all_iff intro: less_le_trans)
  ultimately show ?thesis
    using assms(1,2,4) maps by (simp add: sound_def usage_inv_def list_all_iff)
qed

lemma upsert_lines_frame:
  "iv_movements (upsert_lines sa sv n ls s) = iv_movements s \<and> iv_usages (upsert_lines sa sv n ls s) = iv_usages s
    \<and> iv_items (upsert_lines sa sv n ls s) = iv_items s \<and> iv_products (upsert_lines sa sv n ls s) = iv_products s
    \<and> iv_next s \<le> iv_next (upsert_lines sa sv n ls s)"
proof (induction ls arbitrary: s n)
  case (Cons l ls)
  define s1 where "s1 = (let p = (\<lambda>r. sr_service r = sv \<and> sr_category r = rl_category l) in
      if exists_where p (iv_rules s) then s\<lparr>iv_rules := upd_where p (rule_row l n) (iv_rules s)\<rparr>
      else s\<lparr>iv_rules := iv_rules s @ [rule_row l n \<lparr>sr_id = iv_next s, sr_salon = sa, sr_service = sv, sr_category = rl_category l,
               sr_quantity = 0, sr_unit = EACH, sr_default = None, sr_autoDeduct = False, sr_sortOrder = 0\<rparr>], iv_next := iv_next s + 1\<rparr>)"
  have "upsert_lines sa sv n (l # ls) s = upsert_lines sa sv (n + 1) ls s1" by (simp add: s1_def Let_def)
  moreover have "iv_movements s1 = iv_movements s \<and> iv_usages s1 = iv_usages s \<and> iv_items s1 = iv_items s
      \<and> iv_products s1 = iv_products s \<and> iv_next s \<le> iv_next s1"
    by (simp add: s1_def Let_def)
  ultimately show ?case using Cons.IH [of "n + 1" s1] by auto
qed simp

lemma putRecipe_sound:
  assumes "putRecipe app uid sa sv ls pre s = Inr t" "sound P s"
  shows "sound P t \<and> keeps s t"
proof -
  obtain lost rs where t: "t = audit uid ''SERVICE_RECIPE_UPDATED'' sa (upsert_lines sa sv 0 ls (s\<lparr>iv_rules := rs,
      iv_items := upd_where (\<lambda>i. case ui_rule i of Some r \<Rightarrow> r \<in> set lost | None \<Rightarrow> False) (\<lambda>i. i\<lparr>ui_rule := None\<rparr>) (iv_items s)\<rparr>))"
    using assms(1) unfolding putRecipe_def success_simps Let_def by blast
  define s0 where "s0 = s\<lparr>iv_rules := rs,
      iv_items := upd_where (\<lambda>i. case ui_rule i of Some r \<Rightarrow> r \<in> set lost | None \<Rightarrow> False) (\<lambda>i. i\<lparr>ui_rule := None\<rparr>) (iv_items s)\<rparr>"
  have t0: "iv_movements t = iv_movements s" "iv_usages t = iv_usages s" "iv_products t = iv_products s" "iv_next s \<le> iv_next t"
    "iv_items t = iv_items s0"
    using upsert_lines_frame [of sa sv 0 ls s0] by (simp_all add: t s0_def [symmetric]) (simp_all add: s0_def)
  have "stock_inv t"
    by (rule stock_inv_products [of s]) (use assms(2) t0 in \<open>auto simp: sound_def stock_inv_def list_all_iff intro: less_le_trans\<close>)
  then show ?thesis
    by (rule sound_rewrite_items [OF assms(2), where f = "\<lambda>i. if case ui_rule i of Some r \<Rightarrow> r \<in> set lost | None \<Rightarrow> False then i\<lparr>ui_rule := None\<rparr> else i"])
      (simp_all add: t0 upd_where_def s0_def)
qed

section \<open>A correction puts everything back\<close>

lemma reversal_movement_simps [simp]:
  "im_kind (reversal_movement env uid sa j reason it) = ADJUSTMENT"
  "im_product (reversal_movement env uid sa j reason it) = ui_product it"
  "im_delta (reversal_movement env uid sa j reason it) = ui_quantity it"
  by (simp_all add: reversal_movement_def new_movement_def Let_def)

text \<open>Marking the usage leaves its lines waiting for their entries.\<close>

lemma claim_reversal_sound:
  assumes inv: "sound {} s" and claim: "count_where (reversible sa j) (iv_usages s) \<noteq> 0"
    and t_def: "t = s\<lparr>iv_usages := upd_where (reversible sa j) (mark_reversed uid why) (iv_usages s)\<rparr>"
  shows "sound (ui_id ` set (items_of j s)) t \<and> keeps s t \<and> iv_items t = iv_items s \<and> iv_movements t = iv_movements s
    \<and> (\<forall>x\<in>set (items_of j s). ui_reversal x = None) \<and> (\<exists>u\<in>set (iv_usages t). ug_id u = j \<and> ug_status u = USAGE_REVERSED)"
proof -
  obtain u where u: "u \<in> set (iv_usages s)" "ug_id u = j" "ug_status u = USAGE_RECORDED" "reversible sa j u"
    using claim unfolding count_where_pos by (auto simp: reversible_def)
  have only: "v = u" if "v \<in> set (iv_usages s)" "ug_id v = j" for v
    using distinct_key_eq [of ug_id "iv_usages s" v u] inv u that by (simp add: sound_def usage_inv_def)
  have u': "mark_reversed uid why u \<in> set (iv_usages t)"
    using upd_where_memI [OF u(1), of "reversible sa j" "mark_reversed uid why"] u(4) by (simp add: t_def)
  have ids: "map ug_id (iv_usages t) = map ug_id (iv_usages s)"
    unfolding t_def by (simp add: map_upd_where mark_reversed_def)
  have items: "item_ok {} s x" if "x \<in> set (iv_items s)" for x
    using inv that by (simp add: sound_def usage_inv_def list_all_iff)
  have none: "ui_reversal x = None" if "x \<in> set (items_of j s)" for x
  proof -
    have x: "x \<in> set (iv_items s)" "ui_usage x = j" using that by (auto simp: items_of_def)
    then obtain v where "v \<in> set (iv_usages s)" "ug_id v = j" "ui_reversal x \<noteq> None \<longrightarrow> ug_status v = USAGE_REVERSED"
      using items [OF x(1)] unfolding item_ok_def exists_where_iff by (auto split: option.splits)
    then show ?thesis using only u(3) by auto
  qed
  have "item_ok (ui_id ` set (items_of j s)) t x" if x: "x \<in> set (iv_items s)" for x
  proof (cases "ui_usage x = j")
    case True
    then have "x \<in> set (items_of j s)" using x by (simp add: items_of_def)
    then show ?thesis
      using items [OF x] none u' u(2) True unfolding item_ok_def exists_where_iff
      by (auto simp: t_def entered_as_def mark_reversed_def intro!: bexI [of _ "mark_reversed uid why u"])
  next
    case False
    then have "ui_id x \<notin> ui_id ` set (items_of j s)"
      using distinct_key_eq [of ui_id "iv_items s" x] inv x by (auto simp: items_of_def sound_def usage_inv_def)
    moreover obtain v where v: "v \<in> set (iv_usages s)" "ug_id v = ui_usage x"
      and c: "case ui_reversal x of None \<Rightarrow> ug_status v = USAGE_RECORDED \<or> ui_id x \<in> {}
        | Some r \<Rightarrow> ug_status v = USAGE_REVERSED \<and> ui_id x \<notin> {} \<and> entered_as ADJUSTMENT (ui_product x) (ui_quantity x) r s"
      using items [OF x] unfolding item_ok_def exists_where_iff by blast
    moreover have "v \<in> set (iv_usages t)"
      using upd_where_memI [OF v(1), of "reversible sa j" "mark_reversed uid why"] v(2) False by (simp add: t_def reversible_def)
    ultimately show ?thesis
      using items [OF x] unfolding item_ok_def exists_where_iff
      by (auto simp: t_def entered_as_def split: option.splits intro!: bexI [of _ v])
  qed
  moreover have "uniq_on (\<lambda>u. (ug_entry u, ug_service u)) (\<lambda>u. ug_status u = USAGE_RECORDED) (iv_usages t)"
    unfolding t_def using inv by (auto simp: sound_def usage_inv_def mark_reversed_def intro!: uniq_on_upd_shrink)
  moreover have "list_all (\<lambda>u. ug_id u < iv_next t) (iv_usages t)"
    using inv by (auto simp: t_def sound_def usage_inv_def list_all_iff in_upd_where mark_reversed_def)
  ultimately have "usage_inv (ui_id ` set (items_of j s)) t"
    using inv ids by (simp add: sound_def usage_inv_def list_all_iff t_def)
  moreover have "stock_inv t" using inv by (simp add: sound_def t_def stock_inv_def)
  moreover have "\<exists>v\<in>set (iv_usages t). ug_id v = j \<and> ug_status v = USAGE_REVERSED"
    by (rule bexI [OF _ u']) (simp add: mark_reversed_def u(2))
  moreover have "keeps s t \<and> iv_items t = iv_items s \<and> iv_movements t = iv_movements s" by (simp add: keeps_def t_def items_of_def)
  ultimately show ?thesis using none by (simp add: sound_def)
qed

lemma reverse_items_sound:
  assumes "reverse_items env uid sa j reason its s = Inr t" "sound (ui_id ` set its) s" "distinct (map ui_id its)"
    and "\<forall>it\<in>set its. \<exists>x\<in>set (iv_items s). item_core x = item_core it \<and> ui_usage x = j \<and> ui_reversal x = None"
    and "\<exists>u\<in>set (iv_usages s). ug_id u = j \<and> ug_status u = USAGE_REVERSED"
  shows "sound {} t \<and> keeps s t
    \<and> (\<forall>i. net i (iv_movements t) = net i (iv_movements s) + sum_list (map (\<lambda>x. if ui_product x = i then ui_quantity x else 0) its))"
  using assms
proof (induction its arbitrary: s)
  case (Cons it its)
  let ?P = "ui_id ` set (it # its)" and ?Q = "ui_id ` set its"
  let ?f = "\<lambda>m x. x\<lparr>ui_reversal := Some (im_id m)\<rparr>"
  obtain s1 m where m: "insert_movement (reversal_movement env uid sa j reason it) s = Inr (s1, m)"
    and rest: "reverse_items env uid sa j reason its (s1\<lparr>iv_items := upd_where (\<lambda>x. ui_id x = ui_id it) (?f m) (iv_items s1)\<rparr>) = Inr t"
    using Cons.prems(1) unfolding reverse_items.simps success_simps by (auto simp: success_simps)
  let ?s2 = "s1\<lparr>iv_items := upd_where (\<lambda>x. ui_id x = ui_id it) (?f m) (iv_items s1)\<rparr>"
  have inv: "stock_inv s" "usage_inv ?P s" using Cons.prems(2) by (simp_all add: sound_def)
  note s1 = insert_movement_inv [OF m inv(1)] insert_movement_sel [OF m]
  have same: "iv_usages s1 = iv_usages s" "iv_items s1 = iv_items s" using s1(1) by (simp_all add: ledger_grows_def)
  have sound1: "sound ?P s1" using sound_grows [OF Cons.prems(2)] s1(1) by blast
  obtain x0 where x0: "x0 \<in> set (iv_items s1)" "item_core x0 = item_core it" "ui_usage x0 = j" "ui_reversal x0 = None"
    using Cons.prems(4) same(2) by auto
  then have x0': "ui_id x0 = ui_id it" "ui_product x0 = ui_product it" "ui_quantity x0 = ui_quantity it" by (simp_all add: item_core_def)
  have only: "x = x0" if "x \<in> set (iv_items s1)" "ui_id x = ui_id it" for x
    using distinct_key_eq [of ui_id "iv_items s1" x x0] sound1 x0 x0' that by (simp add: sound_def usage_inv_def)
  have fresh: "ui_id it \<notin> ?Q" using Cons.prems(3) by auto
  have old: "item_ok ?P s1 x" if "x \<in> set (iv_items s1)" for x
    using sound1 that by (simp add: sound_def usage_inv_def list_all_iff)
  have entered: "entered_as ADJUSTMENT (ui_product it) (ui_quantity it) (im_id m) s1"
    using s1 by (simp add: entered_as_def exists_where_iff)
  obtain u where u: "u \<in> set (iv_usages s1)" "ug_id u = j" "ug_status u = USAGE_REVERSED" using Cons.prems(5) same(1) by auto
  have new: "item_ok ?Q ?s2 (if ui_id x = ui_id it then ?f m x else x)" if x: "x \<in> set (iv_items s1)" for x
  proof (cases "ui_id x = ui_id it")
    case True
    then have "x = x0" by (rule only [OF x])
    then show ?thesis
      using old [OF x] True x0' x0(3) entered fresh u unfolding item_ok_def exists_where_iff
      by (auto simp: entered_as_def intro!: bexI [of _ u])
  next
    case False
    then have "ui_id x \<in> ?P \<longleftrightarrow> ui_id x \<in> ?Q" by auto
    then show ?thesis
      using old [OF x] False by (simp add: item_ok_def entered_as_def cong: option.case_cong)
  qed
  have maps: "map ui_id (iv_items ?s2) = map ui_id (iv_items s1)" "map ui_movement (iv_items ?s2) = map ui_movement (iv_items s1)"
    by (simp_all add: map_upd_where)
  have "list_all (\<lambda>x. ui_id x < iv_next ?s2 \<and> ui_movement x < iv_next ?s2 \<and> item_ok ?Q ?s2 x) (iv_items ?s2)"
    unfolding list_all_iff
  proof
    fix y assume "y \<in> set (iv_items ?s2)"
    then obtain x where x: "x \<in> set (iv_items s1)" "y = (if ui_id x = ui_id it then ?f m x else x)" by (auto simp: in_upd_where)
    have "ui_id x < iv_next s1 \<and> ui_movement x < iv_next s1" using sound1 x(1) by (simp add: sound_def usage_inv_def list_all_iff)
    moreover have "ui_id y = ui_id x" "ui_movement y = ui_movement x" using x(2) by simp_all
    ultimately show "ui_id y < iv_next ?s2 \<and> ui_movement y < iv_next ?s2 \<and> item_ok ?Q ?s2 y"
      using new [OF x(1)] x(2) by simp
  qed
  then have "usage_inv ?Q ?s2" using sound1 maps by (simp add: sound_def usage_inv_def list_all_iff)
  moreover have "stock_inv ?s2 = stock_inv s1" by (simp add: stock_inv_def)
  then have "stock_inv ?s2" using s1(1) by blast
  ultimately have sound2: "sound ?Q ?s2" by (simp add: sound_def)
  have "map item_core (items_of i ?s2) = map item_core (items_of i s1)" for i
  proof -
    have "items_of i ?s2 = upd_where (\<lambda>x. ui_id x = ui_id it) (?f m) (items_of i s1)"
      by (simp add: items_of_def upd_where_def filter_map comp_def if_distrib cong: if_cong)
    then show ?thesis by (simp add: map_upd_where item_core_def)
  qed
  then have k2: "keeps s ?s2" using s1(1) by (auto simp: keeps_def items_of_def ledger_grows_def)
  have "\<exists>x\<in>set (iv_items ?s2). item_core x = item_core y \<and> ui_usage x = j \<and> ui_reversal x = None" if y: "y \<in> set its" for y
  proof -
    obtain x where x: "x \<in> set (iv_items s1)" "item_core x = item_core y" "ui_usage x = j" "ui_reversal x = None"
      using bspec [OF Cons.prems(4), of y] y same(2) by auto
    have "ui_id y \<noteq> ui_id it" using fresh y by (auto simp: image_iff)
    then have "ui_id x \<noteq> ui_id it" using x(2) by (simp add: item_core_def)
    then show ?thesis using x upd_where_memI [OF x(1), of "\<lambda>x. ui_id x = ui_id it" "?f m"] by auto
  qed
  then have "sound {} t \<and> keeps ?s2 t \<and> (\<forall>i. net i (iv_movements t) = net i (iv_movements ?s2)
      + sum_list (map (\<lambda>x. if ui_product x = i then ui_quantity x else 0) its))"
    using Cons.IH [OF rest sound2] Cons.prems(3,5) same(1) by auto
  then show ?case using k2 s1 by (auto intro: keeps_trans)
qed (simp add: sound_def)

lemma reverse_usage_sound:
  assumes r: "reverse_usage env app uid sa j why pre s = Inr t" and inv: "sound {} s"
    and pre: "sound {} pre" "keeps pre s"
  shows "sound {} t \<and> keeps s t \<and> (\<forall>i. net i (iv_movements t) = net i (iv_movements s) + item_total i j s)"
proof -
  obtain usage reason s1 where us: "find (\<lambda>u. ug_id u = j \<and> ug_salon u = sa) (iv_usages pre) = Some usage"
    and c: "count_where (reversible sa j) (iv_usages s) \<noteq> 0"
    and its: "reverse_items env uid sa j reason (items_of j pre)
      (s\<lparr>iv_usages := upd_where (reversible sa j) (mark_reversed uid (js_trim why)) (iv_usages s)\<rparr>) = Inr s1"
    and t: "t = audit uid ''SERVICE_USAGE_REVERSED'' sa s1"
    using r unfolding reverse_usage_def success_simps Let_def by auto
  let ?s0 = "s\<lparr>iv_usages := upd_where (reversible sa j) (mark_reversed uid (js_trim why)) (iv_usages s)\<rparr>"
  have "j < iv_next pre" using find_SomeD [OF us] pre(1) by (auto simp: sound_def usage_inv_def list_all_iff)
  then have core: "map item_core (items_of j s) = map item_core (items_of j pre)" using pre(2) by (simp add: keeps_def)
  have "map ui_id xs = map fst (map item_core xs)" for xs by (simp add: item_core_def comp_def)
  then have ids: "map ui_id (items_of j s) = map ui_id (items_of j pre)" using core by metis
  then have P: "ui_id ` set (items_of j s) = ui_id ` set (items_of j pre)" by (metis set_map)
  note cl = claim_reversal_sound [OF inv c refl, of uid "js_trim why"]
  have "\<exists>x\<in>set (iv_items ?s0). item_core x = item_core it \<and> ui_usage x = j \<and> ui_reversal x = None" if "it \<in> set (items_of j pre)" for it
  proof -
    have "item_core it \<in> set (map item_core (items_of j s))" using core that by simp
    then obtain x where x: "x \<in> set (items_of j s)" "item_core x = item_core it" by auto
    then show ?thesis using cl by (intro bexI [of _ x]) (auto simp: items_of_def)
  qed
  moreover have "distinct (map ui_id (items_of j pre))"
    using pre(1) by (simp add: sound_def usage_inv_def items_of_def distinct_map_filter)
  ultimately have "sound {} s1 \<and> keeps ?s0 s1 \<and> (\<forall>i. net i (iv_movements s1) = net i (iv_movements ?s0)
      + sum_list (map (\<lambda>x. if ui_product x = i then ui_quantity x else 0) (items_of j pre)))"
    using reverse_items_sound [OF its] cl P by auto
  moreover have "item_total i j s = item_total i j pre" for i by (rule item_total_core [OF core])
  ultimately show ?thesis using cl by (auto simp: t item_total_def intro: keeps_trans)
qed

lemma reverse_items_usages: "reverse_items env uid sa j reason its s = Inr t \<Longrightarrow> iv_usages t = iv_usages s"
proof (induction its arbitrary: s)
  case (Cons it its)
  then show ?case by (force simp: success_simps elim: insert_movementD)
qed simp

interpretation spent: single_claim "reversible sa j" "mark_reversed u why" for sa j u why
  by unfold_locales (simp add: reversible_def mark_reversed_def)

section \<open>Runs\<close>

text \<open>
  A commit is one handler that read \<open>pre\<close>, and inside its transaction \<open>seen\<close>, before it wrote to \<open>s\<close>. The requests,
  the catalogue and the database of the queue are arbitrary.
\<close>

inductive stock_commit :: "stock_db \<Rightarrow> stock_db \<Rightarrow> stock_db \<Rightarrow> stock_db \<Rightarrow> bool" for pre seen s where
  category: "createCategory env app u sa n s = Inr t \<Longrightarrow> stock_commit pre seen s t"
| supplier: "createSupplier env app u sa si s = Inr t \<Longrightarrow> stock_commit pre seen s t"
| product: "createProduct env app u sa n un pin pre s = Inr (t, p) \<Longrightarrow> stock_commit pre seen s t"
| update: "updateProduct env app u sa i pin pre s = Inr t \<Longrightarrow> stock_commit pre seen s t"
| movement: "createMovement env app u sa i key mi pre seen s = Inr (t, m, c) \<Longrightarrow> stock_commit pre seen s t"
| link: "link app catalog u sa i g pre s = Inr t \<Longrightarrow> stock_commit pre seen s t"
| receive: "receive env app catalog u sa key ri pre s = Inr (t, m, c) \<Longrightarrow> stock_commit pre seen s t"
| transfer: "transfer env app u sa i key q why pre s = Inr (t, j) \<Longrightarrow> stock_commit pre seen s t"
| recipe: "putRecipe app u sa sv rls pre s = Inr t \<Longrightarrow> stock_commit pre seen s t"
| visit: "recordForVisit env now app u e sls pre seen s = Inr (t, results) \<Longrightarrow> stock_commit pre seen s t"
| correct: "reverse_usage env app u sa j reason pre s = Inr t \<Longrightarrow> stock_commit pre seen s t"
| completed: "t = autoRecord env app e u pre s \<Longrightarrow> stock_commit pre seen s t"

inductive stock_grow :: "stock_db list \<Rightarrow> stock_db list \<Rightarrow> bool" where
  "pre \<in> set (s # older) \<Longrightarrow> seen \<in> set (s # older) \<Longrightarrow> stock_commit pre seen s t \<Longrightarrow> stock_grow (s # older) (t # s # older)"

definition no_stock :: stock_db where
  "no_stock = \<lparr>iv_next = 1, iv_categories = [], iv_suppliers = [], iv_products = [], iv_movements = [], iv_rules = [], iv_usages = [],
     iv_items = [], iv_audit = []\<rparr>"

definition history_ok :: "stock_db list \<Rightarrow> bool" where
  "history_ok xs \<longleftrightarrow> xs \<noteq> [] \<and> (\<forall>p\<in>set xs. sound {} p \<and> keeps p (hd xs))"

lemma grows_keeps: "sound {} s \<Longrightarrow> stock_inv t \<and> ledger_grows s t \<Longrightarrow> sound {} t \<and> keeps s t"
  using sound_grows keeps_grows by blast

lemma stock_commit_keeps:
  assumes "stock_commit pre seen s t" "sound {} s" "sound {} pre" "keeps pre s"
  shows "sound {} t \<and> keeps s t"
proof -
  have inv: "stock_inv s" using assms(2) by (simp add: sound_def)
  from assms(1) show ?thesis
  proof (cases rule: stock_commit.cases)
    case (recipe app u sa sv rls)
    then show ?thesis by (rule putRecipe_sound [OF _ assms(2)])
  next
    case (visit env now app u e sls results)
    then show ?thesis using record_usage_sound [OF _ assms(2)] by (auto simp: recordForVisit_def success_simps)
  next
    case (correct env app u sa j reason)
    then show ?thesis using reverse_usage_sound [OF _ assms(2-4)] by blast
  next
    case (completed env app e u)
    then show ?thesis using autoRecord_sound [OF assms(2)] by simp
  qed (rule grows_keeps [OF assms(2)], use inv in \<open>blast dest: owner_inv createMovement_inv link_inv receive_inv transfer_inv\<close>)+
qed

interpretation inventory: invariant stock_grow history_ok
proof unfold_locales
  fix xs ys assume "stock_grow xs ys" "history_ok xs"
  then show "history_ok ys"
  proof (cases rule: stock_grow.cases)
    case (1 pre s older seen t)
    have h: "sound {} p \<and> keeps p s" if "p \<in> set (s # older)" for p
      using \<open>history_ok xs\<close> 1(1) that by (auto simp: history_ok_def)
    have t: "sound {} t \<and> keeps s t"
      using stock_commit_keeps [OF 1(5)] h [of s] h [OF 1(3)] by simp
    then have "sound {} p \<and> keeps p t" if "p \<in> set (t # s # older)" for p
      using h [of p] that keeps_trans by (cases "p = t") auto
    then show ?thesis unfolding 1(2) history_ok_def by simp
  qed
qed

lemma no_stock_ok: "history_ok [no_stock]"
  by (simp add: history_ok_def no_stock_def sound_def stock_inv_def usage_inv_def uniq_on_def)

lemmas run_history = inventory.run_inv [OF _ no_stock_ok]

lemma run_older: "stock_grow\<^sup>*\<^sup>* xs ys \<Longrightarrow> set xs \<subseteq> set ys"
  by (induction rule: rtranclp_induct) (auto elim!: stock_grow.cases)

section \<open>What every run keeps\<close>

lemma uniq_on_count:
  assumes "uniq_on k p rs" "\<And>x. q x \<Longrightarrow> p x \<and> k x = c"
  shows "count_where q rs \<le> 1"
  using assms
proof (induction rs)
  case (Cons r rs)
  show ?case
  proof (cases "q r")
    case True
    then have "count_where q rs = 0"
      using Cons.prems by (auto simp: count_where_0 uniq_on_Cons)
    then show ?thesis by simp
  next
    case False
    then show ?thesis using Cons by (simp add: uniq_on_Cons)
  qed
qed simp

text \<open>C14: the stock is what the ledger says. In every run, whatever each handler had read before it wrote, a product's
  stock is the sum of its entries and is never negative; every entry has the sign and the cost its kind asks for and
  states the sum of the entries up to it; and the ledger of any earlier database is the beginning of this one.\<close>

theorem stock_is_the_ledger:
  assumes "stock_grow\<^sup>*\<^sup>* [no_stock] (s # older)"
  shows "list_all (\<lambda>p. ip_stock p = net (ip_id p) (iv_movements s) \<and> 0 \<le> ip_stock p \<and> 0 \<le> ip_avgCost p) (iv_products s)
    \<and> posted (rev (iv_movements s)) \<and> uniq_on (\<lambda>m. (im_salon m, im_key m)) (\<lambda>_. True) (iv_movements s)
    \<and> (\<forall>p\<in>set older. \<exists>ms. iv_movements s = iv_movements p @ ms)"
proof -
  have h: "history_ok (s # older)" by (rule run_history [OF assms])
  then have "stock_inv s" by (simp add: history_ok_def sound_def)
  moreover have "\<forall>p\<in>set older. \<exists>ms. iv_movements s = iv_movements p @ ms"
    using h by (auto simp: history_ok_def keeps_def)
  ultimately show ?thesis by (auto simp: stock_inv_def list_all_iff)
qed

text \<open>C15: a service of a visit is deducted once. In every run at most one usage of a service of a visit counts as
  recorded; each of its lines owns an entry of the ledger that took exactly its amount, no two lines the same one; a line
  has an entry that puts the amount back exactly when its usage was corrected.\<close>

theorem usage_deducts_once:
  assumes "stock_grow\<^sup>*\<^sup>* [no_stock] (s # older)"
  shows "count_where (recorded_for e v) (iv_usages s) \<le> 1 \<and> distinct (map ui_movement (iv_items s))
    \<and> (\<forall>x\<in>set (iv_items s). 0 < ui_quantity x \<and> entered_as CONSUMED (ui_product x) (- ui_quantity x) (ui_movement x) s
         \<and> (\<exists>u\<in>set (iv_usages s). ug_id u = ui_usage x \<and>
              (case ui_reversal x of None \<Rightarrow> ug_status u = USAGE_RECORDED
               | Some r \<Rightarrow> ug_status u = USAGE_REVERSED \<and> entered_as ADJUSTMENT (ui_product x) (ui_quantity x) r s)))"
proof -
  have "usage_inv {} s" using run_history [OF assms] by (simp add: history_ok_def sound_def)
  then have u: "uniq_on (\<lambda>u. (ug_entry u, ug_service u)) (\<lambda>u. ug_status u = USAGE_RECORDED) (iv_usages s)"
    and d: "distinct (map ui_movement (iv_items s))" and ok: "\<And>x. x \<in> set (iv_items s) \<Longrightarrow> item_ok {} s x"
    by (auto simp: usage_inv_def list_all_iff)
  have "count_where (recorded_for e v) (iv_usages s) \<le> 1"
    by (rule uniq_on_count [OF u, of _ "(e, v)"]) (simp add: recorded_for_def)
  then show ?thesis using d ok unfolding item_ok_def exists_where_iff by (simp cong: option.case_cong)
qed

text \<open>C16: a correction puts back what recording took. However many handlers run between the two, a correction of a
  usage raises the stock of every product by exactly what recording it had lowered it; and no second correction of it
  succeeds.\<close>

theorem correction_returns_the_stock:
  assumes run: "stock_grow\<^sup>*\<^sup>* [no_stock] (s # older)" and "pre \<in> set (s # older)" "seen \<in> set (s # older)"
    and rec: "recordForVisit env now app u e [input] pre seen s = Inr (s1, [(v, j, True)])"
    and later: "stock_grow\<^sup>*\<^sup>* (s1 # s # older) (s2 # newer)" and pre': "pre' \<in> set (s2 # newer)"
    and rev: "reverse_usage env' app' u' sa j why pre' s2 = Inr t"
  shows "net i (iv_movements t) - net i (iv_movements s2) = net i (iv_movements s) - net i (iv_movements s1)
    \<and> is_ok (reverse_usage env'' app'' u'' sa j why'' pre'' t) = False"
proof -
  have "stock_grow (s # older) (s1 # s # older)"
    by (rule stock_grow.intros [OF assms(2,3) stock_commit.visit [OF rec]])
  then have run2: "stock_grow\<^sup>*\<^sup>* [no_stock] (s2 # newer)" using run later by (meson rtranclp.rtrancl_into_rtrancl rtranclp_trans)
  have h: "sound {} p \<and> keeps p s2" if "p \<in> set (s2 # newer)" for p
    using run_history [OF run2] that by (auto simp: history_ok_def)
  have "sound {} s" using run_history [OF run] by (simp add: history_ok_def)
  then have s1: "net i (iv_movements s1) = net i (iv_movements s) - item_total i j s1" "j < iv_next s1"
    using rec record_usage_sound [where P = "{}" and s = s] by (fastforce simp: recordForVisit_def success_simps taken_def)+
  have "s1 \<in> set (s2 # newer)" using run_older [OF later] by simp
  then have "item_total i j s2 = item_total i j s1" using keeps_total h s1(2) by blast
  moreover have "net i (iv_movements t) = net i (iv_movements s2) + item_total i j s2"
    using reverse_usage_sound [OF rev] h [OF pre'] h [of s2] by simp
  moreover have "iv_usages t = upd_where (reversible sa j) (mark_reversed u' (js_trim why)) (iv_usages s2)"
    using rev reverse_items_usages by (force simp: reverse_usage_def success_simps Let_def)
  then have "count_where (reversible sa j) (iv_usages t) = 0" by (simp only: spent.second_claim_fails)
  then have "is_ok (reverse_usage env'' app'' u'' sa j why'' pre'' t) = False"
    by (auto simp: is_ok_def reverse_usage_def success_simps Let_def split: sum.splits)
  ultimately show ?thesis using s1(1) by simp
qed

end
