(* ===== verification/Inventory_Cases.thy ===== *)
theory Inventory_Cases
  imports Inventory_Props
begin

text \<open>
  Single operations of the inventory: the key of a movement, moving stock between shelves, the conversion of units;
  and a concrete shop on which the theorems about the inventory are applied.
\<close>

section \<open>A key moves stock once\<close>

lemma createMovement_answers:
  assumes mv: "createMovement env app u sa i k input pre seen s = Inr (t, m, c)" and inv: "stock_inv s"
    and seen: "iv_movements s = iv_movements seen @ ms"
  shows "m \<in> set (iv_movements t) \<and> im_salon m = sa \<and> validateIdempotencyKey k = Some (im_key m) \<and> im_actor m = u
    \<and> im_hash m = se_hash env (request_of u sa i input) \<and> (\<not> c \<longrightarrow> t = s) \<and> (c \<longrightarrow> m \<notin> set (iv_movements s))"
proof -
  obtain key hash where k: "validateIdempotencyKey k = Some key" "hash = se_hash env (request_of u sa i input)"
    and r: "movement_tx u sa i key hash input seen s = Inr (t, m, c) \<or> replay_movement u sa key hash s = Inr (t, m, c)"
    using createMovementD [OF mv] by blast
  from r show ?thesis
  proof
    assume "movement_tx u sa i key hash input seen s = Inr (t, m, c)"
    from movement_txD [OF this] show ?thesis
    proof
      assume "\<not> c \<and> t = s \<and> find_movement sa key seen = Some m \<and> im_actor m = u \<and> im_hash m = hash"
      then show ?thesis using k seen by (auto dest: find_movementD)
    next
      assume "c \<and> (\<exists>s1. insert_movement (movement_row u sa i key hash input) s = Inr (s1, m)
          \<and> t = audit u ''INVENTORY_MOVEMENT_RECORDED'' sa s1)"
      then obtain s1 where c: c and ins: "insert_movement (movement_row u sa i key hash input) s = Inr (s1, m)"
        and t: "t = audit u ''INVENTORY_MOVEMENT_RECORDED'' sa s1" by blast
      have "find_movement sa key s = None" using ins by (auto elim: insert_movementD)
      then show ?thesis using insert_movement_sel [OF ins] insert_movement_inv [OF ins inv] c t k by (auto simp: find_movement_None)
    qed
  next
    assume "replay_movement u sa key hash s = Inr (t, m, c)"
    then show ?thesis using k by (auto simp: replay_movement_def success_simps dest: find_movementD split: option.splits)
  qed
qed

text \<open>A movement takes effect once. Once a request to move stock was answered, any later request of the salon under
  the same key changes nothing, whatever it read before: when it succeeds it is by the same user, its fields have the hash
  of the first ones, and the answer is the entry the first request was answered with.\<close>

theorem movement_key_takes_effect_once:
  assumes "stock_inv s" "iv_movements s = iv_movements seen @ ms"
    and first: "createMovement env app u sa i k input pre seen s = Inr (t, m, c)"
    and later: "stock_inv s'" "iv_movements s' = iv_movements t @ ms'" "iv_movements s' = iv_movements seen' @ ms''"
    and again: "createMovement env app' u' sa i' k input' pre' seen' s' = Inr (t', m', c')"
  shows "t' = s' \<and> m' = m \<and> \<not> c' \<and> u' = u \<and> se_hash env (request_of u' sa i' input') = se_hash env (request_of u sa i input)"
proof -
  note 1 = createMovement_answers [OF first assms(1,2)]
  note 2 = createMovement_answers [OF again later(1,3)]
  have m: "m \<in> set (iv_movements s')" using 1 later(2) by simp
  have key: "(im_salon m', im_key m') = (im_salon m, im_key m)" using 1 2 by simp
  have grows: "\<exists>xs. iv_movements t' = iv_movements s' @ xs" "stock_inv t'"
    using createMovement_inv [OF again later(1)] by (simp_all add: ledger_grows_def)
  then have "m' = m"
    using uniq_onD [of "\<lambda>m. (im_salon m, im_key m)" "\<lambda>_. True" "iv_movements t'" m' m] m key 2
    by (auto simp: stock_inv_def)
  then show ?thesis using 1 2 m by auto
qed

section \<open>The schema and the trigger agree\<close>

lemma dropWhile_keeps: "c \<in> set xs \<Longrightarrow> \<not> P c \<Longrightarrow> c \<in> set (dropWhile P xs)"
  by (induction xs) auto

lemma js_trim_keeps: "c \<in> set r \<Longrightarrow> \<not> is_space c \<Longrightarrow> c \<in> set (js_trim r)"
  using dropWhile_keeps [of c "rev (dropWhile is_space r)" is_space] dropWhile_keeps [of c r is_space] by (simp add: js_trim_def)

lemma js_trim_solid: "js_trim r \<noteq> [] \<Longrightarrow> \<exists>c\<in>set (js_trim r). \<not> is_space c"
proof -
  assume "js_trim r \<noteq> []"
  then obtain c where "c \<in> set r" "\<not> is_space c"
    by (auto simp: js_trim_def dest: set_dropWhileD)
  then show ?thesis using js_trim_keeps by blast
qed

lemma js_trim_not_blank: "js_trim r \<noteq> [] \<Longrightarrow> js_trim (js_trim r) \<noteq> [] \<and> \<not> blank (Some (js_trim (js_trim r)))"
proof -
  assume "js_trim r \<noteq> []"
  then obtain c where c: "c \<in> set (js_trim r)" "\<not> is_space c" using js_trim_solid [of r] by blast
  have in2: "c \<in> set (js_trim (js_trim r))" by (rule js_trim_keeps [OF c])
  have "is_space (CHR '' '')" by (simp add: is_space_def)
  then have "c \<noteq> CHR '' ''" using c(2) by metis
  then have "\<not> blank (Some (js_trim (js_trim r)))" using in2 by (auto simp: blank_def list_all_iff)
  moreover have "js_trim (js_trim r) \<noteq> []" using in2 by (cases "js_trim (js_trim r)") simp_all
  ultimately show ?thesis by simp
qed

lemma validated_shape:
  assumes "createInventoryMovementSchema raw = Some input"
  shows "movement_shape (movement_row u sa i key hash input) \<and> 0 \<le> nvl (mi_unitCost input) 0 \<and> 0 < mi_quantity input"
proof -
  have ok: "movement_fields_ok input" "\<not> movement_issue input"
    using assms by (auto simp: createInventoryMovementSchema_def Let_def split: if_splits)
  obtain r where r: "mi_reason input = map_option js_trim r"
    using assms by (auto simp: createInventoryMovementSchema_def Let_def trimmed_movement_def split: if_splits)
  have reason: "\<not> blank (nullableTrim (mi_reason input))" if given: "\<not> absent (mi_reason input)"
  proof -
    obtain w where w: "r = Some w" "js_trim w \<noteq> []" using given by (cases r) (simp_all add: r absent_def)
    then show ?thesis using js_trim_not_blank [OF w(2)] by (simp add: r nullableTrim_def)
  qed
  show ?thesis
    using ok reason
    by (cases "mi_kind input")
      (auto simp: movement_shape_def movement_row_def new_movement_def incoming_def outgoing_def quantity_delta_def movement_issue_def
        movement_fields_ok_def positiveQuantity_def nonNegativeMoney_def INVENTORY_LOSS_KINDS_def split: option.splits)
qed

lemma insert_movement_fails:
  assumes "insert_movement m s = Inl err" "movement_shape m" "find_product (im_salon m) (im_product m) s = Some p"
    and "0 \<le> ip_stock p" "0 \<le> ip_avgCost p" "0 \<le> nvl (im_unitCost m) 0" "0 \<le> ip_stock p + im_delta m"
    and "im_kind m = OPENING \<longrightarrow> ip_stock p = 0 \<and> \<not> exists_where (\<lambda>x. im_product x = im_product m) (iv_movements s)"
    and "\<And>i. im_supplier m = Some i \<Longrightarrow> exists_where (\<lambda>x. is_id x = i \<and> is_salon x = im_salon m) (iv_suppliers s)"
  shows "err = NUMERIC_OVERFLOW \<or> err = STOCK_UNIQUE_VIOLATION"
proof -
  have "0 \<le> weighted_average (ip_stock p) (ip_avgCost p) (im_delta m) (nvl (im_unitCost m) 0)" if "incoming (im_kind m)"
  proof (cases "ip_stock p = 0")
    case False
    have "0 < im_delta m" using assms(2) that by (simp add: movement_shape_def)
    then show ?thesis
      using False assms(4,5,6) by (auto simp: weighted_average_def intro!: pos_imp_zdiv_nonneg_iff [THEN iffD2])
  qed (use assms(6) in \<open>simp add: weighted_average_def\<close>)
  then show ?thesis
    using assms by (auto simp: insert_movement_def Let_def guardE_Inl split: option.splits if_splits)
qed

text \<open>What the schema lets through the ledger can enter. A request to move stock that passed the schema is never
  refused by the checks of the table or by a foreign key: it fails only for one of the reasons the handler names, or for a
  stock or cost beyond the columns.\<close>

theorem validated_movements_break_no_check:
  assumes schema: "createInventoryMovementSchema raw = Some input" and inv: "stock_inv s"
    and suppliers: "set (iv_suppliers pre) \<subseteq> set (iv_suppliers s)"
    and fails: "createMovement env app u sa i k input pre seen s = Inl err"
  shows "err \<in> {MOVEMENT_KEY_REQUIRED, SUPPLIER_NOT_FOUND, PRODUCT_NOT_FOUND, MOVEMENT_KEY_REUSED, INSUFFICIENT_STOCK,
      OPENING_ALREADY_RECORDED, NUMERIC_OVERFLOW} \<or> (\<exists>e. err = Access_error e)"
proof (rule ccontr)
  assume n: "\<not> ?thesis"
  obtain key where tx: "catchUnique (movement_tx u sa i key (se_hash env (request_of u sa i input)) input seen s)
        (replay_movement u sa key (se_hash env (request_of u sa i input)) s) = Inl err"
    and refs: "assertReferences sa None (mi_supplier input) pre = Inr ()"
    using fails n by (auto simp: createMovement_def access_def theE_def bindE_def Let_def assertReferences_def guardE_def
        split: sum.splits option.splits if_splits)
  let ?hash = "se_hash env (request_of u sa i input)"
  have "replay_movement u sa key ?hash s \<noteq> Inl err"
    using n by (auto simp: replay_movement_def guardE_def split: option.splits if_splits)
  then have "movement_tx u sa i key ?hash input seen s = Inl err" "err \<noteq> STOCK_UNIQUE_VIOLATION"
    using tx by (auto simp: catchUnique_def split: sum.splits if_splits)
  then obtain p where p: "find_product sa i s = Some p" "0 \<le> ip_stock p + quantity_delta input"
      "mi_kind input = OPENING \<longrightarrow> ip_stock p = 0 \<and> \<not> exists_where (\<lambda>x. im_product x = i) (iv_movements s)"
    and ins: "insert_movement (movement_row u sa i key ?hash input) s = Inl err"
    using n by (auto simp: movement_tx_def theE_def bindE_def guardE_def not_less split: sum.splits option.splits if_splits)
  have "0 \<le> ip_stock p" "0 \<le> ip_avgCost p"
    using find_productD [OF p(1)] inv by (auto simp: stock_inv_def list_all_iff)
  moreover have "exists_where (\<lambda>x. is_id x = j \<and> is_salon x = sa) (iv_suppliers s)"
    if "im_supplier (movement_row u sa i key ?hash input) = Some j" for j
    using that refs suppliers by (auto simp: movement_row_def assertReferences_def success_simps exists_where_iff split: if_splits)
  ultimately have "err = NUMERIC_OVERFLOW \<or> err = STOCK_UNIQUE_VIOLATION"
    using insert_movement_fails [OF ins] validated_shape [OF schema, of u sa i key ?hash] p by simp
  then show False using n \<open>err \<noteq> STOCK_UNIQUE_VIOLATION\<close> by simp
qed

section \<open>Moving between shelves\<close>

text \<open>Moving stock between the shelves loses none. A transfer that answers leaves the shop's stock as it was in
  total, and either appends nothing, or exactly two entries: one that takes the quantity from the product, which had it,
  and one that adds it to the other shelf at the average cost it was valued at.\<close>

theorem transfer_loses_no_stock:
  assumes "transfer env app u sa i k q why pre s = Inr (t, j)" "stock_inv s"
  shows "stock_inv t \<and> sum_list (map ip_stock (iv_products t)) = sum_list (map ip_stock (iv_products s))
    \<and> (iv_movements t = iv_movements s
       \<or> (\<exists>(p :: product) m n. iv_movements t = iv_movements s @ [m, n] \<and> q \<le> ip_stock p \<and> ip_id p = i
            \<and> im_kind m = TRANSFER_OUT \<and> im_product m = i \<and> im_delta m = - q
            \<and> im_kind n = TRANSFER_IN \<and> im_product n = j \<and> im_delta n = q \<and> im_unitCost n = Some (ip_avgCost p)
            \<and> im_group m = im_group n \<and> im_group m \<noteq> None))"
proof -
  obtain s1 key where s1: "stock_inv s1" "iv_movements s1 = iv_movements s"
      "sum_list (map ip_stock (iv_products s1)) = sum_list (map ip_stock (iv_products s))"
    and t: "t = s1 \<or> transfer_tx env u sa i j key q why s1 = Inr t"
    by (rule transferD [OF assms]) (rule that, assumption+)
  from t show ?thesis
  proof
    assume "t = s1"
    then show ?thesis using s1 by simp
  next
    assume tx: "transfer_tx env u sa i j key q why s1 = Inr t"
    obtain p m n where "find_product sa i s1 = Some p" and r: "q \<le> ip_stock p" "iv_movements t = iv_movements s1 @ [m, n]"
      "im_kind m = TRANSFER_OUT" "im_product m = i" "im_delta m = - q" "im_kind n = TRANSFER_IN" "im_product n = j" "im_delta n = q"
      "im_unitCost n = Some (ip_avgCost p)" "im_group m = im_group n" "im_group m \<noteq> None"
      using transfer_txD [OF tx s1(1)] by blast
    then have "ip_id p = i" by (simp add: find_productD)
    moreover have "stock_inv t" "sum_list (map ip_stock (iv_products t)) = sum_list (map ip_stock (iv_products s))"
      using transfer_txD [OF tx s1(1)] s1(3) by auto
    moreover have "iv_movements t = iv_movements s @ [m, n]" using r(2) s1(2) by simp
    ultimately show ?thesis using r(1,3-) by blast
  qed
qed

section \<open>Conversion\<close>

text \<open>What one of the entered unit is worth in units the product is counted in, exactly.\<close>

definition contents_worth :: "dimension \<Rightarrow> int \<Rightarrow> product \<Rightarrow> rat option" where
  "contents_worth d f p =
     (case (ip_contentSize p, ip_contentUnit p) of
        (Some z, Some u) \<Rightarrow>
          (case UNIT_BASE u of
             Some (d', c) \<Rightarrow> if d = d' \<and> 0 < z then Some (of_int f / (of_int z / 1000 * of_int c)) else None
           | None \<Rightarrow> None)
      | _ \<Rightarrow> None)"

definition stock_worth :: "inventory_unit \<Rightarrow> product \<Rightarrow> rat option" where
  "stock_worth u p =
     (if u = ip_unit p then Some 1
      else case UNIT_BASE u of
          None \<Rightarrow> None
        | Some (d, f) \<Rightarrow>
            (case UNIT_BASE (ip_unit p) of
               Some (d', t) \<Rightarrow> if d = d' then Some (of_int f / of_int t) else contents_worth d f p
             | None \<Rightarrow> contents_worth d f p))"

lemma toLedger_worth:
  assumes "0 < n" "0 < d"
  shows "toLedger n d = max 1 \<lfloor>of_int n / of_int d + 1 / 2 :: rat\<rfloor>"
proof -
  have "(of_int n / of_int d + 1 / 2 :: rat) = of_int (2 * n + d) / of_int (2 * d)"
    using assms by (simp add: field_simps)
  then have "\<lfloor>of_int n / of_int d + 1 / 2 :: rat\<rfloor> = (2 * n + d) div (2 * d)"
    by (simp only: floor_divide_of_int_eq)
  moreover have "0 \<le> (2 * n + d) div (2 * d)" using assms by (simp add: pos_imp_zdiv_nonneg_iff)
  ultimately show ?thesis using assms by (auto simp: toLedger_def Let_def max_def)
qed

lemma unit_base_pos: "UNIT_BASE u = Some (d, f) \<Longrightarrow> 0 < f"
  by (cases u) auto

lemma through_contents_worth:
  assumes "0 < q" "0 < f"
  shows "through_contents d f q p = map_option (\<lambda>w. max 1 \<lfloor>of_int q * w + 1 / 2 :: rat\<rfloor>) (contents_worth d f p)"
proof -
  have "toLedger (1000 * q * f) (z * c) = max 1 \<lfloor>of_int q * (of_int f / (of_int z / 1000 * of_int c)) + 1 / 2 :: rat\<rfloor>"
    if "0 < z" "0 < c" for z c
  proof -
    have "0 < 1000 * q * f" "0 < z * c" using that assms by simp_all
    from toLedger_worth [OF this] show ?thesis by (simp add: field_simps)
  qed
  then show ?thesis by (auto simp: through_contents_def contents_worth_def dest: unit_base_pos split: option.splits)
qed

text \<open>The conversion rounds the exact worth. An entered amount becomes its exact worth in the product's own unit,
  rounded half up to a thousandth, but never to nothing; it is refused exactly when it is not positive or the units have
  no common measure, not even through the contents of a piece.\<close>

theorem conversion_rounds_the_exact_worth:
  "convertToStockUnit q u p =
     (if 0 < q then map_option (\<lambda>w. max 1 \<lfloor>of_int q * w + 1 / 2\<rfloor>) (stock_worth u p) else None)"
proof (cases "0 < q")
  case q: True
  show ?thesis
  proof (cases "u = ip_unit p")
    case True
    then show ?thesis using q toLedger_worth [OF q, of 1] by (simp add: convertToStockUnit_def stock_worth_def)
  next
    case other: False
    show ?thesis
    proof (cases "UNIT_BASE u")
      case None
      then show ?thesis using q other by (simp add: convertToStockUnit_def stock_worth_def)
    next
      case (Some df)
      then obtain d f where u: "UNIT_BASE u = Some (d, f)" "0 < f" using unit_base_pos by (cases df) auto
      have same: "toLedger (q * f) t = max 1 \<lfloor>of_int q * (of_int f / of_int t) + 1 / 2 :: rat\<rfloor>" if "0 < t" for t
        using toLedger_worth [of "q * f" t] q u(2) that by simp
      show ?thesis
        using q other u same
        by (auto simp: convertToStockUnit_def stock_worth_def through_contents_worth dest: unit_base_pos split: option.splits)
    qed
  qed
qed (simp add: convertToStockUnit_def)

section \<open>A concrete shop\<close>

definition demo_floor :: db where
  "demo_floor = demo_db\<lparr>db_roles := [\<lparr>ur_user = 8, ur_role = SALON_OWNER, ur_salon = Some 1\<rparr>],
     db_entries := [demo_entry 60 Q_IN_SERVICE (Some 3) (Some 5) 1]\<rparr>"

definition demo_stock_env :: stock_env where
  "demo_stock_env = \<lparr>se_hash = (\<lambda>r. show_nat (mr_product r)), se_sha = id, se_lower = id, se_upper = id, se_transferHash = (\<lambda>_ _ _ d _. d)\<rparr>"

definition demo_oil :: catalog_product where
  "demo_oil = \<lparr>gp_id = 40, gp_name = ''Oil'', gp_verification = VERIFIED, gp_submittedBy = None, gp_packSize = Some 195000,
     gp_packUnit = Some MILLILITER\<rparr>"

definition demo_receipt :: receive_input where
  "demo_receipt = \<lparr>ri_global = 40, ri_usage = PROFESSIONAL, ri_name = None, ri_unit = None, ri_quantity = 4000, ri_unitCost = 30000,
     ri_supplier = None, ri_sellingPrice = None, ri_location = None, ri_threshold = None, ri_reference = None, ri_batch = None, ri_expiry = None\<rparr>"

text \<open>Four bottles arrive, a visit uses ten millilitres, the owner corrects it.\<close>

definition stocked :: stock_db where
  "stocked = fst (projr (receive demo_stock_env demo_floor [demo_oil] 8 1 (Some ''receipt-1'') demo_receipt no_stock no_stock))"

definition used :: stock_db where
  "used = fst (projr (recordForVisit demo_stock_env 0 demo_floor 8 60 [(2, [\<lparr>ul_product = 1, ul_quantity = 10000, ul_unit = MILLILITER, ul_rule = None\<rparr>])]
     stocked stocked stocked))"

definition corrected :: stock_db where
  "corrected = projr (reverse_usage demo_stock_env demo_floor 8 1 3 ''wrong'' used used)"

lemma demo_receive: "\<exists>m. receive demo_stock_env demo_floor [demo_oil] 8 1 (Some ''receipt-1'') demo_receipt no_stock no_stock = Inr (stocked, m, True)"
proof -
  have "map_sum (\<lambda>_. ()) (snd \<circ> snd) (receive demo_stock_env demo_floor [demo_oil] 8 1 (Some ''receipt-1'') demo_receipt no_stock no_stock) = Inr True"
    by code_simp
  then show ?thesis
    by (cases "receive demo_stock_env demo_floor [demo_oil] 8 1 (Some ''receipt-1'') demo_receipt no_stock no_stock") (auto simp: stocked_def)
qed

abbreviation demo_lines :: service_lines where
  "demo_lines \<equiv> (2, [\<lparr>ul_product = 1, ul_quantity = 10000, ul_unit = MILLILITER, ul_rule = None\<rparr>])"

lemma demo_record: "recordForVisit demo_stock_env 0 demo_floor 8 60 [demo_lines] stocked stocked stocked = Inr (used, [(2, 3, True)])"
proof -
  have "map_sum (\<lambda>_. ()) snd (recordForVisit demo_stock_env 0 demo_floor 8 60 [demo_lines] stocked stocked stocked) = Inr [(2, 3, True)]"
    by code_simp
  then show ?thesis
    by (cases "recordForVisit demo_stock_env 0 demo_floor 8 60 [demo_lines] stocked stocked stocked") (auto simp: used_def)
qed

lemma demo_reverse: "reverse_usage demo_stock_env demo_floor 8 1 3 ''wrong'' used used = Inr corrected"
proof -
  have "is_ok (reverse_usage demo_stock_env demo_floor 8 1 3 ''wrong'' used used)" by code_simp
  then show ?thesis by (auto simp: is_ok_iff corrected_def)
qed

lemma demo_stocked: "map (\<lambda>p. (ip_id p, ip_stock p, ip_avgCost p)) (iv_products stocked) = [(1, 4000, 30000)]"
  by code_simp

lemma demo_used: "net 1 (iv_movements used) = 3949" "count_where (recorded_for 60 2) (iv_usages used) = 1"
  by code_simp+

lemma demo_run: "stock_grow\<^sup>*\<^sup>* [no_stock] [stocked, no_stock]" "stock_grow\<^sup>*\<^sup>* [no_stock] [used, stocked, no_stock]"
proof -
  obtain m where "receive demo_stock_env demo_floor [demo_oil] 8 1 (Some ''receipt-1'') demo_receipt no_stock no_stock = Inr (stocked, m, True)"
    using demo_receive by blast
  then have "stock_grow [no_stock] [stocked, no_stock]"
    using stock_grow.intros [OF _ _ stock_commit.receive, of no_stock no_stock "[]" no_stock] by simp
  then show 1: "stock_grow\<^sup>*\<^sup>* [no_stock] [stocked, no_stock]" by (rule r_into_rtranclp)
  have "stock_grow [stocked, no_stock] [used, stocked, no_stock]"
    using stock_grow.intros [OF _ _ stock_commit.visit [OF demo_record]] by simp
  then show "stock_grow\<^sup>*\<^sup>* [no_stock] [used, stocked, no_stock]" by (rule rtranclp.rtrancl_into_rtrancl [OF 1])
qed

lemma demo_stock_inv: "stock_inv stocked" "stock_inv used"
  using run_history [OF demo_run(1)] run_history [OF demo_run(2)] by (simp_all add: history_ok_def sound_def)

lemma stock_is_the_ledger_witness: "map im_kind (iv_movements used) = [OPENING, CONSUMED] \<and> posted (rev (iv_movements used))"
proof -
  have "map im_kind (iv_movements used) = [OPENING, CONSUMED]" by code_simp
  then show ?thesis using stock_is_the_ledger [OF demo_run(2)] by blast
qed

lemma usage_deducts_once_witness:
  "count_where (recorded_for 60 2) (iv_usages used) = 1 \<and> (\<exists>x\<in>set (iv_items used). entered_as CONSUMED 1 (- 51) (ui_movement x) used)"
proof -
  have "map (\<lambda>x. (ui_product x, ui_quantity x)) (iv_items used) = [(1, 51)]" by code_simp
  then obtain x where "x \<in> set (iv_items used)" "ui_product x = 1" "ui_quantity x = 51" by (auto simp: map_eq_Cons_conv)
  then show ?thesis using usage_deducts_once [OF demo_run(2), of 60 2] demo_used(2) by force
qed

lemma correction_returns_the_stock_witness: "net 1 (iv_movements used) = 3949 \<and> net 1 (iv_movements corrected) = 4000"
proof -
  have "net 1 (iv_movements stocked) = 4000" by code_simp
  moreover have "net 1 (iv_movements corrected) - net 1 (iv_movements used) = net 1 (iv_movements stocked) - net 1 (iv_movements used)"
    using correction_returns_the_stock [OF demo_run(1) _ _ demo_record rtranclp.rtrancl_refl _ demo_reverse, of 1] by simp
  ultimately show ?thesis using demo_used(1) by simp
qed

definition demo_purchase :: movement_input where
  "demo_purchase = \<lparr>mi_kind = PURCHASE, mi_quantity = 2000, mi_unitCost = Some 31000, mi_supplier = None, mi_direction = None, mi_reason = None,
     mi_reference = None, mi_batch = None, mi_expiry = None\<rparr>"

abbreviation demo_buy :: "stock_db \<Rightarrow> stock_error + (stock_db \<times> movement \<times> bool)" where
  "demo_buy s \<equiv> createMovement demo_stock_env demo_floor 8 1 1 (Some ''purchase-1'') demo_purchase s s s"

definition bought :: stock_db where "bought = fst (projr (demo_buy stocked))"

lemma demo_bought: "is_ok (demo_buy stocked)" "is_ok (demo_buy bought)"
  by code_simp+

lemma movement_key_takes_effect_once_witness:
  "\<exists>m. demo_buy stocked = Inr (bought, m, True) \<and> demo_buy bought = Inr (bought, m, False)"
proof -
  obtain m c where 1: "demo_buy stocked = Inr (bought, m, c)" using demo_bought(1) by (auto simp: is_ok_iff bought_def)
  obtain t' m' c' where 2: "demo_buy bought = Inr (t', m', c')" using demo_bought(2) by (auto simp: is_ok_iff)
  have inv: "stock_inv bought" using createMovement_inv [OF 1 demo_stock_inv(1)] by simp
  have "map_sum (\<lambda>_. ()) (snd \<circ> snd) (demo_buy stocked) = Inr True" by code_simp
  then have c by (simp only: 1 map_sum.simps o_apply prod.sel sum.inject simp_thms)
  then show ?thesis
    using movement_key_takes_effect_once [OF demo_stock_inv(1) _ 1 inv _ _ 2, of "[]" "[]" "[]"] 1 2 by simp
qed

lemma validated_movements_break_no_check_witness:
  "createInventoryMovementSchema demo_purchase = Some demo_purchase \<and>
   createMovement demo_stock_env demo_floor 8 1 9 (Some ''purchase-1'') demo_purchase stocked stocked stocked = Inl PRODUCT_NOT_FOUND"
proof -
  let ?r = "createMovement demo_stock_env demo_floor 8 1 9 (Some ''purchase-1'') demo_purchase stocked stocked stocked"
  have s: "createInventoryMovementSchema demo_purchase = Some demo_purchase" by code_simp
  have r: "\<not> is_ok ?r" "?r \<noteq> Inl MOVEMENT_KEY_REQUIRED" "map_sum (\<lambda>e. e = PRODUCT_NOT_FOUND) (\<lambda>_. ()) ?r = Inl True" by code_simp+
  then obtain err where err: "?r = Inl err" by (cases ?r) auto
  note validated_movements_break_no_check [OF s demo_stock_inv(1) subset_refl err]
  then show ?thesis using r(3) s err by auto
qed

lemma transfer_loses_no_stock_witness:
  "\<exists>t j. transfer demo_stock_env demo_floor 8 1 1 (Some ''to-retail'') 1000 None stocked stocked = Inr (t, j)
    \<and> sum_list (map ip_stock (iv_products t)) = 4000 \<and> length (iv_products t) = 2"
proof -
  let ?r = "transfer demo_stock_env demo_floor 8 1 1 (Some ''to-retail'') 1000 None stocked stocked"
  have r: "map_sum (\<lambda>_. ()) (\<lambda>(t, j). length (iv_products t)) ?r = Inr 2" by code_simp
  then obtain t j where t: "?r = Inr (t, j)" by (cases ?r) auto
  have "map ip_stock (iv_products stocked) = [4000]" by code_simp
  then have "sum_list (map ip_stock (iv_products t)) = 4000" using conjunct1 [OF conjunct2 [OF transfer_loses_no_stock [OF t demo_stock_inv(1)]]] by simp
  then show ?thesis using r t by simp
qed

lemma conversion_rounds_the_exact_worth_witness:
  "convertToStockUnit 10000 MILLILITER (hd (iv_products stocked)) = Some 51 \<and> stock_worth MILLILITER (hd (iv_products stocked)) = Some (1 / 195)"
proof -
  let ?p = "hd (iv_products stocked)"
  have "ip_unit ?p = EACH" "ip_contentSize ?p = Some 195000" "ip_contentUnit ?p = Some MILLILITER" by code_simp+
  then have w: "stock_worth MILLILITER ?p = Some (1 / 195)" by (simp add: stock_worth_def contents_worth_def)
  have "\<lfloor>10000 / 195 + 1 / 2 :: rat\<rfloor> = 51" by (simp add: floor_unique)
  then show ?thesis using conversion_rounds_the_exact_worth [of 10000 MILLILITER ?p] w by simp
qed

end
