(* ===== verification/Invoice_Math.thy ===== *)
theory Invoice_Math
  imports Money
begin

text \<open>
  The arithmetic of invoices: totals and tax (\<^verbatim>\<open>computeInvoiceTotals\<close>), the state of payment and the printed number
  (\<^verbatim>\<open>packages/shared/src/owner-ops.ts\<close>), and the split of a discount over the lines
  (\<^verbatim>\<open>allocateProportionally\<close> of \<^verbatim>\<open>owner-ops/invoices.service.ts\<close>). Amounts are integers of paise, rates integers of
  basis points.
\<close>

section \<open>Totals\<close>

datatype tax_mode = EXCLUSIVE | INCLUSIVE
datatype invoice_math_error = No_lines | Bad_amount | Bad_quantity | Discount_exceeds_line | Bad_tax_rate

record invoice_line =
  il_description :: string
  il_unitPrice :: paise
  il_quantity :: int
  il_discount :: paise

record tax_config =
  tx_enabled :: bool
  tx_rateBps :: "int option"
  tx_mode :: tax_mode

record invoice_totals =
  to_lines :: "paise list"
  to_subtotal :: paise
  to_discount :: paise
  to_tax :: paise
  to_total :: paise

definition safe_nonneg :: "int \<Rightarrow> bool" where
  "safe_nonneg v \<longleftrightarrow> 0 \<le> v \<and> v \<le> 2 ^ 53 - 1"

definition line_total :: "invoice_line \<Rightarrow> invoice_math_error + paise" where
  "line_total l =
     guardE (list_all safe_nonneg [il_unitPrice l, il_quantity l, il_discount l]) Bad_amount
    (guardE (\<not> il_quantity l < 1) Bad_quantity
    (guardE (\<not> il_discount l > il_unitPrice l * il_quantity l) Discount_exceeds_line
      (Inr (il_unitPrice l * il_quantity l - il_discount l))))"

fun line_totals :: "invoice_line list \<Rightarrow> invoice_math_error + paise list" where
  "line_totals [] = Inr []"
| "line_totals (l # ls) = bindE (line_total l) (\<lambda>t. bindE (line_totals ls) (\<lambda>ts. Inr (t # ts)))"

definition divRoundHalfUp :: "int \<Rightarrow> int \<Rightarrow> int" where
  "divRoundHalfUp n d = (n * 2 + d) div (d * 2)"

definition computeInvoiceTotals :: "invoice_line list \<Rightarrow> tax_config \<Rightarrow> invoice_math_error + invoice_totals" where
  "computeInvoiceTotals ls tax =
     guardE (ls \<noteq> []) No_lines
    (bindE (line_totals ls) (\<lambda>computed.
     let subtotal = sum_list (map (\<lambda>l. il_unitPrice l * il_quantity l) ls);
         discount = sum_list (map il_discount ls);
         net = subtotal - discount
     in if \<not> tx_enabled tax then Inr \<lparr>to_lines = computed, to_subtotal = subtotal, to_discount = discount, to_tax = 0, to_total = net\<rparr>
        else (case tx_rateBps tax of None \<Rightarrow> Inl Bad_tax_rate
              | Some r \<Rightarrow> guardE (\<not> (r < 0 \<or> r > 10000)) Bad_tax_rate
                  (Inr (if tx_mode tax = INCLUSIVE
                        then \<lparr>to_lines = computed, to_subtotal = subtotal, to_discount = discount,
                              to_tax = divRoundHalfUp (net * r) (10000 + r), to_total = net\<rparr>
                        else \<lparr>to_lines = computed, to_subtotal = subtotal, to_discount = discount,
                              to_tax = divRoundHalfUp (net * r) 10000, to_total = net + divRoundHalfUp (net * r) 10000\<rparr>)))))"

lemma divRoundHalfUp_bounds:
  assumes "0 < d"
  shows "2 * \<bar>divRoundHalfUp n d * d - n\<bar> \<le> d"
proof -
  let ?q = "(n * 2 + d) div (d * 2)"
  have "?q * (d * 2) \<le> n * 2 + d \<and> n * 2 + d < ?q * (d * 2) + d * 2"
    using assms div_mult_mod_eq [of "n * 2 + d" "d * 2"] pos_mod_sign [of "d * 2" "n * 2 + d"] pos_mod_bound [of "d * 2" "n * 2 + d"]
    by linarith
  then show ?thesis by (simp add: divRoundHalfUp_def abs_if algebra_simps)
qed

lemma divRoundHalfUp_nonneg: "0 \<le> n \<Longrightarrow> 0 < d \<Longrightarrow> 0 \<le> divRoundHalfUp n d"
  by (simp add: divRoundHalfUp_def pos_imp_zdiv_nonneg_iff)

lemma line_totals_sum:
  "line_totals ls = Inr ts \<Longrightarrow> length ts = length ls \<and> (\<forall>t\<in>set ts. 0 \<le> t)
    \<and> sum_list ts = sum_list (map (\<lambda>l. il_unitPrice l * il_quantity l) ls) - sum_list (map il_discount ls)
    \<and> (\<forall>l\<in>set ls. 0 \<le> il_discount l \<and> 0 \<le> il_unitPrice l * il_quantity l)"
proof (induction ls arbitrary: ts)
  case (Cons l ls)
  then show ?case by (auto simp: success_simps line_total_def safe_nonneg_def)
qed simp

lemma total_nonneg: "(\<And>x. x \<in> set xs \<Longrightarrow> 0 \<le> f x) \<Longrightarrow> 0 \<le> sum_list (map f xs :: int list)"
  by (rule sum_list_nonneg_int) auto

lemma computed_totals:
  assumes "computeInvoiceTotals ls tax = Inr t"
  shows "to_subtotal t - to_discount t = sum_list (to_lines t) \<and> 0 \<le> to_subtotal t \<and> 0 \<le> to_discount t \<and> 0 \<le> to_tax t
    \<and> length (to_lines t) = length ls \<and> (\<forall>x\<in>set (to_lines t). 0 \<le> x)
    \<and> to_total t = sum_list (to_lines t) + (if tx_enabled tax \<and> tx_mode tax = EXCLUSIVE then to_tax t else 0)
    \<and> (if tx_enabled tax
       then \<exists>r. tx_rateBps tax = Some r \<and> 0 \<le> r \<and> r \<le> 10000 \<and>
         (let base = (if tx_mode tax = INCLUSIVE then 10000 + r else 10000)
          in 2 * \<bar>to_tax t * base - sum_list (to_lines t) * r\<bar> \<le> base)
       else to_tax t = 0)"
proof -
  obtain ts where ts: "line_totals ls = Inr ts" using assms by (auto simp: computeInvoiceTotals_def success_simps)
  note s = line_totals_sum [OF ts]
  have n: "0 \<le> sum_list ts" by (rule sum_list_nonneg_int) (use s in blast)
  have m: "0 \<le> sum_list (map il_discount ls)" "0 \<le> sum_list (map (\<lambda>l. il_unitPrice l * il_quantity l) ls)"
    using s by (auto intro!: total_nonneg)
  have tax: "0 \<le> divRoundHalfUp (sum_list ts * r) d \<and> 2 * \<bar>divRoundHalfUp (sum_list ts * r) d * d - sum_list ts * r\<bar> \<le> d"
    if "0 \<le> r" "0 < d" for r d
    using that n by (simp add: divRoundHalfUp_bounds divRoundHalfUp_nonneg)
  show ?thesis
  proof (cases "tx_enabled tax")
    case False
    then show ?thesis using assms ts s m by (auto simp: computeInvoiceTotals_def success_simps Let_def)
  next
    case True
    then obtain r where r: "tx_rateBps tax = Some r" "0 \<le> r" "r \<le> 10000"
      using assms ts by (auto simp: computeInvoiceTotals_def success_simps Let_def split: option.splits)
    then show ?thesis
      using assms ts s m True tax [of r 10000] tax [of r "10000 + r"]
      by (cases "tx_mode tax") (auto simp: computeInvoiceTotals_def success_simps Let_def)
  qed
qed

text \<open>An invoice adds up. The total is the sum of the lines, plus the tax where prices exclude it; subtotal, discount
  and tax are not negative; and the tax is the net amount at the configured rate, or the part of it that is tax where
  prices include it, to within half a paisa. Without a tax configuration there is none.\<close>

theorem invoice_adds_up:
  assumes "computeInvoiceTotals ls tax = Inr t"
  shows "to_subtotal t - to_discount t = sum_list (to_lines t) \<and> 0 \<le> to_subtotal t \<and> 0 \<le> to_discount t \<and> 0 \<le> to_tax t
    \<and> length (to_lines t) = length ls \<and> (\<forall>x\<in>set (to_lines t). 0 \<le> x)
    \<and> to_total t = sum_list (to_lines t) + (if tx_enabled tax \<and> tx_mode tax = EXCLUSIVE then to_tax t else 0)
    \<and> (if tx_enabled tax
       then \<exists>r. tx_rateBps tax = Some r \<and> 0 \<le> r \<and> r \<le> 10000 \<and>
         (let base = (if tx_mode tax = INCLUSIVE then 10000 + r else 10000)
          in 2 * \<bar>to_tax t * base - sum_list (to_lines t) * r\<bar> \<le> base)
       else to_tax t = 0)"
  by (rule computed_totals [OF assms])

section \<open>State of payment and number\<close>

datatype payment_status = PAY_UNPAID | PAY_PARTIALLY_PAID | PAY_PAID | PAY_REFUNDED | PAY_VOID

definition deriveInvoicePaymentStatus :: "bool \<Rightarrow> paise \<Rightarrow> paise \<Rightarrow> paise \<Rightarrow> payment_status" where
  "deriveInvoicePaymentStatus voided amount paid refunded =
     (if voided then PAY_VOID
      else let net = paid - refunded
           in if net \<le> 0 then (if refunded > 0 then PAY_REFUNDED else PAY_UNPAID)
              else if net \<ge> amount then PAY_PAID else PAY_PARTIALLY_PAID)"

definition formatInvoiceNumber :: "string \<Rightarrow> nat \<Rightarrow> string" where
  "formatInvoiceNumber prefix sequence = prefix @ ''-'' @ pad_start 6 (CHR ''0'') (show_nat sequence)"

lemma parse_int_zeros: "parse_int (replicate n (CHR ''0'') @ s) = parse_int s"
  by (induction n) (simp_all add: parse_int_def digit_val_def)

lemma dash_in_number:
  assumes "CHR ''-'' \<notin> set p" "CHR ''-'' \<notin> set q" "p @ CHR ''-'' # s = q @ CHR ''-'' # t"
  shows "s = t"
  using assms
proof (induction p arbitrary: q)
  case Nil
  then show ?case by (cases q) auto
next
  case (Cons a p)
  then show ?case by (cases q) auto
qed

text \<open>Two printed numbers agree only for the same sequence number, also after a change of the prefix.\<close>

lemma invoice_number_inj:
  assumes "CHR ''-'' \<notin> set p" "CHR ''-'' \<notin> set q" "formatInvoiceNumber p m = formatInvoiceNumber q n"
  shows "m = n"
proof -
  have "pad_start 6 (CHR ''0'') (show_nat m) = pad_start 6 (CHR ''0'') (show_nat n)"
    using dash_in_number [OF assms(1,2)] assms(3) by (simp add: formatInvoiceNumber_def)
  then have "parse_int (show_nat m) = parse_int (show_nat n)" by (metis pad_start_def parse_int_zeros)
  then show ?thesis by (simp add: parse_int_show_nat)
qed

section \<open>Splitting a discount over the lines\<close>

function allocate_loop :: "int list \<Rightarrow> nat \<Rightarrow> int \<Rightarrow> int list \<Rightarrow> int list" where
  "allocate_loop weights i remainder parts =
     (if remainder > 0 \<and> i < length parts * 2
      then let idx = i mod length parts
           in if parts ! idx < weights ! idx
              then allocate_loop weights (i + 1) (remainder - 1) (parts[idx := parts ! idx + 1])
              else allocate_loop weights (i + 1) remainder parts
      else parts)"
  by pat_completeness auto
termination
  by (relation "measure (\<lambda>(weights, i, remainder, parts). length parts * 2 - i)") auto

declare allocate_loop.simps [simp del]

definition allocateProportionally :: "int list \<Rightarrow> int \<Rightarrow> int list" where
  "allocateProportionally weights amount =
     (let s = sum_list weights
      in if s = 0 \<or> amount \<le> 0 then map (\<lambda>_. 0) weights
         else let parts = map (\<lambda>w. w * amount div s) weights
              in allocate_loop weights 0 (amount - sum_list parts) parts)"

definition room :: "int list \<Rightarrow> nat \<Rightarrow> int list \<Rightarrow> nat set" where
  "room weights i parts = {k. i \<le> k \<and> k < length parts \<and> parts ! k < weights ! k}"

lemma finite_room [simp]: "finite (room ws i ps)"
  by (simp add: room_def)

lemma room_next: "i < length ps \<Longrightarrow> room ws i ps = (if ps ! i < ws ! i then insert i (room ws (Suc i) ps) else room ws (Suc i) ps)"
  by (auto simp: room_def le_Suc_eq Suc_le_eq intro: le_neq_implies_less)

lemma room_update: "room ws (Suc i) (ps[i := x]) = room ws (Suc i) ps"
  by (auto simp: room_def)

lemma sum_list_bump: "i < length ps \<Longrightarrow> sum_list (ps[i := ps ! i + 1]) = sum_list ps + (1 :: int)"
proof (induction ps arbitrary: i)
  case (Cons p ps)
  then show ?case by (cases i) simp_all
qed simp

text \<open>As long as enough lines have room, the loop spends the remainder before it comes round.\<close>

lemma allocate_loop_spends:
  assumes "i \<le> length ps" "0 \<le> r" "r \<le> int (card (room ws i ps))"
  shows "sum_list (allocate_loop ws i r ps) = sum_list ps + r \<and> length (allocate_loop ws i r ps) = length ps
    \<and> (\<forall>k<length ps. allocate_loop ws i r ps ! k = ps ! k
         \<or> i \<le> k \<and> ps ! k < ws ! k \<and> allocate_loop ws i r ps ! k = ps ! k + 1)"
  using assms
proof (induction ws i r ps rule: allocate_loop.induct)
  case (1 ws i r ps)
  show ?case
  proof (cases "0 < r")
    case False
    then have "allocate_loop ws i r ps = ps" by (simp add: allocate_loop.simps [of ws i r ps])
    then show ?thesis using False 1(4) by simp
  next
    case r: True
    then have "room ws i ps \<noteq> {}" using 1(5) by auto
    then have i: "i < length ps" by (auto simp: room_def)
    then have m: "i mod length ps = i" "i < length ps * 2" by simp_all
    show ?thesis
    proof (cases "ps ! i < ws ! i")
      case lt: True
      let ?ps = "ps[i := ps ! i + 1]"
      have eq: "allocate_loop ws i r ps = allocate_loop ws (i + 1) (r - 1) ?ps"
        using r lt m by (subst allocate_loop.simps) (simp add: Let_def)
      have "int (card (room ws i ps)) = int (card (room ws (Suc i) ps)) + 1"
        using room_next [OF i, of ws] lt by (simp add: room_def)
      then have "r - 1 \<le> int (card (room ws (i + 1) ?ps))" using 1(5) by (simp add: room_update)
      then have IH: "sum_list (allocate_loop ws (i + 1) (r - 1) ?ps) = sum_list ?ps + (r - 1)
          \<and> length (allocate_loop ws (i + 1) (r - 1) ?ps) = length ?ps
          \<and> (\<forall>k<length ?ps. allocate_loop ws (i + 1) (r - 1) ?ps ! k = ?ps ! k
               \<or> i + 1 \<le> k \<and> ?ps ! k < ws ! k \<and> allocate_loop ws (i + 1) (r - 1) ?ps ! k = ?ps ! k + 1)"
        using 1(1) [OF _ refl] r lt m i by simp
      have "sum_list ?ps = sum_list ps + 1" by (rule sum_list_bump [OF i])
      moreover have "allocate_loop ws (i + 1) (r - 1) ?ps ! k = ps ! k
          \<or> i \<le> k \<and> ps ! k < ws ! k \<and> allocate_loop ws (i + 1) (r - 1) ?ps ! k = ps ! k + 1" if "k < length ps" for k
      proof (cases "k = i")
        case True
        have "allocate_loop ws (i + 1) (r - 1) ?ps ! i = ?ps ! i" using IH i by fastforce
        then show ?thesis using True lt i by simp
      next
        case False
        then have "?ps ! k = ps ! k" by simp
        moreover have "k < length ?ps" using that by simp
        ultimately show ?thesis using conjunct2 [OF conjunct2 [OF IH], rule_format, of k] by auto
      qed
      ultimately show ?thesis unfolding eq using IH by simp
    next
      case ge: False
      have eq: "allocate_loop ws i r ps = allocate_loop ws (i + 1) r ps"
        using r ge m by (subst allocate_loop.simps) (simp add: Let_def)
      have "r \<le> int (card (room ws (i + 1) ps))" using 1(5) room_next [OF i, of ws] ge by simp
      then have "sum_list (allocate_loop ws (i + 1) r ps) = sum_list ps + r \<and> length (allocate_loop ws (i + 1) r ps) = length ps
          \<and> (\<forall>k<length ps. allocate_loop ws (i + 1) r ps ! k = ps ! k
               \<or> i + 1 \<le> k \<and> ps ! k < ws ! k \<and> allocate_loop ws (i + 1) r ps ! k = ps ! k + 1)"
        using 1(2) [OF _ refl] r ge m i by simp
      then show ?thesis unfolding eq by auto
    qed
  qed
qed

text \<open>The shares rounded down leave less than one paisa per line that has room.\<close>

lemma remainder_fits:
  assumes "\<forall>w\<in>set ws. 0 \<le> w" "0 < amount" "amount \<le> sum_list ws"
  shows "0 \<le> amount - sum_list (map (\<lambda>w. w * amount div sum_list ws) ws)
    \<and> amount - sum_list (map (\<lambda>w. w * amount div sum_list ws) ws) \<le> int (card (room ws 0 (map (\<lambda>w. w * amount div sum_list ws) ws)))"
proof -
  let ?s = "sum_list ws" and ?f = "\<lambda>w. w * amount div sum_list ws"
  have s: "0 < ?s" using assms by linarith
  have "?s * sum_list (map ?f us) + sum_list (map (\<lambda>w. w * amount mod ?s) us) = sum_list us * amount" for us
    by (induction us) (simp_all add: distrib_left distrib_right mult.commute)
  then have eq: "?s * (amount - sum_list (map ?f ws)) = sum_list (map (\<lambda>w. w * amount mod ?s) ws)"
    by (simp add: right_diff_distrib) (metis add_diff_cancel_left')
  have "0 \<le> sum_list (map (\<lambda>w. w * amount mod ?s) ws)" using s by (intro total_nonneg) simp
  then have lo: "0 \<le> amount - sum_list (map ?f ws)" using eq s by (metis zero_le_mult_iff not_less)
  have each: "w * amount mod ?s \<le> (if ?f w < w then ?s else 0)" if "w \<in> set ws" for w
  proof (cases "?f w < w")
    case True
    then show ?thesis using pos_mod_bound [OF s, of "w * amount"] by simp
  next
    case False
    have "w * amount \<le> w * ?s" using assms that by (simp add: mult_left_mono)
    also have "\<dots> \<le> ?s * ?f w" using False s by (simp add: mult.commute)
    finally have "w * amount mod ?s \<le> 0" using mult_div_mod_eq [of ?s "w * amount"] by linarith
    then show ?thesis using False by simp
  qed
  have "sum_list (map (\<lambda>w. w * amount mod ?s) ws) \<le> sum_list (map (\<lambda>w. if ?f w < w then ?s else 0) ws)"
    using each by (intro sum_list_mono) auto
  also have "\<dots> = ?s * int (length (filter (\<lambda>w. ?f w < w) ws))"
  proof -
    have "sum_list (map (\<lambda>w. if ?f w < w then c else 0) us) = c * int (length (filter (\<lambda>w. ?f w < w) us))" for c us
      by (induction us) (simp_all add: distrib_left)
    then show ?thesis .
  qed
  also have "length (filter (\<lambda>w. ?f w < w) ws) = card (room ws 0 (map ?f ws))"
  proof -
    have "room ws 0 (map ?f ws) = {k. k < length ws \<and> ?f (ws ! k) < ws ! k}" by (auto simp: room_def)
    then show ?thesis by (simp add: length_filter_conv_card)
  qed
  finally have "?s * (amount - sum_list (map ?f ws)) \<le> ?s * int (card (room ws 0 (map ?f ws)))" by (simp only: eq)
  then show ?thesis using lo s by (simp add: mult_le_cancel_left_pos)
qed

lemma allocate_exact:
  assumes "\<forall>w\<in>set weights. 0 \<le> w" "0 \<le> amount" "amount \<le> sum_list weights"
  shows "sum_list (allocateProportionally weights amount) = amount \<and> length (allocateProportionally weights amount) = length weights
    \<and> (\<forall>k<length weights. let part = allocateProportionally weights amount ! k; share = weights ! k * amount in
         0 \<le> part \<and> part \<le> weights ! k \<and> \<bar>part * sum_list weights - share\<bar> \<le> sum_list weights)"
proof (cases "amount = 0")
  case True
  then show ?thesis using assms sum_list_nonneg [of weights] by (simp add: allocateProportionally_def Let_def)
next
  case False
  then have pos: "0 < amount" using assms by simp
  let ?s = "sum_list weights" and ?parts = "map (\<lambda>w. w * amount div sum_list weights) weights"
  let ?r = "amount - sum_list ?parts"
  let ?x = "allocate_loop weights 0 ?r ?parts"
  have s: "0 < ?s" using pos assms by linarith
  have alloc: "allocateProportionally weights amount = ?x" using s pos by (simp add: allocateProportionally_def Let_def)
  note fit = remainder_fits [OF assms(1) pos assms(3)]
  have x: "sum_list ?x = sum_list ?parts + ?r \<and> length ?x = length ?parts
    \<and> (\<forall>k<length ?parts. ?x ! k = ?parts ! k \<or> 0 \<le> k \<and> ?parts ! k < weights ! k \<and> ?x ! k = ?parts ! k + 1)"
    by (rule allocate_loop_spends) (use fit in auto)
  have "0 \<le> ?x ! k \<and> ?x ! k \<le> weights ! k \<and> \<bar>?x ! k * ?s - weights ! k * amount\<bar> \<le> ?s" if k: "k < length weights" for k
  proof -
    have w: "0 \<le> weights ! k" using assms(1) k by simp
    let ?q = "weights ! k * amount div ?s"
    have q: "0 \<le> ?q" using w pos s by (simp add: pos_imp_zdiv_nonneg_iff)
    have "?q * ?s \<le> weights ! k * amount" "weights ! k * amount < ?q * ?s + ?s"
      using s div_mult_mod_eq [of "weights ! k * amount" ?s] pos_mod_sign [OF s, of "weights ! k * amount"] pos_mod_bound [OF s, of "weights ! k * amount"]
      by linarith+
    moreover have "?q \<le> weights ! k"
    proof -
      have "weights ! k * amount \<le> weights ! k * ?s" using w assms(3) by (simp add: mult_left_mono)
      then have "?q \<le> weights ! k * ?s div ?s" by (rule zdiv_mono1 [OF _ s])
      then show ?thesis using s by simp
    qed
    moreover have "?x ! k = ?q \<or> ?q < weights ! k \<and> ?x ! k = ?q + 1" using x k by auto
    ultimately show ?thesis using q s by (auto simp: distrib_right abs_if)
  qed
  then show ?thesis using x by (simp add: alloc Let_def)
qed

text \<open>C22: a discount is split exactly. The loop always ends with nothing left, in its first round: the parts sum up to the
  discount, no part exceeds its line or is negative, and each is its exact proportional share rounded down or up.\<close>

theorem discount_is_split_exactly:
  assumes "\<forall>w\<in>set weights. 0 \<le> w" "0 \<le> amount" "amount \<le> sum_list weights"
  shows "sum_list (allocateProportionally weights amount) = amount \<and> length (allocateProportionally weights amount) = length weights
    \<and> (\<forall>k<length weights. let part = allocateProportionally weights amount ! k; share = weights ! k * amount in
         0 \<le> part \<and> part \<le> weights ! k \<and> \<bar>part * sum_list weights - share\<bar> \<le> sum_list weights)"
  by (rule allocate_exact [OF assms])

lemma discount_is_split_exactly_witness:
  "allocateProportionally [100, 100, 100] 100 = [34, 33, 33] \<and> sum_list (allocateProportionally [100, 100, 100] 100) = 100"
proof -
  have "allocateProportionally [100, 100, 100] 100 = [34, 33, 33]" by code_simp
  then show ?thesis using discount_is_split_exactly [of "[100, 100, 100]" 100] by simp
qed

lemma invoice_adds_up_witness:
  "\<exists>t. computeInvoiceTotals [\<lparr>il_description = ''Haircut'', il_unitPrice = 20000, il_quantity = 1, il_discount = 2000\<rparr>]
       \<lparr>tx_enabled = True, tx_rateBps = Some 1800, tx_mode = EXCLUSIVE\<rparr> = Inr t
     \<and> to_total t = 21240 \<and> to_total t = sum_list (to_lines t) + to_tax t"
proof -
  let ?ls = "[\<lparr>il_description = ''Haircut'', il_unitPrice = 20000, il_quantity = 1, il_discount = 2000\<rparr>] :: invoice_line list"
  let ?tax = "\<lparr>tx_enabled = True, tx_rateBps = Some 1800, tx_mode = EXCLUSIVE\<rparr> :: tax_config"
  have "map_sum (\<lambda>_. ()) to_total (computeInvoiceTotals ?ls ?tax) = Inr 21240" by code_simp
  then obtain t where t: "computeInvoiceTotals ?ls ?tax = Inr t" "to_total t = 21240" by (cases "computeInvoiceTotals ?ls ?tax") auto
  from invoice_adds_up [OF t(1)] show ?thesis using t by simp
qed

end
