(* ===== verification/Invoices.thy ===== *)
theory Invoices
  imports Bookings Invoice_Math
begin

text \<open>
  Invoices and the payments a shop records (\<^verbatim>\<open>owner-ops/invoices.service.ts\<close>): the billing profile with the counter of
  the shop's invoices, issuing an invoice for a completed visit, payments and refunds, voiding. \<open>app\<close> is the database of
  bookings and visits, which is only read; \<open>pre\<close> is what the reads before the transaction saw of the tables of this
  service, \<open>s\<close> what the transaction runs on (it locks the profile, or the invoice). The indexes and checks of the
  migration are guards of the inserts; its triggers refuse what no operation here does. Listings, the ledger view
  and the printed document are left out.
\<close>

section \<open>Rows\<close>

datatype visit_source = OF_BOOKING id | OF_ENTRY id
datatype invoice_status = I_ISSUED | I_VOID
datatype payment_kind = KIND_PAYMENT | KIND_REFUND
datatype payment_method = M_CASH | M_UPI | M_CARD | M_OTHER

datatype bill_error =
    INVOICE_NOT_FOUND | BILLING_PROFILE_REQUIRED | BILLING_TAX_NOT_CONFIGURED | INVOICE_SOURCE_NOT_BILLABLE
  | INVOICE_VOID | INVOICE_OVERPAYMENT | INVOICE_REFUND_EXCEEDS_PAID
  | BILL_UNIQUE_VIOLATION | BILL_CHECK_VIOLATION | BILL_RECORD_NOT_FOUND | BILL_ACCESS app_error | BILL_MATH invoice_math_error

record billing_profile =
  bp_salon :: id
  bp_legalName :: "string option"
  bp_address :: "string option"
  bp_phone :: "string option"
  bp_email :: "string option"
  bp_gstin :: "string option"
  bp_taxEnabled :: bool
  bp_taxLabel :: string
  bp_taxRateBps :: "int option"
  bp_taxMode :: tax_mode
  bp_prefix :: string
  bp_nextSequence :: nat

record invoice_row_line =
  rl_service :: "id option"
  rl_description :: string
  rl_qty :: int
  rl_unitPrice :: paise
  rl_discount :: paise
  rl_lineTotal :: paise

record invoice =
  bl_id :: id
  bl_salon :: id
  bl_sequence :: nat
  bl_number :: string
  bl_source :: visit_source
  bl_customer :: "id option"
  bl_customerName :: "string option"
  bl_customerPhone :: "string option"
  bl_staffName :: "string option"
  bl_currency :: string
  bl_subtotal :: paise
  bl_discountTotal :: paise
  bl_taxTotal :: paise
  bl_total :: paise
  bl_taxLabel :: "string option"
  bl_taxRateBps :: "int option"
  bl_taxMode :: "tax_mode option"
  bl_sellerLegalName :: string
  bl_sellerGstin :: "string option"
  bl_sellerAddress :: "string option"
  bl_sellerPhone :: "string option"
  bl_sellerEmail :: "string option"
  bl_serviceDate :: ms
  bl_status :: invoice_status
  bl_issuedBy :: id
  bl_key :: "string option"
  bl_voidedBy :: "id option"
  bl_voidReason :: "string option"
  bl_lines :: "invoice_row_line list"

record invoice_payment =
  py_id :: id
  py_invoice :: id
  py_salon :: id
  py_kind :: payment_kind
  py_method :: payment_method
  py_amount :: paise
  py_reference :: "string option"
  py_note :: "string option"
  py_by :: id
  py_key :: "string option"

record bill_db =
  bd_next :: id
  bd_profiles :: "billing_profile list"
  bd_invoices :: "invoice list"
  bd_payments :: "invoice_payment list"
  bd_audit :: "event list"

definition find_profile :: "id \<Rightarrow> bill_db \<Rightarrow> billing_profile option" where
  "find_profile salonId s = find (\<lambda>p. bp_salon p = salonId) (bd_profiles s)"

definition find_invoice :: "id \<Rightarrow> id \<Rightarrow> bill_db \<Rightarrow> invoice option" where
  "find_invoice salonId invoiceId s = find (\<lambda>b. bl_id b = invoiceId \<and> bl_salon b = salonId) (bd_invoices s)"

definition bill_audit :: "id \<Rightarrow> string \<Rightarrow> id \<Rightarrow> bill_db \<Rightarrow> bill_db" where
  "bill_audit actor action salonId s = s\<lparr>bd_audit := bd_audit s @ [Audit (Some actor) action salonId]\<rparr>"

definition bill_access :: "app_error + 'a \<Rightarrow> bill_error + 'a" where
  "bill_access m = (case m of Inl err \<Rightarrow> Inl (BILL_ACCESS err) | Inr x \<Rightarrow> Inr x)"

lemma bill_access_Inr [success_simps]: "bill_access m = Inr y \<longleftrightarrow> m = Inr y"
  by (auto simp: bill_access_def split: sum.splits)

section \<open>Billing profile\<close>

record profile_input =
  pf_legalName :: string
  pf_address :: "string option"
  pf_phone :: "string option"
  pf_email :: "string option"
  pf_gstin :: "string option"
  pf_taxEnabled :: bool
  pf_taxLabel :: string
  pf_taxRatePercent :: "rat option"
  pf_taxMode :: tax_mode
  pf_prefix :: string

definition is_upper :: "char \<Rightarrow> bool" where
  "is_upper c \<longleftrightarrow> 65 \<le> (of_char c :: nat) \<and> (of_char c :: nat) \<le> 90"

definition gstin_pattern :: "string \<Rightarrow> bool" where
  "gstin_pattern g \<longleftrightarrow> length g = 15
     \<and> list_all (\<lambda>(i, c). if i \<in> {0, 1, 7, 8, 9, 10} then is_digit c
          else if i \<in> {2, 3, 4, 5, 6, 11} then is_upper c
          else if i = 12 then is_upper c \<or> is_digit c \<and> c \<noteq> CHR ''0''
          else if i = 13 then c = CHR ''Z''
          else is_upper c \<or> is_digit c) (zip [0..<15 :: nat] g)"

definition profile_checks :: "billing_profile \<Rightarrow> bool" where
  "profile_checks p \<longleftrightarrow> (case bp_taxRateBps p of None \<Rightarrow> True | Some r \<Rightarrow> 0 \<le> r \<and> r \<le> 10000)
     \<and> (bp_taxEnabled p \<longrightarrow> bp_taxRateBps p \<noteq> None) \<and> (case bp_gstin p of None \<Rightarrow> True | Some g \<Rightarrow> gstin_pattern g)
     \<and> 1 \<le> bp_nextSequence p"

definition profile_data :: "profile_input \<Rightarrow> billing_profile \<Rightarrow> billing_profile" where
  "profile_data i p = p\<lparr>bp_legalName := Some (pf_legalName i), bp_address := pf_address i, bp_phone := pf_phone i,
     bp_email := (if pf_email i = Some [] then None else pf_email i), bp_gstin := pf_gstin i, bp_taxEnabled := pf_taxEnabled i,
     bp_taxLabel := pf_taxLabel i, bp_taxRateBps := map_option (\<lambda>r. \<lfloor>r * 100 + 1 / 2\<rfloor>) (pf_taxRatePercent i),
     bp_taxMode := pf_taxMode i, bp_prefix := pf_prefix i\<rparr>"

definition new_profile :: "id \<Rightarrow> billing_profile" where
  "new_profile salonId = \<lparr>bp_salon = salonId, bp_legalName = None, bp_address = None, bp_phone = None, bp_email = None,
     bp_gstin = None, bp_taxEnabled = False, bp_taxLabel = ''GST'', bp_taxRateBps = None, bp_taxMode = EXCLUSIVE, bp_prefix = ''INV'',
     bp_nextSequence = 1\<rparr>"

definition saveBillingProfile :: "db \<Rightarrow> id \<Rightarrow> id \<Rightarrow> profile_input \<Rightarrow> bill_db \<Rightarrow> bill_error + bill_db" where
  "saveBillingProfile app userId salonId input s =
     bindE (bill_access (assertOwnerOrAdminAccess app userId salonId)) (\<lambda>_.
       let row = profile_data input (nvl (find_profile salonId s) (new_profile salonId))
       in guardE (profile_checks row) BILL_CHECK_VIOLATION
         (Inr (bill_audit userId ''BILLING_PROFILE_SAVED'' salonId
            (if exists_where (\<lambda>p. bp_salon p = salonId) (bd_profiles s)
             then s\<lparr>bd_profiles := upd_where (\<lambda>p. bp_salon p = salonId) (profile_data input) (bd_profiles s)\<rparr>
             else s\<lparr>bd_profiles := bd_profiles s @ [row]\<rparr>))))"

section \<open>What is invoiced\<close>

record bill_source =
  so_source :: visit_source
  so_customer :: "id option"
  so_customerName :: "string option"
  so_customerPhone :: "string option"
  so_staffName :: "string option"
  so_serviceDate :: ms
  so_lines :: "invoice_line list"
  so_services :: "id list"

text \<open>The completed session of an entry that ended last; a descending order puts a missing instant first.\<close>

definition ended_later :: "session \<Rightarrow> session \<Rightarrow> bool" where
  "ended_later y x = (case ss_endedAt x of None \<Rightarrow> False | Some b \<Rightarrow> (case ss_endedAt y of None \<Rightarrow> True | Some a \<Rightarrow> a > b))"

definition last_completed :: "id \<Rightarrow> db \<Rightarrow> session option" where
  "last_completed entryId app =
     (case filter (\<lambda>x. ss_entry x = entryId \<and> ss_status x = S_COMPLETED) (db_sessions app) of
        [] \<Rightarrow> None
      | x # xs \<Rightarrow> Some (foldl (\<lambda>best y. if ended_later y best then y else best) x xs))"

definition staff_name :: "db \<Rightarrow> id option \<Rightarrow> string option" where
  "staff_name app i = (case i of None \<Rightarrow> None | Some k \<Rightarrow> map_option st_displayName (find_staff app k))"

definition customer_phone :: "db \<Rightarrow> id option \<Rightarrow> string option" where
  "customer_phone app i = (case i of None \<Rightarrow> None | Some k \<Rightarrow> (case find_user app k of None \<Rightarrow> None | Some u \<Rightarrow> us_phone u))"

definition booking_reduction :: "booking_item list \<Rightarrow> booking \<Rightarrow> paise" where
  "booking_reduction services b = min (sum_list (map bi_price services)) (bk_discountAmount b + nvl (bk_creditsRedeemed b) 0)"

definition loadBookingSource :: "db \<Rightarrow> id \<Rightarrow> id \<Rightarrow> bill_error + bill_source" where
  "loadBookingSource app salonId bookingId =
     theE (find (\<lambda>b. bk_id b = bookingId \<and> bk_salon b = salonId) (db_bookings app)) INVOICE_NOT_FOUND (\<lambda>b.
     guardE (bk_status b = B_COMPLETED) INVOICE_SOURCE_NOT_BILLABLE
    (let services = resolveEffectiveBookingServices app b;
         unit = map bi_price services;
         discounts = allocateProportionally unit (booking_reduction services b);
         e = find (\<lambda>e. qe_booking e = Some bookingId) (db_entries app);
         performer = (case e of None \<Rightarrow> None | Some e \<Rightarrow> (case last_completed (qe_id e) app of None \<Rightarrow> None | Some x \<Rightarrow> staff_name app (Some (ss_staff x))))
     in Inr \<lparr>so_source = OF_BOOKING bookingId, so_customer = bk_customer b, so_customerName = bk_guestName b,
             so_customerPhone = orElse (bk_guestPhone b) (customer_phone app (bk_customer b)),
             so_staffName = orElse performer (orElse (case e of None \<Rightarrow> None | Some e \<Rightarrow> staff_name app (qe_staff e)) (staff_name app (bk_preferredStaff b))),
             so_serviceDate = bk_slotStart b,
             so_lines = map (\<lambda>(v, d). \<lparr>il_description = bi_name v, il_unitPrice = bi_price v, il_quantity = 1, il_discount = d\<rparr>) (zip services discounts),
             so_services = map bi_service services\<rparr>))"

definition loadQueueSource :: "ms \<Rightarrow> db \<Rightarrow> id \<Rightarrow> id \<Rightarrow> bill_error + bill_source" where
  "loadQueueSource now app salonId queueEntryId =
     theE (find (\<lambda>e. qe_id e = queueEntryId \<and> qe_salon e = salonId) (db_entries app)) INVOICE_NOT_FOUND (\<lambda>e.
     guardE (qe_booking e = None) INVOICE_SOURCE_NOT_BILLABLE
    (guardE (qe_status e = Q_COMPLETED) INVOICE_SOURCE_NOT_BILLABLE
    (theE (last_completed queueEntryId app) INVOICE_SOURCE_NOT_BILLABLE (\<lambda>x.
     theE (find_service app (ss_service x)) BILL_RECORD_NOT_FOUND (\<lambda>v.
       Inr \<lparr>so_source = OF_ENTRY queueEntryId, so_customer = qe_customer e, so_customerName = qe_contactName e,
            so_customerPhone = orElse (qe_contactPhone e) (customer_phone app (qe_customer e)),
            so_staffName = staff_name app (Some (ss_staff x)),
            so_serviceDate = nvl (orElse (qe_completedAt e) (ss_endedAt x)) now,
            so_lines = [\<lparr>il_description = sv_name v, il_unitPrice = sv_price v, il_quantity = 1, il_discount = 0\<rparr>],
            so_services = [sv_id v]\<rparr>)))))"

section \<open>Issuing\<close>

definition findIssuedForSource :: "id \<Rightarrow> visit_source \<Rightarrow> bill_db \<Rightarrow> invoice option" where
  "findIssuedForSource salonId src s =
     find (\<lambda>b. bl_salon b = salonId \<and> bl_status b = I_ISSUED \<and> bl_source b = src) (bd_invoices s)"

definition insert_invoice :: "invoice \<Rightarrow> bill_db \<Rightarrow> bill_error + (bill_db \<times> invoice)" where
  "insert_invoice b s =
     (let row = b\<lparr>bl_id := bd_next s, bl_status := I_ISSUED, bl_voidedBy := None, bl_voidReason := None\<rparr> in
      guardE (0 \<le> bl_subtotal b \<and> 0 \<le> bl_discountTotal b \<and> 0 \<le> bl_taxTotal b \<and> 0 \<le> bl_total b) BILL_CHECK_VIOLATION
     (guardE (\<not> exists_where (\<lambda>r. bl_salon r = bl_salon b \<and> (bl_sequence r = bl_sequence b \<or> bl_number r = bl_number b)) (bd_invoices s))
        BILL_UNIQUE_VIOLATION
     (guardE (\<not> exists_where (\<lambda>r. bl_key b \<noteq> None \<and> bl_key r = bl_key b) (bd_invoices s)) BILL_UNIQUE_VIOLATION
     (guardE (\<not> exists_where (\<lambda>r. bl_source r = bl_source b \<and> bl_status r = I_ISSUED) (bd_invoices s)) BILL_UNIQUE_VIOLATION
     (guardE (list_all (\<lambda>l. 0 < rl_qty l \<and> 0 \<le> rl_unitPrice l \<and> 0 \<le> rl_discount l \<and> 0 \<le> rl_lineTotal l) (bl_lines b)) BILL_CHECK_VIOLATION
       (Inr (s\<lparr>bd_invoices := bd_invoices s @ [row], bd_next := bd_next s + 1\<rparr>, row)))))))"

definition invoice_lines :: "bill_source \<Rightarrow> invoice_totals \<Rightarrow> invoice_row_line list" where
  "invoice_lines src t =
     map (\<lambda>(i, l). \<lparr>rl_service = (if i < length (so_services src) then Some (so_services src ! i) else None), rl_description = il_description l,
            rl_qty = il_quantity l, rl_unitPrice = il_unitPrice l, rl_discount = il_discount l, rl_lineTotal = to_lines t ! i\<rparr>)
       (zip [0..<length (so_lines src)] (so_lines src))"

definition invoice_row :: "id \<Rightarrow> id \<Rightarrow> billing_profile \<Rightarrow> string \<Rightarrow> nat \<Rightarrow> string \<Rightarrow> bill_source \<Rightarrow> invoice_totals \<Rightarrow> string option \<Rightarrow> invoice" where
  "invoice_row userId salonId p prefix sequence currency src t key =
     \<lparr>bl_id = 0, bl_salon = salonId, bl_sequence = sequence, bl_number = formatInvoiceNumber prefix sequence, bl_source = so_source src,
      bl_customer = so_customer src, bl_customerName = so_customerName src, bl_customerPhone = so_customerPhone src,
      bl_staffName = so_staffName src, bl_currency = currency, bl_subtotal = to_subtotal t, bl_discountTotal = to_discount t,
      bl_taxTotal = to_tax t, bl_total = to_total t,
      bl_taxLabel = (if bp_taxEnabled p then Some (bp_taxLabel p) else None),
      bl_taxRateBps = (if bp_taxEnabled p then bp_taxRateBps p else None),
      bl_taxMode = (if bp_taxEnabled p then Some (bp_taxMode p) else None),
      bl_sellerLegalName = nvl (bp_legalName p) [], bl_sellerGstin = bp_gstin p, bl_sellerAddress = bp_address p,
      bl_sellerPhone = bp_phone p, bl_sellerEmail = bp_email p, bl_serviceDate = so_serviceDate src, bl_status = I_ISSUED,
      bl_issuedBy = userId, bl_key = key, bl_voidedBy = None, bl_voidReason = None, bl_lines = invoice_lines src t\<rparr>"

text \<open>The counter and the invoice are written together.\<close>

definition issue_tx :: "id \<Rightarrow> id \<Rightarrow> billing_profile \<Rightarrow> string \<Rightarrow> bill_source \<Rightarrow> invoice_totals \<Rightarrow> string option \<Rightarrow> bill_db
    \<Rightarrow> bill_error + (bill_db \<times> invoice)" where
  "issue_tx userId salonId p currency src t key s =
     theE (find_profile salonId s) BILL_RECORD_NOT_FOUND (\<lambda>bumped.
       bindE (insert_invoice (invoice_row userId salonId p (bp_prefix bumped) (bp_nextSequence bumped) currency src t key)
                (s\<lparr>bd_profiles := upd_where (\<lambda>q. bp_salon q = salonId) (\<lambda>q. q\<lparr>bp_nextSequence := bp_nextSequence q + 1\<rparr>) (bd_profiles s)\<rparr>))
         (\<lambda>(s1, b). Inr (bill_audit userId ''INVOICE_ISSUED'' salonId s1, b)))"

definition load_source :: "ms \<Rightarrow> db \<Rightarrow> id \<Rightarrow> visit_source \<Rightarrow> bill_error + bill_source" where
  "load_source now app salonId src =
     (case src of OF_BOOKING i \<Rightarrow> loadBookingSource app salonId i | OF_ENTRY i \<Rightarrow> loadQueueSource now app salonId i)"

definition salon_currency :: "salon \<Rightarrow> string option" where
  "salon_currency salon = orElse (sa_currency salon) (if sa_countryCode salon = Some ''IN'' then Some ''INR'' else None)"

definition profile_tax :: "billing_profile \<Rightarrow> tax_config" where
  "profile_tax p = \<lparr>tx_enabled = bp_taxEnabled p, tx_rateBps = bp_taxRateBps p, tx_mode = bp_taxMode p\<rparr>"

definition issueInvoice :: "ms \<Rightarrow> db \<Rightarrow> id \<Rightarrow> id \<Rightarrow> visit_source \<Rightarrow> string option \<Rightarrow> bill_db \<Rightarrow> bill_db
    \<Rightarrow> bill_error + (bill_db \<times> invoice \<times> bool)" where
  "issueInvoice now app userId salonId src key pre s =
     bindE (bill_access (assertAccessOrAdminAccess app userId salonId)) (\<lambda>_.
     case findIssuedForSource salonId src pre of
       Some b \<Rightarrow> Inr (s, b, False)
     | None \<Rightarrow>
        theE (find_salon app salonId) INVOICE_NOT_FOUND (\<lambda>salon.
        theE (salon_currency salon) BILLING_PROFILE_REQUIRED (\<lambda>currency.
        theE (find_profile salonId pre) BILLING_PROFILE_REQUIRED (\<lambda>p.
        guardE (nvl (bp_legalName p) [] \<noteq> []) BILLING_PROFILE_REQUIRED
       (guardE (\<not> (bp_taxEnabled p \<and> bp_taxRateBps p = None)) BILLING_TAX_NOT_CONFIGURED
       (bindE (load_source now app salonId src) (\<lambda>source.
        bindE (case computeInvoiceTotals (so_lines source) (profile_tax p) of Inl e \<Rightarrow> Inl (BILL_MATH e) | Inr t \<Rightarrow> Inr t) (\<lambda>totals.
          case issue_tx userId salonId p currency source totals key s of
            Inr (t, b) \<Rightarrow> Inr (t, b, True)
          | Inl err \<Rightarrow> if err = BILL_UNIQUE_VIOLATION
                       then (case findIssuedForSource salonId src s of Some b \<Rightarrow> Inr (s, b, False) | None \<Rightarrow> Inl err)
                       else Inl err))))))))"

section \<open>Payments and voiding\<close>

definition paid_sum :: "payment_kind \<Rightarrow> id \<Rightarrow> invoice_payment list \<Rightarrow> paise" where
  "paid_sum k invoiceId ps = sum_list (map py_amount (filter (\<lambda>p. py_invoice p = invoiceId \<and> py_kind p = k) ps))"

definition net_paid :: "id \<Rightarrow> invoice_payment list \<Rightarrow> paise" where
  "net_paid i ps = paid_sum KIND_PAYMENT i ps - paid_sum KIND_REFUND i ps"

record payment_input =
  pm_kind :: payment_kind
  pm_method :: payment_method
  pm_amount :: paise
  pm_reference :: "string option"
  pm_note :: "string option"

definition insert_payment :: "invoice_payment \<Rightarrow> bill_db \<Rightarrow> bill_error + bill_db" where
  "insert_payment p s =
     guardE (0 < py_amount p) BILL_CHECK_VIOLATION
    (guardE (\<not> exists_where (\<lambda>r. py_key p \<noteq> None \<and> py_key r = py_key p) (bd_payments s)) BILL_UNIQUE_VIOLATION
      (Inr (s\<lparr>bd_payments := bd_payments s @ [p\<lparr>py_id := bd_next s\<rparr>], bd_next := bd_next s + 1\<rparr>)))"

definition payment_tx :: "id \<Rightarrow> id \<Rightarrow> id \<Rightarrow> payment_input \<Rightarrow> string option \<Rightarrow> bill_db \<Rightarrow> bill_error + bill_db" where
  "payment_tx userId salonId invoiceId input key s =
     theE (find_invoice salonId invoiceId s) INVOICE_NOT_FOUND (\<lambda>b.
     guardE (bl_status b \<noteq> I_VOID) INVOICE_VOID
    (guardE (if pm_kind input = KIND_PAYMENT then \<not> net_paid invoiceId (bd_payments s) + pm_amount input > bl_total b else True) INVOICE_OVERPAYMENT
    (guardE (if pm_kind input = KIND_PAYMENT then True else \<not> pm_amount input > net_paid invoiceId (bd_payments s)) INVOICE_REFUND_EXCEEDS_PAID
    (bindE (insert_payment \<lparr>py_id = 0, py_invoice = invoiceId, py_salon = salonId, py_kind = pm_kind input, py_method = pm_method input,
              py_amount = pm_amount input, py_reference = pm_reference input, py_note = pm_note input, py_by = userId, py_key = key\<rparr> s)
       (\<lambda>t. Inr (bill_audit userId (if pm_kind input = KIND_REFUND then ''INVOICE_REFUND_RECORDED'' else ''INVOICE_PAYMENT_RECORDED'') salonId t))))))"

definition recordPayment :: "db \<Rightarrow> id \<Rightarrow> id \<Rightarrow> id \<Rightarrow> payment_input \<Rightarrow> string option \<Rightarrow> bill_db \<Rightarrow> bill_error + bill_db" where
  "recordPayment app userId salonId invoiceId input key s =
     bindE (bill_access (if pm_kind input = KIND_REFUND then bindE (assertOwnerOrAdminAccess app userId salonId) (\<lambda>_. Inr ())
                         else bindE (assertAccessOrAdminAccess app userId salonId) (\<lambda>_. Inr ()))) (\<lambda>_.
       case payment_tx userId salonId invoiceId input key s of
         Inr t \<Rightarrow> Inr t
       | Inl err \<Rightarrow>
           if err = BILL_UNIQUE_VIOLATION \<and> nvl key [] \<noteq> []
              \<and> exists_where (\<lambda>p. py_key p = key \<and> py_invoice p = invoiceId) (bd_payments s)
           then Inr s else Inl err)"

definition voidInvoice :: "db \<Rightarrow> id \<Rightarrow> id \<Rightarrow> id \<Rightarrow> string \<Rightarrow> bill_db \<Rightarrow> bill_error + bill_db" where
  "voidInvoice app userId salonId invoiceId reason s =
     bindE (bill_access (assertOwnerOrAdminAccess app userId salonId)) (\<lambda>_.
     theE (find_invoice salonId invoiceId s) INVOICE_NOT_FOUND (\<lambda>b.
     if bl_status b = I_VOID then Inr s
     else guardE (\<not> net_paid invoiceId (bd_payments s) > 0) INVOICE_REFUND_EXCEEDS_PAID
       (Inr (bill_audit userId ''INVOICE_VOIDED'' salonId
          (s\<lparr>bd_invoices := upd_where (\<lambda>r. bl_id r = invoiceId)
               (\<lambda>r. r\<lparr>bl_status := I_VOID, bl_voidedBy := Some userId, bl_voidReason := Some reason\<rparr>) (bd_invoices s)\<rparr>)))))"

text \<open>What the summary shows.\<close>

definition balance_due :: "invoice \<Rightarrow> bill_db \<Rightarrow> paise" where
  "balance_due b s = (if bl_status b = I_VOID then 0 else max 0 (bl_total b - net_paid (bl_id b) (bd_payments s)))"

definition invoice_payment_status :: "invoice \<Rightarrow> bill_db \<Rightarrow> payment_status" where
  "invoice_payment_status b s = deriveInvoicePaymentStatus (bl_status b = I_VOID) (bl_total b)
     (paid_sum KIND_PAYMENT (bl_id b) (bd_payments s)) (paid_sum KIND_REFUND (bl_id b) (bd_payments s))"

end
