(* ===== verification/Invoice_Props.thy ===== *)
theory Invoice_Props
  imports Invoices Demo
begin

text \<open>
  What every run of the invoicing keeps: consecutive numbers, one invoice in force per visit, amounts that add up and never
  change, payments between nothing and the total. A step is a handler that may have read any tables before it wrote.
\<close>

section \<open>The invariant\<close>

definition next_number :: "id \<Rightarrow> bill_db \<Rightarrow> nat" where
  "next_number salonId s = (case find_profile salonId s of None \<Rightarrow> 1 | Some p \<Rightarrow> bp_nextSequence p)"

definition adds_up :: "invoice \<Rightarrow> bool" where
  "adds_up b \<longleftrightarrow> 0 \<le> bl_subtotal b \<and> 0 \<le> bl_discountTotal b \<and> 0 \<le> bl_taxTotal b
     \<and> bl_subtotal b - bl_discountTotal b = sum_list (map rl_lineTotal (bl_lines b))
     \<and> bl_total b = sum_list (map rl_lineTotal (bl_lines b)) + (if bl_taxMode b = Some EXCLUSIVE then bl_taxTotal b else 0)
     \<and> (\<forall>l\<in>set (bl_lines b). rl_lineTotal l = rl_unitPrice l * rl_qty l - rl_discount l \<and> 0 \<le> rl_lineTotal l)"

lemma adds_up_id: "adds_up (b\<lparr>bl_id := i\<rparr>) = adds_up b"
  by (simp add: adds_up_def)

text \<open>The columns the triggers freeze, and those no handler writes after the insertion.\<close>

definition frozen :: "invoice \<Rightarrow> invoice" where
  "frozen b = b\<lparr>bl_status := I_ISSUED, bl_voidedBy := None, bl_voidReason := None\<rparr>"

definition bill_inv :: "bill_db \<Rightarrow> bool" where
  "bill_inv s \<longleftrightarrow> distinct (map bl_id (bd_invoices s)) \<and> list_all (\<lambda>b. bl_id b < bd_next s) (bd_invoices s)
     \<and> (\<forall>sa. 1 \<le> next_number sa s \<and> map bl_sequence (filter (\<lambda>b. bl_salon b = sa) (bd_invoices s)) = [1..<next_number sa s])
     \<and> uniq_on bl_source (\<lambda>b. bl_status b = I_ISSUED) (bd_invoices s)
     \<and> uniq_on (\<lambda>b. (bl_salon b, bl_number b)) (\<lambda>_. True) (bd_invoices s)
     \<and> list_all (\<lambda>b. adds_up b \<and> 0 \<le> net_paid (bl_id b) (bd_payments s) \<and> net_paid (bl_id b) (bd_payments s) \<le> bl_total b
          \<and> (bl_status b = I_VOID \<longrightarrow> net_paid (bl_id b) (bd_payments s) = 0)) (bd_invoices s)
     \<and> list_all (\<lambda>p. 0 < py_amount p \<and> exists_where (\<lambda>b. bl_id b = py_invoice p \<and> bl_salon b = py_salon p) (bd_invoices s)) (bd_payments s)
     \<and> uniq_on py_key (\<lambda>p. py_key p \<noteq> None) (bd_payments s)"

definition no_bills :: bill_db where
  "no_bills = \<lparr>bd_next = 1, bd_profiles = [], bd_invoices = [], bd_payments = [], bd_audit = []\<rparr>"

lemma no_bills_inv: "bill_inv no_bills"
  by (simp add: bill_inv_def no_bills_def next_number_def find_profile_def)

lemma bill_audit_simps [simp]:
  "bd_next (bill_audit u a i s) = bd_next s" "bd_profiles (bill_audit u a i s) = bd_profiles s"
  "bd_invoices (bill_audit u a i s) = bd_invoices s" "bd_payments (bill_audit u a i s) = bd_payments s"
  "next_number sa (bill_audit u a i s) = next_number sa s"
  by (simp_all add: bill_audit_def next_number_def find_profile_def)

lemma bill_inv_audit [simp]: "bill_inv (bill_audit u a i s) = bill_inv s"
  by (simp add: bill_inv_def)

lemma find_upd_key:
  assumes "\<And>p. k (f p) = k p"
  shows "find (\<lambda>p. k p = i) (upd_where (\<lambda>p. k p = j) f ps) = map_option (\<lambda>p. if i = j then f p else p) (find (\<lambda>p. k p = i) ps)"
  using assms by (induction ps) auto

lemma find_snoc_key: "find q (ps @ [p]) = (case find q ps of None \<Rightarrow> if q p then Some p else None | Some x \<Rightarrow> Some x)"
  by (induction ps) auto

section \<open>Each handler keeps it\<close>

lemma profile_data_keeps [simp]: "bp_salon (profile_data i p) = bp_salon p" "bp_nextSequence (profile_data i p) = bp_nextSequence p"
  by (simp_all add: profile_data_def)

lemma save_inv:
  assumes "saveBillingProfile app u sa input s = Inr t" "bill_inv s"
  shows "bill_inv t \<and> bd_invoices t = bd_invoices s \<and> bd_payments t = bd_payments s"
proof -
  let ?row = "profile_data input (nvl (find_profile sa s) (new_profile sa))"
  obtain ps where t: "t = bill_audit u ''BILLING_PROFILE_SAVED'' sa (s\<lparr>bd_profiles := ps\<rparr>)"
    and ps: "ps = (if exists_where (\<lambda>p. bp_salon p = sa) (bd_profiles s)
      then upd_where (\<lambda>p. bp_salon p = sa) (profile_data input) (bd_profiles s) else bd_profiles s @ [?row])"
    using assms(1) by (auto simp: saveBillingProfile_def success_simps Let_def split: if_splits)
  have "next_number i (s\<lparr>bd_profiles := ps\<rparr>) = next_number i s" for i
  proof (cases "exists_where (\<lambda>p. bp_salon p = sa) (bd_profiles s)")
    case True
    then show ?thesis by (simp add: next_number_def find_profile_def ps find_upd_key split: option.splits)
  next
    case False
    then have "find (\<lambda>p. bp_salon p = sa) (bd_profiles s) = None" by (simp add: exists_where_def)
    then show ?thesis using False
      by (auto simp: next_number_def find_profile_def ps find_snoc_key new_profile_def split: option.splits)
  qed
  then show ?thesis using assms(2) by (simp add: t bill_inv_def)
qed

lemma net_paid_snoc [simp]:
  "net_paid i (ps @ [p]) = net_paid i ps + (if py_invoice p = i then (if py_kind p = KIND_PAYMENT then py_amount p else - py_amount p) else 0)"
  by (cases "py_kind p") (auto simp: net_paid_def paid_sum_def)

lemma net_paid_none: "(\<And>p. p \<in> set ps \<Longrightarrow> py_invoice p \<noteq> i) \<Longrightarrow> net_paid i ps = 0"
proof (induction ps)
  case (Cons p ps)
  have "net_paid i (p # ps) = net_paid i ps" using Cons.prems [of p] by (simp add: net_paid_def paid_sum_def)
  then show ?case using Cons by simp
qed (simp add: net_paid_def paid_sum_def)

lemma payment_tx_inv:
  assumes "payment_tx u sa i input key s = Inr t" "bill_inv s"
  shows "bill_inv t \<and> bd_invoices t = bd_invoices s \<and> (\<exists>p. bd_payments t = bd_payments s @ [p] \<and> py_invoice p = i)"
proof -
  obtain b where b: "find_invoice sa i s = Some b" and st: "bl_status b \<noteq> I_VOID" and pos: "0 < pm_amount input"
    and lim: "if pm_kind input = KIND_PAYMENT then net_paid i (bd_payments s) + pm_amount input \<le> bl_total b
              else pm_amount input \<le> net_paid i (bd_payments s)"
    and key: "\<forall>r\<in>set (bd_payments s). key \<noteq> None \<longrightarrow> py_key r \<noteq> key"
    and t: "\<exists>a p. t = bill_audit u a sa (s\<lparr>bd_payments := bd_payments s @ [p], bd_next := bd_next s + 1\<rparr>) \<and> py_invoice p = i
      \<and> py_kind p = pm_kind input \<and> py_amount p = pm_amount input \<and> py_salon p = sa \<and> py_key p = key"
    using assms(1)
    by (auto simp: payment_tx_def insert_payment_def success_simps exists_where_iff not_less split: if_splits) force+
  obtain a p where t: "t = bill_audit u a sa (s\<lparr>bd_payments := bd_payments s @ [p], bd_next := bd_next s + 1\<rparr>)"
    and p: "py_invoice p = i" "py_kind p = pm_kind input" "py_amount p = pm_amount input" "py_salon p = sa" "py_key p = key"
    using t by blast
  have bm: "b \<in> set (bd_invoices s)" "bl_id b = i" "bl_salon b = sa" using b by (auto simp: find_invoice_def dest: find_SomeD)
  have only: "c = b" if "c \<in> set (bd_invoices s)" "bl_id c = i" for c
    using distinct_key_eq [of bl_id "bd_invoices s" c b] assms(2) bm that by (simp add: bill_inv_def)
  have n: "next_number j t = next_number j s" for j by (simp add: t next_number_def find_profile_def)
  have ok: "adds_up c \<and> 0 \<le> net_paid (bl_id c) (bd_payments t) \<and> net_paid (bl_id c) (bd_payments t) \<le> bl_total c
      \<and> (bl_status c = I_VOID \<longrightarrow> net_paid (bl_id c) (bd_payments t) = 0)" if c: "c \<in> set (bd_invoices s)" for c
  proof -
    have old: "adds_up c \<and> 0 \<le> net_paid (bl_id c) (bd_payments s) \<and> net_paid (bl_id c) (bd_payments s) \<le> bl_total c
      \<and> (bl_status c = I_VOID \<longrightarrow> net_paid (bl_id c) (bd_payments s) = 0)" using assms(2) c by (simp add: bill_inv_def list_all_iff)
    show ?thesis
    proof (cases "bl_id c = i")
      case True
      then have "c = b" using only c by blast
      then show ?thesis using old lim st pos p bm by (simp add: t split: if_splits)
    next
      case False
      then show ?thesis using old p by (simp add: t)
    qed
  qed
  have "uniq_on py_key (\<lambda>p. py_key p \<noteq> None) (bd_payments s @ [p])"
    using assms(2) key p by (auto simp: bill_inv_def uniq_on_snoc)
  moreover have "exists_where (\<lambda>b. bl_id b = py_invoice p \<and> bl_salon b = py_salon p) (bd_invoices s)"
    using bm p by (auto simp: exists_where_iff)
  ultimately have "bill_inv t"
    using assms(2) ok n pos p by (simp add: bill_inv_def t list_all_iff less_Suc_eq)
  then show ?thesis using p by (auto simp: t)
qed

lemma payment_inv:
  assumes "recordPayment app u sa i input key s = Inr t" "bill_inv s"
  shows "bill_inv t \<and> bd_invoices t = bd_invoices s \<and> (\<exists>ps. bd_payments t = bd_payments s @ ps)"
proof -
  have "t = s \<or> payment_tx u sa i input key s = Inr t"
    using assms(1) by (auto simp: recordPayment_def success_simps split: sum.splits if_splits)
  then show ?thesis using payment_tx_inv assms(2) by fastforce
qed

lemma void_inv:
  assumes "voidInvoice app u sa i why s = Inr t" "bill_inv s"
  shows "bill_inv t \<and> map frozen (bd_invoices t) = map frozen (bd_invoices s) \<and> bd_payments t = bd_payments s"
proof -
  let ?f = "\<lambda>r. r\<lparr>bl_status := I_VOID, bl_voidedBy := Some u, bl_voidReason := Some why\<rparr>"
  obtain b where b: "find_invoice sa i s = Some b" and
    c: "t = s \<or> net_paid i (bd_payments s) \<le> 0 \<and>
      t = bill_audit u ''INVOICE_VOIDED'' sa (s\<lparr>bd_invoices := upd_where (\<lambda>r. bl_id r = i) ?f (bd_invoices s)\<rparr>)"
    using assms(1) by (auto simp: voidInvoice_def success_simps not_less split: if_splits)
  from c show ?thesis
  proof
    assume "net_paid i (bd_payments s) \<le> 0 \<and>
      t = bill_audit u ''INVOICE_VOIDED'' sa (s\<lparr>bd_invoices := upd_where (\<lambda>r. bl_id r = i) ?f (bd_invoices s)\<rparr>)"
    then have z: "net_paid i (bd_payments s) \<le> 0"
      and t: "t = bill_audit u ''INVOICE_VOIDED'' sa (s\<lparr>bd_invoices := upd_where (\<lambda>r. bl_id r = i) ?f (bd_invoices s)\<rparr>)" by auto
    have keys: "map g (bd_invoices t) = map g (bd_invoices s)" if "\<And>r. g (?f r) = g r" for g :: "invoice \<Rightarrow> 'a"
      unfolding t by (simp add: map_upd_where that)
    have seqs: "map bl_sequence (filter (\<lambda>b. bl_salon b = j) (bd_invoices t)) = map bl_sequence (filter (\<lambda>b. bl_salon b = j) (bd_invoices s))" for j
    proof -
      have "map bl_sequence (filter (\<lambda>b. bl_salon b = j) bs) = map snd (filter (\<lambda>x. fst x = j) (map (\<lambda>b. (bl_salon b, bl_sequence b)) bs))" for bs :: "invoice list"
        by (induction bs) auto
      then show ?thesis using keys [of "\<lambda>b. (bl_salon b, bl_sequence b)"] by simp
    qed
    have n: "next_number j t = next_number j s" for j by (simp add: t next_number_def find_profile_def)
    have z0: "net_paid i (bd_payments s) = 0" if "x \<in> set (bd_invoices s)" "bl_id x = i" for x
      using assms(2) that z by (fastforce simp: bill_inv_def list_all_iff)
    have row: "adds_up x \<and> 0 \<le> net_paid (bl_id x) (bd_payments t) \<and> net_paid (bl_id x) (bd_payments t) \<le> bl_total x
        \<and> (bl_status x = I_VOID \<longrightarrow> net_paid (bl_id x) (bd_payments t) = 0)" if "x \<in> set (bd_invoices t)" for x
    proof -
      obtain r where r: "r \<in> set (bd_invoices s)" "x = (if bl_id r = i then ?f r else r)" using \<open>x \<in> set (bd_invoices t)\<close> by (auto simp: t in_upd_where)
      then have "adds_up r \<and> 0 \<le> net_paid (bl_id r) (bd_payments s) \<and> net_paid (bl_id r) (bd_payments s) \<le> bl_total r
        \<and> (bl_status r = I_VOID \<longrightarrow> net_paid (bl_id r) (bd_payments s) = 0)" using assms(2) by (simp add: bill_inv_def list_all_iff)
      moreover have "adds_up x = adds_up r" by (simp add: r(2) adds_up_def)
      ultimately show ?thesis using r(2) z0 [OF r(1)] by (simp add: t split: if_splits)
    qed
    have "uniq_on bl_source (\<lambda>b. bl_status b = I_ISSUED) (bd_invoices t)"
      unfolding t using assms(2) by (auto simp: bill_inv_def intro!: uniq_on_upd_shrink)
    moreover have "uniq_on (\<lambda>b. (bl_salon b, bl_number b)) (\<lambda>_. True) (bd_invoices t)"
      unfolding t using assms(2) by (auto simp: bill_inv_def intro!: uniq_on_upd_shrink)
    moreover have "exists_where (\<lambda>b. bl_id b = j \<and> bl_salon b = k) (bd_invoices t)
        = exists_where (\<lambda>b. bl_id b = j \<and> bl_salon b = k) (bd_invoices s)" for j k
    proof -
      have *: "exists_where (\<lambda>b. bl_id b = j \<and> bl_salon b = k) bs \<longleftrightarrow> (j, k) \<in> set (map (\<lambda>b. (bl_id b, bl_salon b)) bs)" for bs :: "invoice list"
        by (auto simp: exists_where_iff)
      have "map (\<lambda>b. (bl_id b, bl_salon b)) (bd_invoices t) = map (\<lambda>b. (bl_id b, bl_salon b)) (bd_invoices s)" by (rule keys) simp
      then show ?thesis by (simp only: *)
    qed
    moreover have "list_all (\<lambda>b. bl_id b < bd_next t) (bd_invoices t)"
      using assms(2) by (auto simp: bill_inv_def list_all_iff t in_upd_where)
    ultimately have "bill_inv t"
      using assms(2) keys [of bl_id] seqs n row unfolding bill_inv_def list_all_iff by (simp add: t)
    then show ?thesis using keys [of frozen] by (simp add: t frozen_def)
  qed (use assms(2) in simp)
qed

lemma invoice_row_adds_up:
  assumes "computeInvoiceTotals (so_lines src) (profile_tax p) = Inr tt"
  shows "adds_up (invoice_row u sa p prefix n cur src tt key)"
proof -
  note m = computed_totals [OF assms]
  obtain ts where ts: "line_totals (so_lines src) = Inr ts" "to_lines tt = ts"
    using assms by (auto simp: computeInvoiceTotals_def success_simps Let_def split: if_splits option.splits)
  have len: "length ts = length (so_lines src)" using line_totals_sum [OF ts(1)] by simp
  have each: "line_totals ls = Inr us \<Longrightarrow> i < length ls \<Longrightarrow> us ! i = il_unitPrice (ls ! i) * il_quantity (ls ! i) - il_discount (ls ! i) \<and> il_discount (ls ! i) \<le> il_unitPrice (ls ! i) * il_quantity (ls ! i)"
    for ls us i
  proof (induction ls arbitrary: us i)
    case (Cons l ls)
    then obtain z where z: "line_totals ls = Inr z" "us = (il_unitPrice l * il_quantity l - il_discount l) # z"
      "il_discount l \<le> il_unitPrice l * il_quantity l" by (auto simp: success_simps line_total_def not_less)
    show ?case
    proof (cases i)
      case (Suc n)
      then show ?thesis using Cons.IH [OF z(1), of n] Cons.prems(2) z(2) by simp
    qed (use z in simp)
  qed simp
  have lines: "map rl_lineTotal (invoice_lines src tt) = ts"
    by (rule nth_equalityI) (use ts len in \<open>auto simp: invoice_lines_def\<close>)
  have "rl_lineTotal l = rl_unitPrice l * rl_qty l - rl_discount l \<and> 0 \<le> rl_lineTotal l" if "l \<in> set (invoice_lines src tt)" for l
    using that ts each [OF ts(1)] by (auto simp: invoice_lines_def set_zip)
  then show ?thesis using m lines ts(2) by (auto simp: adds_up_def invoice_row_def profile_tax_def)
qed

lemma issue_tx_inv:
  assumes "issue_tx u sa p cur src tt key s = Inr (t, b)" "bill_inv s"
    and "computeInvoiceTotals (so_lines src) (profile_tax p) = Inr tt"
  shows "bill_inv t \<and> bd_invoices t = bd_invoices s @ [b] \<and> bd_payments t = bd_payments s
    \<and> bl_sequence b = next_number sa s \<and> bl_salon b = sa \<and> bl_source b = so_source src \<and> adds_up b"
proof -
  let ?bump = "upd_where (\<lambda>q. bp_salon q = sa) (\<lambda>q. q\<lparr>bp_nextSequence := bp_nextSequence q + 1\<rparr>) (bd_profiles s)"
  obtain q where q: "find_profile sa s = Some q" using assms(1) by (auto simp: issue_tx_def success_simps)
  let ?row = "invoice_row u sa p (bp_prefix q) (bp_nextSequence q) cur src tt key"
  have b: "b = ?row\<lparr>bl_id := bd_next s\<rparr>" and un: "\<not> exists_where (\<lambda>r. bl_salon r = sa \<and> (bl_sequence r = bl_sequence b \<or> bl_number r = bl_number b)) (bd_invoices s)"
    "\<not> exists_where (\<lambda>r. bl_source r = bl_source b \<and> bl_status r = I_ISSUED) (bd_invoices s)"
    and t: "t = bill_audit u ''INVOICE_ISSUED'' sa (s\<lparr>bd_profiles := ?bump, bd_invoices := bd_invoices s @ [b], bd_next := bd_next s + 1\<rparr>)"
    using assms(1) q by (auto simp: issue_tx_def insert_invoice_def success_simps Let_def invoice_row_def)
  have seq: "bl_sequence b = next_number sa s" "bl_salon b = sa" "bl_source b = so_source src" "bl_id b = bd_next s" "bl_status b = I_ISSUED"
    by (simp_all add: b invoice_row_def next_number_def q)
  have "adds_up ?row" by (rule invoice_row_adds_up [OF assms(3)])
  then have add: "adds_up b" by (simp only: b adds_up_id)
  have n: "next_number j t = (if j = sa then next_number j s + 1 else next_number j s)" for j
    using q by (auto simp: t next_number_def find_profile_def find_upd_key split: option.splits)
  have fresh: "bl_id c < bd_next s" if "c \<in> set (bd_invoices s)" for c using assms(2) that by (simp add: bill_inv_def list_all_iff)
  have nopay: "net_paid (bd_next s) (bd_payments s) = 0"
    by (rule net_paid_none) (use assms(2) fresh in \<open>fastforce simp: bill_inv_def list_all_iff exists_where_iff\<close>)
  have pos: "0 \<le> bl_total b" 
  proof -
    have "0 \<le> sum_list (map rl_lineTotal (bl_lines b))" by (rule total_nonneg) (use add in \<open>unfold adds_up_def, blast\<close>)
    moreover have "0 \<le> bl_taxTotal b" "bl_total b = sum_list (map rl_lineTotal (bl_lines b)) + (if bl_taxMode b = Some EXCLUSIVE then bl_taxTotal b else 0)"
      using add unfolding adds_up_def by blast+
    ultimately show ?thesis by (auto split: if_splits)
  qed
  have "distinct (map bl_id (bd_invoices t)) \<and> list_all (\<lambda>b. bl_id b < bd_next t) (bd_invoices t)"
  proof -
    have "bd_next s \<notin> bl_id ` set (bd_invoices s)" using fresh by fastforce
    then show ?thesis using assms(2) seq fresh by (simp add: bill_inv_def t list_all_iff less_Suc_eq)
  qed
  moreover have "1 \<le> next_number j t \<and> map bl_sequence (filter (\<lambda>b. bl_salon b = j) (bd_invoices t)) = [1..<next_number j t]" for j
    using assms(2) seq by (auto simp: bill_inv_def n) (auto simp: t)
  moreover have "uniq_on bl_source (\<lambda>b. bl_status b = I_ISSUED) (bd_invoices t)"
    using assms(2) un(2) seq by (auto simp: bill_inv_def t uniq_on_snoc exists_where_iff)
  moreover have "uniq_on (\<lambda>b. (bl_salon b, bl_number b)) (\<lambda>_. True) (bd_invoices t)"
    using assms(2) un(1) seq by (auto simp: bill_inv_def t uniq_on_snoc exists_where_iff)
  moreover have "list_all (\<lambda>b. adds_up b \<and> 0 \<le> net_paid (bl_id b) (bd_payments t) \<and> net_paid (bl_id b) (bd_payments t) \<le> bl_total b
          \<and> (bl_status b = I_VOID \<longrightarrow> net_paid (bl_id b) (bd_payments t) = 0)) (bd_invoices t)"
    using assms(2) add nopay pos seq by (simp add: bill_inv_def t)
  moreover have "list_all (\<lambda>p. 0 < py_amount p \<and> exists_where (\<lambda>b. bl_id b = py_invoice p \<and> bl_salon b = py_salon p) (bd_invoices t)) (bd_payments t)"
    using assms(2) by (auto simp: bill_inv_def t list_all_iff exists_where_iff)
  moreover have "uniq_on py_key (\<lambda>p. py_key p \<noteq> None) (bd_payments t)" using assms(2) by (simp add: bill_inv_def t)
  ultimately have "bill_inv t" unfolding bill_inv_def by blast
  then show ?thesis using seq add by (simp add: t)
qed

lemma math_case_Inr [simp]: "(case m of Inl e \<Rightarrow> Inl (BILL_MATH e) | Inr x \<Rightarrow> Inr x) = Inr y \<longleftrightarrow> m = Inr y"
  by (cases m) auto

lemma issueInvoiceD:
  assumes "issueInvoice now app u sa src key pre s = Inr (t, b, created)"
  shows "t = s \<and> \<not> created \<or>
    created \<and> (\<exists>p cur source tt. load_source now app sa src = Inr source \<and> computeInvoiceTotals (so_lines source) (profile_tax p) = Inr tt
      \<and> issue_tx u sa p cur source tt key s = Inr (t, b))"
proof (cases "findIssuedForSource sa src pre")
  case None
  then obtain p cur source tt where d: "load_source now app sa src = Inr source" "computeInvoiceTotals (so_lines source) (profile_tax p) = Inr tt"
    and r: "(case issue_tx u sa p cur source tt key s of
            Inr (t, b) \<Rightarrow> Inr (t, b, True)
          | Inl err \<Rightarrow> if err = BILL_UNIQUE_VIOLATION
                       then (case findIssuedForSource sa src s of Some b \<Rightarrow> Inr (s, b, False) | None \<Rightarrow> Inl err)
                       else Inl err) = Inr (t, b, created)"
    using assms unfolding issueInvoice_def success_simps math_case_Inr by (auto simp: success_simps)
  show ?thesis using d r by (auto split: sum.split_asm option.split_asm if_split_asm)
qed (use assms in \<open>auto simp: issueInvoice_def success_simps\<close>)

lemma issue_inv:
  assumes "issueInvoice now app u sa src key pre s = Inr (t, b, created)" "bill_inv s"
  shows "bill_inv t \<and> (\<exists>bs. bd_invoices t = bd_invoices s @ bs) \<and> bd_payments t = bd_payments s"
  using issueInvoiceD [OF assms(1)] assms(2) issue_tx_inv by (metis append_Nil2)

section \<open>Runs\<close>

inductive bill_step :: "bill_db \<Rightarrow> bill_db \<Rightarrow> bool" where
  b_save: "saveBillingProfile app u sa input s = Inr t \<Longrightarrow> bill_step s t"
| b_issue: "issueInvoice now app u sa src key pre s = Inr (t, b, created) \<Longrightarrow> bill_step s t"
| b_pay: "recordPayment app u sa i payment key s = Inr t \<Longrightarrow> bill_step s t"
| b_void: "voidInvoice app u sa i why s = Inr t \<Longrightarrow> bill_step s t"

lemma bill_step_inv: "bill_step s t \<Longrightarrow> bill_inv s \<Longrightarrow> bill_inv t"
  by (induction rule: bill_step.induct) (blast dest: save_inv issue_inv payment_inv void_inv)+

text \<open>Nothing is taken back: an invoice may only be voided, and a payment stays in the list.\<close>

definition later_row :: "invoice \<Rightarrow> invoice \<Rightarrow> bool" where
  "later_row b c \<longleftrightarrow> frozen c = frozen b \<and> (bl_status b = I_VOID \<longrightarrow> c = b)"

definition kept :: "bill_db \<Rightarrow> bill_db \<Rightarrow> bool" where
  "kept s t \<longleftrightarrow> (\<exists>cs bs. bd_invoices t = cs @ bs \<and> list_all2 later_row (bd_invoices s) cs) \<and> (\<exists>ps. bd_payments t = bd_payments s @ ps)"

lemma later_row_refl [simp]: "later_row b b"
  by (simp add: later_row_def)

lemma kept_snoc: "bd_invoices t = bd_invoices s @ bs \<Longrightarrow> bd_payments t = bd_payments s @ ps \<Longrightarrow> kept s t"
  by (auto simp: kept_def list_all2_refl)

lemma kept_rows: "list_all2 later_row (bd_invoices s) (bd_invoices t) \<Longrightarrow> bd_payments t = bd_payments s \<Longrightarrow> kept s t"
  unfolding kept_def by (metis append_Nil2)

lemma kept_trans:
  assumes "kept s t" "kept t u"
  shows "kept s u"
proof -
  obtain cs bs ps where c: "bd_invoices t = cs @ bs" "list_all2 later_row (bd_invoices s) cs" "bd_payments t = bd_payments s @ ps"
    using assms(1) by (auto simp: kept_def)
  obtain ds es qs where d: "bd_invoices u = ds @ es" "list_all2 later_row (cs @ bs) ds" "bd_payments u = bd_payments t @ qs"
    using assms(2) c by (auto simp: kept_def)
  obtain d1 d2 where e: "ds = d1 @ d2" "list_all2 later_row cs d1" using d(2) by (auto simp: list_all2_append1)
  have "list_all2 later_row (bd_invoices s) d1"
    by (rule list_all2_trans [OF _ c(2) e(2)]) (auto simp: later_row_def)
  then show ?thesis using c d e by (auto simp: kept_def)
qed

lemma void_kept:
  assumes "voidInvoice app u sa i why s = Inr t" "bill_inv s"
  shows "kept s t"
proof -
  let ?f = "\<lambda>r. r\<lparr>bl_status := I_VOID, bl_voidedBy := Some u, bl_voidReason := Some why\<rparr>"
  obtain b where b: "find_invoice sa i s = Some b" and
    c: "t = s \<or> bl_status b \<noteq> I_VOID \<and> bd_invoices t = upd_where (\<lambda>r. bl_id r = i) ?f (bd_invoices s) \<and> bd_payments t = bd_payments s"
    using assms(1) by (auto simp: voidInvoice_def success_simps split: if_splits)
  have bm: "b \<in> set (bd_invoices s)" "bl_id b = i" using b by (auto simp: find_invoice_def dest: find_SomeD)
  have "later_row r (if bl_id r = i then ?f r else r)" if "bl_status b \<noteq> I_VOID" "r \<in> set (bd_invoices s)" for r
    using distinct_key_eq [of bl_id "bd_invoices s" r b] assms(2) bm that by (auto simp: bill_inv_def later_row_def frozen_def)
  then have "list_all2 later_row (bd_invoices s) (upd_where (\<lambda>r. bl_id r = i) ?f (bd_invoices s))" if "bl_status b \<noteq> I_VOID"
    using that by (simp add: upd_where_def list_all2_map2 list.rel_refl_strong)
  then show ?thesis using c by (auto intro: kept_rows kept_snoc [of _ _ "[]" "[]", simplified])
qed

lemma bill_step_kept: "bill_step s t \<Longrightarrow> bill_inv s \<Longrightarrow> kept s t"
proof (induction rule: bill_step.induct)
  case (b_save app u sa input s t)
  then show ?case using save_inv by (blast intro: kept_snoc [of _ _ "[]" "[]", simplified])
next
  case (b_issue now app u sa src key pre s t b created)
  then show ?case using issue_inv by (blast intro: kept_snoc [of _ _ _ "[]", simplified])
next
  case (b_pay app u sa i payment key s t)
  then show ?case using payment_inv by (blast intro: kept_snoc [of _ _ "[]", simplified])
next
  case (b_void app u sa i why s t)
  then show ?case by (blast dest: void_kept)
qed

interpretation billing: invariant bill_step bill_inv
  by unfold_locales (rule bill_step_inv)

lemma bill_runs_inv: "bill_step\<^sup>*\<^sup>* no_bills s \<Longrightarrow> bill_inv s"
  by (rule billing.run_inv [OF _ no_bills_inv])

lemma bill_runs_kept: "bill_step\<^sup>*\<^sup>* s t \<Longrightarrow> bill_inv s \<Longrightarrow> kept s t"
proof (induction rule: rtranclp_induct)
  case base
  show ?case by (rule kept_snoc [of _ _ "[]" "[]"]) simp_all
next
  case (step t u)
  then show ?case using billing.run_inv bill_step_kept kept_trans by blast
qed

section \<open>Properties\<close>

text \<open>C17: invoice numbers have no gaps. In every run the invoices of a shop carry the sequence numbers 1, 2, 3 and so on in the
  order they were issued, voided ones included; no two of them print the same number, and a visit has at most one invoice in force.\<close>

theorem invoices_are_numbered_without_gaps:
  assumes "bill_step\<^sup>*\<^sup>* no_bills s"
  shows "map bl_sequence (filter (\<lambda>b. bl_salon b = sa) (bd_invoices s)) = [1..<Suc (length (filter (\<lambda>b. bl_salon b = sa) (bd_invoices s)))]
    \<and> distinct (map bl_number (filter (\<lambda>b. bl_salon b = sa) (bd_invoices s)))
    \<and> length (filter (\<lambda>b. bl_source b = v \<and> bl_status b = I_ISSUED) (bd_invoices s)) \<le> 1"
proof -
  note inv = bill_runs_inv [OF assms, unfolded bill_inv_def]
  have m: "map bl_sequence (filter (\<lambda>b. bl_salon b = sa) (bd_invoices s)) = [1..<next_number sa s]" "1 \<le> next_number sa s" using inv by auto
  have len: "Suc (length (filter (\<lambda>b. bl_salon b = sa) (bd_invoices s))) = next_number sa s" using arg_cong [OF m(1), of length] m(2) by simp
  have "uniq_on k q rs \<Longrightarrow> q = (\<lambda>_. True) \<Longrightarrow> k = (\<lambda>b. (bl_salon b, bl_number b)) \<Longrightarrow> distinct (map bl_number (filter (\<lambda>b. bl_salon b = sa) rs))"
    for k q and rs :: "invoice list"
    by (induction rs) (auto simp: uniq_on_Cons)
  moreover have "uniq_on bl_source (\<lambda>b. bl_status b = I_ISSUED) rs \<Longrightarrow> length (filter (\<lambda>b. bl_source b = v \<and> bl_status b = I_ISSUED) rs) \<le> 1"
    for rs :: "invoice list"
    by (induction rs) (auto simp: uniq_on_Cons filter_empty_conv)
  ultimately show ?thesis using inv m unfolding len by blast
qed

text \<open>C19: an issued invoice is final. Whatever runs after it was issued, it stays as it was but for being voided once, its
  amounts add up, and the payments less the refunds recorded for it lie between nothing and its total, and are nothing when it is void.\<close>

theorem an_issued_invoice_is_final:
  assumes "bill_step\<^sup>*\<^sup>* no_bills s" "bill_step\<^sup>*\<^sup>* s t" "b \<in> set (bd_invoices s)"
  shows "\<exists>c\<in>set (bd_invoices t). frozen c = frozen b \<and> (bl_status b = I_VOID \<longrightarrow> c = b) \<and> adds_up c
    \<and> 0 \<le> net_paid (bl_id c) (bd_payments t) \<and> net_paid (bl_id c) (bd_payments t) \<le> bl_total b
    \<and> (bl_status c = I_VOID \<longrightarrow> net_paid (bl_id c) (bd_payments t) = 0)"
proof -
  have inv: "bill_inv s" "bill_inv t" using assms bill_runs_inv rtranclp_trans by metis+
  obtain cs bs where cs: "bd_invoices t = cs @ bs" "list_all2 later_row (bd_invoices s) cs"
    using bill_runs_kept [OF assms(2) inv(1)] by (auto simp: kept_def)
  then obtain c where c: "c \<in> set cs" "later_row b c" using assms(3) by (metis in_set_conv_nth list_all2_conv_all_nth)
  have "bl_total c = bl_total b" 
  proof -
    have "bl_total (frozen x) = bl_total x" for x by (simp add: frozen_def)
    then show ?thesis using c(2) unfolding later_row_def by metis
  qed
  moreover have mem: "c \<in> set (bd_invoices t)" using c cs by simp
  then have "adds_up c \<and> 0 \<le> net_paid (bl_id c) (bd_payments t) \<and> net_paid (bl_id c) (bd_payments t) \<le> bl_total c
    \<and> (bl_status c = I_VOID \<longrightarrow> net_paid (bl_id c) (bd_payments t) = 0)"
    using inv(2) by (simp add: bill_inv_def list_all_iff)
  ultimately show ?thesis using c(2) mem by (intro bexI [of _ c]) (auto simp: later_row_def)
qed

text \<open>C21: a customer is invoiced what the booking promised. The lines of an invoice issued for a booking add up to what was
  payable for it, the discount and the credits spent taken off; only tax that prices exclude comes on top; and the booking
  is a completed one of that shop.\<close>

theorem invoice_total_is_what_was_promised:
  assumes "issueInvoice now app u sa (OF_BOOKING i) key pre s = Inr (t, b, True)"
    and "find (\<lambda>x. bk_id x = i \<and> bk_salon x = sa) (db_bookings app) = Some bk"
    and "0 \<le> bk_discountAmount bk" "0 \<le> nvl (bk_creditsRedeemed bk) 0"
  shows "sum_list (map rl_lineTotal (bl_lines b)) = payablePaise app bk \<and> bk_status bk = B_COMPLETED
    \<and> bl_total b = payablePaise app bk + (if bl_taxMode b = Some EXCLUSIVE then bl_taxTotal b else 0)"
proof -
  obtain p cur source tt where src: "load_source now app sa (OF_BOOKING i) = Inr source"
    and tt: "computeInvoiceTotals (so_lines source) (profile_tax p) = Inr tt" and tx: "issue_tx u sa p cur source tt key s = Inr (t, b)"
    using issueInvoiceD [OF assms(1)] by blast
  let ?v = "resolveEffectiveBookingServices app bk"
  let ?unit = "map bi_price ?v" and ?r = "booking_reduction (resolveEffectiveBookingServices app bk) bk"
  have st: "bk_status bk = B_COMPLETED"
    and lines: "so_lines source = map (\<lambda>(v, d). \<lparr>il_description = bi_name v, il_unitPrice = bi_price v, il_quantity = 1, il_discount = d\<rparr>)
        (zip ?v (allocateProportionally ?unit ?r))"
    using src assms(2) by (auto simp: load_source_def loadBookingSource_def success_simps Let_def)
  obtain ts where ts: "line_totals (so_lines source) = Inr ts" using tt by (auto simp: computeInvoiceTotals_def success_simps)
  obtain q where q: "find_profile sa s = Some q" using tx by (auto simp: issue_tx_def success_simps)
  have row: "b = invoice_row u sa p (bp_prefix q) (bp_nextSequence q) cur source tt key\<lparr>bl_id := bd_next s\<rparr>"
    using tx q by (auto simp: issue_tx_def insert_invoice_def success_simps Let_def invoice_row_def)
  have add: "adds_up b" unfolding row adds_up_id by (rule invoice_row_adds_up [OF tt])
  have len: "length (allocate_loop w j r ps) = length ps" for w j r ps
    by (induction w j r ps rule: allocate_loop.induct) (subst allocate_loop.simps, simp add: Let_def)
  have l: "length (allocateProportionally ?unit ?r) = length ?v" by (simp add: allocateProportionally_def Let_def len)
  have zsum: "length ds = length vs \<Longrightarrow> sum_list (map (\<lambda>(v, d). bi_price v) (zip vs ds)) = sum_list (map bi_price vs)
      \<and> sum_list (map (\<lambda>(v, d). d) (zip vs ds)) = sum_list ds" for vs and ds :: "paise list"
    by (induction ds vs rule: list_induct2) auto
  have zin: "length ds = length vs \<Longrightarrow> v \<in> set vs \<Longrightarrow> \<exists>d. (v, d) \<in> set (zip vs ds)" for vs v and ds :: "paise list"
    by (metis in_set_impl_in_set_zip1)
  note s = line_totals_sum [OF ts]
  have pos: "\<forall>w\<in>set ?unit. 0 \<le> w"
  proof
    fix w assume "w \<in> set ?unit"
    then obtain v where v: "v \<in> set ?v" "w = bi_price v" by auto
    then obtain d where "(v, d) \<in> set (zip ?v (allocateProportionally ?unit ?r))" using zin [OF l] by blast
    then have "\<lparr>il_description = bi_name v, il_unitPrice = bi_price v, il_quantity = 1, il_discount = d\<rparr> \<in> set (so_lines source)"
      unfolding lines by force
    then show "0 \<le> w" using s v by fastforce
  qed
  have tot: "0 \<le> sum_list ?unit" by (rule total_nonneg) (use pos in simp)
  have r: "0 \<le> ?r" "?r \<le> sum_list ?unit" using assms(3,4) tot by (auto simp: booking_reduction_def)
  have "sum_list (allocateProportionally ?unit ?r) = ?r" using allocate_exact [OF pos r] by simp
  then have "sum_list (map (\<lambda>l. il_unitPrice l * il_quantity l) (so_lines source)) - sum_list (map il_discount (so_lines source)) = sum_list ?unit - ?r"
    using zsum [OF l] by (simp add: lines comp_def case_prod_unfold)
  also have "\<dots> = payablePaise app bk" using assms(3,4) tot
    by (simp add: payablePaise_def discountedServicePricePaise_def totalServicePricePaise_def booking_reduction_def)
  finally have net: "sum_list ts = payablePaise app bk" using s by simp
  have "bl_subtotal b - bl_discountTotal b = sum_list ts"
    using computed_totals [OF tt] ts tt by (auto simp: row invoice_row_def computeInvoiceTotals_def success_simps Let_def split: if_splits option.splits)
  then show ?thesis using add net st unfolding adds_up_def by simp
qed

text \<open>C23: a payment that is sent again with its key is answered with the recorded one, once: nothing is added. But the limits
  are tested first, on a balance that the recorded payment has changed. So the replay of a payment that left less than its
  amount to pay is refused as an overpayment.\<close>

theorem replay_of_a_settling_payment_is_refused:
  assumes "payment_tx u sa i input key s = Inr t" "recordPayment app u sa i input key s = Inr t" "nvl key [] \<noteq> []" "pm_kind input = KIND_PAYMENT"
    and "find_invoice sa i s = Some b"
  shows "recordPayment app u sa i input key t =
    (if net_paid i (bd_payments s) + 2 * pm_amount input > bl_total b then Inl INVOICE_OVERPAYMENT else Inr t)"
proof -
  have key: "key \<noteq> None" using assms(3) by (cases key) auto
  have st: "bl_status b \<noteq> I_VOID" "0 < pm_amount input"
    and t: "\<exists>a p. t = bill_audit u a sa (s\<lparr>bd_payments := bd_payments s @ [p], bd_next := bd_next s + 1\<rparr>) \<and> py_invoice p = i
      \<and> py_kind p = KIND_PAYMENT \<and> py_amount p = pm_amount input \<and> py_key p = key"
    using assms(1,4,5) by (auto simp: payment_tx_def insert_payment_def success_simps split: if_splits) force+
  obtain a p where t: "t = bill_audit u a sa (s\<lparr>bd_payments := bd_payments s @ [p], bd_next := bd_next s + 1\<rparr>)"
    and p: "py_invoice p = i" "py_kind p = KIND_PAYMENT" "py_amount p = pm_amount input" "py_key p = key" using t by blast
  have acc: "bill_access (bindE (assertAccessOrAdminAccess app u sa) (\<lambda>_. Inr ())) = Inr ()"
    using assms(2,4) by (auto simp: recordPayment_def success_simps)
  have found: "find_invoice sa i t = Some b" using assms(5) by (simp add: t find_invoice_def)
  have net: "net_paid i (bd_payments t) = net_paid i (bd_payments s) + pm_amount input" using p by (simp add: t)
  have dup: "exists_where (\<lambda>r. py_key r = key) (bd_payments t)" "exists_where (\<lambda>r. py_key r = key \<and> py_invoice r = i) (bd_payments t)"
    using p by (auto simp: t exists_where_iff)
  have "payment_tx u sa i input key t = (if net_paid i (bd_payments s) + 2 * pm_amount input > bl_total b then Inl INVOICE_OVERPAYMENT else Inl BILL_UNIQUE_VIOLATION)"
    using st dup(1) key assms(4) by (simp add: payment_tx_def found net insert_payment_def theE_def guardE_def bindE_def)
  then show ?thesis using acc dup assms(3,4) by (simp add: recordPayment_def bindE_def)
qed

section \<open>A shop that issues one invoice and is paid\<close>

definition demo_books :: db where
  "demo_books = demo_db\<lparr>db_roles := [\<lparr>ur_user = 8, ur_role = SALON_OWNER, ur_salon = Some 1\<rparr>],
     db_bookings := [(demo_booking 50 None 0 1800000 B_COMPLETED)\<lparr>bk_discountAmount := 2000\<rparr>]\<rparr>"

definition demo_profile :: profile_input where
  "demo_profile = \<lparr>pf_legalName = ''Shop'', pf_address = None, pf_phone = None, pf_email = None, pf_gstin = None, pf_taxEnabled = True,
     pf_taxLabel = ''GST'', pf_taxRatePercent = Some 18, pf_taxMode = EXCLUSIVE, pf_prefix = ''INV''\<rparr>"

definition demo_cash :: payment_input where
  "demo_cash = \<lparr>pm_kind = KIND_PAYMENT, pm_method = M_CASH, pm_amount = 21240, pm_reference = None, pm_note = None\<rparr>"

lemma demo_billing:
  obtains s1 s2 s3 b where "saveBillingProfile demo_books 8 1 demo_profile no_bills = Inr s1"
    "issueInvoice 0 demo_books 8 1 (OF_BOOKING 50) (Some ''i'') s1 s1 = Inr (s2, b, True)"
    "recordPayment demo_books 8 1 1 demo_cash (Some ''p'') s2 = Inr s3" "payment_tx 8 1 1 demo_cash (Some ''p'') s2 = Inr s3"
    "bd_invoices s2 = [b]" "bl_id b = 1" "bl_salon b = 1" "bl_total b = 21240" "net_paid 1 (bd_payments s2) = 0"
proof -
  let ?flow = "bindE (saveBillingProfile demo_books 8 1 demo_profile no_bills) (\<lambda>s1.
      bindE (issueInvoice 0 demo_books 8 1 (OF_BOOKING 50) (Some ''i'') s1 s1) (\<lambda>(s2, b, created).
      bindE (recordPayment demo_books 8 1 1 demo_cash (Some ''p'') s2) (\<lambda>s3.
      bindE (payment_tx 8 1 1 demo_cash (Some ''p'') s2) (\<lambda>s4.
        Inr (created, s3 = s4, bd_invoices s2 = [b], bl_id b, bl_salon b, bl_total b, net_paid 1 (bd_payments s2))))))"
  have "?flow = Inr (True, True, True, 1, 1, 21240, 0)" by code_simp
  then show thesis using that by (auto simp: success_simps)
qed

lemma invoices_are_numbered_without_gaps_witness:
  "\<exists>s. bill_step\<^sup>*\<^sup>* no_bills s \<and> length (bd_invoices s) = 1 \<and> map bl_sequence (filter (\<lambda>b. bl_salon b = 1) (bd_invoices s)) = [1]"
proof -
  obtain s1 s2 s3 b where d: "saveBillingProfile demo_books 8 1 demo_profile no_bills = Inr s1"
    "issueInvoice 0 demo_books 8 1 (OF_BOOKING 50) (Some ''i'') s1 s1 = Inr (s2, b, True)" "bd_invoices s2 = [b]" "bl_salon b = 1"
    by (rule demo_billing)
  have "bill_step\<^sup>*\<^sup>* no_bills s2"
    by (rule rtranclp.rtrancl_into_rtrancl [OF r_into_rtranclp [of bill_step, OF b_save [OF d(1)]] b_issue [OF d(2)]])
  from this invoices_are_numbered_without_gaps [OF this, of 1] show ?thesis using d by (intro exI [of _ s2]) auto
qed

lemma an_issued_invoice_is_final_witness:
  "\<exists>s t b c. bill_step\<^sup>*\<^sup>* no_bills s \<and> bill_step\<^sup>*\<^sup>* s t \<and> bd_invoices s = [b] \<and> c \<in> set (bd_invoices t) \<and> frozen c = frozen b
     \<and> net_paid (bl_id c) (bd_payments t) \<le> 21240"
proof -
  obtain s1 s2 s3 b where d: "saveBillingProfile demo_books 8 1 demo_profile no_bills = Inr s1"
    "issueInvoice 0 demo_books 8 1 (OF_BOOKING 50) (Some ''i'') s1 s1 = Inr (s2, b, True)"
    "recordPayment demo_books 8 1 1 demo_cash (Some ''p'') s2 = Inr s3" "bd_invoices s2 = [b]" "bl_total b = 21240"
    by (rule demo_billing)
  have r: "bill_step\<^sup>*\<^sup>* no_bills s2" "bill_step\<^sup>*\<^sup>* s2 s3"
    by (rule rtranclp.rtrancl_into_rtrancl [OF r_into_rtranclp [of bill_step, OF b_save [OF d(1)]] b_issue [OF d(2)]])
       (rule r_into_rtranclp, rule b_pay [OF d(3)])
  from an_issued_invoice_is_final [OF r, of b] obtain c where "c \<in> set (bd_invoices s3)" "frozen c = frozen b"
    "net_paid (bl_id c) (bd_payments s3) \<le> 21240" using d(4,5) by auto
  then show ?thesis using r d(4) by blast
qed

lemma invoice_total_is_what_was_promised_witness:
  "\<exists>pre t b. issueInvoice 0 demo_books 8 1 (OF_BOOKING 50) (Some ''i'') pre pre = Inr (t, b, True) \<and> sum_list (map rl_lineTotal (bl_lines b)) = 18000"
proof -
  obtain s1 s2 s3 b where d: "issueInvoice 0 demo_books 8 1 (OF_BOOKING 50) (Some ''i'') s1 s1 = Inr (s2, b, True)"
    by (rule demo_billing)
  let ?bk = "(demo_booking 50 None 0 1800000 B_COMPLETED)\<lparr>bk_discountAmount := 2000\<rparr>"
  have "find (\<lambda>x. bk_id x = 50 \<and> bk_salon x = 1) (db_bookings demo_books) = Some ?bk" by (simp add: demo_books_def demo_booking_def)
  from invoice_total_is_what_was_promised [OF d this]
  have "sum_list (map rl_lineTotal (bl_lines b)) = payablePaise demo_books ?bk" by (simp add: demo_booking_def)
  also have "\<dots> = 18000" by code_simp
  finally show ?thesis using d by blast
qed

lemma replay_of_a_settling_payment_is_refused_witness:
  "\<exists>s t. recordPayment demo_books 8 1 1 demo_cash (Some ''p'') s = Inr t
     \<and> recordPayment demo_books 8 1 1 demo_cash (Some ''p'') t = Inl INVOICE_OVERPAYMENT"
proof -
  obtain s1 s2 s3 b where d: "recordPayment demo_books 8 1 1 demo_cash (Some ''p'') s2 = Inr s3"
    "payment_tx 8 1 1 demo_cash (Some ''p'') s2 = Inr s3" "bd_invoices s2 = [b]" "bl_id b = 1" "bl_salon b = 1" "bl_total b = 21240"
    "net_paid 1 (bd_payments s2) = 0"
    by (rule demo_billing)
  have "find_invoice 1 1 s2 = Some b" using d by (simp add: find_invoice_def)
  from replay_of_a_settling_payment_is_refused [OF d(2,1) _ _ this] show ?thesis
    using d by (intro exI [of _ s2] exI [of _ s3]) (simp add: demo_cash_def)
qed

end
