(* ===== verification/Dues_Props.thy ===== *)
theory Dues_Props
  imports System
begin

text \<open>
  What becomes of the dues in a run of the whole backend: none is lost or rewritten, courtesies are limited. And the two
  races that the claims of \<^verbatim>\<open>dashboard-customers\<close> leave open.
\<close>

section \<open>Every commit is a step of the ledger\<close>

lemma ledger_step_open:
  "\<exists>e. db_ledger t = db_ledger s @ [e] \<and> le_status e = L_OUTSTANDING \<and> db_next s \<le> le_id e \<and> le_id e < db_next t \<Longrightarrow> ledger_step s t"
  by (blast intro: ledger_step_snoc)

lemma frame_ledger_step: "queue_frame s t \<Longrightarrow> ledger_step s t"
  by (rule ledger_step_same) (simp_all add: queue_frameD)

lemma give_back_ledger: "db_ledger (give_back_credits clk c i cr s) = db_ledger s" "db_next s \<le> db_next (give_back_credits clk c i cr s)"
  using wallet_frameD [OF restore_frame] by (auto simp: give_back_credits_def void_subsidies_def split: option.split)

lemma createBooking_ledger:
  assumes "createBooking upd ord tz now clk pre s c input source key = Inr (t, i)"
  shows "db_ledger t = db_ledger s"
proof -
  obtain q t0 es where tx: "create_tx upd ord clk s c input source key q = Inr (t0, i)" and t: "t = emit es t0"
    using assms by (auto simp: createBooking_def success_simps)
  obtain locked :: "offer_application option" and s1 s2 where
    ins: "insert_booking ((new_booking i c input source key q clk)\<lparr>bk_offer := map_option ap_offer locked\<rparr>) s = Inr s1"
    and s2: "s2 = (case locked of None \<Rightarrow> s1 | Some a \<Rightarrow> recordRedemption a (br_salon input) c i s1)"
    and red: "redeem_for_booking clk (br_salon input) c i (br_creditsToRedeem input) (bq_maxCredits q) s2 = Inr t0"
    by (rule create_txD [OF tx])
  have "db_ledger s2 = db_ledger s" unfolding s2 insert_bookingD [OF ins] by (simp add: recordRedemption_frame split: option.split)
  moreover have "db_ledger t0 = db_ledger s2" using redeem_for_bookingD [OF red] by auto
  ultimately show ?thesis by (simp add: t)
qed

lemma cancel_tx_next:
  assumes "cancel_tx clk s bk c charge = Inr (t, l)" "charge > 0"
  shows "db_next s < db_next t"
proof -
  define s2 where "s2 = cancel_linked_entries (bk_id bk) (upd_booking (bk_id bk) (cancel_row clk c charge) s)"
  have "t = emit [Audit (Some c) ''BOOKING_CANCELLED'' (bk_id bk)]
      (give_back_credits clk c (bk_id bk) (bk_creditsRedeemed bk) (add_ledger c (bk_salon bk) (bk_id bk) charge CANCELLATION_CHARGE s2))"
    using assms unfolding cancel_tx_def Let_def s2_def cancel_row_def by (auto simp: success_simps)
  then have "db_next (add_ledger c (bk_salon bk) (bk_id bk) charge CANCELLATION_CHARGE s2) \<le> db_next t"
    by (simp only: emit_simps give_back_ledger(2))
  moreover have "db_next s2 = db_next s" by (simp add: s2_def cancel_linked_frame)
  ultimately show ?thesis by simp
qed

lemma cancelBooking_ledger:
  assumes "cancelBooking now clk pre s c i = Inr (t, charge)"
  shows "ledger_step s t"
proof -
  obtain bk t0 l es es' es'' where tx: "cancel_tx clk s bk c charge = Inr (t0, l)"
    and t: "t = emit es (if l then emit es' (recomputeEtas clk (bk_salon bk) (emit es'' t0)) else emit es'' t0)"
    by (rule cancelBookingD [OF assms]) blast
  note D = cancel_txD [OF tx]
  have e: "db_ledger t = db_ledger t0" "db_next t = db_next t0" by (simp_all add: t)
  show ?thesis
  proof (cases "charge > 0")
    case True
    then show ?thesis using D(7) cancel_tx_next [OF tx True] by (intro ledger_step_open) (simp add: e)
  next
    case False
    then show ?thesis using D(4,7) by (intro ledger_step_same) (simp_all add: e)
  qed
qed

lemma cancelByShop_ledger:
  assumes "cancelByShop clk pre s sal i u act reason = Inr t"
  shows "ledger_step s t"
proof -
  obtain bk t0 l where tx: "cancel_by_shop_tx clk s bk u act reason = Inr (t0, l)"
    and t: "t = emit [QueueUpdated sal] (if l then emit [AutoAssignTrigger sal]
        (recomputeEtas clk sal (emit [BookingEvent ''cancelled'' sal i] t0)) else emit [BookingEvent ''cancelled'' sal i] t0)"
    using assms unfolding cancelByShop_def by (auto simp: success_simps Let_def)
  define s2 where "s2 = cancel_linked_entries (bk_id bk) (upd_booking (bk_id bk) (\<lambda>b. b\<lparr>bk_status := B_CANCELLED, bk_cancelledAt := Some clk,
                    bk_cancelledBy := Some u, bk_cancelledByActor := Some act,
                    bk_cancellationReason := reason, bk_cancellationCharge := None\<rparr>) s)"
  have "\<exists>es. t0 = emit es (case bk_customer bk of None \<Rightarrow> s2
      | Some c \<Rightarrow> give_back_credits clk c (bk_id bk) (bk_creditsRedeemed bk) s2)"
    using tx unfolding cancel_by_shop_tx_def Let_def s2_def [symmetric] by (auto simp: success_simps)
  moreover have "db_ledger s2 = db_ledger s" "db_next s2 = db_next s" by (simp_all add: s2_def cancel_linked_frame)
  ultimately have "db_ledger t0 = db_ledger s \<and> db_next s \<le> db_next t0"
    using give_back_ledger(1) give_back_ledger(2) [of s2] by (auto split: option.splits)
  then show ?thesis by (intro ledger_step_same) (simp_all add: t)
qed

lemma markNoShow_ledger:
  assumes "markNoShow now pre s u i = Inr (t, charge)"
  shows "ledger_step s t"
proof -
  obtain bk t0 es owner where tx: "no_show_tx s bk u owner charge = (t0, True)" and t: "t = emit es t0"
    by (rule markNoShowD [OF assms])
  note N = no_show_txD [OF tx]
  have "db_next s < db_next t0" if "bk_customer bk = Some c" "charge > 0" for c
    using tx that by (auto simp: no_show_tx_def Let_def add_ledger_def split: if_splits)
  note more = this
  show ?thesis
  proof (cases "\<exists>c. bk_customer bk = Some c \<and> charge > 0")
    case True
    then show ?thesis using N(3) more by (intro ledger_step_open) (auto simp: t)
  next
    case False
    then show ?thesis using N(3,6) by (intro ledger_step_same) (auto simp: t split: option.splits)
  qed
qed

lemma correct_ledger:
  assumes "correctToCompleted pre s u i = Inr (t, waived)"
  shows "ledger_step s t"
proof -
  obtain bk t0 es where tx: "correct_tx s bk u = Inr (t0, waived)" and t: "t = emit es t0"
    using assms unfolding correctToCompleted_def by (auto simp: success_simps split: prod.splits)
  let ?p = "\<lambda>e. le_id e \<in> set waived \<and> le_status e = L_OUTSTANDING"
  have w: "waived = map le_id (filter (outstanding_no_show (bk_id bk)) (db_ledger s))" and n: "db_next t0 = db_next s"
    and l: "waived \<noteq> [] \<Longrightarrow> db_ledger t0 = upd_where ?p (\<lambda>e. e\<lparr>le_status := L_WAIVED\<rparr>) (db_ledger s)"
    "waived = [] \<Longrightarrow> db_ledger t0 = db_ledger s"
    using tx by (auto simp: correct_tx_def Let_def success_simps split: if_splits)
  show ?thesis
  proof (cases "waived = []")
    case True
    then show ?thesis using l n by (intro ledger_step_same) (simp_all add: t)
  next
    case False
    show ?thesis
    proof (rule ledger_step_upd [of _ ?p L_WAIVED])
      show "db_ledger t = upd_where ?p (\<lambda>e. e\<lparr>le_status := L_WAIVED\<rparr>) (db_ledger s)" using l False by (simp add: t)
      fix sal c assume d: "due_ids s"
      have "le_reason e = NO_SHOW_CHARGE" if mem: "e \<in> set (db_ledger s)" and hit: "?p e" for e
      proof -
        obtain x where x: "x \<in> set (db_ledger s)" "outstanding_no_show (bk_id bk) x" "le_id x = le_id e" using hit by (auto simp: w)
        then have "x = e" using distinct_key_eq [of le_id "db_ledger s" x e] mem d by (simp add: due_ids_def)
        then show ?thesis using x(2) by (simp add: outstanding_no_show_def)
      qed
      note wv = this
      show "courtesies sal c t \<le> max CANCELLATION_COURTESY_WAIVER_LIMIT (courtesies sal c s)"
        unfolding courtesies_def emit_simps t l(1) [OF False]
        by (rule max.coboundedI2, rule count_where_upd_le) (use wv in fastforce)
    qed (use n in \<open>simp_all add: t\<close>)
  qed
qed

lemma booking_commit_ledger: "booking_commit tz pre s t \<Longrightarrow> ledger_step s t"
proof (induction rule: booking_commit.induct)
  case (1 upd ord now clk c "input" source key t i)
  show ?case by (rule ledger_step_same [OF createBooking_ledger [OF 1] createBooking_tables(4) [OF 1]])
next
  case (2 now clk sal u shop_input key t i)
  show ?case by (rule createInShopD [OF 2], rule ledger_step_same) (auto dest!: insert_bookingD)
next
  case (5 now clk c i ns t)
  then obtain bk where "rescheduleLoaded tz now clk pre s bk c ns False = Inr t" by (auto simp: reschedule_def success_simps)
  then show ?case by (rule rescheduleLoadedD) (auto intro: ledger_step_same)
next
  case (6 now clk sal i u ns t prev)
  then obtain bk where "rescheduleLoaded tz now clk pre s bk u ns True = Inr t" by (auto simp: rescheduleByShop_def success_simps)
  then show ?case by (rule rescheduleLoadedD) (auto intro: ledger_step_same)
next
  case (8 cutoff b t r)
  then obtain ev where "t = s\<lparr>db_bookings := upd_where (\<lambda>x. bk_id x = bk_id b \<and> hold_overdue cutoff x)
      (\<lambda>x. x\<lparr>bk_status := B_EXPIRED\<rparr>) (db_bookings s), db_events := ev\<rparr>" using expire_booking_tx_effect by blast
  then show ?case by (intro ledger_step_same) simp_all
next
  case (9 now admin key g lot t)
  then have "db_ledger t = db_ledger s"
    by (auto simp: grantPromotionalCredits_def success_simps Let_def insert_credit_def upsert_account_def split: option.splits sum.splits)
  then show ?case using grant_effect(4) 9 ledger_step_same by blast
qed (blast intro: cancelBooking_ledger cancelByShop_ledger markNoShow_ledger)+

lemma commit_ledger: "commit tz pre ok s t \<Longrightarrow> ledger_step s t"
proof (induction rule: commit.induct)
  case (queue s t)
  then show ?case by (rule frame_ledger_step [OF queue_commit_frame])
next
  case (sweep s t)
  then show ?case by (rule frame_ledger_step [OF sweep_commit_frame])
next
  case (booking s t)
  then show ?case by (rule booking_commit_ledger)
next
  case (complete now s u k t)
  show ?case
  proof (rule completeSession_frame [OF complete])
    assume "queue_frame (s\<lparr>db_bookings := db_bookings t\<rparr>) t"
    then show ?thesis using queue_frameD [of "s\<lparr>db_bookings := db_bookings t\<rparr>" t] by (intro ledger_step_same) simp_all
  qed
next
  case (correct s u i t waived)
  then show ?case by (rule correct_ledger)
next
  case (dues s t)
  then show ?case using due_commit_step by blast
qed

section \<open>Runs\<close>

definition dues_follow :: "db \<Rightarrow> db \<Rightarrow> bool" where
  "dues_follow p s \<longleftrightarrow> (\<exists>fs new. db_ledger s = fs @ new \<and> list_all2 due_later (db_ledger p) fs)
     \<and> (\<forall>sal c. courtesies sal c s \<le> max CANCELLATION_COURTESY_WAIVER_LIMIT (courtesies sal c p))"

lemma dues_follow_refl [simp]: "dues_follow s s"
  by (auto simp: dues_follow_def list_all2_refl intro: exI [of _ "db_ledger s"] exI [of _ "[]"])

lemma dues_follow_step:
  assumes "dues_follow p s" "ledger_step s t" "due_ids s"
  shows "dues_follow p t"
proof -
  obtain fs new where f: "db_ledger s = fs @ new" "list_all2 due_later (db_ledger p) fs" using assms(1) by (auto simp: dues_follow_def)
  obtain gs more where g: "db_ledger t = gs @ more" "list_all2 due_later (fs @ new) gs" using assms(2) f(1) by (auto simp: ledger_step_def)
  obtain g1 g2 where e: "gs = g1 @ g2" "list_all2 due_later fs g1" using g(2) by (auto simp: list_all2_append1)
  have "list_all2 due_later (db_ledger p) g1" by (rule list_all2_trans [OF due_later_trans f(2) e(2)])
  moreover have "courtesies sal c t \<le> max CANCELLATION_COURTESY_WAIVER_LIMIT (courtesies sal c p)" for sal c
  proof -
    have "courtesies sal c t \<le> max CANCELLATION_COURTESY_WAIVER_LIMIT (courtesies sal c s)"
      "courtesies sal c s \<le> max CANCELLATION_COURTESY_WAIVER_LIMIT (courtesies sal c p)"
      using assms by (simp_all add: dues_follow_def ledger_step_def)
    then show ?thesis by linarith
  qed
  ultimately show ?thesis using g(1) e(1) by (auto simp: dues_follow_def)
qed

definition dues_ok :: "db list \<Rightarrow> bool" where
  "dues_ok xs = (case xs of [] \<Rightarrow> False | s # _ \<Rightarrow> due_ids s \<and> (\<forall>p\<in>set xs. dues_follow p s))"

lemma grow_dues:
  assumes "grow tz strict xs ys" "dues_ok xs"
  shows "dues_ok ys"
proof -
  obtain s older pre ok t where g: "xs = s # older" "commit tz pre ok s t" "ys = t # xs" using assms(1) unfolding grow_def by blast
  have l: "ledger_step s t" by (rule commit_ledger [OF g(2)])
  have "due_ids s" "\<forall>p\<in>set xs. dues_follow p s" using assms(2) by (simp_all add: dues_ok_def g(1))
  then show ?thesis using ledger_step_ids [OF l] dues_follow_step [OF _ l] by (simp add: dues_ok_def g(3))
qed

interpretation dues: invariant "grow tz strict" dues_ok for tz strict
  by unfold_locales (rule grow_dues)

lemma run_dues: "run tz strict s0 xs \<Longrightarrow> due_ids s0 \<Longrightarrow> dues_ok xs"
  by (rule dues.run_inv [OF run_grow]) (simp_all add: dues_ok_def)

lemma run_first: "run tz strict s0 xs \<Longrightarrow> s0 \<in> set xs"
  by (induction rule: run.induct) auto

text \<open>C20: no due is lost or rewritten. Whatever handlers run, with whatever stale data, a due of any earlier state is still
  there, with its amount, reason, customer, shop and visit. A settled one is unchanged; any other is outstanding or waived, so
  that nothing but a waiver and its withdrawal ever moves it.\<close>

theorem dues_are_never_rewritten:
  assumes "run tz False s0 (s # older)" "due_ids s0" "p \<in> set (s # older)" "e \<in> set (db_ledger p)"
  shows "\<exists>f\<in>set (db_ledger s). le_id f = le_id e \<and> le_amount f = le_amount e \<and> le_reason f = le_reason e
    \<and> le_customer f = le_customer e \<and> le_salon f = le_salon e \<and> le_booking f = le_booking e 
    \<and> (if le_status e = L_SETTLED then f = e else le_status f = L_OUTSTANDING \<or> le_status f = L_WAIVED)"
proof -
  have "dues_follow p s" using run_dues [OF assms(1,2)] assms(3) by (auto simp: dues_ok_def)
  then obtain fs new where f: "db_ledger s = fs @ new" "list_all2 due_later (db_ledger p) fs" by (auto simp: dues_follow_def)
  then obtain x where x: "x \<in> set fs" "due_later e x" using assms(4) by (metis in_set_conv_nth list_all2_conv_all_nth)
  have k: "h x = h e" if "\<And>y st. h (y\<lparr>le_status := st\<rparr>) = h y" for h :: "ledger_entry \<Rightarrow> 'a"
    using x(2) that unfolding due_later_def by metis
  have "if le_status e = L_SETTLED then x = e else le_status x = L_OUTSTANDING \<or> le_status x = L_WAIVED"
    using x(2) by (auto simp: due_later_def)
  then show ?thesis
    using x(1) f(1) k [of le_id] k [of le_amount] k [of le_reason] k [of le_customer] k [of le_salon] k [of le_booking]
    by (intro bexI [of _ x]) simp_all
qed

text \<open>C18: courtesies are limited. As long as the transactions of a courtesy run one at a time, no run of the backend brings a
  customer of a shop to more than five waived cancellation charges, whatever stale counts the handlers read before.\<close>

theorem courtesies_are_limited:
  assumes "run tz False s0 (s # older)" "due_ids s0" "\<forall>sal c. courtesies sal c s0 \<le> 5"
  shows "count_where (\<lambda>e. le_salon e = sal \<and> le_customer e = c \<and> le_reason e = CANCELLATION_CHARGE \<and> le_status e = L_WAIVED) (db_ledger s) \<le> 5"
proof -
  have "dues_follow s0 s" using run_dues [OF assms(1,2)] run_first [OF assms(1)] by (auto simp: dues_ok_def)
  then have "courtesies sal c s \<le> max CANCELLATION_COURTESY_WAIVER_LIMIT (courtesies sal c s0)" by (simp add: dues_follow_def)
  then show ?thesis using assms(3) by (fastforce simp: courtesies_def CANCELLATION_COURTESY_WAIVER_LIMIT_def)
qed

section \<open>Races\<close>

definition demo_due :: "id \<Rightarrow> ledger_reason \<Rightarrow> ledger_status \<Rightarrow> ledger_entry" where
  "demo_due i r st = \<lparr>le_id = i, le_customer = 7, le_salon = 1, le_booking = 50, le_amount = 50, le_reason = r, le_status = st\<rparr>"

definition indebted_shop :: db where
  "indebted_shop = demo_db\<lparr>db_roles := [\<lparr>ur_user = 8, ur_role = SALON_OWNER, ur_salon = Some 1\<rparr>],
     db_ledger := map (\<lambda>i. demo_due i CANCELLATION_CHARGE L_WAIVED) [10, 11, 12, 13] @ map (\<lambda>i. demo_due i CANCELLATION_CHARGE L_OUTSTANDING) [14, 15]\<rparr>"

text \<open>
  Two transactions that count before either of them claims waive a sixth charge: each statement of a transaction at the
  default isolation level sees only what is committed, and nothing locks the customer.
\<close>

theorem concurrent_courtesies_exceed_the_limit:
  "\<exists>s t u e f. courtesies 1 7 s = 4 \<and> waiveCourtesy s s s 8 1 7 14 = Inr (t, e) \<and> waiveCourtesy s s t 8 1 7 15 = Inr (u, f)
     \<and> courtesies 1 7 u = 6"
proof -
  have "bindE (waiveCourtesy indebted_shop indebted_shop indebted_shop 8 1 7 14) (\<lambda>(t, e).
      bindE (waiveCourtesy indebted_shop indebted_shop t 8 1 7 15) (\<lambda>(u, f). Inr (courtesies 1 7 indebted_shop, courtesies 1 7 u)))
    = Inr (4, 6)" by code_simp
  then show ?thesis by (auto simp: success_simps)
qed

definition missed_shop_due :: db where
  "missed_shop_due = demo_db\<lparr>db_roles := [\<lparr>ur_user = 8, ur_role = SALON_OWNER, ur_salon = Some 1\<rparr>],
     db_bookings := [demo_booking 50 None 0 1800000 B_NO_SHOW], db_ledger := [demo_due 10 NO_SHOW_CHARGE L_WAIVED]\<rparr>"

text \<open>
  A waived no-show is restored while its visit is corrected to completed: the restoration looked at the visit before the
  correction, which found nothing outstanding to waive. The customer then owes for a visit that took place.
\<close>

theorem restore_can_charge_a_served_visit:
  "\<exists>s t u e. correctToCompleted s s 8 50 = Inr (t, []) \<and> restoreNoShowDue s t 8 1 7 10 = Inr (u, e)
     \<and> le_status e = L_OUTSTANDING \<and> map bk_status (db_bookings u) = [B_COMPLETED]"
proof -
  have "bindE (map_sum DUE_ACCESS id (correctToCompleted missed_shop_due missed_shop_due 8 50)) (\<lambda>(t, w).
      bindE (restoreNoShowDue missed_shop_due t 8 1 7 10) (\<lambda>(u, e). Inr (w, le_status e, map bk_status (db_bookings u))))
    = Inr ([], L_OUTSTANDING, [B_COMPLETED])" by code_simp
  then have "\<exists>t u e. map_sum DUE_ACCESS id (correctToCompleted missed_shop_due missed_shop_due 8 50) = Inr (t, [])
      \<and> restoreNoShowDue missed_shop_due t 8 1 7 10 = Inr (u, e) \<and> le_status e = L_OUTSTANDING \<and> map bk_status (db_bookings u) = [B_COMPLETED]"
    by (auto simp: success_simps)
  then have "\<exists>t u e. correctToCompleted missed_shop_due missed_shop_due 8 50 = Inr (t, [])
      \<and> restoreNoShowDue missed_shop_due t 8 1 7 10 = Inr (u, e) \<and> le_status e = L_OUTSTANDING \<and> map bk_status (db_bookings u) = [B_COMPLETED]"
    by (cases "correctToCompleted missed_shop_due missed_shop_due 8 50") auto
  then show ?thesis by (rule exI [of _ missed_shop_due])
qed

section \<open>A courtesy in a run\<close>

lemma indebted_ids: "due_ids indebted_shop"
  by (simp add: due_ids_def indebted_shop_def demo_due_def demo_db_def)

lemma indebted_run:
  obtains t where "run tz False indebted_shop [t, indebted_shop]" "courtesies 1 7 t = 5"
proof -
  have "map_sum (\<lambda>_. ()) (\<lambda>(t, e). courtesies 1 7 t) (waiveCourtesy indebted_shop indebted_shop indebted_shop 8 1 7 14) = Inr 5" by code_simp
  then obtain t e where t: "waiveCourtesy indebted_shop indebted_shop indebted_shop 8 1 7 14 = Inr (t, e)" "courtesies 1 7 t = 5"
    by (cases "waiveCourtesy indebted_shop indebted_shop indebted_shop 8 1 7 14") auto
  have "commit tz indebted_shop True indebted_shop t" by (rule commit.dues, rule due_commit.intros(1), rule t(1))
  then have "run tz False indebted_shop [t, indebted_shop]" by (intro run.commit [OF run.start]) auto
  then show thesis using that t(2) by blast
qed

lemma dues_are_never_rewritten_witness:
  "\<exists>tz t f. run tz False indebted_shop [t, indebted_shop] \<and> f \<in> set (db_ledger t) \<and> le_id f = 14 \<and> le_amount f = 50"
proof -
  fix tz
  obtain t where r: "run tz False indebted_shop [t, indebted_shop]" by (rule indebted_run)
  have "demo_due 14 CANCELLATION_CHARGE L_OUTSTANDING \<in> set (db_ledger indebted_shop)" by (simp add: indebted_shop_def)
  from dues_are_never_rewritten [OF r indebted_ids _ this] show ?thesis using r by (fastforce simp: demo_due_def)
qed

lemma courtesies_are_limited_witness:
  "\<exists>tz t. run tz False indebted_shop [t, indebted_shop]
     \<and> count_where (\<lambda>e. le_salon e = 1 \<and> le_customer e = 7 \<and> le_reason e = CANCELLATION_CHARGE \<and> le_status e = L_WAIVED) (db_ledger t) \<le> 5"
proof -
  fix tz
  obtain t where r: "run tz False indebted_shop [t, indebted_shop]" by (rule indebted_run)
  have "courtesies sal c indebted_shop \<le> 5" for sal c
    unfolding courtesies_def count_where_def by (simp add: indebted_shop_def demo_due_def)
  then show ?thesis using courtesies_are_limited [OF r indebted_ids, of 1 7] r by blast
qed

end
