(* ===== verification/Barcodes.thy ===== *)
theory Barcodes
  imports Money
begin

text \<open>
  Barcodes (\<^verbatim>\<open>packages/shared/src/product-catalog.ts\<close>): the check digit of retail codes, the expansion of UPC-E, the one
  text form under which a product is kept however its code was scanned or typed, and the comparison with a shop's own codes.
\<close>

section \<open>Check digits\<close>

datatype barcode_format = GTIN | OTHER_CODE
datatype barcode_error = Empty_barcode | Invalid_upce | Check_digit_mismatch | Barcode_too_long | Bad_barcode_character
datatype barcode_hint = UPC_E

record barcode =
  nb_code :: string
  nb_format :: barcode_format
  nb_display :: string

text \<open>The weights count from the right: 3, 1, 3, 1 and so on.\<close>

fun gtin_sum :: "nat \<Rightarrow> string \<Rightarrow> int" where
  "gtin_sum i [] = 0"
| "gtin_sum i (c # cs) = (if i mod 2 = 0 then digit_val c * 3 else digit_val c) + gtin_sum (i + 1) cs"

definition gtinCheckDigit :: "string \<Rightarrow> int" where
  "gtinCheckDigit body = (10 - gtin_sum 0 (rev body) mod 10) mod 10"

definition expandUpcE :: "string \<Rightarrow> string option" where
  "expandUpcE upce =
     (case upce of
        [ns, d1, d2, d3, d4, d5, d6, check] \<Rightarrow>
          if (ns = CHR ''0'' \<or> ns = CHR ''1'') \<and> list_all is_digit [d1, d2, d3, d4, d5, d6, check]
          then Some ((if d6 = CHR ''0'' \<or> d6 = CHR ''1'' \<or> d6 = CHR ''2'' then [ns, d1, d2, d6] @ ''0000'' @ [d3, d4, d5]
                      else if d6 = CHR ''3'' then [ns, d1, d2, d3] @ ''00000'' @ [d4, d5]
                      else if d6 = CHR ''4'' then [ns, d1, d2, d3, d4] @ ''00000'' @ [d5]
                      else [ns, d1, d2, d3, d4, d5] @ ''0000'' @ [d6]) @ [check])
          else None
      | _ \<Rightarrow> None)"

section \<open>The normal form\<close>

definition ascii_upper :: "char \<Rightarrow> char" where
  "ascii_upper c = (let n = of_char c :: nat in if 97 \<le> n \<and> n \<le> 122 then char_of (n - 32) else c)"

definition printable :: "char \<Rightarrow> bool" where
  "printable c \<longleftrightarrow> 33 \<le> (of_char c :: nat) \<and> (of_char c :: nat) \<le> 126"

definition compact :: "string \<Rightarrow> string" where
  "compact raw = filter (\<lambda>c. \<not> (is_space c \<or> c = CHR ''-'')) (js_trim raw)"

definition normalize_digits :: "string \<Rightarrow> barcode_error + barcode" where
  "normalize_digits digits =
     (if length digits \<in> {8, 12, 13, 14} then
        (let body = butlast digits in
         guardE (\<not> gtinCheckDigit body \<noteq> digit_val (last digits)) Check_digit_mismatch
           (Inr \<lparr>nb_code = pad_start 14 (CHR ''0'') digits, nb_format = GTIN, nb_display = digits\<rparr>))
      else guardE (\<not> length digits > 48) Barcode_too_long
             (Inr \<lparr>nb_code = digits, nb_format = OTHER_CODE, nb_display = digits\<rparr>))"

definition normalizeBarcode :: "string \<Rightarrow> barcode_hint option \<Rightarrow> barcode_error + barcode" where
  "normalizeBarcode raw hint =
     (let c = compact raw in
      guardE (c \<noteq> []) Empty_barcode
     (if list_all is_digit c then
        (if hint = Some UPC_E then theE (expandUpcE c) Invalid_upce normalize_digits else normalize_digits c)
      else guardE (length c \<le> 48 \<and> list_all printable c) Bad_barcode_character
             (Inr \<lparr>nb_code = map ascii_upper c, nb_format = OTHER_CODE, nb_display = c\<rparr>)))"

text \<open>Contained in a text: \<^verbatim>\<open>includes\<close>.\<close>

fun contains :: "string \<Rightarrow> string \<Rightarrow> bool" where
  "contains [] p = (p = [])"
| "contains (c # cs) p = (take (length p) (c # cs) = p \<or> contains cs p)"

definition skuMatchesBarcode :: "string option \<Rightarrow> barcode \<Rightarrow> bool" where
  "skuMatchesBarcode sku b =
     (let digits = filter (\<lambda>c. \<not> (is_space c \<or> c = CHR ''-'')) (nvl sku []) in
      if digits = [] then False
      else if map ascii_upper digits = nb_code b \<or> digits = nb_display b then True
      else list_all is_digit digits \<and> length digits \<ge> 6 \<and> contains (nb_display b) digits)"

section \<open>Lemmas\<close>

lemma gtin_sum_append: "gtin_sum i (xs @ ys) = gtin_sum i xs + gtin_sum (i + length xs) ys"
  by (induction xs arbitrary: i) simp_all

lemma gtin_sum_zeros: "gtin_sum i (replicate n (CHR ''0'')) = 0"
  by (induction n arbitrary: i) (simp_all add: digit_val_def)

lemma gtin_padded: "gtinCheckDigit (replicate n (CHR ''0'') @ body) = gtinCheckDigit body"
  by (simp add: gtinCheckDigit_def gtin_sum_append gtin_sum_zeros)

lemma gtin_sum_update:
  "k < length cs \<Longrightarrow> gtin_sum i (cs[k := d]) = gtin_sum i cs + (if (i + k) mod 2 = 0 then 3 else 1) * (digit_val d - digit_val (cs ! k))"
proof (induction cs arbitrary: i k)
  case (Cons c cs)
  show ?case
  proof (cases k)
    case (Suc j)
    then show ?thesis using Cons.IH [of j "i + 1"] Cons.prems by simp
  qed simp
qed simp

lemma digit_range: "is_digit c \<Longrightarrow> 0 \<le> digit_val c \<and> digit_val c \<le> 9"
  by (simp add: is_digit_def digit_val_def)

lemma digit_val_inj: "digit_val c = digit_val d \<Longrightarrow> c = d"
  by (simp add: digit_val_def)

lemma check_digit_iff: "0 \<le> v \<Longrightarrow> v \<le> 9 \<Longrightarrow> gtinCheckDigit body = v \<longleftrightarrow> (gtin_sum 0 (rev body) + v) mod 10 = 0"
proof -
  assume v: "0 \<le> v" "v \<le> 9"
  define r where "r = gtin_sum 0 (rev body) mod 10"
  have r: "0 \<le> r" "r < 10" by (simp_all add: r_def)
  have "(gtin_sum 0 (rev body) + v) mod 10 = (r + v) mod 10" by (simp add: r_def mod_add_left_eq)
  also have "\<dots> = (if r + v < 10 then r + v else r + v - 10)" 
  proof (cases "r + v < 10")
    case False
    have "(r + v) mod 10 = (r + v - 10) mod 10" by simp
    also have "\<dots> = r + v - 10" by (rule mod_pos_pos_trivial) (use r v False in auto)
    finally show ?thesis using False by simp
  qed (use r v in simp)
  finally have s: "(gtin_sum 0 (rev body) + v) mod 10 = 0 \<longleftrightarrow> r + v = 0 \<or> r + v = 10" using r v by auto
  have "gtinCheckDigit body = (if r = 0 then 0 else 10 - r)"
  proof (cases "r = 0")
    case False
    have "(10 - r) mod 10 = 10 - r" by (rule mod_pos_pos_trivial) (use r False in auto)
    then show ?thesis using False by (simp add: gtinCheckDigit_def del: minus_mod_self1 flip: r_def)
  qed (simp add: gtinCheckDigit_def flip: r_def)
  then show ?thesis using s r v by auto
qed

lemma weighted_digit_0:
  assumes "(a + v) mod 10 = (0 :: int)" "(a + w * x + v) mod 10 = 0" "w = 3 \<or> w = 1" "-9 \<le> x" "x \<le> 9"
  shows "x = 0"
proof -
  have "10 dvd (a + w * x + v) - (a + v)" using assms(1,2) by (intro dvd_diff) (simp_all add: mod_eq_0_iff_dvd)
  then have "10 dvd w * x" by simp
  then have "10 dvd 3 * x \<or> 10 dvd x" using assms(3) by auto
  then show ?thesis using assms(4,5) by presburger
qed

lemma of_upper_char: "(of_char (ascii_upper c) :: nat) = (if 97 \<le> (of_char c :: nat) \<and> (of_char c :: nat) \<le> 122 then of_char c - 32 else of_char c)"
  by (auto simp: ascii_upper_def Let_def intro!: mod_less)

lemma upper_props:
  "ascii_upper (ascii_upper c) = ascii_upper c" "printable c \<Longrightarrow> printable (ascii_upper c)" "is_digit (ascii_upper c) \<longleftrightarrow> is_digit c"
  "is_space (ascii_upper c) \<longleftrightarrow> is_space c"
proof -
  have "(of_char (ascii_upper (ascii_upper c)) :: nat) = of_char (ascii_upper c)" by (auto simp: of_upper_char)
  then show "ascii_upper (ascii_upper c) = ascii_upper c" by simp
qed (auto simp: printable_def is_digit_def is_space_def of_upper_char)

lemma upper_dash: "ascii_upper c = CHR ''-'' \<longleftrightarrow> c = CHR ''-''"
proof
  assume "ascii_upper c = CHR ''-''"
  then have "(of_char (ascii_upper c) :: nat) = 45" by simp
  then have "(of_char c :: nat) = of_char (CHR ''-'')" by (auto simp: of_upper_char split: if_splits)
  then show "c = CHR ''-''" by (simp only: of_char_eq_iff)
qed (simp add: ascii_upper_def)

lemma digit_solid: "is_digit c \<Longrightarrow> \<not> is_space c \<and> c \<noteq> CHR ''-'' \<and> printable c \<and> ascii_upper c = c"
  by (auto simp: is_digit_def is_space_def printable_def ascii_upper_def Let_def)

lemma printable_solid: "printable c \<Longrightarrow> \<not> is_space c"
  by (auto simp: printable_def is_space_def)

lemma compact_solid: "\<forall>c\<in>set s. \<not> is_space c \<and> c \<noteq> CHR ''-'' \<Longrightarrow> compact s = s"
  by (cases "s = []") (auto simp: compact_def js_trim_id filter_id_conv, simp add: js_trim_def)

lemma compact_chars: "c \<in> set (compact raw) \<Longrightarrow> \<not> is_space c \<and> c \<noteq> CHR ''-''"
  by (auto simp: compact_def)

lemma expandUpcE_digits: "expandUpcE c = Some d \<Longrightarrow> length d = 12 \<and> list_all is_digit d"
  by (auto simp: expandUpcE_def dot_props is_digit_def [of "CHR ''1''"] split: list.splits if_splits)

text \<open>A well-formed code in the sense of its format.\<close>

definition well_formed_code :: "barcode_format \<Rightarrow> string \<Rightarrow> bool" where
  "well_formed_code f code \<longleftrightarrow> (case f of
     GTIN \<Rightarrow> length code = 14 \<and> list_all is_digit code \<and> gtinCheckDigit (butlast code) = digit_val (last code)
   | OTHER_CODE \<Rightarrow> 1 \<le> length code \<and> length code \<le> 48 \<and> list_all (\<lambda>c. printable c \<and> c \<noteq> CHR ''-'' \<and> ascii_upper c = c) code
       \<and> \<not> (list_all is_digit code \<and> length code \<in> {8, 12, 13, 14}))"

lemma normalize_well_formed:
  assumes "normalizeBarcode raw hint = Inr b"
  shows "well_formed_code (nb_format b) (nb_code b)"
proof -
  have digits: "well_formed_code (nb_format b) (nb_code b)" if "normalize_digits d = Inr b" "list_all is_digit d" "d \<noteq> []" for d
  proof (cases "length d \<in> {8, 12, 13, 14}")
    case True
    then have "b = \<lparr>nb_code = pad_start 14 (CHR ''0'') d, nb_format = GTIN, nb_display = d\<rparr>" "gtinCheckDigit (butlast d) = digit_val (last d)"
      using that(1) by (auto simp: normalize_digits_def success_simps Let_def)
    moreover have "butlast (pad_start 14 (CHR ''0'') d) = replicate (14 - length d) (CHR ''0'') @ butlast d"
      "last (pad_start 14 (CHR ''0'') d) = last d" "length (pad_start 14 (CHR ''0'') d) = 14" "list_all is_digit (pad_start 14 (CHR ''0'') d)"
      using that True by (auto simp: pad_start_def butlast_append dot_props list_all_iff)
    ultimately show ?thesis by (simp add: well_formed_code_def gtin_padded)
  next
    case False
    then have "b = \<lparr>nb_code = d, nb_format = OTHER_CODE, nb_display = d\<rparr>" "length d \<le> 48"
      using that(1) by (auto simp: normalize_digits_def success_simps)
    moreover have "list_all (\<lambda>c. printable c \<and> c \<noteq> CHR ''-'' \<and> ascii_upper c = c) d"
      using that(2) digit_solid by (auto simp: list_all_iff)
    moreover have "1 \<le> length d" using that(3) by (cases d) auto
    ultimately show ?thesis using False by (simp add: well_formed_code_def)
  qed
  show ?thesis
  proof (cases "list_all is_digit (compact raw)")
    case True
    have "\<exists>d. normalize_digits d = Inr b \<and> list_all is_digit d \<and> d \<noteq> []"
      using assms True expandUpcE_digits [of "compact raw"] by (auto simp: normalizeBarcode_def success_simps Let_def split: if_splits)
    then show ?thesis using digits by blast
  next
    case False
    then have c: "b = \<lparr>nb_code = map ascii_upper (compact raw), nb_format = OTHER_CODE, nb_display = compact raw\<rparr>"
      "compact raw \<noteq> []" "length (compact raw) \<le> 48" "list_all printable (compact raw)"
      using assms by (auto simp: normalizeBarcode_def success_simps Let_def)
    moreover have "1 \<le> length (compact raw)" using c(2) by (cases "compact raw") auto
    moreover have "\<not> list_all is_digit (map ascii_upper (compact raw))" using False by (auto simp: list_all_iff upper_props)
    moreover have "list_all (\<lambda>c. printable c \<and> c \<noteq> CHR ''-'' \<and> ascii_upper c = c) (map ascii_upper (compact raw))"
      using c(4) compact_chars by (auto simp: list_all_iff upper_props upper_dash)
    ultimately show ?thesis by (simp add: well_formed_code_def)
  qed
qed

lemma normalize_code_again:
  assumes "well_formed_code f code"
  shows "normalizeBarcode code None = Inr \<lparr>nb_code = code, nb_format = f, nb_display = code\<rparr>"
proof -
  have solid: "compact code = code \<and> code \<noteq> []"
  proof -
    have "code \<noteq> [] \<and> (\<forall>c\<in>set code. \<not> is_space c \<and> c \<noteq> CHR ''-'')"
    proof (cases f)
      case GTIN
      then have "length code = 14" "\<forall>c\<in>set code. is_digit c" using assms by (simp_all add: well_formed_code_def list_all_iff)
      then have "code \<noteq> []" "\<forall>c\<in>set code. \<not> is_space c \<and> c \<noteq> CHR ''-''" using digit_solid by (force, blast)
      then show ?thesis by blast
    next
      case OTHER_CODE
      then have "1 \<le> length code" "\<forall>c\<in>set code. printable c \<and> c \<noteq> CHR ''-''" using assms by (simp_all add: well_formed_code_def list_all_iff)
      then have "code \<noteq> []" "\<forall>c\<in>set code. \<not> is_space c \<and> c \<noteq> CHR ''-''" using printable_solid by (force, blast)
      then show ?thesis by blast
    qed
    then show ?thesis using compact_solid by blast
  qed
  show ?thesis
  proof (cases f)
    case GTIN
    then show ?thesis using assms solid
      by (simp add: well_formed_code_def normalizeBarcode_def normalize_digits_def Let_def guardE_def pad_start_def)
  next
    case OTHER_CODE
    then have "map ascii_upper code = code" using assms by (auto simp: well_formed_code_def list_all_iff intro: map_idI)
    then show ?thesis using assms solid OTHER_CODE
      by (auto simp: well_formed_code_def normalizeBarcode_def normalize_digits_def Let_def guardE_def list_all_iff)
  qed
qed

text \<open>What the normal form is made of: the code as it was read, padded with zeros or put in upper case.\<close>

lemma normalize_shape:
  assumes "normalizeBarcode raw hint = Inr b"
  shows "nb_display b = (if hint = Some UPC_E \<and> list_all is_digit (compact raw) then the (expandUpcE (compact raw)) else compact raw)"
    and "nb_format b = GTIN \<Longrightarrow> nb_code b = pad_start 14 (CHR ''0'') (nb_display b) \<and> length (nb_display b) \<in> {8, 12, 13, 14}
      \<and> list_all is_digit (nb_display b) \<and> gtinCheckDigit (butlast (nb_display b)) = digit_val (last (nb_display b))"
    and "nb_format b \<noteq> GTIN \<Longrightarrow> nb_code b = map ascii_upper (nb_display b)"
proof -
  have up: "map ascii_upper d = d" if "list_all is_digit d" for d
    using that digit_solid by (auto simp: list_all_iff intro: map_idI)
  have digits: "nb_display b = d \<and> (nb_format b = GTIN \<longrightarrow> nb_code b = pad_start 14 (CHR ''0'') d \<and> length d \<in> {8, 12, 13, 14}
      \<and> gtinCheckDigit (butlast d) = digit_val (last d)) \<and> (nb_format b \<noteq> GTIN \<longrightarrow> nb_code b = d)" if "normalize_digits d = Inr b" for d
    using that by (auto simp: normalize_digits_def Let_def success_simps split: if_splits)
  consider (expanded) d where "hint = Some UPC_E" "list_all is_digit (compact raw)" "expandUpcE (compact raw) = Some d" "normalize_digits d = Inr b"
    | (digits) "hint \<noteq> Some UPC_E" "list_all is_digit (compact raw)" "normalize_digits (compact raw) = Inr b"
    | (other) "\<not> list_all is_digit (compact raw)"
        "b = \<lparr>nb_code = map ascii_upper (compact raw), nb_format = OTHER_CODE, nb_display = compact raw\<rparr>"
    using assms by (auto simp: normalizeBarcode_def success_simps Let_def split: if_splits)
  note cases = this
  show "nb_display b = (if hint = Some UPC_E \<and> list_all is_digit (compact raw) then the (expandUpcE (compact raw)) else compact raw)"
    by (cases rule: cases) (auto dest: digits)
  show "nb_code b = pad_start 14 (CHR ''0'') (nb_display b) \<and> length (nb_display b) \<in> {8, 12, 13, 14}
      \<and> list_all is_digit (nb_display b) \<and> gtinCheckDigit (butlast (nb_display b)) = digit_val (last (nb_display b))" if "nb_format b = GTIN"
    using that by (cases rule: cases) (auto dest!: digits expandUpcE_digits)
  show "nb_code b = map ascii_upper (nb_display b)" if "nb_format b \<noteq> GTIN"
    using that by (cases rule: cases) (auto dest!: digits expandUpcE_digits simp: up)
qed

text \<open>Leading zeros do not matter between the accepted lengths.\<close>

lemma normalize_zeros:
  assumes "list_all is_digit d" "d \<noteq> []" "gtinCheckDigit (butlast d) = digit_val (last d)"
    and "length (replicate n (CHR ''0'') @ d) \<in> {8, 12, 13, 14}"
  shows "normalizeBarcode (replicate n (CHR ''0'') @ d) None
    = Inr \<lparr>nb_code = pad_start 14 (CHR ''0'') d, nb_format = GTIN, nb_display = replicate n (CHR ''0'') @ d\<rparr>"
proof -
  let ?z = "replicate n (CHR ''0'') @ d"
  have digits: "list_all is_digit ?z" using assms(1) by (auto simp: list_all_iff dot_props)
  have "\<forall>c\<in>set ?z. \<not> is_space c \<and> c \<noteq> CHR ''-''" using digits digit_solid by (auto simp: list_all_iff)
  then have "compact ?z = ?z" by (rule compact_solid)
  moreover have "butlast ?z = replicate n (CHR ''0'') @ butlast d" "last ?z = last d" "?z \<noteq> []"
    using assms(2) by (simp_all add: butlast_append)
  moreover have "pad_start 14 (CHR ''0'') ?z = pad_start 14 (CHR ''0'') d"
    using assms(4) by (auto simp: pad_start_def simp flip: append_assoc replicate_add)
  ultimately show ?thesis using digits assms(3,4)
    by (simp only: normalizeBarcode_def normalize_digits_def Let_def guardE_def gtin_padded) simp
qed

section \<open>Properties\<close>

text \<open>C39: every accepted barcode has the form its format promises, and only one. A retail code is fourteen digits that pass
  the check: the digits as they were scanned, or expanded from UPC-E, padded with zeros, so that the twelve-, thirteen- and
  fourteen-digit forms of a code, which differ in leading zeros only, are all accepted and all kept as the same text. Any
  other code is printable, upper case, without spaces and dashes, never a string of digits that would have to pass a check;
  and normalizing the stored form again changes nothing.\<close>

theorem barcodes_have_one_normal_form:
  assumes "normalizeBarcode raw hint = Inr b"
  shows "nb_display b = (if hint = Some UPC_E \<and> list_all is_digit (compact raw) then the (expandUpcE (compact raw)) else compact raw)
    \<and> (if nb_format b = GTIN
       then nb_code b = pad_start 14 (CHR ''0'') (nb_display b)
          \<and> length (nb_code b) = 14 \<and> list_all is_digit (nb_code b) \<and> gtinCheckDigit (butlast (nb_code b)) = digit_val (last (nb_code b))
          \<and> (\<forall>n. length (replicate n (CHR ''0'') @ nb_display b) \<in> {8, 12, 13, 14} \<longrightarrow>
               normalizeBarcode (replicate n (CHR ''0'') @ nb_display b) None = Inr (b\<lparr>nb_display := replicate n (CHR ''0'') @ nb_display b\<rparr>))
       else nb_code b = map ascii_upper (nb_display b) \<and> 1 \<le> length (nb_code b) \<and> length (nb_code b) \<le> 48
          \<and> list_all (\<lambda>c. printable c \<and> c \<noteq> CHR ''-'' \<and> ascii_upper c = c) (nb_code b)
          \<and> \<not> (list_all is_digit (nb_code b) \<and> length (nb_code b) \<in> {8, 12, 13, 14}))
    \<and> normalizeBarcode (nb_code b) None = Inr (b\<lparr>nb_display := nb_code b\<rparr>)"
proof -
  note w = normalize_well_formed [OF assms] and shape = normalize_shape [OF assms]
  have zeros: "normalizeBarcode (replicate n (CHR ''0'') @ nb_display b) None = Inr (b\<lparr>nb_display := replicate n (CHR ''0'') @ nb_display b\<rparr>)"
    if "nb_format b = GTIN" "length (replicate n (CHR ''0'') @ nb_display b) \<in> {8, 12, 13, 14}" for n
  proof -
    note g = shape(2) [OF that(1)]
    have "nb_display b \<noteq> []" using g by auto
    from normalize_zeros [OF _ this _ that(2)] g that(1) show ?thesis by (cases b) simp
  qed
  have "normalizeBarcode (nb_code b) None = Inr (b\<lparr>nb_display := nb_code b\<rparr>)"
    using normalize_code_again [OF w] by (cases b) simp
  then show ?thesis using w shape zeros by (cases "nb_format b") (simp_all add: well_formed_code_def)
qed

text \<open>A misread digit is caught. When a retail code is accepted, the same code with any one digit changed is refused.\<close>

theorem misread_digits_are_caught:
  assumes "normalizeBarcode code None = Inr b" "list_all is_digit code" "length code \<in> {8, 12, 13, 14}"
    and "i < length code" "is_digit d" "d \<noteq> code ! i"
  shows "normalizeBarcode (code[i := d]) None = Inl Check_digit_mismatch"
proof -
  let ?new = "code[i := d]"
  have solid: "compact s = s" if "list_all is_digit s" for s
    using that digit_solid by (intro compact_solid) (auto simp: list_all_iff)
  have new: "list_all is_digit ?new" using assms(2,5) set_update_subset_insert [of code i d] by (auto simp: list_all_iff)
  have ok: "gtinCheckDigit (butlast code) = digit_val (last code)"
    using assms(1-3) solid by (auto simp: normalizeBarcode_def normalize_digits_def Let_def success_simps)
  have "gtinCheckDigit (butlast ?new) \<noteq> digit_val (last ?new)"
  proof (cases "i = length code - 1")
    case True
    then have "butlast ?new = butlast code" "last ?new = d" "code ! i = last code"
      using assms(4) by (cases code rule: rev_cases; simp)+
    then show ?thesis using ok assms(6) digit_val_inj by metis
  next
    case False
    let ?rev = "rev (butlast code)" and ?k = "length (butlast code) - i - 1"
    have i: "i < length (butlast code)" using False assms(4) by simp
    have b: "butlast ?new = (butlast code)[i := d]" "last ?new = last code"
      using False assms(4) by (cases code rule: rev_cases; simp add: list_update_append nth_append split: nat.splits)+
    have "length (butlast code) - Suc ?k = i" using i by linarith
    then have nth: "?rev ! ?k = code ! i" using i rev_nth [of ?k "butlast code"] by (simp add: nth_butlast)
    have ds: "0 \<le> digit_val (last code) \<and> digit_val (last code) \<le> 9" "0 \<le> digit_val (code ! i) \<and> digit_val (code ! i) \<le> 9"
      using assms(2,4) digit_range [of "last code"] digit_range [of "code ! i"] last_in_set [of code] by (fastforce simp: list_all_iff)+
    let ?w = "if (0 + ?k) mod 2 = 0 then 3 else 1 :: int"
    have sum: "gtin_sum 0 (rev ((butlast code)[i := d])) = gtin_sum 0 ?rev + ?w * (digit_val d - digit_val (code ! i))"
      using i gtin_sum_update [of ?k ?rev 0 d] nth by (simp add: rev_update)
    show ?thesis
    proof
      assume "gtinCheckDigit (butlast ?new) = digit_val (last ?new)"
      then have "(gtin_sum 0 ?rev + ?w * (digit_val d - digit_val (code ! i)) + digit_val (last code)) mod 10 = 0"
        using check_digit_iff ds(1) by (simp only: b sum)
      moreover have "(gtin_sum 0 ?rev + digit_val (last code)) mod 10 = 0" using ok check_digit_iff ds(1) by blast
      ultimately have "digit_val d - digit_val (code ! i) = 0"
        using weighted_digit_0 [of "gtin_sum 0 ?rev" "digit_val (last code)" ?w "digit_val d - digit_val (code ! i)"] ds(2) digit_range [OF assms(5)]
        by simp
      then show False using assms(6) digit_val_inj by simp
    qed
  qed
  then show ?thesis using assms(3,4) new solid by (auto simp: normalizeBarcode_def normalize_digits_def Let_def guardE_def)
qed

lemma barcodes_have_one_normal_form_witness:
  "\<exists>b. normalizeBarcode '' 0123-4567 8905 '' None = Inr b \<and> nb_code b = ''00012345678905''
     \<and> normalizeBarcode ''0012345678905'' None = Inr (b\<lparr>nb_display := ''0012345678905''\<rparr>)
     \<and> normalizeBarcode (nb_code b) None = Inr (b\<lparr>nb_display := nb_code b\<rparr>)"
proof -
  have "map_sum (\<lambda>_. ()) (\<lambda>b. (nb_code b, nb_format b, nb_display b)) (normalizeBarcode '' 0123-4567 8905 '' None)
      = Inr (''00012345678905'', GTIN, ''012345678905'')" by code_simp
  then obtain b where b: "normalizeBarcode '' 0123-4567 8905 '' None = Inr b" "nb_code b = ''00012345678905''" "nb_format b = GTIN"
      "nb_display b = ''012345678905''"
    by (cases "normalizeBarcode '' 0123-4567 8905 '' None") auto
  note t = barcodes_have_one_normal_form [OF b(1)]
  note zeros = t [THEN conjunct2, THEN conjunct1, unfolded if_P [OF b(3)], THEN conjunct2, THEN conjunct2, THEN conjunct2, THEN conjunct2]
  from spec [OF zeros, of 1] have "normalizeBarcode ''0012345678905'' None = Inr (b\<lparr>nb_display := ''0012345678905''\<rparr>)"
    by (simp add: b(4))
  then show ?thesis using b(1,2) t [THEN conjunct2, THEN conjunct2] by blast
qed

lemma misread_digits_are_caught_witness:
  "normalizeBarcode ''5901234123458'' None = Inl Check_digit_mismatch"
proof -
  have "map_sum (\<lambda>_. ()) (\<lambda>_. ()) (normalizeBarcode ''5901234123457'' None) = Inr ()" by code_simp
  then obtain b where b: "normalizeBarcode ''5901234123457'' None = Inr b" by (cases "normalizeBarcode ''5901234123457'' None") auto
  have l: "list_all is_digit ''5901234123457''" "is_digit (CHR ''8'')" by code_simp+
  from misread_digits_are_caught [OF b l(1) _ _ l(2), of 12] show ?thesis by simp
qed

end
