(* ===== verification/Csv.thy ===== *)
theory Csv
  imports Money
begin

text \<open>
  Reading comma-separated text (\<^verbatim>\<open>parseCsv\<close> of \<^verbatim>\<open>packages/shared/src/product-catalog.ts\<close>): quoted fields, doubled quotes, commas
  and line breaks inside quotes, rows without content dropped. The byte order mark that the source strips is no character
  of the model.
\<close>

abbreviation QUOTE :: char where "QUOTE \<equiv> CHR 0x22"
abbreviation COMMA :: char where "COMMA \<equiv> CHR '',''"
abbreviation LF :: char where "LF \<equiv> CHR 0x0A"
abbreviation CR :: char where "CR \<equiv> CHR 0x0D"

definition push_row :: "string list \<Rightarrow> string list list \<Rightarrow> string list list" where
  "push_row row rows = (if list_ex (\<lambda>cell. js_trim cell \<noteq> []) row then rows @ [row] else rows)"

function csv_loop :: "string \<Rightarrow> bool \<Rightarrow> string \<Rightarrow> string list \<Rightarrow> string list list \<Rightarrow> string list list" where
  "csv_loop [] quoted field row rows = push_row (row @ [field]) rows"
| "csv_loop (ch # rest) quoted field row rows =
     (if quoted then
        (if ch = QUOTE then
           (if take 1 rest = [QUOTE] then csv_loop (drop 1 rest) True (field @ [QUOTE]) row rows
            else csv_loop rest False field row rows)
         else csv_loop rest True (field @ [ch]) row rows)
      else if ch = QUOTE \<and> field = [] then csv_loop rest True field row rows
      else if ch = COMMA then csv_loop rest False [] (row @ [field]) rows
      else if ch = LF \<or> ch = CR then
        csv_loop (if ch = CR \<and> take 1 rest = [LF] then drop 1 rest else rest) False [] [] (push_row (row @ [field]) rows)
      else csv_loop rest False (field @ [ch]) row rows)"
  by pat_completeness auto
termination
  by (relation "measure (\<lambda>(text, _). length text)") auto

definition parseCsv :: "string \<Rightarrow> string list list" where
  "parseCsv text = csv_loop text False [] [] []"

section \<open>Texts of the format\<close>

text \<open>
  A reference writer. Any field may be quoted; one that is not must be without commas and line breaks and must not begin with
  a quote. A row ends with a line feed, with or without a carriage return before it.
\<close>

definition plain :: "string \<Rightarrow> bool" where
  "plain f \<longleftrightarrow> (\<forall>c\<in>set f. c \<noteq> COMMA \<and> c \<noteq> LF \<and> c \<noteq> CR) \<and> take 1 f \<noteq> [QUOTE]"

fun escape :: "string \<Rightarrow> string" where
  "escape [] = []"
| "escape (c # cs) = (if c = QUOTE then [QUOTE, QUOTE] else [c]) @ escape cs"

definition write_field :: "bool \<times> string \<Rightarrow> string" where
  "write_field x = (if fst x then QUOTE # escape (snd x) @ [QUOTE] else snd x)"

fun write_row :: "(bool \<times> string) list \<Rightarrow> string" where
  "write_row [] = []"
| "write_row [x] = write_field x"
| "write_row (x # y # xs) = write_field x @ COMMA # write_row (y # xs)"

definition write_csv :: "(bool \<times> (bool \<times> string) list) list \<Rightarrow> string" where
  "write_csv rows = concat (map (\<lambda>(crlf, row). write_row row @ (if crlf then [CR, LF] else [LF])) rows)"

definition writable :: "(bool \<times> string) list \<Rightarrow> bool" where
  "writable row \<longleftrightarrow> (\<forall>(quoted, f)\<in>set row. quoted \<or> plain f) \<and> (\<exists>(quoted, f)\<in>set row. js_trim f \<noteq> [])"

section \<open>Reading them\<close>

lemma read_quoted:
  "take 1 rest \<noteq> [QUOTE] \<Longrightarrow> csv_loop (escape f @ QUOTE # rest) True acc row rows = csv_loop rest False (acc @ f) row rows"
proof (induction f arbitrary: acc)
  case (Cons c cs)
  then show ?case using Cons.IH [of "acc @ [c]"] by simp
qed simp

lemma read_plain:
  "\<forall>c\<in>set f. c \<noteq> COMMA \<and> c \<noteq> LF \<and> c \<noteq> CR \<Longrightarrow> acc \<noteq> [] \<or> take 1 f \<noteq> [QUOTE] \<Longrightarrow>
     csv_loop (f @ rest) False acc row rows = csv_loop rest False (acc @ f) row rows"
proof (induction f arbitrary: acc)
  case (Cons c cs)
  then show ?case using Cons.IH [of "acc @ [c]"] by auto
qed simp

lemma read_field:
  assumes "fst x \<or> plain (snd x)" "take 1 rest \<noteq> [QUOTE]"
  shows "csv_loop (write_field x @ rest) False [] row rows = csv_loop rest False (snd x) row rows"
proof (cases "fst x")
  case True
  then show ?thesis using read_quoted [of rest "snd x" "[]" row rows] assms(2) by (simp add: write_field_def)
next
  case False
  then show ?thesis using read_plain [of "snd x" "[]" rest row rows] assms(1) by (simp add: write_field_def plain_def)
qed

lemma read_row:
  assumes "row \<noteq> []" "\<forall>x\<in>set row. fst x \<or> plain (snd x)" "eol = [LF] \<or> eol = [CR, LF]"
  shows "csv_loop (write_row row @ eol @ rest) False [] done_cells rows
    = csv_loop rest False [] [] (push_row (done_cells @ map snd row) rows)"
  using assms(1,2)
proof (induction row arbitrary: done_cells rule: write_row.induct)
  case (2 x)
  have "csv_loop (write_field x @ eol @ rest) False [] done_cells rows = csv_loop (eol @ rest) False (snd x) done_cells rows"
    by (rule read_field) (use 2 assms(3) in auto)
  then show ?case using assms(3) by auto
next
  case (3 x y xs)
  have "csv_loop (write_field x @ COMMA # write_row (y # xs) @ eol @ rest) False [] done_cells rows
    = csv_loop (COMMA # write_row (y # xs) @ eol @ rest) False (snd x) done_cells rows"
    by (rule read_field) (use 3 in auto)
  then show ?case using 3 by simp
qed simp

lemma push_writable: "writable row \<Longrightarrow> push_row (map snd row) rows = rows @ [map snd row]"
  unfolding writable_def push_row_def list_ex_iff by (auto, metis snd_conv)

lemma read_rows:
  assumes "\<forall>(crlf, row)\<in>set rs. writable row"
  shows "csv_loop (write_csv rs @ rest) False [] [] rows = csv_loop rest False [] [] (rows @ map (map snd \<circ> snd) rs)"
  using assms
proof (induction rs arbitrary: rows)
  case (Cons r rs)
  obtain crlf row where r: "r = (crlf, row)" by (cases r)
  let ?eol = "if crlf then [CR, LF] else [LF]"
  have w: "writable row" using Cons.prems by (simp add: r)
  then have ne: "row \<noteq> []" and ok: "\<forall>x\<in>set row. fst x \<or> plain (snd x)" by (auto simp: writable_def)
  have "push_row (map snd row) rows = rows @ [map snd row]" by (rule push_writable [OF w])
  moreover have "write_csv (r # rs) @ rest = write_row row @ ?eol @ write_csv rs @ rest" by (simp add: write_csv_def r)
  moreover have "csv_loop (write_row row @ ?eol @ write_csv rs @ rest) False [] [] rows
      = csv_loop (write_csv rs @ rest) False [] [] (push_row ([] @ map snd row) rows)"
    by (rule read_row [OF ne ok]) simp
  ultimately show ?case using Cons by (simp add: r)
qed (simp add: write_csv_def)

text \<open>C40: comma-separated text is read back as it was written. Whichever fields of a table are quoted and however its rows end, as
  long as every row has some content and every field that needs quotes has them, the parser returns exactly the fields that
  were written: commas, line breaks and quotes in them included. A last row may lack its line end.\<close>

theorem csv_reads_what_was_written:
  assumes "\<forall>(crlf, row)\<in>set rs. writable row"
  shows "parseCsv (write_csv rs) = map (map snd \<circ> snd) rs
    \<and> (writable final \<longrightarrow> parseCsv (write_csv rs @ write_row final) = map (map snd \<circ> snd) rs @ [map snd final])"
proof -
  have "parseCsv (write_csv rs) = csv_loop [] False [] [] (map (map snd \<circ> snd) rs)"
    using read_rows [OF assms, of "[]" "[]"] by (simp add: parseCsv_def)
  then have 1: "parseCsv (write_csv rs) = map (map snd \<circ> snd) rs" by (simp add: push_row_def js_trim_def)
  have "parseCsv (write_csv rs @ write_row final) = map (map snd \<circ> snd) rs @ [map snd final]" if w: "writable final"
  proof -
    have ok: "final \<noteq> []" "\<forall>x\<in>set final. fst x \<or> plain (snd x)" using w by (auto simp: writable_def)
    have last: "csv_loop (write_row row) False [] cells rows = push_row (cells @ map snd row) rows"
      if "row \<noteq> []" "\<forall>x\<in>set row. fst x \<or> plain (snd x)" for row cells rows
      using that
    proof (induction row arbitrary: cells rule: write_row.induct)
      case (2 x)
      then show ?case using read_field [of x "[]" cells rows] by simp
    next
      case (3 x y xs)
      then show ?case using read_field [of x "COMMA # write_row (y # xs)" cells rows] by simp
    qed simp
    have "push_row (map snd final) (map (map snd \<circ> snd) rs) = map (map snd \<circ> snd) rs @ [map snd final]"
      by (rule push_writable [OF w])
    then show ?thesis using read_rows [OF assms, of "write_row final" "[]"] last [OF ok, of "[]"] by (simp add: parseCsv_def)
  qed
  with 1 show ?thesis by blast
qed

lemma csv_reads_what_was_written_witness:
  "parseCsv (write_csv [(True, [(False, ''name''), (True, ''a,b'')]), (False, [(True, [QUOTE, LF]), (False, ''x'')])])
     = [[''name'', ''a,b''], [[QUOTE, LF], ''x'']]"
proof -
  have t: "js_trim ''name'' \<noteq> []" "js_trim ''x'' \<noteq> []" by code_simp+
  have "writable [(False, ''name''), (True, ''a,b'')]" "writable [(True, [QUOTE, LF]), (False, ''x'')]"
    using t by (simp_all add: writable_def plain_def)
  then show ?thesis
    using csv_reads_what_was_written [of "[(True, [(False, ''name''), (True, ''a,b'')]), (False, [(True, [QUOTE, LF]), (False, ''x'')])]" "[]"]
    by simp
qed

end
