(* ===== verification/Catalog_Import.thy ===== *)
theory Catalog_Import
  imports Barcodes Csv Stock
begin

text \<open>
  Imported catalogue files (\<^verbatim>\<open>packages/shared/src/product-catalog.ts\<close>): the schema of a product's fields and the row by row
  validation of a file. A JavaScript number is the exact rational its text denotes, unless it overflows; the conversions of
  case are those of the eight-bit characters; the rupee sign that the source drops from numbers is none of them.
\<close>

section \<open>Texts and numbers\<close>

definition upper_text :: "string \<Rightarrow> string" where
  "upper_text s = concat (map (\<lambda>c. if (of_char c :: nat) = 223 then ''SS'' else [ascii_upper c]) s)"

definition lower_char :: "char \<Rightarrow> char" where
  "lower_char c = (let n = of_char c :: nat in if 65 \<le> n \<and> n \<le> 90 \<or> 192 \<le> n \<and> n \<le> 222 \<and> n \<noteq> 215 then char_of (n + 32) else c)"

text \<open>Runs of spaces become one separator.\<close>

function squeeze :: "char \<Rightarrow> string \<Rightarrow> string" where
  "squeeze sep [] = []"
| "squeeze sep (c # cs) = (if is_space c then sep # squeeze sep (dropWhile is_space cs) else c # squeeze sep cs)"
  by pat_completeness auto
termination
  by (relation "measure (\<lambda>(_, s). length s)") (auto simp: le_imp_less_Suc length_dropWhile_le)

definition normalizeProductName :: "string \<Rightarrow> string" where
  "normalizeProductName value = squeeze (CHR '' '') (map lower_char (js_trim value))"

definition hex_digit :: "char \<Rightarrow> int" where
  "hex_digit c =
     (let n = of_char c :: nat in
      if is_digit c then digit_val c else if 65 \<le> n \<and> n \<le> 70 then int n - 55 else if 97 \<le> n \<and> n \<le> 102 then int n - 87 else 16)"

definition radix_number :: "int \<Rightarrow> string \<Rightarrow> rat option" where
  "radix_number b s =
     (if s \<noteq> [] \<and> list_all (\<lambda>c. hex_digit c < b) s then Some (of_int (foldl (\<lambda>n c. b * n + hex_digit c) 0 s)) else None)"

definition split_sign :: "string \<Rightarrow> bool \<times> string" where
  "split_sign s = (if take 1 s = ''-'' then (True, drop 1 s) else if take 1 s = ''+'' then (False, drop 1 s) else (False, s))"

definition exponent_part :: "string \<Rightarrow> int option" where
  "exponent_part s =
     (if s = [] then Some 0
      else if take 1 s = ''e'' \<or> take 1 s = ''E'' then
        (let (negative, ds) = split_sign (drop 1 s)
         in if ds \<noteq> [] \<and> list_all is_digit ds then Some (if negative then - parse_int ds else parse_int ds) else None)
      else None)"

definition scale10 :: "rat \<Rightarrow> int \<Rightarrow> rat" where
  "scale10 x e = (if e \<ge> 0 then x * 10 ^ nat e else x / 10 ^ nat (- e))"

definition decimal_number :: "string \<Rightarrow> rat option" where
  "decimal_number s =
     (let whole = takeWhile is_digit s; r = dropWhile is_digit s;
          fraction = (if take 1 r = ''.'' then takeWhile is_digit (drop 1 r) else []);
          r' = (if take 1 r = ''.'' then dropWhile is_digit (drop 1 r) else r)
      in if whole @ fraction = [] then None
         else map_option (\<lambda>e. scale10 (of_int (parse_int (whole @ fraction))) (e - int (length fraction))) (exponent_part r'))"

text \<open>\<^verbatim>\<open>Number(text)\<close> when it is finite.\<close>

definition js_number :: "string \<Rightarrow> rat option" where
  "js_number text =
     (let s = js_trim text in
      if s = [] then Some 0
      else if take 2 s \<in> {''0x'', ''0X''} then radix_number 16 (drop 2 s)
      else if take 2 s \<in> {''0o'', ''0O''} then radix_number 8 (drop 2 s)
      else if take 2 s \<in> {''0b'', ''0B''} then radix_number 2 (drop 2 s)
      else (let (negative, u) = split_sign s in
            case decimal_number u of
              None \<Rightarrow> None
            | Some v \<Rightarrow> if v \<ge> 2 ^ 1024 - 2 ^ 970 then None else Some (if negative then - v else v)))"

section \<open>The fields of a product\<close>

datatype product_type = PT_PROFESSIONAL | PT_RETAIL | PT_BOTH

record product_fields =
  pf_name :: string
  pf_brand :: "string option"
  pf_manufacturer :: "string option"
  pf_category :: "string option"
  pf_subcategory :: "string option"
  pf_description :: "string option"
  pf_packSize :: "rat option"
  pf_packUnit :: "inventory_unit option"
  pf_mrp :: "rat option"
  pf_hsnCode :: "string option"
  pf_gstRate :: "rat option"
  pf_productType :: "product_type option"

definition text_ok :: "nat \<Rightarrow> string \<Rightarrow> bool" where
  "text_ok m s \<longleftrightarrow> 1 \<le> length (js_trim s) \<and> length (js_trim s) \<le> m"

definition opt_ok :: "('a \<Rightarrow> bool) \<Rightarrow> 'a option \<Rightarrow> bool" where
  "opt_ok p x = (case x of None \<Rightarrow> True | Some v \<Rightarrow> p v)"

definition short_text :: "nat \<Rightarrow> string option \<Rightarrow> bool" where
  "short_text m = opt_ok (\<lambda>s. length (js_trim s) \<le> m)"

definition whole_steps :: "rat \<Rightarrow> rat \<Rightarrow> bool" where
  "whole_steps n x \<longleftrightarrow> of_int \<lfloor>x * n\<rfloor> = x * n"

definition field_checks :: "product_fields \<Rightarrow> (string \<times> bool) list" where
  "field_checks v =
     [(''name'', text_ok 160 (pf_name v)),
      (''brand'', short_text 120 (pf_brand v)),
      (''manufacturer'', short_text 160 (pf_manufacturer v)),
      (''category'', short_text 80 (pf_category v)),
      (''subcategory'', short_text 80 (pf_subcategory v)),
      (''description'', short_text 1000 (pf_description v)),
      (''packSize'', opt_ok (\<lambda>x. 0 < x \<and> x \<le> 999999 \<and> whole_steps 1000 x) (pf_packSize v)),
      (''mrp'', opt_ok (\<lambda>x. 0 \<le> x \<and> x \<le> 999999999999 / 100 \<and> whole_steps 100 x) (pf_mrp v)),
      (''hsnCode'', opt_ok (\<lambda>s. list_all is_digit (js_trim s) \<and> 4 \<le> length (js_trim s) \<and> length (js_trim s) \<le> 8) (pf_hsnCode v)),
      (''gstRatePercent'', opt_ok (\<lambda>x. 0 \<le> x \<and> x \<le> 28 \<and> whole_steps 100 x) (pf_gstRate v)),
      (''productType'', pf_productType v \<noteq> None)]"

definition trimmed_fields :: "product_fields \<Rightarrow> product_fields" where
  "trimmed_fields v = v\<lparr>pf_name := js_trim (pf_name v), pf_brand := map_option js_trim (pf_brand v),
     pf_manufacturer := map_option js_trim (pf_manufacturer v), pf_category := map_option js_trim (pf_category v),
     pf_subcategory := map_option js_trim (pf_subcategory v), pf_description := map_option js_trim (pf_description v),
     pf_hsnCode := map_option js_trim (pf_hsnCode v)\<rparr>"

text \<open>The paths that fail, or the parsed value.\<close>

definition catalogProductFieldsSchema :: "product_fields \<Rightarrow> string list + product_fields" where
  "catalogProductFieldsSchema v =
     (let failed = map fst (filter (\<lambda>c. \<not> snd c) (field_checks v)) in if failed = [] then Inr (trimmed_fields v) else Inl failed)"

section \<open>Rows of a file\<close>

datatype import_status = ROW_NEW | DUPLICATE_IN_FILE | ROW_EXISTS | ROW_INVALID
datatype import_error = Barcode_issue barcode_error | Not_a_number string | Unknown_unit string | Bad_product_type | Bad_image_url
  | Field_issue string | Same_as_line nat
datatype header_error = Empty_file | Missing_column string | Unknown_columns "string list" | Too_many_rows

record import_product =
  nw_fields :: product_fields
  nw_barcode :: string
  nw_display :: string
  nw_imageUrl :: "string option"

record import_row =
  rw_line :: nat
  rw_barcode :: string
  rw_name :: string
  rw_status :: import_status
  rw_errors :: "import_error list"
  rw_product :: "import_product option"

definition CATALOG_IMPORT_MAX_ROWS :: nat where "CATALOG_IMPORT_MAX_ROWS = 5000"

definition CATALOG_IMPORT_COLUMNS :: "string list" where
  "CATALOG_IMPORT_COLUMNS = [''barcode'', ''name'', ''brand'', ''manufacturer'', ''category'', ''subcategory'', ''description'',
     ''pack_size'', ''pack_unit'', ''mrp'', ''hsn_code'', ''gst_rate'', ''product_type'', ''image_url'']"

definition UNIT_ALIASES :: "(string \<times> inventory_unit) list" where
  "UNIT_ALIASES =
     [(''each'', EACH), (''pc'', EACH), (''pcs'', EACH), (''piece'', EACH), (''unit'', EACH),
      (''g'', GRAM), (''gm'', GRAM), (''gram'', GRAM), (''grams'', GRAM),
      (''kg'', KILOGRAM), (''kilogram'', KILOGRAM),
      (''ml'', MILLILITER), (''milliliter'', MILLILITER), (''millilitre'', MILLILITER),
      (''l'', LITER), (''ltr'', LITER), (''liter'', LITER), (''litre'', LITER),
      (''pack'', PACK), (''box'', BOX)]"

definition unit_names :: "(string \<times> inventory_unit) list" where
  "unit_names = [(''EACH'', EACH), (''GRAM'', GRAM), (''KILOGRAM'', KILOGRAM), (''MILLILITER'', MILLILITER), (''LITER'', LITER),
     (''PACK'', PACK), (''BOX'', BOX), (''OTHER'', OTHER_UNIT)]"

definition type_names :: "(string \<times> product_type) list" where
  "type_names = [(''PROFESSIONAL'', PT_PROFESSIONAL), (''RETAIL'', PT_RETAIL), (''BOTH'', PT_BOTH)]"

definition header_name :: "string \<Rightarrow> string" where
  "header_name h = squeeze (CHR ''_'') (map lower_char (js_trim h))"

definition header_errors :: "string list \<Rightarrow> nat \<Rightarrow> header_error list" where
  "header_errors header n =
     (let unknown = filter (\<lambda>h. h \<noteq> [] \<and> h \<notin> set CATALOG_IMPORT_COLUMNS) header
      in map Missing_column (filter (\<lambda>c. c \<notin> set header) [''barcode'', ''name''])
         @ (if unknown \<noteq> [] then [Unknown_columns unknown] else [])
         @ (if n > CATALOG_IMPORT_MAX_ROWS then [Too_many_rows] else []))"

text \<open>The first column of a name counts; a row may be shorter than the header.\<close>

definition cell :: "string list \<Rightarrow> string list \<Rightarrow> string \<Rightarrow> string option" where
  "cell header cells column =
     (case map_of (zip header cells) column of None \<Rightarrow> None | Some v \<Rightarrow> if js_trim v = [] then None else Some (js_trim v))"

text \<open>A number cell with the error it raises.\<close>

definition number_cell :: "string option \<Rightarrow> string \<Rightarrow> rat option \<times> import_error list" where
  "number_cell value label =
     (case value of
        None \<Rightarrow> (None, [])
      | Some v \<Rightarrow> (case js_number (filter (\<lambda>c. \<not> (c = COMMA \<or> is_space c)) v) of
                     None \<Rightarrow> (None, [Not_a_number label])
                   | Some x \<Rightarrow> (Some x, [])))"

definition image_url_ok :: "string \<Rightarrow> bool" where
  "image_url_ok u \<longleftrightarrow> take 8 u = ''https://'' \<and> 1 \<le> length (drop 8 u) \<and> length (drop 8 u) \<le> 490 \<and> list_all (\<lambda>c. \<not> is_space c) (drop 8 u)"

definition row_unit :: "string option \<Rightarrow> inventory_unit option" where
  "row_unit t = (case t of None \<Rightarrow> None | Some u \<Rightarrow> orElse (map_of UNIT_ALIASES (map lower_char u)) (map_of unit_names (upper_text u)))"

definition row_type :: "string option \<Rightarrow> product_type option" where
  "row_type t = (case t of None \<Rightarrow> Some PT_BOTH | Some u \<Rightarrow> map_of type_names (upper_text u))"

text \<open>What the cells of a row say, whatever the other rows are: its code, the errors, the parsed fields.\<close>

definition read_row_cells :: "string list \<Rightarrow> string list \<Rightarrow> (barcode_error + barcode) \<times> import_error list \<times> product_fields \<times> (string list + product_fields)" where
  "read_row_cells header cells =
     (let get = cell header cells;
          normalized = normalizeBarcode (nvl (get ''barcode'') []) None;
          packUnit = row_unit (get ''pack_unit'');
          productType = row_type (get ''product_type'');
          (packSize, e1) = number_cell (get ''pack_size'') ''Pack size'';
          (mrp, e2) = number_cell (get ''mrp'') ''MRP'';
          (gst, e3) = number_cell (get ''gst_rate'') ''GST rate'';
          candidate = \<lparr>pf_name = nvl (get ''name'') [], pf_brand = get ''brand'', pf_manufacturer = get ''manufacturer'',
            pf_category = get ''category'', pf_subcategory = get ''subcategory'', pf_description = get ''description'',
            pf_packSize = packSize, pf_packUnit = packUnit, pf_mrp = mrp, pf_hsnCode = get ''hsn_code'', pf_gstRate = gst,
            pf_productType = productType\<rparr>;
          parsed = catalogProductFieldsSchema candidate
      in (normalized,
          (case normalized of Inl err \<Rightarrow> [Barcode_issue err] | Inr _ \<Rightarrow> [])
          @ (case get ''pack_unit'' of None \<Rightarrow> [] | Some t \<Rightarrow> if packUnit = None then [Unknown_unit t] else [])
          @ (if productType = None then [Bad_product_type] else [])
          @ (case get ''image_url'' of None \<Rightarrow> [] | Some u \<Rightarrow> if image_url_ok u then [] else [Bad_image_url])
          @ e1 @ e2 @ e3
          @ (case parsed of Inl ps \<Rightarrow> map Field_issue ps | Inr _ \<Rightarrow> []),
          candidate, parsed))"

definition validate_row :: "string list \<Rightarrow> string list \<Rightarrow> (string \<times> nat) list \<Rightarrow> nat \<Rightarrow> string list \<Rightarrow> import_row \<times> (string \<times> nat) list" where
  "validate_row header existing seen line cells =
     (let (normalized, errors, candidate, parsed) = read_row_cells header cells;
          code = (case normalized of Inl _ \<Rightarrow> [] | Inr b \<Rightarrow> nb_code b);
          (status, errors') =
            (if errors \<noteq> [] then (ROW_INVALID, errors)
             else (case map_of seen code of
                     Some l \<Rightarrow> (DUPLICATE_IN_FILE, errors @ [Same_as_line l])
                   | None \<Rightarrow> (if code \<in> set existing then ROW_EXISTS else ROW_NEW, errors)));
          prod = (case (normalized, parsed) of
                    (Inr b, Inr v) \<Rightarrow>
                      if status = ROW_NEW
                      then Some \<lparr>nw_fields = v, nw_barcode = nb_code b, nw_display = nb_display b, nw_imageUrl = cell header cells ''image_url''\<rparr>
                      else None
                  | _ \<Rightarrow> None)
      in (\<lparr>rw_line = line, rw_barcode = nvl (cell header cells ''barcode'') [], rw_name = pf_name candidate, rw_status = status,
            rw_errors = errors', rw_product = prod\<rparr>,
          if code \<noteq> [] \<and> map_of seen code = None then (code, line) # seen else seen))"

fun validate_rows :: "string list \<Rightarrow> string list \<Rightarrow> (string \<times> nat) list \<Rightarrow> nat \<Rightarrow> string list list \<Rightarrow> import_row list" where
  "validate_rows header existing seen line [] = []"
| "validate_rows header existing seen line (cells # rest) =
     (let (row, seen') = validate_row header existing seen line cells in row # validate_rows header existing seen' (line + 1) rest)"

definition validateCatalogCsv :: "string \<Rightarrow> string list \<Rightarrow> header_error list + import_row list" where
  "validateCatalogCsv csv existing =
     (case parseCsv csv of
        [] \<Rightarrow> Inl [Empty_file]
      | first # rest \<Rightarrow>
          (let header = map header_name first; errs = header_errors header (length rest)
           in if errs \<noteq> [] then Inl errs else Inr (validate_rows header existing [] 2 rest)))"

end
