(* ===== verification/Master_Catalog.thy ===== *)
theory Master_Catalog
  imports Catalog_Import
begin

text \<open>
  The catalogue all shops share: looking a scanned barcode up and submitting an unknown product
  (\<^verbatim>\<open>inventory/product-catalog.service.ts\<close>), and the review and the import of files by the platform
  (\<^verbatim>\<open>inventory/admin-inventory.service.ts\<close>). A product is kept with its barcodes and images; codes are unique in the whole
  catalogue. The database outside it (\<open>app\<close>) and the external suggestions are arguments. The shop's own products that a lookup
  lists beside its result, and the pages of the admin, are left out.
\<close>

section \<open>Rows\<close>

datatype data_source = DS_CSV_IMPORT | DS_OPEN_BEAUTY_FACTS | DS_SALON_SUBMITTED

record master_product =
  mp_id :: id
  mp_fields :: product_fields
  mp_normalizedName :: string
  mp_currency :: "string option"
  mp_source :: data_source
  mp_reference :: "string option"
  mp_license :: "string option"
  mp_status :: verification
  mp_submittedBy :: "id option"
  mp_createdBy :: id
  mp_reviewedBy :: "id option"
  mp_reviewedAt :: "int option"
  mp_reviewNote :: "string option"
  mp_barcodes :: "barcode list"
  mp_images :: "string list"

record master =
  mc_next :: id
  mc_products :: "master_product list"
  mc_audit :: "event list"

datatype catalog_error = INVALID_BARCODE barcode_error | BARCODE_EXISTS | MASTER_PRODUCT_NOT_FOUND | IMPORT_INVALID "header_error list"
  | CATALOG_ACCESS app_error

definition master_codes :: "master \<Rightarrow> string list" where
  "master_codes s = concat (map (\<lambda>p. map nb_code (mp_barcodes p)) (mc_products s))"

definition find_code :: "string \<Rightarrow> master \<Rightarrow> master_product option" where
  "find_code code s = find (\<lambda>p. code \<in> nb_code ` set (mp_barcodes p)) (mc_products s)"

text \<open>The insertion of a product with its one barcode, which fails on the unique code.\<close>

definition insert_master :: "master_product \<Rightarrow> barcode \<Rightarrow> master \<Rightarrow> (master \<times> id) option" where
  "insert_master p b s =
     (if nb_code b \<in> set (master_codes s) then None
      else Some (s\<lparr>mc_products := mc_products s @ [p\<lparr>mp_id := mc_next s, mp_barcodes := [b]\<rparr>], mc_next := mc_next s + 1\<rparr>, mc_next s))"

definition log_master :: "id \<Rightarrow> string \<Rightarrow> id \<Rightarrow> master \<Rightarrow> master" where
  "log_master userId action i s = s\<lparr>mc_audit := mc_audit s @ [Audit (Some userId) action i]\<rparr>"

definition clean :: "string option \<Rightarrow> string option" where
  "clean v = (case v of None \<Rightarrow> None | Some x \<Rightarrow> if js_trim x = [] then None else Some (js_trim x))"

definition clean_fields :: "product_fields \<Rightarrow> product_fields" where
  "clean_fields v = v\<lparr>pf_name := js_trim (pf_name v), pf_brand := clean (pf_brand v), pf_manufacturer := clean (pf_manufacturer v),
     pf_category := clean (pf_category v), pf_subcategory := clean (pf_subcategory v), pf_description := clean (pf_description v)\<rparr>"

definition catalog_access :: "app_error + 'a \<Rightarrow> catalog_error + 'a" where
  "catalog_access m = (case m of Inl err \<Rightarrow> Inl (CATALOG_ACCESS err) | Inr x \<Rightarrow> Inr x)"

lemma catalog_access_Inr [success_simps]: "catalog_access m = Inr y \<longleftrightarrow> m = Inr y"
  by (simp add: catalog_access_def split: sum.splits)

definition valid_barcode :: "string \<Rightarrow> barcode_hint option \<Rightarrow> catalog_error + barcode" where
  "valid_barcode raw hint = (case normalizeBarcode raw hint of Inl err \<Rightarrow> Inl (INVALID_BARCODE err) | Inr b \<Rightarrow> Inr b)"

lemma valid_barcode_Inr [success_simps]: "valid_barcode raw hint = Inr b \<longleftrightarrow> normalizeBarcode raw hint = Inr b"
  by (simp add: valid_barcode_def split: sum.splits)

section \<open>Shops\<close>

datatype lookup_result = FOUND id | FOUND_PENDING id | PENDING_ELSEWHERE id | EXTERNAL_SUGGESTION string | NOT_IN_CATALOG

definition lookup_code :: "(string \<Rightarrow> string option) \<Rightarrow> db \<Rightarrow> id \<Rightarrow> id \<Rightarrow> string \<Rightarrow> barcode_hint option \<Rightarrow> master \<Rightarrow> catalog_error + lookup_result" where
  "lookup_code external app userId salonId raw hint s =
     bindE (catalog_access (assertOwnerOrAdminAccess app userId salonId)) (\<lambda>_.
     bindE (valid_barcode raw hint) (\<lambda>b.
     let outside = (case external (nb_display b) of None \<Rightarrow> NOT_IN_CATALOG | Some suggestion \<Rightarrow> EXTERNAL_SUGGESTION suggestion)
     in Inr (case find_code (nb_code b) s of
               None \<Rightarrow> outside
             | Some p \<Rightarrow>
                 if mp_status p = REJECTED then outside
                 else if mp_status p = VERIFIED then FOUND (mp_id p)
                 else if mp_submittedBy p = Some salonId then FOUND_PENDING (mp_id p)
                 else PENDING_ELSEWHERE (mp_id p))))"

record submission =
  sb_fields :: product_fields
  sb_barcode :: string
  sb_hint :: "barcode_hint option"
  sb_source :: data_source
  sb_reference :: "string option"
  sb_images :: "string list"

definition submitProduct :: "db \<Rightarrow> id \<Rightarrow> id \<Rightarrow> submission \<Rightarrow> master \<Rightarrow> catalog_error + (master \<times> id)" where
  "submitProduct app userId salonId input s =
     bindE (catalog_access (assertOwnerOrAdminAccess app userId salonId)) (\<lambda>_.
     bindE (valid_barcode (sb_barcode input) (sb_hint input)) (\<lambda>b.
     let v = sb_fields input;
         p = \<lparr>mp_id = 0, mp_fields = clean_fields v, mp_normalizedName = normalizeProductName (pf_name v),
              mp_currency = (if pf_mrp v = None then None
                else Some (case find_salon app salonId of None \<Rightarrow> ''INR'' | Some sa \<Rightarrow> nvl (sa_currency sa) ''INR'')),
              mp_source = sb_source input, mp_reference = clean (sb_reference input),
              mp_license = (if sb_source input = DS_OPEN_BEAUTY_FACTS then Some ''ODbL-1.0'' else None),
              mp_status = PENDING_REVIEW, mp_submittedBy = Some salonId, mp_createdBy = userId, mp_reviewedBy = None,
              mp_reviewedAt = None, mp_reviewNote = None, mp_barcodes = [], mp_images = sb_images input\<rparr>
     in theE (insert_master p b s) BARCODE_EXISTS (\<lambda>(t, i). Inr (log_master userId ''CATALOG_PRODUCT_SUBMITTED'' i t, i))))"

section \<open>The platform\<close>

datatype review_action = REVIEW_VERIFY | REVIEW_REJECT

text \<open>An edit names the new value of a field, or nothing; a nullable field may be set to none.\<close>

record review_edits =
  ed_name :: "string option"
  ed_brand :: "string option option"
  ed_manufacturer :: "string option option"
  ed_category :: "string option option"
  ed_subcategory :: "string option option"
  ed_description :: "string option option"
  ed_packSize :: "rat option option"
  ed_packUnit :: "inventory_unit option option"
  ed_mrp :: "rat option option"
  ed_hsnCode :: "string option option"
  ed_gstRate :: "rat option option"
  ed_productType :: "product_type option"

definition new_name :: "review_edits \<Rightarrow> string option" where
  "new_name e = (case ed_name e of None \<Rightarrow> None | Some n \<Rightarrow> if n = [] then None else Some n)"

definition edit_fields :: "review_edits \<Rightarrow> product_fields \<Rightarrow> product_fields" where
  "edit_fields e v =
     \<lparr>pf_name = (case new_name e of None \<Rightarrow> pf_name v | Some n \<Rightarrow> js_trim n),
      pf_brand = (case ed_brand e of None \<Rightarrow> pf_brand v | Some x \<Rightarrow> clean x),
      pf_manufacturer = (case ed_manufacturer e of None \<Rightarrow> pf_manufacturer v | Some x \<Rightarrow> clean x),
      pf_category = (case ed_category e of None \<Rightarrow> pf_category v | Some x \<Rightarrow> clean x),
      pf_subcategory = (case ed_subcategory e of None \<Rightarrow> pf_subcategory v | Some x \<Rightarrow> clean x),
      pf_description = (case ed_description e of None \<Rightarrow> pf_description v | Some x \<Rightarrow> clean x),
      pf_packSize = nvl (ed_packSize e) (pf_packSize v),
      pf_packUnit = nvl (ed_packUnit e) (pf_packUnit v),
      pf_mrp = nvl (ed_mrp e) (pf_mrp v),
      pf_hsnCode = nvl (ed_hsnCode e) (pf_hsnCode v),
      pf_gstRate = nvl (ed_gstRate e) (pf_gstRate v),
      pf_productType = (case ed_productType e of None \<Rightarrow> pf_productType v | Some x \<Rightarrow> Some x)\<rparr>"

definition reviewProduct :: "int \<Rightarrow> master \<Rightarrow> id \<Rightarrow> id \<Rightarrow> review_action \<Rightarrow> string option \<Rightarrow> review_edits \<Rightarrow> master \<Rightarrow> catalog_error + master" where
  "reviewProduct clk pre adminUserId productId action msg edits s =
     guardE (exists_where (\<lambda>p. mp_id p = productId) (mc_products pre)) MASTER_PRODUCT_NOT_FOUND
    (guardE (exists_where (\<lambda>p. mp_id p = productId) (mc_products s)) MASTER_PRODUCT_NOT_FOUND
       (Inr (log_master adminUserId (if action = REVIEW_VERIFY then ''CATALOG_PRODUCT_VERIFIED'' else ''CATALOG_PRODUCT_REJECTED'') productId
         (s\<lparr>mc_products := upd_where (\<lambda>p. mp_id p = productId)
              (\<lambda>p. p\<lparr>mp_fields := edit_fields edits (mp_fields p),
                     mp_normalizedName := (case new_name edits of None \<Rightarrow> mp_normalizedName p | Some n \<Rightarrow> normalizeProductName n),
                     mp_status := (if action = REVIEW_VERIFY then VERIFIED else REJECTED),
                     mp_reviewedBy := Some adminUserId, mp_reviewedAt := Some clk, mp_reviewNote := clean msg\<rparr>) (mc_products s)\<rparr>))))"

text \<open>A file is validated twice: once to know its codes, then against those the catalogue has.\<close>

definition importPreview :: "master \<Rightarrow> string \<Rightarrow> header_error list + import_row list" where
  "importPreview s csv =
     (let codes = (case validateCatalogCsv csv [] of
                     Inl _ \<Rightarrow> []
                   | Inr rows \<Rightarrow> concat (map (\<lambda>r. case rw_product r of None \<Rightarrow> [] | Some p \<Rightarrow> [nw_barcode p]) rows))
      in validateCatalogCsv csv (filter (\<lambda>c. c \<in> set codes) (master_codes s)))"

definition imported_barcode :: "import_product \<Rightarrow> barcode" where
  "imported_barcode p = \<lparr>nb_code = nw_barcode p,
     nb_format = (if length (nw_barcode p) = 14 \<and> list_all is_digit (nw_barcode p) then GTIN else OTHER_CODE), nb_display = nw_display p\<rparr>"

definition imported_product :: "int \<Rightarrow> id \<Rightarrow> string \<Rightarrow> string \<Rightarrow> import_product \<Rightarrow> master_product" where
  "imported_product clk adminUserId reference license p =
     \<lparr>mp_id = 0, mp_fields = nw_fields p, mp_normalizedName = normalizeProductName (pf_name (nw_fields p)),
      mp_currency = (if pf_mrp (nw_fields p) = None then None else Some ''INR''), mp_source = DS_CSV_IMPORT,
      mp_reference = Some reference, mp_license = Some license, mp_status = VERIFIED, mp_submittedBy = None,
      mp_createdBy = adminUserId, mp_reviewedBy = Some adminUserId, mp_reviewedAt = Some clk, mp_reviewNote = None,
      mp_barcodes = [], mp_images = (case nw_imageUrl p of None \<Rightarrow> [] | Some u \<Rightarrow> [u])\<rparr>"

text \<open>One transaction: the rows whose code is still free are saved, the others are marked. The model looks a code up and
  creates its row at once. In the code another transaction may insert the same code in between; the unique index then
  rejects the creation, the transaction of the chunk is rolled back and the import fails. That outcome is not modelled:
  an import here is one in which no creation was rejected.\<close>

fun import_chunk :: "int \<Rightarrow> id \<Rightarrow> string \<Rightarrow> string \<Rightarrow> import_row list \<Rightarrow> master \<Rightarrow> master \<times> import_row list" where
  "import_chunk clk adminUserId reference license [] s = (s, [])"
| "import_chunk clk adminUserId reference license (row # rows) s =
     (case rw_product row of
        None \<Rightarrow> let (t, out) = import_chunk clk adminUserId reference license rows s in (t, row # out)
      | Some p \<Rightarrow>
          (case insert_master (imported_product clk adminUserId reference license p) (imported_barcode p) s of
             None \<Rightarrow> let (t, out) = import_chunk clk adminUserId reference license rows s in (t, row\<lparr>rw_status := ROW_EXISTS\<rparr> # out)
           | Some (s1, _) \<Rightarrow> let (t, out) = import_chunk clk adminUserId reference license rows s1 in (t, row # out)))"

function chunks :: "nat \<Rightarrow> 'a list \<Rightarrow> 'a list list" where
  "chunks n xs = (if xs = [] \<or> n = 0 then [] else take n xs # chunks n (drop n xs))"
  by pat_completeness auto
termination
  by (relation "measure (\<lambda>(_, xs). length xs)") auto

declare chunks.simps [simp del]

text \<open>The transactions of an import, with what others commit before each of them.\<close>

fun import_chunks :: "int \<Rightarrow> id \<Rightarrow> string \<Rightarrow> string \<Rightarrow> (nat \<Rightarrow> master \<Rightarrow> master) \<Rightarrow> import_row list list \<Rightarrow> master \<Rightarrow> master \<times> import_row list" where
  "import_chunks clk adminUserId reference license others [] s = (s, [])"
| "import_chunks clk adminUserId reference license others (c # cs) s =
     (let (s1, out) = import_chunk clk adminUserId reference license c (others (length cs) s);
          (t, out') = import_chunks clk adminUserId reference license others cs s1
      in (t, out @ out'))"

definition to_create :: "import_row list \<Rightarrow> import_row list" where
  "to_create = filter (\<lambda>r. rw_status r = ROW_NEW \<and> rw_product r \<noteq> None)"

definition importCommit :: "int \<Rightarrow> (nat \<Rightarrow> master \<Rightarrow> master) \<Rightarrow> id \<Rightarrow> string \<Rightarrow> string \<Rightarrow> string \<Rightarrow> master \<Rightarrow> catalog_error + (master \<times> nat)" where
  "importCommit clk others adminUserId csv reference license s =
     (case importPreview s csv of
        Inl errs \<Rightarrow> Inl (IMPORT_INVALID errs)
      | Inr rows \<Rightarrow>
          (let (t, out) = import_chunks clk adminUserId reference license others (chunks 100 (to_create rows)) s
           in Inr (log_master adminUserId ''CATALOG_IMPORTED'' 0 t, count_where (\<lambda>r. rw_status r = ROW_NEW) out)))"

section \<open>Runs\<close>

definition empty_master :: master where
  "empty_master = \<lparr>mc_next = 1, mc_products = [], mc_audit = []\<rparr>"

text \<open>Commits in any order; an import works on a preview of any catalogue, and review on any earlier reading.\<close>

inductive master_step :: "master \<Rightarrow> master \<Rightarrow> bool" where
  submitted: "submitProduct app userId salonId input s = Inr (t, i) \<Longrightarrow> master_step s t"
| reviewed: "reviewProduct clk pre adminUserId productId action msg edits s = Inr t \<Longrightarrow> master_step s t"
| imported: "importPreview pre csv = Inr rows \<Longrightarrow> c \<in> set (chunks 100 (to_create rows)) \<Longrightarrow>
    import_chunk clk adminUserId reference license c s = (t, out) \<Longrightarrow> master_step s t"
| logged: "master_step s (log_master adminUserId action i s)"

text \<open>Every code is in its normal form, and no code occurs twice.\<close>

definition master_inv :: "master \<Rightarrow> bool" where
  "master_inv s \<longleftrightarrow> distinct (master_codes s) \<and> distinct (map mp_id (mc_products s)) \<and> (\<forall>p\<in>set (mc_products s). mp_id p < mc_next s
     \<and> (\<forall>b\<in>set (mp_barcodes p). well_formed_code (nb_format b) (nb_code b)))"

end
