(* ===== verification/Catalog_Props.thy ===== *)
theory Catalog_Props
  imports Master_Catalog Demo
begin

text \<open>
  What the shared catalogue keeps: every code in one form and on one product, files that can be imported again; and
  where scanning, submitting and importing do not fit together.
\<close>

section \<open>Codes\<close>

lemma insert_master_codes:
  "insert_master p b s = Some (t, i) \<Longrightarrow>
     nb_code b \<notin> set (master_codes s) \<and> master_codes t = master_codes s @ [nb_code b]
     \<and> mc_products t = mc_products s @ [p\<lparr>mp_id := mc_next s, mp_barcodes := [b]\<rparr>] \<and> mc_next t = mc_next s + 1 \<and> i = mc_next s"
  by (auto simp: insert_master_def master_codes_def split: if_splits)

lemma log_master_simps [simp]:
  "mc_products (log_master u a i s) = mc_products s" "mc_next (log_master u a i s) = mc_next s" "master_codes (log_master u a i s) = master_codes s"
  by (simp_all add: log_master_def master_codes_def)

lemma master_inv_cong:
  "mc_products t = mc_products s \<Longrightarrow> mc_next t = mc_next s \<Longrightarrow> master_inv t = master_inv s"
  by (simp add: master_inv_def master_codes_def)

lemma insert_master_inv:
  assumes "insert_master p b s = Some (t, i)" "master_inv s" "well_formed_code (nb_format b) (nb_code b)"
  shows "master_inv t"
  using insert_master_codes [OF assms(1)] assms(2,3) by (auto simp: master_inv_def image_iff)

lemma code_owner:
  assumes "master_inv s" "p \<in> set (mc_products s)" "b \<in> set (mp_barcodes p)"
  shows "find_code (nb_code b) s = Some p"
proof -
  have one: "q = p" if "distinct (concat (map (\<lambda>p. map nb_code (mp_barcodes p)) ps))" "p \<in> set ps" "q \<in> set ps"
    "nb_code b \<in> nb_code ` set (mp_barcodes q)" for q ps
    using that
  proof (induction ps)
    case (Cons x ps)
    have "nb_code b \<in> set (concat (map (\<lambda>p. map nb_code (mp_barcodes p)) ps))" if "p \<in> set ps \<or> q \<in> set ps"
      using that assms(3) Cons.prems(4) by auto
    moreover have "nb_code b \<in> set (map nb_code (mp_barcodes x))" if "x = p \<or> x = q" using that assms(3) Cons.prems(4) by auto
    ultimately show ?case using Cons by auto
  qed simp
  have d: "distinct (concat (map (\<lambda>p. map nb_code (mp_barcodes p)) (mc_products s)))"
    using assms(1) by (simp add: master_inv_def master_codes_def)
  have "find (\<lambda>q. nb_code b \<in> nb_code ` set (mp_barcodes q)) (mc_products s) \<noteq> None" using assms(2,3) by (auto simp: find_None_iff)
  then obtain q where q: "find (\<lambda>q. nb_code b \<in> nb_code ` set (mp_barcodes q)) (mc_products s) = Some q" by blast
  then have "q \<in> set (mc_products s)" "nb_code b \<in> nb_code ` set (mp_barcodes q)" by (auto dest: find_SomeD)
  then show ?thesis using one [OF d assms(2)] q by (simp add: find_code_def)
qed

section \<open>Rows of a file\<close>

lemma schema_says_why: "catalogProductFieldsSchema v \<noteq> Inl []"
  by (simp add: catalogProductFieldsSchema_def Let_def)

lemma read_row_clean:
  assumes "read_row_cells header cells = (normalized, [], candidate, parsed)"
  shows "(\<exists>b. normalized = Inr b) \<and> (\<exists>v. parsed = Inr v)"
  using assms by (cases normalized; cases parsed) (auto simp: read_row_cells_def Let_def schema_says_why split: prod.splits)

lemma read_row_barcode:
  "read_row_cells header cells = (normalized, errs, candidate, parsed) \<Longrightarrow> normalized = normalizeBarcode (nvl (cell header cells ''barcode'') []) None"
  by (auto simp: read_row_cells_def Let_def split: prod.splits)

text \<open>What exists already only removes rows from those that would be saved.\<close>

definition mark_existing :: "string list \<Rightarrow> import_row \<Rightarrow> import_row" where
  "mark_existing E r = (case rw_product r of
     None \<Rightarrow> r | Some p \<Rightarrow> if nw_barcode p \<in> set E then r\<lparr>rw_status := ROW_EXISTS, rw_product := None\<rparr> else r)"

lemma validate_row_existing:
  "validate_row header E seen line cells
     = (mark_existing E (fst (validate_row header [] seen line cells)), snd (validate_row header [] seen line cells))"
proof -
  obtain normalized errs candidate parsed where r: "read_row_cells header cells = (normalized, errs, candidate, parsed)" by (metis prod_cases4)
  show ?thesis
  proof (cases "errs = []")
    case True
    then obtain b v where bv: "normalized = Inr b" "parsed = Inr v" using read_row_clean r by blast
    show ?thesis using r True bv by (cases "map_of seen (nb_code b)") (simp_all add: validate_row_def Let_def mark_existing_def)
  next
    case False
    then show ?thesis using r by (simp add: validate_row_def Let_def mark_existing_def split: sum.splits)
  qed
qed

lemma validate_rows_existing:
  "validate_rows header E seen line rows = map (mark_existing E) (validate_rows header [] seen line rows)"
proof (induction rows arbitrary: seen line)
  case (Cons cells rest)
  show ?case using Cons validate_row_existing [of header E seen line cells]
    by (cases "validate_row header [] seen line cells") simp
qed simp

lemma validateCatalogCsv_existing:
  "validateCatalogCsv csv E = (case validateCatalogCsv csv [] of Inl errs \<Rightarrow> Inl errs | Inr rows \<Rightarrow> Inr (map (mark_existing E) rows))"
  by (cases "parseCsv csv") (simp_all add: validateCatalogCsv_def Let_def validate_rows_existing [of _ E])

lemma validate_row_product:
  assumes "validate_row header E seen line cells = (r, seen')" "rw_product r = Some p"
  shows "rw_status r = ROW_NEW \<and> (\<exists>raw b. normalizeBarcode raw None = Inr b \<and> nw_barcode p = nb_code b)"
proof -
  obtain normalized errs candidate parsed where r: "read_row_cells header cells = (normalized, errs, candidate, parsed)" by (metis prod_cases4)
  have "rw_status r = ROW_NEW \<and> (\<exists>b. normalized = Inr b \<and> nw_barcode p = nb_code b)"
    using assms r by (auto simp: validate_row_def Let_def split: sum.splits if_splits option.splits)
  then show ?thesis using read_row_barcode [OF r] by metis
qed

lemma validate_rows_product:
  "r \<in> set (validate_rows header E seen line rows) \<Longrightarrow> rw_product r = Some p \<Longrightarrow>
     rw_status r = ROW_NEW \<and> (\<exists>raw b. normalizeBarcode raw None = Inr b \<and> nw_barcode p = nb_code b)"
proof (induction rows arbitrary: seen line)
  case (Cons cells rest)
  obtain q seen' where q: "validate_row header E seen line cells = (q, seen')" by fastforce
  show ?case using Cons q validate_row_product [OF q] by auto
qed simp

definition row_codes :: "import_row list \<Rightarrow> string set" where
  "row_codes rows = {nw_barcode p | r p. r \<in> set rows \<and> rw_product r = Some p}"

lemma row_codes_simps [simp]:
  "row_codes [] = {}" "row_codes (xs @ ys) = row_codes xs \<union> row_codes ys"
  "row_codes (r # rs) = (case rw_product r of None \<Rightarrow> {} | Some p \<Rightarrow> {nw_barcode p}) \<union> row_codes rs"
  by (auto simp: row_codes_def split: option.splits)

lemma row_codes_mark: "row_codes (map (mark_existing E) rows) = row_codes rows - set E"
  by (induction rows) (auto simp: mark_existing_def split: option.splits)

lemma preview_rows:
  assumes "importPreview s csv = Inr rows"
  obtains rows0 where "validateCatalogCsv csv [] = Inr rows0" "row_codes rows = row_codes rows0 - set (master_codes s)"
    "\<And>r p. r \<in> set rows \<Longrightarrow> rw_product r = Some p \<Longrightarrow> rw_status r = ROW_NEW \<and> (\<exists>raw b. normalizeBarcode raw None = Inr b \<and> nw_barcode p = nb_code b)"
proof -
  obtain E rows0 where E: "validateCatalogCsv csv [] = Inr rows0" "rows = map (mark_existing E) rows0" "set E = row_codes rows0 \<inter> set (master_codes s)"
  proof -
    obtain E where E: "validateCatalogCsv csv E = Inr rows"
      "E = filter (\<lambda>c. c \<in> set (case validateCatalogCsv csv [] of Inl _ \<Rightarrow> []
        | Inr rows \<Rightarrow> concat (map (\<lambda>r. case rw_product r of None \<Rightarrow> [] | Some p \<Rightarrow> [nw_barcode p]) rows))) (master_codes s)"
      using assms by (simp add: importPreview_def Let_def)
    then obtain rows0 where 0: "validateCatalogCsv csv [] = Inr rows0" "rows = map (mark_existing E) rows0"
      using validateCatalogCsv_existing [of csv E] by (cases "validateCatalogCsv csv []") auto
    have "set (concat (map (\<lambda>r. case rw_product r of None \<Rightarrow> [] | Some p \<Rightarrow> [nw_barcode p]) rows0)) = row_codes rows0"
      by (induction rows0) (auto split: option.splits)
    then have "set E = row_codes rows0 \<inter> set (master_codes s)" using E(2) 0(1) by auto
    then show thesis using that 0 by blast
  qed
  have codes: "row_codes rows = row_codes rows0 - set (master_codes s)"
    using E(2,3) by (auto simp: row_codes_mark)
  have kept: "mark_existing E r = r" if "rw_product (mark_existing E r) = Some p" for r p
    using that by (auto simp: mark_existing_def split: option.splits if_splits)
  have good: "rw_status r = ROW_NEW \<and> (\<exists>raw b. normalizeBarcode raw None = Inr b \<and> nw_barcode p = nb_code b)"
    if r: "r \<in> set rows" "rw_product r = Some p" for r p
  proof -
    obtain r0 where r0: "r0 \<in> set rows0" "r = mark_existing E r0" using r(1) E(2) by auto
    then have "r = r0" using kept r(2) by simp
    then have "r \<in> set rows0" using r0 by simp
    then show ?thesis using E(1) r(2) validate_rows_product
      by (auto simp: validateCatalogCsv_def Let_def split: list.splits if_splits) 
  qed
  show thesis by (rule that [OF E(1) codes good])
qed

lemma to_create_codes:
  assumes "\<And>r p. r \<in> set rows \<Longrightarrow> rw_product r = Some p \<Longrightarrow> rw_status r = ROW_NEW"
  shows "row_codes (to_create rows) = row_codes rows"
  using assms by (auto simp: row_codes_def to_create_def)

section \<open>Saving\<close>

lemma concat_chunks: "0 < n \<Longrightarrow> concat (chunks n xs) = xs"
  by (induction n xs rule: chunks.induct) (subst chunks.simps, auto)

lemma import_chunk_codes:
  "import_chunk clk u ref lic rows s = (t, out) \<Longrightarrow> set (master_codes t) = set (master_codes s) \<union> row_codes rows"
proof (induction rows arbitrary: s t out)
  case (Cons r rows)
  show ?case
  proof (cases "rw_product r")
    case None
    then show ?thesis using Cons by (auto split: prod.splits)
  next
    case (Some p)
    have c: "nb_code (imported_barcode p) = nw_barcode p" by (simp add: imported_barcode_def)
    show ?thesis
    proof (cases "insert_master (imported_product clk u ref lic p) (imported_barcode p) s")
      case None
      then have "nw_barcode p \<in> set (master_codes s)" by (simp add: insert_master_def c split: if_splits)
      then show ?thesis using Cons Some None by (auto split: prod.splits)
    next
      case ins: (Some x)
      obtain s1 i where x: "x = (s1, i)" by fastforce
      have "set (master_codes s1) = insert (nw_barcode p) (set (master_codes s))" using insert_master_codes ins x c by fastforce
      then show ?thesis using Cons Some ins x by (auto split: prod.splits)
    qed
  qed
qed simp

lemma import_chunk_inv:
  assumes "\<And>r p. r \<in> set rows \<Longrightarrow> rw_product r = Some p \<Longrightarrow> \<exists>raw b. normalizeBarcode raw None = Inr b \<and> nw_barcode p = nb_code b"
  shows "import_chunk clk u ref lic rows s = (t, out) \<Longrightarrow> master_inv s \<Longrightarrow> master_inv t"
  using assms
proof (induction rows arbitrary: s t out)
  case (Cons r rows)
  have rest: "import_chunk clk u ref lic rows x = (y, o') \<Longrightarrow> master_inv x \<Longrightarrow> master_inv y" for x y o'
    using Cons.IH Cons.prems(3) by (meson list.set_intros(2))
  show ?case
  proof (cases "rw_product r")
    case None
    then show ?thesis using Cons.prems(1,2) rest by (auto split: prod.splits)
  next
    case (Some p)
    then obtain raw b where b: "normalizeBarcode raw None = Inr b" "nw_barcode p = nb_code b" using Cons.prems(3) [of r p] by auto
    have "well_formed_code (nb_format b) (nb_code b)" by (rule normalize_well_formed [OF b(1)])
    then have wf: "well_formed_code (nb_format (imported_barcode p)) (nb_code (imported_barcode p))"
      unfolding imported_barcode_def b(2) by (cases "nb_format b") (auto simp: well_formed_code_def)
    show ?thesis
    proof (cases "insert_master (imported_product clk u ref lic p) (imported_barcode p) s")
      case None
      then show ?thesis using Cons.prems(1,2) Some rest by (auto split: prod.splits)
    next
      case ins: (Some x)
      obtain s1 i where x: "x = (s1, i)" by fastforce
      have "master_inv s1" using insert_master_inv ins x Cons.prems(2) wf by blast
      then show ?thesis using Cons.prems(1) Some ins x rest by (auto split: prod.splits)
    qed
  qed
qed simp

lemma chunk_rows: "c \<in> set (chunks 100 (to_create rows)) \<Longrightarrow> r \<in> set c \<Longrightarrow> r \<in> set rows"
proof -
  assume "c \<in> set (chunks 100 (to_create rows))" "r \<in> set c"
  then have "r \<in> set (concat (chunks 100 (to_create rows)))" by auto
  then show ?thesis by (simp add: concat_chunks) (simp add: to_create_def)
qed

lemma review_rows:
  assumes "reviewProduct clk pre adminUserId productId action msg edits s = Inr t"
  obtains f where "mc_products t = upd_where (\<lambda>p. mp_id p = productId) f (mc_products s)" "mc_next t = mc_next s"
    "\<And>p. mp_barcodes (f p) = mp_barcodes p" "\<And>p. mp_id (f p) = mp_id p" "master_codes t = master_codes s"
proof -
  have "\<exists>f. mc_products t = upd_where (\<lambda>p. mp_id p = productId) f (mc_products s) \<and> (\<forall>p. mp_barcodes (f p) = mp_barcodes p \<and> mp_id (f p) = mp_id p)"
    "mc_next t = mc_next s"
    using assms by (auto simp: reviewProduct_def success_simps)
  then obtain f where f: "mc_products t = upd_where (\<lambda>p. mp_id p = productId) f (mc_products s)" "mc_next t = mc_next s"
    "\<And>p. mp_barcodes (f p) = mp_barcodes p" "\<And>p. mp_id (f p) = mp_id p" by blast
  have "map (\<lambda>p. map nb_code (mp_barcodes p)) (upd_where q f ps) = map (\<lambda>p. map nb_code (mp_barcodes p)) ps" for q ps
    by (induction ps) (simp_all add: f(3))
  then have "master_codes t = master_codes s" by (simp add: master_codes_def f(1))
  then show thesis by (rule that [OF f])
qed

lemma master_step_inv: "master_step s t \<Longrightarrow> master_inv s \<Longrightarrow> master_inv t"
proof (induction rule: master_step.induct)
  case (submitted app userId salonId input s t i)
  then obtain b p t1 where "normalizeBarcode (sb_barcode input) (sb_hint input) = Inr b" "insert_master p b s = Some (t1, i)"
    "t = log_master userId ''CATALOG_PRODUCT_SUBMITTED'' i t1"
    by (auto simp: submitProduct_def success_simps Let_def)
  then show ?case using submitted(2) insert_master_inv normalize_well_formed master_inv_cong [of t t1] by simp
next
  case (reviewed clk pre adminUserId productId action msg edits s t)
  obtain f where f: "mc_products t = upd_where (\<lambda>p. mp_id p = productId) f (mc_products s)" "mc_next t = mc_next s"
    "\<And>p. mp_barcodes (f p) = mp_barcodes p" "\<And>p. mp_id (f p) = mp_id p" "master_codes t = master_codes s"
    by (rule review_rows [OF reviewed(1)]) blast
  have "map mp_id (upd_where q f ps) = map mp_id ps" for q ps by (induction ps) (simp_all add: f(4))
  moreover have "mp_barcodes (if c then f p else p) = mp_barcodes p" "mp_id (if c then f p else p) = mp_id p" for c p by (simp_all add: f)
  ultimately show ?case using reviewed(2) f(1,2,5) by (auto simp: master_inv_def in_upd_where)
next
  case (imported pre csv rows c clk adminUserId reference license s t out)
  obtain rows0 where g: "\<And>r p. r \<in> set rows \<Longrightarrow> rw_product r = Some p \<Longrightarrow> \<exists>raw b. normalizeBarcode raw None = Inr b \<and> nw_barcode p = nb_code b"
    using preview_rows [OF imported(1)] by metis
  show ?case by (rule import_chunk_inv [OF _ imported(3,4)]) (use g chunk_rows [OF imported(2)] in blast)
next
  case (logged s adminUserId action i)
  then show ?case using master_inv_cong [of "log_master adminUserId action i s" s] by simp
qed

interpretation catalogue: invariant master_step master_inv
  by unfold_locales (rule master_step_inv)

lemma master_step_codes: "master_step s t \<Longrightarrow> set (master_codes s) \<subseteq> set (master_codes t)"
proof (induction rule: master_step.induct)
  case (submitted app userId salonId input s t i)
  then show ?case by (auto simp: submitProduct_def success_simps Let_def dest!: insert_master_codes)
next
  case (reviewed clk pre adminUserId productId action msg edits s t)
  show ?case by (rule review_rows [OF reviewed]) simp
qed (auto dest: import_chunk_codes)

lemma master_run_codes: "master_step\<^sup>*\<^sup>* s t \<Longrightarrow> set (master_codes s) \<subseteq> set (master_codes t)"
  by (induction rule: rtranclp_induct) (auto dest: master_step_codes)

lemma import_chunks_codes:
  assumes "\<And>k x. master_step\<^sup>*\<^sup>* x (others k x)"
  shows "import_chunks clk u ref lic others cs s = (t, out) \<Longrightarrow> set (master_codes s) \<union> row_codes (concat cs) \<subseteq> set (master_codes t)"
proof (induction cs arbitrary: s t out)
  case (Cons c cs)
  obtain s1 o1 where 1: "import_chunk clk u ref lic c (others (length cs) s) = (s1, o1)" by fastforce
  obtain t' o2 where 2: "import_chunks clk u ref lic others cs s1 = (t', o2)" by fastforce
  have "t' = t" using Cons.prems 1 2 by simp
  then show ?case using Cons.IH [OF 2] import_chunk_codes [OF 1] master_run_codes [OF assms [of s "length cs"]] by auto
qed simp

section \<open>Properties\<close>

text \<open>C37: a scan finds what the catalogue holds. Whatever was submitted, reviewed and imported, by anyone and on stale readings, the
  code of every product is in the normal form of barcodes, and every spelling of it that is accepted, and the stored code
  itself, leads a shop to that product: with its details when it was verified or when the shop submitted it, without them
  while it awaits review, and outside the catalogue when it was rejected.\<close>

theorem a_scan_finds_the_product:
  assumes "master_step\<^sup>*\<^sup>* empty_master s" "p \<in> set (mc_products s)" "b \<in> set (mp_barcodes p)"
    and "normalizeBarcode raw hint = Inr c" "nb_code c = nb_code b" "assertOwnerOrAdminAccess app userId salonId = Inr actor"
  shows "normalizeBarcode (nb_code b) None = Inr \<lparr>nb_code = nb_code b, nb_format = nb_format b, nb_display = nb_code b\<rparr>
    \<and> lookup_code external app userId salonId raw hint s
      = Inr (case mp_status p of
               VERIFIED \<Rightarrow> FOUND (mp_id p)
             | PENDING_REVIEW \<Rightarrow> if mp_submittedBy p = Some salonId then FOUND_PENDING (mp_id p) else PENDING_ELSEWHERE (mp_id p)
             | REJECTED \<Rightarrow> (case external (nb_display c) of None \<Rightarrow> NOT_IN_CATALOG | Some x \<Rightarrow> EXTERNAL_SUGGESTION x))"
proof -
  have inv: "master_inv s"
    by (rule catalogue.run_inv [OF assms(1)]) (simp add: empty_master_def master_inv_def master_codes_def)
  then have wf: "well_formed_code (nb_format b) (nb_code b)" using assms(2,3) by (auto simp: master_inv_def)
  have "find_code (nb_code c) s = Some p" using code_owner [OF inv assms(2,3)] assms(5) by simp
  then show ?thesis using normalize_code_again [OF wf] assms(4,6)
    by (cases "mp_status p") (simp_all add: lookup_code_def catalog_access_def valid_barcode_def Let_def)
qed

text \<open>C38: an import can be repeated. Once a file was imported, whatever others did while it ran and afterwards, every row that was
  to be saved is in the catalogue, and importing the file again saves nothing and leaves every product as it is.\<close>

theorem import_is_repeatable:
  assumes "importCommit clk others userId csv reference license s = Inr (t, n)" "\<And>k x. master_step\<^sup>*\<^sup>* x (others k x)" "master_step\<^sup>*\<^sup>* t t'"
  shows "(\<exists>rows. importPreview s csv = Inr rows
        \<and> (\<forall>r\<in>set rows. \<forall>p. rw_status r = ROW_NEW \<and> rw_product r = Some p \<longrightarrow> nw_barcode p \<in> set (master_codes t)))
    \<and> importCommit clk' others' userId' csv reference' license' t' = Inr (log_master userId' ''CATALOG_IMPORTED'' 0 t', 0)"
proof -
  obtain rows t1 out where r: "importPreview s csv = Inr rows"
    "import_chunks clk userId reference license others (chunks 100 (to_create rows)) s = (t1, out)" "t = log_master userId ''CATALOG_IMPORTED'' 0 t1"
    using assms(1) by (auto simp: importCommit_def Let_def split: sum.splits prod.splits)
  obtain rows0 where v: "validateCatalogCsv csv [] = Inr rows0" "row_codes rows = row_codes rows0 - set (master_codes s)"
    and new: "\<And>r p. r \<in> set rows \<Longrightarrow> rw_product r = Some p \<Longrightarrow> rw_status r = ROW_NEW"
    using preview_rows [OF r(1)] by metis
  have "set (master_codes s) \<union> row_codes rows \<subseteq> set (master_codes t)"
    using import_chunks_codes [OF assms(2) r(2)] to_create_codes [of rows] new r(3) by (simp add: concat_chunks)
  then have all: "row_codes rows0 \<subseteq> set (master_codes t)" "row_codes rows \<subseteq> set (master_codes t)" using v(2) by auto
  obtain rows' where p': "importPreview t' csv = Inr rows'"
  proof -
    have "\<exists>x. validateCatalogCsv csv E = Inr x" for E using v(1) validateCatalogCsv_existing [of csv E] by simp
    then show thesis using that by (auto simp: importPreview_def Let_def)
  qed
  obtain rows0' where "validateCatalogCsv csv [] = Inr rows0'" "row_codes rows' = row_codes rows0' - set (master_codes t')"
    by (rule preview_rows [OF p']) blast
  then have "row_codes rows' = {}" using v(1) all(1) master_run_codes [OF assms(3)] by auto
  then have "to_create rows' = []" by (auto simp: row_codes_def to_create_def filter_empty_conv)
  then have again: "importCommit clk' others' userId' csv reference' license' t' = Inr (log_master userId' ''CATALOG_IMPORTED'' 0 t', 0)"
    using p' by (simp add: importCommit_def chunks.simps)
  have "\<forall>r\<in>set rows. \<forall>p. rw_status r = ROW_NEW \<and> rw_product r = Some p \<longrightarrow> nw_barcode p \<in> set (master_codes t)"
    using all(2) by (auto simp: row_codes_def)
  then show ?thesis using r(1) again by blast
qed

section \<open>What does not fit together\<close>

definition catalog_app :: db where
  "catalog_app = demo_db\<lparr>db_roles := [\<lparr>ur_user = 8, ur_role = SALON_OWNER, ur_salon = Some 1\<rparr>]\<rparr>"

definition wax :: submission where
  "wax = \<lparr>sb_fields = \<lparr>pf_name = ''Wax'', pf_brand = None, pf_manufacturer = None, pf_category = None, pf_subcategory = None,
       pf_description = None, pf_packSize = None, pf_packUnit = None, pf_mrp = None, pf_hsnCode = None, pf_gstRate = None,
       pf_productType = Some PT_BOTH\<rparr>, sb_barcode = ''012345678905'', sb_hint = None, sb_source = DS_SALON_SUBMITTED, sb_reference = None, sb_images = []\<rparr>"

definition no_edits :: review_edits where
  "no_edits = \<lparr>ed_name = None, ed_brand = None, ed_manufacturer = None, ed_category = None, ed_subcategory = None, ed_description = None,
     ed_packSize = None, ed_packUnit = None, ed_mrp = None, ed_hsnCode = None, ed_gstRate = None, ed_productType = None\<rparr>"

definition wax_submitted :: master where
  "wax_submitted = (case submitProduct catalog_app 8 1 wax empty_master of Inr (t, _) \<Rightarrow> t | Inl _ \<Rightarrow> empty_master)"

definition wax_rejected :: master where
  "wax_rejected = (case reviewProduct 0 wax_submitted 1 1 REVIEW_REJECT (Some ''unclear'') no_edits wax_submitted of Inr t \<Rightarrow> t | Inl _ \<Rightarrow> empty_master)"

lemma wax_runs: "master_step\<^sup>*\<^sup>* empty_master wax_submitted" "master_step wax_submitted wax_rejected"
proof -
  have "is_ok (submitProduct catalog_app 8 1 wax empty_master)" by code_simp
  then obtain t i where t: "submitProduct catalog_app 8 1 wax empty_master = Inr (t, i)" by (auto simp: is_ok_iff)
  show "master_step\<^sup>*\<^sup>* empty_master wax_submitted"
    by (rule r_into_rtranclp, rule master_step.submitted [of catalog_app 8 1 wax _ _ i]) (simp only: wax_submitted_def t sum.case prod.case)
  have "is_ok (reviewProduct 0 wax_submitted 1 1 REVIEW_REJECT (Some ''unclear'') no_edits wax_submitted)" by code_simp
  then obtain u where u: "reviewProduct 0 wax_submitted 1 1 REVIEW_REJECT (Some ''unclear'') no_edits wax_submitted = Inr u" by (auto simp: is_ok_iff)
  show "master_step wax_submitted wax_rejected"
    by (rule master_step.reviewed [of 0 wax_submitted 1 1 REVIEW_REJECT "Some ''unclear''" no_edits]) (simp only: wax_rejected_def u sum.case)
qed

text \<open>A product that was rejected is not found by a scan, but its barcode cannot be submitted again either.\<close>

theorem rejected_barcode_is_stuck:
  "\<exists>s. master_step\<^sup>*\<^sup>* empty_master s \<and> lookup_code (\<lambda>_. None) catalog_app 8 1 ''012345678905'' None s = Inr NOT_IN_CATALOG
     \<and> submitProduct catalog_app 8 1 wax s = Inl BARCODE_EXISTS"
proof -
  have "master_step\<^sup>*\<^sup>* empty_master wax_rejected" using wax_runs by (rule rtranclp.rtrancl_into_rtrancl)
  moreover have "lookup_code (\<lambda>_. None) catalog_app 8 1 ''012345678905'' None wax_rejected = Inr NOT_IN_CATALOG"
    "submitProduct catalog_app 8 1 wax wax_rejected = Inl BARCODE_EXISTS" by code_simp+
  ultimately show ?thesis by blast
qed

text \<open>
  A lookup of a UPC-E code shows its twelve-digit expansion; the page submits that text with the hint it scanned with, and
  the submission never accepts it.
\<close>

theorem looked_up_upce_is_never_submittable:
  assumes "normalizeBarcode raw (Some UPC_E) = Inr b" "list_all is_digit (compact raw)" "sb_barcode input = nb_display b" "sb_hint input = Some UPC_E"
  shows "\<nexists>t i. submitProduct app userId salonId input s = Inr (t, i)"
proof -
  obtain d where d: "expandUpcE (compact raw) = Some d" "normalize_digits d = Inr b"
    using assms(1,2) by (auto simp: normalizeBarcode_def success_simps Let_def)
  have len: "length d = 12" using d(1) by (auto simp: expandUpcE_def split: list.splits if_splits)
  have disp: "nb_display b = d" using d(2) by (auto simp: normalize_digits_def success_simps Let_def split: if_splits)
  have dig: "list_all is_digit d" using expandUpcE_digits [OF d(1)] by simp
  have "compact d = d" using dig digit_solid by (intro compact_solid) (auto simp: list_all_iff)
  moreover have "expandUpcE d = None" using len by (auto simp: expandUpcE_def split: list.splits)
  ultimately have "normalizeBarcode d (Some UPC_E) = Inl Invalid_upce" using len dig by (auto simp: normalizeBarcode_def Let_def guardE_def)
  then show ?thesis using assms(3,4) disp by (auto simp: submitProduct_def success_simps)
qed

lemma looked_up_upce_is_never_submittable_witness:
  "(\<nexists>t i. submitProduct catalog_app 8 1 (wax\<lparr>sb_barcode := ''042100005264'', sb_hint := Some UPC_E\<rparr>) empty_master = Inr (t, i))
     \<and> is_ok (normalizeBarcode ''04252614'' (Some UPC_E))"
proof -
  have ok: "is_ok (normalizeBarcode ''04252614'' (Some UPC_E))" by code_simp
  then obtain b where b: "normalizeBarcode ''04252614'' (Some UPC_E) = Inr b" by (auto simp: is_ok_iff)
  have "map_option nb_display (case normalizeBarcode ''04252614'' (Some UPC_E) of Inr b \<Rightarrow> Some b | Inl _ \<Rightarrow> None) = Some ''042100005264''"
    and d: "list_all is_digit (compact ''04252614'')" by code_simp+
  then have disp: "nb_display b = ''042100005264''" by (simp only: b sum.case option.map option.inject)
  show ?thesis
    by (rule conjI [OF looked_up_upce_is_never_submittable [OF b d] ok]) (simp_all add: disp)
qed

text \<open>
  Although each row is to be validated on its own, a row that is refused spoils a correct row with the same barcode: the
  import saves neither. The lines it reports do not count the lines that were left out. And a price of nothing but a comma is zero.
\<close>

definition spoiled_file :: string where
  "spoiled_file = ''barcode,name'' @ [LF] @ ''012345678905,'' @ [LF] @ [LF] @ ''012345678905,Wax'' @ [LF]"

theorem refused_row_spoils_the_correct_one:
  "(case importPreview empty_master spoiled_file of
      Inr rows \<Rightarrow> map rw_status rows = [ROW_INVALID, DUPLICATE_IN_FILE] \<and> map rw_line rows = [2, 3] | Inl _ \<Rightarrow> False)
   \<and> importCommit 0 (\<lambda>_ s. s) 9 spoiled_file ''ref'' ''CC0'' empty_master = Inr (log_master 9 ''CATALOG_IMPORTED'' 0 empty_master, 0)"
  by code_simp

theorem comma_is_a_price: "number_cell (Some '','') ''MRP'' = (Some 0, [])"
  by code_simp

section \<open>Examples\<close>

definition good_file :: string where
  "good_file = ''barcode,name'' @ [LF] @ ''012345678905,Wax'' @ [LF] @ ''ab-1,Comb'' @ [LF]"

lemma good_import: "\<exists>t. importCommit 0 (\<lambda>_ s. s) 9 good_file ''ref'' ''CC0'' empty_master = Inr (t, 2)"
proof -
  have "case importCommit 0 (\<lambda>_ s. s) 9 good_file ''ref'' ''CC0'' empty_master of Inr (t, n) \<Rightarrow> n = 2 | Inl _ \<Rightarrow> False" by code_simp
  then show ?thesis by (auto split: sum.splits)
qed

lemma a_scan_finds_the_product_witness:
  "lookup_code (\<lambda>_. None) catalog_app 8 1 ''0-12345-67890-5'' None wax_submitted = Inr (FOUND_PENDING 1)"
proof -
  have c: "map (\<lambda>p. (mp_id p, mp_status p, mp_submittedBy p, map nb_code (mp_barcodes p))) (mc_products wax_submitted)
      = [(1, PENDING_REVIEW, Some 1, [''00012345678905''])]" by code_simp
  then obtain p where p: "p \<in> set (mc_products wax_submitted)" "mp_id p = 1" "mp_status p = PENDING_REVIEW" "mp_submittedBy p = Some 1"
    "map nb_code (mp_barcodes p) = [''00012345678905'']" by (cases "mc_products wax_submitted") auto
  then obtain b where b: "b \<in> set (mp_barcodes p)" "nb_code b = ''00012345678905''" by (cases "mp_barcodes p") auto
  have "case normalizeBarcode ''0-12345-67890-5'' None of Inr c \<Rightarrow> nb_code c = ''00012345678905'' | Inl _ \<Rightarrow> False" by code_simp
  then obtain c' where c': "normalizeBarcode ''0-12345-67890-5'' None = Inr c'" "nb_code c' = nb_code b" using b(2) by (auto split: sum.splits)
  have "assertOwnerOrAdminAccess catalog_app 8 1 = Inr AS_OWNER" by code_simp
  from a_scan_finds_the_product [OF wax_runs(1) p(1) b(1) c' this] show ?thesis by (simp add: p)
qed

lemma import_is_repeatable_witness:
  "\<exists>t. importCommit 0 (\<lambda>_ s. s) 9 good_file ''ref'' ''CC0'' empty_master = Inr (t, 2)
     \<and> importCommit 5 (\<lambda>_ s. s) 9 good_file ''ref'' ''CC0'' t = Inr (log_master 9 ''CATALOG_IMPORTED'' 0 t, 0)"
proof -
  obtain t where t: "importCommit 0 (\<lambda>_ s. s) 9 good_file ''ref'' ''CC0'' empty_master = Inr (t, 2)" using good_import by blast
  have "importCommit 5 (\<lambda>_ s. s) 9 good_file ''ref'' ''CC0'' t = Inr (log_master 9 ''CATALOG_IMPORTED'' 0 t, 0)"
    using import_is_repeatable [OF t, of t 5 "\<lambda>_ s. s" 9 "''ref''" "''CC0''"] by simp
  then show ?thesis using t by blast
qed

end
