(* ===== verification/Deliveries.thy ===== *)
theory Deliveries
  imports Prelude
begin

text \<open>
  The ledger of notification deliveries (\<^verbatim>\<open>notifications/notification-delivery.service.ts\<close>): one row per event and channel, the
  attempts to push it through the provider, and the sweep that retries them. A call of the service is cut at its \<open>await\<close>s
  into the steps below; what is in flight is part of the state, and a process that dies loses its calls. The recipient's
  preferences, the devices and the provider's tickets (\<^verbatim>\<open>push-notifications/push-dispatch.service.ts\<close>) are arguments. The
  ellipsis of a shortened message is the one-byte character 133.
\<close>

section \<open>Rows and calls\<close>

datatype delivery_status = D_PENDING | D_SENT | D_FAILED | D_GAVE_UP | D_SKIPPED
datatype delivery_channel = CH_PUSH | CH_IN_APP
datatype push_outcome = Outcome delivery_status | NO_DEVICE

definition PUSH_RETRY_BACKOFF_SECONDS :: "int list" where
  "PUSH_RETRY_BACKOFF_SECONDS = [60, 300, 1800, 7200, 21600]"

definition PUSH_MAX_ATTEMPTS :: nat where
  "PUSH_MAX_ATTEMPTS = length PUSH_RETRY_BACKOFF_SECONDS"

definition ATTEMPT_LEASE_SECONDS :: int where
  "ATTEMPT_LEASE_SECONDS = 120"

record push_payload =
  pp_title :: string
  pp_body :: string
  pp_data :: string

record deliver_input =
  di_dedupeKey :: string
  di_user :: nat
  di_type :: string
  di_inAppPayload :: string
  di_deepLink :: string
  di_push :: push_payload

record delivery =
  dl_id :: nat
  dl_key :: string
  dl_user :: nat
  dl_type :: string
  dl_channel :: delivery_channel
  dl_status :: delivery_status
  dl_attempts :: nat
  dl_lastError :: "string option"
  dl_nextAttemptAt :: "int option"
  dl_payload :: "push_payload option"
  dl_deepLink :: string
  dl_sentAt :: "int option"

record notification =
  nt_user :: nat
  nt_type :: string
  nt_payload :: string
  nt_deepLink :: string
  nt_sentAt :: int

text \<open>A call that has asked for the recipient's preference, that waits for the provider (on its own or for a sweep), or a sweep.\<close>

datatype pending_call =
    Asked string nat push_payload
  | Sending string nat push_payload nat "(int \<times> delivery list) option"
  | Sweeping int "delivery list"

record outbox =
  ob_next :: nat
  ob_rows :: "delivery list"
  ob_inbox :: "notification list"
  ob_calls :: "pending_call list"
  ob_sends :: "string list"

definition find_delivery :: "string \<Rightarrow> outbox \<Rightarrow> delivery option" where
  "find_delivery key s = find (\<lambda>r. dl_key r = key) (ob_rows s)"

text \<open>The insertion fails on the unique key.\<close>

definition create_delivery :: "delivery \<Rightarrow> outbox \<Rightarrow> outbox option" where
  "create_delivery r s =
     (if find_delivery (dl_key r) s \<noteq> None then None
      else Some (s\<lparr>ob_rows := ob_rows s @ [r\<lparr>dl_id := ob_next s\<rparr>], ob_next := ob_next s + 1\<rparr>))"

definition upd_delivery :: "string \<Rightarrow> (delivery \<Rightarrow> delivery) \<Rightarrow> outbox \<Rightarrow> outbox" where
  "upd_delivery key f s = s\<lparr>ob_rows := upd_where (\<lambda>r. dl_key r = key) f (ob_rows s)\<rparr>"

definition shorten :: "string \<Rightarrow> string" where
  "shorten v = (if length v > 290 then take 290 v @ [char_of (133 :: nat)] else v)"

definition finish :: "int \<Rightarrow> string \<Rightarrow> delivery_status \<Rightarrow> string option \<Rightarrow> nat \<Rightarrow> outbox \<Rightarrow> outbox" where
  "finish clk key status lastError attempts s =
     upd_delivery key (\<lambda>r. r\<lparr>dl_status := status, dl_attempts := attempts,
        dl_lastError := (case lastError of None \<Rightarrow> None | Some e \<Rightarrow> if e = [] then None else Some (shorten e)),
        dl_nextAttemptAt := None, dl_sentAt := (if status = D_SENT then Some clk else None)\<rparr>) s"

definition toPushOutcome :: "delivery \<Rightarrow> push_outcome" where
  "toPushOutcome r = (if dl_status r = D_SKIPPED \<and> dl_lastError r = Some ''NO_DEVICE'' then NO_DEVICE else Outcome (dl_status r))"

section \<open>In the app\<close>

definition notifyInTransaction :: "int \<Rightarrow> bool \<Rightarrow> deliver_input \<Rightarrow> outbox \<Rightarrow> outbox \<times> bool" where
  "notifyInTransaction clk enabled i s =
     (if \<not> enabled then (s, False)
      else (s\<lparr>ob_inbox := ob_inbox s @ [\<lparr>nt_user = di_user i, nt_type = di_type i, nt_payload = di_inAppPayload i,
                nt_deepLink = di_deepLink i, nt_sentAt = clk\<rparr>]\<rparr>, True))"

definition deliverInApp :: "int \<Rightarrow> bool \<Rightarrow> deliver_input \<Rightarrow> outbox \<Rightarrow> outbox \<Rightarrow> outbox \<times> delivery_status" where
  "deliverInApp clk enabled i pre s =
     (let dedupeKey = di_dedupeKey i @ '':IN_APP'' in
      case find_delivery dedupeKey pre of
        Some existing \<Rightarrow> (s, dl_status existing)
      | None \<Rightarrow>
         (case create_delivery \<lparr>dl_id = 0, dl_key = dedupeKey, dl_user = di_user i, dl_type = di_type i, dl_channel = CH_IN_APP,
                 dl_status = D_PENDING, dl_attempts = 1, dl_lastError = None, dl_nextAttemptAt = None, dl_payload = None,
                 dl_deepLink = di_deepLink i, dl_sentAt = None\<rparr> s of
            None \<Rightarrow> (s, case find_delivery dedupeKey s of None \<Rightarrow> D_SENT | Some winner \<Rightarrow> dl_status winner)
          | Some s1 \<Rightarrow>
              (let (s2, created) = notifyInTransaction clk enabled i s1;
                   status = (if created then D_SENT else D_SKIPPED)
               in (upd_delivery dedupeKey (\<lambda>r. r\<lparr>dl_status := status, dl_sentAt := (if created then Some clk else None),
                      dl_lastError := (if created then None else Some ''IN_APP_DISABLED_BY_RECIPIENT'')\<rparr>) s2, status))))"

section \<open>Pushing\<close>

text \<open>What the dispatcher reports (\<^verbatim>\<open>sendToUser\<close>): the devices may not load, the request may fail, tickets may be refused.\<close>

record push_result =
  pr_attempted :: nat
  pr_delivered :: nat
  pr_noDevices :: bool
  pr_transientFailure :: bool
  pr_error :: "string option"

definition sendToUser :: "string + nat \<Rightarrow> string + bool list \<Rightarrow> push_result" where
  "sendToUser devices tickets =
     (case devices of
        Inl err \<Rightarrow> \<lparr>pr_attempted = 0, pr_delivered = 0, pr_noDevices = False, pr_transientFailure = True, pr_error = Some err\<rparr>
      | Inr n \<Rightarrow>
          if n = 0 then \<lparr>pr_attempted = 0, pr_delivered = 0, pr_noDevices = True, pr_transientFailure = False, pr_error = None\<rparr>
          else (case tickets of
                  Inl err \<Rightarrow> \<lparr>pr_attempted = n, pr_delivered = 0, pr_noDevices = False, pr_transientFailure = True, pr_error = Some err\<rparr>
                | Inr ts \<Rightarrow> let delivered = length (filter id ts)
                    in \<lparr>pr_attempted = n, pr_delivered = delivered, pr_noDevices = False, pr_transientFailure = False,
                        pr_error = (if delivered > 0 then None else Some ''PROVIDER_REJECTED_ALL_TICKETS'')\<rparr>))"

definition drop_call :: "nat \<Rightarrow> outbox \<Rightarrow> outbox" where
  "drop_call i s = s\<lparr>ob_calls := take i (ob_calls s) @ drop (i + 1) (ob_calls s)\<rparr>"

definition set_call :: "nat \<Rightarrow> pending_call \<Rightarrow> outbox \<Rightarrow> outbox" where
  "set_call i c s = s\<lparr>ob_calls := (ob_calls s)[i := c]\<rparr>"

text \<open>The request to the provider goes out when a call starts to wait for it.\<close>

definition start_send :: "nat \<Rightarrow> string \<Rightarrow> nat \<Rightarrow> push_payload \<Rightarrow> nat \<Rightarrow> (int \<times> delivery list) option \<Rightarrow> outbox \<Rightarrow> outbox" where
  "start_send i key user payload attemptsBefore back s =
     set_call i (Sending key user payload attemptsBefore back) (s\<lparr>ob_sends := ob_sends s @ [key]\<rparr>)"

definition deliverPush :: "int \<Rightarrow> deliver_input \<Rightarrow> outbox \<Rightarrow> outbox \<Rightarrow> outbox \<times> push_outcome option" where
  "deliverPush clk i pre s =
     (let dedupeKey = di_dedupeKey i @ '':PUSH'' in
      case find_delivery dedupeKey pre of
        Some existing \<Rightarrow> (s, Some (toPushOutcome existing))
      | None \<Rightarrow>
         (case create_delivery \<lparr>dl_id = 0, dl_key = dedupeKey, dl_user = di_user i, dl_type = di_type i, dl_channel = CH_PUSH,
                 dl_status = D_PENDING, dl_attempts = 0, dl_lastError = None,
                 dl_nextAttemptAt = Some (clk + ATTEMPT_LEASE_SECONDS * 1000), dl_payload = Some (di_push i),
                 dl_deepLink = di_deepLink i, dl_sentAt = None\<rparr> s of
            None \<Rightarrow> (s, Some (case find_delivery dedupeKey s of None \<Rightarrow> Outcome D_PENDING | Some winner \<Rightarrow> toPushOutcome winner))
          | Some s1 \<Rightarrow> (s1\<lparr>ob_calls := ob_calls s1 @ [Asked dedupeKey (di_user i) (di_push i)]\<rparr>, None)))"

definition push_allowed :: "int \<Rightarrow> nat \<Rightarrow> bool \<Rightarrow> outbox \<Rightarrow> outbox" where
  "push_allowed clk i allowed s =
     (case ob_calls s ! i of
        Asked key user payload \<Rightarrow>
          if \<not> allowed then drop_call i (finish clk key D_SKIPPED (Some ''PUSH_DISABLED_BY_RECIPIENT'') 0 s)
          else start_send i key user payload 0 None s
      | _ \<Rightarrow> s)"

text \<open>What an attempt writes when the provider has answered.\<close>

definition record_attempt :: "int \<Rightarrow> string \<Rightarrow> nat \<Rightarrow> push_result \<Rightarrow> outbox \<Rightarrow> outbox" where
  "record_attempt clk key attemptsBefore result s =
     (let attempts = attemptsBefore + 1 in
      if pr_noDevices result then finish clk key D_SKIPPED (Some ''NO_DEVICE'') attempts s
      else if pr_delivered result > 0 then finish clk key D_SENT None attempts s
      else if \<not> pr_transientFailure result then finish clk key D_GAVE_UP (Some (nvl (pr_error result) ''REJECTED'')) attempts s
      else if attempts \<ge> PUSH_MAX_ATTEMPTS then finish clk key D_GAVE_UP (Some (nvl (pr_error result) ''TRANSIENT_FAILURE'')) attempts s
      else upd_delivery key (\<lambda>r. r\<lparr>dl_status := D_FAILED, dl_attempts := attempts,
             dl_lastError := Some (shorten (nvl (pr_error result) ''TRANSIENT_FAILURE'')),
             dl_nextAttemptAt := Some (clk + PUSH_RETRY_BACKOFF_SECONDS ! (attempts - 1) * 1000)\<rparr>) s)"

definition attempt_answered :: "int \<Rightarrow> nat \<Rightarrow> push_result \<Rightarrow> outbox \<Rightarrow> outbox" where
  "attempt_answered clk i result s =
     (case ob_calls s ! i of
        Sending key user payload attemptsBefore back \<Rightarrow>
          (let t = record_attempt clk key attemptsBefore result s in
           case back of None \<Rightarrow> drop_call i t | Some (now, rest) \<Rightarrow> set_call i (Sweeping now rest) t)
      | _ \<Rightarrow> s)"

section \<open>Retries\<close>

definition retryable :: "delivery \<Rightarrow> bool" where
  "retryable r \<longleftrightarrow> dl_channel r = CH_PUSH \<and> (dl_status r = D_PENDING \<or> dl_status r = D_FAILED) \<and> dl_attempts r < PUSH_MAX_ATTEMPTS
     \<and> dl_nextAttemptAt r \<noteq> None"

definition findNextDueAt :: "outbox \<Rightarrow> int option" where
  "findNextDueAt s =
     (case sort_key (\<lambda>r. nvl (dl_nextAttemptAt r) 0) (filter retryable (ob_rows s)) of [] \<Rightarrow> None | r # _ \<Rightarrow> dl_nextAttemptAt r)"

definition due_rows :: "int \<Rightarrow> outbox \<Rightarrow> delivery list" where
  "due_rows now s = take 50 (sort_key (\<lambda>r. nvl (dl_nextAttemptAt r) 0)
     (filter (\<lambda>r. retryable r \<and> nvl (dl_nextAttemptAt r) 0 \<le> now) (ob_rows s)))"

definition sweep_begins :: "int \<Rightarrow> outbox \<Rightarrow> outbox" where
  "sweep_begins now s = s\<lparr>ob_calls := ob_calls s @ [Sweeping now (due_rows now s)]\<rparr>"

definition claimable :: "delivery \<Rightarrow> delivery \<Rightarrow> bool" where
  "claimable row r \<longleftrightarrow> dl_id r = dl_id row \<and> (dl_status r = D_PENDING \<or> dl_status r = D_FAILED) \<and> dl_nextAttemptAt r = dl_nextAttemptAt row"

definition sweep_goes_on :: "int \<Rightarrow> nat \<Rightarrow> outbox \<Rightarrow> outbox" where
  "sweep_goes_on clk i s =
     (case ob_calls s ! i of
        Sweeping now [] \<Rightarrow> drop_call i s
      | Sweeping now (row # rest) \<Rightarrow>
          if count_where (claimable row) (ob_rows s) = 0 then set_call i (Sweeping now rest) s
          else let t = s\<lparr>ob_rows := upd_where (claimable row) (\<lambda>r. r\<lparr>dl_nextAttemptAt := Some (now + ATTEMPT_LEASE_SECONDS * 1000)\<rparr>) (ob_rows s)\<rparr>
               in (case dl_payload row of
                     None \<Rightarrow> set_call i (Sweeping now rest) (finish clk (dl_key row) D_GAVE_UP (Some ''MISSING_PAYLOAD'') (dl_attempts row) t)
                   | Some payload \<Rightarrow> start_send i (dl_key row) (dl_user row) payload (dl_attempts row) (Some (now, rest)) t)
      | _ \<Rightarrow> s)"

section \<open>Runs\<close>

definition no_deliveries :: outbox where
  "no_deliveries = \<lparr>ob_next = 1, ob_rows = [], ob_inbox = [], ob_calls = [], ob_sends = []\<rparr>"

text \<open>Any call may be the next to go on, and any may die.\<close>

inductive outbox_step :: "outbox \<Rightarrow> outbox \<Rightarrow> bool" where
  in_app: "deliverInApp clk enabled i pre s = (t, r) \<Longrightarrow> outbox_step s t"
| push: "deliverPush clk i pre s = (t, r) \<Longrightarrow> outbox_step s t"
| allowed: "j < length (ob_calls s) \<Longrightarrow> outbox_step s (push_allowed clk j b s)"
| answered: "j < length (ob_calls s) \<Longrightarrow> outbox_step s (attempt_answered clk j result s)"
| sweep: "outbox_step s (sweep_begins now s)"
| goes_on: "j < length (ob_calls s) \<Longrightarrow> outbox_step s (sweep_goes_on clk j s)"
| dies: "outbox_step s (drop_call j s)"

text \<open>Keys of the two channels end differently; a call only ever writes to the rows of its own channel.\<close>

definition push_key :: "string \<Rightarrow> bool" where
  "push_key k \<longleftrightarrow> (\<exists>e. k = e @ '':PUSH'')"

definition row_ok :: "delivery \<Rightarrow> bool" where
  "row_ok r \<longleftrightarrow> (case dl_channel r of
       CH_IN_APP \<Rightarrow> \<not> push_key (dl_key r) \<and> dl_status r \<in> {D_SENT, D_SKIPPED} \<and> dl_nextAttemptAt r = None
     | CH_PUSH \<Rightarrow> push_key (dl_key r) \<and> dl_attempts r \<le> PUSH_MAX_ATTEMPTS
         \<and> (if dl_status r \<in> {D_PENDING, D_FAILED} then dl_attempts r < PUSH_MAX_ATTEMPTS \<and> dl_nextAttemptAt r \<noteq> None else dl_nextAttemptAt r = None))"

definition listed_ok :: "delivery \<Rightarrow> bool" where
  "listed_ok r \<longleftrightarrow> push_key (dl_key r) \<and> dl_attempts r < PUSH_MAX_ATTEMPTS \<and> dl_nextAttemptAt r \<noteq> None"

definition call_ok :: "pending_call \<Rightarrow> bool" where
  "call_ok c = (case c of
       Asked k _ _ \<Rightarrow> push_key k
     | Sending k _ _ n back \<Rightarrow> push_key k \<and> n < PUSH_MAX_ATTEMPTS \<and> (case back of None \<Rightarrow> True | Some (_, rest) \<Rightarrow> list_all listed_ok rest)
     | Sweeping _ rest \<Rightarrow> list_all listed_ok rest)"

definition told :: "nat \<Rightarrow> string \<Rightarrow> delivery \<Rightarrow> bool" where
  "told u ty r \<longleftrightarrow> dl_channel r = CH_IN_APP \<and> dl_status r = D_SENT \<and> dl_user r = u \<and> dl_type r = ty"

definition outbox_inv :: "outbox \<Rightarrow> bool" where
  "outbox_inv s \<longleftrightarrow> distinct (map dl_key (ob_rows s)) \<and> list_all row_ok (ob_rows s) \<and> list_all call_ok (ob_calls s)
     \<and> (\<forall>u ty. count_where (\<lambda>n. nt_user n = u \<and> nt_type n = ty) (ob_inbox s) = count_where (told u ty) (ob_rows s))"

end
