(* ===== verification/Delivery_Props.thy ===== *)
theory Delivery_Props
  imports Deliveries
begin

text \<open>
  What every run of the delivery ledger keeps, whichever calls overlap or die: one row per event and channel, as many
  notifications as rows that say so, and a due time for every push that is not finished. And what the ledger does not
  prevent.
\<close>

section \<open>The invariant\<close>

lemma push_key_push [simp]: "push_key (e @ '':PUSH'')"
  by (auto simp: push_key_def)

lemma in_app_key [simp]: "\<not> push_key (e @ '':IN_APP'')"
proof
  assume "push_key (e @ '':IN_APP'')"
  then obtain d where "e @ '':IN_APP'' = d @ '':PUSH''" by (auto simp: push_key_def)
  then have "last (e @ '':IN_APP'') = last (d @ '':PUSH'')" by simp
  then show False by simp
qed

lemma no_deliveries_inv: "outbox_inv no_deliveries"
  by (simp add: outbox_inv_def no_deliveries_def)

lemma inv_rows:
  assumes "outbox_inv s"
    and "\<And>r. row_ok r \<Longrightarrow> q r \<Longrightarrow> dl_channel r = CH_PUSH \<and> row_ok (f r) \<and> dl_key (f r) = dl_key r \<and> dl_channel (f r) = CH_PUSH"
  shows "outbox_inv (s\<lparr>ob_rows := upd_where q f (ob_rows s)\<rparr>)"
proof -
  have ok: "list_all row_ok (ob_rows s)" using assms(1) by (simp add: outbox_inv_def)
  have "map dl_key (upd_where q f rs) = map dl_key rs \<and> list_all row_ok (upd_where q f rs)
      \<and> count_where (told u ty) (upd_where q f rs) = count_where (told u ty) rs" if "list_all row_ok rs" for rs u ty
    using that
  proof (induction rs)
    case (Cons r rs)
    then show ?case using assms(2) [of r] by (cases "q r") (auto simp: told_def)
  qed simp
  note k = this [OF ok]
  show ?thesis using assms(1) k by (simp add: outbox_inv_def)
qed

lemma inv_calls: "outbox_inv s \<Longrightarrow> list_all call_ok cs \<Longrightarrow> outbox_inv (s\<lparr>ob_calls := cs\<rparr>)"
  by (simp add: outbox_inv_def)

lemma inv_calls_ok: "outbox_inv s \<Longrightarrow> list_all call_ok (ob_calls s)"
  by (simp add: outbox_inv_def)

lemma inv_sends [simp]: "outbox_inv (s\<lparr>ob_sends := l\<rparr>) = outbox_inv s"
  by (simp add: outbox_inv_def)

lemma inv_drop_call: "outbox_inv s \<Longrightarrow> outbox_inv (drop_call i s)"
  unfolding drop_call_def by (rule inv_calls) (auto dest!: inv_calls_ok simp: list_all_iff dest: in_set_takeD in_set_dropD)

lemma inv_set_call: "outbox_inv s \<Longrightarrow> call_ok c \<Longrightarrow> outbox_inv (set_call i c s)"
  unfolding set_call_def
proof (rule inv_calls)
  assume "outbox_inv s" "call_ok c"
  then show "list_all call_ok ((ob_calls s)[i := c])"
    using set_update_subset_insert [of "ob_calls s" i c] by (auto dest!: inv_calls_ok simp: list_all_iff)
qed

lemma push_channel: "row_ok r \<Longrightarrow> push_key (dl_key r) \<Longrightarrow> dl_channel r = CH_PUSH"
  by (cases "dl_channel r") (simp_all add: row_ok_def)

lemma inv_push_rows:
  assumes "outbox_inv s" "push_key key"
    and "\<And>r. dl_key (f r) = dl_key r \<and> dl_channel (f r) = dl_channel r"
    and "\<And>r. row_ok r \<Longrightarrow> dl_channel r = CH_PUSH \<Longrightarrow> row_ok (f r)"
  shows "outbox_inv (upd_delivery key f s)"
  unfolding upd_delivery_def
proof (rule inv_rows [OF assms(1)])
  fix r assume r: "row_ok r" "dl_key r = key"
  have "dl_channel r = CH_PUSH" by (rule push_channel) (use r assms(2) in simp_all)
  then show "dl_channel r = CH_PUSH \<and> row_ok (f r) \<and> dl_key (f r) = dl_key r \<and> dl_channel (f r) = CH_PUSH"
    using r(1) assms(3,4) by simp
qed

lemma inv_finish:
  assumes "outbox_inv s" "push_key key" "status \<in> {D_SENT, D_GAVE_UP, D_SKIPPED}" "attempts \<le> PUSH_MAX_ATTEMPTS"
  shows "outbox_inv (finish clk key status err attempts s)"
  unfolding finish_def
proof (rule inv_push_rows [OF assms(1,2)])
  have s: "status \<noteq> D_PENDING" "status \<noteq> D_FAILED" using assms(3) by auto
  show "row_ok (r\<lparr>dl_status := status, dl_attempts := attempts, dl_lastError := e, dl_nextAttemptAt := None, dl_sentAt := d\<rparr>)"
    if "row_ok r" "dl_channel r = CH_PUSH" for r e d
    using that s assms(4) by (simp add: row_ok_def)
qed simp

lemma inv_record:
  assumes "outbox_inv s" "push_key key" "n < PUSH_MAX_ATTEMPTS"
  shows "outbox_inv (record_attempt clk key n result s)"
proof -
  have retry: "outbox_inv (upd_delivery key (\<lambda>r. r\<lparr>dl_status := D_FAILED, dl_attempts := n + 1, dl_lastError := e, dl_nextAttemptAt := Some d\<rparr>) s)"
    if "n + 1 < PUSH_MAX_ATTEMPTS" for e d
    by (rule inv_push_rows [OF assms(1,2)]) (use that in \<open>simp_all add: row_ok_def\<close>)
  have over: "outbox_inv (finish clk key status e (n + 1) s)" if "status \<in> {D_SENT, D_GAVE_UP, D_SKIPPED}" for status e
    by (rule inv_finish [OF assms(1,2) that]) (use assms(3) in simp)
  show ?thesis using over retry unfolding record_attempt_def Let_def by (simp only: insert_iff simp_thms not_le split: if_split) blast
qed

lemma inv_create:
  assumes "outbox_inv s" "create_delivery r s = Some t" "dl_channel r = CH_PUSH" "push_key (dl_key r)" "dl_status r = D_PENDING"
    "dl_attempts r = 0" "dl_nextAttemptAt r \<noteq> None"
  shows "outbox_inv t"
proof -
  have t: "t = s\<lparr>ob_rows := ob_rows s @ [r\<lparr>dl_id := ob_next s\<rparr>], ob_next := ob_next s + 1\<rparr>" and new: "dl_key r \<notin> dl_key ` set (ob_rows s)"
    using assms(2) by (auto simp: create_delivery_def find_delivery_def find_None_iff split: if_splits)
  have "row_ok (r\<lparr>dl_id := ob_next s\<rparr>)"
    using assms(3-7) by (simp add: row_ok_def PUSH_MAX_ATTEMPTS_def PUSH_RETRY_BACKOFF_SECONDS_def)
  then show ?thesis using assms(1,3) new by (simp add: t outbox_inv_def told_def)
qed

section \<open>Each step keeps it\<close>

lemma in_app_inv:
  assumes "deliverInApp clk enabled i pre s = (t, r)" "outbox_inv s"
  shows "outbox_inv t"
proof -
  let ?k = "di_dedupeKey i @ '':IN_APP''"
  let ?row = "\<lparr>dl_id = ob_next s, dl_key = ?k, dl_user = di_user i, dl_type = di_type i, dl_channel = CH_IN_APP,
     dl_status = (if enabled then D_SENT else D_SKIPPED), dl_attempts = 1, dl_lastError = (if enabled then None else Some ''IN_APP_DISABLED_BY_RECIPIENT''),
     dl_nextAttemptAt = None, dl_payload = None, dl_deepLink = di_deepLink i, dl_sentAt = (if enabled then Some clk else None)\<rparr>"
  let ?msg = "\<lparr>nt_user = di_user i, nt_type = di_type i, nt_payload = di_inAppPayload i, nt_deepLink = di_deepLink i, nt_sentAt = clk\<rparr>"
  show ?thesis
  proof (cases "t = s")
    case False
    have free: "\<forall>x. x \<in> set (ob_rows s) \<longrightarrow> dl_key x \<noteq> ?k"
      using assms(1) False by (auto simp: deliverInApp_def Let_def create_delivery_def find_delivery_def find_None_iff split: option.splits if_splits)
    then have same: "upd_where (\<lambda>r. dl_key r = ?k) f (ob_rows s) = ob_rows s" for f by (simp add: upd_where_def map_idI)
    have "find (\<lambda>r. dl_key r = ?k) (ob_rows s) = None" using free by (simp add: find_None_iff)
    then have t: "ob_rows t = ob_rows s @ [?row] \<and> ob_inbox t = ob_inbox s @ (if enabled then [?msg] else []) \<and> ob_calls t = ob_calls s"
      using assms(1) False
      by (simp add: deliverInApp_def Let_def create_delivery_def find_delivery_def notifyInTransaction_def upd_delivery_def same
          split: option.splits if_splits) (clarsimp simp: same)+
    have "row_ok ?row" by (simp add: row_ok_def)
    then show ?thesis using assms(2) t free by (auto simp: outbox_inv_def told_def)
  qed (use assms(2) in simp)
qed

lemma push_inv:
  assumes "deliverPush clk i pre s = (t, r)" "outbox_inv s"
  shows "outbox_inv t"
proof (cases "t = s")
  case False
  let ?row = "\<lparr>dl_id = 0, dl_key = di_dedupeKey i @ '':PUSH'', dl_user = di_user i, dl_type = di_type i, dl_channel = CH_PUSH,
                 dl_status = D_PENDING, dl_attempts = 0, dl_lastError = None,
                 dl_nextAttemptAt = Some (clk + ATTEMPT_LEASE_SECONDS * 1000), dl_payload = Some (di_push i),
                 dl_deepLink = di_deepLink i, dl_sentAt = None\<rparr>"
  obtain s1 where c: "create_delivery ?row s = Some s1" and t: "t = s1\<lparr>ob_calls := ob_calls s1 @ [Asked (di_dedupeKey i @ '':PUSH'') (di_user i) (di_push i)]\<rparr>"
    using assms(1) False by (auto simp: deliverPush_def Let_def split: option.splits)
  have "outbox_inv s1" by (rule inv_create [OF assms(2) c]) simp_all
  then show ?thesis unfolding t by (intro inv_calls) (auto dest: inv_calls_ok simp: call_ok_def)
qed (use assms(2) in simp)

lemma inv_call: "outbox_inv s \<Longrightarrow> j < length (ob_calls s) \<Longrightarrow> call_ok (ob_calls s ! j)"
  by (auto dest!: inv_calls_ok simp: list_all_length)

lemma allowed_inv:
  assumes "outbox_inv s" "j < length (ob_calls s)"
  shows "outbox_inv (push_allowed clk j b s)"
proof (cases "ob_calls s ! j")
  case (Asked k u payload)
  then have "push_key k" using inv_call [OF assms] by (simp add: call_ok_def)
  moreover have "0 < PUSH_MAX_ATTEMPTS" by (simp add: PUSH_MAX_ATTEMPTS_def PUSH_RETRY_BACKOFF_SECONDS_def)
  ultimately show ?thesis using assms(1) Asked
    by (auto simp: push_allowed_def start_send_def call_ok_def intro!: inv_drop_call inv_finish inv_set_call)
qed (use assms(1) in \<open>simp_all add: push_allowed_def\<close>)

lemma answered_inv:
  assumes "outbox_inv s" "j < length (ob_calls s)"
  shows "outbox_inv (attempt_answered clk j result s)"
proof (cases "ob_calls s ! j")
  case (Sending k u payload n origin)
  then have c: "push_key k" "n < PUSH_MAX_ATTEMPTS" "case origin of None \<Rightarrow> True | Some (_, rest) \<Rightarrow> list_all listed_ok rest"
    using inv_call [OF assms] by (simp_all add: call_ok_def)
  have "outbox_inv (record_attempt clk k n result s)" by (rule inv_record [OF assms(1) c(1,2)])
  then show ?thesis using Sending c(3)
    by (auto simp: attempt_answered_def Let_def call_ok_def split: option.splits intro!: inv_drop_call inv_set_call)
qed (use assms(1) in \<open>simp_all add: attempt_answered_def\<close>)

lemma retryable_listed: "row_ok r \<Longrightarrow> retryable r \<Longrightarrow> listed_ok r"
  by (auto simp: row_ok_def retryable_def listed_ok_def split: delivery_channel.splits)

lemma sweep_inv: "outbox_inv s \<Longrightarrow> outbox_inv (sweep_begins now s)"
  unfolding sweep_begins_def
proof (rule inv_calls)
  assume inv: "outbox_inv s"
  have "listed_ok r" if "r \<in> set (due_rows now s)" for r
    using that inv retryable_listed by (auto simp: due_rows_def outbox_inv_def list_all_iff dest!: in_set_takeD)
  then show "list_all call_ok (ob_calls s @ [Sweeping now (due_rows now s)])"
    using inv_calls_ok [OF inv] by (simp add: call_ok_def list_all_iff)
qed

lemma goes_on_inv:
  assumes "outbox_inv s" "j < length (ob_calls s)"
  shows "outbox_inv (sweep_goes_on clk j s)"
proof (cases "ob_calls s ! j")
  case (Sweeping now rows)
  show ?thesis
  proof (cases rows)
    case Nil
    then show ?thesis using Sweeping assms(1) by (simp add: sweep_goes_on_def inv_drop_call)
  next
    case (Cons row rest)
    then have c: "listed_ok row" "list_all listed_ok rest" using inv_call [OF assms] Sweeping by (simp_all add: call_ok_def)
    let ?t = "s\<lparr>ob_rows := upd_where (claimable row) (\<lambda>r. r\<lparr>dl_nextAttemptAt := Some (now + ATTEMPT_LEASE_SECONDS * 1000)\<rparr>) (ob_rows s)\<rparr>"
    have t: "outbox_inv ?t"
      by (rule inv_rows [OF assms(1)]) (auto simp: row_ok_def claimable_def split: delivery_channel.splits if_splits)
    have next_row: "call_ok (Sweeping now rest)" using c by (simp add: call_ok_def)
    have skip: "outbox_inv (set_call j (Sweeping now rest) s)" by (rule inv_set_call [OF assms(1) next_row])
    have lost: "outbox_inv (set_call j (Sweeping now rest) (finish clk (dl_key row) D_GAVE_UP e (dl_attempts row) ?t))" for e
      using c(1) by (intro inv_set_call inv_finish t next_row) (simp_all add: listed_ok_def)
    have send: "outbox_inv (start_send j (dl_key row) u p (dl_attempts row) (Some (now, rest)) ?t)" for u p
      unfolding start_send_def by (rule inv_set_call) (use t c in \<open>simp_all add: call_ok_def listed_ok_def\<close>)
    show ?thesis using Sweeping Cons skip lost send by (simp add: sweep_goes_on_def Let_def split: option.split)
  qed
qed (use assms(1) in \<open>simp_all add: sweep_goes_on_def\<close>)

lemma outbox_step_inv: "outbox_step s t \<Longrightarrow> outbox_inv s \<Longrightarrow> outbox_inv t"
  by (induction rule: outbox_step.induct) (blast intro: in_app_inv push_inv allowed_inv answered_inv sweep_inv goes_on_inv inv_drop_call)+

interpretation deliveries: invariant outbox_step outbox_inv
  by unfold_locales (rule outbox_step_inv)

section \<open>Properties\<close>

text \<open>C32: an event notifies once. However requests, sweeps and crashes interleave, an event has at most one row per channel, and the
  recipient's inbox holds exactly one notification for every row that says it was sent.\<close>

theorem one_notification_per_event:
  assumes "outbox_step\<^sup>*\<^sup>* no_deliveries s"
  shows "distinct (map dl_key (ob_rows s))
    \<and> count_where (\<lambda>n. nt_user n = u \<and> nt_type n = ty) (ob_inbox s)
      = count_where (\<lambda>r. dl_channel r = CH_IN_APP \<and> dl_status r = D_SENT \<and> dl_user r = u \<and> dl_type r = ty) (ob_rows s)"
proof -
  have "outbox_inv s" by (rule deliveries.run_inv [OF assms no_deliveries_inv])
  then show ?thesis by (simp add: outbox_inv_def told_def [abs_def])
qed

text \<open>C33: no push is forgotten. Whatever overlapped or died, a push that is neither sent nor skipped nor given up has a counter
  of recorded attempts below five, so that the retries do not pass it over, and a due time no earlier than the one the scheduler is
  told; and a sweep from then on finds it, unless it is busy with fifty that are due no later. The counter does not count the attempts
  whose process died before their outcome was recorded.\<close>

theorem no_push_is_forgotten:
  assumes "outbox_step\<^sup>*\<^sup>* no_deliveries s" "r \<in> set (ob_rows s)" "dl_channel r = CH_PUSH" "dl_status r \<in> {D_PENDING, D_FAILED}"
  shows "\<exists>due first. dl_nextAttemptAt r = Some due \<and> dl_attempts r < 5 \<and> findNextDueAt s = Some first \<and> first \<le> due
    \<and> (\<forall>now\<ge>due. r \<in> set (due_rows now s)
         \<or> length (due_rows now s) = 50 \<and> (\<forall>q\<in>set (due_rows now s). nvl (dl_nextAttemptAt q) 0 \<le> due))"
proof -
  have inv: "outbox_inv s" by (rule deliveries.run_inv [OF assms(1) no_deliveries_inv])
  let ?due = "\<lambda>r. nvl (dl_nextAttemptAt r) 0"
  have ok: "row_ok r" using inv assms(2) by (simp add: outbox_inv_def list_all_iff)
  then obtain due where due: "dl_nextAttemptAt r = Some due" and few: "dl_attempts r < PUSH_MAX_ATTEMPTS"
    using assms(3,4) by (auto simp: row_ok_def)
  have five: "PUSH_MAX_ATTEMPTS = 5" by (simp add: PUSH_MAX_ATTEMPTS_def PUSH_RETRY_BACKOFF_SECONDS_def)
  have re: "retryable r" using assms(3,4) due few by (auto simp: retryable_def)
  let ?l = "sort_key ?due (filter retryable (ob_rows s))"
  have mem: "r \<in> set ?l" using re assms(2) by simp
  then obtain f fs where l: "?l = f # fs" by (cases ?l) auto
  have "f \<in> set ?l" unfolding l by simp
  then have "retryable f" by simp
  then obtain first where first: "dl_nextAttemptAt f = Some first" by (auto simp: retryable_def)
  have "sorted (map ?due ?l)" by simp
  then have "\<forall>x\<in>set ?l. ?due f \<le> ?due x" unfolding l by auto
  then have "first \<le> due" using mem first due by fastforce
  moreover have "findNextDueAt s = Some first" using l first by (simp add: findNextDueAt_def)
  moreover have "r \<in> set (due_rows now s) \<or> length (due_rows now s) = 50 \<and> (\<forall>q\<in>set (due_rows now s). ?due q \<le> due)" if "due \<le> now" for now
  proof -
    let ?d = "sort_key ?due (filter (\<lambda>r. retryable r \<and> ?due r \<le> now) (ob_rows s))"
    have r: "r \<in> set ?d" using re assms(2) due that by simp
    have srt: "sorted (map ?due ?d)" by simp
    show ?thesis
    proof (cases "r \<in> set (take 50 ?d)")
      case False
      then have late: "r \<in> set (drop 50 ?d)" using r by (metis append_take_drop_id in_set_conv_decomp_first set_append Un_iff)
      have "?due q \<le> due" if "q \<in> set (take 50 ?d)" for q
      proof -
        have "sorted (map ?due (take 50 ?d) @ map ?due (drop 50 ?d))" using srt by (metis append_take_drop_id map_append)
        then have "\<forall>x\<in>set (take 50 ?d). \<forall>y\<in>set (drop 50 ?d). ?due x \<le> ?due y" by (simp only: sorted_append set_map) blast
        then have "?due q \<le> ?due r" using that late by blast
        then show ?thesis using due by simp
      qed
      moreover have "length (take 50 ?d) = 50" using late by (cases "50 \<le> length ?d") auto
      ultimately show ?thesis by (simp add: due_rows_def)
    qed (simp add: due_rows_def)
  qed
  ultimately show ?thesis using due few five by (intro exI [of _ due] exI [of _ first]) auto
qed

section \<open>What the ledger does not prevent\<close>

definition demo_event :: deliver_input where
  "demo_event = \<lparr>di_dedupeKey = ''e'', di_user = 7, di_type = ''t'', di_inAppPayload = [], di_deepLink = [],
     di_push = \<lparr>pp_title = ''T'', pp_body = ''B'', pp_data = []\<rparr>\<rparr>"

definition pushed :: outbox where
  "pushed = fst (deliverPush 0 demo_event no_deliveries no_deliveries)"

definition overlapped :: outbox where
  "overlapped = sweep_goes_on 120000 1 (sweep_begins 120000 (push_allowed 0 0 True pushed))"

text \<open>
  An attempt that takes longer than its lease is made a second time; when the first fails after the second was
  delivered, its failure overwrites the success and the push is due a third time.
\<close>

theorem late_failure_reopens_a_sent_push:
  "\<exists>s t. outbox_step\<^sup>*\<^sup>* no_deliveries s \<and> outbox_step\<^sup>*\<^sup>* s t \<and> map dl_status (ob_rows s) = [D_SENT] \<and> map dl_status (ob_rows t) = [D_FAILED]
     \<and> ob_sends t = [''e:PUSH'', ''e:PUSH''] \<and> due_rows 1000000 t \<noteq> []"
proof -
  let ?s = "attempt_answered 121000 1 (sendToUser (Inr 1) (Inr [True])) overlapped"
  let ?t = "attempt_answered 122000 0 (sendToUser (Inr 1) (Inl ''timeout'')) ?s"
  let ?a = "push_allowed 0 0 True pushed"
  have n: "0 < length (ob_calls pushed)" "1 < length (ob_calls (sweep_begins 120000 ?a))" "1 < length (ob_calls overlapped)" "0 < length (ob_calls ?s)"
    by code_simp+
  have "outbox_step no_deliveries pushed" unfolding pushed_def by (rule outbox_step.push) (rule prod.collapse [symmetric])
  moreover have "outbox_step pushed ?a" by (rule outbox_step.allowed [OF n(1)])
  moreover have "outbox_step ?a (sweep_begins 120000 ?a)" by (rule outbox_step.sweep)
  moreover have "outbox_step (sweep_begins 120000 ?a) overlapped" unfolding overlapped_def by (rule outbox_step.goes_on [OF n(2)])
  moreover have "outbox_step overlapped ?s" by (rule outbox_step.answered [OF n(3)])
  ultimately have s: "outbox_step\<^sup>*\<^sup>* no_deliveries ?s" by (meson r_into_rtranclp rtranclp_trans)
  have t: "outbox_step\<^sup>*\<^sup>* ?s ?t" by (rule r_into_rtranclp) (rule outbox_step.answered [OF n(4)])
  have "map dl_status (ob_rows ?s) = [D_SENT]" "map dl_status (ob_rows ?t) = [D_FAILED]" "ob_sends ?t = [''e:PUSH'', ''e:PUSH'']"
    "due_rows 1000000 ?t \<noteq> []" by code_simp+
  with s t show ?thesis by - (rule exI [of _ ?s], rule exI [of _ ?t], simp only: simp_thms)
qed

text \<open>
  A call that dies before it learned the recipient's preference leaves a row that the sweep pushes without asking.
\<close>

theorem sweep_pushes_without_asking:
  "\<exists>t. outbox_step\<^sup>*\<^sup>* no_deliveries t \<and> ob_sends (drop_call 0 pushed) = [] \<and> ob_calls (drop_call 0 pushed) = []
     \<and> t = sweep_goes_on 120000 0 (sweep_begins 120000 (drop_call 0 pushed)) \<and> ob_sends t = [''e:PUSH'']"
proof -
  let ?d = "drop_call 0 pushed"
  let ?t = "sweep_goes_on 120000 0 (sweep_begins 120000 ?d)"
  have n: "0 < length (ob_calls (sweep_begins 120000 ?d))" by code_simp
  have "outbox_step no_deliveries pushed" unfolding pushed_def by (rule outbox_step.push) (rule prod.collapse [symmetric])
  moreover have "outbox_step pushed ?d" by (rule outbox_step.dies)
  moreover have "outbox_step ?d (sweep_begins 120000 ?d)" by (rule outbox_step.sweep)
  moreover have "outbox_step (sweep_begins 120000 ?d) ?t" by (rule outbox_step.goes_on [OF n])
  ultimately have "outbox_step\<^sup>*\<^sup>* no_deliveries ?t" by (meson r_into_rtranclp rtranclp_trans)
  moreover have "ob_sends ?d = []" "ob_calls ?d = []" "ob_sends ?t = [''e:PUSH'']" by code_simp+
  ultimately show ?thesis by blast
qed

text \<open>
  The limit of attempts is the counter's, and the counter is only raised by the outcome that is recorded. A push whose
  process dies after each request to the provider is sent as often as the sweeps come round: here ten times, and it still
  counts no attempt and is due again.
\<close>

fun crashes :: "int list \<Rightarrow> outbox \<Rightarrow> outbox" where
  "crashes [] s = s"
| "crashes (now # nows) s = crashes nows (drop_call 0 (sweep_goes_on now 0 (sweep_begins now s)))"

lemma crashes_run: "outbox_step\<^sup>*\<^sup>* s (crashes nows s)"
proof (induction nows arbitrary: s)
  case (Cons now nows)
  have "0 < length (ob_calls (sweep_begins now s))" by (simp add: sweep_begins_def)
  then have "outbox_step\<^sup>*\<^sup>* s (drop_call 0 (sweep_goes_on now 0 (sweep_begins now s)))"
    by (meson outbox_step.sweep outbox_step.goes_on outbox_step.dies converse_rtranclp_into_rtranclp r_into_rtranclp)
  then show ?case using Cons.IH by (auto intro: rtranclp_trans)
qed simp

theorem crashed_attempts_are_not_counted:
  "\<exists>s. outbox_step\<^sup>*\<^sup>* no_deliveries s \<and> ob_sends s = replicate 10 ''e:PUSH''
     \<and> map (\<lambda>r. (dl_key r, dl_status r, dl_attempts r)) (due_rows 2000000 s) = [(''e:PUSH'', D_PENDING, 0)]"
proof -
  let ?s = "crashes (map (\<lambda>n. 120000 * int n) [1..<11]) (drop_call 0 pushed)"
  have "outbox_step no_deliveries pushed" unfolding pushed_def by (rule outbox_step.push) (rule prod.collapse [symmetric])
  then have "outbox_step\<^sup>*\<^sup>* no_deliveries ?s"
    by (meson outbox_step.dies crashes_run converse_rtranclp_into_rtranclp)
  moreover have "ob_sends ?s = replicate 10 ''e:PUSH''" by code_simp
  moreover have "map (\<lambda>r. (dl_key r, dl_status r, dl_attempts r)) (due_rows 2000000 ?s) = [(''e:PUSH'', D_PENDING, 0)]" by code_simp
  ultimately show ?thesis by - (rule exI [of _ ?s], simp only: simp_thms)
qed

lemma one_notification_per_event_witness:
  "\<exists>s. outbox_step\<^sup>*\<^sup>* no_deliveries s \<and> distinct (map dl_key (ob_rows s)) \<and> length (ob_inbox s) = 1
     \<and> count_where (\<lambda>r. dl_channel r = CH_IN_APP \<and> dl_status r = D_SENT \<and> dl_user r = 7 \<and> dl_type r = ''t'') (ob_rows s) = 1"
proof -
  let ?s = "fst (deliverInApp 0 True demo_event no_deliveries no_deliveries)"
  have "outbox_step no_deliveries ?s" by (rule outbox_step.in_app) (rule prod.collapse [symmetric])
  then have s: "outbox_step\<^sup>*\<^sup>* no_deliveries ?s" by (rule r_into_rtranclp)
  have "length (ob_inbox ?s) = 1" "count_where (\<lambda>n. nt_user n = 7 \<and> nt_type n = ''t'') (ob_inbox ?s) = 1" by code_simp+
  then show ?thesis using s one_notification_per_event [OF s, of 7 "''t''"] by (intro exI [of _ ?s]) simp
qed

lemma no_push_is_forgotten_witness:
  "\<exists>first. findNextDueAt pushed = Some first \<and> first \<le> 120000"
proof -
  have "outbox_step no_deliveries pushed" unfolding pushed_def by (rule outbox_step.push) (rule prod.collapse [symmetric])
  then have s: "outbox_step\<^sup>*\<^sup>* no_deliveries pushed" by (rule r_into_rtranclp)
  have c: "map (\<lambda>r. (dl_channel r, dl_status r, dl_nextAttemptAt r)) (ob_rows pushed) = [(CH_PUSH, D_PENDING, Some 120000)]" by code_simp
  then obtain r where r: "r \<in> set (ob_rows pushed)" "dl_channel r = CH_PUSH" "dl_status r = D_PENDING" "dl_nextAttemptAt r = Some 120000"
    by (cases "ob_rows pushed") auto
  then show ?thesis using no_push_is_forgotten [OF s r(1)] by auto
qed

end
