(* ===== verification/Spec2Isabelle.thy ===== *)
theory Spec2Isabelle
  imports System Auto_Pass Scheduling Ai_Credits Tokens Otp Idempotency Inventory_Cases Invoice_Props
    Dues_Props Catalog_Props Delivery_Props
begin

text \<open>
  Verification of the backend of a salon platform: appointments, the live queue with its chairs and
  barbers and its automatic assignment, wallets of promotional credits, campaigns, charges, the sweeps that end
  what was abandoned with the scheduler that runs them, sessions and one-time codes, replayed requests, the
  credits of the assistant, the stock of a shop and its invoices,
  barcodes and imported text, and the ledger of notification deliveries.

  \<^bold>\<open>The program.\<close> The backend (\<^verbatim>\<open>apps/backend/src\<close>) is a set of request handlers and periodic jobs over one
  PostgreSQL database, with pure rules shared with the clients in \<^verbatim>\<open>packages/shared/src\<close>. A handler reads rows
  (outside any lock), validates, and commits one transaction that takes advisory locks and re-checks what must
  hold, mostly by conditional updates whose affected-row count is tested. The queue engine
  (\<^verbatim>\<open>queue/queue.service.ts\<close>) and the bookings service (\<^verbatim>\<open>bookings/bookings.service.ts\<close>) share the reservation
  authority (\<^verbatim>\<open>bookings/reservation.service.ts\<close>): an appointment, a running visit, a held assignment and a chair
  taken by a local customer all compete for the same barbers and chairs.

  \<^bold>\<open>How it is modelled.\<close> The database is the record \<open>db\<close> of \<^verbatim>\<open>Schema\<close>, one list of rows per table. A handler is
  a function \<open>handler now clk pre s arguments\<close>: \<open>pre\<close> is the snapshot its reads before the transaction saw, \<open>s\<close> the
  database the transaction runs on, \<open>now\<close> and \<open>clk\<close> its clock readings; the result is an error of \<open>app_error\<close>
  or the database after the commit. Each transaction is atomic, as its advisory lock or its claim makes it; what
  may be stale is what is read from \<open>pre\<close>. Realtime events, notifications, audit rows and requests to run the
  allocator are the \<open>db_events\<close> of the result, in order. Identifiers are natural numbers, fresh from
  \<open>db_next\<close>; times are integers of milliseconds; a \<open>Decimal(10,2)\<close> column is an integer of paise, and amounts in
  rupees are rationals. The zone database of the runtime, the order of rows the database leaves open and
  \<open>sha256\<close> are parameters.

  \<^bold>\<open>Theories.\<close>
  \<^item> \<^verbatim>\<open>Prelude\<close>: errors as sums with \<open>guardE\<close>, \<open>theE\<close>, \<open>bindE\<close>; tables and the queries of the client library;
    partial unique indexes; the locale of invariants along a step relation and the locale of conditional claims
    that are spent by succeeding.
  \<^item> \<^verbatim>\<open>Money\<close> (\<^verbatim>\<open>shared/src/money\<close>) and \<^verbatim>\<open>Calc\<close> (\<^verbatim>\<open>shared/src/calc\<close>): decimal strings and paise, percentages,
    charges, the cap on redemptions, waits.
  \<^item> \<^verbatim>\<open>Schema\<close>, \<^verbatim>\<open>Demo\<close>: rows, tables, errors, events; a small concrete salon for the examples.
  \<^item> \<^verbatim>\<open>Timezone\<close> (\<^verbatim>\<open>common/timezone\<close>), \<^verbatim>\<open>Access\<close> (\<^verbatim>\<open>common/salon-access\<close>): the calendar of a shop; every access assertion
    with the policy over the role table that it decides, refusals included.
  \<^item> \<^verbatim>\<open>Reservation\<close>, \<^verbatim>\<open>Availability\<close> (\<^verbatim>\<open>bookings/reservation.service.ts\<close>, \<^verbatim>\<open>availability.service.ts\<close>): who is free
    for an interval, opening hours, the slot grid and its agreement with what booking accepts.
  \<^item> \<^verbatim>\<open>Credits\<close> (\<^verbatim>\<open>credits/customer-credits.service.ts\<close>): redemption in order of expiry, restoration, grants; the
    locale of wallets and its interpretation on the model.
  \<^item> \<^verbatim>\<open>Offers\<close> (\<^verbatim>\<open>offers/offers.service.ts\<close>, \<^verbatim>\<open>shared/src/offers.ts\<close>): life cycle of campaigns, prices, eligibility,
    the check inside the booking transaction.
  \<^item> \<^verbatim>\<open>Queue_Base\<close>, \<^verbatim>\<open>Queue\<close> (\<^verbatim>\<open>queue/queue.service.ts\<close>, \<^verbatim>\<open>queue-assignment-release.service.ts\<close>,
    \<^verbatim>\<open>manual-chair-occupancy.service.ts\<close>): waits and positions, joining, calling, assigning, starting, moving,
    completing, cancelling, guest tickets, chairs.
  \<^item> \<^verbatim>\<open>Seat_Invariant\<close>, \<^verbatim>\<open>Queue_Steps\<close>, \<^verbatim>\<open>Queue_Frame\<close>: the invariant of the shop floor, with the chairs that a shop
    occupies by hand, that every queue handler keeps it whatever snapshot it read, and what the queue handlers leave alone.
  \<^item> \<^verbatim>\<open>Bookings\<close>, \<^verbatim>\<open>Booking_Props\<close>, \<^verbatim>\<open>No_Show\<close>, \<^verbatim>\<open>Settlement\<close> (\<^verbatim>\<open>bookings/bookings.service.ts\<close>,
    \<^verbatim>\<open>cancellation-policy.service.ts\<close>, \<^verbatim>\<open>booking-no-show.service.ts\<close>): creation, cancellation, rescheduling,
    no-shows; what each settles, exactly and once.
  \<^item> \<^verbatim>\<open>Expiry\<close> (\<^verbatim>\<open>bookings/booking-expiry.service.ts\<close>, \<^verbatim>\<open>queue/queue-entry-expiry.service.ts\<close>): the sweeps and the
    deadlines they register.
  \<^item> \<^verbatim>\<open>System\<close>: all handlers as one step relation in which every commit may have read any earlier database, and the
    invariants of every run; the runs that show where the code falls short of its documents.

  \<^item> \<^verbatim>\<open>Auto_Assign\<close>, \<^verbatim>\<open>Auto_Pass\<close> (\<^verbatim>\<open>owner-ops/queue-auto-assign.service.ts\<close>): the pure planner, the pass over a salon
    that reads, plans and seats customers through the queue's own \<open>assign\<close>, its entry points; soundness and fairness of
    a plan, and that the pass keeps the floor invariant and reports only visits it started.
  \<^item> \<^verbatim>\<open>Scheduling\<close> (\<^verbatim>\<open>queue/queue-auto-assign.trigger.ts\<close>, \<^verbatim>\<open>common/db-deadline-scheduler\<close>): what runs the pass and the
    sweeps, as the steps between two \<open>await\<close>s; no request or signal is lost and nothing of one kind overlaps.
  \<^item> \<^verbatim>\<open>Tokens\<close> (\<^verbatim>\<open>auth/services/token.service.ts\<close>): sessions of an audience, rotation of refresh tokens, revocation.
  \<^item> \<^verbatim>\<open>Otp_Config\<close>, \<^verbatim>\<open>Otp\<close> (\<^verbatim>\<open>auth/services/otp-config.ts\<close>, \<^verbatim>\<open>otp.service.ts\<close>): settings, admission and verification of
    one-time codes under any interleaving of their statements; the rations count what was admitted since the rows of a
    number were last deleted with an account, and a deletion resets them.
  \<^item> \<^verbatim>\<open>Idempotency\<close> (\<^verbatim>\<open>common/interceptors/idempotency.interceptor.ts\<close>): the claim of a key, the run of the handler, and
    what a retry gets: the answer of the one request that finished for the key, with the same text.
  \<^item> \<^verbatim>\<open>Ai_Credits\<close> (\<^verbatim>\<open>premium/ai-credit.service.ts\<close>, \<^verbatim>\<open>premium-entitlement.service.ts\<close>,
    \<^verbatim>\<open>style-advisor/style-advisor.service.ts\<close>): credits held before a generation and settled after it, against their
    ledger.

  \<^item> \<^verbatim>\<open>Stock\<close> (\<^verbatim>\<open>inventory/inventory.service.ts\<close>, the trigger of \<^verbatim>\<open>inventory_movements\<close>), \<^verbatim>\<open>Stock_Catalog\<close>
    (\<^verbatim>\<open>product-catalog.service.ts\<close>), \<^verbatim>\<open>Service_Usage\<close> (\<^verbatim>\<open>service-usage.service.ts\<close>, \<^verbatim>\<open>shared/src/service-usage.ts\<close>):
    the ledger and the products, receiving and moving between shelves, recipes and what visits use up.
    \<^verbatim>\<open>Inventory_Props\<close>: every run keeps stock and ledger in agreement and deducts a service once; \<^verbatim>\<open>Inventory_Cases\<close>:
    keys, schema, transfers and conversion, and a concrete shop.

  \<^item> \<^verbatim>\<open>Invoice_Math\<close> (\<^verbatim>\<open>shared/src/owner-ops.ts\<close>), \<^verbatim>\<open>Invoices\<close> (\<^verbatim>\<open>owner-ops/invoices.service.ts\<close>), \<^verbatim>\<open>Invoice_Props\<close>: totals, tax and
    the split of a discount; issuing, payments and voiding; numbers without gaps and invoices that stay what they were.

  \<^item> \<^verbatim>\<open>Dues\<close>, \<^verbatim>\<open>Dues_Props\<close> (\<^verbatim>\<open>dashboard-customers/cancellation-courtesy-waiver.service.ts\<close>,
    \<^verbatim>\<open>dashboard-customers.service.ts\<close>): charges waived and restored, as further commits of \<^verbatim>\<open>System\<close>; charges are never
    rewritten and only waived or made outstanding again, courtesies are limited while each transaction is atomic, and the race when it is not.
  \<^item> \<^verbatim>\<open>Barcodes\<close>, \<^verbatim>\<open>Csv\<close> (\<^verbatim>\<open>shared/src/product-catalog.ts\<close>): check digits and the normal form of a barcode; the reader
    of comma-separated text against a writer of the format. \<^verbatim>\<open>Catalog_Import\<close>, \<^verbatim>\<open>Master_Catalog\<close>
    (\<^verbatim>\<open>product-catalog.service.ts\<close>, \<^verbatim>\<open>admin-inventory.service.ts\<close>), \<^verbatim>\<open>Catalog_Props\<close>: the validation of a file, and the catalogue
    all shops share: lookup, submission, review, import. Every code leads to its product, and an import can be repeated.
  \<^item> \<^verbatim>\<open>Deliveries\<close>, \<^verbatim>\<open>Delivery_Props\<close> (\<^verbatim>\<open>notifications/notification-delivery.service.ts\<close>): one row per event and channel,
    attempts cut at their \<open>await\<close>s, retries and crashes; no second notification, no push forgotten, the double push
    of an attempt that outlives its lease, and the attempts of dying processes that no counter sees.

  The scheduler, sessions, codes, replayed requests, assistant credits, the inventory, the invoices, the shared catalogue and the deliveries share no rows with the others
  (the inventory and the invoices only read bookings and visits); each has a record of its own for the tables (or, for the
  scheduler, the objects in memory) it owns, and its own step relation.

  \<^bold>\<open>Bounds.\<close> No definition uses fuel except the four corrections of \<open>zonedWallTimeToUtc\<close>, which are the source's own
  bound. Recursions are structural or, for the slot grid, decrease the distance to the end of the window.
  Integers are unbounded where the source uses JavaScript numbers below the safe range; the conversions of \<open>Money\<close>
  reject what is outside it.

  \<^bold>\<open>Joined transactions.\<close> Handlers with several transactions are cut at them where the properties depend on it: the
  deliveries at every \<open>await\<close>, the import of a catalogue at its chunks, a release of assignments at its rows. A receipt of
  stock, a transfer between shelves and an automatic deduction run as one commit, so that the states after a partial
  failure are left out; so is the failure of an import in which a code is inserted by another transaction between the
  look-up and the creation of its row.

  \<^bold>\<open>Not modelled.\<close> Columns that are only displayed; listings, dashboards and analytics; the conversational assistant,
  the sign-in flows, salon setup, the forecasts of the inventory, the notification pages, the customer relations pages,
  realtime transport, storage, the web and mobile clients, and the cryptographic functions. \<open>haversineDistanceKm\<close> is floating-point
  trigonometry.
\<close>

end
